(* ===== verification/Prelude.thy ===== *)
theory Prelude
  imports
    Main
    "HOL-Library.Sublist"
    "HOL-Library.List_Lexorder"
    "HOL-Library.Char_ord"
    "HOL-Library.Multiset"
begin

section \<open>Prelude: strings, ordered maps, JSON values\<close>

text \<open>
  What every component shares. A Rust \<open>str\<close> is a \<^typ>\<open>string\<close> with one
  \<^typ>\<open>char\<close> per character; byte lengths and character counts therefore agree, as they
  do for the ASCII identifiers the code handles. A \<open>BTreeMap\<close>, and a \<open>HashMap\<close>
  whose iteration order the code does not expose, is the list of its entries in ascending
  key order (\<open>bt_insert\<close>, \<open>bt_get\<close>, \<open>bt_remove\<close> below).
  A \<open>serde_json::Value\<close> is the datatype \<open>json\<close>; its numbers keep the three forms
  of \<open>serde_json::Number\<close>, a finite \<open>f64\<close> being the dyadic number
  \<open>mantissa * 2 ^ exponent\<close>.
\<close>

named_theorems model_simps \<open>small definitions that proofs unfold together\<close>
named_theorems split_rules \<open>case splits of the model's result types\<close>

subsection \<open>Strings\<close>

text \<open>\<open>str::split\<close> with a one-character separator: always at least one piece.\<close>

fun split_on :: "'a \<Rightarrow> 'a list \<Rightarrow> 'a list list" where
  "split_on c [] = [[]]"
| "split_on c (x # xs) =
     (if x = c then [] # split_on c xs
      else (case split_on c xs of [] \<Rightarrow> [[x]] | s # ss \<Rightarrow> (x # s) # ss))"

lemma split_on_nonempty [simp]: "split_on c xs \<noteq> []"
  by (induction xs) (auto split: list.splits)

fun join_with :: "'a list \<Rightarrow> 'a list list \<Rightarrow> 'a list" where
  "join_with sep [] = []"
| "join_with sep [x] = x"
| "join_with sep (x # y # ys) = x @ sep @ join_with sep (y # ys)"

lemma join_with_Cons: "ys \<noteq> [] \<Longrightarrow> join_with sep (x # ys) = x @ sep @ join_with sep ys"
  by (cases ys) auto

lemma join_split_on: "join_with [c] (split_on c xs) = xs"
proof (induction xs)
  case Nil
  then show ?case by simp
next
  case (Cons x xs)
  obtain s ss where s: "split_on c xs = s # ss"
    by (cases "split_on c xs") auto
  with Cons show ?case
    by (cases ss) auto
qed

lemma split_on_sep_free: "s \<in> set (split_on c xs) \<Longrightarrow> c \<notin> set s"
  by (induction xs arbitrary: s) (auto split: list.splits if_splits)

lemma split_on_no_sep: "c \<notin> set xs \<Longrightarrow> split_on c xs = [xs]"
  by (induction xs) auto

lemma length_split_on: "length (split_on c xs) = Suc (count_list xs c)"
  by (induction xs) (auto split: list.splits)

lemma hd_split_on_empty: "xs \<noteq> [] \<Longrightarrow> hd (split_on c xs) = [] \<longleftrightarrow> hd xs = c"
  by (cases xs) (auto split: list.splits)

lemma last_split_on_empty: "xs \<noteq> [] \<Longrightarrow> last (split_on c xs) = [] \<longleftrightarrow> last xs = c"
proof (induction xs)
  case Nil
  then show ?case by simp
next
  case (Cons x xs)
  obtain s ss where s: "split_on c xs = s # ss"
    by (cases "split_on c xs") auto
  show ?case
  proof (cases "xs = []")
    case True
    then show ?thesis by simp
  next
    case False
    with Cons.IH s have IH: "last (s # ss) = [] \<longleftrightarrow> last xs = c" by simp
    show ?thesis
    proof (cases ss)
      case Nil
      from Nil s have xs: "xs = s" and "c \<notin> set xs"
        using length_split_on [of c xs] join_split_on [of c xs] by (simp_all add: count_list_0_iff)
      with False have "last xs \<noteq> c" by (metis last_in_set)
      with False s Nil xs show ?thesis by auto
    next
      case (Cons t ts)
      with IH False s show ?thesis by auto
    qed
  qed
qed

text \<open>\<open>str::find\<close>: the least offset at which the needle occurs.\<close>

fun find_sub :: "'a list \<Rightarrow> 'a list \<Rightarrow> nat option" where
  "find_sub needle [] = (if needle = [] then Some 0 else None)"
| "find_sub needle (x # xs) =
     (if prefix needle (x # xs) then Some 0 else map_option Suc (find_sub needle xs))"

lemma find_sub_Some:
  "find_sub needle xs = Some i \<Longrightarrow>
     prefix needle (drop i xs) \<and> i + length needle \<le> length xs"
proof (induction xs arbitrary: i)
  case Nil
  then show ?case by (auto split: if_splits)
next
  case (Cons x xs)
  then show ?case
    by (auto split: if_splits dest: prefix_length_le)
qed

lemma find_sub_least:
  "prefix needle (drop j xs) \<Longrightarrow> j \<le> length xs \<Longrightarrow> \<exists>i \<le> j. find_sub needle xs = Some i"
proof (induction xs arbitrary: j)
  case Nil
  then show ?case by simp
next
  case (Cons x xs)
  then show ?case
  proof (cases "prefix needle (x # xs)")
    case True
    then show ?thesis by simp
  next
    case False
    with Cons.prems obtain k where j: "j = Suc k" by (cases j) auto
    with Cons.prems Cons.IH [of k] obtain i where "i \<le> k" "find_sub needle xs = Some i" by auto
    with False j show ?thesis by auto
  qed
qed

lemma find_sub_None: "find_sub needle xs = None \<Longrightarrow> j \<le> length xs \<Longrightarrow> \<not> prefix needle (drop j xs)"
  using find_sub_least by fastforce

text \<open>ASCII classes, by code point.\<close>

definition is_ascii_upper :: "char \<Rightarrow> bool" where
  [model_simps]: "is_ascii_upper c \<longleftrightarrow> of_char c \<ge> (65 :: nat) \<and> of_char c \<le> (90 :: nat)"

definition is_ascii_lower :: "char \<Rightarrow> bool" where
  [model_simps]: "is_ascii_lower c \<longleftrightarrow> of_char c \<ge> (97 :: nat) \<and> of_char c \<le> (122 :: nat)"

definition is_ascii_digit :: "char \<Rightarrow> bool" where
  [model_simps]: "is_ascii_digit c \<longleftrightarrow> of_char c \<ge> (48 :: nat) \<and> of_char c \<le> (57 :: nat)"

definition is_ascii_alnum :: "char \<Rightarrow> bool" where
  [model_simps]: "is_ascii_alnum c \<longleftrightarrow> is_ascii_upper c \<or> is_ascii_lower c \<or> is_ascii_digit c"

definition is_ascii_char :: "char \<Rightarrow> bool" where
  [model_simps]: "is_ascii_char c \<longleftrightarrow> of_char c < (128 :: nat)"

definition to_ascii_lower :: "char \<Rightarrow> char" where
  "to_ascii_lower c = (if is_ascii_upper c then char_of (of_char c + 32 :: nat) else c)"

lemma of_char_to_ascii_lower:
  "(of_char (to_ascii_lower c) :: nat) = (if is_ascii_upper c then of_char c + 32 else of_char c)"
  by (simp add: to_ascii_lower_def is_ascii_upper_def)

lemma to_ascii_lower_not_upper [simp]: "\<not> is_ascii_upper (to_ascii_lower c)"
  by (simp add: is_ascii_upper_def of_char_to_ascii_lower)

lemma to_ascii_lower_id: "\<not> is_ascii_upper c \<Longrightarrow> to_ascii_lower c = c"
  by (simp add: to_ascii_lower_def)

text \<open>Decimal rendering of a natural number (\<open>format!("{n}")\<close>).\<close>

fun show_nat :: "nat \<Rightarrow> string" where
  "show_nat n =
     (if n < 10 then [char_of (48 + n)] else show_nat (n div 10) @ [char_of (48 + n mod 10)])"

declare show_nat.simps [simp del]

subsection \<open>Ordered maps\<close>

text \<open>
  \<open>BTreeMap\<close>: entries in strictly ascending key order. The interface below is what the
  components use of it; \<open>bt\<close> interprets it.
\<close>

fun bt_insert :: "'k::linorder \<Rightarrow> 'v \<Rightarrow> ('k \<times> 'v) list \<Rightarrow> ('k \<times> 'v) list" where
  "bt_insert k v [] = [(k, v)]"
| "bt_insert k v ((k', v') # m) =
     (if k < k' then (k, v) # (k', v') # m
      else if k = k' then (k, v) # m
      else (k', v') # bt_insert k v m)"

definition bt_get :: "('k \<times> 'v) list \<Rightarrow> 'k \<Rightarrow> 'v option" where
  "bt_get m k = map_of m k"

definition bt_remove :: "'k \<Rightarrow> ('k \<times> 'v) list \<Rightarrow> ('k \<times> 'v) list" where
  "bt_remove k m = filter (\<lambda>e. fst e \<noteq> k) m"

definition bt_ok :: "('k::linorder \<times> 'v) list \<Rightarrow> bool" where
  "bt_ok m \<longleftrightarrow> sorted_wrt (<) (map fst m)"

locale key_value_map =
  fixes ins :: "'k \<Rightarrow> 'v \<Rightarrow> 'm \<Rightarrow> 'm"
    and get :: "'m \<Rightarrow> 'k \<Rightarrow> 'v option"
    and del :: "'k \<Rightarrow> 'm \<Rightarrow> 'm"
    and ok :: "'m \<Rightarrow> bool"
  assumes get_ins: "ok m \<Longrightarrow> get (ins k v m) k' = (if k' = k then Some v else get m k')"
    and get_del: "ok m \<Longrightarrow> get (del k m) k' = (if k' = k then None else get m k')"
    and ok_ins: "ok m \<Longrightarrow> ok (ins k v m)"
    and ok_del: "ok m \<Longrightarrow> ok (del k m)"
begin

lemma get_ins_same: "ok m \<Longrightarrow> get (ins k v m) k = Some v"
  by (simp add: get_ins)

lemma ins_ins_lookup: "ok m \<Longrightarrow> get (ins k v (ins k w m)) = get (ins k v m)"
  by (rule ext) (simp add: get_ins ok_ins)

lemma ins_commute_lookup:
  "ok m \<Longrightarrow> k \<noteq> l \<Longrightarrow> get (ins k v (ins l w m)) = get (ins l w (ins k v m))"
  by (rule ext) (simp add: get_ins ok_ins)

lemma del_ins_lookup: "ok m \<Longrightarrow> get (del k (ins k v m)) = get (del k m)"
  by (rule ext) (simp add: get_ins get_del ok_ins)

lemma fold_ins_ok: "ok m \<Longrightarrow> ok (fold (\<lambda>(k, v). ins k v) kvs m)"
  by (induction kvs arbitrary: m) (auto simp: ok_ins)

end

lemma keys_bt_insert: "set (map fst (bt_insert k v m)) = insert k (set (map fst m))"
  by (induction k v m rule: bt_insert.induct) auto

lemma bt_ok_insert: "bt_ok m \<Longrightarrow> bt_ok (bt_insert k v m)"
proof (induction k v m rule: bt_insert.induct)
  case (1 k v)
  then show ?case by (simp add: bt_ok_def)
next
  case (2 k v k' v' m)
  have "set (map fst (bt_insert k v m)) = insert k (set (map fst m))"
    by (rule keys_bt_insert)
  with 2 show ?case by (auto simp: bt_ok_def dest: less_trans)
qed

lemma bt_get_insert: "bt_ok m \<Longrightarrow> bt_get (bt_insert k v m) k' = (if k' = k then Some v else bt_get m k')"
  by (induction k v m rule: bt_insert.induct) (auto simp: bt_get_def bt_ok_def)

lemma bt_get_insert_any: "bt_get (bt_insert k v m) k' = (if k' = k then Some v else bt_get m k')"
  by (induction k v m rule: bt_insert.induct) (auto simp: bt_get_def)

lemma bt_get_remove: "bt_get (bt_remove k m) k' = (if k' = k then None else bt_get m k')"
  by (induction m) (auto simp: bt_get_def bt_remove_def)

lemma bt_ok_remove: "bt_ok m \<Longrightarrow> bt_ok (bt_remove k m)"
  unfolding bt_ok_def bt_remove_def
  by (induction m) auto

interpretation bt: key_value_map bt_insert bt_get bt_remove bt_ok
  by unfold_locales (auto simp: bt_get_insert bt_get_remove bt_ok_insert bt_ok_remove)

lemma bt_ok_Nil [simp]: "bt_ok []"
  by (simp add: bt_ok_def)

lemma bt_get_Nil [simp]: "bt_get [] k = None"
  by (simp add: bt_get_def)

lemma bt_get_Cons: "bt_get ((k, v) # m) k' = (if k = k' then Some v else bt_get m k')"
  by (simp add: bt_get_def)

lemma bt_get_entry: "bt_ok m \<Longrightarrow> bt_get m k = Some v \<longleftrightarrow> (k, v) \<in> set m"
  unfolding bt_get_def bt_ok_def by (rule map_of_eq_Some_iff) (induction m, auto)

lemma bt_ok_distinct: "bt_ok m \<Longrightarrow> distinct (map fst m)"
  unfolding bt_ok_def by (induction m) auto

lemma bt_get_None_iff: "bt_get m k = None \<longleftrightarrow> k \<notin> fst ` set m"
  by (simp add: bt_get_def map_of_eq_None_iff)

lemma set_bt_insert_sub: "set (bt_insert k v m) \<subseteq> insert (k, v) (set m)"
  by (induction k v m rule: bt_insert.induct) auto

lemma set_bt_insert: "bt_ok m \<Longrightarrow> set (bt_insert k v m) = insert (k, v) {e \<in> set m. fst e \<noteq> k}"
  by (induction k v m rule: bt_insert.induct) (auto simp: bt_ok_def)

subsection \<open>JSON\<close>

datatype jnumber = PosInt nat | NegInt int | Flt (mantissa: int) (exponent: int)

datatype json =
    JNull
  | JBool bool
  | JNumber jnumber
  | JString string
  | JArray "json list"
  | JObject "(string \<times> json) list"

fun as_object :: "json \<Rightarrow> (string \<times> json) list option" where
  "as_object (JObject es) = Some es"
| "as_object _ = None"

fun as_array :: "json \<Rightarrow> json list option" where
  "as_array (JArray xs) = Some xs"
| "as_array _ = None"

fun as_str :: "json \<Rightarrow> string option" where
  "as_str (JString s) = Some s"
| "as_str _ = None"

fun as_bool :: "json \<Rightarrow> bool option" where
  "as_bool (JBool b) = Some b"
| "as_bool _ = None"

text \<open>An object's keys ascend strictly, at every depth: \<open>serde_json::Map\<close> is a
  \<open>BTreeMap\<close> (the crate's \<open>preserve_order\<close> feature is off).\<close>

fun json_ok :: "json \<Rightarrow> bool" where
  "json_ok (JArray xs) = list_all json_ok xs"
| "json_ok (JObject es) = (bt_ok es \<and> list_all (\<lambda>e. json_ok (snd e)) es)"
| "json_ok _ = True"

text \<open>\<open>Iterator::collect::<Option<Vec<_>>>\<close>: all or nothing.\<close>

fun collect_options :: "'a option list \<Rightarrow> 'a list option" where
  "collect_options [] = Some []"
| "collect_options (None # xs) = None"
| "collect_options (Some x # xs) = map_option ((#) x) (collect_options xs)"

lemma collect_options_map_Some [simp]: "collect_options (map Some xs) = Some xs"
  by (induction xs) auto

lemma collect_options_None: "collect_options xs = None \<longleftrightarrow> None \<in> set xs"
  by (induction xs rule: collect_options.induct) auto

end
