(* ===== verification/Patterns.thy ===== *)
theory Patterns
  imports Prelude
begin

section \<open>Pattern matching and specificity\<close>

text \<open>
  \<^verbatim>\<open>src/src/utils/helpers.rs\<close>: \<open>match_pattern\<close> (Algorithm A08, the matcher of
  the access-control rules and of \<open>match_modules\<close>), \<open>match_glob\<close> (Algorithm A25, every
  other pattern surface) and \<open>calculate_specificity\<close> (Algorithm A10). Both matchers split
  the pattern at \<open>*\<close> and search the pieces greedily, left to right; the reference meaning is
  the backtracking matcher \<open>star_match\<close>. The locale \<open>segment_search\<close> holds the
  argument that the greedy search is complete, and is interpreted on both implementations.
\<close>

subsection \<open>The source's functions\<close>

text \<open>The interior loop of \<open>match_pattern\<close>: \<open>value[pos..].find(segment)\<close>.\<close>

fun scan_segments :: "string list \<Rightarrow> string \<Rightarrow> nat \<Rightarrow> nat option" where
  "scan_segments [] value pos = Some pos"
| "scan_segments (segment # rest) value pos =
     (if segment = [] then scan_segments rest value pos
      else (case find_sub segment (drop pos value) of
              Some idx \<Rightarrow> scan_segments rest value (pos + (idx + length segment))
            | None \<Rightarrow> None))"

definition match_pattern :: "string \<Rightarrow> string \<Rightarrow> bool" where
  "match_pattern pattern value =
     (if pattern = ''*'' then True
      else if CHR ''*'' \<notin> set pattern then pattern = value
      else
        (let segments = split_on CHR ''*'' pattern;
             starts = (hd pattern = CHR ''*'');
             ends = (last pattern = CHR ''*'')
         in if \<not> starts \<and> \<not> prefix (hd segments) value then False
            else (case scan_segments (tl segments) value
                     (if starts then 0 else length (hd segments)) of
                    None \<Rightarrow> False
                  | Some _ \<Rightarrow> ends \<or> suffix (last segments) value)))"

definition qmark_eq :: "char \<Rightarrow> char \<Rightarrow> bool" where
  "qmark_eq s t \<longleftrightarrow> s = CHR ''?'' \<or> s = t"

definition match_prefix :: "string \<Rightarrow> string \<Rightarrow> bool" where
  "match_prefix segment txt \<longleftrightarrow>
     \<not> length txt < length segment \<and> list_all (\<lambda>(s, t). qmark_eq s t) (zip segment txt)"

definition match_exact :: "string \<Rightarrow> string \<Rightarrow> bool" where
  "match_exact segment txt \<longleftrightarrow> length segment = length txt \<and> match_prefix segment txt"

text \<open>The search of one interior segment: the first \<open>j\<close> of the inclusive range
  \<open>pos ..= value.len() - segment.len()\<close> at which the segment matches.\<close>

definition glob_find :: "string \<Rightarrow> string \<Rightarrow> nat \<Rightarrow> nat option" where
  "glob_find segment value pos =
     (if length segment > length value then None
      else find (\<lambda>j. match_exact segment (take (length segment) (drop j value)))
             [pos ..< Suc (length value - length segment)])"

fun glob_middle :: "string list \<Rightarrow> string \<Rightarrow> nat \<Rightarrow> nat option" where
  "glob_middle [] value pos = Some pos"
| "glob_middle (segment # rest) value pos =
     (if segment = [] then glob_middle rest value pos
      else (case glob_find segment value pos of
              Some j \<Rightarrow> glob_middle rest value (j + length segment)
            | None \<Rightarrow> None))"

definition match_glob :: "string \<Rightarrow> string \<Rightarrow> bool" where
  "match_glob pattern value =
     (let segments = split_on CHR ''*'' pattern
      in if length segments = 1 then match_exact (hd segments) value
         else if \<not> match_prefix (hd segments) value then False
         else (case glob_middle (butlast (tl segments)) value (length (hd segments)) of
                 None \<Rightarrow> False
               | Some pos \<Rightarrow>
                   (let l = last segments
                    in if l = [] then True
                       else if length value - pos < length l then False
                       else match_exact l (drop (length value - length l) value))))"

definition segment_score :: "string \<Rightarrow> nat" where
  "segment_score segment =
     (if segment = ''*'' then 0 else if CHR ''*'' \<in> set segment then 1 else 2)"

definition calculate_specificity :: "string \<Rightarrow> nat" where
  "calculate_specificity pattern =
     (if pattern = ''*'' then 0
      else sum_list (map segment_score (split_on CHR ''.'' pattern)))"

subsection \<open>The reference meaning of a pattern\<close>

text \<open>\<open>*\<close> stands for any characters, any other pattern character for one character that
  \<open>ok\<close> accepts.\<close>

fun star_match :: "(char \<Rightarrow> char \<Rightarrow> bool) \<Rightarrow> string \<Rightarrow> string \<Rightarrow> bool" where
  "star_match ok [] v = (v = [])"
| "star_match ok (p # ps) [] = (p = CHR ''*'' \<and> star_match ok ps [])"
| "star_match ok (p # ps) (x # v) =
     (if p = CHR ''*'' then star_match ok ps (x # v) \<or> star_match ok (p # ps) v
      else ok p x \<and> star_match ok ps v)"

fun pieces :: "(char \<Rightarrow> char \<Rightarrow> bool) \<Rightarrow> string list \<Rightarrow> string \<Rightarrow> bool" where
  "pieces ok [] v = False"
| "pieces ok [s] v = list_all2 ok s v"
| "pieces ok (s # t # ss) v =
     (\<exists>w u r. v = w @ u @ r \<and> list_all2 ok s w \<and> pieces ok (t # ss) r)"

definition pieces_after_star :: "(char \<Rightarrow> char \<Rightarrow> bool) \<Rightarrow> string list \<Rightarrow> string \<Rightarrow> bool" where
  "pieces_after_star ok ss v \<longleftrightarrow> (\<exists>u r. v = u @ r \<and> pieces ok ss r)"

lemma star_match_star:
  "star_match ok (CHR ''*'' # ps) v \<longleftrightarrow> (\<exists>u r. v = u @ r \<and> star_match ok ps r)"
proof (induction v)
  case Nil
  then show ?case by simp
next
  case (Cons x v)
  show ?case
  proof
    assume "star_match ok (CHR ''*'' # ps) (x # v)"
    with Cons show "\<exists>u r. x # v = u @ r \<and> star_match ok ps r"
      by (auto intro: exI [of _ "[]"]) (metis append_Cons)
  next
    assume "\<exists>u r. x # v = u @ r \<and> star_match ok ps r"
    then obtain u r where ur: "x # v = u @ r" "star_match ok ps r" by blast
    with Cons show "star_match ok (CHR ''*'' # ps) (x # v)"
      by (cases u) auto
  qed
qed

lemma pieces_Cons: "ss \<noteq> [] \<Longrightarrow>
  pieces ok (s # ss) v \<longleftrightarrow> (\<exists>w r. v = w @ r \<and> list_all2 ok s w \<and> pieces_after_star ok ss r)"
  by (cases ss) (auto simp: pieces_after_star_def)

lemma star_match_pieces: "star_match ok ps v \<longleftrightarrow> pieces ok (split_on CHR ''*'' ps) v"
proof (induction ps arbitrary: v)
  case Nil
  then show ?case by simp
next
  case (Cons p ps)
  obtain s ss where s: "split_on CHR ''*'' ps = s # ss"
    by (cases "split_on CHR ''*'' ps") auto
  show ?case
  proof (cases "p = CHR ''*''")
    case True
    with Cons.IH s show ?thesis
      by (simp add: star_match_star)
  next
    case False
    have "pieces ok ((p # s) # ss) v \<longleftrightarrow>
      (\<exists>x r. v = x # r \<and> ok p x \<and> pieces ok (s # ss) r)"
      by (cases ss) (auto simp: list_all2_Cons1, (metis append_Cons)+)
    with False Cons.IH s show ?thesis
      by (cases v) auto
  qed
qed

lemma pieces_after_star_mono: "pieces_after_star ok ss v \<Longrightarrow> pieces_after_star ok ss (u @ v)"
  unfolding pieces_after_star_def by (metis append.assoc)

lemma pieces_after_star_drop:
  assumes "pieces_after_star ok ss (drop j v)" and "i \<le> j"
  shows "pieces_after_star ok ss (drop i v)"
proof -
  have "drop i v = take (j - i) (drop i v) @ drop j v"
    using assms(2) by (metis append_take_drop_id drop_drop le_add_diff_inverse2)
  with pieces_after_star_mono [OF assms(1)] show ?thesis by metis
qed

definition occurs_at :: "(char \<Rightarrow> char \<Rightarrow> bool) \<Rightarrow> string \<Rightarrow> string \<Rightarrow> nat \<Rightarrow> bool" where
  "occurs_at ok s v j \<longleftrightarrow> j + length s \<le> length v \<and> list_all2 ok s (take (length s) (drop j v))"

lemma pieces_after_star_last:
  "pieces_after_star ok [s] v \<longleftrightarrow> length s \<le> length v \<and> occurs_at ok s v (length v - length s)"
proof
  assume "pieces_after_star ok [s] v"
  then obtain u r where v: "v = u @ r" and r: "list_all2 ok s r"
    by (auto simp: pieces_after_star_def)
  have "length s = length r" using r by (rule list_all2_lengthD)
  with v r show "length s \<le> length v \<and> occurs_at ok s v (length v - length s)"
    by (simp add: occurs_at_def)
next
  assume "length s \<le> length v \<and> occurs_at ok s v (length v - length s)"
  then have "list_all2 ok s (drop (length v - length s) v)"
    by (simp add: occurs_at_def)
  then show "pieces_after_star ok [s] v"
    unfolding pieces_after_star_def
    by (intro exI [of _ "take (length v - length s) v"] exI [of _ "drop (length v - length s) v"]) simp
qed

lemma pieces_after_star_step:
  assumes "ss \<noteq> []" and pos: "pos \<le> length v"
  shows "pieces_after_star ok (s # ss) (drop pos v) \<longleftrightarrow>
    (\<exists>j \<ge> pos. occurs_at ok s v j \<and> pieces_after_star ok ss (drop (j + length s) v))"
proof
  assume "pieces_after_star ok (s # ss) (drop pos v)"
  then obtain u w r where d: "drop pos v = u @ w @ r" and w: "list_all2 ok s w"
    and r: "pieces_after_star ok ss r"
    by (auto simp: pieces_after_star_def [of ok "s # ss"] pieces_Cons [OF assms(1)])
  have len: "length w = length s" using w by (simp add: list_all2_lengthD)
  have e: "drop (pos + length u) v = w @ r"
    using d by (metis append_eq_conv_conj drop_drop add.commute)
  have "length (drop pos v) = length u + length w + length r" using d by simp
  then have "pos + length u + length s \<le> length v" using len pos by simp
  moreover have "drop (pos + length u + length s) v = r"
    using e len by (metis append_eq_conv_conj drop_drop add.commute)
  ultimately show "\<exists>j \<ge> pos. occurs_at ok s v j \<and> pieces_after_star ok ss (drop (j + length s) v)"
    using w r e len by (intro exI [of _ "pos + length u"]) (simp add: occurs_at_def)
next
  assume "\<exists>j \<ge> pos. occurs_at ok s v j \<and> pieces_after_star ok ss (drop (j + length s) v)"
  then obtain j where j: "pos \<le> j" and o: "occurs_at ok s v j"
    and p: "pieces_after_star ok ss (drop (j + length s) v)" by blast
  have "drop j v = take (length s) (drop j v) @ drop (j + length s) v"
    by (metis append_take_drop_id drop_drop add.commute)
  with o p have "pieces ok (s # ss) (drop j v)"
    unfolding pieces_Cons [OF assms(1)] occurs_at_def by blast
  then have "pieces_after_star ok (s # ss) (drop j v)"
    unfolding pieces_after_star_def by (metis append_Nil)
  with j show "pieces_after_star ok (s # ss) (drop pos v)"
    by (rule pieces_after_star_drop [rotated])
qed


subsection \<open>The greedy search, once for both matchers\<close>

locale segment_search =
  fixes ok :: "char \<Rightarrow> char \<Rightarrow> bool"
    and search :: "string \<Rightarrow> string \<Rightarrow> nat \<Rightarrow> nat option"
    and scan :: "string list \<Rightarrow> string \<Rightarrow> nat \<Rightarrow> nat option"
  assumes search_Some: "pos \<le> length v \<Longrightarrow> search s v pos = Some j \<Longrightarrow>
      pos \<le> j \<and> occurs_at ok s v j \<and> (\<forall>i. pos \<le> i \<longrightarrow> i < j \<longrightarrow> \<not> occurs_at ok s v i)"
    and search_None: "pos \<le> length v \<Longrightarrow> search s v pos = None \<Longrightarrow> pos \<le> j \<Longrightarrow> \<not> occurs_at ok s v j"
    and scan_Nil: "scan [] v pos = Some pos"
    and scan_Cons: "scan (s # ss) v pos =
      (if s = [] then scan ss v pos
       else (case search s v pos of None \<Rightarrow> None | Some j \<Rightarrow> scan ss v (j + length s)))"
begin

lemma first_occurrence_suffices:
  assumes "ss \<noteq> []" and "pos \<le> length v" and "search s v pos = Some j"
  shows "pieces_after_star ok (s # ss) (drop pos v) \<longleftrightarrow>
    pieces_after_star ok ss (drop (j + length s) v)"
proof -
  have j: "pos \<le> j" "occurs_at ok s v j"
    and first: "\<And>i. pos \<le> i \<Longrightarrow> i < j \<Longrightarrow> \<not> occurs_at ok s v i"
    using search_Some [OF assms(2,3)] by auto
  show ?thesis
    unfolding pieces_after_star_step [OF assms(1,2)]
  proof
    assume "\<exists>i \<ge> pos. occurs_at ok s v i \<and> pieces_after_star ok ss (drop (i + length s) v)"
    then obtain i where "pos \<le> i" "occurs_at ok s v i" "pieces_after_star ok ss (drop (i + length s) v)"
      by blast
    moreover from this first have "j \<le> i" by (meson not_le)
    ultimately show "pieces_after_star ok ss (drop (j + length s) v)"
      using pieces_after_star_drop by (meson add_le_mono1)
  next
    assume "pieces_after_star ok ss (drop (j + length s) v)"
    with j show "\<exists>i \<ge> pos. occurs_at ok s v i \<and> pieces_after_star ok ss (drop (i + length s) v)"
      by blast
  qed
qed

lemma scan_complete:
  "pos \<le> length v \<Longrightarrow>
     (case scan ss v pos of
        None \<Rightarrow> \<not> pieces_after_star ok (ss @ [l]) (drop pos v)
      | Some q \<Rightarrow> pos \<le> q \<and> q \<le> length v \<and>
          (pieces_after_star ok (ss @ [l]) (drop pos v) \<longleftrightarrow> pieces_after_star ok [l] (drop q v)))"
proof (induction ss arbitrary: pos)
  case Nil
  then show ?case by (simp add: scan_Nil)
next
  case (Cons s ss)
  show ?case
  proof (cases "s = []")
    case True
    have "pieces_after_star ok ([] # ss @ [l]) (drop pos v) \<longleftrightarrow>
        pieces_after_star ok (ss @ [l]) (drop pos v)"
      using pieces_Cons [of "ss @ [l]" ok "[]"] pieces_after_star_mono [of ok "ss @ [l]"]
      unfolding pieces_after_star_def [of ok "[] # ss @ [l]"]
      by (simp, metis append_Nil)
    with True Cons.IH [OF Cons.prems] show ?thesis
      by (cases "scan ss v pos") (simp_all add: scan_Cons)
  next
    case False
    show ?thesis
    proof (cases "search s v pos")
      case None
      then have "\<not> pieces_after_star ok (s # (ss @ [l])) (drop pos v)"
        using Cons.prems search_None [OF Cons.prems None] by (auto simp: pieces_after_star_step)
      with None False show ?thesis by (simp add: scan_Cons)
    next
      case (Some j)
      then have jl: "pos \<le> j" "j + length s \<le> length v"
        using search_Some Cons.prems by (auto simp: occurs_at_def)
      have "pieces_after_star ok (s # (ss @ [l])) (drop pos v) \<longleftrightarrow>
          pieces_after_star ok (ss @ [l]) (drop (j + length s) v)"
        using Cons.prems Some by (simp add: first_occurrence_suffices)
      with Cons.IH [OF jl(2)] jl Some False show ?thesis
        by (auto simp: scan_Cons split: option.splits)
    qed
  qed
qed

lemma scan_append:
  "scan (ss @ ts) v pos = (case scan ss v pos of None \<Rightarrow> None | Some q \<Rightarrow> scan ts v q)"
  by (induction ss arbitrary: pos) (auto simp: scan_Nil scan_Cons split: option.split)

end

lemma list_all2_eq_prefix: "list_all2 (=) s (take (length s) v) \<longleftrightarrow> prefix s v"
  by (metis append_eq_conv_conj list.rel_eq prefix_def take_is_prefix)

definition find_from :: "string \<Rightarrow> string \<Rightarrow> nat \<Rightarrow> nat option" where
  "find_from s v pos = map_option (\<lambda>idx. pos + idx) (find_sub s (drop pos v))"

lemma occurs_at_eq: "occurs_at (=) s v j \<longleftrightarrow> j + length s \<le> length v \<and> prefix s (drop j v)"
  by (simp add: occurs_at_def list_all2_eq_prefix)

interpretation a08: segment_search "(=)" find_from scan_segments
proof unfold_locales
  fix pos j :: nat and v s :: string
  assume pos: "pos \<le> length v" and f: "find_from s v pos = Some j"
  then obtain i where i: "find_sub s (drop pos v) = Some i" "j = pos + i"
    by (auto simp: find_from_def)
  have "\<not> occurs_at (=) s v k" if k: "pos \<le> k" "k < j" for k
  proof
    assume o: "occurs_at (=) s v k"
    then have "k - pos \<le> length (drop pos v)" by (auto simp: occurs_at_eq intro: diff_le_mono)
    moreover have "prefix s (drop (k - pos) (drop pos v))"
      using o k by (simp add: occurs_at_eq)
    ultimately obtain i' where "i' \<le> k - pos" "find_sub s (drop pos v) = Some i'"
      using find_sub_least by blast
    with i k show False by simp
  qed
  with i find_sub_Some [OF i(1)] pos
  show "pos \<le> j \<and> occurs_at (=) s v j \<and> (\<forall>k. pos \<le> k \<longrightarrow> k < j \<longrightarrow> \<not> occurs_at (=) s v k)"
    by (auto simp: occurs_at_eq add.commute)
next
  fix pos j :: nat and v s :: string
  assume "pos \<le> length v" "find_from s v pos = None" "pos \<le> j"
  then show "\<not> occurs_at (=) s v j"
    using find_sub_None [of s "drop pos v" "j - pos"] by (auto simp: find_from_def occurs_at_eq)
next
  fix s v :: string and ss pos
  show "scan_segments (s # ss) v pos = (if s = [] then scan_segments ss v pos
       else (case find_from s v pos of None \<Rightarrow> None | Some j \<Rightarrow> scan_segments ss v (j + length s)))"
    by (simp add: find_from_def add.assoc split: option.splits)
qed simp

lemma match_prefix_iff: "match_prefix s v \<longleftrightarrow> list_all2 qmark_eq s (take (length s) v)"
proof (induction s arbitrary: v)
  case Nil
  then show ?case by (simp add: match_prefix_def)
next
  case (Cons c s)
  then show ?case by (cases v) (auto simp: match_prefix_def)
qed

lemma match_exact_iff: "match_exact s v \<longleftrightarrow> list_all2 qmark_eq s v"
  by (metis list_all2_lengthD match_exact_def match_prefix_iff order_refl take_all)

lemma glob_find_occurs:
  "length s \<le> length v \<Longrightarrow> j < Suc (length v - length s) \<Longrightarrow>
   match_exact s (take (length s) (drop j v)) \<longleftrightarrow> occurs_at qmark_eq s v j"
  by (simp add: match_exact_iff occurs_at_def, arith)

interpretation a25: segment_search qmark_eq glob_find glob_middle
proof unfold_locales
  fix pos j :: nat and v s :: string
  assume "pos \<le> length v" and f: "glob_find s v pos = Some j"
  then have l: "length s \<le> length v"
    and "find (\<lambda>j. match_exact s (take (length s) (drop j v))) [pos ..< Suc (length v - length s)] = Some j"
    by (auto simp: glob_find_def split: if_splits)
  then obtain i where "i < length [pos ..< Suc (length v - length s)]"
    "j = [pos ..< Suc (length v - length s)] ! i"
    "match_exact s (take (length s) (drop ([pos ..< Suc (length v - length s)] ! i) v))"
    "\<forall>k < i. \<not> match_exact s (take (length s) (drop ([pos ..< Suc (length v - length s)] ! k) v))"
    unfolding find_Some_iff by blast
  then have i: "pos + i < Suc (length v - length s)" "j = pos + i"
    "match_exact s (take (length s) (drop j v))"
    and first: "\<And>k. k < i \<Longrightarrow> \<not> match_exact s (take (length s) (drop (pos + k) v))"
    by (simp_all del: upt_Suc)
  have "\<not> occurs_at qmark_eq s v k" if "pos \<le> k" "k < j" for k
    using first [of "k - pos"] that i(1,2) l glob_find_occurs [of s v k] by simp
  with i l show "pos \<le> j \<and> occurs_at qmark_eq s v j \<and>
      (\<forall>k. pos \<le> k \<longrightarrow> k < j \<longrightarrow> \<not> occurs_at qmark_eq s v k)"
    using glob_find_occurs [of s v j] by simp
next
  fix pos j :: nat and v s :: string
  assume "pos \<le> length v" "glob_find s v pos = None" "pos \<le> j"
  then show "\<not> occurs_at qmark_eq s v j"
    by (auto simp: glob_find_def occurs_at_def find_None_iff match_exact_iff simp del: upt_Suc
        split: if_splits)
qed (simp_all split: option.splits)


lemma split_star_parts:
  assumes "CHR ''*'' \<in> set p"
  obtains s mid l where "split_on CHR ''*'' p = s # mid @ [l]"
    and "s = [] \<longleftrightarrow> hd p = CHR ''*''" and "l = [] \<longleftrightarrow> last p = CHR ''*''"
proof -
  have "length (split_on CHR ''*'' p) \<ge> 2"
    using assms by (simp add: length_split_on) (metis Suc_leI count_list_0_iff neq0_conv)
  then obtain s ss where s: "split_on CHR ''*'' p = s # ss" "ss \<noteq> []"
    by (cases "split_on CHR ''*'' p"; cases "tl (split_on CHR ''*'' p)") auto
  then obtain mid l where l: "ss = mid @ [l]" by (metis rev_exhaust)
  have "p \<noteq> []" using assms by auto
  with s l show thesis
    using that hd_split_on_empty [of p "CHR ''*''"] last_split_on_empty [of p "CHR ''*''"] by simp
qed

lemma pieces_after_star_suffix: "pieces_after_star (=) [l] v \<longleftrightarrow> suffix l v"
  by (auto simp: pieces_after_star_def suffix_def list.rel_eq)

lemma suffix_drop: "q \<le> length v \<Longrightarrow> suffix l (drop q v) \<longleftrightarrow> q + length l \<le> length v \<and> suffix l v"
proof
  assume q: "q \<le> length v" and s: "suffix l (drop q v)"
  then have "length l \<le> length v - q" by (metis length_drop suffix_length_le)
  with q s show "q + length l \<le> length v \<and> suffix l v"
    using suffix_drop suffix_order.trans by fastforce
next
  assume q: "q \<le> length v" and s: "q + length l \<le> length v \<and> suffix l v"
  then obtain u where u: "v = u @ l" by (auto simp: suffix_def)
  with s have "drop q v = drop q u @ l" by simp
  then show "suffix l (drop q v)" by (simp add: suffix_def)
qed

lemma scan_last:
  assumes "q \<le> length v"
  shows "pieces_after_star (=) [l] (drop q v) \<longleftrightarrow> scan_segments [l] v q \<noteq> None \<and> suffix l v"
proof (cases "l = []")
  case True
  then show ?thesis by (simp add: pieces_after_star_suffix)
next
  case False
  show ?thesis
  proof
    assume "pieces_after_star (=) [l] (drop q v)"
    then have s: "suffix l (drop q v)" by (simp add: pieces_after_star_suffix)
    then have le: "q + length l \<le> length v" and sv: "suffix l v"
      using suffix_drop [OF assms] by auto
    then obtain u where "v = u @ l" by (auto simp: suffix_def)
    with le have "occurs_at (=) l v (length v - length l)" "q \<le> length v - length l"
      by (auto simp: occurs_at_eq)
    then have "find_from l v q \<noteq> None" using a08.search_None [OF assms] by blast
    with False sv show "scan_segments [l] v q \<noteq> None \<and> suffix l v"
      by (auto simp: find_from_def)
  next
    assume a: "scan_segments [l] v q \<noteq> None \<and> suffix l v"
    then obtain j where "find_from l v q = Some j"
      using False by (auto simp: find_from_def split: option.splits)
    then have "q \<le> j" "occurs_at (=) l v j" using a08.search_Some [OF assms] by auto
    then have "q + length l \<le> length v" by (simp add: occurs_at_eq)
    with a assms show "pieces_after_star (=) [l] (drop q v)"
      by (simp add: pieces_after_star_suffix suffix_drop)
  qed
qed

lemma match_pattern_star_match: "match_pattern p v \<longleftrightarrow> star_match (=) p v"
proof (cases "CHR ''*'' \<in> set p")
  case False
  then have "p \<noteq> ''*''" by auto
  with False show ?thesis
    by (auto simp: match_pattern_def star_match_pieces split_on_no_sep list.rel_eq)
next
  case True
  show ?thesis
  proof (cases "p = ''*''")
    case True
    then show ?thesis by (simp add: match_pattern_def star_match_star)
  next
    case False
    obtain s mid l where split: "split_on CHR ''*'' p = s # mid @ [l]"
      and s: "s = [] \<longleftrightarrow> hd p = CHR ''*''" and l: "l = [] \<longleftrightarrow> last p = CHR ''*''"
      using split_star_parts [OF True] .
    have code: "match_pattern p v \<longleftrightarrow> prefix s v \<and>
        scan_segments (mid @ [l]) v (length s) \<noteq> None \<and> suffix l v"
      using True False split s l
      by (auto simp: match_pattern_def Let_def split: option.splits)
    have spec: "star_match (=) p v \<longleftrightarrow>
        prefix s v \<and> pieces_after_star (=) (mid @ [l]) (drop (length s) v)"
      by (auto simp: star_match_pieces split pieces_Cons list.rel_eq prefix_def)
    show ?thesis
    proof (cases "prefix s v")
      case False
      with code spec show ?thesis by simp
    next
      case True
      then have le: "length s \<le> length v" by (rule prefix_length_le)
      show ?thesis
      proof (cases "scan_segments mid v (length s)")
        case None
        with a08.scan_complete [OF le, of mid l] code spec show ?thesis
          by (simp add: a08.scan_append)
      next
        case (Some q)
        with a08.scan_complete [OF le, of mid l] code spec True scan_last [of q v l]
        show ?thesis by (simp add: a08.scan_append)
      qed
    qed
  qed
qed

lemma match_glob_star_match: "match_glob p v \<longleftrightarrow> star_match qmark_eq p v"
proof (cases "CHR ''*'' \<in> set p")
  case False
  then show ?thesis
    by (simp add: match_glob_def star_match_pieces split_on_no_sep match_exact_iff)
next
  case True
  obtain s mid l where split: "split_on CHR ''*'' p = s # mid @ [l]"
    using split_star_parts [OF True] .
  have spec: "star_match qmark_eq p v \<longleftrightarrow>
      match_prefix s v \<and> pieces_after_star qmark_eq (mid @ [l]) (drop (length s) v)"
  proof
    assume "star_match qmark_eq p v"
    then obtain w r where "v = w @ r" "list_all2 qmark_eq s w" "pieces_after_star qmark_eq (mid @ [l]) r"
      by (auto simp: star_match_pieces split pieces_Cons)
    then show "match_prefix s v \<and> pieces_after_star qmark_eq (mid @ [l]) (drop (length s) v)"
      by (simp add: match_prefix_iff list_all2_lengthD)
  next
    assume "match_prefix s v \<and> pieces_after_star qmark_eq (mid @ [l]) (drop (length s) v)"
    then show "star_match qmark_eq p v"
      unfolding star_match_pieces split
      by (simp add: pieces_Cons match_prefix_iff) (metis append_take_drop_id)
  qed
  show ?thesis
  proof (cases "match_prefix s v")
    case False
    with spec split show ?thesis by (simp add: match_glob_def)
  next
    case True
    then have le: "length s \<le> length v" by (simp add: match_prefix_def)
    show ?thesis
    proof (cases "glob_middle mid v (length s)")
      case None
      with a25.scan_complete [OF le, of mid l] spec split True show ?thesis
        by (simp add: match_glob_def)
    next
      case (Some q)
      with a25.scan_complete [OF le, of mid l]
      have q: "q \<le> length v" and "star_match qmark_eq p v \<longleftrightarrow> pieces_after_star qmark_eq [l] (drop q v)"
        using spec True by auto
      then have "star_match qmark_eq p v \<longleftrightarrow> length l \<le> length v - q \<and>
          list_all2 qmark_eq l (drop (length v - length l) v)"
        by (auto simp: pieces_after_star_last occurs_at_def match_exact_iff)
      with Some split True show ?thesis
        by (auto simp: match_glob_def match_exact_iff not_less)
    qed
  qed
qed


lemma star_match_mono: "(\<And>p x. ok p x \<Longrightarrow> ok' p x) \<Longrightarrow> star_match ok p v \<Longrightarrow> star_match ok' p v"
  by (induction ok p v rule: star_match.induct) (auto split: if_splits)

lemma star_match_no_qmark: "CHR ''?'' \<notin> set p \<Longrightarrow> star_match qmark_eq p v = star_match (=) p v"
  by (induction "qmark_eq" p v rule: star_match.induct) (auto simp: qmark_eq_def)

lemma sum_scores_le: "sum_list (map segment_score ss) \<le> 2 * length ss"
  by (induction ss) (auto simp: segment_score_def)

lemma sum_scores_eq:
  "sum_list (map segment_score ss) = 2 * length ss \<longleftrightarrow> (\<forall>s \<in> set ss. CHR ''*'' \<notin> set s)"
proof (induction ss)
  case Nil
  then show ?case by simp
next
  case (Cons s ss)
  moreover have "segment_score s = 2 \<longleftrightarrow> CHR ''*'' \<notin> set s" "segment_score s \<le> 2"
    by (auto simp: segment_score_def)
  ultimately show ?case using sum_scores_le [of ss] by auto
qed

lemma in_split_on: "x \<noteq> c \<Longrightarrow> x \<in> set xs \<longleftrightarrow> (\<exists>s \<in> set (split_on c xs). x \<in> set s)"
  by (induction xs) (auto split: list.splits)

subsection \<open>Properties\<close>

text \<open>C24: \<open>match_pattern\<close>, which decides every access rule, accepts exactly the values of
  the pattern's language: \<open>*\<close> stands for any run of characters and every other character for
  itself. The greedy left-to-right search never misses a match that backtracking would find.\<close>

theorem match_pattern_correct: "match_pattern p v = star_match (=) p v"
  by (rule match_pattern_star_match)

text \<open>\<open>match_glob\<close> accepts exactly the language of the pattern where \<open>*\<close> stands for
  any run of characters, \<open>?\<close> for one character, and every other character for itself.\<close>

theorem match_glob_correct: "match_glob p v = star_match qmark_eq p v"
  by (rule match_glob_star_match)

text \<open>The two dialects agree except on \<open>?\<close>: an access pattern never accepts a value
  that the glob dialect refuses, and on patterns without a question mark they are the same
  matcher.\<close>

theorem access_dialect_is_narrower:
  "(match_pattern p v \<longrightarrow> match_glob p v) \<and>
   (CHR ''?'' \<notin> set p \<longrightarrow> match_glob p v = match_pattern p v)"
  using star_match_mono [of "(=)" qmark_eq p v]
  by (auto simp: match_pattern_star_match match_glob_star_match star_match_no_qmark qmark_eq_def)

theorem access_dialect_is_narrower_witness:
  "match_pattern ''a.*'' ''a.b'' \<and> match_glob ''a.*'' ''a.b'' \<and>
   match_glob ''a.?'' ''a.b'' \<and> \<not> match_pattern ''a.?'' ''a.b''"
proof -
  have "match_pattern ''a.*'' ''a.b''" by (simp add: match_pattern_star_match)
  then show ?thesis
    using access_dialect_is_narrower [of "''a.*''" "''a.b''"]
    by (simp add: match_pattern_star_match match_glob_star_match qmark_eq_def)
qed

text \<open>Specificity is at most two points a segment, and a pattern reaches that maximum
  exactly when it has no wildcard, so an exact pattern is at least as specific as any other
  pattern with as many segments.\<close>

theorem specificity_bound:
  "calculate_specificity p \<le> 2 * length (split_on CHR ''.'' p) \<and>
   (calculate_specificity p = 2 * length (split_on CHR ''.'' p) \<longleftrightarrow> CHR ''*'' \<notin> set p)"
proof (cases "p = ''*''")
  case True
  then show ?thesis by (simp add: calculate_specificity_def)
next
  case False
  then show ?thesis
    using sum_scores_le [of "split_on CHR ''.'' p"] sum_scores_eq [of "split_on CHR ''.'' p"]
      in_split_on [of "CHR ''*''" "CHR ''.''" p]
    by (auto simp: calculate_specificity_def)
qed

end
