(* ===== verification/Errors.thy ===== *)
theory Errors
  imports Prelude
begin

section \<open>Error codes, structured errors and the error-code registry\<close>

text \<open>
  \<^verbatim>\<open>src/src/errors.rs\<close>: the closed enumeration \<open>ErrorCode\<close>, its wire strings, the two tables
  that give a code its recovery hints, \<open>ModuleError\<close> with its builders and the two
  wrapping constructors, and \<open>ErrorCodeRegistry\<close>. A \<open>ModuleError\<close> keeps its code,
  its structured details, its trace id and its two recovery flags; the human-readable texts
  (message, cause, guidance, suggestion) and the timestamp are not modelled.
\<close>

subsection \<open>Codes\<close>

datatype (plugins only: code) error_code =
    ConfigNotFound
  | ConfigInvalid
  | ACLRuleError
  | ACLDenied
  | ModuleNotFound
  | ModuleDisabled
  | ModuleTimeout
  | ModuleLoadError
  | ModuleExecuteError
  | ReloadFailed
  | ExecutionCancelled
  | SchemaValidationError
  | SchemaNotFound
  | SchemaParseError
  | SchemaCircularRef
  | SchemaUnionNoMatch
  | SchemaUnionAmbiguous
  | SchemaMaxDepthExceeded
  | CallDepthExceeded
  | CircularCall
  | CallFrequencyExceeded
  | GeneralInvalidInput
  | InvalidModuleId
  | GeneralInternalError
  | GeneralNotImplemented
  | FuncMissingTypeHint
  | FuncMissingReturnType
  | BindingInvalidTarget
  | BindingModuleNotFound
  | BindingCallableNotFound
  | BindingNotCallable
  | BindingSchemaMissing
  | BindingSchemaInferenceFailed
  | BindingSchemaModeConflict
  | BindingStrictSchemaIncompatible
  | BindingFileInvalid
  | CircularDependency
  | MiddlewareChainError
  | ApprovalDenied
  | ApprovalTimeout
  | ApprovalPending
  | VersionIncompatible
  | ErrorCodeCollision
  | DependencyNotFound
  | DependencyVersionMismatch
  | ConfigNamespaceDuplicate
  | ConfigNamespaceReserved
  | ConfigEnvPrefixConflict
  | ConfigMountError
  | ConfigBindError
  | ConfigEnvMapConflict
  | ErrorFormatterDuplicate
  | PipelineAbort
  | PipelineConfigInvalid
  | PipelineConfigurationError
  | PipelineHandlerNotSupported
  | PipelineStepInsertionAmbiguous
  | PipelineStepError
  | PipelineStepNotFound
  | PipelineDependencyError
  | StepNotFound
  | StepNotRemovable
  | StepNotReplaceable
  | StepNameDuplicate
  | StrategyNotFound
  | EntryPointNotFound
  | EntryPointAmbiguous
  | EntryPointRuntimeUnsupported
  | NoDiscovererConfigured
  | TaskLimitExceeded
  | TaskStoreUnavailable
  | ReaperAlreadyRunning
  | VersionConstraintInvalid
  | InvalidParentId
  | ModuleIdConflict
  | InvalidSegment
  | IdTooLong
  | CircuitBreakerOpen
  | ModuleReloadConflict
  | SysModuleRegistrationFailed
  | SysModulesDisabled
  | ConfigKeyRestricted
  | StreamingInterfaceMismatch
  | DuplicateModuleId
  | ContextBindingError

text \<open>\<open>ErrorCode::ALL\<close>, in declaration order.\<close>

definition all_codes :: "error_code list" where
  "all_codes = [
     ConfigNotFound, ConfigInvalid, ACLRuleError, ACLDenied, ModuleNotFound, ModuleDisabled,
     ModuleTimeout, ModuleLoadError, ModuleExecuteError, ReloadFailed, ExecutionCancelled,
     SchemaValidationError, SchemaNotFound, SchemaParseError, SchemaCircularRef,
     SchemaUnionNoMatch, SchemaUnionAmbiguous, SchemaMaxDepthExceeded, CallDepthExceeded,
     CircularCall, CallFrequencyExceeded, GeneralInvalidInput, InvalidModuleId,
     GeneralInternalError, GeneralNotImplemented, FuncMissingTypeHint, FuncMissingReturnType,
     BindingInvalidTarget, BindingModuleNotFound, BindingCallableNotFound, BindingNotCallable,
     BindingSchemaMissing, BindingSchemaInferenceFailed, BindingSchemaModeConflict,
     BindingStrictSchemaIncompatible, BindingFileInvalid, CircularDependency,
     MiddlewareChainError, ApprovalDenied, ApprovalTimeout, ApprovalPending,
     VersionIncompatible, ErrorCodeCollision, DependencyNotFound, DependencyVersionMismatch,
     ConfigNamespaceDuplicate, ConfigNamespaceReserved, ConfigEnvPrefixConflict,
     ConfigMountError, ConfigBindError, ConfigEnvMapConflict, ErrorFormatterDuplicate,
     PipelineAbort, PipelineConfigInvalid, PipelineConfigurationError,
     PipelineHandlerNotSupported, PipelineStepInsertionAmbiguous, PipelineStepError,
     PipelineStepNotFound, PipelineDependencyError, StepNotFound, StepNotRemovable,
     StepNotReplaceable, StepNameDuplicate, StrategyNotFound, EntryPointNotFound,
     EntryPointAmbiguous, EntryPointRuntimeUnsupported, NoDiscovererConfigured,
     TaskLimitExceeded, TaskStoreUnavailable, ReaperAlreadyRunning, VersionConstraintInvalid,
     InvalidParentId, ModuleIdConflict, InvalidSegment, IdTooLong, CircuitBreakerOpen,
     ModuleReloadConflict, SysModuleRegistrationFailed, SysModulesDisabled,
     ConfigKeyRestricted, StreamingInterfaceMismatch, DuplicateModuleId, ContextBindingError]"

text \<open>The serde rename to SCREAMING\_SNAKE\_CASE, with the explicit renames of the source.\<close>

primrec wire_str :: "error_code \<Rightarrow> string" where
  "wire_str ConfigNotFound = ''CONFIG_NOT_FOUND''"
| "wire_str ConfigInvalid = ''CONFIG_INVALID''"
| "wire_str ACLRuleError = ''ACL_RULE_ERROR''"
| "wire_str ACLDenied = ''ACL_DENIED''"
| "wire_str ModuleNotFound = ''MODULE_NOT_FOUND''"
| "wire_str ModuleDisabled = ''MODULE_DISABLED''"
| "wire_str ModuleTimeout = ''MODULE_TIMEOUT''"
| "wire_str ModuleLoadError = ''MODULE_LOAD_ERROR''"
| "wire_str ModuleExecuteError = ''MODULE_EXECUTE_ERROR''"
| "wire_str ReloadFailed = ''RELOAD_FAILED''"
| "wire_str ExecutionCancelled = ''EXECUTION_CANCELLED''"
| "wire_str SchemaValidationError = ''SCHEMA_VALIDATION_ERROR''"
| "wire_str SchemaNotFound = ''SCHEMA_NOT_FOUND''"
| "wire_str SchemaParseError = ''SCHEMA_PARSE_ERROR''"
| "wire_str SchemaCircularRef = ''SCHEMA_CIRCULAR_REF''"
| "wire_str SchemaUnionNoMatch = ''SCHEMA_UNION_NO_MATCH''"
| "wire_str SchemaUnionAmbiguous = ''SCHEMA_UNION_AMBIGUOUS''"
| "wire_str SchemaMaxDepthExceeded = ''SCHEMA_MAX_DEPTH_EXCEEDED''"
| "wire_str CallDepthExceeded = ''CALL_DEPTH_EXCEEDED''"
| "wire_str CircularCall = ''CIRCULAR_CALL''"
| "wire_str CallFrequencyExceeded = ''CALL_FREQUENCY_EXCEEDED''"
| "wire_str GeneralInvalidInput = ''GENERAL_INVALID_INPUT''"
| "wire_str InvalidModuleId = ''INVALID_MODULE_ID''"
| "wire_str GeneralInternalError = ''GENERAL_INTERNAL_ERROR''"
| "wire_str GeneralNotImplemented = ''GENERAL_NOT_IMPLEMENTED''"
| "wire_str FuncMissingTypeHint = ''FUNC_MISSING_TYPE_HINT''"
| "wire_str FuncMissingReturnType = ''FUNC_MISSING_RETURN_TYPE''"
| "wire_str BindingInvalidTarget = ''BINDING_INVALID_TARGET''"
| "wire_str BindingModuleNotFound = ''BINDING_MODULE_NOT_FOUND''"
| "wire_str BindingCallableNotFound = ''BINDING_CALLABLE_NOT_FOUND''"
| "wire_str BindingNotCallable = ''BINDING_NOT_CALLABLE''"
| "wire_str BindingSchemaMissing = ''BINDING_SCHEMA_MISSING''"
| "wire_str BindingSchemaInferenceFailed = ''BINDING_SCHEMA_INFERENCE_FAILED''"
| "wire_str BindingSchemaModeConflict = ''BINDING_SCHEMA_MODE_CONFLICT''"
| "wire_str BindingStrictSchemaIncompatible = ''BINDING_STRICT_SCHEMA_INCOMPATIBLE''"
| "wire_str BindingFileInvalid = ''BINDING_FILE_INVALID''"
| "wire_str CircularDependency = ''CIRCULAR_DEPENDENCY''"
| "wire_str MiddlewareChainError = ''MIDDLEWARE_CHAIN_ERROR''"
| "wire_str ApprovalDenied = ''APPROVAL_DENIED''"
| "wire_str ApprovalTimeout = ''APPROVAL_TIMEOUT''"
| "wire_str ApprovalPending = ''APPROVAL_PENDING''"
| "wire_str VersionIncompatible = ''VERSION_INCOMPATIBLE''"
| "wire_str ErrorCodeCollision = ''ERROR_CODE_COLLISION''"
| "wire_str DependencyNotFound = ''DEPENDENCY_NOT_FOUND''"
| "wire_str DependencyVersionMismatch = ''DEPENDENCY_VERSION_MISMATCH''"
| "wire_str ConfigNamespaceDuplicate = ''CONFIG_NAMESPACE_DUPLICATE''"
| "wire_str ConfigNamespaceReserved = ''CONFIG_NAMESPACE_RESERVED''"
| "wire_str ConfigEnvPrefixConflict = ''CONFIG_ENV_PREFIX_CONFLICT''"
| "wire_str ConfigMountError = ''CONFIG_MOUNT_ERROR''"
| "wire_str ConfigBindError = ''CONFIG_BIND_ERROR''"
| "wire_str ConfigEnvMapConflict = ''CONFIG_ENV_MAP_CONFLICT''"
| "wire_str ErrorFormatterDuplicate = ''ERROR_FORMATTER_DUPLICATE''"
| "wire_str PipelineAbort = ''PIPELINE_ABORT''"
| "wire_str PipelineConfigInvalid = ''PIPELINE_CONFIG_INVALID''"
| "wire_str PipelineConfigurationError = ''PIPELINE_CONFIGURATION_ERROR''"
| "wire_str PipelineHandlerNotSupported = ''PIPELINE_HANDLER_NOT_SUPPORTED''"
| "wire_str PipelineStepInsertionAmbiguous = ''PIPELINE_STEP_INSERTION_AMBIGUOUS''"
| "wire_str PipelineStepError = ''PIPELINE_STEP_ERROR''"
| "wire_str PipelineStepNotFound = ''PIPELINE_STEP_NOT_FOUND''"
| "wire_str PipelineDependencyError = ''PIPELINE_DEPENDENCY_ERROR''"
| "wire_str StepNotFound = ''STEP_NOT_FOUND''"
| "wire_str StepNotRemovable = ''STEP_NOT_REMOVABLE''"
| "wire_str StepNotReplaceable = ''STEP_NOT_REPLACEABLE''"
| "wire_str StepNameDuplicate = ''STEP_NAME_DUPLICATE''"
| "wire_str StrategyNotFound = ''STRATEGY_NOT_FOUND''"
| "wire_str EntryPointNotFound = ''ENTRY_POINT_NOT_FOUND''"
| "wire_str EntryPointAmbiguous = ''ENTRY_POINT_AMBIGUOUS''"
| "wire_str EntryPointRuntimeUnsupported = ''ENTRY_POINT_RUNTIME_UNSUPPORTED''"
| "wire_str NoDiscovererConfigured = ''NO_DISCOVERER_CONFIGURED''"
| "wire_str TaskLimitExceeded = ''TASK_LIMIT_EXCEEDED''"
| "wire_str TaskStoreUnavailable = ''TASK_STORE_UNAVAILABLE''"
| "wire_str ReaperAlreadyRunning = ''REAPER_ALREADY_RUNNING''"
| "wire_str VersionConstraintInvalid = ''VERSION_CONSTRAINT_INVALID''"
| "wire_str InvalidParentId = ''INVALID_PARENT_ID''"
| "wire_str ModuleIdConflict = ''MODULE_ID_CONFLICT''"
| "wire_str InvalidSegment = ''INVALID_SEGMENT''"
| "wire_str IdTooLong = ''ID_TOO_LONG''"
| "wire_str CircuitBreakerOpen = ''CIRCUIT_BREAKER_OPEN''"
| "wire_str ModuleReloadConflict = ''MODULE_RELOAD_CONFLICT''"
| "wire_str SysModuleRegistrationFailed = ''SYS_MODULE_REGISTRATION_FAILED''"
| "wire_str SysModulesDisabled = ''SYS_MODULES_DISABLED''"
| "wire_str ConfigKeyRestricted = ''CONFIG_KEY_RESTRICTED''"
| "wire_str StreamingInterfaceMismatch = ''STREAMING_INTERFACE_MISMATCH''"
| "wire_str DuplicateModuleId = ''DUPLICATE_MODULE_ID''"
| "wire_str ContextBindingError = ''CONTEXT_BINDING_ERROR''"

text \<open>Deserialising a code: the first variant with that wire string.\<close>

definition code_of_wire :: "string \<Rightarrow> error_code option" where
  "code_of_wire s = find (\<lambda>c. wire_str c = s) all_codes"

definition framework_prefixes :: "string list" where
  "framework_prefixes = [
     ''ACL_'', ''APPROVAL_'', ''BINDING_'', ''CALL_'', ''CIRCULAR_'',
     ''CONFIG_'', ''DEPENDENCY_'', ''ERROR_CODE_'', ''FUNC_'', ''GENERAL_'',
     ''MIDDLEWARE_'', ''MODULE_'', ''SCHEMA_'', ''VERSION_'']"

text \<open>Recovery hints by code: may a retry help, can the caller fix it.\<close>

definition retryable_for_code :: "error_code \<Rightarrow> bool option" where
  "retryable_for_code c =
     (if c \<in> set [
        ModuleTimeout, ReloadFailed, ExecutionCancelled, GeneralInternalError, ApprovalTimeout,
        TaskLimitExceeded, TaskStoreUnavailable, CircuitBreakerOpen]
      then Some True
      else if c \<in> set [
        ConfigNotFound, ConfigInvalid, ACLRuleError, ACLDenied, ModuleNotFound, ModuleDisabled,
        ModuleLoadError, SchemaValidationError, SchemaNotFound, SchemaParseError,
        SchemaCircularRef, SchemaUnionNoMatch, SchemaUnionAmbiguous, SchemaMaxDepthExceeded,
        CallDepthExceeded, CircularCall, CallFrequencyExceeded, GeneralInvalidInput,
        FuncMissingTypeHint, FuncMissingReturnType, BindingInvalidTarget,
        BindingModuleNotFound, BindingCallableNotFound, BindingNotCallable,
        BindingSchemaMissing, BindingSchemaInferenceFailed, BindingSchemaModeConflict,
        BindingStrictSchemaIncompatible, BindingFileInvalid, CircularDependency,
        MiddlewareChainError, ApprovalDenied, ApprovalPending, VersionIncompatible,
        ErrorCodeCollision, DependencyNotFound, DependencyVersionMismatch,
        ConfigNamespaceDuplicate, ConfigNamespaceReserved, ConfigEnvPrefixConflict,
        ConfigMountError, ConfigBindError, ConfigEnvMapConflict, PipelineConfigurationError,
        VersionConstraintInvalid, InvalidParentId, ConfigKeyRestricted]
      then Some False
      else None)"


definition user_fixable_for_code :: "error_code \<Rightarrow> bool option" where
  "user_fixable_for_code c =
     (if c \<in> set [
        ModuleNotFound, SchemaValidationError, GeneralInvalidInput,
        BindingSchemaInferenceFailed, BindingSchemaModeConflict,
        BindingStrictSchemaIncompatible, DependencyNotFound, DependencyVersionMismatch,
        VersionConstraintInvalid, InvalidParentId]
      then Some True
      else if c \<in> set [
        ACLDenied, ModuleDisabled, ModuleTimeout, CallDepthExceeded, CircularCall,
        CallFrequencyExceeded, GeneralInternalError, ApprovalDenied, ApprovalTimeout]
      then Some False
      else None)"


subsection \<open>Structured errors\<close>

record module_error =
  err_code :: error_code
  err_details :: "(string \<times> json) list"
  err_trace_id :: "string option"
  err_retryable :: "bool option"
  err_user_fixable :: "bool option"

definition module_error_new :: "error_code \<Rightarrow> module_error" where
  "module_error_new c =
     \<lparr>err_code = c, err_details = [], err_trace_id = None,
      err_retryable = retryable_for_code c, err_user_fixable = user_fixable_for_code c\<rparr>"

definition with_details :: "(string \<times> json) list \<Rightarrow> module_error \<Rightarrow> module_error" where
  "with_details d e = e\<lparr>err_details := d\<rparr>"

definition with_trace_id :: "string \<Rightarrow> module_error \<Rightarrow> module_error" where
  "with_trace_id t e = e\<lparr>err_trace_id := Some t\<rparr>"

definition with_retryable :: "bool \<Rightarrow> module_error \<Rightarrow> module_error" where
  "with_retryable b e = e\<lparr>err_retryable := Some b\<rparr>"

definition with_user_fixable :: "bool \<Rightarrow> module_error \<Rightarrow> module_error" where
  "with_user_fixable b e = e\<lparr>err_user_fixable := Some b\<rparr>"

definition json_strings :: "string list \<Rightarrow> json" where
  "json_strings xs = JArray (map JString xs)"

definition json_nat :: "nat \<Rightarrow> json" where
  "json_nat n = JNumber (PosInt n)"

text \<open>A details map built by inserting its entries one after the other.\<close>

definition details_of :: "(string \<times> json) list \<Rightarrow> (string \<times> json) list" where
  "details_of kvs = fold (\<lambda>(k, v). bt_insert k v) kvs []"

lemma details_of_ok: "bt_ok (details_of kvs)"
  unfolding details_of_def by (rule bt.fold_ins_ok) simp

definition invalid_input :: module_error where
  "invalid_input = module_error_new GeneralInvalidInput"

definition step_name_duplicate :: module_error where
  "step_name_duplicate = module_error_new StepNameDuplicate"

definition dependency_not_found :: "string \<Rightarrow> string \<Rightarrow> module_error" where
  "dependency_not_found m d =
     with_details (details_of [(''module_id'', JString m), (''dependency_id'', JString d)])
       (module_error_new DependencyNotFound)"

definition dependency_version_mismatch ::
  "string \<Rightarrow> string \<Rightarrow> string \<Rightarrow> string \<Rightarrow> module_error" where
  "dependency_version_mismatch m d req act =
     with_details
       (details_of [(''module_id'', JString m), (''dependency_id'', JString d),
         (''required'', JString req), (''actual'', JString act)])
       (module_error_new DependencyVersionMismatch)"

definition circuit_breaker_open :: "string \<Rightarrow> string \<Rightarrow> module_error" where
  "circuit_breaker_open m caller =
     with_retryable True
       (with_details (details_of [(''module_id'', JString m), (''caller_id'', JString caller)])
         (module_error_new CircuitBreakerOpen))"

subsection \<open>The JSON form, and errors that carry another error\<close>

definition opt_entry :: "string \<Rightarrow> ('a \<Rightarrow> json) \<Rightarrow> 'a option \<Rightarrow> (string \<times> json) list" where
  "opt_entry k f v = (case v of None \<Rightarrow> [] | Some x \<Rightarrow> [(k, f x)])"

definition error_to_json :: "module_error \<Rightarrow> json" where
  "error_to_json e = JObject
     ((''code'', JString (wire_str (err_code e))) #
      (if err_details e = [] then [] else [(''details'', JObject (err_details e))]) @
      opt_entry ''retryable'' JBool (err_retryable e) @
      opt_entry ''trace_id'' JString (err_trace_id e) @
      opt_entry ''user_fixable'' JBool (err_user_fixable e))"

text \<open>An optional field: absent or null is \<open>None\<close>, a value of the wrong type is an error.\<close>

definition opt_field ::
  "(json \<Rightarrow> 'a option) \<Rightarrow> (string \<times> json) list \<Rightarrow> string \<Rightarrow> 'a option option" where
  "opt_field f es k =
     (case bt_get es k of
        None \<Rightarrow> Some None
      | Some JNull \<Rightarrow> Some None
      | Some v \<Rightarrow> map_option Some (f v))"

definition error_from_json :: "json \<Rightarrow> module_error option" where
  "error_from_json v =
     Option.bind (as_object v) (\<lambda>es.
     Option.bind (Option.bind (bt_get es ''code'') as_str) (\<lambda>w.
     Option.bind (code_of_wire w) (\<lambda>c.
     Option.bind (case bt_get es ''details'' of None \<Rightarrow> Some [] | Some d \<Rightarrow> as_object d) (\<lambda>d.
     Option.bind (opt_field as_str es ''trace_id'') (\<lambda>t.
     Option.bind (opt_field as_bool es ''retryable'') (\<lambda>r.
     Option.bind (opt_field as_bool es ''user_fixable'') (\<lambda>u.
       Some \<lparr>err_code = c, err_details = d, err_trace_id = t, err_retryable = r,
             err_user_fixable = u\<rparr>)))))))"

definition pipeline_step_error :: "string \<Rightarrow> module_error \<Rightarrow> module_error" where
  "pipeline_step_error step cause =
     with_details (details_of [(''step_name'', JString step), (''cause'', error_to_json cause)])
       (module_error_new PipelineStepError)"

definition is_pipeline_step_error :: "module_error \<Rightarrow> bool" where
  "is_pipeline_step_error e \<longleftrightarrow> err_code e = PipelineStepError"

definition error_step_name :: "module_error \<Rightarrow> string option" where
  "error_step_name e = Option.bind (bt_get (err_details e) ''step_name'') as_str"

definition unwrap_pipeline_step_error :: "module_error \<Rightarrow> module_error option" where
  "unwrap_pipeline_step_error e =
     (if \<not> is_pipeline_step_error e then None
      else Option.bind (bt_get (err_details e) ''cause'') error_from_json)"

definition is_middleware_chain_error :: "module_error \<Rightarrow> bool" where
  "is_middleware_chain_error e \<longleftrightarrow> err_code e = MiddlewareChainError"

definition unwrap_middleware_chain_error :: "module_error \<Rightarrow> module_error option" where
  "unwrap_middleware_chain_error e =
     (if \<not> is_middleware_chain_error e then None
      else Option.bind (bt_get (err_details e) ''inner_error'') error_from_json)"

subsection \<open>Error-code registry\<close>

text \<open>
  \<open>ErrorCodeRegistry\<close>: the codes each module owns and the set of all codes in use. A
  \<open>HashSet\<close> of codes is a set; the argument of \<open>register\<close> is the list of its
  elements in iteration order, so that what is proved holds for every order.
\<close>

record code_registry =
  module_codes :: "(string \<times> string set) list"
  known_codes :: "string set"

definition framework_codes :: "string set" where
  "framework_codes = set (map wire_str all_codes)"

definition ecr_new :: code_registry where
  "ecr_new = \<lparr>module_codes = [], known_codes = framework_codes\<rparr>"

fun find_owner :: "(string \<times> string set) list \<Rightarrow> string \<Rightarrow> string option" where
  "find_owner [] c = None"
| "find_owner ((m, cs) # rest) c = (if c \<in> cs then Some m else find_owner rest c)"

definition rebuild_all_codes :: "code_registry \<Rightarrow> code_registry" where
  "rebuild_all_codes r =
     r\<lparr>known_codes := framework_codes \<union> \<Union> (set (map snd (module_codes r)))\<rparr>"

definition collision_error :: "string \<Rightarrow> string \<Rightarrow> string \<Rightarrow> module_error" where
  "collision_error c m src =
     with_details
       (details_of [(''code'', JString c), (''module_id'', JString m),
         (''conflict_source'', JString src)])
       (module_error_new ErrorCodeCollision)"

definition check_code :: "code_registry \<Rightarrow> string \<Rightarrow> string \<Rightarrow> module_error option" where
  "check_code r m c =
     (if c \<in> framework_codes then Some (collision_error c m ''framework'')
      else if \<exists>p \<in> set framework_prefixes. prefix p c
           then Some (collision_error c m ''framework'')
      else (case find_owner (module_codes r) c of
              None \<Rightarrow> None
            | Some owner \<Rightarrow>
                if owner \<noteq> m then Some (collision_error c m owner) else None))"

fun check_codes :: "code_registry \<Rightarrow> string \<Rightarrow> string list \<Rightarrow> module_error option" where
  "check_codes r m [] = None"
| "check_codes r m (c # cs) =
     (case check_code r m c of Some e \<Rightarrow> Some e | None \<Rightarrow> check_codes r m cs)"

definition ecr_register ::
  "code_registry \<Rightarrow> string \<Rightarrow> string list \<Rightarrow> module_error + code_registry" where
  "ecr_register r m cs =
     (case check_codes r m cs of
        Some e \<Rightarrow> Inl e
      | None \<Rightarrow>
          let old = (case bt_get (module_codes r) m of None \<Rightarrow> {} | Some s \<Rightarrow> s)
          in Inr (rebuild_all_codes
               (r\<lparr>module_codes := bt_insert m (old \<union> set cs) (module_codes r)\<rparr>)))"

definition ecr_unregister :: "code_registry \<Rightarrow> string \<Rightarrow> code_registry" where
  "ecr_unregister r m = rebuild_all_codes (r\<lparr>module_codes := bt_remove m (module_codes r)\<rparr>)"

text \<open>
  Well-formedness: every module owns codes that no other module owns, none of them a framework
  code or in a framework namespace, and \<open>known_codes\<close> is exactly what is in use.
\<close>

definition ecr_ok :: "code_registry \<Rightarrow> bool" where
  "ecr_ok r \<longleftrightarrow>
     bt_ok (module_codes r) \<and>
     (\<forall>m cs c. bt_get (module_codes r) m = Some cs \<longrightarrow> c \<in> cs \<longrightarrow>
        c \<notin> framework_codes \<and> (\<forall>p \<in> set framework_prefixes. \<not> prefix p c)) \<and>
     (\<forall>m n cs ds. bt_get (module_codes r) m = Some cs \<longrightarrow> bt_get (module_codes r) n = Some ds \<longrightarrow>
        m \<noteq> n \<longrightarrow> cs \<inter> ds = {}) \<and>
     known_codes r = framework_codes \<union> \<Union> (set (map snd (module_codes r)))"

subsection \<open>Correctness\<close>

lemma all_codes_complete: "set all_codes = UNIV"
proof -
  have "c \<in> set all_codes" for c
    by (cases c) (simp_all only: all_codes_def list.set insert_iff simp_thms)
  then show ?thesis by blast
qed

lemma wire_strs_distinct: "distinct (map wire_str all_codes)"
  by (simp add: all_codes_def)

lemma inj_wire_str: "inj wire_str"
  using wire_strs_distinct by (simp add: distinct_map all_codes_complete)

lemma code_of_wire_wire_str [simp]: "code_of_wire (wire_str c) = Some c"
proof -
  have "\<exists>d. find (\<lambda>d. wire_str d = wire_str c) all_codes = Some d"
    using all_codes_complete by (metis (mono_tags, lifting) UNIV_I find_None_iff2 not_None_eq)
  then obtain d where d: "find (\<lambda>d. wire_str d = wire_str c) all_codes = Some d" by blast
  then have "wire_str d = wire_str c" by (simp add: find_Some_iff) blast
  with d inj_wire_str show ?thesis by (simp add: code_of_wire_def inj_eq)
qed

lemma error_json_roundtrip: "error_from_json (error_to_json e) = Some e"
  by (cases "err_trace_id e"; cases "err_retryable e"; cases "err_user_fixable e")
    (simp_all add: error_from_json_def error_to_json_def opt_entry_def opt_field_def bt_get_def)

lemma err_details_pipeline_step_error:
  "err_details (pipeline_step_error s e) =
     [(''cause'', error_to_json e), (''step_name'', JString s)]"
  by (simp add: pipeline_step_error_def with_details_def details_of_def)

lemma find_owner_Some: "find_owner ms c = Some m \<Longrightarrow> \<exists>cs. (m, cs) \<in> set ms \<and> c \<in> cs"
  by (induction ms c rule: find_owner.induct) (auto split: if_splits)

lemma find_owner_None: "find_owner ms c = None \<longleftrightarrow> (\<forall>(m, cs) \<in> set ms. c \<notin> cs)"
  by (induction ms c rule: find_owner.induct) auto

lemma check_codes_None: "check_codes r m cs = None \<longleftrightarrow> (\<forall>c \<in> set cs. check_code r m c = None)"
  by (induction cs) (auto split: option.splits)

lemma check_code_None:
  "check_code r m c = None \<longleftrightarrow>
     c \<notin> framework_codes \<and> (\<forall>p \<in> set framework_prefixes. \<not> prefix p c) \<and>
     (find_owner (module_codes r) c = None \<or> find_owner (module_codes r) c = Some m)"
  by (auto simp: check_code_def split: option.splits)

lemma ecr_ok_owner:
  assumes "ecr_ok r" and "bt_get (module_codes r) n = Some ds" and "c \<in> ds"
  shows "find_owner (module_codes r) c = Some n"
proof -
  have ok: "bt_ok (module_codes r)" using assms(1) by (simp add: ecr_ok_def)
  have "(n, ds) \<in> set (module_codes r)" using ok assms(2) by (simp add: bt_get_entry)
  with assms(3) have "find_owner (module_codes r) c \<noteq> None" by (auto simp: find_owner_None)
  then obtain m where m: "find_owner (module_codes r) c = Some m" by blast
  then obtain cs where cs: "bt_get (module_codes r) m = Some cs" "c \<in> cs"
    using find_owner_Some [OF m] ok by (auto simp: bt_get_entry)
  with assms have "m = n" unfolding ecr_ok_def by blast
  with m show ?thesis by simp
qed

lemma ecr_ok_register:
  assumes ok: "ecr_ok r" and reg: "ecr_register r m cs = Inr r'"
  shows "ecr_ok r'"
proof -
  define old where "old = (case bt_get (module_codes r) m of None \<Rightarrow> {} | Some s \<Rightarrow> s)"
  have chk: "\<forall>c \<in> set cs. check_code r m c = None"
    and r': "r' = rebuild_all_codes
       (r\<lparr>module_codes := bt_insert m (old \<union> set cs) (module_codes r)\<rparr>)"
    using reg by (auto simp: ecr_register_def old_def Let_def check_codes_None split: option.splits)
  have bt: "bt_ok (module_codes r)" using ok by (simp add: ecr_ok_def)
  have get: "bt_get (module_codes r') k =
      (if k = m then Some (old \<union> set cs) else bt_get (module_codes r) k)" for k
    by (simp add: r' rebuild_all_codes_def bt.get_ins bt)
  have old_in: "c \<in> old \<Longrightarrow> \<exists>s. bt_get (module_codes r) m = Some s \<and> c \<in> s" for c
    by (auto simp: old_def split: option.splits)
  have foreign: "c \<notin> ds" if "k \<noteq> m" "bt_get (module_codes r) k = Some ds" "c \<in> old \<union> set cs" for c k ds
  proof
    assume "c \<in> ds"
    with that(2) have "find_owner (module_codes r) c = Some k" by (rule ecr_ok_owner [OF ok])
    moreover have "find_owner (module_codes r) c = None \<or> find_owner (module_codes r) c = Some m"
      using that(3) chk old_in [of c] ecr_ok_owner [OF ok, of m _ c] by (auto simp: check_code_None)
    ultimately show False using that(1) by auto
  qed
  have adm: "c \<notin> framework_codes \<and> (\<forall>p \<in> set framework_prefixes. \<not> prefix p c)"
    if "c \<in> old \<union> set cs" for c
    using that chk old_in [of c] ok unfolding ecr_ok_def by (auto simp: check_code_None)
  show ?thesis
    unfolding ecr_ok_def get
  proof (intro conjI allI impI)
    show "bt_ok (module_codes r')" by (simp add: r' rebuild_all_codes_def bt.ok_ins bt)
    show "known_codes r' = framework_codes \<union> \<Union> (set (map snd (module_codes r')))"
      by (simp add: r' rebuild_all_codes_def)
  next
    fix k ds c assume "(if k = m then Some (old \<union> set cs) else bt_get (module_codes r) k) = Some ds" "c \<in> ds"
    then show "c \<notin> framework_codes" using adm ok unfolding ecr_ok_def by (auto split: if_splits)
  next
    fix k ds c assume "(if k = m then Some (old \<union> set cs) else bt_get (module_codes r) k) = Some ds" "c \<in> ds"
    then show "\<forall>p \<in> set framework_prefixes. \<not> prefix p c"
      using adm ok unfolding ecr_ok_def by (auto split: if_splits)
  next
    fix k n ds es
    assume "(if k = m then Some (old \<union> set cs) else bt_get (module_codes r) k) = Some ds"
      and "(if n = m then Some (old \<union> set cs) else bt_get (module_codes r) n) = Some es" and "k \<noteq> n"
    then show "ds \<inter> es = {}"
      using foreign ok unfolding ecr_ok_def by (fastforce split: if_splits)
  qed
qed

lemma ecr_ok_unregister: "ecr_ok r \<Longrightarrow> ecr_ok (ecr_unregister r m)"
  unfolding ecr_ok_def ecr_unregister_def rebuild_all_codes_def
  by (auto simp: bt.get_del bt.ok_del split: if_splits)

lemma ecr_ok_new: "ecr_ok ecr_new"
  by (simp add: ecr_ok_def ecr_new_def)

inductive ecr_reachable :: "code_registry \<Rightarrow> bool" where
  fresh: "ecr_reachable ecr_new"
| registered: "ecr_reachable r \<Longrightarrow> ecr_register r m cs = Inr r' \<Longrightarrow> ecr_reachable r'"
| unregistered: "ecr_reachable r \<Longrightarrow> ecr_reachable (ecr_unregister r m)"

lemma ecr_reachable_ok: "ecr_reachable r \<Longrightarrow> ecr_ok r"
  by (induction rule: ecr_reachable.induct)
    (auto intro: ecr_ok_new ecr_ok_register ecr_ok_unregister)

subsection \<open>Properties\<close>

text \<open>Wrapping an error for a failed pipeline step loses nothing: the wrapper is recognised,
  names the step, and unwrapping it gives back the original error with its code, details, trace id
  and both recovery flags, through the JSON form in which it is carried.\<close>

theorem pipeline_step_error_roundtrip:
  "is_pipeline_step_error (pipeline_step_error s e) \<and>
   error_step_name (pipeline_step_error s e) = Some s \<and>
   unwrap_pipeline_step_error (pipeline_step_error s e) = Some e"
proof -
  have "err_code (pipeline_step_error s e) = PipelineStepError"
    by (simp add: pipeline_step_error_def with_details_def module_error_new_def)
  then show ?thesis
    by (simp add: is_pipeline_step_error_def unwrap_pipeline_step_error_def error_step_name_def
        err_details_pipeline_step_error bt_get_def error_json_roundtrip)
qed

text \<open>C11: In every registry that any sequence of register and unregister calls can produce, two
  modules never own the same code, no module owns a framework code or a code in a framework
  namespace, and the set of known codes is exactly the framework's and the modules' codes.\<close>

theorem error_codes_never_collide:
  assumes "ecr_reachable r"
    and "bt_get (module_codes r) m = Some cs" and "bt_get (module_codes r) n = Some ds" and "m \<noteq> n"
  shows "cs \<inter> ds = {} \<and> cs \<inter> framework_codes = {} \<and>
    (\<forall>c \<in> cs. \<forall>p \<in> set framework_prefixes. \<not> prefix p c) \<and>
    known_codes r = framework_codes \<union> \<Union> (set (map snd (module_codes r)))"
  using ecr_reachable_ok [OF assms(1)] assms(2-4) unfolding ecr_ok_def by blast

definition two_module_registry :: code_registry where
  "two_module_registry =
     \<lparr>module_codes = [(''a'', {''DISK_FULL''}), (''b'', {''NO_INK''})],
      known_codes = framework_codes \<union> ({''DISK_FULL''} \<union> {''NO_INK''})\<rparr>"

lemma two_module_registry_reachable: "ecr_reachable two_module_registry"
proof -
  have 1: "ecr_register ecr_new ''a'' [''DISK_FULL''] =
      Inr \<lparr>module_codes = [(''a'', {''DISK_FULL''})], known_codes = framework_codes \<union> {''DISK_FULL''}\<rparr>"
    by (simp add: ecr_register_def ecr_new_def check_code_def framework_prefixes_def
        rebuild_all_codes_def bt_get_def framework_codes_def all_codes_def)
  have 2: "ecr_register \<lparr>module_codes = [(''a'', {''DISK_FULL''})],
        known_codes = framework_codes \<union> {''DISK_FULL''}\<rparr> ''b'' [''NO_INK''] =
      Inr two_module_registry"
    by (simp add: two_module_registry_def ecr_register_def check_code_def framework_prefixes_def
        rebuild_all_codes_def bt_get_def framework_codes_def all_codes_def)
  show ?thesis
    by (rule registered [OF registered [OF fresh 1] 2])
qed

theorem error_codes_never_collide_witness:
  "{''DISK_FULL''} \<inter> {''NO_INK''} = {} \<and> {''DISK_FULL''} \<inter> framework_codes = {}"
proof -
  have "bt_get (module_codes two_module_registry) ''a'' = Some {''DISK_FULL''}"
    and "bt_get (module_codes two_module_registry) ''b'' = Some {''NO_INK''}"
    by (simp_all add: two_module_registry_def bt_get_def)
  from error_codes_never_collide [OF two_module_registry_reachable this] show ?thesis by simp
qed

end
