(* ===== verification/Names.thy ===== *)
theory Names
  imports Patterns Errors
begin

section \<open>Names: snake case, canonical identifiers, bare names\<close>

text \<open>
  \<^verbatim>\<open>src/src/utils/helpers.rs\<close> (\<open>to_snake_case\<close>, \<open>normalize_to_canonical_id\<close>,
  Algorithm A02) and \<^verbatim>\<open>src/src/utils/name.rs\<close> (\<open>canonicalize_name\<close>). The regular expression
  \<^verbatim>\<open>^[a-z][a-z0-9_]*(\.[a-z][a-z0-9_]*)*$\<close> of the source is the predicate
  \<open>canonical_id_grammar\<close>.
\<close>

subsection \<open>Snake case\<close>

fun case_boundary :: "char option \<Rightarrow> char \<Rightarrow> string \<Rightarrow> bool" where
  "case_boundary None ch rest = False"
| "case_boundary (Some prev) ch rest =
     (if (is_ascii_lower prev \<or> is_ascii_digit prev) \<and> is_ascii_upper ch then True
      else is_ascii_upper prev \<and> is_ascii_upper ch \<and> rest \<noteq> [] \<and> is_ascii_lower (hd rest))"

fun snake_loop :: "char option \<Rightarrow> string \<Rightarrow> string" where
  "snake_loop prev [] = []"
| "snake_loop prev (ch # rest) =
     (if case_boundary prev ch rest then [CHR ''_''] else []) @
     to_ascii_lower ch # snake_loop (Some ch) rest"

definition to_snake_case :: "string \<Rightarrow> string" where
  "to_snake_case segment =
     (if \<not> list_ex is_ascii_upper segment then segment else snake_loop None segment)"

subsection \<open>Canonical module identifiers\<close>

text \<open>\<open>str::split\<close> with a string separator.\<close>

function split_str :: "string \<Rightarrow> string \<Rightarrow> string list" where
  "split_str sep s =
     (if sep = [] then [s]
      else (case find_sub sep s of
              None \<Rightarrow> [s]
            | Some i \<Rightarrow> take i s # split_str sep (drop (i + length sep) s)))"
  by pat_completeness auto
termination
proof (relation "measure (\<lambda>(sep, s). length s)")
  fix sep s :: string and i
  assume "sep \<noteq> []" and "find_sub sep s = Some i"
  then show "((sep, drop (i + length sep) s), (sep, s)) \<in> measure (\<lambda>(sep, s). length s)"
    using find_sub_Some [of sep s i] by (cases sep) auto
qed simp

declare split_str.simps [simp del]

definition supported_languages :: "(string \<times> string) list" where
  "supported_languages =
     [(''python'', ''.''), (''rust'', ''::''), (''go'', ''.''), (''java'', ''.''),
      (''typescript'', ''.'')]"

definition separator_for_language :: "string \<Rightarrow> string option" where
  "separator_for_language language =
     map_option snd (find (\<lambda>e. fst e = language) supported_languages)"

definition segment_char :: "char \<Rightarrow> bool" where
  "segment_char c \<longleftrightarrow> is_ascii_lower c \<or> is_ascii_digit c \<or> c = CHR ''_''"

definition canonical_segment :: "string \<Rightarrow> bool" where
  "canonical_segment s \<longleftrightarrow> s \<noteq> [] \<and> is_ascii_lower (hd s) \<and> list_all segment_char (tl s)"

definition canonical_id_grammar :: "string \<Rightarrow> bool" where
  "canonical_id_grammar s \<longleftrightarrow> list_all canonical_segment (split_on CHR ''.'' s)"

definition normalize_to_canonical_id :: "string \<Rightarrow> string \<Rightarrow> module_error + string" where
  "normalize_to_canonical_id local_id language =
     (if local_id = [] then Inl (module_error_new GeneralInvalidInput)
      else (case separator_for_language language of
              None \<Rightarrow> Inl (module_error_new GeneralInvalidInput)
            | Some separator \<Rightarrow>
                (let canonical_id =
                       join_with ''.'' (map to_snake_case (split_str separator local_id))
                 in if \<not> canonical_id_grammar canonical_id
                    then Inl (module_error_new GeneralInvalidInput)
                    else Inr canonical_id)))"

subsection \<open>Bare names\<close>

datatype canonical_name_error = EmptyName | NonAscii | InvalidStart | NameTooLong

record canonical_name_result =
  original_name :: string
  canonical_name :: "string option"
  name_error :: "canonical_name_error option"

definition name_char :: "char \<Rightarrow> bool" where
  "name_char c \<longleftrightarrow> is_ascii_alnum c \<or> c = CHR ''_''"

text \<open>\<open>trim_matches\<close> with the predicate "not alphanumeric and not an underscore".\<close>

definition trim_separators :: "string \<Rightarrow> string" where
  "trim_separators s =
     rev (dropWhile (\<lambda>c. \<not> name_char c) (rev (dropWhile (\<lambda>c. \<not> name_char c) s)))"

fun separator_runs_loop :: "bool \<Rightarrow> string \<Rightarrow> string" where
  "separator_runs_loop in_separator [] = []"
| "separator_runs_loop in_separator (byte # rest) =
     (if name_char byte then byte # separator_runs_loop False rest
      else if \<not> in_separator then CHR ''_'' # separator_runs_loop True rest
      else separator_runs_loop in_separator rest)"

definition replace_separator_runs :: "string \<Rightarrow> string" where
  "replace_separator_runs name = separator_runs_loop False name"

definition canonicalize_name :: "string \<Rightarrow> canonical_name_result" where
  "canonicalize_name name =
     (let result = \<lparr>original_name = name, canonical_name = None, name_error = None\<rparr>
      in if \<not> list_all is_ascii_char name then result\<lparr>name_error := Some NonAscii\<rparr>
         else
           (let trimmed = trim_separators name;
                candidate = replace_separator_runs (to_snake_case trimmed);
                err = (if candidate = [] then Some EmptyName
                       else if \<not> is_ascii_lower (hd candidate) then Some InvalidStart
                       else if 192 < length candidate then Some NameTooLong
                       else None)
            in (case err of
                  Some e \<Rightarrow> result\<lparr>name_error := Some e\<rparr>
                | None \<Rightarrow> result\<lparr>canonical_name := Some candidate\<rparr>)))"

subsection \<open>Lemmas\<close>

lemma lower_not_upper: "is_ascii_lower c \<Longrightarrow> \<not> is_ascii_upper c"
  by (simp add: model_simps)

lemma segment_char_not_upper: "segment_char c \<Longrightarrow> \<not> is_ascii_upper c"
  by (auto simp: segment_char_def model_simps)

lemma to_ascii_lower_underscore [simp]: "to_ascii_lower c = CHR ''_'' \<longleftrightarrow> c = CHR ''_''"
proof -
  have "to_ascii_lower c \<noteq> CHR ''_''" if u: "is_ascii_upper c"
  proof
    assume "to_ascii_lower c = CHR ''_''"
    then have "(of_char c + 32 :: nat) = 95"
      using of_char_to_ascii_lower [of c] u by simp
    with u show False by (simp add: is_ascii_upper_def)
  qed
  moreover have "\<not> is_ascii_upper (CHR ''_'')" by (simp add: is_ascii_upper_def)
  ultimately show ?thesis by (cases "is_ascii_upper c") (auto simp: to_ascii_lower_id)
qed

lemma underscore_not_upper [simp]: "\<not> is_ascii_upper (CHR ''_'')"
  by (simp add: is_ascii_upper_def)

lemma snake_loop_no_upper: "\<not> list_ex is_ascii_upper (snake_loop prev s)"
  by (induction prev s rule: snake_loop.induct) auto

lemma to_snake_case_no_upper: "\<not> list_ex is_ascii_upper (to_snake_case s)"
  by (simp add: to_snake_case_def snake_loop_no_upper)

lemma to_snake_case_id: "\<not> list_ex is_ascii_upper s \<Longrightarrow> to_snake_case s = s"
  by (simp add: to_snake_case_def)

lemma snake_loop_letters:
  "filter (\<lambda>c. c \<noteq> CHR ''_'') (snake_loop prev s) =
     map to_ascii_lower (filter (\<lambda>c. c \<noteq> CHR ''_'') s)"
  by (induction prev s rule: snake_loop.induct) auto

lemma to_snake_case_letters:
  "filter (\<lambda>c. c \<noteq> CHR ''_'') (to_snake_case s) =
     map to_ascii_lower (filter (\<lambda>c. c \<noteq> CHR ''_'') s)"
proof (cases "list_ex is_ascii_upper s")
  case True
  then show ?thesis by (simp add: to_snake_case_def snake_loop_letters)
next
  case False
  then have "map to_ascii_lower (filter (\<lambda>c. c \<noteq> CHR ''_'') s) = filter (\<lambda>c. c \<noteq> CHR ''_'') s"
    by (intro map_idI to_ascii_lower_id) (auto simp: list_ex_iff)
  with False show ?thesis by (simp add: to_snake_case_def)
qed

lemma canonical_segment_chars: "canonical_segment s \<Longrightarrow> list_all segment_char s"
  by (cases s) (auto simp: canonical_segment_def segment_char_def)

lemma canonical_segment_snake: "canonical_segment s \<Longrightarrow> to_snake_case s = s"
  by (rule to_snake_case_id)
    (auto simp: list_ex_iff list_all_iff dest!: canonical_segment_chars segment_char_not_upper)

lemma find_sub_single: "find_sub [c] s = None \<longleftrightarrow> c \<notin> set s"
  by (induction s) auto

lemma split_str_single: "split_str [c] s = split_on c s"
proof (induction "[c]" s rule: split_str.induct)
  case (1 s)
  show ?case
  proof (cases "find_sub [c] s")
    case None
    then have "c \<notin> set s" by (simp add: find_sub_single)
    with None show ?thesis
      by (subst split_str.simps) (simp add: split_on_no_sep del: find_sub_single)
  next
    case (Some i)
    have "split_on c s = take i s # split_on c (drop (Suc i) s)"
      using Some
    proof (induction s arbitrary: i)
      case Nil
      then show ?case by simp
    next
      case (Cons x s)
      then show ?case by (auto split: if_splits)
    qed
    with Some 1 show ?thesis by (subst split_str.simps) simp
  qed
qed

lemma runs_loop_chars: "c \<in> set (separator_runs_loop b s) \<Longrightarrow> name_char c"
  by (induction b s rule: separator_runs_loop.induct) (auto simp: name_char_def split: if_splits)

lemma runs_loop_id: "list_all name_char s \<Longrightarrow> separator_runs_loop b s = s"
  by (induction s arbitrary: b) auto

lemma runs_loop_upper: "list_ex is_ascii_upper (separator_runs_loop b s) \<Longrightarrow> list_ex is_ascii_upper s"
  by (induction b s rule: separator_runs_loop.induct) (auto simp: is_ascii_upper_def split: if_splits)

lemma trim_separators_id: "list_all name_char s \<Longrightarrow> trim_separators s = s"
proof -
  have id: "dropWhile (\<lambda>c. \<not> name_char c) t = t" if "list_all name_char t" for t
    using that by (cases t) auto
  assume "list_all name_char s"
  then show ?thesis by (simp add: trim_separators_def id list_all_iff)
qed

lemma name_char_ascii: "name_char c \<Longrightarrow> is_ascii_char c"
  by (auto simp: name_char_def model_simps)

lemma canonicalize_name_Some:
  assumes "canonical_name (canonicalize_name name) = Some c"
  shows "canonical_segment c \<and> length c \<le> 192 \<and> list_all name_char c \<and>
    \<not> list_ex is_ascii_upper c"
proof -
  let ?cand = "replace_separator_runs (to_snake_case (trim_separators name))"
  have c: "c = ?cand" and ne: "c \<noteq> []" and l: "is_ascii_lower (hd c)" and len: "length c \<le> 192"
    using assms by (auto simp: canonicalize_name_def Let_def split: if_splits)
  have nc: "list_all name_char c"
    unfolding c replace_separator_runs_def by (auto simp: list_all_iff dest: runs_loop_chars)
  have nu: "\<not> list_ex is_ascii_upper c"
    unfolding c replace_separator_runs_def
    using runs_loop_upper to_snake_case_no_upper by blast
  have "list_all segment_char c"
    using nc nu by (auto simp: list_all_iff list_ex_iff name_char_def segment_char_def is_ascii_alnum_def)
  then have "canonical_segment c" using ne l by (cases c) (auto simp: canonical_segment_def)
  with len nc nu show ?thesis by blast
qed

lemma canonicalize_name_fixpoint:
  assumes "canonical_segment c" "length c \<le> 192" "list_all name_char c" "\<not> list_ex is_ascii_upper c"
  shows "canonicalize_name c = \<lparr>original_name = c, canonical_name = Some c, name_error = None\<rparr>"
proof -
  have "list_all is_ascii_char c" using assms(3) by (auto simp: list_all_iff dest: name_char_ascii)
  with assms show ?thesis
    by (simp add: canonicalize_name_def trim_separators_id to_snake_case_id replace_separator_runs_def
        runs_loop_id canonical_segment_def Let_def)
qed

subsection \<open>Properties\<close>

text \<open>Canonicalising a bare name always gives either a canonical segment (a lowercase first
  letter, then lowercase letters, digits and underscores, at most 192 characters) and no error, or
  an error and no name; and a name it produced is left unchanged when canonicalised again.\<close>

theorem canonicalize_name_total_and_idempotent:
  "(case canonical_name (canonicalize_name name) of
      None \<Rightarrow> name_error (canonicalize_name name) \<noteq> None
    | Some c \<Rightarrow> name_error (canonicalize_name name) = None \<and> canonical_segment c \<and> length c \<le> 192 \<and>
        canonicalize_name c = \<lparr>original_name = c, canonical_name = Some c, name_error = None\<rparr>) \<and>
   original_name (canonicalize_name name) = name"
proof (cases "canonical_name (canonicalize_name name)")
  case None
  then show ?thesis by (auto simp: canonicalize_name_def Let_def split: if_splits)
next
  case (Some c)
  moreover have "name_error (canonicalize_name name) = None"
    using Some by (auto simp: canonicalize_name_def Let_def split: if_splits)
  moreover have "original_name (canonicalize_name name) = name"
    by (auto simp: canonicalize_name_def Let_def)
  ultimately show ?thesis
    using canonicalize_name_Some [OF Some] canonicalize_name_fixpoint by simp
qed

text \<open>An identifier that \<open>normalize_to_canonical_id\<close> returns obeys the canonical grammar,
  and normalising it again, in any language whose separator is the dot, returns it unchanged.\<close>

theorem normalize_canonical_and_stable:
  assumes "normalize_to_canonical_id local_id language = Inr r"
  shows "canonical_id_grammar r \<and> normalize_to_canonical_id r ''python'' = Inr r"
proof -
  have g: "canonical_id_grammar r"
    using assms by (auto simp: normalize_to_canonical_id_def Let_def split: if_splits option.splits)
  have sep: "separator_for_language ''python'' = Some ''.''"
    by (simp add: separator_for_language_def supported_languages_def)
  have "map to_snake_case (split_on CHR ''.'' r) = split_on CHR ''.'' r"
    using g by (intro map_idI canonical_segment_snake) (simp add: canonical_id_grammar_def list_all_iff)
  moreover have "r \<noteq> []" using g by (auto simp: canonical_id_grammar_def canonical_segment_def)
  ultimately show ?thesis
    using g by (simp add: normalize_to_canonical_id_def sep split_str_single join_split_on)
qed

theorem normalize_canonical_and_stable_witness:
  "canonical_id_grammar ''http_client.get_user'' \<and>
   normalize_to_canonical_id ''http_client.get_user'' ''python'' = Inr ''http_client.get_user''"
proof -
  have "normalize_to_canonical_id ''HTTPClient.GetUser'' ''typescript'' = Inr ''http_client.get_user''"
    by code_simp
  from normalize_canonical_and_stable [OF this] show ?thesis .
qed

text \<open>Snake-casing only inserts underscores and lowers letters: without its underscores the
  result is the input without its underscores, lowered, and it contains no uppercase letter, so a
  second application changes nothing.\<close>

theorem to_snake_case_preserves_letters:
  "filter (\<lambda>c. c \<noteq> CHR ''_'') (to_snake_case s) =
     map to_ascii_lower (filter (\<lambda>c. c \<noteq> CHR ''_'') s) \<and>
   to_snake_case (to_snake_case s) = to_snake_case s"
  by (simp add: to_snake_case_letters to_snake_case_id to_snake_case_no_upper)

end
