(* ===== verification/Contexts.thy ===== *)
theory Contexts
  imports Errors
begin

section \<open>Contexts: identities, the call tree and the call-chain guard\<close>

text \<open>
  \<open>src/src/context.rs\<close> and the guard of \<open>src/src/utils/helpers.rs\<close>.
  The data map that parent and child contexts share through an \<open>Arc\<close> is an address of
  the store \<open>data_store\<close>; an executor handle and a cancel token are addresses too, so that
  \<open>Arc::ptr_eq\<close> is equality of addresses. Random trace ids
  (\<open>uuid::Uuid::new_v4\<close>) are the parameter \<open>fresh\<close>, and \<open>T::default()\<close> of
  the services type is the parameter \<open>dflt\<close>.
\<close>

subsection \<open>Identity and context\<close>

record identity =
  id_id :: string
  id_type :: string
  id_roles :: "string list"
  id_attrs :: "(string \<times> json) list"

definition identity_new ::
  "string \<Rightarrow> string \<Rightarrow> string list \<Rightarrow> (string \<times> json) list \<Rightarrow> identity" where
  "identity_new i t rs a = \<lparr>id_id = i, id_type = t, id_roles = rs, id_attrs = a\<rparr>"

definition identity_get_attr :: "identity \<Rightarrow> string \<Rightarrow> json option" where
  "identity_get_attr i k = bt_get (id_attrs i) k"

record 's call_context =
  ctx_trace_id :: string
  ctx_identity :: "identity option"
  ctx_services :: 's
  ctx_caller_id :: "string option"
  ctx_data :: nat
  ctx_call_chain :: "string list"
  ctx_redacted_inputs :: "(string \<times> json) list option"
  ctx_redacted_output :: "(string \<times> json) list option"
  ctx_cancel_token :: "nat option"
  ctx_global_deadline :: "jnumber option"
  ctx_executor :: "nat option"

record data_store =
  next_ref :: nat
  data_maps :: "nat \<Rightarrow> (string \<times> json) list"

definition alloc_data :: "(string \<times> json) list \<Rightarrow> data_store \<Rightarrow> nat \<times> data_store" where
  "alloc_data m st =
     (next_ref st, st\<lparr>next_ref := Suc (next_ref st), data_maps := (data_maps st)(next_ref st := m)\<rparr>)"

definition read_data :: "data_store \<Rightarrow> 's call_context \<Rightarrow> (string \<times> json) list" where
  "read_data st c = data_maps st (ctx_data c)"

definition write_data :: "'s call_context \<Rightarrow> string \<Rightarrow> json \<Rightarrow> data_store \<Rightarrow> data_store" where
  "write_data c k v st =
     st\<lparr>data_maps := (data_maps st)(ctx_data c := bt_insert k v (read_data st c))\<rparr>"

definition context_child :: "'s call_context \<Rightarrow> string \<Rightarrow> 's call_context" where
  "context_child c target =
     \<lparr>ctx_trace_id = ctx_trace_id c,
      ctx_identity = ctx_identity c,
      ctx_services = ctx_services c,
      ctx_caller_id = (if ctx_call_chain c = [] then None else Some (last (ctx_call_chain c))),
      ctx_data = ctx_data c,
      ctx_call_chain = ctx_call_chain c @ [target],
      ctx_redacted_inputs = None,
      ctx_redacted_output = None,
      ctx_cancel_token = ctx_cancel_token c,
      ctx_global_deadline = ctx_global_deadline c,
      ctx_executor = ctx_executor c\<rparr>"

definition bind_executor :: "'s call_context \<Rightarrow> nat \<Rightarrow> module_error + 's call_context" where
  "bind_executor c e =
     (case ctx_executor c of
        None \<Rightarrow> Inr (c\<lparr>ctx_executor := Some e\<rparr>)
      | Some e' \<Rightarrow> if e' = e then Inr c else Inl (module_error_new ContextBindingError))"

subsection \<open>Creation\<close>

record trace_parent =
  tp_version :: nat
  tp_trace_id :: string
  tp_parent_id :: string
  tp_flags :: nat
  tp_state :: "(string \<times> string) list"

definition trace_id_zeros :: string where
  "trace_id_zeros = replicate 32 (CHR ''0'')"

definition trace_id_ffff :: string where
  "trace_id_ffff = replicate 32 (CHR ''f'')"

definition is_hex_lower :: "char \<Rightarrow> bool" where
  "is_hex_lower c \<longleftrightarrow> is_ascii_digit c \<or> (of_char c \<ge> (97 :: nat) \<and> of_char c \<le> (102 :: nat))"

definition accept_or_regenerate_trace_id :: "string \<Rightarrow> string \<Rightarrow> string" where
  "accept_or_regenerate_trace_id fresh incoming =
     (if length incoming = 32 \<and> list_all is_hex_lower incoming
         \<and> incoming \<noteq> trace_id_zeros \<and> incoming \<noteq> trace_id_ffff
      then incoming else fresh)"

definition hex_digit :: "nat \<Rightarrow> char" where
  "hex_digit n = char_of (if n < 10 then 48 + n else 87 + n)"

text \<open>\<open>format!("{:02x}", flags)\<close> of a byte.\<close>

definition hex_byte :: "nat \<Rightarrow> string" where
  "hex_byte b = [hex_digit (b div 16), hex_digit (b mod 16)]"

text \<open>\<open>entry(k).or_insert_with(v)\<close>.\<close>

definition or_insert :: "string \<Rightarrow> json \<Rightarrow> (string \<times> json) list \<Rightarrow> (string \<times> json) list" where
  "or_insert k v m = (case bt_get m k of None \<Rightarrow> bt_insert k v m | Some _ \<Rightarrow> m)"

definition trace_state_json :: "(string \<times> string) list \<Rightarrow> json" where
  "trace_state_json st = JArray (map (\<lambda>(k, v). JArray [JString k, JString v]) st)"

definition seed_trace_data :: "trace_parent \<Rightarrow> (string \<times> json) list \<Rightarrow> (string \<times> json) list" where
  "seed_trace_data tp m =
     (let m1 = or_insert ''_apcore.trace.flags'' (JString (hex_byte (tp_flags tp))) m in
      if tp_state tp = [] then m1
      else or_insert ''_apcore.trace.state'' (trace_state_json (tp_state tp)) m1)"

definition context_create ::
  "string \<Rightarrow> identity option \<Rightarrow> trace_parent option \<Rightarrow> nat option \<Rightarrow> (string \<times> json) list option
     \<Rightarrow> 's \<Rightarrow> jnumber option \<Rightarrow> data_store \<Rightarrow> 's call_context \<times> data_store" where
  "context_create fresh ident parent token data services deadline st =
     (let initial = (case data of None \<Rightarrow> [] | Some d \<Rightarrow> d);
          (tid, seeded) =
            (case parent of
               Some tp \<Rightarrow> (accept_or_regenerate_trace_id fresh (tp_trace_id tp), seed_trace_data tp initial)
             | None \<Rightarrow> (fresh, initial));
          (r, st') = alloc_data seeded st
      in (\<lparr>ctx_trace_id = tid, ctx_identity = ident, ctx_services = services, ctx_caller_id = None,
           ctx_data = r, ctx_call_chain = [], ctx_redacted_inputs = None, ctx_redacted_output = None,
           ctx_cancel_token = token, ctx_global_deadline = deadline, ctx_executor = None\<rparr>, st'))"

text \<open>The builder, whose setters fill a record of options; \<open>build\<close> is written out as the
  source has it, not in terms of \<open>create\<close>.\<close>

record 's context_builder =
  cb_trace_parent :: "trace_parent option"
  cb_identity :: "identity option"
  cb_services :: "'s option"
  cb_caller_id :: "string option"
  cb_data :: "(string \<times> json) list option"
  cb_deadline :: "jnumber option"
  cb_token :: "nat option"

definition builder_new :: "'s context_builder" where
  "builder_new = \<lparr>cb_trace_parent = None, cb_identity = None, cb_services = None,
     cb_caller_id = None, cb_data = None, cb_deadline = None, cb_token = None\<rparr>"

definition builder_build ::
  "'s \<Rightarrow> string \<Rightarrow> 's context_builder \<Rightarrow> data_store \<Rightarrow> 's call_context \<times> data_store" where
  "builder_build dflt fresh b st =
     (let tid = (case cb_trace_parent b of
                   Some tp \<Rightarrow> accept_or_regenerate_trace_id fresh (tp_trace_id tp)
                 | None \<Rightarrow> fresh);
          d0 = (case cb_data b of None \<Rightarrow> [] | Some d \<Rightarrow> d);
          d1 = (case cb_trace_parent b of
                  None \<Rightarrow> d0
                | Some tp \<Rightarrow> or_insert ''_apcore.trace.flags'' (JString (hex_byte (tp_flags tp))) d0);
          d2 = (case cb_trace_parent b of
                  None \<Rightarrow> d1
                | Some tp \<Rightarrow> if tp_state tp = [] then d1
                    else or_insert ''_apcore.trace.state'' (trace_state_json (tp_state tp)) d1);
          (r, st') = alloc_data d2 st
      in (\<lparr>ctx_trace_id = tid, ctx_identity = cb_identity b,
           ctx_services = (case cb_services b of None \<Rightarrow> dflt | Some s \<Rightarrow> s),
           ctx_caller_id = cb_caller_id b,
           ctx_data = r, ctx_call_chain = [], ctx_redacted_inputs = None, ctx_redacted_output = None,
           ctx_cancel_token = cb_token b, ctx_global_deadline = cb_deadline b,
           ctx_executor = None\<rparr>, st'))"

subsection \<open>The wire form\<close>

definition identity_to_json :: "identity \<Rightarrow> json" where
  "identity_to_json i =
     JObject (details_of [(''id'', JString (id_id i)), (''type'', JString (id_type i)),
       (''roles'', json_strings (id_roles i)), (''attrs'', JObject (id_attrs i))])"

definition strings_from_json :: "json \<Rightarrow> string list option" where
  "strings_from_json j =
     (case as_array j of None \<Rightarrow> None | Some xs \<Rightarrow> collect_options (map as_str xs))"

definition default_field :: "'a \<Rightarrow> (json \<Rightarrow> 'a option) \<Rightarrow> json option \<Rightarrow> 'a option" where
  "default_field d f v = (case v of None \<Rightarrow> Some d | Some j \<Rightarrow> f j)"

definition identity_of_fields ::
  "json option \<Rightarrow> json option \<Rightarrow> json option \<Rightarrow> json option \<Rightarrow> identity option" where
  "identity_of_fields i t rs a =
     (case (Option.bind i as_str, Option.bind t as_str, default_field [] strings_from_json rs,
            default_field [] as_object a) of
        (Some i', Some t', Some rs', Some a') \<Rightarrow> Some (identity_new i' t' rs' a')
      | _ \<Rightarrow> None)"

text \<open>A derived \<open>Deserialize\<close> reads a struct from an object or from the array of its
  fields in declaration order; trailing fields with a default may be missing from the array.\<close>

definition identity_from_json :: "json \<Rightarrow> identity option" where
  "identity_from_json j =
     (case j of
        JObject es \<Rightarrow>
          identity_of_fields (bt_get es ''id'') (bt_get es ''type'') (bt_get es ''roles'') (bt_get es ''attrs'')
      | JArray [i, t] \<Rightarrow> identity_of_fields (Some i) (Some t) None None
      | JArray [i, t, rs] \<Rightarrow> identity_of_fields (Some i) (Some t) (Some rs) None
      | JArray [i, t, rs, a] \<Rightarrow> identity_of_fields (Some i) (Some t) (Some rs) (Some a)
      | _ \<Rightarrow> None)"

definition json_opt :: "('a \<Rightarrow> json) \<Rightarrow> 'a option \<Rightarrow> json" where
  "json_opt f v = (case v of None \<Rightarrow> JNull | Some x \<Rightarrow> f x)"

definition public_entries :: "(string \<times> json) list \<Rightarrow> (string \<times> json) list" where
  "public_entries m = filter (\<lambda>e. \<not> prefix ''_'' (fst e)) m"

definition context_serialize :: "data_store \<Rightarrow> 's call_context \<Rightarrow> json" where
  "context_serialize st c =
     JObject (details_of
       ([(''_context_version'', json_nat 1), (''trace_id'', JString (ctx_trace_id c)),
         (''caller_id'', json_opt JString (ctx_caller_id c)),
         (''call_chain'', json_strings (ctx_call_chain c)),
         (''identity'', json_opt identity_to_json (ctx_identity c))]
        @ opt_entry ''redacted_inputs'' JObject (ctx_redacted_inputs c)
        @ opt_entry ''redacted_output'' JObject (ctx_redacted_output c)
        @ [(''data'', JObject (public_entries (read_data st c)))]))"

definition unwrap_or :: "'a \<Rightarrow> 'a option \<Rightarrow> 'a" where
  [model_simps]: "unwrap_or d v = (case v of None \<Rightarrow> d | Some x \<Rightarrow> x)"

definition context_deserialize :: "'s \<Rightarrow> data_store \<Rightarrow> json \<Rightarrow> ('s call_context \<times> data_store) option" where
  "context_deserialize dflt st j =
     (case as_object j of
        None \<Rightarrow> None
      | Some es \<Rightarrow>
          let (r, st') = alloc_data (unwrap_or [] (Option.bind (bt_get es ''data'') as_object)) st in
          Some (\<lparr>ctx_trace_id = unwrap_or [] (Option.bind (bt_get es ''trace_id'') as_str),
                 ctx_identity = Option.bind (bt_get es ''identity'') identity_from_json,
                 ctx_services = dflt,
                 ctx_caller_id = Option.bind (bt_get es ''caller_id'') as_str,
                 ctx_data = r,
                 ctx_call_chain =
                   unwrap_or [] (Option.bind (bt_get es ''call_chain'') strings_from_json),
                 ctx_redacted_inputs = Option.bind (bt_get es ''redacted_inputs'') as_object,
                 ctx_redacted_output = Option.bind (bt_get es ''redacted_output'') as_object,
                 ctx_cancel_token = None,
                 ctx_global_deadline = None,
                 ctx_executor = None\<rparr>, st'))"

subsection \<open>The call-chain guard\<close>

definition default_max_call_depth :: nat where
  "default_max_call_depth = 32"

definition default_max_module_repeat :: nat where
  "default_max_module_repeat = 3"

definition rposition :: "('a \<Rightarrow> bool) \<Rightarrow> 'a list \<Rightarrow> nat option" where
  "rposition P xs =
     (let n = length (takeWhile (\<lambda>x. \<not> P x) (rev xs))
      in if n = length xs then None else Some (length xs - 1 - n))"

definition guard_call_chain :: "string \<Rightarrow> string list \<Rightarrow> nat \<Rightarrow> nat \<Rightarrow> module_error + unit" where
  "guard_call_chain m chain max_depth max_repeat =
     (if max_depth < 1 then Inl invalid_input
      else if max_repeat < 1 then Inl invalid_input
      else if length chain > max_depth then
        Inl (with_details
          (details_of [(''depth'', json_nat (length chain)), (''max_depth'', json_nat max_depth),
             (''call_chain'', json_strings chain)])
          (module_error_new CallDepthExceeded))
      else
        let prior = (if chain = [] then chain else butlast chain) in
        if (case rposition (\<lambda>n. n = m) prior of
              None \<Rightarrow> False
            | Some last_idx \<Rightarrow> drop (last_idx + 1) prior \<noteq> [])
        then
          Inl (with_details
            (details_of [(''module_id'', JString m), (''call_chain'', json_strings chain)])
            (module_error_new CircularCall))
        else
          let count = length (filter (\<lambda>n. n = m) chain) in
          if count > max_repeat then
            Inl (with_details
              (details_of [(''module_id'', JString m), (''count'', json_nat count),
                 (''max_repeat'', json_nat max_repeat), (''call_chain'', json_strings chain)])
              (module_error_new CallFrequencyExceeded))
          else Inr ())"

definition guard_call_chain_for_context :: "'s call_context \<Rightarrow> string \<Rightarrow> module_error + unit" where
  "guard_call_chain_for_context c m =
     guard_call_chain m (ctx_call_chain c) default_max_call_depth default_max_module_repeat"

definition guard_call_chain_with_repeat ::
  "'s call_context \<Rightarrow> string \<Rightarrow> nat \<Rightarrow> nat \<Rightarrow> module_error + unit" where
  "guard_call_chain_with_repeat c m max_depth max_repeat =
     guard_call_chain m (ctx_call_chain c) max_depth max_repeat"

subsection \<open>Lemmas on the guard\<close>

lemma rposition_trailing:
  "(case rposition (\<lambda>n. n = m) xs of None \<Rightarrow> False | Some i \<Rightarrow> drop (i + 1) xs \<noteq> [])
     \<longleftrightarrow> m \<in> set xs \<and> last xs \<noteq> m"
proof (cases "m \<in> set xs")
  case False
  then have tw: "takeWhile (\<lambda>x. x \<noteq> m) (rev xs) = rev xs"
    by (auto simp: takeWhile_eq_all_conv)
  with False show ?thesis by (simp add: rposition_def tw)
next
  case True
  let ?t = "takeWhile (\<lambda>x. \<not> x = m) (rev xs)"
  have lt: "length ?t < length xs"
  proof (rule ccontr)
    assume "\<not> length ?t < length xs"
    with length_takeWhile_le [of "\<lambda>x. \<not> x = m" "rev xs"] have "length ?t = length (rev xs)" by simp
    then have "?t = rev xs" by (metis takeWhile_eq_take take_all order_refl)
    then show False using True by (auto simp: takeWhile_eq_all_conv)
  qed
  obtain ys y where xs: "xs = ys @ [y]" using True by (cases xs rule: rev_cases) auto
  with lt True show ?thesis by (auto simp: rposition_def Let_def split: if_splits)
qed

text \<open>The guard in closed form, for a chain that already ends with the module it checks.\<close>

lemma guard_ok_iff:
  "guard_call_chain m (c @ [m]) d r = Inr () \<longleftrightarrow>
     r \<ge> 1 \<and> length c < d \<and> (m \<in> set c \<longrightarrow> last c = m) \<and> count_list c m < r"
proof -
  have count: "length (filter (\<lambda>n. n = m) c) = count_list c m"
    by (induction c) auto
  show ?thesis
    unfolding guard_call_chain_def Let_def
    using rposition_trailing [where m = m and xs = c] count by (auto split: option.splits)
qed

lemma guard_default_limits:
  "guard_call_chain_for_context c m = guard_call_chain_with_repeat c m 32 3"
  by (simp add: guard_call_chain_for_context_def guard_call_chain_with_repeat_def
      default_max_call_depth_def default_max_module_repeat_def)

text \<open>The chains that arise when every nested call is guarded: the caller's call_context makes a child,
  and the child's chain is guarded under its module's id.\<close>

inductive guarded_context :: "nat \<Rightarrow> nat \<Rightarrow> 's call_context \<Rightarrow> 's call_context \<Rightarrow> bool"
  for d r :: nat and root :: "'s call_context" where
  guarded_root: "guarded_context d r root root"
| guarded_call:
    "guarded_context d r root c \<Longrightarrow> guard_call_chain_with_repeat (context_child c m) m d r = Inr () \<Longrightarrow>
       guarded_context d r root (context_child c m)"

lemma child_chain [simp]: "ctx_call_chain (context_child c m) = ctx_call_chain c @ [m]"
  by (simp add: context_child_def)

lemma remdups_adj_snoc:
  "remdups_adj (c @ [m]) = (if c \<noteq> [] \<and> last c = m then remdups_adj c else remdups_adj c @ [m])"
proof (cases c rule: rev_cases)
  case Nil
  then show ?thesis by simp
next
  case (snoc ys y)
  then show ?thesis
    by (simp add: remdups_adj_append_two)
qed

definition guarded_chain :: "nat \<Rightarrow> nat \<Rightarrow> string list \<Rightarrow> bool" where
  "guarded_chain d r c \<longleftrightarrow>
     length c \<le> d \<and> list_all (\<lambda>m. count_list c m \<le> r) c \<and> distinct (remdups_adj c)"

lemma count_list_bound_snoc:
  "list_all (\<lambda>k. count_list (c @ [m]) k \<le> r) (c @ [m]) \<longleftrightarrow>
     list_all (\<lambda>k. count_list c k \<le> r) c \<and> count_list c m < r"
proof -
  have "count_list c m \<le> r" if "list_all (\<lambda>k. count_list c k \<le> r) c"
    using that by (cases "m \<in> set c") (simp_all add: list_all_iff count_list_0_iff)
  moreover have "list_all (\<lambda>k. count_list (c @ [m]) k \<le> r) (c @ [m]) \<longleftrightarrow>
      count_list c m < r \<and> (\<forall>k \<in> set c. k \<noteq> m \<longrightarrow> count_list c k \<le> r)"
    by (auto simp add: list_all_iff Suc_le_eq)
  ultimately show ?thesis by (auto simp add: list_all_iff)
qed

lemma guarded_chain_snoc:
  assumes "r \<ge> 1"
  shows "guarded_chain d r (c @ [m]) \<longleftrightarrow>
     guarded_chain d r c \<and> guard_call_chain m (c @ [m]) d r = Inr ()"
proof -
  have d: "distinct (remdups_adj (c @ [m])) \<longleftrightarrow>
      distinct (remdups_adj c) \<and> (m \<in> set c \<longrightarrow> last c = m)"
    by (cases "c \<noteq> [] \<and> last c = m") (auto simp: remdups_adj_snoc)
  show ?thesis
    unfolding guarded_chain_def guard_ok_iff count_list_bound_snoc d
    using assms by (simp add: Suc_le_eq) (blast intro: less_imp_le)
qed

lemma guarded_context_chain:
  assumes "guarded_context d r root c" and "ctx_call_chain root = []"
  shows "guarded_chain d r (ctx_call_chain c)"
  using assms
proof (induction rule: guarded_context.induct)
  case guarded_root
  then show ?case by (simp add: guarded_chain_def)
next
  case (guarded_call c m)
  then have g: "guard_call_chain m (ctx_call_chain c @ [m]) d r = Inr ()"
    by (simp add: guard_call_chain_with_repeat_def)
  then have "r \<ge> 1" by (simp add: guard_ok_iff)
  with g guarded_call show ?case by (simp add: guarded_chain_snoc)
qed

lemma guarded_chain_reached:
  assumes "r \<ge> 1" and "guarded_chain d r chain" and "ctx_call_chain root = []"
  shows "\<exists>c. guarded_context d r root c \<and> ctx_call_chain c = chain"
  using assms(2)
proof (induction chain rule: rev_induct)
  case Nil
  with assms(3) guarded_root show ?case by blast
next
  case (snoc m chain)
  from snoc.prems have ok: "guarded_chain d r chain"
    and g: "guard_call_chain m (chain @ [m]) d r = Inr ()"
    by (simp_all add: guarded_chain_snoc [OF assms(1)])
  from snoc.IH [OF ok] obtain c where c: "guarded_context d r root c" "ctx_call_chain c = chain"
    by blast
  with g have "guarded_context d r root (context_child c m)"
    by (intro guarded_call) (simp_all add: guard_call_chain_with_repeat_def)
  with c show ?case by (intro exI [of _ "context_child c m"]) simp
qed

subsection \<open>Lemmas on sharing and on the wire form\<close>

lemma guarded_context_shared:
  "guarded_context d r root c \<Longrightarrow>
     ctx_data c = ctx_data root \<and> ctx_trace_id c = ctx_trace_id root \<and>
     ctx_identity c = ctx_identity root \<and> ctx_cancel_token c = ctx_cancel_token root \<and>
     ctx_global_deadline c = ctx_global_deadline root \<and> ctx_executor c = ctx_executor root"
  by (induction rule: guarded_context.induct) (auto simp: context_child_def)

lemma write_read_shared:
  "ctx_data c = ctx_data c' \<Longrightarrow> bt_ok (read_data st c) \<Longrightarrow>
     bt_get (read_data (write_data c k v st) c') k' =
       (if k' = k then Some v else bt_get (read_data st c') k')"
  by (simp add: read_data_def write_data_def bt.get_ins)

lemma strings_roundtrip: "strings_from_json (json_strings xs) = Some xs"
proof -
  have "as_str \<circ> JString = Some" by auto
  then show ?thesis by (simp add: strings_from_json_def json_strings_def)
qed

text \<open>The lookup of a key in a details map is the last value inserted under it.\<close>

lemma bt_get_details: "bt_get (details_of kvs) k = map_of (rev kvs) k"
proof -
  have "bt_ok m \<Longrightarrow> bt_get (fold (\<lambda>(k, v). bt_insert k v) kvs m) k = (map_of m ++ map_of (rev kvs)) k"
    for m
  proof (induction kvs arbitrary: m)
    case Nil
    then show ?case by (simp add: bt_get_def)
  next
    case (Cons kv kvs)
    obtain k1 v1 where kv: "kv = (k1, v1)" by (cases kv)
    have "bt_ok (bt_insert k1 v1 m)" using Cons.prems by (rule bt.ok_ins)
    from Cons.IH [OF this] show ?case
      using bt.get_ins [OF Cons.prems, of k1 v1] kv
      by (auto simp: bt_get_def map_add_def split: option.splits)
  qed
  from this [of "[]"] show ?thesis by (simp add: details_of_def)
qed

lemma identity_from_null: "identity_from_json JNull = None"
  by (simp add: identity_from_json_def)

lemma identity_roundtrip: "identity_from_json (identity_to_json i) = Some i"
  by (cases i)
    (simp add: identity_to_json_def identity_from_json_def identity_of_fields_def bt_get_details
      default_field_def strings_roundtrip identity_new_def)

text \<open>C12: A call chain arises from guarded nested calls exactly when it is no longer than the depth
  limit, no module occurs in it more often than the repeat limit, and the occurrences of each module
  are adjacent. So the guard admits direct recursion up to the limit, refuses every cycle through
  another module, and refuses nothing else.\<close>

theorem guarded_chains_exact:
  assumes "ctx_call_chain root = []" and "r \<ge> 1"
  shows "(\<exists>c. guarded_context d r root c \<and> ctx_call_chain c = chain) \<longleftrightarrow>
     length chain \<le> d \<and> (\<forall>m. count_list chain m \<le> r) \<and> distinct (remdups_adj chain)"
proof -
  have "(\<forall>m. count_list chain m \<le> r) \<longleftrightarrow> list_all (\<lambda>m. count_list chain m \<le> r) chain"
    by (metis count_list_0_iff list_all_iff zero_le)
  then show ?thesis
    using assms guarded_context_chain guarded_chain_reached unfolding guarded_chain_def by metis
qed

definition sample_root :: "nat call_context" where
  "sample_root = fst (context_create (replicate 32 (CHR ''a'')) None None None None 0 None
     \<lparr>next_ref = 0, data_maps = \<lambda>_. []\<rparr>)"

lemma sample_root_chain: "ctx_call_chain sample_root = []"
  by (simp add: sample_root_def context_create_def alloc_data_def)

theorem guarded_chains_exact_witness:
  "(\<exists>c. guarded_context 32 3 sample_root c \<and> ctx_call_chain c = [''a'', ''b'', ''b'']) \<and>
   \<not> (\<exists>c. guarded_context 32 3 sample_root c \<and> ctx_call_chain c = [''a'', ''b'', ''a''])"
  using guarded_chains_exact [OF sample_root_chain, of 3 32 "[''a'', ''b'', ''b'']"]
    guarded_chains_exact [OF sample_root_chain, of 3 32 "[''a'', ''b'', ''a'']"]
  by simp

text \<open>C26: A context read back from its wire form is the context that was written, with its private
  data entries (keys that start with an underscore) dropped, in a data map of its own, and without
  the local-only fields: services, cancel token, deadline and executor.\<close>

theorem context_roundtrip:
  "context_deserialize dflt st (context_serialize st c) =
     Some (c\<lparr>ctx_services := dflt, ctx_data := next_ref st, ctx_cancel_token := None,
             ctx_global_deadline := None, ctx_executor := None\<rparr>,
           st\<lparr>next_ref := Suc (next_ref st),
              data_maps := (data_maps st)(next_ref st := public_entries (read_data st c))\<rparr>)"
  by (cases c)
    (auto simp: context_serialize_def context_deserialize_def bt_get_details json_opt_def opt_entry_def
      unwrap_or_def alloc_data_def strings_roundtrip identity_roundtrip identity_from_null
      map_add_def split: option.splits)

text \<open>Building a context through the builder gives the context \<open>create\<close> gives for the
  same inputs, with the caller id set; the two ways of seeding the inbound trace agree.\<close>

theorem builder_agrees_with_create:
  "builder_build dflt fresh b st =
     (let (c, st') = context_create fresh (cb_identity b) (cb_trace_parent b) (cb_token b) (cb_data b)
        (unwrap_or dflt (cb_services b)) (cb_deadline b) st
      in (c\<lparr>ctx_caller_id := cb_caller_id b\<rparr>, st'))"
  by (cases "cb_trace_parent b")
    (simp_all add: builder_build_def context_create_def seed_trace_data_def unwrap_or_def
      alloc_data_def Let_def)

end
