(* ===== verification/Policy.thy ===== *)
theory Policy
  imports Patterns Contexts
begin

section \<open>Execution policy: external overrides of governance annotations\<close>

text \<open>
  \<open>src/src/policy.rs\<close>. A policy is an ordered list of rules; for a module the most specific
  matching rule decides, and on equal specificity the more restrictive one. A rule's reason is kept;
  of the module's annotations only the two governed flags enter. The trace line of
  \<open>resolve_with_call_site\<close> is modelled by what it records of the arguments.
\<close>

record policy_rule =
  pr_pattern :: string
  pr_requires_approval :: "bool option"
  pr_destructive :: "bool option"
  pr_reason :: "string option"

definition policy_rule_new :: "string \<Rightarrow> module_error + policy_rule" where
  "policy_rule_new p =
     (if p = [] then Inl (module_error_new GeneralInvalidInput)
      else Inr \<lparr>pr_pattern = p, pr_requires_approval = None, pr_destructive = None, pr_reason = None\<rparr>)"

definition with_requires_approval :: "bool \<Rightarrow> policy_rule \<Rightarrow> policy_rule" where
  "with_requires_approval b r = r\<lparr>pr_requires_approval := Some b\<rparr>"

definition with_destructive :: "bool \<Rightarrow> policy_rule \<Rightarrow> policy_rule" where
  "with_destructive b r = r\<lparr>pr_destructive := Some b\<rparr>"

definition with_reason :: "string \<Rightarrow> policy_rule \<Rightarrow> policy_rule" where
  "with_reason s r = r\<lparr>pr_reason := Some s\<rparr>"

definition restrictiveness :: "policy_rule \<Rightarrow> bool \<times> bool" where
  "restrictiveness r = (pr_requires_approval r = Some True, pr_destructive r = Some True)"

text \<open>Tuples of booleans compare lexicographically, \<open>false\<close> below \<open>true\<close>.\<close>

definition more_restrictive :: "bool \<times> bool \<Rightarrow> bool \<times> bool \<Rightarrow> bool" where
  "more_restrictive a b \<longleftrightarrow> fst b < fst a \<or> (fst a = fst b \<and> snd b < snd a)"

record annotations =
  ann_requires_approval :: bool
  ann_destructive :: bool

record policy_decision =
  pd_module_id :: string
  pd_requires_approval :: bool
  pd_destructive :: bool
  pd_needs_approval :: bool
  pd_rule :: "policy_rule option"
  pd_overridden :: bool

record execution_policy =
  ep_rules :: "policy_rule list"
  ep_gate_destructive :: bool
  ep_strict :: bool

definition policy_new :: "policy_rule list \<Rightarrow> execution_policy" where
  "policy_new rs = \<lparr>ep_rules = rs, ep_gate_destructive = False, ep_strict = False\<rparr>"

fun match_rule_loop ::
  "string \<Rightarrow> policy_rule list \<Rightarrow> policy_rule option \<Rightarrow> int \<Rightarrow> policy_rule option" where
  "match_rule_loop m [] best best_score = best"
| "match_rule_loop m (r # rs) best best_score =
     (if \<not> match_pattern (pr_pattern r) m then match_rule_loop m rs best best_score
      else
        let score = int (calculate_specificity (pr_pattern r)) in
        if score > best_score then match_rule_loop m rs (Some r) score
        else if score = best_score then
          (case best of
             Some current \<Rightarrow>
               if more_restrictive (restrictiveness r) (restrictiveness current)
               then match_rule_loop m rs (Some r) best_score
               else match_rule_loop m rs best best_score
           | None \<Rightarrow> match_rule_loop m rs best best_score)
        else match_rule_loop m rs best best_score)"

definition match_rule :: "execution_policy \<Rightarrow> string \<Rightarrow> policy_rule option" where
  "match_rule p m = match_rule_loop m (ep_rules p) None (- 1)"

definition resolve :: "execution_policy \<Rightarrow> string \<Rightarrow> annotations option \<Rightarrow> policy_decision" where
  "resolve p m ann =
     (let base_req = (case ann of None \<Rightarrow> False | Some a \<Rightarrow> ann_requires_approval a);
          base_destr = (case ann of None \<Rightarrow> False | Some a \<Rightarrow> ann_destructive a);
          rule = match_rule p m;
          eff_req = (case Option.bind rule pr_requires_approval of Some v \<Rightarrow> v | None \<Rightarrow> base_req);
          eff_destr = (case Option.bind rule pr_destructive of Some v \<Rightarrow> v | None \<Rightarrow> base_destr)
      in \<lparr>pd_module_id = m, pd_requires_approval = eff_req, pd_destructive = eff_destr,
          pd_needs_approval = (eff_req \<or> (ep_gate_destructive p \<and> eff_destr)),
          pd_rule = rule,
          pd_overridden = (eff_req \<noteq> base_req \<or> eff_destr \<noteq> base_destr)\<rparr>)"

subsection \<open>The call site\<close>

definition approval_token_key :: string where
  "approval_token_key = ''_approval_token''"

definition strip_approval_token :: "json \<Rightarrow> json" where
  "strip_approval_token args =
     (case as_object args of
        None \<Rightarrow> args
      | Some obj \<Rightarrow>
          if bt_get obj approval_token_key = None then args
          else JObject (bt_remove approval_token_key obj))"

fun json_type_name :: "json \<Rightarrow> string" where
  "json_type_name JNull = ''null''"
| "json_type_name (JBool _) = ''boolean''"
| "json_type_name (JNumber _) = ''number''"
| "json_type_name (JString _) = ''string''"
| "json_type_name (JArray _) = ''array''"
| "json_type_name (JObject _) = ''object''"

definition argument_shape :: "json \<Rightarrow> (string \<times> string) list" where
  "argument_shape args =
     (case as_object args of
        None \<Rightarrow> []
      | Some obj \<Rightarrow> map (\<lambda>(k, v). (k, json_type_name v)) obj)"

text \<open>The decision and the shape that is traced.\<close>

definition resolve_with_call_site ::
  "execution_policy \<Rightarrow> string \<Rightarrow> annotations option \<Rightarrow> json option
     \<Rightarrow> policy_decision \<times> (string \<times> string) list option" where
  "resolve_with_call_site p m ann args =
     (let stripped = map_option strip_approval_token args
      in (resolve p m ann, map_option argument_shape stripped))"

subsection \<open>Parsing a policy document\<close>

text \<open>The strict intermediates: unknown keys are an error, missing keys take their default, and a
  struct may also be given as the array of its fields. \<open>None\<close> is a serde error.\<close>

definition opt_bool_from_json :: "json \<Rightarrow> bool option option" where
  "opt_bool_from_json j = (case j of JNull \<Rightarrow> Some None | JBool b \<Rightarrow> Some (Some b) | _ \<Rightarrow> None)"

definition opt_string_from_json :: "json \<Rightarrow> string option option" where
  "opt_string_from_json j = (case j of JNull \<Rightarrow> Some None | JString s \<Rightarrow> Some (Some s) | _ \<Rightarrow> None)"

type_synonym rule_doc = "string \<times> bool option \<times> bool option \<times> string option"

definition rule_doc_of_fields ::
  "json option \<Rightarrow> json option \<Rightarrow> json option \<Rightarrow> json option \<Rightarrow> rule_doc option" where
  "rule_doc_of_fields p ra d rs =
     (case (Option.bind p as_str, default_field None opt_bool_from_json ra,
            default_field None opt_bool_from_json d, default_field None opt_string_from_json rs) of
        (Some p', Some ra', Some d', Some rs') \<Rightarrow> Some (p', ra', d', rs')
      | _ \<Rightarrow> None)"

definition only_keys :: "string list \<Rightarrow> (string \<times> json) list \<Rightarrow> bool" where
  "only_keys ks es \<longleftrightarrow> list_all (\<lambda>e. fst e \<in> set ks) es"

definition nth_opt :: "'a list \<Rightarrow> nat \<Rightarrow> 'a option" where
  "nth_opt xs i = (if i < length xs then Some (xs ! i) else None)"

definition rule_doc_keys :: "string list" where
  "rule_doc_keys = [''pattern'', ''requires_approval'', ''destructive'', ''reason'']"

definition rule_doc_from_json :: "json \<Rightarrow> rule_doc option" where
  "rule_doc_from_json j =
     (case j of
        JObject es \<Rightarrow>
          if only_keys rule_doc_keys es
          then rule_doc_of_fields (bt_get es ''pattern'') (bt_get es ''requires_approval'')
                 (bt_get es ''destructive'') (bt_get es ''reason'')
          else None
      | JArray xs \<Rightarrow>
          if length xs \<le> 4
          then rule_doc_of_fields (nth_opt xs 0) (nth_opt xs 1) (nth_opt xs 2) (nth_opt xs 3)
          else None
      | _ \<Rightarrow> None)"

definition rule_docs_from_json :: "json \<Rightarrow> rule_doc list option" where
  "rule_docs_from_json j =
     (case as_array j of None \<Rightarrow> None | Some xs \<Rightarrow> collect_options (map rule_doc_from_json xs))"

definition policy_doc_keys :: "string list" where
  "policy_doc_keys = [''rules'', ''gate_destructive'', ''strict'']"

definition policy_doc_of_fields ::
  "json option \<Rightarrow> json option \<Rightarrow> json option \<Rightarrow> (rule_doc list \<times> bool \<times> bool) option" where
  "policy_doc_of_fields rs g s =
     (case (default_field [] rule_docs_from_json rs, default_field False as_bool g,
            default_field False as_bool s) of
        (Some rs', Some g', Some s') \<Rightarrow> Some (rs', g', s')
      | _ \<Rightarrow> None)"

definition policy_doc_from_json :: "json \<Rightarrow> (rule_doc list \<times> bool \<times> bool) option" where
  "policy_doc_from_json j =
     (case j of
        JObject es \<Rightarrow>
          if only_keys policy_doc_keys es
          then policy_doc_of_fields (bt_get es ''rules'') (bt_get es ''gate_destructive'')
                 (bt_get es ''strict'')
          else None
      | JArray xs \<Rightarrow>
          if length xs \<le> 3 then policy_doc_of_fields (nth_opt xs 0) (nth_opt xs 1) (nth_opt xs 2)
          else None
      | _ \<Rightarrow> None)"

definition rule_of_doc :: "rule_doc \<Rightarrow> module_error + policy_rule" where
  "rule_of_doc d =
     (case d of (p, ra, de, rs) \<Rightarrow>
        (case policy_rule_new p of
           Inl e \<Rightarrow> Inl e
         | Inr r0 \<Rightarrow>
             let r1 = (case ra of None \<Rightarrow> r0 | Some v \<Rightarrow> with_requires_approval v r0);
                 r2 = (case de of None \<Rightarrow> r1 | Some v \<Rightarrow> with_destructive v r1);
                 r3 = (case rs of None \<Rightarrow> r2 | Some s \<Rightarrow> with_reason s r2)
             in Inr r3))"

fun rules_of_docs :: "rule_doc list \<Rightarrow> module_error + policy_rule list" where
  "rules_of_docs [] = Inr []"
| "rules_of_docs (d # ds) =
     (case rule_of_doc d of
        Inl e \<Rightarrow> Inl e
      | Inr r \<Rightarrow> (case rules_of_docs ds of Inl e \<Rightarrow> Inl e | Inr rs \<Rightarrow> Inr (r # rs)))"

definition policy_from_value :: "json \<Rightarrow> module_error + execution_policy" where
  "policy_from_value j =
     (case policy_doc_from_json j of
        None \<Rightarrow> Inl (module_error_new GeneralInvalidInput)
      | Some (docs, g, s) \<Rightarrow>
          (case rules_of_docs docs of
             Inl e \<Rightarrow> Inl e
           | Inr rs \<Rightarrow> Inr \<lparr>ep_rules = rs, ep_gate_destructive = g, ep_strict = s\<rparr>))"

subsection \<open>Specification of rule selection\<close>

text \<open>The rank of a rule: specificity first, then the two restrictive flags.\<close>

definition rule_rank :: "policy_rule \<Rightarrow> nat" where
  "rule_rank r = 4 * calculate_specificity (pr_pattern r)
     + (if pr_requires_approval r = Some True then 2 else 0)
     + (if pr_destructive r = Some True then 1 else 0)"

fun first_of_max_rank :: "policy_rule list \<Rightarrow> policy_rule option" where
  "first_of_max_rank [] = None"
| "first_of_max_rank (r # rs) =
     (case first_of_max_rank rs of
        None \<Rightarrow> Some r
      | Some r' \<Rightarrow> if rule_rank r' > rule_rank r then Some r' else Some r)"

lemma first_of_max_rank_None: "first_of_max_rank rs = None \<longleftrightarrow> rs = []"
  by (cases rs) (auto split: option.splits)

lemma first_of_max_rank_max:
  "first_of_max_rank rs = Some r \<Longrightarrow> r \<in> set rs \<and> (\<forall>r' \<in> set rs. rule_rank r' \<le> rule_rank r)"
  by (induction rs arbitrary: r)
    (auto simp: first_of_max_rank_None split: option.splits if_splits intro: order_trans)

lemma rank_less_iff:
  "rule_rank r' < rule_rank r \<longleftrightarrow>
     calculate_specificity (pr_pattern r') < calculate_specificity (pr_pattern r) \<or>
     (calculate_specificity (pr_pattern r') = calculate_specificity (pr_pattern r) \<and>
      more_restrictive (restrictiveness r) (restrictiveness r'))"
  by (auto simp: rule_rank_def more_restrictive_def restrictiveness_def)

lemma match_rule_loop_some:
  "match_rule_loop m rs (Some b) (int (calculate_specificity (pr_pattern b))) =
     first_of_max_rank (b # filter (\<lambda>r. match_pattern (pr_pattern r) m) rs)"
proof (induction rs arbitrary: b)
  case Nil
  then show ?case by simp
next
  case (Cons r rs)
  show ?case
  proof (cases "match_pattern (pr_pattern r) m")
    case False
    with Cons.IH [of b] show ?thesis by simp
  next
    case True
    show ?thesis
    proof (cases "rule_rank b < rule_rank r")
      case better: True
      then have "match_rule_loop m (r # rs) (Some b) (int (calculate_specificity (pr_pattern b))) =
          match_rule_loop m rs (Some r) (int (calculate_specificity (pr_pattern r)))"
        using True by (auto simp: rank_less_iff Let_def)
      with Cons.IH [of r] True better show ?thesis
        by (auto split: option.splits)
    next
      case worse: False
      then have "match_rule_loop m (r # rs) (Some b) (int (calculate_specificity (pr_pattern b))) =
          match_rule_loop m rs (Some b) (int (calculate_specificity (pr_pattern b)))"
        using True by (auto simp: rank_less_iff Let_def)
      with Cons.IH [of b] True worse show ?thesis
        by (auto split: option.splits)
    qed
  qed
qed

lemma match_rule_loop_start:
  "match_rule_loop m rs None (- 1) =
     first_of_max_rank (filter (\<lambda>r. match_pattern (pr_pattern r) m) rs)"
  by (induction rs) (simp_all add: Let_def match_rule_loop_some)

lemma rules_of_docs_patterns:
  "rules_of_docs ds = Inr rs \<Longrightarrow> map pr_pattern rs = map fst ds \<and> list_all (\<lambda>r. pr_pattern r \<noteq> []) rs"
proof (induction ds arbitrary: rs)
  case Nil
  then show ?case by simp
next
  case (Cons d ds)
  obtain p ra de rsn where d: "d = (p, ra, de, rsn)" by (cases d)
  from Cons.prems obtain r rs' where r: "rule_of_doc d = Inr r" and rs: "rs = r # rs'"
    and tail: "rules_of_docs ds = Inr rs'"
    by (auto split: sum.splits)
  from r d have "pr_pattern r = p \<and> p \<noteq> []"
    by (auto simp: rule_of_doc_def policy_rule_new_def with_requires_approval_def with_destructive_def
        with_reason_def Let_def split: if_splits option.splits)
  with Cons.IH [OF tail] rs d show ?case by simp
qed

lemma strip_token_absent: "json_ok j \<Longrightarrow> k \<in> fst ` set (argument_shape (strip_approval_token j)) \<Longrightarrow>
    k \<noteq> approval_token_key"
  by (cases j)
    (auto simp: strip_approval_token_def argument_shape_def bt_remove_def bt_get_None_iff image_iff
      split: if_splits)

lemma match_rule_eq:
  "match_rule p m = first_of_max_rank (filter (\<lambda>r. match_pattern (pr_pattern r) m) (ep_rules p))"
  by (simp add: match_rule_def match_rule_loop_start)

lemma match_rule_in_rules:
  "match_rule p m = Some r \<Longrightarrow> r \<in> set (ep_rules p) \<and> match_pattern (pr_pattern r) m"
  unfolding match_rule_eq by (drule first_of_max_rank_max) auto

text \<open>Two rules of one pattern: a tie on specificity, and neither asks for approval. Which of them
  decides, and so whether a module that declares \<open>requires_approval\<close> is gated, is their order
  in the file.\<close>

definition silent_rule :: policy_rule where
  "silent_rule = \<lparr>pr_pattern = ''m'', pr_requires_approval = None, pr_destructive = None, pr_reason = None\<rparr>"

definition waiving_rule :: policy_rule where
  "waiving_rule = silent_rule\<lparr>pr_requires_approval := Some False\<rparr>"

definition declares_approval :: "annotations option" where
  "declares_approval = Some \<lparr>ann_requires_approval = True, ann_destructive = False\<rparr>"

lemma tie_decided_by_order:
  "pd_needs_approval (resolve (policy_new [silent_rule, waiving_rule]) ''m'' declares_approval) \<and>
   \<not> pd_needs_approval (resolve (policy_new [waiving_rule, silent_rule]) ''m'' declares_approval)"
  by code_simp

subsection \<open>Properties\<close>

text \<open>The loop over the rules selects, among the rules whose pattern matches the module, the
  first of the highest rank, where a rule ranks by the specificity of its pattern and then by the
  approval and destructive flags it demands; no rule is selected when none matches.\<close>

theorem match_rule_selects_highest_rank:
  "match_rule p m = first_of_max_rank (filter (\<lambda>r. match_pattern (pr_pattern r) m) (ep_rules p))"
  by (rule match_rule_eq)

text \<open>Approval that a module declares is waived by a policy only through a rule of that policy
  that matches the module, ranks at least as high as every other matching rule, and states
  \<open>requires_approval: false\<close>; it is not waived by an empty policy, by a rule for other
  modules or by a rule that is silent on approval.\<close>

theorem approval_waived_only_explicitly:
  assumes "ann_requires_approval a"
    and "\<not> pd_needs_approval (resolve p m (Some a))"
  shows "\<exists>r. match_rule p m = Some r \<and> pr_requires_approval r = Some False \<and>
    r \<in> set (ep_rules p) \<and> match_pattern (pr_pattern r) m"
proof -
  from assms obtain r where "match_rule p m = Some r" "pr_requires_approval r = Some False"
    by (auto simp: resolve_def Let_def split: option.splits bind_splits)
  then show ?thesis using match_rule_in_rules by blast
qed

theorem approval_waived_only_explicitly_witness:
  "\<exists>r. match_rule (policy_new [waiving_rule]) ''m'' = Some r \<and> pr_requires_approval r = Some False \<and>
    r \<in> set (ep_rules (policy_new [waiving_rule])) \<and> match_pattern (pr_pattern r) ''m''"
proof (rule approval_waived_only_explicitly)
  show "ann_requires_approval \<lparr>ann_requires_approval = True, ann_destructive = False\<rparr>" by simp
  show "\<not> pd_needs_approval (resolve (policy_new [waiving_rule]) ''m''
      (Some \<lparr>ann_requires_approval = True, ann_destructive = False\<rparr>))"
    by code_simp
qed

text \<open>Parsing is strict: a policy document that is an object is accepted only if every key of it
  is one of the three known keys, and then every rule of the policy has a non-empty pattern; what is
  refused is refused with an invalid-input error.\<close>

theorem policy_document_strict:
  "case policy_from_value (JObject es) of
     Inr p \<Rightarrow> list_all (\<lambda>e. fst e = ''rules'' \<or> fst e = ''gate_destructive'' \<or> fst e = ''strict'') es
         \<and> list_all (\<lambda>r. pr_pattern r \<noteq> []) (ep_rules p)
   | Inl e \<Rightarrow> err_code e = GeneralInvalidInput"
proof -
  have new: "policy_rule_new s = Inl e \<Longrightarrow> err_code e = GeneralInvalidInput" for s e
    by (auto simp: policy_rule_new_def module_error_new_def split: if_splits)
  have doc: "rule_of_doc d = Inl e \<Longrightarrow> err_code e = GeneralInvalidInput" for d e
    by (auto simp: rule_of_doc_def Let_def dest: new split: prod.splits sum.splits)
  have docs: "rules_of_docs ds = Inl e \<Longrightarrow> err_code e = GeneralInvalidInput" for ds e
    by (induction ds) (auto dest: doc split: sum.splits)
  show ?thesis
    by (auto simp: policy_from_value_def policy_doc_from_json_def only_keys_def policy_doc_keys_def
        module_error_new_def list_all_iff dest: docs rules_of_docs_patterns
        split: option.splits sum.splits if_splits prod.splits)
qed

end
