(* ===== verification/Conditions.thy ===== *)
theory Conditions
  imports Contexts
begin

section \<open>Access conditions: three-valued outcomes, handlers, evaluation, load-time checks\<close>

text \<open>
  \<open>src/src/acl_handlers.rs\<close> and the two evaluators of \<open>src/src/acl.rs\<close>.
  An outcome is satisfied, unsatisfied or unevaluable, with Kleene's connectives. The process-wide
  handler registries are the record \<open>registries\<close>. A host's own handler is code of the host: what
  one poll of its future gives and what awaiting it gives are the parameter \<open>env_host\<close>; that an
  awaited host handler returns or panics is part of that parameter's type.
  The capture cell's path prefix follows the nesting of the evaluation, so it is an argument
  (\<open>PathPrefixGuard\<close> enters on the way down and restores on the way up, on a panic too);
  its reports are threaded. Reasons are a datatype instead of their texts. The guard values a host
  reports itself through \<open>report_handler_error\<close> are not modelled.
\<close>

subsection \<open>Outcomes\<close>

datatype cond_outcome = Satisfied | Unsatisfied | Unevaluable

definition outcome_from_bool :: "bool \<Rightarrow> cond_outcome" where
  "outcome_from_bool b = (if b then Satisfied else Unsatisfied)"

definition is_satisfied :: "cond_outcome \<Rightarrow> bool" where
  "is_satisfied c \<longleftrightarrow> c = Satisfied"

fun cond_and :: "cond_outcome \<Rightarrow> cond_outcome \<Rightarrow> cond_outcome" where
  "cond_and Unsatisfied _ = Unsatisfied"
| "cond_and _ Unsatisfied = Unsatisfied"
| "cond_and Unevaluable _ = Unevaluable"
| "cond_and _ Unevaluable = Unevaluable"
| "cond_and Satisfied Satisfied = Satisfied"

fun cond_or :: "cond_outcome \<Rightarrow> cond_outcome \<Rightarrow> cond_outcome" where
  "cond_or Satisfied _ = Satisfied"
| "cond_or _ Satisfied = Satisfied"
| "cond_or Unevaluable _ = Unevaluable"
| "cond_or _ Unevaluable = Unevaluable"
| "cond_or Unsatisfied Unsatisfied = Unsatisfied"

fun cond_negate :: "cond_outcome \<Rightarrow> cond_outcome" where
  "cond_negate Satisfied = Unsatisfied"
| "cond_negate Unsatisfied = Satisfied"
| "cond_negate Unevaluable = Unevaluable"

text \<open>The truth order, unsatisfied below unevaluable below satisfied, makes the connectives minimum
  and maximum, so the library's lattice facts apply to them.\<close>

fun outcome_rank :: "cond_outcome \<Rightarrow> nat" where
  "outcome_rank Unsatisfied = 0"
| "outcome_rank Unevaluable = 1"
| "outcome_rank Satisfied = 2"

lemma outcome_rank_inj: "outcome_rank a = outcome_rank b \<longleftrightarrow> a = b"
  by (cases a; cases b) simp_all

instantiation cond_outcome :: linorder
begin

definition less_eq_cond_outcome :: "cond_outcome \<Rightarrow> cond_outcome \<Rightarrow> bool" where
  "less_eq_cond_outcome a b \<longleftrightarrow> outcome_rank a \<le> outcome_rank b"

definition less_cond_outcome :: "cond_outcome \<Rightarrow> cond_outcome \<Rightarrow> bool" where
  "less_cond_outcome a b \<longleftrightarrow> outcome_rank a < outcome_rank b"

instance
  by standard (auto simp: less_eq_cond_outcome_def less_cond_outcome_def outcome_rank_inj)

end

lemma cond_and_min: "cond_and a b = min a b"
  by (cases a; cases b) (simp_all add: min_def less_eq_cond_outcome_def)

lemma cond_or_max: "cond_or a b = max a b"
  by (cases a; cases b) (simp_all add: max_def less_eq_cond_outcome_def)

lemma unsatisfied_least [simp]: "Unsatisfied \<le> a"
  by (cases a) (simp_all add: less_eq_cond_outcome_def)

lemma satisfied_greatest [simp]: "a \<le> Satisfied"
  by (cases a) (simp_all add: less_eq_cond_outcome_def)

lemma cond_negate_antimono: "a \<le> b \<Longrightarrow> cond_negate b \<le> cond_negate a"
  by (cases a; cases b) (simp_all add: less_eq_cond_outcome_def)

subsection \<open>Handlers and registries\<close>

datatype compound_mode = SyncMode | AsyncMode

datatype handler =
    IdentityTypesHandler
  | RolesHandler
  | MaxCallDepthHandler
  | ArgumentsHandler
  | OrHandler compound_mode
  | NotHandler compound_mode
  | HostHandler string

record registries =
  sync_handlers :: "(string \<times> handler) list"
  async_handlers :: "(string \<times> handler) list"

definition register_condition :: "string \<Rightarrow> handler \<Rightarrow> registries \<Rightarrow> registries" where
  "register_condition k h g = g\<lparr>sync_handlers := bt_insert k h (sync_handlers g)\<rparr>"

definition register_async_condition :: "string \<Rightarrow> handler \<Rightarrow> registries \<Rightarrow> registries" where
  "register_async_condition k h g = g\<lparr>async_handlers := bt_insert k h (async_handlers g)\<rparr>"

definition is_sync_resolvable :: "registries \<Rightarrow> string \<Rightarrow> bool" where
  "is_sync_resolvable g k \<longleftrightarrow> bt_get (sync_handlers g) k \<noteq> None"

definition is_async_resolvable :: "registries \<Rightarrow> string \<Rightarrow> bool" where
  "is_async_resolvable g k \<longleftrightarrow> bt_get (async_handlers g) k \<noteq> None \<or> is_sync_resolvable g k"

definition seed_condition :: "string \<Rightarrow> handler \<Rightarrow> registries \<Rightarrow> registries" where
  "seed_condition k h g =
     (case bt_get (sync_handlers g) k of
        None \<Rightarrow> g\<lparr>sync_handlers := bt_insert k h (sync_handlers g)\<rparr>
      | Some _ \<Rightarrow> g)"

definition seed_async_condition :: "string \<Rightarrow> handler \<Rightarrow> registries \<Rightarrow> registries" where
  "seed_async_condition k h g =
     (case bt_get (async_handlers g) k of
        None \<Rightarrow> g\<lparr>async_handlers := bt_insert k h (async_handlers g)\<rparr>
      | Some _ \<Rightarrow> g)"

definition register_builtin_handlers :: "registries \<Rightarrow> registries" where
  "register_builtin_handlers g =
     seed_async_condition ''$not'' (NotHandler AsyncMode)
      (seed_async_condition ''$or'' (OrHandler AsyncMode)
       (seed_condition ''$not'' (NotHandler SyncMode)
        (seed_condition ''$or'' (OrHandler SyncMode)
         (seed_condition ''arguments'' ArgumentsHandler
          (seed_condition ''max_call_depth'' MaxCallDepthHandler
           (seed_condition ''roles'' RolesHandler
            (seed_condition ''identity_types'' IdentityTypesHandler g)))))))"

definition empty_registries :: registries where
  "empty_registries = \<lparr>sync_handlers = [], async_handlers = []\<rparr>"

definition lookup_handler :: "compound_mode \<Rightarrow> registries \<Rightarrow> string \<Rightarrow> handler option" where
  "lookup_handler mode g k =
     (case mode of
        SyncMode \<Rightarrow> bt_get (sync_handlers g) k
      | AsyncMode \<Rightarrow>
          (case bt_get (async_handlers g) k of Some h \<Rightarrow> Some h | None \<Rightarrow> bt_get (sync_handlers g) k))"

subsection \<open>Leaf handlers\<close>

datatype json_type = TNull | TBoolean | TNumber | TString | TArray | TObject

type_synonym projection = "(string \<times> json_type) list"

definition identity_types_ok :: "json \<Rightarrow> json call_context \<Rightarrow> bool" where
  "identity_types_ok v ctx =
     (case (as_array v, ctx_identity ctx) of
        (Some arr, Some i) \<Rightarrow> list_ex (\<lambda>x. as_str x = Some (id_type i)) arr
      | _ \<Rightarrow> False)"

definition roles_ok :: "json \<Rightarrow> json call_context \<Rightarrow> bool" where
  "roles_ok v ctx =
     (case (as_array v, ctx_identity ctx) of
        (Some arr, Some i) \<Rightarrow>
          list_ex (\<lambda>x. case as_str x of None \<Rightarrow> False | Some s \<Rightarrow> s \<in> set (id_roles i)) arr
      | _ \<Rightarrow> False)"

text \<open>The \<open>u64\<close> behind a JSON number: an integer in range, or a float without a fractional part
  between 0 and \<open>2 ^ 64\<close> (\<open>u64::MAX as f64\<close>), converted with saturation.\<close>

fun integral_threshold :: "json \<Rightarrow> nat option" where
  "integral_threshold (JNumber (PosInt n)) = Some n"
| "integral_threshold (JNumber (NegInt i)) = None"
| "integral_threshold (JNumber (Flt m e)) =
     (if m < 0 then None
      else if e \<ge> 0 then
        (let f = nat m * 2 ^ nat e in if f \<le> 2 ^ 64 then Some (min f (2 ^ 64 - 1)) else None)
      else
        (let d = 2 ^ nat (- e) in
         if nat m mod d = 0 \<and> nat m div d \<le> 2 ^ 64 then Some (min (nat m div d) (2 ^ 64 - 1)) else None))"
| "integral_threshold _ = None"

definition max_call_depth_ok :: "json \<Rightarrow> json call_context \<Rightarrow> bool" where
  "max_call_depth_ok v ctx =
     (let threshold = (case v of
          JNumber _ \<Rightarrow> integral_threshold v
        | JObject m \<Rightarrow> Option.bind (bt_get m ''lte'') integral_threshold
        | _ \<Rightarrow> None)
      in case threshold of Some mx \<Rightarrow> length (ctx_call_chain ctx) \<le> mx | None \<Rightarrow> False)"

datatype fault_reason =
    UnknownCondition
  | HandlerPanicked
  | NotReadySync
  | ArgumentsNotObject
  | NoPredicate
  | UnknownPredicate
  | OperandNotNames
  | NoProjection
  | OrNotList
  | OrBranchNotObject
  | NotNotObject
  | ConditionsNotMapping
  | BranchNotObject
  | PatternShape
  | PatternNeverMatches

type_synonym reports = "(string \<times> fault_reason) list"

definition condition_path :: "string \<Rightarrow> string \<Rightarrow> string" where
  "condition_path pfx local = (if pfx = [] then local else pfx @ ''.'' @ local)"

definition report_at :: "string \<Rightarrow> fault_reason \<Rightarrow> reports \<Rightarrow> reports" where
  "report_at path r rep = bt_insert path r rep"

definition report_local :: "string \<Rightarrow> string \<Rightarrow> fault_reason \<Rightarrow> reports \<Rightarrow> reports" where
  "report_local pfx local r rep = report_at (condition_path pfx local) r rep"

text \<open>\<open>join_handler_errors\<close>: nothing, or every reason in path order.\<close>

definition join_handler_errors :: "reports \<Rightarrow> fault_reason list option" where
  "join_handler_errors rep = (if rep = [] then None else Some (map snd rep))"

definition argument_predicates :: "string list" where
  "argument_predicates = [''has_key'', ''has_all_keys'', ''has_none_of'']"

definition key_names :: "json \<Rightarrow> string list option" where
  "key_names v = (case as_array v of None \<Rightarrow> None | Some xs \<Rightarrow> collect_options (map as_str xs))"

definition projection_contains :: "projection \<Rightarrow> string \<Rightarrow> bool" where
  "projection_contains p k \<longleftrightarrow> bt_get p k \<noteq> None"

definition decide_one ::
  "projection option \<Rightarrow> string \<Rightarrow> string \<Rightarrow> json \<Rightarrow> reports \<Rightarrow> cond_outcome \<times> reports" where
  "decide_one proj pfx predicate operand rep =
     (let local = ''arguments.'' @ predicate in
      if predicate \<notin> set argument_predicates then
        (Unevaluable, report_local pfx local UnknownPredicate rep)
      else
        (case key_names operand of
           None \<Rightarrow> (Unevaluable, report_local pfx local OperandNotNames rep)
         | Some names \<Rightarrow>
             (case proj of
                None \<Rightarrow> (Unevaluable, report_local pfx local NoProjection rep)
              | Some p \<Rightarrow>
                  (outcome_from_bool
                     (if predicate = ''has_key'' then list_ex (projection_contains p) names
                      else if predicate = ''has_all_keys'' then list_all (projection_contains p) names
                      else \<not> list_ex (projection_contains p) names),
                   rep))))"

fun decide_all ::
  "projection option \<Rightarrow> string \<Rightarrow> (string \<times> json) list \<Rightarrow> cond_outcome \<Rightarrow> reports
     \<Rightarrow> cond_outcome \<times> reports" where
  "decide_all proj pfx [] acc rep = (acc, rep)"
| "decide_all proj pfx ((k, v) # ps) acc rep =
     (let (o1, rep1) = decide_one proj pfx k v rep
      in decide_all proj pfx ps (cond_and acc o1) rep1)"

definition decide_arguments ::
  "projection option \<Rightarrow> string \<Rightarrow> json \<Rightarrow> reports \<Rightarrow> cond_outcome \<times> reports" where
  "decide_arguments proj pfx v rep =
     (case as_object v of
        None \<Rightarrow> (Unevaluable, report_local pfx ''arguments'' ArgumentsNotObject rep)
      | Some preds \<Rightarrow>
          if preds = [] then (Unevaluable, report_local pfx ''arguments'' NoPredicate rep)
          else decide_all proj pfx preds Satisfied rep)"

subsection \<open>Evaluation\<close>

text \<open>What running a handler's future gives: an outcome, not ready (one poll only), or a panic.\<close>

datatype run_result = Ready cond_outcome | Pending | Panicked

text \<open>How a future is driven: one poll with a no-op waker, or awaited.\<close>

datatype driver = Polled | Awaited

record host_handlers =
  host_poll :: "string \<Rightarrow> json \<Rightarrow> json call_context \<Rightarrow> run_result"
  host_await :: "string \<Rightarrow> json \<Rightarrow> json call_context \<Rightarrow> cond_outcome option"

definition run_host :: "host_handlers \<Rightarrow> driver \<Rightarrow> string \<Rightarrow> json \<Rightarrow> json call_context \<Rightarrow> run_result" where
  "run_host hh d i v ctx =
     (case d of
        Polled \<Rightarrow> host_poll hh i v ctx
      | Awaited \<Rightarrow> (case host_await hh i v ctx of None \<Rightarrow> Panicked | Some c \<Rightarrow> Ready c))"

record cond_env =
  env_registries :: registries
  env_host :: host_handlers
  env_projection :: "projection option"
  env_ctx :: "json call_context"

definition or_segment :: "nat \<Rightarrow> string" where
  "or_segment i = ''$or['' @ show_nat i @ '']''"

function (sequential) run_handler ::
    "cond_env \<Rightarrow> driver \<Rightarrow> handler \<Rightarrow> string \<Rightarrow> json \<Rightarrow> reports \<Rightarrow> run_result \<times> reports"
  and or_branches ::
    "cond_env \<Rightarrow> driver \<Rightarrow> compound_mode \<Rightarrow> string \<Rightarrow> nat \<Rightarrow> json list \<Rightarrow> cond_outcome \<Rightarrow> reports
       \<Rightarrow> run_result \<times> reports"
  and eval_conditions ::
    "cond_env \<Rightarrow> driver \<Rightarrow> compound_mode \<Rightarrow> string \<Rightarrow> (string \<times> json) list \<Rightarrow> cond_outcome \<Rightarrow> reports
       \<Rightarrow> run_result \<times> reports" where
  "run_handler env d IdentityTypesHandler pfx v rep =
     (Ready (outcome_from_bool (identity_types_ok v (env_ctx env))), rep)"
| "run_handler env d RolesHandler pfx v rep =
     (Ready (outcome_from_bool (roles_ok v (env_ctx env))), rep)"
| "run_handler env d MaxCallDepthHandler pfx v rep =
     (Ready (outcome_from_bool (max_call_depth_ok v (env_ctx env))), rep)"
| "run_handler env d ArgumentsHandler pfx v rep =
     (let (c, rep') = decide_arguments (env_projection env) pfx v rep in (Ready c, rep'))"
| "run_handler env d (OrHandler mode) pfx (JArray subs) rep =
     or_branches env d mode pfx 0 subs Unsatisfied rep"
| "run_handler env d (OrHandler mode) pfx v rep =
     (Ready Unevaluable, report_local pfx ''$or'' OrNotList rep)"
| "run_handler env d (NotHandler mode) pfx (JObject es) rep =
     (case eval_conditions env d mode (condition_path pfx ''$not'') es Satisfied rep of
        (Ready c, rep') \<Rightarrow> (Ready (cond_negate c), rep')
      | other \<Rightarrow> other)"
| "run_handler env d (NotHandler mode) pfx v rep =
     (Ready Unevaluable, report_local pfx ''$not'' NotNotObject rep)"
| "run_handler env d (HostHandler i) pfx v rep = (run_host (env_host env) d i v (env_ctx env), rep)"
| "or_branches env d mode pfx i [] acc rep = (Ready acc, rep)"
| "or_branches env d mode pfx i (sub # subs) acc rep =
     (let here = condition_path pfx (or_segment i) in
      case (case sub of
              JObject es \<Rightarrow> eval_conditions env d mode here es Satisfied rep
            | _ \<Rightarrow> (Ready Unevaluable, report_at here OrBranchNotObject rep)) of
        (Ready c, rep') \<Rightarrow> or_branches env d mode pfx (Suc i) subs (cond_or acc c) rep'
      | other \<Rightarrow> other)"
| "eval_conditions env d mode pfx [] acc rep = (Ready acc, rep)"
| "eval_conditions env d mode pfx ((k, v) # es) acc rep =
     (case lookup_handler mode (env_registries env) k of
        None \<Rightarrow>
          eval_conditions env d mode pfx es (cond_and acc Unevaluable)
            (report_local pfx k UnknownCondition rep)
      | Some h \<Rightarrow>
          (case (mode, run_handler env (case mode of SyncMode \<Rightarrow> Polled | AsyncMode \<Rightarrow> d) h pfx v rep) of
             (_, Ready c, rep') \<Rightarrow> eval_conditions env d mode pfx es (cond_and acc c) rep'
           | (SyncMode, Pending, rep') \<Rightarrow>
               eval_conditions env d mode pfx es (cond_and acc Unevaluable)
                 (report_local pfx k NotReadySync rep')
           | (AsyncMode, Pending, rep') \<Rightarrow> (Pending, rep')
           | (_, Panicked, rep') \<Rightarrow>
               eval_conditions env d mode pfx es (cond_and acc Unevaluable)
                 (report_local pfx k HandlerPanicked rep')))"
  by pat_completeness auto
termination
  by (relation "measure (\<lambda>x. case x of
        Inl (env, d, h, pfx, v, rep) \<Rightarrow> size v
      | Inr (Inl (env, d, mode, pfx, i, subs, acc, rep)) \<Rightarrow> size_list size subs
      | Inr (Inr (env, d, mode, pfx, es, acc, rep)) \<Rightarrow> size_list (size_prod (\<lambda>_. 0) size) es)")
    auto

text \<open>The two entry points: \<open>ACL::evaluate_conditions\<close> polls every handler once,
  \<open>evaluate_conditions_async_outcome\<close> awaits.\<close>

definition evaluate_conditions_sync ::
  "cond_env \<Rightarrow> string \<Rightarrow> (string \<times> json) list \<Rightarrow> reports \<Rightarrow> cond_outcome \<times> reports" where
  "evaluate_conditions_sync env pfx es rep =
     (case eval_conditions env Polled SyncMode pfx es Satisfied rep of
        (Ready c, rep') \<Rightarrow> (c, rep')
      | (_, rep') \<Rightarrow> (Unevaluable, rep'))"

definition evaluate_conditions_async ::
  "cond_env \<Rightarrow> string \<Rightarrow> (string \<times> json) list \<Rightarrow> reports \<Rightarrow> cond_outcome \<times> reports" where
  "evaluate_conditions_async env pfx es rep =
     (case eval_conditions env Awaited AsyncMode pfx es Satisfied rep of
        (Ready c, rep') \<Rightarrow> (c, rep')
      | (_, rep') \<Rightarrow> (Unevaluable, rep'))"

lemma eval_sync_ready: "\<exists>c rep'. eval_conditions env d SyncMode pfx es acc rep = (Ready c, rep')"
  by (induction es arbitrary: acc rep)
    (auto split: option.splits run_result.splits prod.splits)

subsection \<open>Load-time check of a rule's conditions\<close>

datatype precheck_path = PrecheckSync | PrecheckAsync

record rule_fault =
  rf_path :: string
  rf_key :: "string option"
  rf_reason :: fault_reason
  rf_sync_resolvable :: bool
  rf_async_resolvable :: bool

definition structural_fault :: "string \<Rightarrow> string option \<Rightarrow> fault_reason \<Rightarrow> rule_fault" where
  "structural_fault path k r =
     \<lparr>rf_path = path, rf_key = k, rf_reason = r, rf_sync_resolvable = False, rf_async_resolvable = False\<rparr>"

definition join_path :: "string \<Rightarrow> string \<Rightarrow> string" where
  "join_path pfx local = (if pfx = [] then local else pfx @ ''.'' @ local)"

fun collect_predicate_faults :: "string \<Rightarrow> (string \<times> json) list \<Rightarrow> rule_fault list" where
  "collect_predicate_faults key_path [] = []"
| "collect_predicate_faults key_path ((predicate, operand) # ps) =
     (let path = key_path @ ''.'' @ predicate in
      (if predicate \<notin> set argument_predicates
       then [structural_fault path (Some ''arguments'') UnknownPredicate]
       else if key_names operand = None
       then [structural_fault path (Some ''arguments'') OperandNotNames]
       else []) @ collect_predicate_faults key_path ps)"

definition collect_argument_faults :: "json \<Rightarrow> string \<Rightarrow> rule_fault list" where
  "collect_argument_faults v key_path =
     (case as_object v of
        None \<Rightarrow> [structural_fault key_path (Some ''arguments'') ArgumentsNotObject]
      | Some preds \<Rightarrow>
          if preds = [] then [structural_fault key_path (Some ''arguments'') NoPredicate]
          else collect_predicate_faults key_path preds)"

definition resolvable :: "registries \<Rightarrow> precheck_path \<Rightarrow> string \<Rightarrow> bool" where
  "resolvable g p k =
     (case p of PrecheckSync \<Rightarrow> is_sync_resolvable g k | PrecheckAsync \<Rightarrow> is_async_resolvable g k)"

function (sequential) collect_condition_faults ::
    "registries \<Rightarrow> precheck_path \<Rightarrow> string \<Rightarrow> json \<Rightarrow> rule_fault list"
  and collect_entry_faults ::
    "registries \<Rightarrow> precheck_path \<Rightarrow> string \<Rightarrow> (string \<times> json) list \<Rightarrow> rule_fault list"
  and collect_branch_faults ::
    "registries \<Rightarrow> precheck_path \<Rightarrow> string \<Rightarrow> nat \<Rightarrow> json list \<Rightarrow> rule_fault list" where
  "collect_condition_faults g p pfx (JObject es) = collect_entry_faults g p pfx es"
| "collect_condition_faults g p pfx j =
     [if pfx = [] then structural_fault ''$'' None ConditionsNotMapping
      else structural_fault pfx None BranchNotObject]"
| "collect_entry_faults g p pfx [] = []"
| "collect_entry_faults g p pfx ((k, v) # es) =
     (let key_path = join_path pfx k in
      (if \<not> resolvable g p k then
         [\<lparr>rf_path = key_path, rf_key = Some k, rf_reason = UnknownCondition,
           rf_sync_resolvable = is_sync_resolvable g k, rf_async_resolvable = is_async_resolvable g k\<rparr>]
       else if k = ''$or'' then
         (case v of
            JArray subs \<Rightarrow> collect_branch_faults g p key_path 0 subs
          | _ \<Rightarrow> [structural_fault key_path (Some k) OrNotList])
       else if k = ''$not'' then
         (case v of
            JObject _ \<Rightarrow> collect_condition_faults g p key_path v
          | _ \<Rightarrow> [structural_fault key_path (Some k) NotNotObject])
       else if k = ''arguments'' then collect_argument_faults v key_path
       else []) @ collect_entry_faults g p pfx es)"
| "collect_branch_faults g p key_path i [] = []"
| "collect_branch_faults g p key_path i (sub # subs) =
     collect_condition_faults g p (key_path @ ''['' @ show_nat i @ '']'') sub
       @ collect_branch_faults g p key_path (Suc i) subs"
  by pat_completeness auto
termination
  by (relation "measure (\<lambda>x. case x of
        Inl (g, p, pfx, j) \<Rightarrow> size j
      | Inr (Inl (g, p, pfx, es)) \<Rightarrow> size_list (size_prod (\<lambda>_. 0) size) es
      | Inr (Inr (g, p, kp, i, subs)) \<Rightarrow> size_list size subs)") auto

definition precheck_conditions :: "registries \<Rightarrow> precheck_path \<Rightarrow> json \<Rightarrow> rule_fault list" where
  "precheck_conditions g p conditions = sort_key rf_path (collect_condition_faults g p [] conditions)"

subsection \<open>The meaning of conditions\<close>

text \<open>The reference semantics, free of order, reports and scheduling: a conjunction is the least
  outcome of its entries, a disjunction the greatest of its branches.\<close>

definition all_of :: "cond_outcome list \<Rightarrow> cond_outcome" where
  "all_of xs = foldr min xs Satisfied"

definition any_of :: "cond_outcome list \<Rightarrow> cond_outcome" where
  "any_of xs = foldr max xs Unsatisfied"

fun settled :: "run_result \<Rightarrow> cond_outcome" where
  "settled (Ready c) = c"
| "settled _ = Unevaluable"

definition mode_driver :: "compound_mode \<Rightarrow> driver" where
  "mode_driver m = (case m of SyncMode \<Rightarrow> Polled | AsyncMode \<Rightarrow> Awaited)"

definition arguments_meaning :: "projection option \<Rightarrow> json \<Rightarrow> cond_outcome" where
  "arguments_meaning proj v =
     (case as_object v of
        None \<Rightarrow> Unevaluable
      | Some preds \<Rightarrow>
          if preds = [] then Unevaluable
          else all_of (map (\<lambda>(k, x). fst (decide_one proj [] k x [])) preds))"

function (sequential) handler_meaning :: "cond_env \<Rightarrow> compound_mode \<Rightarrow> handler \<Rightarrow> json \<Rightarrow> cond_outcome"
  and conditions_meaning :: "cond_env \<Rightarrow> compound_mode \<Rightarrow> (string \<times> json) list \<Rightarrow> cond_outcome" where
  "handler_meaning env m IdentityTypesHandler v = outcome_from_bool (identity_types_ok v (env_ctx env))"
| "handler_meaning env m RolesHandler v = outcome_from_bool (roles_ok v (env_ctx env))"
| "handler_meaning env m MaxCallDepthHandler v = outcome_from_bool (max_call_depth_ok v (env_ctx env))"
| "handler_meaning env m ArgumentsHandler v = arguments_meaning (env_projection env) v"
| "handler_meaning env m (OrHandler m') (JArray subs) =
     any_of (map (\<lambda>sub. case sub of JObject es \<Rightarrow> conditions_meaning env m' es | _ \<Rightarrow> Unevaluable) subs)"
| "handler_meaning env m (NotHandler m') (JObject es) = cond_negate (conditions_meaning env m' es)"
| "handler_meaning env m (HostHandler i) v =
     settled (run_host (env_host env) (mode_driver m) i v (env_ctx env))"
| "handler_meaning env m h v = Unevaluable"
| "conditions_meaning env m es =
     all_of (map (\<lambda>(k, v).
       case lookup_handler m (env_registries env) k of
         None \<Rightarrow> Unevaluable
       | Some h \<Rightarrow> handler_meaning env m h v) es)"
  by pat_completeness auto
termination
proof (relation "measure (\<lambda>x. case x of
      Inl (env, m, h, v) \<Rightarrow> size v
    | Inr (env, m, es) \<Rightarrow> size_list (size_prod (\<lambda>_. 0) size) es)")
  show "(Inr (env, m', es), Inl (env, m, OrHandler m', JArray subs)) \<in> measure (\<lambda>x. case x of
      Inl (env, m, h, v) \<Rightarrow> size v
    | Inr (env, m, es) \<Rightarrow> size_list (size_prod (\<lambda>_. 0) size) es)"
    if "z \<in> set subs" "z = JObject es" for env :: cond_env and m m' subs z es
    using that size_list_estimation' [of z subs "size z" size] by simp
qed (auto dest: size_list_estimation' [where f = "size_prod (\<lambda>_. 0) size" and y = "_" ])

lemma all_of_simps [simp]: "all_of [] = Satisfied" "all_of (x # xs) = min x (all_of xs)"
  by (simp_all add: all_of_def)

lemma any_of_simps [simp]: "any_of [] = Unsatisfied" "any_of (x # xs) = max x (any_of xs)"
  by (simp_all add: any_of_def)

lemma min_Satisfied [simp]: "min x Satisfied = x" "min Satisfied x = x"
  by (simp_all add: min_absorb1 min_absorb2)

lemma max_Unsatisfied [simp]: "max x Unsatisfied = x" "max Unsatisfied x = x"
  by (simp_all add: max_absorb1 max_absorb2)

lemma le_all_of: "c \<le> all_of xs \<longleftrightarrow> (\<forall>x \<in> set xs. c \<le> x)"
  by (induction xs) auto

lemma any_of_le: "any_of xs \<le> c \<longleftrightarrow> (\<forall>x \<in> set xs. x \<le> c)"
  by (induction xs) auto

lemma all_of_set: "set xs = set ys \<Longrightarrow> all_of xs = all_of ys"
  by (rule antisym) (metis le_all_of order_refl)+

lemma any_of_set: "set xs = set ys \<Longrightarrow> any_of xs = any_of ys"
  by (rule antisym) (metis any_of_le order_refl)+

lemma all_of_in: "all_of xs = Satisfied \<or> all_of xs \<in> set xs"
  by (induction xs) (auto simp: min_def)

lemma any_of_in: "any_of xs = Unsatisfied \<or> any_of xs \<in> set xs"
  by (induction xs) (auto simp: max_def)

subsection \<open>Evaluation computes the meaning\<close>

text \<open>A compound that awaits is never polled: none is bound in the synchronous registry.\<close>

definition sync_only :: "registries \<Rightarrow> bool" where
  "sync_only g \<longleftrightarrow>
     list_all (\<lambda>e. snd e \<noteq> OrHandler AsyncMode \<and> snd e \<noteq> NotHandler AsyncMode) (sync_handlers g)"

fun driven :: "driver \<Rightarrow> handler \<Rightarrow> bool" where
  "driven Polled (OrHandler AsyncMode) = False"
| "driven Polled (NotHandler AsyncMode) = False"
| "driven _ _ = True"

definition mode_driven :: "driver \<Rightarrow> compound_mode \<Rightarrow> bool" where
  "mode_driven d m \<longleftrightarrow> (m = AsyncMode \<longrightarrow> d = Awaited)"

lemma driven_Awaited [simp]: "driven Awaited h"
  by (cases h) auto

lemma driven_compound:
  "driven d (OrHandler m) \<longleftrightarrow> mode_driven d m" "driven d (NotHandler m) \<longleftrightarrow> mode_driven d m"
  by (cases d; cases m; simp add: mode_driven_def)+

lemma sync_only_driven:
  "sync_only g \<Longrightarrow> lookup_handler SyncMode g k = Some h \<Longrightarrow> driven Polled h"
  by (cases h rule: handler.exhaust)
    (auto simp: lookup_handler_def sync_only_def bt_get_def list_all_iff driven_compound mode_driven_def
      dest!: map_of_SomeD)

lemma settled_Ready: "settled r = c \<Longrightarrow> r \<noteq> Pending \<Longrightarrow> r \<noteq> Panicked \<Longrightarrow> r = Ready c"
  by (cases r) auto

lemma min_commutes: "min (min a b) c = min b (min a c)" for a :: cond_outcome
  by (metis min.assoc min.commute)

lemma decide_one_fst: "fst (decide_one proj pfx k v rep) = fst (decide_one proj [] k v [])"
  by (auto simp: decide_one_def Let_def split: option.splits)

lemma decide_all_fst:
  "fst (decide_all proj pfx ps acc rep) =
     min acc (all_of (map (\<lambda>(k, x). fst (decide_one proj [] k x [])) ps))"
proof (induction proj pfx ps acc rep rule: decide_all.induct)
  case (1 proj pfx acc rep)
  then show ?case by simp
next
  case (2 proj pfx k v ps acc rep)
  obtain o1 rep1 where d: "decide_one proj pfx k v rep = (o1, rep1)" by fastforce
  then have "o1 = fst (decide_one proj [] k v [])" using decide_one_fst [of proj pfx k v rep] by simp
  with 2 [OF d [symmetric] refl] d show ?case by (simp add: cond_and_min min.assoc)
qed

lemma decide_arguments_fst: "fst (decide_arguments proj pfx v rep) = arguments_meaning proj v"
  by (auto simp: decide_arguments_def arguments_meaning_def decide_all_fst split: option.splits)

definition branch_meaning :: "cond_env \<Rightarrow> compound_mode \<Rightarrow> json \<Rightarrow> cond_outcome" where
  "branch_meaning env m sub = (case sub of JObject es \<Rightarrow> conditions_meaning env m es | _ \<Rightarrow> Unevaluable)"

definition entry_meaning :: "cond_env \<Rightarrow> compound_mode \<Rightarrow> string \<times> json \<Rightarrow> cond_outcome" where
  "entry_meaning env m = (\<lambda>(k, v).
     case lookup_handler m (env_registries env) k of
       None \<Rightarrow> Unevaluable
     | Some h \<Rightarrow> handler_meaning env m h v)"

declare conditions_meaning.simps [simp del]

lemma conditions_meaning_eq: "conditions_meaning env m es = all_of (map (entry_meaning env m) es)"
  by (simp add: conditions_meaning.simps entry_meaning_def)

lemma or_meaning_eq:
  "handler_meaning env m (OrHandler m') (JArray subs) = any_of (map (branch_meaning env m') subs)"
  by (simp add: branch_meaning_def [abs_def])

lemma run_host_not_pending: "run_host hh Awaited i v ctx \<noteq> Pending"
  by (simp add: run_host_def split: option.splits)

lemma eval_computes_meaning:
  shows "sync_only (env_registries env) \<Longrightarrow> d = mode_driver m \<Longrightarrow> driven d h \<Longrightarrow>
      settled (fst (run_handler env d h pfx v rep)) = handler_meaning env m h v \<and>
      (d = Awaited \<longrightarrow> fst (run_handler env d h pfx v rep) \<noteq> Pending)"
    and "sync_only (env_registries env) \<Longrightarrow> mode_driven d m' \<Longrightarrow>
      fst (or_branches env d m' pfx i subs acc rep) = Ready (max acc (any_of (map (branch_meaning env m') subs)))"
    and "sync_only (env_registries env) \<Longrightarrow> mode_driven d m' \<Longrightarrow>
      fst (eval_conditions env d m' pfx es acc rep) = Ready (min acc (conditions_meaning env m' es))"
proof (induction env d h pfx v rep and env d m' pfx i subs acc rep and env d m' pfx es acc rep
    arbitrary: m and and
    rule: run_handler_or_branches_eval_conditions.induct)
  case (4 env d pfx v rep)
  have "fst (case decide_arguments (env_projection env) pfx v rep of (c, x) \<Rightarrow> (Ready c, x)) =
      Ready (arguments_meaning (env_projection env) v)"
    using decide_arguments_fst [of "env_projection env" pfx v rep] by (auto split: prod.splits)
  then show ?case by simp
next
  case (5 env d mode pfx subs rep)
  then have "fst (or_branches env d mode pfx 0 subs Unsatisfied rep) =
      Ready (any_of (map (branch_meaning env mode) subs))"
    by (simp add: driven_compound)
  then show ?case by (cases d) (simp_all add: or_meaning_eq del: handler_meaning.simps)
next
  case (7 env d mode pfx es rep)
  then have "fst (eval_conditions env d mode (condition_path pfx ''$not'') es Satisfied rep) =
      Ready (conditions_meaning env mode es)"
    by (simp add: driven_compound)
  then show ?case by (auto split: prod.splits)
next
  case (11 env d mode pfx i sub subs acc rep)
  let ?here = "condition_path pfx (or_segment i)"
  let ?r = "case sub of JObject es \<Rightarrow> eval_conditions env d mode ?here es Satisfied rep
      | _ \<Rightarrow> (Ready Unevaluable, report_at ?here OrBranchNotObject rep)"
  obtain rep' where r: "?r = (Ready (branch_meaning env mode sub), rep')"
    using 11 by (cases sub) (auto simp: branch_meaning_def prod_eq_iff)
  with 11 show ?case by (simp add: Let_def cond_or_max max.assoc)
next
  case (13 env d mode pfx k v es acc rep)
  show ?case
  proof (cases "lookup_handler mode (env_registries env) k")
    case None
    then show ?thesis
      using 13 by (simp add: conditions_meaning_eq entry_meaning_def cond_and_min min.assoc)
  next
    case (Some h)
    let ?d = "case mode of SyncMode \<Rightarrow> Polled | AsyncMode \<Rightarrow> d"
    obtain r rep' where r: "run_handler env ?d h pfx v rep = (r, rep')" by fastforce
    have d: "?d = mode_driver mode" and "driven ?d h"
      using 13 Some sync_only_driven [of "env_registries env" k h]
      by (cases mode; simp add: mode_driver_def mode_driven_def)+
    then have m: "settled r = handler_meaning env mode h v"
      and np: "mode = AsyncMode \<longrightarrow> r \<noteq> Pending"
      using 13(2) [OF Some 13(8), of mode] r 13(9) by (cases mode; simp add: mode_driven_def)+
    have e: "entry_meaning env mode (k, v) = settled r"
      using Some m by (simp add: entry_meaning_def)
    note ready = 13(3) [OF Some refl _ r [symmetric] _ 13(8, 9)] 13(6) [OF Some refl _ r [symmetric] _ 13(8, 9)]
    note bad = 13(4) [OF Some refl _ r [symmetric] _ 13(8, 9)] 13(5) [OF Some refl _ r [symmetric] _ 13(8, 9)]
      13(7) [OF Some refl _ r [symmetric] _ 13(8, 9)]
    show ?thesis
      using e np ready bad r Some
      by (cases mode; cases r)
        (simp_all add: conditions_meaning_eq cond_and_min min.assoc)
  qed
qed (simp_all add: run_host_not_pending conditions_meaning_eq)

corollary evaluate_sync_meaning:
  "sync_only (env_registries env) \<Longrightarrow>
     fst (evaluate_conditions_sync env pfx es rep) = conditions_meaning env SyncMode es"
  using eval_computes_meaning(3) [of env Polled SyncMode pfx es Satisfied rep]
  by (auto simp: evaluate_conditions_sync_def mode_driven_def split: prod.splits run_result.splits)

corollary evaluate_async_meaning:
  "sync_only (env_registries env) \<Longrightarrow>
     fst (evaluate_conditions_async env pfx es rep) = conditions_meaning env AsyncMode es"
  using eval_computes_meaning(3) [of env Awaited AsyncMode pfx es Satisfied rep]
  by (auto simp: evaluate_conditions_async_def mode_driven_def split: prod.splits run_result.splits)

lemma conditions_meaning_set:
  "set es = set es' \<Longrightarrow> conditions_meaning env m es = conditions_meaning env m es'"
  unfolding conditions_meaning_eq by (rule all_of_set) simp

text \<open>The registries a process can have: seeded and re-seeded by the crate, extended by a host with
  handlers of its own, in any order.\<close>

inductive registries_reachable :: "registries \<Rightarrow> bool" where
  reg_start: "registries_reachable empty_registries"
| reg_builtin: "registries_reachable g \<Longrightarrow> registries_reachable (register_builtin_handlers g)"
| reg_sync: "registries_reachable g \<Longrightarrow> registries_reachable (register_condition k (HostHandler i) g)"
| reg_async: "registries_reachable g \<Longrightarrow> registries_reachable (register_async_condition k (HostHandler i) g)"

definition registries_ok :: "registries \<Rightarrow> bool" where
  "registries_ok g \<longleftrightarrow> bt_ok (sync_handlers g) \<and> bt_ok (async_handlers g) \<and> sync_only g"

lemma list_all_bt_insert: "list_all P m \<Longrightarrow> P (k, v) \<Longrightarrow> list_all P (bt_insert k v m)"
  using set_bt_insert_sub [of k v m] by (auto simp: list_all_iff)

lemma registries_ok_register:
  "registries_ok g \<Longrightarrow> h \<noteq> OrHandler AsyncMode \<Longrightarrow> h \<noteq> NotHandler AsyncMode \<Longrightarrow>
     registries_ok (register_condition k h g)"
  "registries_ok g \<Longrightarrow> registries_ok (register_async_condition k h g)"
  by (auto simp: registries_ok_def register_condition_def register_async_condition_def sync_only_def
      intro: bt.ok_ins list_all_bt_insert)

lemma registries_ok_seed:
  "registries_ok g \<Longrightarrow> h \<noteq> OrHandler AsyncMode \<Longrightarrow> h \<noteq> NotHandler AsyncMode \<Longrightarrow>
     registries_ok (seed_condition k h g)"
  "registries_ok g \<Longrightarrow> registries_ok (seed_async_condition k h g)"
  by (auto simp: registries_ok_def seed_condition_def seed_async_condition_def sync_only_def
      intro: bt.ok_ins list_all_bt_insert split: option.splits)

lemma registries_ok_builtin: "registries_ok g \<Longrightarrow> registries_ok (register_builtin_handlers g)"
  unfolding register_builtin_handlers_def by (intro registries_ok_seed) simp_all

lemma registries_reachable_ok: "registries_reachable g \<Longrightarrow> registries_ok g"
  by (induction rule: registries_reachable.induct)
    (simp_all add: registries_ok_builtin registries_ok_register,
     simp add: registries_ok_def empty_registries_def sync_only_def)

subsection \<open>Unevaluable outcomes leave a report\<close>

definition hosts_never_abstain :: "host_handlers \<Rightarrow> bool" where
  "hosts_never_abstain hh \<longleftrightarrow> (\<forall>d i v ctx. run_host hh d i v ctx \<noteq> Ready Unevaluable)"

lemma bt_insert_nonempty [simp]: "bt_insert k v m \<noteq> []"
  by (induction k v m rule: bt_insert.induct) auto

lemma outcome_from_bool_evaluable [simp]: "outcome_from_bool b \<noteq> Unevaluable"
  by (simp add: outcome_from_bool_def)

lemma report_nonempty [simp]: "report_local pfx k r rep \<noteq> []" "report_at k r rep \<noteq> []"
  by (simp_all add: report_local_def report_at_def)

lemma min_unevaluable: "min a b = Unevaluable \<Longrightarrow> a \<noteq> Unevaluable \<Longrightarrow> b = Unevaluable"
  for a b :: cond_outcome
  by (auto simp: min_def split: if_splits)

lemma max_unevaluable: "max a b = Unevaluable \<Longrightarrow> a \<noteq> Unevaluable \<Longrightarrow> b = Unevaluable"
  for a b :: cond_outcome
  by (auto simp: max_def split: if_splits)

lemma decide_one_report:
  "rep \<noteq> [] \<or> fst (decide_one proj pfx k v rep) = Unevaluable \<Longrightarrow> snd (decide_one proj pfx k v rep) \<noteq> []"
  by (auto simp: decide_one_def Let_def split: option.splits)

lemma decide_all_report:
  "rep \<noteq> [] \<or> (fst (decide_all proj pfx ps acc rep) = Unevaluable \<and> acc \<noteq> Unevaluable) \<Longrightarrow>
     snd (decide_all proj pfx ps acc rep) \<noteq> []"
proof (induction proj pfx ps acc rep rule: decide_all.induct)
  case (1 proj pfx acc rep)
  then show ?case by auto
next
  case (2 proj pfx k v ps acc rep)
  obtain o1 rep1 where d: "decide_one proj pfx k v rep = (o1, rep1)" by fastforce
  have "rep \<noteq> [] \<or> o1 = Unevaluable \<Longrightarrow> rep1 \<noteq> []"
    using decide_one_report [of rep proj pfx k v] d by simp
  moreover have "acc \<noteq> Unevaluable \<Longrightarrow> o1 \<noteq> Unevaluable \<Longrightarrow> cond_and acc o1 \<noteq> Unevaluable"
    unfolding cond_and_min using min_unevaluable by blast
  ultimately show ?case
    using 2(1) [OF d [symmetric] refl] 2(2) d by auto
qed

lemma decide_arguments_report:
  "rep \<noteq> [] \<or> fst (decide_arguments proj pfx v rep) = Unevaluable \<Longrightarrow>
     snd (decide_arguments proj pfx v rep) \<noteq> []"
  using decide_all_report [of rep proj pfx _ Satisfied]
  by (auto simp: decide_arguments_def split: option.splits if_splits)

definition reported :: "reports \<Rightarrow> cond_outcome \<Rightarrow> run_result \<times> reports \<Rightarrow> bool" where
  "reported rep acc r \<longleftrightarrow>
     (rep \<noteq> [] \<or> (fst r = Ready Unevaluable \<and> acc \<noteq> Unevaluable) \<longrightarrow> snd r \<noteq> [])"

lemma reported_step:
  assumes "reported rep Satisfied (Ready c, rep1)" and "reported rep1 acc2 r"
    and "acc \<noteq> Unevaluable \<Longrightarrow> c \<noteq> Unevaluable \<Longrightarrow> acc2 \<noteq> Unevaluable"
  shows "reported rep acc r"
  using assms by (auto simp: reported_def)

lemma evaluation_reports:
  assumes "hosts_never_abstain (env_host env)"
  shows "e = env \<Longrightarrow> reported rep Satisfied (run_handler e d h pfx v rep)"
    and "e = env \<Longrightarrow> reported rep acc (or_branches e d m pfx i subs acc rep)"
    and "e = env \<Longrightarrow> reported rep acc (eval_conditions e d m pfx es acc rep)"
proof (induction e d h pfx v rep and e d m pfx i subs acc rep and e d m pfx es acc rep
    rule: run_handler_or_branches_eval_conditions.induct)
  case (4 env d pfx v rep)
  then show ?case
    using decide_arguments_report [of rep "env_projection env" pfx v]
    by (auto simp: reported_def split: prod.splits)
next
  case (9 e d i pfx v rep)
  then show ?case
    using assms by (simp add: reported_def hosts_never_abstain_def)
next
  case (11 e d mode pfx i sub subs acc rep)
  let ?here = "condition_path pfx (or_segment i)"
  obtain r rep1 where r: "(case sub of JObject es \<Rightarrow> eval_conditions e d mode ?here es Satisfied rep
      | _ \<Rightarrow> (Ready Unevaluable, report_at ?here OrBranchNotObject rep)) = (r, rep1)"
    by (metis surj_pair)
  then have b: "reported rep Satisfied (r, rep1)"
  proof (cases sub)
    case (JObject es)
    with r 11(1) [OF refl JObject 11(3)] show ?thesis by simp
  qed (auto simp: reported_def)
  show ?case
  proof (cases r)
    case (Ready c)
    have "reported rep1 (cond_or acc c) (or_branches e d mode pfx (Suc i) subs (cond_or acc c) rep1)"
      using 11(2) [OF refl r [symmetric] Ready 11(3)] .
    moreover have "acc \<noteq> Unevaluable \<Longrightarrow> c \<noteq> Unevaluable \<Longrightarrow> cond_or acc c \<noteq> Unevaluable"
      unfolding cond_or_max using max_unevaluable by blast
    ultimately show ?thesis
      using reported_step [OF b [unfolded Ready]] r Ready by (simp add: Let_def)
  qed (use b r in \<open>simp_all add: Let_def reported_def\<close>)
next
  case (13 e d mode pfx k v es acc rep)
  have am: "acc \<noteq> Unevaluable \<Longrightarrow> c \<noteq> Unevaluable \<Longrightarrow> cond_and acc c \<noteq> Unevaluable" for c
    unfolding cond_and_min using min_unevaluable by blast
  show ?case
  proof (cases "lookup_handler mode (env_registries e) k")
    case None
    with 13(1) [OF None 13(8)] show ?thesis by (simp add: reported_def)
  next
    case (Some h)
    let ?d = "case mode of SyncMode \<Rightarrow> Polled | AsyncMode \<Rightarrow> d"
    obtain r rep1 where r: "run_handler e ?d h pfx v rep = (r, rep1)" by fastforce
    with 13(2) [OF Some 13(8)] have b: "reported rep Satisfied (r, rep1)" by simp
    note ready = 13(3) [OF Some refl _ r [symmetric] _ 13(8)] 13(6) [OF Some refl _ r [symmetric] _ 13(8)]
    note bad = 13(4) [OF Some refl _ r [symmetric] _ 13(8)] 13(5) [OF Some refl _ r [symmetric] _ 13(8)]
      13(7) [OF Some refl _ r [symmetric] _ 13(8)]
    show ?thesis
    proof (cases r)
      case (Ready c)
      have "reported rep1 (cond_and acc c) (eval_conditions e d mode pfx es (cond_and acc c) rep1)"
        using ready Ready by (cases mode) simp_all
      with reported_step [OF b [unfolded Ready] _ am] Some r Ready show ?thesis
        by (cases mode) simp_all
    qed (use bad b r Some in \<open>cases mode; simp add: reported_def\<close>)+
  qed
qed (auto simp: reported_def split: prod.splits run_result.splits elim!: cond_negate.elims)

subsection \<open>A clean load-time check\<close>

definition builtins_bound :: "compound_mode \<Rightarrow> registries \<Rightarrow> bool" where
  "builtins_bound m g \<longleftrightarrow>
     (\<forall>k h. lookup_handler m g k = Some h \<longrightarrow>
        (if k = ''$or'' then h = OrHandler m
         else if k = ''$not'' then h = NotHandler m
         else if k = ''arguments'' then h = ArgumentsHandler
         else h \<in> {IdentityTypesHandler, RolesHandler, MaxCallDepthHandler} \<or> (\<exists>i. h = HostHandler i)))"

definition hosts_decide :: "host_handlers \<Rightarrow> bool" where
  "hosts_decide hh \<longleftrightarrow>
     (\<forall>d i v ctx. run_host hh d i v ctx = Ready Satisfied \<or> run_host hh d i v ctx = Ready Unsatisfied)"

definition path_of_mode :: "compound_mode \<Rightarrow> precheck_path" where
  "path_of_mode m = (case m of SyncMode \<Rightarrow> PrecheckSync | AsyncMode \<Rightarrow> PrecheckAsync)"

lemma resolvable_lookup: "resolvable g (path_of_mode m) k \<longleftrightarrow> lookup_handler m g k \<noteq> None"
  by (cases m)
    (auto simp: resolvable_def path_of_mode_def lookup_handler_def is_sync_resolvable_def
      is_async_resolvable_def split: option.splits)

lemma predicate_faults_empty:
  "collect_predicate_faults kp ps = [] \<Longrightarrow> proj \<noteq> None \<Longrightarrow> (k, v) \<in> set ps \<Longrightarrow>
     fst (decide_one proj [] k v []) \<noteq> Unevaluable"
  by (induction kp ps rule: collect_predicate_faults.induct)
    (auto simp: decide_one_def Let_def split: if_splits)

lemma all_of_evaluable: "\<forall>x \<in> set xs. x \<noteq> Unevaluable \<Longrightarrow> all_of xs \<noteq> Unevaluable"
  using all_of_in [of xs] by auto

lemma any_of_evaluable: "\<forall>x \<in> set xs. x \<noteq> Unevaluable \<Longrightarrow> any_of xs \<noteq> Unevaluable"
  using any_of_in [of xs] by auto

lemma argument_faults_empty:
  assumes "collect_argument_faults v kp = []" and "proj \<noteq> None"
  shows "arguments_meaning proj v \<noteq> Unevaluable"
proof -
  from assms(1) obtain preds where v: "as_object v = Some preds" "preds \<noteq> []"
    and e: "collect_predicate_faults kp preds = []"
    by (auto simp: collect_argument_faults_def split: option.splits if_splits)
  have "all_of (map (\<lambda>(k, x). fst (decide_one proj [] k x [])) preds) \<noteq> Unevaluable"
    by (rule all_of_evaluable) (use predicate_faults_empty [OF e assms(2)] in auto)
  with v show ?thesis by (simp add: arguments_meaning_def)
qed

lemma negate_evaluable: "c \<noteq> Unevaluable \<Longrightarrow> cond_negate c \<noteq> Unevaluable"
  by (cases c) auto

lemma no_faults_evaluable:
  fixes env :: cond_env and m :: compound_mode
  assumes bound: "builtins_bound m (env_registries env)" and hosts: "hosts_decide (env_host env)"
    and proj: "env_projection env \<noteq> None"
  shows "g = env_registries env \<Longrightarrow> p = path_of_mode m \<Longrightarrow> collect_condition_faults g p pfx j = [] \<Longrightarrow>
      branch_meaning env m j \<noteq> Unevaluable \<and> as_object j \<noteq> None"
    and "g = env_registries env \<Longrightarrow> p = path_of_mode m \<Longrightarrow> collect_entry_faults g p pfx es = [] \<Longrightarrow>
      e \<in> set es \<Longrightarrow> entry_meaning env m e \<noteq> Unevaluable"
    and "g = env_registries env \<Longrightarrow> p = path_of_mode m \<Longrightarrow> collect_branch_faults g p kp i subs = [] \<Longrightarrow>
      sub \<in> set subs \<Longrightarrow> branch_meaning env m sub \<noteq> Unevaluable"
proof (induction g p pfx j and g p pfx es and g p kp i subs
    arbitrary: and e and sub
    rule: collect_condition_faults_collect_entry_faults_collect_branch_faults.induct)
  case (1 g p pfx es)
  then have "\<forall>x \<in> set (map (entry_meaning env m) es). x \<noteq> Unevaluable" by simp
  from all_of_evaluable [OF this] show ?case
    by (simp add: branch_meaning_def conditions_meaning_eq)
next
  case (4 g p pfx k v es)
  show ?case
  proof (cases "e \<in> set es")
    case True
    with 4 show ?thesis by (simp add: Let_def)
  next
    case False
    with 4 have e: "e = (k, v)" by simp
    have res: "resolvable g p k" using 4 by (simp add: Let_def split: if_splits)
    then obtain h where h: "lookup_handler m g k = Some h"
      using 4 resolvable_lookup [of g m k] by auto
    note b = bound [unfolded builtins_bound_def, rule_format, of k h]
    consider (or_key) "k = ''$or''" | (not_key) "k = ''$not''" | (args_key) "k = ''arguments''"
      | (other) "k \<noteq> ''$or''" "k \<noteq> ''$not''" "k \<noteq> ''arguments''" by blast
    then have "handler_meaning env m h v \<noteq> Unevaluable"
    proof cases
      case or_key
      then obtain subs where v: "v = JArray subs"
        and f: "collect_branch_faults g p (join_path pfx k) 0 subs = []"
        using 4(6) res by (cases v) (simp_all add: Let_def)
      have "\<forall>x \<in> set (map (branch_meaning env m) subs). x \<noteq> Unevaluable"
        using 4(1) [OF refl _ or_key v 4(4,5) f] res by auto
      from any_of_evaluable [OF this] show ?thesis
        using b h 4(4) or_key v by (simp add: or_meaning_eq del: handler_meaning.simps)
    next
      case not_key
      then obtain es' where v: "v = JObject es'"
        and f: "collect_condition_faults g p (join_path pfx k) v = []"
        using 4(6) res by (cases v) (simp_all add: Let_def)
      have "branch_meaning env m v \<noteq> Unevaluable"
        using 4(2) [OF refl _ _ not_key v 4(4,5) f] res not_key by simp
      then show ?thesis
        using b h 4(4) not_key v by (simp add: branch_meaning_def negate_evaluable)
    next
      case args_key
      then have "collect_argument_faults v (join_path pfx k) = []"
        using 4(6) res by (simp add: Let_def)
      with proj show ?thesis
        using b h 4(4) args_key by (simp add: argument_faults_empty)
    next
      case other
      with b h 4(4) consider "h \<in> {IdentityTypesHandler, RolesHandler, MaxCallDepthHandler}"
        | i where "h = HostHandler i" by auto
      then show ?thesis
      proof cases
        case 1
        then show ?thesis by auto
      next
        case 2
        with hosts show ?thesis
          unfolding hosts_decide_def by simp (metis settled.simps(1) cond_outcome.distinct)
      qed
    qed
    with e h 4(4) show ?thesis by (simp add: entry_meaning_def)
  qed
qed (auto split: if_splits)

lemma sync_clean_async_clean:
  shows "p = PrecheckSync \<Longrightarrow> collect_condition_faults g p pfx j = [] \<Longrightarrow>
      collect_condition_faults g PrecheckAsync pfx j = []"
    and "p = PrecheckSync \<Longrightarrow> collect_entry_faults g p pfx es = [] \<Longrightarrow>
      collect_entry_faults g PrecheckAsync pfx es = []"
    and "p = PrecheckSync \<Longrightarrow> collect_branch_faults g p kp i subs = [] \<Longrightarrow>
      collect_branch_faults g PrecheckAsync kp i subs = []"
proof (induction g p pfx j and g p pfx es and g p kp i subs
    rule: collect_condition_faults_collect_entry_faults_collect_branch_faults.induct)
  case (4 g p pfx k v es)
  then show ?case
    by (simp add: Let_def resolvable_def is_async_resolvable_def split: if_splits json.splits)
qed auto

lemma precheck_empty: "precheck_conditions g p j = [] \<longleftrightarrow> collect_condition_faults g p [] j = []"
  unfolding precheck_conditions_def by (metis length_0_conv length_sort)

lemma clean_precheck_meaning:
  assumes "builtins_bound m (env_registries env)" "hosts_decide (env_host env)"
    "env_projection env \<noteq> None" "precheck_conditions (env_registries env) (path_of_mode m) (JObject es) = []"
  shows "conditions_meaning env m es \<noteq> Unevaluable"
  using no_faults_evaluable(1) [OF assms(1-3) refl refl, of "[]" "JObject es"] assms(4)
  by (simp add: precheck_empty branch_meaning_def)

definition seeded_registries :: registries where
  "seeded_registries = register_builtin_handlers empty_registries"

lemma builtin_eval:
  "seeded_registries =
     \<lparr>sync_handlers = [(''$not'', NotHandler SyncMode), (''$or'', OrHandler SyncMode),
        (''arguments'', ArgumentsHandler), (''identity_types'', IdentityTypesHandler),
        (''max_call_depth'', MaxCallDepthHandler), (''roles'', RolesHandler)],
      async_handlers = [(''$not'', NotHandler AsyncMode), (''$or'', OrHandler AsyncMode)]\<rparr>"
  by code_simp

lemma seeded_reachable: "registries_reachable seeded_registries"
  unfolding seeded_registries_def by (intro registries_reachable.intros)

lemma seeded_bound: "builtins_bound m seeded_registries"
  by (cases m) (auto simp: builtins_bound_def builtin_eval lookup_handler_def bt_get_Cons)

subsection \<open>Properties\<close>

text \<open>C10: In every registry a process can build, both evaluators compute the three-valued meaning of
  a conditions object, whatever reports were captured before: the conjunction over its entries, with
  \<open>$or\<close> a disjunction and \<open>$not\<close> a negation over their branches, and an unknown key, a
  handler that panics, a malformed operand, and on the synchronous path a handler that is not ready,
  counting as unevaluable.\<close>

theorem conditions_compute_meaning:
  assumes "registries_reachable (env_registries env)"
  shows "fst (evaluate_conditions_sync env pfx es rep) = conditions_meaning env SyncMode es
    \<and> fst (evaluate_conditions_async env pfx es rep) = conditions_meaning env AsyncMode es"
  using registries_reachable_ok [OF assms] evaluate_sync_meaning evaluate_async_meaning
  by (simp add: registries_ok_def)

definition sample_ctx :: "json call_context" where
  "sample_ctx =
     \<lparr>ctx_trace_id = ''t'', ctx_identity = Some (identity_new ''u1'' ''user'' [''admin''] []),
      ctx_services = JNull, ctx_caller_id = Some ''a.b'', ctx_data = 0, ctx_call_chain = [''a.b''],
      ctx_redacted_inputs = None, ctx_redacted_output = None, ctx_cancel_token = None,
      ctx_global_deadline = None, ctx_executor = None\<rparr>"

definition sample_env :: cond_env where
  "sample_env =
     \<lparr>env_registries = seeded_registries,
      env_host = \<lparr>host_poll = \<lambda>_ _ _. Ready Satisfied, host_await = \<lambda>_ _ _. Some Satisfied\<rparr>,
      env_projection = Some [(''path'', TString)], env_ctx = sample_ctx\<rparr>"

definition sample_conditions :: "(string \<times> json) list" where
  "sample_conditions =
     [(''$not'', JObject [(''roles'', JArray [JString ''guest''])]),
      (''arguments'', JObject [(''has_key'', JArray [JString ''path''])])]"

theorem conditions_compute_meaning_witness:
  "fst (evaluate_conditions_sync sample_env [] sample_conditions []) =
       conditions_meaning sample_env SyncMode sample_conditions
    \<and> fst (evaluate_conditions_async sample_env [] sample_conditions []) =
       conditions_meaning sample_env AsyncMode sample_conditions"
proof (rule conditions_compute_meaning)
  show "registries_reachable (env_registries sample_env)"
    using seeded_reachable by (simp add: sample_env_def)
qed

text \<open>The outcome of a conditions object does not depend on the iteration order of the hash map
  that holds its entries, on the synchronous or the asynchronous path.\<close>

theorem conditions_order_irrelevant:
  assumes "registries_reachable (env_registries env)" and "set es = set es'"
  shows "fst (evaluate_conditions_sync env pfx es rep) = fst (evaluate_conditions_sync env pfx es' rep)
    \<and> fst (evaluate_conditions_async env pfx es rep) = fst (evaluate_conditions_async env pfx es' rep)"
  using registries_reachable_ok [OF assms(1)] conditions_meaning_set [OF assms(2)]
  by (simp add: registries_ok_def evaluate_sync_meaning evaluate_async_meaning)

theorem conditions_order_irrelevant_witness:
  "fst (evaluate_conditions_sync sample_env [] sample_conditions []) =
      fst (evaluate_conditions_sync sample_env [] (rev sample_conditions) [])
    \<and> fst (evaluate_conditions_async sample_env [] sample_conditions []) =
      fst (evaluate_conditions_async sample_env [] (rev sample_conditions) [])"
proof (rule conditions_order_irrelevant)
  show "registries_reachable (env_registries sample_env)"
    using seeded_reachable by (simp add: sample_env_def)
qed simp

text \<open>When the load-time check of a rule's conditions finds no fault for the synchronous path,
  then evaluating them, on either path, at a call that has a governance projection and with the
  built-in keys bound to the built-in handlers, is never unevaluable, provided the host's own handlers
  neither panic nor are unready nor answer unevaluable themselves.\<close>

theorem clean_precheck_is_evaluable:
  assumes "registries_reachable (env_registries env)"
    and "builtins_bound SyncMode (env_registries env)" "builtins_bound AsyncMode (env_registries env)"
    and "hosts_decide (env_host env)" and "env_projection env \<noteq> None"
    and "precheck_conditions (env_registries env) PrecheckSync (JObject es) = []"
  shows "fst (evaluate_conditions_sync env pfx es rep) \<noteq> Unevaluable
    \<and> fst (evaluate_conditions_async env pfx es rep) \<noteq> Unevaluable"
proof -
  have "precheck_conditions (env_registries env) PrecheckAsync (JObject es) = []"
    using assms(6) sync_clean_async_clean(1) [OF refl, of _ "[]" "JObject es"]
    unfolding precheck_empty by blast
  then show ?thesis
    using assms registries_reachable_ok [OF assms(1)]
      clean_precheck_meaning [of SyncMode env es] clean_precheck_meaning [of AsyncMode env es]
    by (simp add: registries_ok_def evaluate_sync_meaning evaluate_async_meaning path_of_mode_def)
qed

theorem clean_precheck_is_evaluable_witness:
  "fst (evaluate_conditions_sync sample_env [] sample_conditions []) \<noteq> Unevaluable
    \<and> fst (evaluate_conditions_async sample_env [] sample_conditions []) \<noteq> Unevaluable"
proof (rule clean_precheck_is_evaluable)
  show "registries_reachable (env_registries sample_env)"
    using seeded_reachable by (simp add: sample_env_def)
  show "builtins_bound SyncMode (env_registries sample_env)"
    "builtins_bound AsyncMode (env_registries sample_env)"
    using seeded_bound by (simp_all add: sample_env_def)
  show "hosts_decide (env_host sample_env)"
    by (simp add: hosts_decide_def sample_env_def run_host_def split: driver.splits)
  show "env_projection sample_env \<noteq> None" by (simp add: sample_env_def)
  show "precheck_conditions (env_registries sample_env) PrecheckSync (JObject sample_conditions) = []"
    by (simp add: precheck_empty sample_env_def builtin_eval sample_conditions_def resolvable_def
        is_sync_resolvable_def bt_get_Cons collect_argument_faults_def argument_predicates_def
        key_names_def Let_def)
qed

lemma evaluate_sync_reports:
  assumes "hosts_never_abstain (env_host env)"
    and "fst (evaluate_conditions_sync env pfx es rep) = Unevaluable"
  shows "snd (evaluate_conditions_sync env pfx es rep) \<noteq> []"
proof -
  obtain c rep' where e: "eval_conditions env Polled SyncMode pfx es Satisfied rep = (Ready c, rep')"
    using eval_sync_ready by blast
  with evaluation_reports(3) [OF assms(1) refl, of rep Satisfied Polled SyncMode pfx es] assms(2)
  show ?thesis by (simp add: evaluate_conditions_sync_def reported_def)
qed

lemma evaluate_async_reports:
  assumes "registries_reachable (env_registries env)" and "hosts_never_abstain (env_host env)"
    and "fst (evaluate_conditions_async env pfx es rep) = Unevaluable"
  shows "snd (evaluate_conditions_async env pfx es rep) \<noteq> []"
proof -
  have "fst (eval_conditions env Awaited AsyncMode pfx es Satisfied rep) =
      Ready (conditions_meaning env AsyncMode es)"
    using eval_computes_meaning(3) [of env Awaited AsyncMode pfx es Satisfied rep]
      registries_reachable_ok [OF assms(1)]
    by (simp add: registries_ok_def mode_driven_def)
  then obtain c rep' where e: "eval_conditions env Awaited AsyncMode pfx es Satisfied rep = (Ready c, rep')"
    by (metis prod.collapse)
  with evaluation_reports(3) [OF assms(2) refl, of rep Satisfied Awaited AsyncMode pfx es] assms(3)
  show ?thesis by (simp add: evaluate_conditions_async_def reported_def)
qed

text \<open>A conditions object that comes out unevaluable, on either path, leaves at least one captured
  reason for the audit trail, provided the host's handlers never answer unevaluable without a reason of
  their own.\<close>

theorem unevaluable_is_reported:
  assumes "registries_reachable (env_registries env)" and "hosts_never_abstain (env_host env)"
  shows "(fst (evaluate_conditions_sync env pfx es []) = Unevaluable \<longrightarrow>
      join_handler_errors (snd (evaluate_conditions_sync env pfx es [])) \<noteq> None)
    \<and> (fst (evaluate_conditions_async env pfx es []) = Unevaluable \<longrightarrow>
      join_handler_errors (snd (evaluate_conditions_async env pfx es [])) \<noteq> None)"
  using evaluate_sync_reports [OF assms(2)] evaluate_async_reports [OF assms]
  by (simp add: join_handler_errors_def)

theorem unevaluable_is_reported_witness:
  "fst (evaluate_conditions_sync sample_env [] [(''rolez'', JNull)] []) = Unevaluable \<and>
   join_handler_errors (snd (evaluate_conditions_sync sample_env [] [(''rolez'', JNull)] [])) \<noteq> None"
proof -
  have u: "fst (evaluate_conditions_sync sample_env [] [(''rolez'', JNull)] []) = Unevaluable"
    by (simp add: evaluate_conditions_sync_def sample_env_def lookup_handler_def builtin_eval bt_get_Cons)
  have "registries_reachable (env_registries sample_env)" "hosts_never_abstain (env_host sample_env)"
    using seeded_reachable
    by (simp_all add: sample_env_def hosts_never_abstain_def run_host_def split: driver.splits)
  with u unevaluable_is_reported [of sample_env "[]" "[(''rolez'', JNull)]"] show ?thesis by blast
qed

end
