(* ===== verification/Acl.thy ===== *)
theory Acl
  imports Patterns Policy Conditions
begin

section \<open>Access control: rules, matching, the scan, decisions and the audit sink\<close>

text \<open>
  \<open>src/src/acl.rs\<close>. The registries and the host's handlers come with the record
  \<open>acl_world\<close>; what a check changes (reports of this call, the set of rules already warned about,
  the audit sink) is threaded. The synchronous and the asynchronous path are two separate groups of
  functions in the code and stay two groups here (\<open>check_*\<close> and \<open>async_check_*\<close>);
  the locale \<open>rule_scan\<close> states what the two scans share. Whether the host's audit callback
  panics on an entry is the parameter \<open>cb_panics\<close>. Timestamps are not modelled, and warnings
  only where the code suppresses repeats.
\<close>

subsection \<open>Rules and their patterns\<close>

datatype approval_requirement = NotRequired | Required

record acl_rule =
  ar_callers :: "string list"
  ar_targets :: "string list"
  ar_effect :: string
  ar_approval :: "approval_requirement option"
  ar_description :: "string option"
  ar_conditions :: "json option"

definition acl_rule_new :: "string list \<Rightarrow> string list \<Rightarrow> string \<Rightarrow> acl_rule" where
  "acl_rule_new cs ts eff =
     \<lparr>ar_callers = cs, ar_targets = ts, ar_effect = eff, ar_approval = None, ar_description = None,
      ar_conditions = None\<rparr>"

definition rule_approval_required :: "acl_rule \<Rightarrow> bool" where
  "rule_approval_required r \<longleftrightarrow> ar_effect r = ''allow'' \<and> ar_approval r = Some Required"

definition effects :: "string list" where
  "effects = [''allow'', ''deny'']"

definition pattern_operators :: "string list" where
  "pattern_operators = [''$or'', ''$not'']"

definition external_caller :: string where
  "external_caller = ''@external''"

datatype shape_fault = EmptyArray | EmptyElement nat | OperatorNotFirst nat | OrOverNothing | NotArity nat

fun position :: "('a \<Rightarrow> bool) \<Rightarrow> 'a list \<Rightarrow> nat option" where
  "position P [] = None"
| "position P (x # xs) = (if P x then Some 0 else map_option Suc (position P xs))"

definition pattern_shape_fault :: "string list \<Rightarrow> shape_fault option" where
  "pattern_shape_fault ps =
     (if ps = [] then Some EmptyArray
      else case position (\<lambda>p. p = []) ps of
        Some i \<Rightarrow> Some (EmptyElement i)
      | None \<Rightarrow>
          (case position (\<lambda>p. p \<in> set pattern_operators) (drop 1 ps) of
             Some i \<Rightarrow> Some (OperatorNotFirst (i + 1))
           | None \<Rightarrow>
               if hd ps = ''$or'' \<and> length ps < 2 then Some OrOverNothing
               else if hd ps = ''$not'' \<and> length ps \<noteq> 2 then Some (NotArity (length ps - 1))
               else None))"

definition is_universal_pattern :: "string \<Rightarrow> bool" where
  "is_universal_pattern p \<longleftrightarrow> p \<noteq> [] \<and> list_all (\<lambda>c. c = CHR ''*'') p"

datatype never_matches = NegatesUniversal | OnlyQuestionMarks | OnlyExternalTarget

definition pattern_never_matches :: "string \<Rightarrow> string list \<Rightarrow> never_matches option" where
  "pattern_never_matches field ps =
     (if ps = [] then None
      else if hd ps = ''$not'' then
        (case nth_opt ps 1 of
           None \<Rightarrow> None
         | Some operand \<Rightarrow> if is_universal_pattern operand then Some NegatesUniversal else None)
      else
        let operands = (if hd ps = ''$or'' then drop 1 ps else ps) in
        if operands \<noteq> [] \<and> list_all (\<lambda>p. CHR ''?'' \<in> set p) operands then Some OnlyQuestionMarks
        else if field = ''targets'' \<and> list_all (\<lambda>p. p = external_caller) operands
        then Some OnlyExternalTarget
        else None)"

definition match_acl_pattern :: "string \<Rightarrow> string \<Rightarrow> bool" where
  "match_acl_pattern p v =
     (if p = external_caller then v = external_caller
      else if p = ''@system'' then False
      else match_pattern p v)"

definition match_acl_pattern_with_ctx :: "string \<Rightarrow> string \<Rightarrow> json call_context option \<Rightarrow> bool" where
  "match_acl_pattern_with_ctx p v ctx =
     (if p = ''@system'' then
        (case Option.bind ctx ctx_identity of None \<Rightarrow> False | Some i \<Rightarrow> id_type i = ''system'')
      else match_acl_pattern p v)"

definition match_patterns :: "string list \<Rightarrow> string \<Rightarrow> json call_context option \<Rightarrow> bool" where
  "match_patterns ps v ctx =
     (if ps = [] then False
      else if hd ps = ''$or'' then list_ex (\<lambda>p. match_acl_pattern_with_ctx p v ctx) (drop 1 ps)
      else if hd ps = ''$not'' then
        (if length ps < 2 then False else \<not> match_acl_pattern_with_ctx (ps ! 1) v ctx)
      else list_ex (\<lambda>p. match_acl_pattern_with_ctx p v ctx) ps)"

subsection \<open>The governance projection\<close>

fun json_type_of :: "json \<Rightarrow> json_type" where
  "json_type_of JNull = TNull"
| "json_type_of (JBool _) = TBoolean"
| "json_type_of (JNumber _) = TNumber"
| "json_type_of (JString _) = TString"
| "json_type_of (JArray _) = TArray"
| "json_type_of (JObject _) = TObject"

definition projection_from_arguments :: "json \<Rightarrow> projection" where
  "projection_from_arguments args =
     (case as_object args of
        None \<Rightarrow> []
      | Some obj \<Rightarrow>
          map (\<lambda>(k, v). (k, json_type_of v)) (filter (\<lambda>e. fst e \<noteq> approval_token_key) obj))"

subsection \<open>Rule validation\<close>

definition acl_rule_error :: module_error where
  "acl_rule_error = module_error_new ACLRuleError"

definition validate_rule :: "acl_rule \<Rightarrow> module_error + unit" where
  "validate_rule r =
     (if ar_effect r \<notin> set effects then Inl acl_rule_error
      else if ar_effect r = ''deny'' \<and> ar_approval r = Some Required then Inl acl_rule_error
      else if pattern_shape_fault (ar_callers r) \<noteq> None then Inl acl_rule_error
      else if pattern_shape_fault (ar_targets r) \<noteq> None then Inl acl_rule_error
      else Inr ())"

text \<open>The rule loop of every door: \<open>Some i\<close> is the index the refusal names.\<close>

fun validate_rules_from :: "nat \<Rightarrow> acl_rule list \<Rightarrow> nat option" where
  "validate_rules_from i [] = None"
| "validate_rules_from i (r # rs) =
     (case validate_rule r of Inl _ \<Rightarrow> Some i | Inr _ \<Rightarrow> validate_rules_from (Suc i) rs)"

subsection \<open>The audit sink\<close>

record audit_entry =
  ae_caller_id :: string
  ae_target_id :: string
  ae_decision :: string
  ae_reason :: string
  ae_matched_rule :: "string option"
  ae_matched_rule_index :: "nat option"
  ae_identity_type :: "string option"
  ae_roles :: "string list"
  ae_call_depth :: "nat option"
  ae_trace_id :: "string option"
  ae_handler_error :: "fault_reason list option"
  ae_approval_required :: bool

record audit_config =
  ac_enabled :: bool
  ac_include_denied :: bool
  ac_log_level :: string

definition audit_config_default :: audit_config where
  "audit_config_default = \<lparr>ac_enabled = True, ac_include_denied = True, ac_log_level = ''info''\<rparr>"

record audit_sink =
  as_callback :: "string option"
  as_config :: "audit_config option"
  as_failed :: bool

definition audit_sink_new :: "string option \<Rightarrow> audit_config option \<Rightarrow> audit_sink" where
  "audit_sink_new cb cfg = \<lparr>as_callback = cb, as_config = cfg, as_failed = False\<rparr>"

definition sink_is_active :: "audit_sink \<Rightarrow> bool" where
  "sink_is_active s =
     (if as_callback s \<noteq> None then True
      else case as_config s of None \<Rightarrow> False | Some c \<Rightarrow> ac_enabled c)"

datatype log_level = LDebug | LInfo | LWarn | LError

datatype audit_event =
    CallbackCalled string audit_entry
  | EventEmitted log_level audit_entry
  | FailureReported

definition emit_default :: "audit_entry \<Rightarrow> audit_config \<Rightarrow> audit_event" where
  "emit_default entry cfg =
     EventEmitted
       (if ac_log_level cfg = ''trace'' \<or> ac_log_level cfg = ''debug'' then LDebug
        else if ac_log_level cfg = ''warn'' then LWarn
        else if ac_log_level cfg = ''error'' then LError
        else LInfo) entry"

definition report_failure :: "audit_sink \<Rightarrow> audit_sink \<times> audit_event list" where
  "report_failure s = (s\<lparr>as_failed := True\<rparr>, if as_failed s then [] else [FailureReported])"

type_synonym callback_panics = "string \<Rightarrow> audit_entry \<Rightarrow> bool"

definition deliver ::
  "callback_panics \<Rightarrow> audit_sink \<Rightarrow> audit_entry \<Rightarrow> audit_sink \<times> audit_event list" where
  "deliver cb_panics s entry =
     (case as_callback s of
        Some cb \<Rightarrow>
          if cb_panics cb entry
          then (let (s', evs) = report_failure s in (s', CallbackCalled cb entry # evs))
          else (s, [CallbackCalled cb entry])
      | None \<Rightarrow>
          (case as_config s of
             None \<Rightarrow> (s, [])
           | Some cfg \<Rightarrow>
               if \<not> ac_enabled cfg then (s, [])
               else if ae_decision entry = ''deny'' \<and> \<not> ac_include_denied cfg then (s, [])
               else (s, [emit_default entry cfg])))"

definition emit_audit ::
  "callback_panics \<Rightarrow> audit_sink \<Rightarrow> audit_entry \<Rightarrow> audit_sink \<times> audit_event list" where
  "emit_audit cb_panics s entry = (if sink_is_active s then deliver cb_panics s entry else (s, []))"

subsection \<open>The ACL\<close>

record acl =
  acl_rules :: "acl_rule list"
  acl_default_effect :: string
  acl_yaml_path :: "string option"
  acl_audit_logger :: "string option"
  acl_audit_config :: "audit_config option"
  acl_audit_sink :: audit_sink
  acl_warned :: "(nat \<times> string) list"

record acl_world =
  aw_registries :: registries
  aw_host :: host_handlers

definition acl_new_unchecked :: "acl_rule list \<Rightarrow> string \<Rightarrow> string option \<Rightarrow> acl" where
  "acl_new_unchecked rs eff logger =
     \<lparr>acl_rules = rs, acl_default_effect = eff, acl_yaml_path = None, acl_audit_logger = logger,
      acl_audit_config = None, acl_audit_sink = audit_sink_new logger None, acl_warned = []\<rparr>"

definition acl_try_new :: "acl_rule list \<Rightarrow> string \<Rightarrow> string option \<Rightarrow> module_error + acl" where
  "acl_try_new rs eff logger =
     (if eff \<notin> set effects then Inl acl_rule_error
      else case validate_rules_from 0 rs of
        Some _ \<Rightarrow> Inl acl_rule_error
      | None \<Rightarrow> Inr (acl_new_unchecked rs eff logger))"

definition acl_try_add_rule :: "acl_rule \<Rightarrow> acl \<Rightarrow> module_error + acl" where
  "acl_try_add_rule r a =
     (case validate_rule r of
        Inl e \<Rightarrow> Inl e
      | Inr _ \<Rightarrow> Inr (a\<lparr>acl_rules := r # acl_rules a, acl_warned := []\<rparr>))"

definition remove_nth :: "nat \<Rightarrow> 'a list \<Rightarrow> 'a list" where
  "remove_nth i xs = take i xs @ drop (Suc i) xs"

definition acl_remove_rule_with_conditions ::
  "string list \<Rightarrow> string list \<Rightarrow> json option \<Rightarrow> acl \<Rightarrow> bool \<times> acl" where
  "acl_remove_rule_with_conditions cs ts cond a =
     (case position (\<lambda>r. ar_callers r = cs \<and> ar_targets r = ts \<and>
               (case cond of None \<Rightarrow> True | Some want \<Rightarrow> ar_conditions r = Some want)) (acl_rules a) of
        None \<Rightarrow> (False, a)
      | Some pos \<Rightarrow> (True, a\<lparr>acl_rules := remove_nth pos (acl_rules a), acl_warned := []\<rparr>))"

definition acl_remove_rule :: "string list \<Rightarrow> string list \<Rightarrow> acl \<Rightarrow> bool \<times> acl" where
  "acl_remove_rule cs ts a = acl_remove_rule_with_conditions cs ts None a"

definition acl_set_audit_config :: "audit_config option \<Rightarrow> acl \<Rightarrow> acl" where
  "acl_set_audit_config cfg a =
     a\<lparr>acl_audit_config := cfg, acl_audit_sink := audit_sink_new (acl_audit_logger a) cfg\<rparr>"

definition acl_set_audit_logger :: "string \<Rightarrow> acl \<Rightarrow> acl" where
  "acl_set_audit_logger cb a =
     a\<lparr>acl_audit_logger := Some cb, acl_audit_sink := audit_sink_new (Some cb) (acl_audit_config a)\<rparr>"

subsection \<open>Matching one rule\<close>

datatype rule_match = NoMatch | Match | RuleUnevaluable

text \<open>What a check changes as it goes: the reports of this call, the set of (index, effect) pairs
  warned about for want of a context, and the warnings it emitted.\<close>

record scan_state =
  sc_reports :: reports
  sc_warned :: "(nat \<times> string) list"
  sc_log :: "(nat \<times> string) list"

definition warn_conditional_rule_without_context :: "nat \<Rightarrow> string \<Rightarrow> scan_state \<Rightarrow> scan_state" where
  "warn_conditional_rule_without_context i eff st =
     (if (i, eff) \<in> set (sc_warned st) then st
      else st\<lparr>sc_warned := (i, eff) # sc_warned st, sc_log := sc_log st @ [(i, eff)]\<rparr>)"

definition report_faults :: "rule_fault list \<Rightarrow> scan_state \<Rightarrow> scan_state" where
  "report_faults fs st =
     st\<lparr>sc_reports := fold (\<lambda>f. report_at (rf_path f) (rf_reason f)) fs (sc_reports st)\<rparr>"

definition precheck_failed ::
  "registries \<Rightarrow> json \<Rightarrow> precheck_path \<Rightarrow> scan_state \<Rightarrow> bool \<times> scan_state" where
  "precheck_failed g conditions path st =
     (let faults = precheck_conditions g path conditions
      in if faults = [] then (False, st) else (True, report_faults faults st))"

definition pattern_rule_fault :: "string \<Rightarrow> fault_reason \<Rightarrow> rule_fault" where
  "pattern_rule_fault field r =
     \<lparr>rf_path = field, rf_key = None, rf_reason = r, rf_sync_resolvable = False,
      rf_async_resolvable = False\<rparr>"

definition precheck_pattern_faults :: "acl_rule \<Rightarrow> rule_fault list" where
  "precheck_pattern_faults r =
     (if pattern_shape_fault (ar_callers r) \<noteq> None then [pattern_rule_fault ''callers'' PatternShape] else [])
     @ (if pattern_shape_fault (ar_targets r) \<noteq> None then [pattern_rule_fault ''targets'' PatternShape] else [])"

definition pattern_precheck_failed :: "acl_rule \<Rightarrow> scan_state \<Rightarrow> bool \<times> scan_state" where
  "pattern_precheck_failed r st =
     (let faults = precheck_pattern_faults r
      in if faults = [] then (False, st) else (True, report_faults faults st))"

definition env_for :: "acl_world \<Rightarrow> projection option \<Rightarrow> json call_context \<Rightarrow> cond_env" where
  "env_for w proj ctx =
     \<lparr>env_registries = aw_registries w, env_host = aw_host w, env_projection = proj, env_ctx = ctx\<rparr>"

definition check_conditions ::
  "acl_world \<Rightarrow> projection option \<Rightarrow> nat \<Rightarrow> acl_rule \<Rightarrow> json \<Rightarrow> json call_context option \<Rightarrow> scan_state
     \<Rightarrow> cond_outcome \<times> scan_state" where
  "check_conditions w proj i r conditions ctx st =
     (let (failed, st1) = precheck_failed (aw_registries w) conditions PrecheckSync st in
      if failed then (Unevaluable, st1)
      else case ctx of
        None \<Rightarrow> (Unsatisfied, warn_conditional_rule_without_context i (ar_effect r) st1)
      | Some c \<Rightarrow>
          (case as_object conditions of
             None \<Rightarrow> (Unevaluable, st1)
           | Some obj \<Rightarrow>
               let (o', rep) = evaluate_conditions_sync (env_for w proj c) [] obj (sc_reports st1)
               in (o', st1\<lparr>sc_reports := rep\<rparr>)))"

definition check_conditions_async ::
  "acl_world \<Rightarrow> projection option \<Rightarrow> nat \<Rightarrow> acl_rule \<Rightarrow> json \<Rightarrow> json call_context option \<Rightarrow> scan_state
     \<Rightarrow> cond_outcome \<times> scan_state" where
  "check_conditions_async w proj i r conditions ctx st =
     (let (failed, st1) = precheck_failed (aw_registries w) conditions PrecheckAsync st in
      if failed then (Unevaluable, st1)
      else case ctx of
        None \<Rightarrow> (Unsatisfied, warn_conditional_rule_without_context i (ar_effect r) st1)
      | Some c \<Rightarrow>
          (case as_object conditions of
             None \<Rightarrow> (Unevaluable, st1)
           | Some obj \<Rightarrow>
               let (o', rep) = evaluate_conditions_async (env_for w proj c) [] obj (sc_reports st1)
               in (o', st1\<lparr>sc_reports := rep\<rparr>)))"

fun match_of_outcome :: "cond_outcome \<Rightarrow> rule_match" where
  "match_of_outcome Satisfied = Match"
| "match_of_outcome Unsatisfied = NoMatch"
| "match_of_outcome Unevaluable = RuleUnevaluable"

definition matches_rule ::
  "acl_world \<Rightarrow> projection option \<Rightarrow> string \<Rightarrow> string \<Rightarrow> json call_context option \<Rightarrow> nat \<Rightarrow> acl_rule
     \<Rightarrow> scan_state \<Rightarrow> rule_match \<times> scan_state" where
  "matches_rule w proj caller target ctx i r st =
     (let (bad, st1) = pattern_precheck_failed r st in
      if bad then (RuleUnevaluable, st1)
      else if \<not> match_patterns (ar_callers r) caller ctx then (NoMatch, st1)
      else if \<not> match_patterns (ar_targets r) target ctx then (NoMatch, st1)
      else case ar_conditions r of
        None \<Rightarrow> (Match, st1)
      | Some conditions \<Rightarrow>
          let (o', st2) = check_conditions w proj i r conditions ctx st1
          in (match_of_outcome o', st2))"

definition matches_rule_async ::
  "acl_world \<Rightarrow> projection option \<Rightarrow> string \<Rightarrow> string \<Rightarrow> json call_context option \<Rightarrow> nat \<Rightarrow> acl_rule
     \<Rightarrow> scan_state \<Rightarrow> rule_match \<times> scan_state" where
  "matches_rule_async w proj caller target ctx i r st =
     (let (bad, st1) = pattern_precheck_failed r st in
      if bad then (RuleUnevaluable, st1)
      else if \<not> match_patterns (ar_callers r) caller ctx then (NoMatch, st1)
      else if \<not> match_patterns (ar_targets r) target ctx then (NoMatch, st1)
      else case ar_conditions r of
        None \<Rightarrow> (Match, st1)
      | Some conditions \<Rightarrow>
          let (o', st2) = check_conditions_async w proj i r conditions ctx st1
          in (match_of_outcome o', st2))"

subsection \<open>The scan\<close>

datatype unevaluable_resolution = TakesEffect | StepsAside bool

definition resolve_unevaluable_rule :: "acl_rule \<Rightarrow> unevaluable_resolution" where
  "resolve_unevaluable_rule r =
     (if ar_effect r = ''deny'' then TakesEffect else StepsAside (rule_approval_required r))"

text \<open>What the loop returns: the rule that decides, with the pending approval requirement at that
  point, or the end of the list.\<close>

datatype scan_result = Decided nat acl_rule bool | Exhausted bool

fun check_loop ::
  "acl_world \<Rightarrow> projection option \<Rightarrow> string \<Rightarrow> string \<Rightarrow> json call_context option \<Rightarrow> nat \<Rightarrow> acl_rule list
     \<Rightarrow> bool \<Rightarrow> scan_state \<Rightarrow> scan_result \<times> scan_state" where
  "check_loop w proj caller target ctx i [] pending st = (Exhausted pending, st)"
| "check_loop w proj caller target ctx i (r # rs) pending st =
     (case matches_rule w proj caller target ctx i r st of
        (Match, st1) \<Rightarrow> (Decided i r pending, st1)
      | (RuleUnevaluable, st1) \<Rightarrow>
          (case resolve_unevaluable_rule r of
             TakesEffect \<Rightarrow> (Decided i r pending, st1)
           | StepsAside p \<Rightarrow> check_loop w proj caller target ctx (Suc i) rs (pending \<or> p) st1)
      | (NoMatch, st1) \<Rightarrow> check_loop w proj caller target ctx (Suc i) rs pending st1)"

fun async_check_loop ::
  "acl_world \<Rightarrow> projection option \<Rightarrow> string \<Rightarrow> string \<Rightarrow> json call_context option \<Rightarrow> nat \<Rightarrow> acl_rule list
     \<Rightarrow> bool \<Rightarrow> scan_state \<Rightarrow> scan_result \<times> scan_state" where
  "async_check_loop w proj caller target ctx i [] pending st = (Exhausted pending, st)"
| "async_check_loop w proj caller target ctx i (r # rs) pending st =
     (case matches_rule_async w proj caller target ctx i r st of
        (Match, st1) \<Rightarrow> (Decided i r pending, st1)
      | (RuleUnevaluable, st1) \<Rightarrow>
          (case resolve_unevaluable_rule r of
             TakesEffect \<Rightarrow> (Decided i r pending, st1)
           | StepsAside p \<Rightarrow> async_check_loop w proj caller target ctx (Suc i) rs (pending \<or> p) st1)
      | (NoMatch, st1) \<Rightarrow> async_check_loop w proj caller target ctx (Suc i) rs pending st1)"

subsection \<open>Decisions\<close>

record access_decision =
  ad_access :: string
  ad_approval_required :: bool
  ad_matched_rule_index :: "nat option"
  ad_reason :: string

definition access_decision_new :: "string \<Rightarrow> bool \<Rightarrow> nat option \<Rightarrow> string \<Rightarrow> access_decision" where
  "access_decision_new a q i r =
     \<lparr>ad_access = a, ad_approval_required = q, ad_matched_rule_index = i, ad_reason = r\<rparr>"

definition is_allowed :: "access_decision \<Rightarrow> bool" where
  "is_allowed d \<longleftrightarrow> ad_access d = ''allow''"

definition build_audit_entry ::
  "string \<Rightarrow> string \<Rightarrow> string \<Rightarrow> string \<Rightarrow> string option \<Rightarrow> nat option \<Rightarrow> bool \<Rightarrow> json call_context option
     \<Rightarrow> reports \<Rightarrow> audit_entry" where
  "build_audit_entry caller target decision reason desc idx approval ctx rep =
     \<lparr>ae_caller_id = caller, ae_target_id = target, ae_decision = decision, ae_reason = reason,
      ae_matched_rule = desc, ae_matched_rule_index = idx,
      ae_identity_type = map_option id_type (Option.bind ctx ctx_identity),
      ae_roles = (case Option.bind ctx ctx_identity of None \<Rightarrow> [] | Some i \<Rightarrow> id_roles i),
      ae_call_depth = map_option (\<lambda>c. length (ctx_call_chain c)) ctx,
      ae_trace_id = map_option ctx_trace_id ctx,
      ae_handler_error = join_handler_errors rep,
      ae_approval_required = approval\<rparr>"

type_synonym finalized = "access_decision \<times> audit_sink \<times> audit_event list"

definition finalize_no_rules ::
  "callback_panics \<Rightarrow> audit_sink \<Rightarrow> string \<Rightarrow> string \<Rightarrow> string \<Rightarrow> json call_context option \<Rightarrow> reports \<Rightarrow> finalized" where
  "finalize_no_rules cb sink eff caller target ctx rep =
     (access_decision_new eff False None ''no_rules'',
      emit_audit cb sink (build_audit_entry caller target eff ''no_rules'' None None False ctx rep))"

definition finalize_rule_match ::
  "callback_panics \<Rightarrow> audit_sink \<Rightarrow> nat \<Rightarrow> acl_rule \<Rightarrow> string \<Rightarrow> string \<Rightarrow> json call_context option \<Rightarrow> bool
     \<Rightarrow> reports \<Rightarrow> finalized" where
  "finalize_rule_match cb sink i r caller target ctx pending rep =
     (let approval = (ar_effect r = ''allow'' \<and> (rule_approval_required r \<or> pending)) in
      (access_decision_new (ar_effect r) approval (Some i) ''rule_match'',
       emit_audit cb sink
         (build_audit_entry caller target (ar_effect r) ''rule_match'' (ar_description r) (Some i)
            approval ctx rep)))"

definition finalize_default_effect ::
  "callback_panics \<Rightarrow> audit_sink \<Rightarrow> string \<Rightarrow> string \<Rightarrow> string \<Rightarrow> json call_context option \<Rightarrow> bool \<Rightarrow> reports
     \<Rightarrow> finalized" where
  "finalize_default_effect cb sink eff caller target ctx pending rep =
     (let approval = (eff = ''allow'' \<and> pending) in
      (access_decision_new eff approval None ''default_effect'',
       emit_audit cb sink
         (build_audit_entry caller target eff ''default_effect'' None None approval ctx rep)))"

type_synonym check_result = "access_decision \<times> acl \<times> audit_event list \<times> (nat \<times> string) list"

text \<open>After the scan: finalise, and put the sink and the warned set back into the ACL.\<close>

definition finish_check ::
  "callback_panics \<Rightarrow> acl \<Rightarrow> string \<Rightarrow> string \<Rightarrow> json call_context option \<Rightarrow> scan_result \<times> scan_state
     \<Rightarrow> check_result" where
  "finish_check cb a caller target ctx res =
     (let (out, st) = res;
          (d, sink, evs) =
            (case out of
               Decided i r pending \<Rightarrow>
                 finalize_rule_match cb (acl_audit_sink a) i r caller target ctx pending (sc_reports st)
             | Exhausted pending \<Rightarrow>
                 finalize_default_effect cb (acl_audit_sink a) (acl_default_effect a) caller target ctx
                   pending (sc_reports st))
      in (d, a\<lparr>acl_audit_sink := sink, acl_warned := sc_warned st\<rparr>, evs, sc_log st))"

definition start_scan :: "acl \<Rightarrow> scan_state" where
  "start_scan a = \<lparr>sc_reports = [], sc_warned = acl_warned a, sc_log = []\<rparr>"

definition caller_or_external :: "string option \<Rightarrow> string" where
  "caller_or_external c = (case c of None \<Rightarrow> external_caller | Some x \<Rightarrow> x)"

definition finish_no_rules ::
  "callback_panics \<Rightarrow> acl \<Rightarrow> string \<Rightarrow> string \<Rightarrow> json call_context option \<Rightarrow> check_result" where
  "finish_no_rules cb a caller target ctx =
     (let (d, sink, evs) =
        finalize_no_rules cb (acl_audit_sink a) (acl_default_effect a) caller target ctx []
      in (d, a\<lparr>acl_audit_sink := sink\<rparr>, evs, []))"

definition check_access ::
  "acl_world \<Rightarrow> callback_panics \<Rightarrow> acl \<Rightarrow> string option \<Rightarrow> string \<Rightarrow> json call_context option
     \<Rightarrow> projection option \<Rightarrow> check_result" where
  "check_access w cb a caller_id target ctx proj =
     (let caller = caller_or_external caller_id in
      if acl_rules a = [] then finish_no_rules cb a caller target ctx
      else finish_check cb a caller target ctx
             (check_loop w proj caller target ctx 0 (acl_rules a) False (start_scan a)))"

definition async_check_access ::
  "acl_world \<Rightarrow> callback_panics \<Rightarrow> acl \<Rightarrow> string option \<Rightarrow> string \<Rightarrow> json call_context option
     \<Rightarrow> projection option \<Rightarrow> check_result" where
  "async_check_access w cb a caller_id target ctx proj =
     (let caller = caller_or_external caller_id in
      if acl_rules a = [] then finish_no_rules cb a caller target ctx
      else finish_check cb a caller target ctx
             (async_check_loop w proj caller target ctx 0 (acl_rules a) False (start_scan a)))"

definition acl_check ::
  "acl_world \<Rightarrow> callback_panics \<Rightarrow> acl \<Rightarrow> string option \<Rightarrow> string \<Rightarrow> json call_context option \<Rightarrow> bool" where
  "acl_check w cb a caller_id target ctx =
     (let d = fst (check_access w cb a caller_id target ctx None)
      in is_allowed d \<and> \<not> ad_approval_required d)"

definition acl_async_check ::
  "acl_world \<Rightarrow> callback_panics \<Rightarrow> acl \<Rightarrow> string option \<Rightarrow> string \<Rightarrow> json call_context option \<Rightarrow> bool" where
  "acl_async_check w cb a caller_id target ctx =
     (let d = fst (async_check_access w cb a caller_id target ctx None)
      in is_allowed d \<and> \<not> ad_approval_required d)"

subsection \<open>What a check decides: specification\<close>

text \<open>A rule's verdict as a function of the rule alone, given the caller, the target, the context
  and the registries; no reports and no state.\<close>

definition rule_verdict ::
  "compound_mode \<Rightarrow> acl_world \<Rightarrow> projection option \<Rightarrow> string \<Rightarrow> string \<Rightarrow> json call_context option \<Rightarrow> acl_rule
     \<Rightarrow> rule_match" where
  "rule_verdict m w proj caller target ctx r =
     (if pattern_shape_fault (ar_callers r) \<noteq> None \<or> pattern_shape_fault (ar_targets r) \<noteq> None
      then RuleUnevaluable
      else if \<not> match_patterns (ar_callers r) caller ctx \<or> \<not> match_patterns (ar_targets r) target ctx
      then NoMatch
      else case ar_conditions r of
        None \<Rightarrow> Match
      | Some conditions \<Rightarrow>
          if precheck_conditions (aw_registries w) (path_of_mode m) conditions \<noteq> [] then RuleUnevaluable
          else case ctx of
            None \<Rightarrow> NoMatch
          | Some c \<Rightarrow>
              (case as_object conditions of
                 None \<Rightarrow> RuleUnevaluable
               | Some obj \<Rightarrow> match_of_outcome (conditions_meaning (env_for w proj c) m obj)))"

definition takes_effect :: "(acl_rule \<Rightarrow> rule_match) \<Rightarrow> acl_rule \<Rightarrow> bool" where
  "takes_effect verdict r \<longleftrightarrow>
     verdict r = Match \<or> (verdict r = RuleUnevaluable \<and> ar_effect r = ''deny'')"

definition leaves_pending :: "(acl_rule \<Rightarrow> rule_match) \<Rightarrow> acl_rule \<Rightarrow> bool" where
  "leaves_pending verdict r \<longleftrightarrow> verdict r = RuleUnevaluable \<and> rule_approval_required r"

definition scan_spec :: "(acl_rule \<Rightarrow> rule_match) \<Rightarrow> nat \<Rightarrow> acl_rule list \<Rightarrow> bool \<Rightarrow> scan_result" where
  "scan_spec verdict i rs pending =
     (let before = takeWhile (\<lambda>r. \<not> takes_effect verdict r) rs;
          p = (pending \<or> list_ex (leaves_pending verdict) before)
      in case drop (length before) rs of
           [] \<Rightarrow> Exhausted p
         | r # _ \<Rightarrow> Decided (i + length before) r p)"

definition decision_spec :: "(acl_rule \<Rightarrow> rule_match) \<Rightarrow> acl_rule list \<Rightarrow> string \<Rightarrow> access_decision" where
  "decision_spec verdict rs dflt =
     (case scan_spec verdict 0 rs False of
        Decided i r p \<Rightarrow>
          access_decision_new (ar_effect r)
            (ar_effect r = ''allow'' \<and> (rule_approval_required r \<or> p)) (Some i) ''rule_match''
      | Exhausted p \<Rightarrow>
          access_decision_new dflt (dflt = ''allow'' \<and> p) None
            (if rs = [] then ''no_rules'' else ''default_effect''))"

subsection \<open>The two scans implement the specification\<close>

text \<open>What a path has to provide: a matcher whose verdict does not depend on the position of the
  rule or on the state of the scan (as long as the registries are in order), and a loop over it.\<close>

locale rule_scan =
  fixes ok :: bool
    and verdict :: "acl_rule \<Rightarrow> rule_match"
    and matches :: "nat \<Rightarrow> acl_rule \<Rightarrow> scan_state \<Rightarrow> rule_match \<times> scan_state"
    and loop :: "nat \<Rightarrow> acl_rule list \<Rightarrow> bool \<Rightarrow> scan_state \<Rightarrow> scan_result \<times> scan_state"
  assumes matches_verdict: "ok \<Longrightarrow> fst (matches i r st) = verdict r"
    and loop_Nil: "loop i [] pending st = (Exhausted pending, st)"
    and loop_Cons: "loop i (r # rs) pending st =
      (case matches i r st of
         (Match, st1) \<Rightarrow> (Decided i r pending, st1)
       | (RuleUnevaluable, st1) \<Rightarrow>
           (case resolve_unevaluable_rule r of
              TakesEffect \<Rightarrow> (Decided i r pending, st1)
            | StepsAside p \<Rightarrow> loop (Suc i) rs (pending \<or> p) st1)
       | (NoMatch, st1) \<Rightarrow> loop (Suc i) rs pending st1)"
begin

lemma loop_spec: "ok \<Longrightarrow> fst (loop i rs pending st) = scan_spec verdict i rs pending"
proof (induction rs arbitrary: i pending st)
  case Nil
  then show ?case by (simp add: loop_Nil scan_spec_def)
next
  case (Cons r rs)
  obtain v st1 where m: "matches i r st = (v, st1)" by fastforce
  with matches_verdict [OF Cons.prems, of i r st] have v: "verdict r = v" by simp
  show ?case
    using Cons m v
    by (cases v)
      (simp_all add: loop_Cons scan_spec_def takes_effect_def leaves_pending_def
        resolve_unevaluable_rule_def Let_def split: list.splits)
qed

end

lemma pattern_precheck_failed_iff:
  "pattern_precheck_failed r st = (b, st') \<Longrightarrow>
     b \<longleftrightarrow> pattern_shape_fault (ar_callers r) \<noteq> None \<or> pattern_shape_fault (ar_targets r) \<noteq> None"
  by (auto simp: pattern_precheck_failed_def precheck_pattern_faults_def Let_def split: if_splits)

lemma precheck_failed_iff:
  "precheck_failed g c p st = (b, st') \<Longrightarrow> b \<longleftrightarrow> precheck_conditions g p c \<noteq> []"
  by (auto simp: precheck_failed_def Let_def split: if_splits)

definition condition_verdict ::
  "compound_mode \<Rightarrow> acl_world \<Rightarrow> projection option \<Rightarrow> json call_context option \<Rightarrow> json \<Rightarrow> cond_outcome" where
  "condition_verdict m w proj ctx conditions =
     (if precheck_conditions (aw_registries w) (path_of_mode m) conditions \<noteq> [] then Unevaluable
      else case ctx of
        None \<Rightarrow> Unsatisfied
      | Some c \<Rightarrow>
          (case as_object conditions of
             None \<Rightarrow> Unevaluable
           | Some obj \<Rightarrow> conditions_meaning (env_for w proj c) m obj))"

lemma check_conditions_verdict:
  assumes "registries_reachable (aw_registries w)"
  shows "fst (check_conditions w proj i r c ctx st) = condition_verdict SyncMode w proj ctx c"
    and "fst (check_conditions_async w proj i r c ctx st) = condition_verdict AsyncMode w proj ctx c"
proof -
  have ok: "sync_only (env_registries (env_for w proj cx))" for cx
    using registries_reachable_ok [OF assms] by (simp add: env_for_def registries_ok_def)
  note e = evaluate_sync_meaning [OF ok] evaluate_async_meaning [OF ok]
  have pf: "fst (precheck_failed g c p st) \<longleftrightarrow> precheck_conditions g p c \<noteq> []" for g p
    using precheck_failed_iff by (metis prod.collapse)
  show "fst (check_conditions w proj i r c ctx st) = condition_verdict SyncMode w proj ctx c"
    by (simp add: check_conditions_def condition_verdict_def path_of_mode_def e pf case_prod_unfold Let_def
        split: option.splits)
  show "fst (check_conditions_async w proj i r c ctx st) = condition_verdict AsyncMode w proj ctx c"
    by (simp add: check_conditions_async_def condition_verdict_def path_of_mode_def e pf case_prod_unfold Let_def
        split: option.splits)
qed

lemma rule_verdict_conditions:
  "rule_verdict m w proj caller target ctx r =
     (if pattern_shape_fault (ar_callers r) \<noteq> None \<or> pattern_shape_fault (ar_targets r) \<noteq> None
      then RuleUnevaluable
      else if \<not> match_patterns (ar_callers r) caller ctx \<or> \<not> match_patterns (ar_targets r) target ctx
      then NoMatch
      else case ar_conditions r of
        None \<Rightarrow> Match
      | Some c \<Rightarrow> match_of_outcome (condition_verdict m w proj ctx c))"
  by (simp add: rule_verdict_def condition_verdict_def split: option.splits)

lemma matches_rule_verdict:
  assumes "registries_reachable (aw_registries w)"
  shows "fst (matches_rule w proj caller target ctx i r st) = rule_verdict SyncMode w proj caller target ctx r"
    and "fst (matches_rule_async w proj caller target ctx i r st) =
      rule_verdict AsyncMode w proj caller target ctx r"
proof -
  obtain b st1 where p: "pattern_precheck_failed r st = (b, st1)" by fastforce
  note b = pattern_precheck_failed_iff [OF p]
  show "fst (matches_rule w proj caller target ctx i r st) = rule_verdict SyncMode w proj caller target ctx r"
    using p b check_conditions_verdict(1) [OF assms, of proj i r _ ctx st1]
    by (auto simp: matches_rule_def rule_verdict_conditions Let_def case_prod_unfold
        split: option.splits)
  show "fst (matches_rule_async w proj caller target ctx i r st) =
      rule_verdict AsyncMode w proj caller target ctx r"
    using p b check_conditions_verdict(2) [OF assms, of proj i r _ ctx st1]
    by (auto simp: matches_rule_async_def rule_verdict_conditions Let_def case_prod_unfold
        split: option.splits)
qed

interpretation sync_scan: rule_scan
    "registries_reachable (aw_registries w)" "rule_verdict SyncMode w proj caller target ctx"
    "matches_rule w proj caller target ctx" "check_loop w proj caller target ctx"
  for w proj caller target ctx
  by unfold_locales (simp_all add: matches_rule_verdict)

interpretation async_scan: rule_scan
    "registries_reachable (aw_registries w)" "rule_verdict AsyncMode w proj caller target ctx"
    "matches_rule_async w proj caller target ctx" "async_check_loop w proj caller target ctx"
  for w proj caller target ctx
  by unfold_locales (simp_all add: matches_rule_verdict)

lemma finish_check_decision:
  "rs = acl_rules a \<Longrightarrow> rs \<noteq> [] \<Longrightarrow> fst res = scan_spec verdict 0 rs False \<Longrightarrow>
     fst (finish_check cb a caller target ctx res) = decision_spec verdict rs (acl_default_effect a)"
  by (cases res)
    (auto simp: finish_check_def decision_spec_def finalize_rule_match_def finalize_default_effect_def
      Let_def split: scan_result.splits prod.splits)

lemma finish_no_rules_decision:
  "fst (finish_no_rules cb a caller target ctx) = decision_spec verdict [] (acl_default_effect a)"
  by (simp add: finish_no_rules_def finalize_no_rules_def decision_spec_def scan_spec_def Let_def
      split: prod.splits)

lemma check_access_spec:
  "registries_reachable (aw_registries w) \<Longrightarrow>
     fst (check_access w cb a caller_id target ctx proj) =
       decision_spec (rule_verdict SyncMode w proj (caller_or_external caller_id) target ctx)
         (acl_rules a) (acl_default_effect a)"
  by (simp add: check_access_def finish_no_rules_decision finish_check_decision sync_scan.loop_spec Let_def)

lemma async_check_access_spec:
  "registries_reachable (aw_registries w) \<Longrightarrow>
     fst (async_check_access w cb a caller_id target ctx proj) =
       decision_spec (rule_verdict AsyncMode w proj (caller_or_external caller_id) target ctx)
         (acl_rules a) (acl_default_effect a)"
  by (simp add: async_check_access_def finish_no_rules_decision finish_check_decision
      async_scan.loop_spec Let_def)

subsection \<open>Consequences of the specification\<close>

lemma scan_spec_Decided:
  assumes "scan_spec verdict 0 rs False = Decided i r p"
  shows "i < length rs \<and> r = rs ! i \<and> takes_effect verdict r \<and>
    (\<forall>j<i. \<not> takes_effect verdict (rs ! j)) \<and> (p \<longleftrightarrow> (\<exists>j<i. leaves_pending verdict (rs ! j)))"
proof -
  let ?P = "\<lambda>r. \<not> takes_effect verdict r"
  let ?b = "takeWhile ?P rs"
  from assms have i: "i = length ?b" and p: "p \<longleftrightarrow> list_ex (leaves_pending verdict) ?b"
    and d: "\<exists>rest. drop (length ?b) rs = r # rest"
    by (auto simp: scan_spec_def Let_def split: list.splits)
  then have lt: "i < length rs" by (metis drop_eq_Nil list.distinct(1) not_le)
  then have r: "r = rs ! i" using d i by (metis Cons_nth_drop_Suc list.inject)
  have "takes_effect verdict (rs ! i)" using nth_length_takeWhile [of ?P rs] lt i by simp
  moreover have b: "?b ! j = rs ! j" if "j < i" for j using that i by (simp add: takeWhile_nth)
  moreover have "\<not> takes_effect verdict (rs ! j)" if "j < i" for j
    using b [OF that] that i by (metis nth_mem set_takeWhileD)
  moreover have "list_ex (leaves_pending verdict) ?b \<longleftrightarrow> (\<exists>j<i. leaves_pending verdict (rs ! j))"
    using b i by (auto simp: list_ex_length)
  ultimately show ?thesis using lt r p by blast
qed

lemma scan_spec_Exhausted:
  assumes "scan_spec verdict 0 rs False = Exhausted p"
  shows "list_all (\<lambda>r. \<not> takes_effect verdict r) rs \<and> (p \<longleftrightarrow> list_ex (leaves_pending verdict) rs)"
proof -
  let ?P = "\<lambda>r. \<not> takes_effect verdict r"
  from assms have d: "drop (length (takeWhile ?P rs)) rs = []"
    and p: "p \<longleftrightarrow> list_ex (leaves_pending verdict) (takeWhile ?P rs)"
    by (auto simp: scan_spec_def Let_def split: list.splits)
  from d have "takeWhile ?P rs = rs" by (metis drop_eq_Nil takeWhile_eq_take take_all)
  with p show ?thesis by (metis list_all_iff takeWhile_eq_all_conv)
qed

lemma decision_spec_allow:
  assumes "d = decision_spec verdict rs dflt" and "is_allowed d"
  shows "(case ad_matched_rule_index d of
      Some i \<Rightarrow> i < length rs \<and> verdict (rs ! i) = Match \<and> ar_effect (rs ! i) = ''allow'' \<and>
        (\<forall>j<i. \<not> takes_effect verdict (rs ! j))
    | None \<Rightarrow> dflt = ''allow'' \<and> list_all (\<lambda>r. \<not> takes_effect verdict r) rs)"
proof (cases "scan_spec verdict 0 rs False")
  case (Decided i r p)
  with scan_spec_Decided [OF Decided] assms show ?thesis
    by (auto simp: decision_spec_def access_decision_new_def is_allowed_def takes_effect_def)
next
  case (Exhausted p)
  with scan_spec_Exhausted [OF Exhausted] assms show ?thesis
    by (auto simp: decision_spec_def access_decision_new_def is_allowed_def)
qed

lemma decision_spec_pending:
  assumes "d = decision_spec verdict rs dflt" and "is_allowed d"
    and "j < length rs" and "leaves_pending verdict (rs ! j)"
    and "\<And>i. ad_matched_rule_index d = Some i \<Longrightarrow> j < i"
  shows "ad_approval_required d"
proof (cases "scan_spec verdict 0 rs False")
  case (Decided i r p)
  with scan_spec_Decided [OF Decided] assms show ?thesis
    by (auto simp: decision_spec_def access_decision_new_def is_allowed_def)
next
  case (Exhausted p)
  with scan_spec_Exhausted [OF Exhausted] assms show ?thesis
    by (auto simp: decision_spec_def access_decision_new_def is_allowed_def list_ex_length)
qed

lemma decision_spec_deny:
  assumes "j < length rs" and "verdict (rs ! j) = RuleUnevaluable" and "ar_effect (rs ! j) = ''deny''"
  shows "\<exists>i\<le>j. ad_matched_rule_index (decision_spec verdict rs dflt) = Some i \<and>
    takes_effect verdict (rs ! i) \<and> ad_access (decision_spec verdict rs dflt) = ar_effect (rs ! i)"
proof -
  have t: "takes_effect verdict (rs ! j)" using assms by (simp add: takes_effect_def)
  show ?thesis
  proof (cases "scan_spec verdict 0 rs False")
    case (Decided i r p)
    note d = scan_spec_Decided [OF Decided]
    with t have "i \<le> j" by (metis not_le)
    with d Decided show ?thesis
      by (auto simp: decision_spec_def access_decision_new_def)
  next
    case (Exhausted p)
    with scan_spec_Exhausted [OF Exhausted] t assms(1) show ?thesis by (auto simp: list_all_length)
  qed
qed

subsection \<open>Validity of the rules an ACL holds\<close>

definition rule_valid :: "acl_rule \<Rightarrow> bool" where
  "rule_valid r \<longleftrightarrow> validate_rule r = Inr ()"

definition acl_ok :: "acl \<Rightarrow> bool" where
  "acl_ok a \<longleftrightarrow> acl_default_effect a \<in> set effects \<and> list_all rule_valid (acl_rules a)"

lemma rule_valid_shape:
  "rule_valid r \<Longrightarrow> ar_effect r \<in> {''allow'', ''deny''} \<and> pattern_shape_fault (ar_callers r) = None \<and>
     pattern_shape_fault (ar_targets r) = None \<and> \<not> (ar_effect r = ''deny'' \<and> ar_approval r = Some Required)"
  by (auto simp: rule_valid_def validate_rule_def effects_def split: if_splits)

lemma validate_rules_from_None: "validate_rules_from i rs = None \<longleftrightarrow> list_all rule_valid rs"
  by (induction i rs rule: validate_rules_from.induct)
    (auto simp: rule_valid_def split: sum.splits)

lemma validate_rules_from_Some:
  "validate_rules_from i rs = Some k \<Longrightarrow>
     i \<le> k \<and> k - i < length rs \<and> \<not> rule_valid (rs ! (k - i)) \<and> list_all rule_valid (take (k - i) rs)"
proof (induction i rs rule: validate_rules_from.induct)
  case (1 i)
  then show ?case by simp
next
  case (2 i r rs)
  show ?case
  proof (cases "validate_rule r")
    case (Inl e)
    with 2 show ?thesis by (auto simp: rule_valid_def)
  next
    case (Inr u)
    with 2 have "Suc i \<le> k \<and> k - Suc i < length rs \<and> \<not> rule_valid (rs ! (k - Suc i)) \<and>
        list_all rule_valid (take (k - Suc i) rs)"
      by simp
    moreover from this have "k - i = Suc (k - Suc i)" by (metis Suc_diff_Suc Suc_le_lessD)
    moreover have "rule_valid r" using Inr by (simp add: rule_valid_def)
    ultimately show ?thesis by simp
  qed
qed

lemma acl_try_new_ok: "acl_try_new rs eff logger = Inr a \<Longrightarrow> acl_ok a"
  by (auto simp: acl_try_new_def acl_new_unchecked_def acl_ok_def validate_rules_from_None
      split: if_splits option.splits)

lemma acl_try_add_rule_ok: "acl_ok a \<Longrightarrow> acl_try_add_rule r a = Inr a' \<Longrightarrow> acl_ok a'"
  by (auto simp: acl_try_add_rule_def acl_ok_def rule_valid_def split: sum.splits)

lemma acl_remove_rule_ok: "acl_ok a \<Longrightarrow> acl_ok (snd (acl_remove_rule_with_conditions cs ts c a))"
  by (auto simp: acl_remove_rule_with_conditions_def acl_ok_def remove_nth_def list_all_iff
      dest: in_set_takeD in_set_dropD split: option.splits)

lemma finish_check_keeps [simp]:
  "acl_rules (fst (snd (finish_check cb a caller target ctx res))) = acl_rules a"
  "acl_default_effect (fst (snd (finish_check cb a caller target ctx res))) = acl_default_effect a"
  by (simp_all add: finish_check_def Let_def case_prod_unfold)

lemma finish_no_rules_keeps [simp]:
  "acl_rules (fst (snd (finish_no_rules cb a caller target ctx))) = acl_rules a"
  "acl_default_effect (fst (snd (finish_no_rules cb a caller target ctx))) = acl_default_effect a"
  by (simp_all add: finish_no_rules_def Let_def case_prod_unfold)

lemma check_access_keeps [simp]:
  "acl_rules (fst (snd (check_access w cb a c t ctx proj))) = acl_rules a"
  "acl_default_effect (fst (snd (check_access w cb a c t ctx proj))) = acl_default_effect a"
  "acl_rules (fst (snd (async_check_access w cb a c t ctx proj))) = acl_rules a"
  "acl_default_effect (fst (snd (async_check_access w cb a c t ctx proj))) = acl_default_effect a"
  by (simp_all add: check_access_def async_check_access_def Let_def)

subsection \<open>The audit trail of one check\<close>

definition entry_agrees :: "access_decision \<Rightarrow> audit_entry \<Rightarrow> bool" where
  "entry_agrees d e \<longleftrightarrow>
     ae_decision e = ad_access d \<and> ae_reason e = ad_reason d \<and>
     ae_approval_required e = ad_approval_required d \<and> ae_matched_rule_index e = ad_matched_rule_index d"

lemmas audit_unfold = finish_check_def Let_def case_prod_unfold entry_agrees_def
  access_decision_new_def build_audit_entry_def

lemma finish_check_audit:
  "\<exists>e. entry_agrees (fst (finish_check cb a caller target ctx res)) e \<and>
     (acl_audit_sink (fst (snd (finish_check cb a caller target ctx res))),
      fst (snd (snd (finish_check cb a caller target ctx res)))) = emit_audit cb (acl_audit_sink a) e"
proof (cases "fst res")
  case (Decided i r p)
  show ?thesis
    by (rule exI [of _ "build_audit_entry caller target (ar_effect r) ''rule_match'' (ar_description r)
          (Some i) (ar_effect r = ''allow'' \<and> (rule_approval_required r \<or> p)) ctx (sc_reports (snd res))"])
      (simp add: audit_unfold Decided finalize_rule_match_def)
next
  case (Exhausted p)
  show ?thesis
    by (rule exI [of _ "build_audit_entry caller target (acl_default_effect a) ''default_effect'' None
          None (acl_default_effect a = ''allow'' \<and> p) ctx (sc_reports (snd res))"])
      (simp add: audit_unfold Exhausted finalize_default_effect_def)
qed

lemma finish_no_rules_audit:
  "\<exists>e. entry_agrees (fst (finish_no_rules cb a caller target ctx)) e \<and>
     (acl_audit_sink (fst (snd (finish_no_rules cb a caller target ctx))),
      fst (snd (snd (finish_no_rules cb a caller target ctx)))) = emit_audit cb (acl_audit_sink a) e"
  by (rule exI [of _ "build_audit_entry caller target (acl_default_effect a) ''no_rules'' None None
        False ctx []"])
    (simp add: audit_unfold finish_no_rules_def finalize_no_rules_def)

lemma check_access_audit:
  "\<exists>e. entry_agrees (fst (check_access w cb a c t ctx proj)) e \<and>
     (acl_audit_sink (fst (snd (check_access w cb a c t ctx proj))),
      fst (snd (snd (check_access w cb a c t ctx proj)))) = emit_audit cb (acl_audit_sink a) e"
  by (simp add: check_access_def Let_def finish_check_audit finish_no_rules_audit)

lemma async_check_access_audit:
  "\<exists>e. entry_agrees (fst (async_check_access w cb a c t ctx proj)) e \<and>
     (acl_audit_sink (fst (snd (async_check_access w cb a c t ctx proj))),
      fst (snd (snd (async_check_access w cb a c t ctx proj)))) = emit_audit cb (acl_audit_sink a) e"
  by (simp add: async_check_access_def Let_def finish_check_audit finish_no_rules_audit)

text \<open>What one delivery does to the failure flag.\<close>

lemma emit_audit_failures:
  "emit_audit cb s e = (s', evs) \<Longrightarrow>
     count_list evs FailureReported + (if as_failed s then 1 else 0) = (if as_failed s' then 1 else 0)"
  by (auto simp: emit_audit_def deliver_def report_failure_def emit_default_def Let_def
      split: if_splits option.splits)

subsection \<open>Warnings\<close>

definition warns_once :: "scan_state \<Rightarrow> scan_state \<Rightarrow> bool" where
  "warns_once st st' \<longleftrightarrow>
     (\<exists>new. sc_log st' = sc_log st @ new \<and> distinct new \<and> set new \<inter> set (sc_warned st) = {} \<and>
        set (sc_warned st') = set (sc_warned st) \<union> set new)"

lemma warns_once_refl: "sc_log st' = sc_log st \<Longrightarrow> sc_warned st' = sc_warned st \<Longrightarrow> warns_once st st'"
  by (simp add: warns_once_def)

lemma warns_once_trans: "warns_once st st' \<Longrightarrow> warns_once st' st'' \<Longrightarrow> warns_once st st''"
  unfolding warns_once_def by (elim exE conjE) (rule exI, auto)

lemma report_faults_keeps [simp]:
  "sc_log (report_faults fs st) = sc_log st" "sc_warned (report_faults fs st) = sc_warned st"
  by (simp_all add: report_faults_def)

lemma precheck_keeps [simp]:
  "sc_log (snd (precheck_failed g c p st)) = sc_log st"
  "sc_warned (snd (precheck_failed g c p st)) = sc_warned st"
  "sc_log (snd (pattern_precheck_failed r st)) = sc_log st"
  "sc_warned (snd (pattern_precheck_failed r st)) = sc_warned st"
  by (simp_all add: precheck_failed_def pattern_precheck_failed_def Let_def)

lemma warn_warns_once: "warns_once st (warn_conditional_rule_without_context i eff st)"
  by (auto simp: warn_conditional_rule_without_context_def warns_once_def)

lemma warns_once_from: "sc_log st1 = sc_log st \<Longrightarrow> sc_warned st1 = sc_warned st \<Longrightarrow>
    warns_once st1 st2 \<Longrightarrow> warns_once st st2"
  by (simp add: warns_once_def)

lemma check_conditions_warns_once:
  "warns_once st (snd (check_conditions w proj i r c ctx st))"
  "warns_once st (snd (check_conditions_async w proj i r c ctx st))"
  unfolding check_conditions_def check_conditions_async_def
  by (auto simp: Let_def case_prod_unfold intro: warns_once_refl
      warns_once_from [OF _ _ warn_warns_once] split: option.splits)

lemma matches_rule_warns_once:
  "warns_once st (snd (matches_rule w proj caller target ctx i r st))"
  "warns_once st (snd (matches_rule_async w proj caller target ctx i r st))"
  unfolding matches_rule_def matches_rule_async_def
  by (auto simp: Let_def case_prod_unfold intro: warns_once_refl
      warns_once_from [OF _ _ check_conditions_warns_once(1)]
      warns_once_from [OF _ _ check_conditions_warns_once(2)] split: option.splits)

locale quiet_scan = rule_scan +
  assumes matches_warns_once: "warns_once st (snd (matches i r st))"
begin

lemma loop_warns_once: "warns_once st (snd (loop i rs pending st))"
proof (induction rs arbitrary: i pending st)
  case Nil
  then show ?case by (simp add: loop_Nil warns_once_refl)
next
  case (Cons r rs)
  obtain v st1 where m: "matches i r st = (v, st1)" by fastforce
  with matches_warns_once [of st i r] have 1: "warns_once st st1" by simp
  with m Cons.IH show ?case
    by (auto simp: loop_Cons intro: warns_once_trans [OF 1]
        split: rule_match.splits unevaluable_resolution.splits)
qed

end

interpretation sync_scan: quiet_scan
    "registries_reachable (aw_registries w)" "rule_verdict SyncMode w proj caller target ctx"
    "matches_rule w proj caller target ctx" "check_loop w proj caller target ctx"
  for w proj caller target ctx
  by unfold_locales (rule matches_rule_warns_once)

interpretation async_scan: quiet_scan
    "registries_reachable (aw_registries w)" "rule_verdict AsyncMode w proj caller target ctx"
    "matches_rule_async w proj caller target ctx" "async_check_loop w proj caller target ctx"
  for w proj caller target ctx
  by unfold_locales (rule matches_rule_warns_once)

lemma check_access_log:
  assumes "check_access w cb a c t ctx proj = (d, a', evs, lg)"
  shows "distinct lg \<and> set lg \<inter> set (acl_warned a) = {} \<and> set (acl_warned a') = set (acl_warned a) \<union> set lg"
proof (cases "acl_rules a = []")
  case True
  with assms show ?thesis
    by (auto simp: check_access_def finish_no_rules_def Let_def case_prod_unfold)
next
  case False
  have "warns_once (start_scan a)
      (snd (check_loop w proj (caller_or_external c) t ctx 0 (acl_rules a) False (start_scan a)))"
    by (rule sync_scan.loop_warns_once)
  with False assms show ?thesis
    by (auto simp: check_access_def finish_check_def Let_def case_prod_unfold warns_once_def start_scan_def)
qed

lemma async_check_access_log:
  assumes "async_check_access w cb a c t ctx proj = (d, a', evs, lg)"
  shows "distinct lg \<and> set lg \<inter> set (acl_warned a) = {} \<and> set (acl_warned a') = set (acl_warned a) \<union> set lg"
proof (cases "acl_rules a = []")
  case True
  with assms show ?thesis
    by (auto simp: async_check_access_def finish_no_rules_def Let_def case_prod_unfold)
next
  case False
  have "warns_once (start_scan a)
      (snd (async_check_loop w proj (caller_or_external c) t ctx 0 (acl_rules a) False (start_scan a)))"
    by (rule async_scan.loop_warns_once)
  with False assms show ?thesis
    by (auto simp: async_check_access_def finish_check_def Let_def case_prod_unfold warns_once_def
        start_scan_def)
qed

subsection \<open>Sequences of checks against one ACL\<close>

record check_request =
  cr_async :: bool
  cr_caller :: "string option"
  cr_target :: string
  cr_ctx :: "json call_context option"
  cr_projection :: "projection option"

definition run_check ::
  "acl_world \<Rightarrow> callback_panics \<Rightarrow> acl \<Rightarrow> check_request \<Rightarrow> check_result" where
  "run_check w cb a q =
     (if cr_async q
      then async_check_access w cb a (cr_caller q) (cr_target q) (cr_ctx q) (cr_projection q)
      else check_access w cb a (cr_caller q) (cr_target q) (cr_ctx q) (cr_projection q))"

fun run_checks ::
  "acl_world \<Rightarrow> callback_panics \<Rightarrow> acl \<Rightarrow> check_request list
     \<Rightarrow> access_decision list \<times> acl \<times> audit_event list \<times> (nat \<times> string) list" where
  "run_checks w cb a [] = ([], a, [], [])"
| "run_checks w cb a (q # qs) =
     (let (d, a1, evs1, lg1) = run_check w cb a q;
          (ds, a2, evs2, lg2) = run_checks w cb a1 qs
      in (d # ds, a2, evs1 @ evs2, lg1 @ lg2))"

lemma run_check_audit:
  assumes "run_check w cb a q = (d, a', evs, lg)"
  shows "\<exists>e. entry_agrees d e \<and> emit_audit cb (acl_audit_sink a) e = (acl_audit_sink a', evs)"
proof (cases "cr_async q")
  case True
  with assms async_check_access_audit [of w cb a "cr_caller q" "cr_target q" "cr_ctx q" "cr_projection q"]
  show ?thesis by (simp add: run_check_def) metis
next
  case False
  with assms check_access_audit [of w cb a "cr_caller q" "cr_target q" "cr_ctx q" "cr_projection q"]
  show ?thesis by (simp add: run_check_def) metis
qed

lemma run_check_log:
  "run_check w cb a q = (d, a', evs, lg) \<Longrightarrow>
     distinct lg \<and> set lg \<inter> set (acl_warned a) = {} \<and> set (acl_warned a') = set (acl_warned a) \<union> set lg"
  by (auto simp: run_check_def split: if_splits dest: check_access_log async_check_access_log)

lemma run_checks_log:
  "run_checks w cb a qs = (ds, a', evs, lg) \<Longrightarrow>
     distinct lg \<and> set lg \<inter> set (acl_warned a) = {} \<and> set (acl_warned a') = set (acl_warned a) \<union> set lg"
proof (induction w cb a qs arbitrary: ds a' evs lg rule: run_checks.induct)
  case (1 w cb a)
  then show ?case by simp
next
  case (2 w cb a q qs)
  obtain d a1 e1 l1 where r: "run_check w cb a q = (d, a1, e1, l1)" by (metis prod_cases4)
  obtain ds' a2 e2 l2 where rs: "run_checks w cb a1 qs = (ds', a2, e2, l2)" by (metis prod_cases4)
  from 2(1) [OF r [symmetric] refl refl refl rs] run_check_log [OF r] 2(2) r rs
  show ?case by auto
qed

lemma run_checks_failures:
  "run_checks w cb a qs = (ds, a', evs, lg) \<Longrightarrow>
     count_list evs FailureReported + (if as_failed (acl_audit_sink a) then 1 else 0) =
       (if as_failed (acl_audit_sink a') then 1 else 0)"
proof (induction w cb a qs arbitrary: ds a' evs lg rule: run_checks.induct)
  case (1 w cb a)
  then show ?case by simp
next
  case (2 w cb a q qs)
  obtain d a1 e1 l1 where r: "run_check w cb a q = (d, a1, e1, l1)" by (metis prod_cases4)
  obtain ds' a2 e2 l2 where rs: "run_checks w cb a1 qs = (ds', a2, e2, l2)" by (metis prod_cases4)
  from run_check_audit [OF r] obtain e where "emit_audit cb (acl_audit_sink a) e = (acl_audit_sink a1, e1)"
    by blast
  from emit_audit_failures [OF this] 2(1) [OF r [symmetric] refl refl refl rs] 2(2) r rs
  show ?case by (auto split: if_splits)
qed

subsection \<open>Properties\<close>

text \<open>C2: Both entry points decide as the specification says, for every caller, target, context and
  projection: the first rule that matches, or that is an unevaluable \<open>deny\<close>, decides with its own
  effect; the default effect decides when there is none; and approval is asked for when the call is
  allowed and the deciding rule, or an unevaluable rule passed on the way, requires it.\<close>

theorem check_decides_by_first_effective_rule:
  assumes "registries_reachable (aw_registries w)"
  shows "fst (check_access w cb a caller_id target ctx proj) =
      decision_spec (rule_verdict SyncMode w proj (caller_or_external caller_id) target ctx)
        (acl_rules a) (acl_default_effect a)
    \<and> fst (async_check_access w cb a caller_id target ctx proj) =
      decision_spec (rule_verdict AsyncMode w proj (caller_or_external caller_id) target ctx)
        (acl_rules a) (acl_default_effect a)"
  using assms by (simp add: check_access_spec async_check_access_spec)

definition sample_world :: acl_world where
  "sample_world = \<lparr>aw_registries = seeded_registries, aw_host = env_host sample_env\<rparr>"

definition sample_acl :: acl where
  "sample_acl = acl_new_unchecked
     [(acl_rule_new [''*''] [''db.*''] ''allow'')
        \<lparr>ar_approval := Some Required, ar_conditions := Some (JObject [(''rolez'', JNull)])\<rparr>,
      acl_rule_new [''@external''] [''admin.*''] ''deny'',
      acl_rule_new [''*''] [''db.read''] ''allow'']
     ''deny'' None"

lemma sample_world_reachable: "registries_reachable (aw_registries sample_world)"
  using seeded_reachable by (simp add: sample_world_def)

theorem check_decides_by_first_effective_rule_witness:
  "fst (check_access sample_world (\<lambda>_ _. False) sample_acl None ''db.read'' (Some sample_ctx) None) =
      decision_spec (rule_verdict SyncMode sample_world None (caller_or_external None) ''db.read''
        (Some sample_ctx)) (acl_rules sample_acl) (acl_default_effect sample_acl)
    \<and> fst (async_check_access sample_world (\<lambda>_ _. False) sample_acl None ''db.read'' (Some sample_ctx) None) =
      decision_spec (rule_verdict AsyncMode sample_world None (caller_or_external None) ''db.read''
        (Some sample_ctx)) (acl_rules sample_acl) (acl_default_effect sample_acl)"
  by (rule check_decides_by_first_effective_rule [OF sample_world_reachable])

text \<open>C8: A call is allowed only by a rule of effect \<open>allow\<close> that matches outright (its patterns
  match and its conditions, if any, are satisfied) with no rule before it taking effect, or by the
  default effect \<open>allow\<close> with no rule taking effect at all; an unevaluable rule never grants.\<close>

theorem no_grant_without_a_match:
  assumes "registries_reachable (aw_registries w)"
    and "is_allowed (fst (check_access w cb a caller_id target ctx proj))"
  shows "case ad_matched_rule_index (fst (check_access w cb a caller_id target ctx proj)) of
      Some i \<Rightarrow> i < length (acl_rules a) \<and>
        rule_verdict SyncMode w proj (caller_or_external caller_id) target ctx (acl_rules a ! i) = Match \<and>
        ar_effect (acl_rules a ! i) = ''allow'' \<and>
        list_all (\<lambda>r. \<not> takes_effect
          (rule_verdict SyncMode w proj (caller_or_external caller_id) target ctx) r) (take i (acl_rules a))
    | None \<Rightarrow> acl_default_effect a = ''allow'' \<and>
        list_all (\<lambda>r. \<not> takes_effect
          (rule_verdict SyncMode w proj (caller_or_external caller_id) target ctx) r) (acl_rules a)"
  using decision_spec_allow [OF check_access_spec [OF assms(1)] assms(2)]
  by (auto simp: list_all_length split: option.splits)

lemma sample_check:
  "fst (check_access sample_world (\<lambda>_ _. False) sample_acl None ''db.read'' (Some sample_ctx) None) =
     access_decision_new ''allow'' True (Some 2) ''rule_match''"
  by code_simp

theorem no_grant_without_a_match_witness:
  "rule_verdict SyncMode sample_world None (caller_or_external None) ''db.read'' (Some sample_ctx)
     (acl_rules sample_acl ! 2) = Match"
  using no_grant_without_a_match [OF sample_world_reachable, of "\<lambda>_ _. False" sample_acl None "''db.read''"
      "Some sample_ctx" None]
  by (simp add: sample_check is_allowed_def access_decision_new_def)

text \<open>C9: A requirement for approval carried by an unevaluable \<open>allow\<close> rule is never lost: a
  call that some later rule, or the default effect, then allows is marked as needing approval.\<close>

theorem pending_approval_never_lost:
  assumes "registries_reachable (aw_registries w)"
    and "is_allowed (fst (check_access w cb a caller_id target ctx proj))"
    and "j < length (acl_rules a)"
    and "leaves_pending (rule_verdict SyncMode w proj (caller_or_external caller_id) target ctx)
      (acl_rules a ! j)"
    and "\<And>i. ad_matched_rule_index (fst (check_access w cb a caller_id target ctx proj)) = Some i \<Longrightarrow> j < i"
  shows "ad_approval_required (fst (check_access w cb a caller_id target ctx proj))"
  using decision_spec_pending [OF check_access_spec [OF assms(1)] assms(2-5)] .

theorem pending_approval_never_lost_witness:
  "ad_approval_required
     (fst (check_access sample_world (\<lambda>_ _. False) sample_acl None ''db.read'' (Some sample_ctx) None))"
proof (rule pending_approval_never_lost [OF sample_world_reachable, of _ _ _ _ _ _ 0])
  show "is_allowed
      (fst (check_access sample_world (\<lambda>_ _. False) sample_acl None ''db.read'' (Some sample_ctx) None))"
    by (simp add: sample_check is_allowed_def access_decision_new_def)
  show "0 < length (acl_rules sample_acl)" by code_simp
  show "leaves_pending (rule_verdict SyncMode sample_world None (caller_or_external None) ''db.read''
      (Some sample_ctx)) (acl_rules sample_acl ! 0)"
    by code_simp
qed (simp add: sample_check access_decision_new_def)

text \<open>A \<open>deny\<close> rule that is unevaluable denies: the call is decided at that rule or before
  it, and when no earlier rule takes effect it is denied, at that rule, with no approval asked for.\<close>

theorem unevaluable_deny_denies:
  assumes "registries_reachable (aw_registries w)"
    and "j < length (acl_rules a)" and "ar_effect (acl_rules a ! j) = ''deny''"
    and "rule_verdict SyncMode w proj (caller_or_external caller_id) target ctx (acl_rules a ! j) =
      RuleUnevaluable"
    and "list_all (\<lambda>r. \<not> takes_effect
      (rule_verdict SyncMode w proj (caller_or_external caller_id) target ctx) r) (take j (acl_rules a))"
  shows "fst (check_access w cb a caller_id target ctx proj) =
    access_decision_new ''deny'' False (Some j) ''rule_match''"
proof -
  let ?v = "rule_verdict SyncMode w proj (caller_or_external caller_id) target ctx"
  have t: "takes_effect ?v (acl_rules a ! j)" using assms by (simp add: takes_effect_def)
  show ?thesis
  proof (cases "scan_spec ?v 0 (acl_rules a) False")
    case (Decided i r p)
    note d = scan_spec_Decided [OF Decided]
    have "i = j"
      using d t assms(2,5) by (metis list_all_length length_take min_less_iff_conj nth_take nat_neq_iff)
    with d Decided assms show ?thesis
      by (simp add: check_access_spec decision_spec_def)
  next
    case (Exhausted p)
    with scan_spec_Exhausted [OF Exhausted] t assms(2) show ?thesis by (auto simp: list_all_length)
  qed
qed

definition typo_acl :: acl where
  "typo_acl = acl_new_unchecked
     [(acl_rule_new [''*''] [''db.*''] ''deny'')\<lparr>ar_conditions := Some (JObject [(''rolez'', JNull)])\<rparr>]
     ''allow'' None"

theorem unevaluable_deny_denies_witness:
  "fst (check_access sample_world (\<lambda>_ _. False) typo_acl None ''db.read'' None None) =
     access_decision_new ''deny'' False (Some 0) ''rule_match''"
  by (rule unevaluable_deny_denies [OF sample_world_reachable]) code_simp+

text \<open>The audit trail is a faithful side channel: whatever sink is installed and whether or not
  its callback panics, the decision is the same, and the entry handed to the sink carries exactly the
  decision, reason, approval requirement and rule index of the returned decision.\<close>

theorem audit_is_a_faithful_side_channel:
  "fst (check_access w cb a caller_id target ctx proj) =
      fst (check_access w cb' (a\<lparr>acl_audit_sink := sink\<rparr>) caller_id target ctx proj)
   \<and> (\<exists>e. entry_agrees (fst (check_access w cb a caller_id target ctx proj)) e \<and>
        fst (snd (snd (check_access w cb a caller_id target ctx proj))) =
          snd (emit_audit cb (acl_audit_sink a) e))"
proof
  show "fst (check_access w cb a caller_id target ctx proj) =
      fst (check_access w cb' (a\<lparr>acl_audit_sink := sink\<rparr>) caller_id target ctx proj)"
    by (auto simp: check_access_def finish_no_rules_def finalize_no_rules_def finish_check_def
        start_scan_def finalize_rule_match_def finalize_default_effect_def Let_def case_prod_unfold
        split: scan_result.splits)
next
  show "\<exists>e. entry_agrees (fst (check_access w cb a caller_id target ctx proj)) e \<and>
        fst (snd (snd (check_access w cb a caller_id target ctx proj))) =
          snd (emit_audit cb (acl_audit_sink a) e)"
    using check_access_audit [of w cb a caller_id target ctx proj] by (metis snd_conv)
qed

text \<open>Across any sequence of checks, synchronous or asynchronous, against one ACL, a failing audit
  sink is reported at most once, and the missing-context warning of a rule is emitted at most once per
  rule index and effect.\<close>

theorem diagnostics_emitted_once:
  "case run_checks w cb a qs of (ds, a', evs, lg) \<Rightarrow> count_list evs FailureReported \<le> 1 \<and> distinct lg"
proof -
  obtain ds a' evs lg where r: "run_checks w cb a qs = (ds, a', evs, lg)" by (metis prod_cases4)
  with run_checks_failures [OF r] run_checks_log [OF r] show ?thesis by (auto split: if_splits)
qed

text \<open>The sentinel for calls from outside is exclusive: the caller pattern \<open>@external\<close> matches
  an absent caller and, of present callers, only one whose id is literally that token, while the
  wildcard \<open>*\<close> covers absent and present callers alike; and the pattern \<open>@system\<close> looks at
  the identity's type only, never at the caller's id.\<close>

theorem external_sentinel_is_exclusive:
  "(match_patterns [''@external''] (caller_or_external c) ctx \<longleftrightarrow> c = None \<or> c = Some ''@external'')
   \<and> match_patterns [''*''] (caller_or_external c) ctx
   \<and> match_patterns [''@system''] v ctx = match_patterns [''@system''] v' ctx"
  by (auto simp: match_patterns_def match_acl_pattern_with_ctx_def match_acl_pattern_def
      external_caller_def caller_or_external_def match_pattern_def split: option.splits)

end
