(* ===== verification/AclLoad.thy ===== *)
theory AclLoad
  imports Acl
begin

section \<open>Loading, reloading and linting an access-control list\<close>

text \<open>
  The file side of \<open>src/src/acl.rs\<close>: the \<open>audit:\<close> block, \<open>load\<close>,
  \<open>reload\<close> and \<open>validate_rules\<close>. Reading the file and parsing its YAML into a JSON value
  are the library's; what they give is the datatype \<open>acl_file\<close>. A rule is refused with the
  index the error message names.
\<close>

datatype acl_file = Unreadable | Unparsable | Parsed json

definition rule_keys :: "string list" where
  "rule_keys = [''callers'', ''targets'', ''effect'', ''approval'', ''description'', ''conditions'']"

definition audit_fields :: "string list" where
  "audit_fields = [''enabled'', ''include_denied'', ''log_level'']"

definition audit_levels :: "string list" where
  "audit_levels = [''trace'', ''debug'', ''info'', ''warn'', ''error'']"

text \<open>\<open>Value::get\<close> with a string key.\<close>

definition value_get :: "json \<Rightarrow> string \<Rightarrow> json option" where
  "value_get j k = Option.bind (as_object j) (\<lambda>es. bt_get es k)"

definition config_invalid :: module_error where
  "config_invalid = module_error_new ConfigInvalid"

definition audit_flag :: "(string \<times> json) list \<Rightarrow> string \<Rightarrow> module_error + bool option" where
  "audit_flag block k =
     (case bt_get block k of
        None \<Rightarrow> Inr None
      | Some v \<Rightarrow> (case as_bool v of None \<Rightarrow> Inl config_invalid | Some b \<Rightarrow> Inr (Some b)))"

definition audit_level :: "(string \<times> json) list \<Rightarrow> module_error + string option" where
  "audit_level block =
     (case bt_get block ''log_level'' of
        None \<Rightarrow> Inr None
      | Some v \<Rightarrow>
          (case as_str v of
             None \<Rightarrow> Inl config_invalid
           | Some s \<Rightarrow> if s \<in> set audit_levels then Inr (Some s) else Inl config_invalid))"

definition parse_audit_block :: "json \<Rightarrow> module_error + audit_config option" where
  "parse_audit_block raw =
     (case value_get raw ''audit'' of
        None \<Rightarrow> Inr None
      | Some JNull \<Rightarrow> Inr (Some audit_config_default)
      | Some v \<Rightarrow>
          (case as_object v of
             None \<Rightarrow> Inl config_invalid
           | Some block \<Rightarrow>
               if list_ex (\<lambda>e. fst e \<notin> set audit_fields) block then Inl config_invalid
               else
                 (case audit_flag block ''enabled'' of
                    Inl e \<Rightarrow> Inl e
                  | Inr en \<Rightarrow>
                      (case audit_flag block ''include_denied'' of
                         Inl e \<Rightarrow> Inl e
                       | Inr inc \<Rightarrow>
                           (case audit_level block of
                              Inl e \<Rightarrow> Inl e
                            | Inr lvl \<Rightarrow>
                                Inr (Some
                                  \<lparr>ac_enabled = unwrap_or (ac_enabled audit_config_default) en,
                                   ac_include_denied = unwrap_or (ac_include_denied audit_config_default) inc,
                                   ac_log_level = unwrap_or (ac_log_level audit_config_default) lvl\<rparr>))))))"

subsection \<open>One rule\<close>

definition approval_from_json :: "json \<Rightarrow> approval_requirement option option" where
  "approval_from_json j =
     (let unit_variant = (\<lambda>s. if s = ''not_required'' then Some (Some NotRequired)
                              else if s = ''required'' then Some (Some Required) else None)
      in case j of
           JNull \<Rightarrow> Some None
         | JString s \<Rightarrow> unit_variant s
         | JObject [(s, JNull)] \<Rightarrow> unit_variant s
         | _ \<Rightarrow> None)"

definition opt_value_from_json :: "json \<Rightarrow> json option" where
  "opt_value_from_json j = (case j of JNull \<Rightarrow> None | _ \<Rightarrow> Some j)"

definition acl_rule_from_object :: "(string \<times> json) list \<Rightarrow> acl_rule option" where
  "acl_rule_from_object es =
     (case (default_field [] strings_from_json (bt_get es ''callers''),
            default_field [] strings_from_json (bt_get es ''targets''),
            Option.bind (bt_get es ''effect'') as_str,
            default_field None approval_from_json (bt_get es ''approval''),
            default_field None opt_string_from_json (bt_get es ''description'')) of
        (Some cs, Some ts, Some eff, Some app, Some desc) \<Rightarrow>
          Some \<lparr>ar_callers = cs, ar_targets = ts, ar_effect = eff, ar_approval = app,
                ar_description = desc,
                ar_conditions = Option.bind (bt_get es ''conditions'') opt_value_from_json\<rparr>
      | _ \<Rightarrow> None)"

definition reject_unknown_rule_keys :: "(string \<times> json) list \<Rightarrow> module_error + unit" where
  "reject_unknown_rule_keys es =
     (if list_ex (\<lambda>e. fst e \<notin> set rule_keys) es then Inl acl_rule_error else Inr ())"

definition load_rule :: "json \<Rightarrow> module_error + acl_rule" where
  "load_rule raw_rule =
     (case as_object raw_rule of
        None \<Rightarrow> Inl acl_rule_error
      | Some obj \<Rightarrow>
          if bt_get obj ''callers'' = None then Inl acl_rule_error
          else if bt_get obj ''targets'' = None then Inl acl_rule_error
          else
            (case reject_unknown_rule_keys obj of
               Inl e \<Rightarrow> Inl e
             | Inr _ \<Rightarrow>
                 (case acl_rule_from_object obj of
                    None \<Rightarrow> Inl acl_rule_error
                  | Some r \<Rightarrow> (case validate_rule r of Inl _ \<Rightarrow> Inl acl_rule_error | Inr _ \<Rightarrow> Inr r))))"

text \<open>Every axis of rule \<open>i\<close> before rule \<open>i + 1\<close>; a refusal names the index.\<close>

fun load_rules :: "nat \<Rightarrow> json list \<Rightarrow> nat \<times> module_error + acl_rule list" where
  "load_rules i [] = Inr []"
| "load_rules i (j # js) =
     (case load_rule j of
        Inl e \<Rightarrow> Inl (i, e)
      | Inr r \<Rightarrow> (case load_rules (Suc i) js of Inl e \<Rightarrow> Inl e | Inr rs \<Rightarrow> Inr (r # rs)))"

definition load_default_effect :: "json \<Rightarrow> module_error + string" where
  "load_default_effect raw =
     (case (case value_get raw ''default_effect'' of
              None \<Rightarrow> Inr ''deny''
            | Some (JString s) \<Rightarrow> Inr s
            | Some _ \<Rightarrow> Inl acl_rule_error) of
        Inl e \<Rightarrow> Inl e
      | Inr eff \<Rightarrow> if eff \<in> set effects then Inr eff else Inl acl_rule_error)"

definition acl_load :: "string \<Rightarrow> acl_file \<Rightarrow> module_error + acl" where
  "acl_load path file =
     (case file of
        Unreadable \<Rightarrow> Inl (module_error_new ConfigNotFound)
      | Unparsable \<Rightarrow> Inl acl_rule_error
      | Parsed raw \<Rightarrow>
          (case parse_audit_block raw of
             Inl e \<Rightarrow> Inl e
           | Inr audit \<Rightarrow>
               (case load_default_effect raw of
                  Inl e \<Rightarrow> Inl e
                | Inr eff \<Rightarrow>
                    (case value_get raw ''rules'' of
                       None \<Rightarrow> Inl acl_rule_error
                     | Some rules_val \<Rightarrow>
                         (case as_array rules_val of
                            None \<Rightarrow> Inl acl_rule_error
                          | Some raw_rules \<Rightarrow>
                              (case load_rules 0 raw_rules of
                                 Inl (i, e) \<Rightarrow> Inl e
                               | Inr rules \<Rightarrow>
                                   (case acl_try_new rules eff None of
                                      Inl e \<Rightarrow> Inl acl_rule_error
                                    | Inr a \<Rightarrow>
                                        Inr (a\<lparr>acl_yaml_path := Some path, acl_audit_config := audit,
                                               acl_audit_sink :=
                                                 audit_sink_new (acl_audit_logger a) audit\<rparr>))))))))"

text \<open>A reload reads the stored path again; the file system at that moment is the argument.\<close>

definition acl_reload :: "(string \<Rightarrow> acl_file) \<Rightarrow> acl \<Rightarrow> module_error + acl" where
  "acl_reload files a =
     (case acl_yaml_path a of
        None \<Rightarrow> Inl acl_rule_error
      | Some path \<Rightarrow>
          (case acl_load path (files path) of
             Inl e \<Rightarrow> Inl e
           | Inr b \<Rightarrow>
               Inr (a\<lparr>acl_rules := acl_rules b, acl_default_effect := acl_default_effect b,
                      acl_audit_config := acl_audit_config b,
                      acl_audit_sink := audit_sink_new (acl_audit_logger a) (acl_audit_config b),
                      acl_warned := []\<rparr>)))"

subsection \<open>Deploy-time findings\<close>

record rule_finding =
  fi_rule_index :: nat
  fi_condition_path :: string
  fi_condition_key :: "string option"
  fi_effect :: string
  fi_sync_resolvable :: bool
  fi_async_resolvable :: bool

definition field_faults :: "string \<Rightarrow> string list \<Rightarrow> rule_fault list" where
  "field_faults field ps =
     (case pattern_shape_fault ps of
        Some _ \<Rightarrow> [pattern_rule_fault field PatternShape]
      | None \<Rightarrow>
          (case pattern_never_matches field ps of
             Some _ \<Rightarrow> [pattern_rule_fault field PatternNeverMatches]
           | None \<Rightarrow> []))"

definition rule_faults :: "registries \<Rightarrow> acl_rule \<Rightarrow> rule_fault list" where
  "rule_faults g r =
     sort_key rf_path
       (field_faults ''callers'' (ar_callers r) @ field_faults ''targets'' (ar_targets r)
        @ (case ar_conditions r of None \<Rightarrow> [] | Some c \<Rightarrow> precheck_conditions g PrecheckSync c))"

definition finding_of_fault :: "nat \<Rightarrow> acl_rule \<Rightarrow> rule_fault \<Rightarrow> rule_finding" where
  "finding_of_fault i r f =
     \<lparr>fi_rule_index = i, fi_condition_path = rf_path f, fi_condition_key = rf_key f,
      fi_effect = ar_effect r, fi_sync_resolvable = rf_sync_resolvable f,
      fi_async_resolvable = rf_async_resolvable f\<rparr>"

fun findings_from :: "registries \<Rightarrow> nat \<Rightarrow> acl_rule list \<Rightarrow> rule_finding list" where
  "findings_from g i [] = []"
| "findings_from g i (r # rs) = map (finding_of_fault i r) (rule_faults g r) @ findings_from g (Suc i) rs"

definition acl_validate_rules :: "registries \<Rightarrow> acl \<Rightarrow> rule_finding list" where
  "acl_validate_rules g a = findings_from g 0 (acl_rules a)"

subsection \<open>Lemmas on loading\<close>

lemma load_rule_valid: "load_rule j = Inr r \<Longrightarrow> rule_valid r"
  by (auto simp: load_rule_def rule_valid_def split: option.splits if_splits sum.splits)

definition closed_rule :: "json \<Rightarrow> bool" where
  "closed_rule j \<longleftrightarrow> (case j of
     JObject es \<Rightarrow> bt_get es ''callers'' \<noteq> None \<and> bt_get es ''targets'' \<noteq> None \<and>
       list_all (\<lambda>e. fst e \<in> set rule_keys) es
   | _ \<Rightarrow> False)"

lemma load_rule_closed: "load_rule j = Inr r \<Longrightarrow> closed_rule j"
  by (cases j)
    (auto simp: load_rule_def closed_rule_def reject_unknown_rule_keys_def list_ex_iff list_all_iff
      split: option.splits if_splits sum.splits)

lemma load_rules_all:
  "load_rules i js = Inr rs \<Longrightarrow>
     list_all rule_valid rs \<and> list_all closed_rule js \<and> list_all2 (\<lambda>j r. load_rule j = Inr r) js rs"
  by (induction i js arbitrary: rs rule: load_rules.induct)
    (auto dest: load_rule_valid load_rule_closed split: sum.splits)

lemma load_rules_refused:
  "load_rules i js = Inl (k, e) \<Longrightarrow>
     i \<le> k \<and> k - i < length js \<and> load_rule (js ! (k - i)) = Inl e \<and>
     list_all (\<lambda>j. \<exists>r. load_rule j = Inr r) (take (k - i) js)"
proof (induction i js rule: load_rules.induct)
  case (1 i)
  then show ?case by simp
next
  case (2 i j js)
  show ?case
  proof (cases "load_rule j")
    case (Inl e')
    with 2 show ?thesis by auto
  next
    case (Inr r)
    with 2 have "Suc i \<le> k \<and> k - Suc i < length js \<and> load_rule (js ! (k - Suc i)) = Inl e \<and>
        list_all (\<lambda>j. \<exists>r. load_rule j = Inr r) (take (k - Suc i) js)"
      by (auto split: sum.splits)
    moreover from this have "k - i = Suc (k - Suc i)" by (metis Suc_diff_Suc Suc_le_lessD)
    ultimately show ?thesis using Inr by simp
  qed
qed

lemma acl_load_inv:
  assumes "acl_load path (Parsed raw) = Inr a"
  shows "\<exists>js audit eff a0. value_get raw ''rules'' = Some (JArray js) \<and>
    load_rules 0 js = Inr (acl_rules a) \<and> load_default_effect raw = Inr eff \<and>
    parse_audit_block raw = Inr audit \<and> acl_try_new (acl_rules a) eff None = Inr a0 \<and>
    a = a0\<lparr>acl_yaml_path := Some path, acl_audit_config := audit, acl_audit_sink := audit_sink_new None audit\<rparr>"
proof -
  from assms obtain audit eff js rs a0 where
    l: "parse_audit_block raw = Inr audit" "load_default_effect raw = Inr eff"
      "value_get raw ''rules'' = Some (JArray js)" "load_rules 0 js = Inr rs"
    and t: "acl_try_new rs eff None = Inr a0"
    and a: "a = a0\<lparr>acl_yaml_path := Some path, acl_audit_config := audit,
      acl_audit_sink := audit_sink_new (acl_audit_logger a0) audit\<rparr>"
    by (auto simp: acl_load_def elim!: as_array.elims split: sum.splits option.splits prod.splits)
  from t have "acl_rules a0 = rs" "acl_audit_logger a0 = None"
    by (auto simp: acl_try_new_def acl_new_unchecked_def split: if_splits option.splits)
  with l t a show ?thesis by auto
qed

lemma acl_load_ok: "acl_load path (Parsed raw) = Inr a \<Longrightarrow> acl_ok a"
  using acl_load_inv [of path raw a] acl_try_new_ok by (auto simp: acl_ok_def)

subsection \<open>Lemmas on inert patterns\<close>

lemma star_match_contains: "star_match (=) p v \<Longrightarrow> c \<in> set p \<Longrightarrow> c \<noteq> CHR ''*'' \<Longrightarrow> c \<in> set v"
  by (induction "(=) :: char \<Rightarrow> char \<Rightarrow> bool" p v rule: star_match.induct) (auto split: if_splits)

lemma star_match_all_stars: "list_all (\<lambda>c. c = CHR ''*'') p \<Longrightarrow> p \<noteq> [] \<Longrightarrow> star_match (=) p v"
proof (induction "(=) :: char \<Rightarrow> char \<Rightarrow> bool" p v rule: star_match.induct)
  case (2 p ps)
  then show ?case by (cases ps) auto
next
  case (3 p ps x v)
  then show ?case by auto
qed simp

lemma question_mark_never_matches:
  assumes "CHR ''?'' \<in> set p" and "CHR ''?'' \<notin> set v"
  shows "\<not> match_acl_pattern_with_ctx p v ctx"
proof -
  have "p \<noteq> ''@system''" "p \<noteq> ''@external''" using assms(1) by auto
  moreover have "\<not> match_pattern p v"
    using star_match_contains [of p v "CHR ''?''"] assms by (auto simp: match_pattern_star_match)
  ultimately show ?thesis
    by (simp add: match_acl_pattern_with_ctx_def match_acl_pattern_def external_caller_def)
qed

lemma universal_always_matches:
  assumes "is_universal_pattern p"
  shows "match_acl_pattern_with_ctx p v ctx"
proof -
  have "p \<noteq> ''@system''" "p \<noteq> ''@external''" using assms by (auto simp: is_universal_pattern_def)
  moreover have "match_pattern p v"
    using assms star_match_all_stars [of p v]
    by (simp add: match_pattern_star_match is_universal_pattern_def)
  ultimately show ?thesis
    by (simp add: match_acl_pattern_with_ctx_def match_acl_pattern_def external_caller_def)
qed

lemma never_matches_sound:
  assumes "pattern_shape_fault ps = None" and "pattern_never_matches field ps = Some why"
    and "CHR ''?'' \<notin> set v" and "field = ''targets'' \<Longrightarrow> v \<noteq> ''@external''"
  shows "\<not> match_patterns ps v ctx"
proof (cases "hd ps = ''$not''")
  case True
  with assms(1,2) obtain operand where "ps = [''$not'', operand]" "is_universal_pattern operand"
    by (cases ps; cases "tl ps") (auto simp: pattern_never_matches_def pattern_shape_fault_def nth_opt_def
        split: option.splits if_splits)
  then show ?thesis by (simp add: match_patterns_def universal_always_matches)
next
  case False
  define ops where "ops = (if hd ps = ''$or'' then drop 1 ps else ps)"
  have ext: "\<not> match_acl_pattern_with_ctx ''@external'' v ctx" if "v \<noteq> ''@external''"
    using that by (simp add: match_acl_pattern_with_ctx_def match_acl_pattern_def external_caller_def)
  have "(ops \<noteq> [] \<and> list_all (\<lambda>p. CHR ''?'' \<in> set p) ops) \<or>
      (field = ''targets'' \<and> list_all (\<lambda>p. p = external_caller) ops)"
    using False assms(2) by (auto simp: pattern_never_matches_def ops_def Let_def split: if_splits)
  then have "\<not> list_ex (\<lambda>p. match_acl_pattern_with_ctx p v ctx) ops"
    using question_mark_never_matches [OF _ assms(3)] ext assms(4)
    by (auto simp: list_ex_iff list_all_iff external_caller_def)
  with False show ?thesis by (simp add: match_patterns_def ops_def split: if_splits)
qed

subsection \<open>Lemmas on findings\<close>

lemma findings_from_empty:
  "findings_from g i rs = [] \<longleftrightarrow> list_all (\<lambda>r. rule_faults g r = []) rs"
  by (induction g i rs rule: findings_from.induct) auto

lemma rule_faults_empty:
  "rule_faults g r = [] \<longleftrightarrow>
     field_faults ''callers'' (ar_callers r) = [] \<and> field_faults ''targets'' (ar_targets r) = [] \<and>
     (case ar_conditions r of None \<Rightarrow> True | Some c \<Rightarrow> precheck_conditions g PrecheckSync c = [])"
proof -
  have "sort_key f xs = [] \<longleftrightarrow> xs = []" for f :: "rule_fault \<Rightarrow> string" and xs
    by (metis length_0_conv length_sort)
  then show ?thesis by (simp add: rule_faults_def split: option.splits)
qed

lemma findings_from_index: "f \<in> set (findings_from g i rs) \<Longrightarrow> i \<le> fi_rule_index f"
  by (induction g i rs rule: findings_from.induct) (force simp: finding_of_fault_def)+

definition finding_before :: "rule_finding \<Rightarrow> rule_finding \<Rightarrow> bool" where
  "finding_before f f' \<longleftrightarrow> fi_rule_index f < fi_rule_index f' \<or>
     (fi_rule_index f = fi_rule_index f' \<and> fi_condition_path f \<le> fi_condition_path f')"

lemma rule_faults_sorted: "sorted_wrt finding_before (map (finding_of_fault i r) (rule_faults g r))"
proof -
  have "sorted (map rf_path (rule_faults g r))" by (simp add: rule_faults_def)
  then have "sorted_wrt (\<lambda>f f'. rf_path f \<le> rf_path f') (rule_faults g r)"
    by (simp add: sorted_wrt_map)
  then show ?thesis
    by (auto simp: sorted_wrt_map finding_before_def finding_of_fault_def elim: sorted_wrt_mono_rel [rotated])
qed

lemma findings_sorted: "sorted_wrt finding_before (findings_from g i rs)"
proof (induction g i rs rule: findings_from.induct)
  case (1 g i)
  then show ?case by simp
next
  case (2 g i r rs)
  have "finding_before f f'"
    if "f \<in> set (map (finding_of_fault i r) (rule_faults g r))" "f' \<in> set (findings_from g (Suc i) rs)" for f f'
  proof -
    from findings_from_index [OF that(2)] that(1) show ?thesis
      by (auto simp: finding_before_def finding_of_fault_def)
  qed
  with 2 rule_faults_sorted [of i r g] show ?case by (auto simp: sorted_wrt_append)
qed

subsection \<open>Properties\<close>

text \<open>C25: A file that loads yields an ACL whose default effect and rules are valid, and every raw rule
  of it was an object that names its callers and targets and carries no key outside the closed set.\<close>

theorem loaded_acl_is_valid:
  assumes "acl_load path (Parsed raw) = Inr a"
  shows "acl_ok a \<and> acl_yaml_path a = Some path \<and>
    (\<exists>js. value_get raw ''rules'' = Some (JArray js) \<and> list_all closed_rule js \<and>
      length js = length (acl_rules a))"
  using acl_load_inv [OF assms] acl_load_ok [OF assms]
  by (auto dest!: load_rules_all list_all2_lengthD)

definition sample_document :: json where
  "sample_document = JObject
     [(''audit'', JObject [(''include_denied'', JBool False)]),
      (''default_effect'', JString ''deny''),
      (''rules'', JArray
         [JObject [(''approval'', JString ''required''), (''callers'', JArray [JString ''*'']),
            (''effect'', JString ''allow''), (''targets'', JArray [JString ''db.*''])]])]"

definition loaded_sample :: acl where
  "loaded_sample = (case acl_load ''acl.yaml'' (Parsed sample_document) of Inr a \<Rightarrow> a | Inl _ \<Rightarrow> sample_acl)"

lemma loaded_sample: "acl_load ''acl.yaml'' (Parsed sample_document) = Inr loaded_sample"
proof -
  have "case acl_load ''acl.yaml'' (Parsed sample_document) of Inr a \<Rightarrow> True | Inl _ \<Rightarrow> False"
    by code_simp
  then show ?thesis by (simp add: loaded_sample_def split: sum.splits)
qed

theorem loaded_acl_is_valid_witness:
  "acl_ok loaded_sample \<and> acl_yaml_path loaded_sample = Some ''acl.yaml''"
  using loaded_acl_is_valid [OF loaded_sample] by blast

text \<open>A file with several bad rules is refused for the one of lowest index: every rule before the
  refused one is acceptable on every axis, and the refused one is refused on its own account.\<close>

theorem load_refuses_lowest_index:
  assumes "load_rules 0 js = Inl (k, e)"
  shows "k < length js \<and> load_rule (js ! k) = Inl e \<and>
    list_all (\<lambda>j. \<exists>r. load_rule j = Inr r) (take k js)"
  using load_rules_refused [OF assms] by simp

theorem load_refuses_lowest_index_witness:
  "load_rule ([JNull, JNull] ! 0) = Inl acl_rule_error"
  using load_refuses_lowest_index [of "[JNull, JNull]" 0 acl_rule_error] by (simp add: load_rule_def)

text \<open>The lint for inert patterns is sound: a well-formed pattern array that it reports matches no
  value at all, apart from values that contain a question mark (no module id does) and, for the
  targets field, the sentinel that is never a module id.\<close>

theorem inert_pattern_lint_sound:
  assumes "pattern_shape_fault ps = None" and "pattern_never_matches field ps \<noteq> None"
    and "CHR ''?'' \<notin> set v" and "v \<noteq> ''@external''"
  shows "\<not> match_patterns ps v ctx"
  using assms never_matches_sound by blast

theorem inert_pattern_lint_sound_witness:
  "\<not> match_patterns [''$not'', ''**''] ''db.read'' None"
  by (rule inert_pattern_lint_sound [where field = "''targets''"]) code_simp+

text \<open>C13: An ACL for which \<open>validate_rules\<close> reports nothing has no unevaluable rule. On either path, at a
  call that has a governance projection, with the built-in keys bound to the built-in handlers and host
  handlers that neither panic nor are unready nor answer unevaluable themselves, every rule either matches
  or does not.\<close>

theorem clean_acl_has_no_unevaluable_rule:
  assumes "registries_reachable (aw_registries w)"
    and "builtins_bound SyncMode (aw_registries w)" "builtins_bound AsyncMode (aw_registries w)"
    and "hosts_decide (aw_host w)" and "acl_validate_rules (aw_registries w) a = []"
    and "r \<in> set (acl_rules a)"
  shows "rule_verdict m w (Some proj) caller target ctx r \<noteq> RuleUnevaluable"
proof -
  from assms(5,6) have f: "rule_faults (aw_registries w) r = []"
    by (simp add: acl_validate_rules_def findings_from_empty list_all_iff)
  then have shape: "pattern_shape_fault (ar_callers r) = None" "pattern_shape_fault (ar_targets r) = None"
    by (auto simp: rule_faults_empty field_faults_def split: option.splits)
  have "match_of_outcome (condition_verdict m w (Some proj) ctx c) \<noteq> RuleUnevaluable"
    if c: "ar_conditions r = Some c" for c
  proof -
    from f c have sync: "precheck_conditions (aw_registries w) PrecheckSync c = []"
      by (simp add: rule_faults_empty)
    then have p: "precheck_conditions (aw_registries w) (path_of_mode m) c = []"
      using sync_clean_async_clean(1) [OF refl, of "aw_registries w" "[]" c]
      by (cases m) (simp_all add: precheck_empty path_of_mode_def)
    from sync have "as_object c \<noteq> None" by (cases c) (simp_all add: precheck_empty)
    then obtain es where es: "c = JObject es" by (cases c) auto
    have b: "builtins_bound m (aw_registries w)" using assms(2,3) by (cases m) simp_all
    have "conditions_meaning (env_for w (Some proj) cx) m es \<noteq> Unevaluable" for cx
      by (rule clean_precheck_meaning) (use assms b p es in \<open>simp_all add: env_for_def\<close>)
    then have "condition_verdict m w (Some proj) ctx c \<noteq> Unevaluable"
      using p es by (cases m) (simp_all add: condition_verdict_def path_of_mode_def split: option.splits)
    then show ?thesis by (cases "condition_verdict m w (Some proj) ctx c") auto
  qed
  with shape show ?thesis by (simp add: rule_verdict_conditions split: option.splits)
qed

theorem clean_acl_has_no_unevaluable_rule_witness:
  "\<forall>m. rule_verdict m sample_world (Some []) ''a'' ''db.read'' None (acl_rules loaded_sample ! 0)
     \<noteq> RuleUnevaluable"
proof
  fix m
  show "rule_verdict m sample_world (Some []) ''a'' ''db.read'' None (acl_rules loaded_sample ! 0) \<noteq> RuleUnevaluable"
  proof (rule clean_acl_has_no_unevaluable_rule [OF sample_world_reachable, of loaded_sample])
    show "builtins_bound SyncMode (aw_registries sample_world)" "builtins_bound AsyncMode (aw_registries sample_world)"
      using seeded_bound by (simp_all add: sample_world_def)
    show "hosts_decide (aw_host sample_world)"
      by (simp add: hosts_decide_def sample_world_def sample_env_def run_host_def split: driver.splits)
    show "acl_validate_rules (aw_registries sample_world) loaded_sample = []" by code_simp
    have "length (acl_rules loaded_sample) = 1" by code_simp
    then show "acl_rules loaded_sample ! 0 \<in> set (acl_rules loaded_sample)" by simp
  qed
qed

subsection \<open>Every access list in use is valid\<close>

text \<open>The states an ACL can reach: made in code or loaded from a file, extended, pruned, reconfigured,
  consulted, and loaded again.\<close>

inductive acl_live :: "acl \<Rightarrow> bool" where
  live_made: "acl_try_new rs eff logger = Inr a \<Longrightarrow> acl_live a"
| live_loaded: "acl_load path file = Inr a \<Longrightarrow> acl_live a"
| live_added: "acl_live a \<Longrightarrow> acl_try_add_rule r a = Inr a' \<Longrightarrow> acl_live a'"
| live_removed: "acl_live a \<Longrightarrow> acl_live (snd (acl_remove_rule_with_conditions cs ts c a))"
| live_logger_set: "acl_live a \<Longrightarrow> acl_live (acl_set_audit_logger l a)"
| live_config_set: "acl_live a \<Longrightarrow> acl_live (acl_set_audit_config cfg a)"
| live_checked: "acl_live a \<Longrightarrow> acl_live (fst (snd (run_check w cb a q)))"
| live_reloaded: "acl_live a \<Longrightarrow> acl_reload files a = Inr a' \<Longrightarrow> acl_live a'"

lemma acl_load_only_ok: "acl_load path doc = Inr a \<Longrightarrow> acl_ok a"
  using acl_load_ok by (cases doc) (simp_all add: acl_load_def)

lemma acl_reload_ok: "acl_reload files a = Inr a' \<Longrightarrow> acl_ok a'"
  using acl_load_only_ok by (auto simp: acl_reload_def acl_ok_def split: option.splits sum.splits)

lemma acl_live_ok: "acl_live a \<Longrightarrow> acl_ok a"
proof (induction rule: acl_live.induct)
  case (live_checked a w cb q)
  then show ?case by (simp add: acl_ok_def run_check_def)
next
  case (live_logger_set a l)
  then show ?case by (simp add: acl_ok_def acl_set_audit_logger_def)
next
  case (live_config_set a cfg)
  then show ?case by (simp add: acl_ok_def acl_set_audit_config_def)
qed (blast intro: acl_try_new_ok acl_try_add_rule_ok acl_remove_rule_ok acl_load_only_ok acl_reload_ok)+

text \<open>A pattern array as the documentation describes it: not empty and without empty patterns, an operator
  only in front, \<open>$or\<close> over at least one pattern and \<open>$not\<close> over exactly one.\<close>

definition well_shaped :: "string list \<Rightarrow> bool" where
  "well_shaped ps \<longleftrightarrow>
     (\<exists>p qs. ps = p # qs \<and> [] \<notin> set ps \<and> ''$or'' \<notin> set qs \<and> ''$not'' \<notin> set qs \<and>
        (p = ''$or'' \<longrightarrow> qs \<noteq> []) \<and> (p = ''$not'' \<longrightarrow> (\<exists>q. qs = [q])))"

lemma position_None: "position P xs = None \<longleftrightarrow> (\<forall>x \<in> set xs. \<not> P x)"
  by (induction xs) auto

lemma shape_ok: "pattern_shape_fault ps = None \<longleftrightarrow> well_shaped ps"
proof (cases ps)
  case (Cons p qs)
  define e where "e = position (\<lambda>p. p = []) ps"
  define f where "f = position (\<lambda>p. p \<in> set pattern_operators) qs"
  have "pattern_shape_fault ps = None \<longleftrightarrow>
      e = None \<and> f = None \<and> \<not> (p = ''$or'' \<and> length ps < 2) \<and> \<not> (p = ''$not'' \<and> length ps \<noteq> 2)"
  proof -
    have "pattern_shape_fault ps =
        (case e of
           Some i \<Rightarrow> Some (EmptyElement i)
         | None \<Rightarrow>
             (case f of
                Some i \<Rightarrow> Some (OperatorNotFirst (i + 1))
              | None \<Rightarrow>
                  if p = ''$or'' \<and> length ps < 2 then Some OrOverNothing
                  else if p = ''$not'' \<and> length ps \<noteq> 2 then Some (NotArity (length ps - 1)) else None))"
      unfolding pattern_shape_fault_def e_def f_def Cons by (simp only: list.distinct if_False One_nat_def drop_Suc drop_0 list.sel)
    then show ?thesis by (cases e; cases f) simp_all
  qed
  moreover have "e = None \<longleftrightarrow> [] \<notin> set ps" by (auto simp: e_def position_None)
  moreover have "f = None \<longleftrightarrow> ''$or'' \<notin> set qs \<and> ''$not'' \<notin> set qs"
    by (auto simp: f_def position_None pattern_operators_def)
  ultimately show ?thesis unfolding Cons by (cases qs; cases "tl qs") (auto simp: well_shaped_def)
qed (simp add: pattern_shape_fault_def well_shaped_def)

text \<open>Every ACL in use holds only valid rules. However it was made, loaded, extended, pruned, reconfigured,
  consulted and reloaded, the default effect and the effect of every rule are \<open>allow\<close> or \<open>deny\<close>, no
  denying rule requires approval, and the caller and target patterns of every rule are well formed.\<close>

theorem live_acl_rules_are_valid:
  assumes "acl_live a"
  shows "acl_default_effect a \<in> {''allow'', ''deny''} \<and>
    list_all (\<lambda>r. ar_effect r \<in> {''allow'', ''deny''} \<and> \<not> (ar_effect r = ''deny'' \<and> ar_approval r = Some Required) \<and>
      well_shaped (ar_callers r) \<and> well_shaped (ar_targets r)) (acl_rules a)"
proof -
  from acl_live_ok [OF assms] have "acl_default_effect a \<in> set effects" and rs: "list_all rule_valid (acl_rules a)"
    by (simp_all add: acl_ok_def)
  then have "acl_default_effect a \<in> {''allow'', ''deny''}" by (simp add: effects_def)
  moreover have "list_all (\<lambda>r. ar_effect r \<in> {''allow'', ''deny''} \<and> \<not> (ar_effect r = ''deny'' \<and> ar_approval r = Some Required) \<and>
      well_shaped (ar_callers r) \<and> well_shaped (ar_targets r)) (acl_rules a)"
    using rs by (rule list.pred_mono_strong) (use rule_valid_shape shape_ok in blast)
  ultimately show ?thesis by (rule conjI)
qed

theorem live_acl_rules_are_valid_witness:
  "well_shaped (ar_targets (hd (acl_rules loaded_sample))) \<and> acl_default_effect loaded_sample \<in> {''allow'', ''deny''}"
proof -
  have "acl_live loaded_sample" using loaded_sample by (rule live_loaded)
  moreover have "acl_rules loaded_sample \<noteq> []" by code_simp
  ultimately show ?thesis using live_acl_rules_are_valid [of loaded_sample] by (cases "acl_rules loaded_sample") auto
qed

text \<open>The findings of \<open>validate_rules\<close> come ordered by rule index and, within a rule, by
  condition path, whichever walk produced them.\<close>

theorem findings_are_ordered: "sorted_wrt finding_before (acl_validate_rules g a)"
  by (simp add: acl_validate_rules_def findings_sorted)

end
