(* ===== verification/Versions.thy ===== *)
theory Versions
  imports Errors
begin

section \<open>Versions: semver, constraints, selection and the versioned store\<close>

text \<open>
  \<open>src/src/registry/version.rs\<close>. A version is a triple of \<open>u64\<close> components; a numeric
  prefix that does not fit 64 bits parses as nothing, hence as 0, and the bound \<open>major + 1\<close> wraps as
  it does in a release build. \<open>str::trim\<close> strips the white space of the first 256 code points. The
  two-level hash map of the versioned store is an ordered map of ordered maps; where the code sorts
  keys of equal semver, their order is that of the keys here and that of the hash map in the code.
\<close>

subsection \<open>Parsing\<close>

type_synonym semver = "nat \<times> nat \<times> nat"

definition fits_u64 :: "nat \<Rightarrow> bool" where
  "fits_u64 n \<longleftrightarrow> int n < 2 ^ 64"

definition u64_succ :: "nat \<Rightarrow> nat" where
  "u64_succ n = (if fits_u64 (Suc n) then Suc n else 0)"

definition is_whitespace :: "char \<Rightarrow> bool" where
  "is_whitespace c \<longleftrightarrow>
     (of_char c \<ge> (9 :: nat) \<and> of_char c \<le> (13 :: nat)) \<or> of_char c = (32 :: nat) \<or>
     of_char c = (133 :: nat) \<or> of_char c = (160 :: nat)"

definition trim :: "string \<Rightarrow> string" where
  "trim s = rev (dropWhile is_whitespace (rev (dropWhile is_whitespace s)))"

fun digits_value :: "nat \<Rightarrow> string \<Rightarrow> nat" where
  "digits_value acc [] = acc"
| "digits_value acc (c # cs) = digits_value (10 * acc + (of_char c - 48)) cs"

definition parse_numeric_prefix :: "string \<Rightarrow> nat option" where
  "parse_numeric_prefix s =
     (let numeric = takeWhile is_ascii_digit s in
      if numeric = [] then None
      else let n = digits_value 0 numeric in if fits_u64 n then Some n else None)"

text \<open>\<open>splitn(3, '.')\<close>: the third piece keeps the rest of the string.\<close>

definition split_once :: "string \<Rightarrow> string \<times> string option" where
  "split_once s =
     (let a = takeWhile (\<lambda>c. c \<noteq> CHR ''.'') s; r = dropWhile (\<lambda>c. c \<noteq> CHR ''.'') s
      in (a, if r = [] then None else Some (tl r)))"

definition component :: "string option \<Rightarrow> nat" where
  "component p =
     (case Option.bind p parse_numeric_prefix of None \<Rightarrow> 0 | Some n \<Rightarrow> n)"

definition parse_semver :: "string \<Rightarrow> semver" where
  "parse_semver version =
     (let (p1, r1) = split_once (trim version);
          (p2, p3) = (case r1 of None \<Rightarrow> (None, None)
                      | Some r \<Rightarrow> (case split_once r of (a, b) \<Rightarrow> (Some a, b)))
      in (component (Some p1), component p2, component p3))"

subsection \<open>Constraints\<close>

fun sv_less :: "semver \<Rightarrow> semver \<Rightarrow> bool" where
  "sv_less (a, b, c) (a', b', c') \<longleftrightarrow> a < a' \<or> (a = a' \<and> (b < b' \<or> (b = b' \<and> c < c')))"

definition sv_le :: "semver \<Rightarrow> semver \<Rightarrow> bool" where
  "sv_le x y \<longleftrightarrow> \<not> sv_less y x"

fun caret_upper_bound :: "semver \<Rightarrow> semver" where
  "caret_upper_bound (major, minor, patch) =
     (if major > 0 then (u64_succ major, 0, 0)
      else if minor > 0 then (0, u64_succ minor, 0)
      else (0, 0, u64_succ patch))"

fun tilde_upper_bound :: "semver \<Rightarrow> nat \<Rightarrow> semver" where
  "tilde_upper_bound (major, minor, patch) part_count =
     (if part_count \<ge> 2 then (major, u64_succ minor, 0) else (u64_succ major, 0, 0))"

datatype constraint_fault = EmptyConstraint | BadOperand

definition reason_json :: "constraint_fault \<Rightarrow> json" where
  "reason_json r = JString (case r of
     EmptyConstraint \<Rightarrow> ''empty constraint''
   | BadOperand \<Rightarrow> ''operand must start with a digit (e.g., '' @ [CHR 0x27] @ ''1.2.3'' @ [CHR 0x27]
       @ '', not '' @ [CHR 0x27] @ ''v1.2.3'' @ [CHR 0x27] @ '' or '' @ [CHR 0x27] @ ''latest''
       @ [CHR 0x27] @ '')'')"

definition version_constraint_error :: "string \<Rightarrow> constraint_fault \<Rightarrow> module_error" where
  "version_constraint_error c r =
     with_details (details_of [(''constraint'', JString c), (''reason'', reason_json r)])
       (module_error_new VersionConstraintInvalid)"

datatype version_op = OpGe | OpLe | OpGt | OpLt | OpCaret | OpTilde | OpEq

definition split_operator :: "string \<Rightarrow> version_op \<times> string" where
  "split_operator s =
     (if prefix ''>='' s then (OpGe, drop 2 s)
      else if prefix ''<='' s then (OpLe, drop 2 s)
      else if prefix ''>'' s then (OpGt, drop 1 s)
      else if prefix ''<'' s then (OpLt, drop 1 s)
      else if prefix ''^'' s then (OpCaret, drop 1 s)
      else if prefix ''~'' s then (OpTilde, drop 1 s)
      else if prefix ''='' s then (OpEq, drop 1 s)
      else (OpEq, s))"

definition operand_char :: "char \<Rightarrow> bool" where
  "operand_char c \<longleftrightarrow> is_ascii_alnum c \<or> c \<in> {CHR ''.'', CHR ''-'', CHR ''+'', CHR ''_''}"

definition valid_operand :: "string \<Rightarrow> bool" where
  "valid_operand s \<longleftrightarrow> s \<noteq> [] \<and> is_ascii_digit (hd s) \<and> list_all operand_char s"

definition split_constraint :: "string \<Rightarrow> module_error + version_op \<times> string" where
  "split_constraint constraint =
     (let trimmed = trim constraint in
      if trimmed = [] then Inl (version_constraint_error [] EmptyConstraint)
      else let (op, operand) = split_operator trimmed in
        if valid_operand operand then Inr (op, operand)
        else Inl (version_constraint_error trimmed BadOperand))"

definition satisfies :: "semver \<Rightarrow> version_op \<Rightarrow> semver \<Rightarrow> nat \<Rightarrow> bool" where
  "satisfies v op target part_count =
     (case op of
        OpCaret \<Rightarrow> sv_le target v \<and> sv_less v (caret_upper_bound target)
      | OpTilde \<Rightarrow> sv_le target v \<and> sv_less v (tilde_upper_bound target part_count)
      | OpEq \<Rightarrow>
          if part_count = 1 then fst v = fst target
          else if part_count = 2 then fst v = fst target \<and> fst (snd v) = fst (snd target)
          else v = target
      | OpGe \<Rightarrow> sv_le target v
      | OpGt \<Rightarrow> sv_less target v
      | OpLe \<Rightarrow> sv_le v target
      | OpLt \<Rightarrow> sv_less v target)"

definition check_single_constraint :: "semver \<Rightarrow> string \<Rightarrow> module_error + bool" where
  "check_single_constraint v constraint =
     (case split_constraint constraint of
        Inl e \<Rightarrow> Inl e
      | Inr (op, target_str) \<Rightarrow>
          Inr (satisfies v op (parse_semver target_str)
                 (length (split_on (CHR ''.'') (trim target_str)))))"

fun check_constraints :: "semver \<Rightarrow> string list \<Rightarrow> module_error + bool" where
  "check_constraints v [] = Inr True"
| "check_constraints v (c # cs) =
     (case check_single_constraint v (trim c) of
        Inl e \<Rightarrow> Inl e
      | Inr b \<Rightarrow> if \<not> b then Inr False else check_constraints v cs)"

definition try_matches_version_hint :: "string \<Rightarrow> string \<Rightarrow> module_error + bool" where
  "try_matches_version_hint version hint =
     check_constraints (parse_semver version) (split_on (CHR '','') hint)"

definition matches_version_hint :: "string \<Rightarrow> string \<Rightarrow> bool" where
  "matches_version_hint version hint =
     (case try_matches_version_hint version hint of Inr b \<Rightarrow> b | Inl _ \<Rightarrow> False)"

subsection \<open>Selection\<close>

text \<open>\<open>sort_by_key(parse_semver)\<close>: a stable sort on the version triple.\<close>

fun insert_version :: "string \<Rightarrow> string list \<Rightarrow> string list" where
  "insert_version v [] = [v]"
| "insert_version v (w # ws) =
     (if sv_le (parse_semver v) (parse_semver w) then v # w # ws else w # insert_version v ws)"

definition sort_versions :: "string list \<Rightarrow> string list" where
  "sort_versions vs = foldr insert_version vs []"

fun first_match :: "string list \<Rightarrow> string \<Rightarrow> module_error + string option" where
  "first_match [] hint = Inr None"
| "first_match (v # vs) hint =
     (case try_matches_version_hint v hint of
        Inl e \<Rightarrow> Inl e
      | Inr b \<Rightarrow> if b then Inr (Some v) else first_match vs hint)"

definition try_select_best_version :: "string list \<Rightarrow> string option \<Rightarrow> module_error + string option" where
  "try_select_best_version versions hint =
     (if versions = [] then Inr None
      else let sorted = sort_versions versions in
        case hint of
          None \<Rightarrow> Inr (Some (last sorted))
        | Some h \<Rightarrow> first_match (rev sorted) h)"

definition select_best_version :: "string list \<Rightarrow> string option \<Rightarrow> string option" where
  "select_best_version versions hint =
     (case try_select_best_version versions hint of Inr r \<Rightarrow> r | Inl _ \<Rightarrow> None)"

subsection \<open>The versioned store\<close>

type_synonym 'a versioned_store = "(string \<times> (string \<times> 'a) list) list"

definition vs_versions :: "'a versioned_store \<Rightarrow> string \<Rightarrow> (string \<times> 'a) list" where
  "vs_versions st i = (case bt_get st i of None \<Rightarrow> [] | Some vs \<Rightarrow> vs)"

definition vs_add :: "string \<Rightarrow> string \<Rightarrow> 'a \<Rightarrow> 'a versioned_store \<Rightarrow> 'a versioned_store" where
  "vs_add i v x st = bt_insert i (bt_insert v x (vs_versions st i)) st"

definition vs_get :: "'a versioned_store \<Rightarrow> string \<Rightarrow> string \<Rightarrow> 'a option" where
  "vs_get st i v = Option.bind (bt_get st i) (\<lambda>vs. bt_get vs v)"

definition vs_try_resolve :: "'a versioned_store \<Rightarrow> string \<Rightarrow> string option \<Rightarrow> module_error + 'a option" where
  "vs_try_resolve st i hint =
     (case bt_get st i of
        None \<Rightarrow> Inr None
      | Some vs \<Rightarrow>
          (case try_select_best_version (map fst vs) hint of
             Inl e \<Rightarrow> Inl e
           | Inr None \<Rightarrow> Inr None
           | Inr (Some best) \<Rightarrow> Inr (bt_get vs best)))"

definition vs_resolve :: "'a versioned_store \<Rightarrow> string \<Rightarrow> string option \<Rightarrow> 'a option" where
  "vs_resolve st i hint =
     Option.bind (bt_get st i) (\<lambda>vs.
       Option.bind (select_best_version (map fst vs) hint) (\<lambda>best. bt_get vs best))"

definition vs_get_latest :: "'a versioned_store \<Rightarrow> string \<Rightarrow> 'a option" where
  "vs_get_latest st i =
     Option.bind (bt_get st i) (\<lambda>vs.
       Option.bind (select_best_version (map fst vs) None) (\<lambda>best. bt_get vs best))"

definition vs_list_versions :: "'a versioned_store \<Rightarrow> string \<Rightarrow> string list" where
  "vs_list_versions st i =
     (case bt_get st i of Some vs \<Rightarrow> sort_versions (map fst vs) | None \<Rightarrow> [])"

definition vs_list_ids :: "'a versioned_store \<Rightarrow> string list" where
  "vs_list_ids st = map fst st"

definition vs_remove :: "string \<Rightarrow> string \<Rightarrow> 'a versioned_store \<Rightarrow> 'a option \<times> 'a versioned_store" where
  "vs_remove i v st =
     (case bt_get st i of
        None \<Rightarrow> (None, st)
      | Some vs \<Rightarrow>
          let vs' = bt_remove v vs
          in (bt_get vs v, if vs' = [] then bt_remove i st else bt_insert i vs' st))"

definition vs_remove_all :: "string \<Rightarrow> 'a versioned_store \<Rightarrow> (string \<times> 'a) list \<times> 'a versioned_store" where
  "vs_remove_all i st = (vs_versions st i, bt_remove i st)"

definition vs_has :: "'a versioned_store \<Rightarrow> string \<Rightarrow> bool" where
  "vs_has st i = (case bt_get st i of None \<Rightarrow> False | Some vs \<Rightarrow> vs \<noteq> [])"

definition vs_has_version :: "'a versioned_store \<Rightarrow> string \<Rightarrow> string \<Rightarrow> bool" where
  "vs_has_version st i v = (case bt_get st i of None \<Rightarrow> False | Some vs \<Rightarrow> bt_get vs v \<noteq> None)"

subsection \<open>Lemmas on constraints and selection\<close>

lemma sv_less_irrefl [simp]: "\<not> sv_less x x"
  by (cases x) auto

lemma sv_less_trans: "sv_less x y \<Longrightarrow> sv_less y z \<Longrightarrow> sv_less x z"
  by (cases x; cases y; cases z) auto

lemma sv_le_trans: "sv_le x y \<Longrightarrow> sv_le y z \<Longrightarrow> sv_le x z"
  by (cases x; cases y; cases z) (auto simp: sv_le_def)

lemma sv_le_refl [simp]: "sv_le x x"
  by (simp add: sv_le_def)

lemma sv_le_total: "sv_le x y \<or> sv_le y x"
  by (cases x; cases y) (auto simp: sv_le_def)

lemma check_constraints_true:
  "check_constraints v cs = Inr True \<longleftrightarrow> list_all (\<lambda>c. check_single_constraint v (trim c) = Inr True) cs"
  by (induction v cs rule: check_constraints.induct) (auto split: sum.splits)

lemma check_single_true:
  "check_single_constraint v c = Inr True \<longleftrightarrow>
     (\<exists>op operand. split_constraint c = Inr (op, operand) \<and>
        satisfies v op (parse_semver operand) (length (split_on (CHR ''.'') (trim operand))))"
  by (auto simp: check_single_constraint_def split: sum.splits)

lemma u64_succ_le: "u64_succ n \<le> Suc n"
  by (simp add: u64_succ_def)

lemma caret_bound:
  "sv_le (a, b, c) v \<Longrightarrow> sv_less v (caret_upper_bound (a, b, c)) \<Longrightarrow>
     fst v = a \<and> (a = 0 \<longrightarrow> fst (snd v) = b \<and> (b = 0 \<longrightarrow> snd (snd v) = c))"
  using u64_succ_le [of a] u64_succ_le [of b] u64_succ_le [of c]
  by (cases v) (auto simp: sv_le_def split: if_splits)

lemma insert_version_set: "set (insert_version v ws) = insert v (set ws)"
  by (induction v ws rule: insert_version.induct) auto

definition versions_sorted :: "string list \<Rightarrow> bool" where
  "versions_sorted vs \<longleftrightarrow> sorted_wrt (\<lambda>v w. sv_le (parse_semver v) (parse_semver w)) vs"

lemma insert_version_sorted: "versions_sorted ws \<Longrightarrow> versions_sorted (insert_version v ws)"
proof (induction v ws rule: insert_version.induct)
  case (1 v)
  then show ?case by (simp add: versions_sorted_def)
next
  case (2 v w ws)
  show ?case
  proof (cases "sv_le (parse_semver v) (parse_semver w)")
    case True
    with 2 show ?thesis by (auto simp: versions_sorted_def intro: sv_le_trans)
  next
    case False
    with 2 sv_le_total [of "parse_semver v" "parse_semver w"] show ?thesis
      by (auto simp: versions_sorted_def insert_version_set)
  qed
qed

lemma sort_versions_set: "set (sort_versions vs) = set vs"
  unfolding sort_versions_def by (induction vs) (auto simp: insert_version_set)

lemma sort_versions_sorted: "versions_sorted (sort_versions vs)"
  unfolding sort_versions_def
  by (induction vs) (simp_all add: insert_version_sorted, simp add: versions_sorted_def)

lemma sorted_last_max:
  "versions_sorted vs \<Longrightarrow> w \<in> set vs \<Longrightarrow> sv_le (parse_semver w) (parse_semver (last vs))"
  by (induction vs) (auto simp: versions_sorted_def)

lemma first_match_Some:
  "first_match vs h = Inr (Some v) \<Longrightarrow>
     \<exists>pre post. vs = pre @ v # post \<and> try_matches_version_hint v h = Inr True \<and>
       list_all (\<lambda>w. try_matches_version_hint w h = Inr False) pre"
proof (induction vs)
  case Nil
  then show ?case by simp
next
  case (Cons u vs)
  show ?case
  proof (cases "try_matches_version_hint u h = Inr True")
    case True
    with Cons.prems have "v = u" by simp
    with True show ?thesis by (intro exI [of _ "[]"] exI [of _ vs]) simp
  next
    case False
    with Cons.prems have u: "try_matches_version_hint u h = Inr False"
      and rest: "first_match vs h = Inr (Some v)"
      by (auto split: sum.splits if_splits)
    from Cons.IH [OF rest] obtain pre post where "vs = pre @ v # post"
      "try_matches_version_hint v h = Inr True"
      "list_all (\<lambda>w. try_matches_version_hint w h = Inr False) pre" by blast
    with u show ?thesis by (intro exI [of _ "u # pre"] exI [of _ post]) simp
  qed
qed

lemma select_max:
  assumes "try_select_best_version vs hint = Inr (Some v)"
  shows "v \<in> set vs \<and> (\<forall>h. hint = Some h \<longrightarrow> matches_version_hint v h) \<and>
    (\<forall>w \<in> set vs. (\<forall>h. hint = Some h \<longrightarrow> matches_version_hint w h) \<longrightarrow>
       sv_le (parse_semver w) (parse_semver v))"
proof (cases hint)
  case None
  with assms have "vs \<noteq> []" "v = last (sort_versions vs)"
    by (auto simp: try_select_best_version_def Let_def split: if_splits)
  moreover from this have "sort_versions vs \<noteq> []" by (metis sort_versions_set set_empty)
  ultimately show ?thesis
    using None sorted_last_max [OF sort_versions_sorted, of _ vs] last_in_set [of "sort_versions vs"]
    by (simp add: sort_versions_set)
next
  case (Some h)
  with assms have "first_match (rev (sort_versions vs)) h = Inr (Some v)"
    by (auto simp: try_select_best_version_def Let_def split: if_splits)
  then obtain pre post where r: "rev (sort_versions vs) = pre @ v # post"
    and v: "try_matches_version_hint v h = Inr True"
    and pre: "list_all (\<lambda>w. try_matches_version_hint w h = Inr False) pre"
    using first_match_Some by blast
  from r have s: "sort_versions vs = rev post @ v # rev pre"
    by (metis append.assoc append_Cons append_Nil rev.simps(2) rev_append rev_rev_ident)
  have "sv_le (parse_semver w) (parse_semver v)" if "w \<in> set vs" "matches_version_hint w h" for w
  proof -
    have "w \<notin> set pre" using pre that(2) by (auto simp: list_all_iff matches_version_hint_def)
    with that(1) s have "w \<in> set post \<or> w = v" by (metis Un_iff set_append set_rev set_ConsD sort_versions_set)
    with sort_versions_sorted [of vs] s show ?thesis
      by (auto simp: versions_sorted_def sorted_wrt_append)
  qed
  moreover have "v \<in> set vs" using s by (metis in_set_conv_decomp sort_versions_set)
  ultimately show ?thesis using Some v by (simp add: matches_version_hint_def)
qed

subsection \<open>Lemmas on the store\<close>

text \<open>Both levels are ordered maps and no module is kept without a version.\<close>

definition vs_ok :: "'a versioned_store \<Rightarrow> bool" where
  "vs_ok st \<longleftrightarrow> bt_ok st \<and> list_all (\<lambda>e. bt_ok (snd e) \<and> snd e \<noteq> []) st"

lemma vs_ok_entry: "vs_ok st \<Longrightarrow> bt_get st i = Some vs \<Longrightarrow> bt_ok vs \<and> vs \<noteq> []"
  by (auto simp: vs_ok_def list_all_iff bt_get_entry)

lemma vs_versions_ok: "vs_ok st \<Longrightarrow> bt_ok (vs_versions st i)"
  by (auto simp: vs_versions_def dest: vs_ok_entry split: option.splits)

lemma bt_insert_not_Nil: "bt_insert k v m \<noteq> []"
  by (induction k v m rule: bt_insert.induct) auto

lemma vs_get_add:
  "vs_ok st \<Longrightarrow> vs_get (vs_add i v x st) i' v' = (if i' = i \<and> v' = v then Some x else vs_get st i' v')"
  using vs_versions_ok [of st i]
  by (auto simp: vs_get_def vs_add_def vs_ok_def bt.get_ins vs_versions_def split: option.splits)

lemma vs_ok_add: "vs_ok st \<Longrightarrow> vs_ok (vs_add i v x st)"
  using vs_versions_ok [of st i] set_bt_insert_sub [of i "bt_insert v x (vs_versions st i)" st]
  by (auto simp: vs_add_def vs_ok_def bt.ok_ins list_all_iff bt_insert_not_Nil)

lemma vs_get_remove:
  assumes "vs_ok st"
  shows "vs_get (snd (vs_remove i v st)) i' v' = (if i' = i \<and> v' = v then None else vs_get st i' v')"
proof (cases "bt_get st i")
  case None
  then show ?thesis by (auto simp: vs_remove_def vs_get_def)
next
  case (Some vs)
  have r: "bt_get (bt_remove v vs) v' = (if v' = v then None else bt_get vs v')"
    by (rule bt_get_remove)
  show ?thesis
  proof (cases "bt_remove v vs = []")
    case True
    with r have "v' \<noteq> v \<Longrightarrow> bt_get vs v' = None" by (metis bt_get_Nil)
    with True Some assms show ?thesis
      by (auto simp: vs_remove_def vs_get_def bt_get_remove)
  next
    case False
    with r Some assms show ?thesis
      by (auto simp: vs_remove_def vs_get_def Let_def vs_ok_def bt.get_ins)
  qed
qed

lemma vs_ok_remove:
  assumes "vs_ok st"
  shows "vs_ok (snd (vs_remove i v st))"
proof (cases "bt_get st i")
  case None
  with assms show ?thesis by (simp add: vs_remove_def)
next
  case (Some vs)
  with assms vs_ok_entry [OF assms Some] set_bt_insert_sub [of i "bt_remove v vs" st] show ?thesis
    by (auto simp: vs_remove_def Let_def vs_ok_def bt.ok_ins bt_ok_remove list_all_iff)
      (auto simp: bt_remove_def)
qed

text \<open>The store is a map from pairs of module id and version.\<close>

interpretation vs: key_value_map
    "\<lambda>(i, v). vs_add i v" "\<lambda>st (i, v). vs_get st i v" "\<lambda>(i, v) st. snd (vs_remove i v st)" vs_ok
  by unfold_locales (auto simp: vs_get_add vs_get_remove vs_ok_add vs_ok_remove split: prod.splits if_splits)

lemma vs_has_iff: "vs_ok st \<Longrightarrow> vs_has st i \<longleftrightarrow> (\<exists>v. vs_get st i v \<noteq> None)"
proof (cases "bt_get st i")
  case None
  then show ?thesis by (simp add: vs_has_def vs_get_def)
next
  case (Some vs)
  assume "vs_ok st"
  with Some have "bt_ok vs" "vs \<noteq> []" using vs_ok_entry by blast+
  then obtain v x where "(v, x) \<in> set vs" by (metis list.set_intros(1) neq_Nil_conv surj_pair)
  with \<open>bt_ok vs\<close> have "bt_get vs v = Some x" by (simp add: bt_get_entry)
  with Some \<open>vs \<noteq> []\<close> show ?thesis by (auto simp: vs_has_def vs_get_def)
qed

inductive vs_reachable :: "'a versioned_store \<Rightarrow> bool" where
  vs_empty: "vs_reachable []"
| vs_added: "vs_reachable st \<Longrightarrow> vs_reachable (vs_add i v x st)"
| vs_removed: "vs_reachable st \<Longrightarrow> vs_reachable (snd (vs_remove i v st))"
| vs_all_removed: "vs_reachable st \<Longrightarrow> vs_reachable (snd (vs_remove_all i st))"

lemma vs_ok_remove_all: "vs_ok st \<Longrightarrow> vs_ok (snd (vs_remove_all i st))"
  by (auto simp: vs_remove_all_def vs_ok_def bt_ok_remove list_all_iff) (auto simp: bt_remove_def)

lemma vs_reachable_ok: "vs_reachable st \<Longrightarrow> vs_ok st"
  by (induction rule: vs_reachable.induct)
    (simp_all add: vs_ok_add vs_ok_remove vs_ok_remove_all, simp add: vs_ok_def)

subsection \<open>Properties\<close>

text \<open>A version hint is matched exactly when every one of its comma-separated constraints is well
  formed and is satisfied by the version: a malformed constraint, wherever it stands in the hint, makes
  the hint unsatisfied and never silently satisfied.\<close>

theorem version_hint_fails_closed:
  "matches_version_hint v hint \<longleftrightarrow>
     list_all (\<lambda>c. \<exists>op operand. split_constraint (trim c) = Inr (op, operand) \<and>
       satisfies (parse_semver v) op (parse_semver operand) (length (split_on (CHR ''.'') (trim operand))))
     (split_on (CHR '','') hint)"
proof -
  have "matches_version_hint v hint \<longleftrightarrow>
      check_constraints (parse_semver v) (split_on (CHR '','') hint) = Inr True"
    by (auto simp: matches_version_hint_def try_matches_version_hint_def split: sum.splits)
  then show ?thesis by (simp add: check_constraints_true check_single_true)
qed

text \<open>A caret constraint never crosses the leftmost non-zero component: a version that satisfies
  \<open>^a.b.c\<close> has the same major version, for major version 0 the same minor version, and for 0.0 the same
  patch; also at the largest component, where the exclusive bound wraps.\<close>

theorem caret_is_compatible:
  assumes "satisfies v OpCaret (a, b, c) n"
  shows "fst v = a \<and> (a = 0 \<longrightarrow> fst (snd v) = b \<and> (b = 0 \<longrightarrow> snd (snd v) = c))"
  using assms caret_bound [of a b c v] by (simp add: satisfies_def)

theorem caret_is_compatible_witness:
  "fst (snd (parse_semver ''0.2.9'')) = fst (snd (parse_semver ''0.2.3''))"
  using caret_is_compatible [of "parse_semver ''0.2.9''" 0 2 3 3]
proof -
  have "satisfies (parse_semver ''0.2.9'') OpCaret (0, 2, 3) 3"
    "parse_semver ''0.2.3'' = (0, 2, 3)" "parse_semver ''0.2.9'' = (0, 2, 9)"
    by code_simp+
  with caret_is_compatible [of "parse_semver ''0.2.9''" 0 2 3 3] show ?thesis by simp
qed

text \<open>Selection picks one of the given versions, one that matches the hint if there is a hint, and
  none of the given versions that match is higher.\<close>

theorem selected_version_is_best:
  assumes "try_select_best_version vs hint = Inr (Some v)"
  shows "v \<in> set vs \<and> (\<forall>h. hint = Some h \<longrightarrow> matches_version_hint v h) \<and>
    (\<forall>w \<in> set vs. (\<forall>h. hint = Some h \<longrightarrow> matches_version_hint w h) \<longrightarrow>
       sv_le (parse_semver w) (parse_semver v))"
  by (rule select_max [OF assms])

theorem selected_version_is_best_witness:
  "matches_version_hint ''1.4.0'' ''^1.2.0''"
proof -
  have "try_select_best_version [''1.0.0'', ''1.4.0'', ''2.0.0'', ''1.3.9''] (Some ''^1.2.0'') =
      Inr (Some ''1.4.0'')"
    by code_simp
  from selected_version_is_best [OF this] show ?thesis by simp
qed

text \<open>The versioned store is a map from pairs of module id and version: looking up after an
  insertion or a removal gives what a finite map gives, a module is listed exactly when it has a
  version, and its listed versions ascend.\<close>

theorem versioned_store_is_a_map:
  assumes "vs_reachable st"
  shows "vs_get (vs_add i v x st) = (\<lambda>i' v'. if i' = i \<and> v' = v then Some x else vs_get st i' v')
    \<and> vs_get (snd (vs_remove i v st)) = (\<lambda>i' v'. if i' = i \<and> v' = v then None else vs_get st i' v')
    \<and> (vs_has st i \<longleftrightarrow> i \<in> set (vs_list_ids st)) \<and> (vs_has st i \<longleftrightarrow> (\<exists>w. vs_get st i w \<noteq> None))
    \<and> versions_sorted (vs_list_versions st i)"
proof -
  note ok = vs_reachable_ok [OF assms]
  have "vs_has st i \<longleftrightarrow> i \<in> set (vs_list_ids st)"
    using vs_ok_entry [OF ok] bt_get_None_iff [of st i]
    by (auto simp: vs_has_def vs_list_ids_def split: option.splits)
  moreover have "versions_sorted (vs_list_versions st i)"
    by (auto simp: vs_list_versions_def sort_versions_sorted split: option.splits)
      (simp add: versions_sorted_def)
  ultimately show ?thesis
    using vs_get_add [OF ok] vs_get_remove [OF ok] vs_has_iff [OF ok] by (simp add: fun_eq_iff)
qed

theorem versioned_store_is_a_map_witness:
  "vs_get (vs_add ''m'' ''1.0.0'' True []) ''m'' ''1.0.0'' = Some True"
proof -
  have "vs_reachable ([] :: bool versioned_store)" by (rule vs_empty)
  from versioned_store_is_a_map [OF this, of "''m''" "''1.0.0''" True] show ?thesis by simp
qed

text \<open>A hint is judged constraint by constraint, and the first unsatisfied one ends the judgement, so a
  malformed constraint behind it is not reported.\<close>

lemma malformed_constraint_masked:
  "try_matches_version_hint ''2.0.0'' ''<1.0.0,latest'' = Inr False \<and>
   (\<exists>e. try_matches_version_hint ''2.0.0'' ''latest,<1.0.0'' = Inl e)"
proof -
  have "case try_matches_version_hint ''2.0.0'' ''latest,<1.0.0'' of Inl e \<Rightarrow> True | Inr b \<Rightarrow> False"
    "try_matches_version_hint ''2.0.0'' ''<1.0.0,latest'' = Inr False"
    by code_simp+
  then show ?thesis by (auto split: sum.splits)
qed

end
