(* ===== verification/Dependencies.thy ===== *)
theory Dependencies
  imports Versions
begin

section \<open>Dependency resolution: Kahn's sort, version constraints, stalls and cycles\<close>

text \<open>
  \<open>src/src/registry/dependencies.rs\<close>. The graph and the in-degrees are ordered maps. A
  decrement of an in-degree that is already zero would overflow; it is the outcome \<open>None\<close> of the
  loop, and \<open>kahn_loop_finishes\<close> shows that it is never reached. The depth-first search keeps its
  explicit stack.
\<close>

record dep_info =
  dep_module_id :: string
  dep_version :: "string option"
  dep_optional :: bool

type_synonym batch = "(string \<times> dep_info list) list"

datatype version_check = VersionOk | SkipOptional | VersionErr module_error

definition check_version_constraint ::
  "string \<Rightarrow> dep_info \<Rightarrow> (string \<times> string) list option \<Rightarrow> version_check" where
  "check_version_constraint m dep module_versions =
     (case (dep_version dep, module_versions) of
        (Some constraint, Some versions) \<Rightarrow>
          (case bt_get versions (dep_module_id dep) of
             None \<Rightarrow> VersionOk
           | Some actual \<Rightarrow>
               (case try_matches_version_hint actual constraint of
                  Inl e \<Rightarrow> VersionErr e
                | Inr b \<Rightarrow>
                    if b then VersionOk
                    else if dep_optional dep then SkipOptional
                    else VersionErr (dependency_version_mismatch m (dep_module_id dep) constraint actual)))
      | _ \<Rightarrow> VersionOk)"

subsection \<open>Building the graph\<close>

text \<open>What the body of the inner loop does with one dependency: refuse, skip, or add an edge.\<close>

datatype dep_action = Refuse module_error | Skip | AddEdge

definition classify_dep ::
  "string set \<Rightarrow> (string \<times> string) list option \<Rightarrow> string \<Rightarrow> dep_info \<Rightarrow> dep_action" where
  "classify_dep ids versions m dep =
     (if dep_module_id dep \<notin> ids then
        (if dep_optional dep then Skip else Refuse (dependency_not_found m (dep_module_id dep)))
      else case check_version_constraint m dep versions of
        VersionOk \<Rightarrow> AddEdge
      | SkipOptional \<Rightarrow> Skip
      | VersionErr e \<Rightarrow> Refuse e)"

type_synonym graph = "(string \<times> string list) list"
type_synonym degrees = "(string \<times> nat) list"

definition graph_get :: "graph \<Rightarrow> string \<Rightarrow> string list" where
  "graph_get g d = (case bt_get g d of None \<Rightarrow> [] | Some xs \<Rightarrow> xs)"

definition add_edge :: "string \<Rightarrow> string \<Rightarrow> graph \<times> degrees \<Rightarrow> graph \<times> degrees" where
  "add_edge d m st =
     (case st of (g, deg) \<Rightarrow>
        (bt_insert d (graph_get g d @ [m]) g,
         bt_insert m ((case bt_get deg m of None \<Rightarrow> 0 | Some n \<Rightarrow> n) + 1) deg))"

fun add_deps ::
  "string set \<Rightarrow> (string \<times> string) list option \<Rightarrow> string \<Rightarrow> dep_info list \<Rightarrow> graph \<times> degrees
     \<Rightarrow> module_error + graph \<times> degrees" where
  "add_deps ids versions m [] st = Inr st"
| "add_deps ids versions m (dep # deps) st =
     (case classify_dep ids versions m dep of
        Refuse e \<Rightarrow> Inl e
      | Skip \<Rightarrow> add_deps ids versions m deps st
      | AddEdge \<Rightarrow> add_deps ids versions m deps (add_edge (dep_module_id dep) m st))"

fun add_modules ::
  "string set \<Rightarrow> (string \<times> string) list option \<Rightarrow> batch \<Rightarrow> graph \<times> degrees
     \<Rightarrow> module_error + graph \<times> degrees" where
  "add_modules ids versions [] st = Inr st"
| "add_modules ids versions ((m, deps) # ms) st =
     (case add_deps ids versions m deps st of
        Inl e \<Rightarrow> Inl e
      | Inr st' \<Rightarrow> add_modules ids versions ms st')"

definition zero_degrees :: "batch \<Rightarrow> degrees" where
  "zero_degrees ms =
     fold (\<lambda>e deg. case bt_get deg (fst e) of None \<Rightarrow> bt_insert (fst e) 0 deg | Some _ \<Rightarrow> deg) ms []"

subsection \<open>The sort\<close>

text \<open>The dependents of a popped module, in order: decrement, and enqueue at zero.\<close>

fun release :: "string list \<Rightarrow> degrees \<Rightarrow> string list \<Rightarrow> (degrees \<times> string list) option" where
  "release [] deg queue = Some (deg, queue)"
| "release (d # ds) deg queue =
     (case bt_get deg d of
        None \<Rightarrow> release ds deg queue
      | Some 0 \<Rightarrow> None
      | Some (Suc n) \<Rightarrow> release ds (bt_insert d n deg) (if n = 0 then queue @ [d] else queue))"

text \<open>The main loop. Its fuel counts iterations; one per module of the batch is enough
  (\<open>kahn_loop_finishes\<close>). The result is \<open>None\<close> on overflow or when the fuel runs out.\<close>

fun kahn_loop :: "nat \<Rightarrow> graph \<Rightarrow> degrees \<Rightarrow> string list \<Rightarrow> string list \<Rightarrow> string list option" where
  "kahn_loop fuel g deg [] order = Some order"
| "kahn_loop 0 g deg (m # queue) order = None"
| "kahn_loop (Suc fuel) g deg (m # queue) order =
     (case release (sort (graph_get g m)) deg queue of
        None \<Rightarrow> None
      | Some (deg', queue') \<Rightarrow> kahn_loop fuel g deg' queue' (order @ [m]))"

definition initial_queue :: "degrees \<Rightarrow> string list" where
  "initial_queue deg = sort (map fst (filter (\<lambda>e. snd e = 0) deg))"

subsection \<open>Stalls and cycles\<close>

type_synonym dep_map = "(string \<times> string list) list"

definition neighbours :: "dep_map \<Rightarrow> string \<Rightarrow> string list" where
  "neighbours dm n = (case bt_get dm n of None \<Rightarrow> [] | Some xs \<Rightarrow> xs)"

record dfs_state =
  dfs_path :: "string list"
  dfs_on_path :: "string set"
  dfs_visited :: "string set"
  dfs_stack :: "(string \<times> nat) list"

text \<open>One iteration. The stack's top is the head of the list. \<open>Inl\<close> is a returned result.\<close>

definition dfs_enter :: "string \<Rightarrow> dfs_state \<Rightarrow> dfs_state" where
  "dfs_enter n s = s\<lparr>dfs_visited := insert n (dfs_visited s), dfs_on_path := insert n (dfs_on_path s),
     dfs_path := dfs_path s @ [n]\<rparr>"

definition dfs_advance :: "dep_map \<Rightarrow> string \<Rightarrow> nat \<Rightarrow> (string \<times> nat) list \<Rightarrow> dfs_state \<Rightarrow> dfs_state" where
  "dfs_advance dm n i rest s =
     (if i < length (neighbours dm n)
      then s\<lparr>dfs_stack := (neighbours dm n ! i, 0) # (n, i + 1) # rest\<rparr>
      else s\<lparr>dfs_on_path := dfs_on_path s - {n}, dfs_path := butlast (dfs_path s), dfs_stack := rest\<rparr>)"

definition cycle_from :: "string \<Rightarrow> string list \<Rightarrow> string list" where
  "cycle_from n path = dropWhile (\<lambda>x. x \<noteq> n) path @ [n]"

definition dfs_step :: "dep_map \<Rightarrow> dfs_state \<Rightarrow> string list option + dfs_state" where
  "dfs_step dm s =
     (case dfs_stack s of
        [] \<Rightarrow> Inl None
      | (n, i) # rest \<Rightarrow>
          if i = 0 then
            (if n \<in> dfs_on_path s then Inl (Some (cycle_from n (dfs_path s)))
             else if n \<in> dfs_visited s then Inr (s\<lparr>dfs_stack := rest\<rparr>)
             else Inr (dfs_advance dm n i rest (dfs_enter n s)))
          else Inr (dfs_advance dm n i rest s))"

definition dfs_start :: "string \<Rightarrow> dfs_state" where
  "dfs_start n = \<lparr>dfs_path = [], dfs_on_path = {}, dfs_visited = {}, dfs_stack = [(n, 0)]\<rparr>"

definition dfs_universe :: "dep_map \<Rightarrow> dfs_state \<Rightarrow> string set" where
  "dfs_universe dm s = set (concat (map snd dm)) \<union> set (map fst (dfs_stack s))"

definition frame_weight :: "dep_map \<Rightarrow> string \<times> nat \<Rightarrow> nat" where
  "frame_weight dm f =
     (case f of (n, i) \<Rightarrow> if i = 0 then 1 else 2 * (length (neighbours dm n) - i) + 1)"

definition dfs_measure :: "dep_map \<Rightarrow> dfs_state \<Rightarrow> nat \<times> nat" where
  "dfs_measure dm s =
     (card (dfs_universe dm s - dfs_visited s), sum_list (map (frame_weight dm) (dfs_stack s)))"

lemma neighbours_universe: "set (neighbours dm n) \<subseteq> set (concat (map snd dm))"
  by (auto simp: neighbours_def bt_get_def split: option.splits dest!: map_of_SomeD [OF sym])

lemma dfs_step_decreases:
  assumes "dfs_step dm s = Inr s'"
  shows "(dfs_measure dm s', dfs_measure dm s) \<in> less_than <*lex*> less_than"
proof -
  from assms obtain n i rest where st: "dfs_stack s = (n, i) # rest"
    by (auto simp: dfs_step_def split: list.splits)
  let ?U = "dfs_universe dm"
  have fin: "finite (?U t - V)" for t V by (simp add: dfs_universe_def)
  have nb: "i < length (neighbours dm n) \<Longrightarrow> neighbours dm n ! i \<in> set (concat (map snd dm))"
    using neighbours_universe [of dm n] nth_mem by blast
  have sub: "?U (dfs_advance dm n i rest t) \<subseteq> ?U s" for t
    using nb st by (auto simp: dfs_advance_def dfs_universe_def)
  consider (pop) "i = 0" "s' = s\<lparr>dfs_stack := rest\<rparr>"
    | (enter) "i = 0" "n \<notin> dfs_visited s" "s' = dfs_advance dm n i rest (dfs_enter n s)"
    | (advance) "i \<noteq> 0" "s' = dfs_advance dm n i rest s"
    using assms st by (auto simp: dfs_step_def split: if_splits)
  then show ?thesis
  proof cases
    case pop
    then have "?U s' - dfs_visited s' \<subseteq> ?U s - dfs_visited s"
      using st by (auto simp: dfs_universe_def)
    then have "card (?U s' - dfs_visited s') \<le> card (?U s - dfs_visited s)" by (rule card_mono [OF fin])
    with pop st show ?thesis by (auto simp: dfs_measure_def frame_weight_def)
  next
    case enter
    have v: "dfs_visited s' = insert n (dfs_visited s)"
      using enter by (simp add: dfs_advance_def dfs_enter_def)
    have "n \<in> ?U s" using st by (simp add: dfs_universe_def)
    with enter sub v have "?U s' - dfs_visited s' \<subset> ?U s - dfs_visited s" by blast
    then have "card (?U s' - dfs_visited s') < card (?U s - dfs_visited s)"
      by (rule psubset_card_mono [OF fin])
    then show ?thesis by (simp add: dfs_measure_def)
  next
    case advance
    have v: "dfs_visited s' = dfs_visited s" using advance by (simp add: dfs_advance_def)
    with advance sub have "?U s' - dfs_visited s' \<subseteq> ?U s - dfs_visited s" by blast
    then have "card (?U s' - dfs_visited s') \<le> card (?U s - dfs_visited s)" by (rule card_mono [OF fin])
    with advance st show ?thesis by (auto simp: dfs_measure_def dfs_advance_def frame_weight_def)
  qed
qed

function dfs_run :: "dep_map \<Rightarrow> dfs_state \<Rightarrow> string list option" where
  "dfs_run dm s = (case dfs_step dm s of Inl r \<Rightarrow> r | Inr s' \<Rightarrow> dfs_run dm s')"
  by pat_completeness auto
termination
  by (relation "inv_image (less_than <*lex*> less_than) (\<lambda>(dm, s). dfs_measure dm s)")
    (auto intro: dfs_step_decreases)

declare dfs_run.simps [simp del]

definition dfs_find_cycle :: "dep_map \<Rightarrow> string \<Rightarrow> string list option" where
  "dfs_find_cycle dm start = dfs_run dm (dfs_start start)"

definition batch_dep_map :: "batch \<Rightarrow> string set \<Rightarrow> dep_map" where
  "batch_dep_map ms remaining =
     fold (\<lambda>(m, deps) dm.
       if m \<in> remaining
       then bt_insert m
         (remdups_adj (sort (map dep_module_id (filter (\<lambda>d. dep_module_id d \<in> remaining) deps)))) dm
       else dm) ms []"

fun first_cycle :: "dep_map \<Rightarrow> string list \<Rightarrow> string list option" where
  "first_cycle dm [] = None"
| "first_cycle dm (n # ns) =
     (case dfs_find_cycle dm n of Some c \<Rightarrow> Some c | None \<Rightarrow> first_cycle dm ns)"

text \<open>A hash set of ids, listed in ascending order.\<close>

definition sorted_ids :: "string list \<Rightarrow> string list" where
  "sorted_ids xs = remdups_adj (sort xs)"

definition find_back_edge_cycle :: "batch \<Rightarrow> string list \<Rightarrow> string list option" where
  "find_back_edge_cycle ms remaining =
     first_cycle (batch_dep_map ms (set remaining)) (sorted_ids remaining)"

definition comma_join :: "string list \<Rightarrow> string" where
  "comma_join xs = join_with '','' xs"

definition classify_stall :: "batch \<Rightarrow> string list \<Rightarrow> module_error" where
  "classify_stall ms order =
     (let remaining = filter (\<lambda>m. m \<notin> set order) (map fst ms) in
      case find_back_edge_cycle ms remaining of
        Some cycle \<Rightarrow>
          with_details (details_of [(''cycle_path'', json_strings cycle)])
            (module_error_new CircularDependency)
      | None \<Rightarrow>
          let blocked = sorted_ids remaining in
          with_details
            (details_of [(''module_id'', JString (comma_join blocked)),
               (''blocked_modules'', json_strings blocked)])
            (module_error_new ModuleLoadError))"

text \<open>\<open>None\<close> would be an overflow panic.\<close>

definition resolve_dependencies ::
  "batch \<Rightarrow> string set option \<Rightarrow> (string \<times> string) list option \<Rightarrow> (module_error + string list) option" where
  "resolve_dependencies ms known_ids versions =
     (if ms = [] then Some (Inr [])
      else
        let ids = (case known_ids of None \<Rightarrow> set (map fst ms) | Some k \<Rightarrow> k) in
        case add_modules ids versions ms ([], zero_degrees ms) of
          Inl e \<Rightarrow> Some (Inl e)
        | Inr (g, deg) \<Rightarrow>
            (case kahn_loop (length ms) g deg (initial_queue deg) [] of
               None \<Rightarrow> None
             | Some order \<Rightarrow>
                 if length order < length ms then Some (Inl (classify_stall ms order))
                 else Some (Inr order)))"

subsection \<open>The graph\<close>

definition accepted :: "string set \<Rightarrow> (string \<times> string) list option \<Rightarrow> batch \<Rightarrow> (string \<times> string) list" where
  "accepted ids versions ms =
     concat (map (\<lambda>(m, deps).
       map (\<lambda>d. (dep_module_id d, m)) (filter (\<lambda>d. classify_dep ids versions m d = AddEdge) deps)) ms)"

definition degree_of :: "degrees \<Rightarrow> string \<Rightarrow> nat" where
  "degree_of deg m = (case bt_get deg m of None \<Rightarrow> 0 | Some n \<Rightarrow> n)"

definition represents :: "string set \<Rightarrow> (string \<times> string) list \<Rightarrow> graph \<times> degrees \<Rightarrow> bool" where
  "represents K E st \<longleftrightarrow>
     (case st of (g, deg) \<Rightarrow>
        bt_ok g \<and> bt_ok deg \<and> fst ` set deg = K \<and>
        (\<forall>d. graph_get g d = map snd (filter (\<lambda>e. fst e = d) E)) \<and>
        (\<forall>m. degree_of deg m = length (filter (\<lambda>e. snd e = m) E)))"

lemma keys_insert: "fst ` set (bt_insert k v m) = insert k (fst ` set m)"
  using keys_bt_insert [of k v m] by simp

lemma represents_add_edge:
  assumes "represents K E st" and "m \<in> K"
  shows "represents K (E @ [(d, m)]) (add_edge d m st)"
proof -
  obtain g deg where st: "st = (g, deg)" by (cases st)
  with assms have ok: "bt_ok g" "bt_ok deg" and K: "fst ` set deg = K"
    and gr: "\<And>d. graph_get g d = map snd (filter (\<lambda>e. fst e = d) E)"
    and dg: "\<And>m. degree_of deg m = length (filter (\<lambda>e. snd e = m) E)"
    by (auto simp: represents_def)
  have "graph_get (bt_insert d (graph_get g d @ [m]) g) x =
      map snd (filter (\<lambda>e. fst e = x) (E @ [(d, m)]))" for x
    using gr [of d] gr [of x] by (auto simp: graph_get_def bt.get_ins [OF ok(1)])
  moreover have "degree_of (bt_insert m (degree_of deg m + 1) deg) x =
      length (filter (\<lambda>e. snd e = x) (E @ [(d, m)]))" for x
    using dg [of m] dg [of x] by (auto simp: degree_of_def bt.get_ins [OF ok(2)])
  moreover have "fst ` set (bt_insert m (degree_of deg m + 1) deg) = K"
    using K assms(2) by (auto simp: keys_insert)
  ultimately show ?thesis
    using ok by (simp add: represents_def st add_edge_def degree_of_def bt.ok_ins)
qed

lemma add_deps_represents:
  "add_deps ids versions m deps st = Inr st' \<Longrightarrow> represents K E st \<Longrightarrow> m \<in> K \<Longrightarrow>
     represents K (E @ map (\<lambda>d. (dep_module_id d, m))
       (filter (\<lambda>d. classify_dep ids versions m d = AddEdge) deps)) st'"
proof (induction ids versions m deps st arbitrary: E rule: add_deps.induct)
  case (1 ids versions m st)
  then show ?case by simp
next
  case (2 ids versions m dep deps st)
  show ?case
  proof (cases "classify_dep ids versions m dep")
    case (Refuse e)
    with 2 show ?thesis by simp
  next
    case Skip
    with 2 show ?thesis by simp
  next
    case AddEdge
    with 2(2) [OF AddEdge, of "E @ [(dep_module_id dep, m)]"] 2(3-5) represents_add_edge [OF 2(4,5)]
    show ?thesis by simp
  qed
qed

lemma add_modules_represents:
  "add_modules ids versions ms st = Inr st' \<Longrightarrow> represents K E st \<Longrightarrow> fst ` set ms \<subseteq> K \<Longrightarrow>
     represents K (E @ accepted ids versions ms) st'"
proof (induction ids versions ms st arbitrary: E rule: add_modules.induct)
  case (1 ids versions st)
  then show ?case by (simp add: accepted_def)
next
  case (2 ids versions m deps ms st)
  then obtain st1 where a: "add_deps ids versions m deps st = Inr st1"
    and r: "add_modules ids versions ms st1 = Inr st'"
    by (auto split: sum.splits)
  have "m \<in> K" and k: "fst ` set ms \<subseteq> K" using 2(4) by auto
  from add_deps_represents [OF a 2(3) this(1)] have "represents K (E @ map (\<lambda>d. (dep_module_id d, m))
      (filter (\<lambda>d. classify_dep ids versions m d = AddEdge) deps)) st1" .
  from 2(1) [OF a r this k] show ?case by (simp add: accepted_def)
qed

lemma zero_degrees_represents: "represents (fst ` set ms) [] ([], zero_degrees ms)"
proof -
  let ?f = "\<lambda>e deg. case bt_get deg (fst e) of None \<Rightarrow> bt_insert (fst e) (0 :: nat) deg | Some _ \<Rightarrow> deg"
  have "bt_ok (fold ?f ms deg) \<and> fst ` set (fold ?f ms deg) = fst ` set deg \<union> fst ` set ms \<and>
      (\<forall>m. degree_of (fold ?f ms deg) m = 0)"
    if "bt_ok deg" "\<forall>m. degree_of deg m = 0" for deg
    using that
  proof (induction ms arbitrary: deg)
    case Nil
    then show ?case by simp
  next
    case (Cons e ms)
    let ?d = "?f e deg"
    have "bt_ok ?d" "\<forall>m. degree_of ?d m = 0" "fst ` set ?d = insert (fst e) (fst ` set deg)"
      using Cons.prems bt_get_None_iff [of deg "fst e"]
      by (auto simp: degree_of_def bt.get_ins bt.ok_ins keys_insert split: option.splits)
    with Cons.IH [of ?d] show ?case by auto
  qed
  from this [of "[]"] show ?thesis
    by (simp add: represents_def zero_degrees_def graph_get_def degree_of_def)
qed

subsection \<open>The sort\<close>

lemma release_spec:
  assumes "bt_ok deg" and "\<forall>m n. bt_get deg m = Some n \<longrightarrow> count_list ds m \<le> n"
  shows "\<exists>deg' new. release ds deg queue = Some (deg', queue @ new) \<and> bt_ok deg' \<and>
    fst ` set deg' = fst ` set deg \<and>
    (\<forall>m. bt_get deg' m = map_option (\<lambda>n. n - count_list ds m) (bt_get deg m)) \<and>
    distinct new \<and> set new = {m \<in> set ds. bt_get deg m = Some (count_list ds m)}"
  using assms
proof (induction ds arbitrary: deg queue)
  case Nil
  then show ?case by (auto simp: map_option.identity [unfolded id_def])
next
  case (Cons d ds)
  show ?case
  proof (cases "bt_get deg d")
    case None
    have "\<forall>m n. bt_get deg m = Some n \<longrightarrow> count_list ds m \<le> n"
    proof (intro allI impI)
      fix m n
      assume "bt_get deg m = Some n"
      with Cons.prems(2) have "count_list (d # ds) m \<le> n" by blast
      then show "count_list ds m \<le> n" by (simp split: if_splits)
    qed
    from Cons.IH [OF Cons.prems(1) this, of queue] obtain deg' new where
      r: "release ds deg queue = Some (deg', queue @ new)" "bt_ok deg'" "fst ` set deg' = fst ` set deg"
        "\<forall>m. bt_get deg' m = map_option (\<lambda>n. n - count_list ds m) (bt_get deg m)"
        "distinct new" "set new = {m \<in> set ds. bt_get deg m = Some (count_list ds m)}"
      by blast
    have "bt_get deg' m = map_option (\<lambda>n. n - count_list (d # ds) m) (bt_get deg m)" for m
      using r(4) None by (cases "m = d") auto
    moreover have "set new = {m \<in> set (d # ds). bt_get deg m = Some (count_list (d # ds) m)}"
    proof (rule set_eqI)
      fix x
      show "x \<in> set new \<longleftrightarrow> x \<in> {m \<in> set (d # ds). bt_get deg m = Some (count_list (d # ds) m)}"
        unfolding r(6) using None by (cases "x = d") simp_all
    qed
    moreover have "release (d # ds) deg queue = Some (deg', queue @ new)" using r(1) None by simp
    ultimately show ?thesis using r(2,3,5) by blast
  next
    case (Some k)
    with Cons.prems(2) have "count_list (d # ds) d \<le> k" by blast
    then have "1 \<le> k" by simp
    then obtain n where k: "k = Suc n" by (cases k) auto
    let ?deg = "bt_insert d n deg"
    have g: "bt_get ?deg m = (if m = d then Some n else bt_get deg m)" for m
      using bt.get_ins [OF Cons.prems(1)] by simp
    have pre: "\<forall>m n'. bt_get ?deg m = Some n' \<longrightarrow> count_list ds m \<le> n'"
    proof (intro allI impI)
      fix m n'
      assume a: "bt_get ?deg m = Some n'"
      show "count_list ds m \<le> n'"
      proof (cases "m = d")
        case True
        have "count_list (d # ds) d \<le> Suc n" using Cons.prems(2) Some k by blast
        with True a g [of m] show ?thesis by simp
      next
        case False
        with a g [of m] have "bt_get deg m = Some n'" by simp
        with Cons.prems(2) have "count_list (d # ds) m \<le> n'" by blast
        with False show ?thesis by simp
      qed
    qed
    have keys: "fst ` set ?deg = fst ` set deg"
      using Some bt_get_None_iff [of deg d] by (auto simp: keys_insert)
    let ?q = "if n = 0 then queue @ [d] else queue"
    from Cons.IH [OF bt.ok_ins [OF Cons.prems(1)] pre, of ?q] obtain deg' new where
      r: "release ds ?deg ?q = Some (deg', ?q @ new)" "bt_ok deg'" "fst ` set deg' = fst ` set ?deg"
        "\<forall>m. bt_get deg' m = map_option (\<lambda>n. n - count_list ds m) (bt_get ?deg m)"
        "distinct new" "set new = {m \<in> set ds. bt_get ?deg m = Some (count_list ds m)}"
      by blast
    let ?new = "if n = 0 then d # new else new"
    have nd: "n = 0 \<Longrightarrow> d \<notin> set ds" using pre g [of d] by (metis count_list_0_iff le_zero_eq)
    have f1: "release (d # ds) deg queue = Some (deg', queue @ ?new)" using r(1) Some k by auto
    have f2: "\<forall>m. bt_get deg' m = map_option (\<lambda>n. n - count_list (d # ds) m) (bt_get deg m)"
      using r(4) g Some k by auto
    have f3: "distinct ?new" using r(5,6) nd by auto
    have f4: "set ?new = {m \<in> set (d # ds). bt_get deg m = Some (count_list (d # ds) m)}"
    proof (rule set_eqI)
      fix x
      have z: "n = 0 \<Longrightarrow> count_list ds d = 0" using nd by simp
      have m: "0 < n \<Longrightarrow> count_list ds d = n \<Longrightarrow> d \<in> set ds" by (metis count_list_0_iff less_numeral_extra(3))
      have q: "x \<in> set ?new \<longleftrightarrow> n = 0 \<and> x = d \<or> x \<in> set ds \<and> bt_get ?deg x = Some (count_list ds x)"
        using r(6) by simp
      show "x \<in> set ?new \<longleftrightarrow> x \<in> {m \<in> set (d # ds). bt_get deg m = Some (count_list (d # ds) m)}"
      proof (cases "x = d")
        case True
        have "bt_get ?deg d = Some n" using g [of d] by simp
        moreover have "(Suc n = 1 + count_list ds d) = (n = 0 \<or> d \<in> set ds \<and> n = count_list ds d)"
          using z m by auto
        ultimately show ?thesis unfolding q unfolding True using Some k by auto
      next
        case False
        with g [of x] show ?thesis unfolding q by simp
      qed
    qed
    have "fst ` set deg' = fst ` set deg" using r(3) keys by simp
    with f1 f2 f3 f4 r(2) show ?thesis by (intro exI [of _ deg'] exI [of _ ?new] conjI)
  qed
qed

definition open_edges :: "(string \<times> string) list \<Rightarrow> string set \<Rightarrow> string \<Rightarrow> nat" where
  "open_edges E done m = length (filter (\<lambda>e. snd e = m \<and> fst e \<notin> done) E)"

definition kahn_inv ::
  "string set \<Rightarrow> (string \<times> string) list \<Rightarrow> degrees \<Rightarrow> string list \<Rightarrow> string list \<Rightarrow> bool" where
  "kahn_inv K E deg queue order \<longleftrightarrow>
     bt_ok deg \<and> fst ` set deg = K \<and> distinct (order @ queue) \<and>
     (\<forall>m \<in> K. bt_get deg m = Some (open_edges E (set order) m)) \<and>
     set (order @ queue) = {m \<in> K. open_edges E (set order) m = 0} \<and>
     (\<forall>i < length order. \<forall>d. (d, order ! i) \<in> set E \<longrightarrow> d \<in> set (take i order))"

lemma open_edges_split:
  "a \<notin> S \<Longrightarrow> open_edges E S m =
     count_list (map snd (filter (\<lambda>e. fst e = a) E)) m + open_edges E (insert a S) m"
  by (induction E) (auto simp: open_edges_def)

lemma open_edges_zero: "open_edges E S m = 0 \<Longrightarrow> (d, m) \<in> set E \<Longrightarrow> d \<in> S"
  by (auto simp: open_edges_def filter_empty_conv)

lemma count_list_sort [simp]: "count_list (sort xs) (m :: string) = count_list xs m"
  by (metis count_mset mset_sort)

definition graph_of :: "graph \<Rightarrow> (string \<times> string) list \<Rightarrow> string set \<Rightarrow> bool" where
  "graph_of g E K \<longleftrightarrow>
     (\<forall>d. graph_get g d = map snd (filter (\<lambda>e. fst e = d) E)) \<and> snd ` set E \<subseteq> K \<and> finite K"

lemma kahn_step:
  assumes g: "graph_of g E K" and inv: "kahn_inv K E deg (a # queue) order"
  shows "\<exists>deg' new. release (sort (graph_get g a)) deg queue = Some (deg', queue @ new) \<and>
    kahn_inv K E deg' (queue @ new) (order @ [a])"
proof -
  let ?xs = "graph_get g a"
  let ?S = "set order"
  have ok: "bt_ok deg" and keys: "fst ` set deg = K"
    and dist: "distinct (order @ a # queue)"
    and deg: "\<And>m. m \<in> K \<Longrightarrow> bt_get deg m = Some (open_edges E ?S m)"
    and done_eq: "set (order @ a # queue) = {m \<in> K. open_edges E ?S m = 0}"
    and before: "\<And>i d. i < length order \<Longrightarrow> (d, order ! i) \<in> set E \<Longrightarrow> d \<in> set (take i order)"
    using inv by (auto simp: kahn_inv_def)
  have a: "a \<notin> ?S" using dist by simp
  have xs: "?xs = map snd (filter (\<lambda>e. fst e = a) E)" and xsK: "set ?xs \<subseteq> K"
    using g by (auto simp: graph_of_def)
  have split: "open_edges E ?S m = count_list ?xs m + open_edges E (insert a ?S) m" for m
    unfolding xs by (rule open_edges_split [OF a])
  have K: "bt_get deg m \<noteq> None \<longleftrightarrow> m \<in> K" for m using bt_get_None_iff [of deg m] keys by simp
  have pre: "\<forall>m n. bt_get deg m = Some n \<longrightarrow> count_list (sort ?xs) m \<le> n"
  proof (intro allI impI)
    fix m n
    assume n: "bt_get deg m = Some n"
    with K [of m] have "m \<in> K" by simp
    with deg n split show "count_list (sort ?xs) m \<le> n" by simp
  qed
  from release_spec [OF ok pre, of queue] obtain deg' new where
    r: "release (sort ?xs) deg queue = Some (deg', queue @ new)" "bt_ok deg'" "fst ` set deg' = fst ` set deg"
      "\<forall>m. bt_get deg' m = map_option (\<lambda>n. n - count_list (sort ?xs) m) (bt_get deg m)"
      "distinct new" "set new = {m \<in> set (sort ?xs). bt_get deg m = Some (count_list (sort ?xs) m)}"
    by blast
  have new: "m \<in> set new \<longleftrightarrow> m \<in> set ?xs \<and> open_edges E (insert a ?S) m = 0" for m
    using r(6) deg [of m] xsK split [of m] by auto
  have deg': "bt_get deg' m = Some (open_edges E (insert a ?S) m)" if "m \<in> K" for m
    using r(4) deg [OF that] split [of m] by simp
  have fresh: "m \<notin> set (order @ a # queue)" if "m \<in> set new" for m
  proof -
    have "m \<in> set ?xs" using that new by blast
    then have "count_list ?xs m \<noteq> 0" by (simp add: count_list_0_iff)
    with split [of m] have "open_edges E ?S m \<noteq> 0" by simp
    then show ?thesis unfolding done_eq by simp
  qed
  have "distinct ((order @ [a]) @ queue @ new)" using dist r(5) fresh by auto
  moreover have "set ((order @ [a]) @ queue @ new) = {m \<in> K. open_edges E (insert a ?S) m = 0}"
  proof (rule set_eqI)
    fix m
    have "m \<in> set ((order @ [a]) @ queue @ new) \<longleftrightarrow>
        m \<in> K \<and> open_edges E ?S m = 0 \<or> m \<in> set ?xs \<and> open_edges E (insert a ?S) m = 0"
      using done_eq new by auto
    also have "\<dots> \<longleftrightarrow> m \<in> K \<and> open_edges E (insert a ?S) m = 0"
      using split [of m] xsK count_list_0_iff [of ?xs m] by auto
    finally show "m \<in> set ((order @ [a]) @ queue @ new) \<longleftrightarrow>
      m \<in> {m \<in> K. open_edges E (insert a ?S) m = 0}" by simp
  qed
  moreover have "d \<in> set (take i (order @ [a]))"
    if "i < length (order @ [a])" "(d, (order @ [a]) ! i) \<in> set E" for i d
  proof (cases "i < length order")
    case True
    with that(2) before show ?thesis by (simp add: nth_append)
  next
    case False
    with that have i: "i = length order" and e: "(d, a) \<in> set E" by (auto simp: nth_append)
    have "open_edges E ?S a = 0" using done_eq by auto
    from open_edges_zero [OF this e] i show ?thesis by simp
  qed
  ultimately show ?thesis
    using r(1,2,3) keys deg' by (auto simp: kahn_inv_def)
qed

lemma kahn_loop_finishes:
  "graph_of g E K \<Longrightarrow> kahn_inv K E deg queue order \<Longrightarrow> card K \<le> fuel + length order \<Longrightarrow>
     \<exists>deg' res. kahn_loop fuel g deg queue order = Some res \<and> kahn_inv K E deg' [] res"
proof (induction fuel g deg queue order rule: kahn_loop.induct)
  case (1 fuel g deg order)
  then show ?case by auto
next
  case (2 g deg m queue order)
  have "finite K" using 2(1) by (simp add: graph_of_def)
  moreover have d: "distinct (order @ m # queue)" and "set (order @ m # queue) \<subseteq> K"
    using 2(2) by (auto simp: kahn_inv_def)
  ultimately have "card (set (order @ m # queue)) \<le> card K" by (intro card_mono)
  with distinct_card [OF d] 2(3) show ?case by simp
next
  case (3 fuel g deg m queue order)
  from kahn_step [OF 3(2,3)] obtain deg' new where
    r: "release (sort (graph_get g m)) deg queue = Some (deg', queue @ new)"
    and i: "kahn_inv K E deg' (queue @ new) (order @ [m])" by blast
  from 3(1) [OF r refl 3(2) i] 3(4) r show ?case by simp
qed

definition batch_ids :: "batch \<Rightarrow> string set option \<Rightarrow> string set" where
  "batch_ids ms known_ids = (case known_ids of None \<Rightarrow> fst ` set ms | Some k \<Rightarrow> k)"

lemma accepted_iff:
  "(d, m) \<in> set (accepted ids versions ms) \<longleftrightarrow>
     (\<exists>deps dep. (m, deps) \<in> set ms \<and> dep \<in> set deps \<and> dep_module_id dep = d \<and>
        classify_dep ids versions m dep = AddEdge)" (is "?L = ?R")
proof
  assume ?L
  then show ?R by (auto simp: accepted_def)
next
  assume ?R
  then obtain deps dep where "(m, deps) \<in> set ms" "dep \<in> set deps" "d = dep_module_id dep"
    "classify_dep ids versions m dep = AddEdge" by blast
  then show ?L unfolding accepted_def set_concat set_map
    by (intro UN_I [of "map (\<lambda>d. (dep_module_id d, m))
        (filter (\<lambda>d. classify_dep ids versions m d = AddEdge) deps)"] image_eqI [of _ _ "(m, deps)"]) auto
qed

lemma accepted_targets: "snd ` set (accepted ids versions ms) \<subseteq> fst ` set ms"
proof -
  have "m \<in> fst ` set ms" if "(d, m) \<in> set (accepted ids versions ms)" for d m
    using that unfolding accepted_iff by force
  then show ?thesis by auto
qed

lemma initial_kahn_inv:
  assumes r: "represents K E (g, deg)" and K: "finite K" "snd ` set E \<subseteq> K"
  shows "graph_of g E K" and "kahn_inv K E deg (initial_queue deg) []"
proof -
  from r have ok: "bt_ok deg" and keys: "fst ` set deg = K"
    and gr: "\<forall>d. graph_get g d = map snd (filter (\<lambda>e. fst e = d) E)"
    and dg: "\<And>m. degree_of deg m = open_edges E {} m"
    by (auto simp: represents_def open_edges_def)
  show "graph_of g E K" using gr K by (simp add: graph_of_def)
  have deg: "bt_get deg m = Some (open_edges E {} m)" if "m \<in> K" for m
    using that dg [of m] keys bt_get_None_iff [of deg m] by (cases "bt_get deg m") (auto simp: degree_of_def)
  have "distinct (initial_queue deg)"
    using bt_ok_distinct [OF ok] by (simp add: initial_queue_def distinct_map_filter)
  moreover have "set (initial_queue deg) = {m \<in> K. open_edges E {} m = 0}"
  proof (rule set_eqI)
    fix m
    have "m \<in> set (initial_queue deg) \<longleftrightarrow> (m, 0) \<in> set deg"
      by (force simp: initial_queue_def)
    also have "\<dots> \<longleftrightarrow> bt_get deg m = Some 0" by (simp add: bt_get_entry [OF ok])
    also have "\<dots> \<longleftrightarrow> m \<in> K \<and> open_edges E {} m = 0"
      using deg [of m] keys bt_get_None_iff [of deg m] by (cases "m \<in> K") auto
    finally show "m \<in> set (initial_queue deg) \<longleftrightarrow> m \<in> {m \<in> K. open_edges E {} m = 0}" by simp
  qed
  ultimately show "kahn_inv K E deg (initial_queue deg) []"
    using ok keys deg by (simp add: kahn_inv_def)
qed

text \<open>What the loop returns on a graph that was built without a refusal.\<close>

lemma kahn_outcome:
  assumes "add_modules ids versions ms ([], zero_degrees ms) = Inr (g, deg)"
  shows "\<exists>deg' order. kahn_loop (length ms) g deg (initial_queue deg) [] = Some order \<and>
    kahn_inv (fst ` set ms) (accepted ids versions ms) deg' [] order"
proof -
  let ?K = "fst ` set ms"
  have "represents ?K (accepted ids versions ms) (g, deg)"
    using add_modules_represents [OF assms zero_degrees_represents] by simp
  from initial_kahn_inv [OF this _ accepted_targets] have
    i: "graph_of g (accepted ids versions ms) ?K"
      "kahn_inv ?K (accepted ids versions ms) deg (initial_queue deg) []" by auto
  have "card ?K \<le> length ms"
    by (metis card_length length_map set_map)
  with kahn_loop_finishes [OF i, of "length ms"] show ?thesis by fastforce
qed

lemma kahn_inv_order:
  assumes "kahn_inv K E deg [] order"
  shows "distinct order" and "set order \<subseteq> K"
    and "i < length order \<Longrightarrow> (d, order ! i) \<in> set E \<Longrightarrow> d \<in> set (take i order)"
    and "m \<in> K \<Longrightarrow> m \<notin> set order \<Longrightarrow> \<exists>d. (d, m) \<in> set E \<and> d \<notin> set order"
  using assms by (auto simp: kahn_inv_def open_edges_def filter_empty_conv)

lemma add_modules_Inr:
  "add_modules ids versions ms st = Inr st' \<Longrightarrow> (m, deps) \<in> set ms \<Longrightarrow> dep \<in> set deps \<Longrightarrow>
     \<not> (\<exists>e. classify_dep ids versions m dep = Refuse e)"
proof (induction ids versions ms st rule: add_modules.induct)
  case (1 ids versions st)
  then show ?case by simp
next
  case (2 ids versions m' deps' ms st)
  then obtain st1 where a: "add_deps ids versions m' deps' st = Inr st1"
    and r: "add_modules ids versions ms st1 = Inr st'"
    by (auto split: sum.splits)
  have "dep \<in> set deps' \<longrightarrow> \<not> (\<exists>e. classify_dep ids versions m' dep = Refuse e)"
    using a by (induction ids versions m' deps' st rule: add_deps.induct)
      (auto split: dep_action.splits)
  with 2(1) [OF a r] 2(3,4) show ?case by auto
qed

lemma add_modules_total:
  assumes "\<And>m deps dep. (m, deps) \<in> set ms \<Longrightarrow> dep \<in> set deps \<Longrightarrow>
    \<not> (\<exists>e. classify_dep ids versions m dep = Refuse e)"
  shows "\<exists>st'. add_modules ids versions ms st = Inr st'"
proof -
  have d: "\<exists>st'. add_deps ids versions m deps st = Inr st'"
    if "\<And>dep. dep \<in> set deps \<Longrightarrow> \<not> (\<exists>e. classify_dep ids versions m dep = Refuse e)" for m deps st
    using that by (induction deps arbitrary: st) (auto split: dep_action.splits)
  show ?thesis
    using assms
  proof (induction ms arbitrary: st)
    case Nil
    then show ?case by simp
  next
    case (Cons e ms)
    obtain m deps where e: "e = (m, deps)" by (cases e)
    with Cons.prems have "\<And>dep. dep \<in> set deps \<Longrightarrow> \<not> (\<exists>e. classify_dep ids versions m dep = Refuse e)"
      by auto
    from d [of deps m st, OF this] obtain st1 where "add_deps ids versions m deps st = Inr st1" by auto
    moreover have "\<exists>st'. add_modules ids versions ms st1 = Inr st'"
      by (rule Cons.IH) (use Cons.prems in auto)
    ultimately show ?case using e by auto
  qed
qed

lemma required_not_skipped: "\<not> dep_optional dep \<Longrightarrow> classify_dep ids versions m dep \<noteq> Skip"
  by (auto simp: classify_dep_def check_version_constraint_def split: option.splits sum.splits if_splits)

lemmas resolve_unfold = resolve_dependencies_def Let_def batch_ids_def

lemma resolve_Inr:
  assumes "resolve_dependencies ms known_ids versions = Some (Inr order)"
  shows "\<exists>deg. kahn_inv (fst ` set ms) (accepted (batch_ids ms known_ids) versions ms) deg [] order \<and>
      length order \<ge> length ms"
    and "(m, deps) \<in> set ms \<Longrightarrow> dep \<in> set deps \<Longrightarrow>
      \<not> (\<exists>e. classify_dep (batch_ids ms known_ids) versions m dep = Refuse e)"
proof -
  let ?ids = "batch_ids ms known_ids"
  have ids: "(case known_ids of None \<Rightarrow> set (map fst ms) | Some k \<Rightarrow> k) = ?ids"
    by (simp add: batch_ids_def split: option.split)
  show "\<exists>deg. kahn_inv (fst ` set ms) (accepted ?ids versions ms) deg [] order \<and> length order \<ge> length ms"
  proof (cases "ms = []")
    case True
    with assms show ?thesis
      by (auto simp: resolve_dependencies_def kahn_inv_def intro!: exI [of _ "[]"])
  next
    case False
    then obtain g deg where b: "add_modules ?ids versions ms ([], zero_degrees ms) = Inr (g, deg)"
      using assms by (auto simp: resolve_dependencies_def Let_def ids split: sum.splits)
    from kahn_outcome [OF b] obtain deg' o' where "kahn_loop (length ms) g deg (initial_queue deg) [] = Some o'"
      and i: "kahn_inv (fst ` set ms) (accepted ?ids versions ms) deg' [] o'" by blast
    with assms False b have "o' = order \<and> length order \<ge> length ms"
      by (auto simp: resolve_dependencies_def Let_def ids split: if_splits)
    with i show ?thesis by blast
  qed
  show "\<not> (\<exists>e. classify_dep ?ids versions m dep = Refuse e)" if "(m, deps) \<in> set ms" "dep \<in> set deps"
  proof -
    have "ms \<noteq> []" using that by auto
    then obtain st where "add_modules ?ids versions ms ([], zero_degrees ms) = Inr st"
      using assms by (auto simp: resolve_dependencies_def Let_def ids split: sum.splits)
    from add_modules_Inr [OF this that] show ?thesis .
  qed
qed

subsection \<open>What the resolver promises\<close>

lemma classify_required:
  "\<not> dep_optional dep \<Longrightarrow> \<not> (\<exists>e. classify_dep ids versions m dep = Refuse e) \<Longrightarrow>
     classify_dep ids versions m dep = AddEdge"
  using required_not_skipped [of dep ids versions m] by (cases "classify_dep ids versions m dep") auto

text \<open>C19: when the resolver succeeds, its result lists every module of the batch exactly once, and each
  required dependency of a module, as well as each optional one that is present at a satisfying
  version, stands before that module.\<close>

theorem load_order_correct:
  assumes "resolve_dependencies ms known_ids versions = Some (Inr order)"
  shows "distinct order \<and> set order = fst ` set ms \<and> length order = length ms \<and>
    (\<forall>i < length order. \<forall>deps dep. (order ! i, deps) \<in> set ms \<longrightarrow> dep \<in> set deps \<longrightarrow>
       \<not> dep_optional dep \<or> classify_dep (batch_ids ms known_ids) versions (order ! i) dep = AddEdge \<longrightarrow>
       dep_module_id dep \<in> set (take i order))"
proof -
  let ?K = "fst ` set ms"
  let ?E = "accepted (batch_ids ms known_ids) versions ms"
  obtain deg where inv: "kahn_inv ?K ?E deg [] order" and len: "length order \<ge> length ms"
    using resolve_Inr(1) [OF assms] by blast
  note o = kahn_inv_order [OF inv]
  have cK: "card ?K \<le> length ms" by (metis card_length length_map set_map)
  have "card (set order) = length order" using o(1) by (rule distinct_card)
  moreover have "card (set order) \<le> card ?K" using o(2) by (intro card_mono) auto
  ultimately have eq: "length order = length ms" and "card ?K \<le> card (set order)" using len cK by auto
  then have set_eq: "set order = ?K" using o(2) by (intro card_seteq) auto
  have "dep_module_id dep \<in> set (take i order)"
    if "i < length order" "(order ! i, deps) \<in> set ms" "dep \<in> set deps"
      "\<not> dep_optional dep \<or> classify_dep (batch_ids ms known_ids) versions (order ! i) dep = AddEdge"
    for i deps dep
  proof -
    have "classify_dep (batch_ids ms known_ids) versions (order ! i) dep = AddEdge"
      using that(4) classify_required [OF _ resolve_Inr(2) [OF assms that(2,3)]] by blast
    with that have "(dep_module_id dep, order ! i) \<in> set ?E" by (auto simp: accepted_iff)
    with o(3) that(1) show ?thesis by blast
  qed
  with o(1) set_eq eq show ?thesis by blast
qed

lemma load_order_correct_witness:
  "let a = ''a''; b = ''b''; ms = [(a, [\<lparr>dep_module_id = b, dep_version = None, dep_optional = False\<rparr>]), (b, [])] in
     resolve_dependencies ms None None = Some (Inr [b, a]) \<and> set [b, a] = fst ` set ms"
proof -
  have "resolve_dependencies
      [(''a'', [\<lparr>dep_module_id = ''b'', dep_version = None, dep_optional = False\<rparr>]), (''b'', [])] None None =
      Some (Inr [''b'', ''a''])"
    by code_simp
  from this load_order_correct [OF this] show ?thesis by (simp add: Let_def)
qed

text \<open>C20: the resolver always returns: the sort never decrements an in-degree below zero (an overflow
  panic in the source), and it ends within one iteration per module.\<close>

theorem resolver_returns: "\<exists>r. resolve_dependencies ms known_ids versions = Some r"
proof (cases "ms = []")
  case True
  then show ?thesis by (simp add: resolve_dependencies_def)
next
  case False
  let ?ids = "case known_ids of None \<Rightarrow> set (map fst ms) | Some k \<Rightarrow> k"
  show ?thesis
  proof (cases "add_modules ?ids versions ms ([], zero_degrees ms)")
    case (Inl e)
    with False show ?thesis by (simp add: resolve_dependencies_def)
  next
    case (Inr st)
    obtain g deg where st: "st = (g, deg)" by (cases st)
    from kahn_outcome [OF Inr [unfolded st]] obtain order where
      "kahn_loop (length ms) g deg (initial_queue deg) [] = Some order" by blast
    with False Inr st show ?thesis by (simp add: resolve_dependencies_def)
  qed
qed

text \<open>C21: completeness. A batch with distinct ids, each of whose dependencies is either skipped or enforced, where the
  enforced ones lie inside the batch and strictly decrease some rank, is resolved.\<close>

theorem acyclic_batch_resolves:
  assumes "distinct (map fst ms)"
    and "\<And>m deps dep. (m, deps) \<in> set ms \<Longrightarrow> dep \<in> set deps \<Longrightarrow>
      classify_dep (batch_ids ms known_ids) versions m dep = Skip \<or>
      classify_dep (batch_ids ms known_ids) versions m dep = AddEdge \<and>
      dep_module_id dep \<in> fst ` set ms \<and> rank (dep_module_id dep) < (rank m :: nat)"
  shows "\<exists>order. resolve_dependencies ms known_ids versions = Some (Inr order)"
proof (cases "ms = []")
  case True
  then show ?thesis by (simp add: resolve_dependencies_def)
next
  case False
  let ?K = "fst ` set ms"
  let ?ids = "batch_ids ms known_ids"
  have ids: "(case known_ids of None \<Rightarrow> set (map fst ms) | Some k \<Rightarrow> k) = ?ids"
    by (simp add: batch_ids_def split: option.split)
  have "\<exists>st'. add_modules ?ids versions ms ([], zero_degrees ms) = Inr st'"
  proof (rule add_modules_total)
    fix m deps dep
    assume "(m, deps) \<in> set ms" "dep \<in> set deps"
    from assms(2) [OF this] show "\<not> (\<exists>e. classify_dep ?ids versions m dep = Refuse e)" by auto
  qed
  then obtain g deg where b: "add_modules ?ids versions ms ([], zero_degrees ms) = Inr (g, deg)" by auto
  from kahn_outcome [OF b] obtain deg' order where
    k: "kahn_loop (length ms) g deg (initial_queue deg) [] = Some order"
    and inv: "kahn_inv ?K (accepted ?ids versions ms) deg' [] order" by blast
  note o = kahn_inv_order [OF inv]
  have "m \<in> set order" if "m \<in> ?K" for m
    using that
  proof (induction m rule: measure_induct_rule [of rank])
    case (less m)
    show ?case
    proof (rule ccontr)
      assume "m \<notin> set order"
      from o(4) [OF less.prems this] obtain d where
        d: "(d, m) \<in> set (accepted ?ids versions ms)" "d \<notin> set order" by blast
      then obtain deps dep where m: "(m, deps) \<in> set ms" "dep \<in> set deps" "dep_module_id dep = d"
        "classify_dep ?ids versions m dep = AddEdge"
        by (auto simp: accepted_iff)
      with assms(2) [OF m(1,2)] have "d \<in> ?K" "rank d < rank m" by auto
      with less.IH d(2) show False by blast
    qed
  qed
  with o(2) have "set order = set (map fst ms)" by auto
  then have "length order = length ms"
    using distinct_card [OF o(1)] distinct_card [OF assms(1)] by simp
  with False b k show ?thesis by (simp add: resolve_dependencies_def ids)
qed

lemma acyclic_batch_resolves_witness:
  "\<exists>order. resolve_dependencies
     [(''a'', [\<lparr>dep_module_id = ''b'', dep_version = None, dep_optional = False\<rparr>]), (''b'', [])] None None =
     Some (Inr order)"
  by (rule acyclic_batch_resolves [of _ _ _ "\<lambda>m. if m = ''a'' then 1 else 0"])
    (auto simp: batch_ids_def classify_dep_def check_version_constraint_def)

end
