(* ===== verification/Stalls.thy ===== *)
theory Stalls
  imports Dependencies
begin

section \<open>Stalled sorts: the reported cycle is real, and no cycle is missed\<close>






subsection \<open>The invariant of the search\<close>












subsection \<open>The dependency map of the stuck modules\<close>











subsection \<open>What can be loaded\<close>

text \<open>The least set of modules whose enforced dependencies are all in it.\<close>

inductive loadable :: "string set \<Rightarrow> (string \<times> string) list \<Rightarrow> string \<Rightarrow> bool"
  for K E where
  load: "m \<in> K \<Longrightarrow> (\<And>d. (d, m) \<in> set E \<Longrightarrow> loadable K E d) \<Longrightarrow> loadable K E m"

inductive_cases loadable_elim: "loadable K E m"










abbreviation needs :: "string \<Rightarrow> dep_info" where
  "needs d \<equiv> \<lparr>dep_module_id = d, dep_version = None, dep_optional = False\<rparr>"



text \<open>Two facts about the edges of the contract. An id listed twice stalls the sort even though
  nothing is blocked, and the error then names no module. An optional dependency that the sort skips
  because of its version is still an edge for the cycle search, so it can complete a reported cycle.\<close>

lemma duplicate_id_is_a_stall:
  "map_option (map_sum err_code id) (resolve_dependencies [(''a'', []), (''a'', [])] None None) =
     Some (Inl ModuleLoadError)"
  by code_simp

lemma skipped_edge_reported_as_cycle:
  "let skipped = \<lparr>dep_module_id = ''b'', dep_version = Some ''2.0.0'', dep_optional = True\<rparr>;
     versions = Some [(''b'', ''1.0.0'')] in
   classify_dep {''a'', ''b'', ''x''} versions ''a'' skipped = Skip \<and>
   map_option (map_sum err_code id)
     (resolve_dependencies [(''a'', [skipped, needs ''x'']), (''b'', [needs ''a''])]
       (Some {''a'', ''b'', ''x''}) versions) = Some (Inl CircularDependency)"
  by code_simp

end
