(* ===== verification/Breakers.thy ===== *)
theory Breakers
  imports Contexts Complex_Main "HOL-Library.Word"
begin

section \<open>The two circuit breakers\<close>

text \<open>
  \<open>src/src/events/circuit_breaker.rs\<close> (around an event subscriber) and
  \<open>src/src/middleware/circuit_breaker.rs\<close> (per module and caller). The two declare the same
  three states; they are one datatype here. What the two promise in common is the locale \<open>breaker\<close>.
  Clocks are arguments: the time each operation reads.
\<close>

datatype circuit_state = Closed | Open | HalfOpen

primrec circuit_state_str :: "circuit_state \<Rightarrow> string" where
  "circuit_state_str Closed = ''CLOSED''"
| "circuit_state_str Open = ''OPEN''"
| "circuit_state_str HalfOpen = ''HALF_OPEN''"

subsection \<open>What a breaker promises\<close>

fun admit_all :: "('t \<Rightarrow> 's \<Rightarrow> bool \<times> 's) \<Rightarrow> 't list \<Rightarrow> 's \<Rightarrow> bool list \<times> 's" where
  "admit_all admit [] s = ([], s)"
| "admit_all admit (t # ts) s =
     (let (b, s1) = admit t s; (bs, s2) = admit_all admit ts s1 in (b # bs, s2))"

locale gate =
  fixes phase :: "'s \<Rightarrow> circuit_state"
    and recovered :: "'t \<Rightarrow> 's \<Rightarrow> bool"
    and admit :: "'t \<Rightarrow> 's \<Rightarrow> bool \<times> 's"
  assumes admit_closed: "phase s = Closed \<Longrightarrow> admit t s = (True, s)"
    and admit_open: "phase s = Open \<Longrightarrow> \<not> recovered t s \<Longrightarrow> admit t s = (False, s)"
    and admit_probe: "phase s = Open \<Longrightarrow> recovered t s \<Longrightarrow>
      \<exists>s'. admit t s = (True, s') \<and> phase s' = HalfOpen"
begin

lemma closed_admits_all:
  "phase s = Closed \<Longrightarrow> admit_all admit ts s = (replicate (length ts) True, s)"
  by (induction ts) (simp_all add: admit_closed)

lemma open_rejects_all:
  "phase s = Open \<Longrightarrow> \<forall>t \<in> set ts. \<not> recovered t s \<Longrightarrow>
     admit_all admit ts s = (replicate (length ts) False, s)"
  by (induction ts) (simp_all add: admit_open)

lemma admit_all_append:
  "admit_all admit (ts @ us) s =
     (let (bs, s1) = admit_all admit ts s; (cs, s2) = admit_all admit us s1 in (bs @ cs, s2))"
  by (induction ts arbitrary: s) (simp_all add: Let_def split: prod.splits)

lemma first_recovered_is_probe:
  assumes "phase s = Open" and "\<forall>t \<in> set ts. \<not> recovered t s" and "recovered u s"
  shows "\<exists>s'. admit_all admit (ts @ [u]) s = (replicate (length ts) False @ [True], s') \<and>
    phase s' = HalfOpen"
  using open_rejects_all [OF assms(1,2)] admit_probe [OF assms(1,3)]
  by (auto simp: admit_all_append)

end

locale breaker = gate phase recovered admit
  for phase :: "'s \<Rightarrow> circuit_state" and recovered :: "'t \<Rightarrow> 's \<Rightarrow> bool"
    and admit :: "'t \<Rightarrow> 's \<Rightarrow> bool \<times> 's" +
  fixes succeed :: "'s \<Rightarrow> 's"
    and trip :: "'t \<Rightarrow> 's \<Rightarrow> 's"
    and due :: "'t \<Rightarrow> 't \<Rightarrow> 's \<Rightarrow> bool"
  assumes succeed_probe: "phase s = HalfOpen \<Longrightarrow> phase (succeed s) = Closed"
    and trip_probe: "phase s = HalfOpen \<Longrightarrow> phase (trip t s) = Open"
    and trip_since: "phase s = HalfOpen \<Longrightarrow> recovered u (trip t s) = due t u s"
begin

lemma failed_probe_rejects:
  "phase s = HalfOpen \<Longrightarrow> \<forall>u \<in> set us. \<not> due t u s \<Longrightarrow>
     admit_all admit us (trip t s) = (replicate (length us) False, trip t s)"
  by (rule open_rejects_all) (simp_all add: trip_probe trip_since)

lemma successful_probe_admits:
  "phase s = HalfOpen \<Longrightarrow> admit_all admit us (succeed s) = (replicate (length us) True, succeed s)"
  by (rule closed_admits_all) (rule succeed_probe)

end

subsection \<open>The subscriber's breaker\<close>

text \<open>Times are nanoseconds. The failure counter is an atomic 32-bit integer and wraps.\<close>

record sub_breaker =
  sb_state :: circuit_state
  sb_failures :: "32 word"
  sb_last_failure_at :: "int option"
  sb_timeout_ms :: nat
  sb_open_threshold :: "32 word"
  sb_recovery_window_ms :: nat
  sb_subscriber_id :: string
  sb_type_name :: string

definition sb_new :: "string \<Rightarrow> string \<Rightarrow> sub_breaker" where
  "sb_new sid declared_type =
     \<lparr>sb_state = Closed, sb_failures = 0, sb_last_failure_at = None, sb_timeout_ms = 5000,
      sb_open_threshold = 5, sb_recovery_window_ms = 60000, sb_subscriber_id = sid,
      sb_type_name = declared_type\<rparr>"

definition sb_with_timeout_ms :: "nat \<Rightarrow> sub_breaker \<Rightarrow> sub_breaker" where
  "sb_with_timeout_ms n b = b\<lparr>sb_timeout_ms := n\<rparr>"

definition sb_with_open_threshold :: "32 word \<Rightarrow> sub_breaker \<Rightarrow> sub_breaker" where
  "sb_with_open_threshold n b = b\<lparr>sb_open_threshold := n\<rparr>"

definition sb_with_recovery_window_ms :: "nat \<Rightarrow> sub_breaker \<Rightarrow> sub_breaker" where
  "sb_with_recovery_window_ms n b = b\<lparr>sb_recovery_window_ms := n\<rparr>"

definition sb_with_subscriber_type_name :: "string \<Rightarrow> sub_breaker \<Rightarrow> sub_breaker" where
  "sb_with_subscriber_type_name s b = b\<lparr>sb_type_name := s\<rparr>"

text \<open>Whole milliseconds between two instants, zero when the clock went back.\<close>

definition elapsed_ms :: "int \<Rightarrow> int \<Rightarrow> nat" where
  "elapsed_ms now since = (if now < since then 0 else nat ((now - since) div 1000000))"

definition sb_recovered :: "int \<Rightarrow> sub_breaker \<Rightarrow> bool" where
  "sb_recovered now b =
     (case sb_last_failure_at b of
        None \<Rightarrow> False
      | Some failed_at \<Rightarrow> sb_recovery_window_ms b \<le> elapsed_ms now failed_at)"

definition check_recovery :: "int \<Rightarrow> sub_breaker \<Rightarrow> sub_breaker" where
  "check_recovery now b =
     (if sb_state b \<noteq> Open then b
      else if sb_recovered now b then b\<lparr>sb_state := HalfOpen\<rparr> else b)"

datatype lifecycle_event =
    CircuitOpened string string "32 word"
  | CircuitClosed string string

definition sb_on_success :: "sub_breaker \<Rightarrow> lifecycle_event option \<times> sub_breaker" where
  "sb_on_success b =
     ((if sb_state b = HalfOpen then Some (CircuitClosed (sb_subscriber_id b) (sb_type_name b)) else None),
      b\<lparr>sb_state := Closed, sb_failures := 0\<rparr>)"

definition sb_on_failure :: "int \<Rightarrow> sub_breaker \<Rightarrow> lifecycle_event option \<times> sub_breaker" where
  "sb_on_failure now b =
     (let new_count = sb_failures b + 1;
          b1 = b\<lparr>sb_failures := new_count, sb_last_failure_at := Some now\<rparr>;
          opens = (case sb_state b of
              HalfOpen \<Rightarrow> True
            | Closed \<Rightarrow> sb_open_threshold b \<le> new_count
            | Open \<Rightarrow> False)
      in if opens
         then (Some (CircuitOpened (sb_subscriber_id b) (sb_type_name b) new_count), b1\<lparr>sb_state := Open\<rparr>)
         else (None, b1))"

text \<open>A delivery has two parts with the subscriber's own work between them, in which other
  deliveries can run: the admission, and the accounting of the outcome.\<close>

datatype delivery = Delivered | Failed | TimedOut

definition sb_admit :: "int \<Rightarrow> sub_breaker \<Rightarrow> bool \<times> sub_breaker" where
  "sb_admit now b = (let b1 = check_recovery now b in (sb_state b1 \<noteq> Open, b1))"

definition sb_complete :: "delivery \<Rightarrow> int \<Rightarrow> sub_breaker \<Rightarrow> lifecycle_event option \<times> sub_breaker" where
  "sb_complete d now b =
     (case d of Delivered \<Rightarrow> sb_on_success b | Failed \<Rightarrow> sb_on_failure now b | TimedOut \<Rightarrow> sb_on_failure now b)"

definition sb_on_event :: "int \<Rightarrow> delivery \<Rightarrow> int \<Rightarrow> sub_breaker \<Rightarrow> lifecycle_event list \<times> sub_breaker" where
  "sb_on_event t d u b =
     (case sb_admit t b of
        (False, b1) \<Rightarrow> ([], b1)
      | (True, b1) \<Rightarrow>
          (case sb_complete d u b1 of
             (None, b2) \<Rightarrow> ([], b2)
           | (Some e, b2) \<Rightarrow> ([e], b2)))"

fun sb_run :: "(int \<times> delivery \<times> int) list \<Rightarrow> sub_breaker \<Rightarrow> lifecycle_event list \<times> sub_breaker" where
  "sb_run [] b = ([], b)"
| "sb_run ((t, d, u) # xs) b =
     (let (es, b1) = sb_on_event t d u b; (fs, b2) = sb_run xs b1 in (es @ fs, b2))"

text \<open>Interleaved deliveries: \<open>n\<close> of them are in flight.\<close>

inductive sb_reachable :: "sub_breaker \<Rightarrow> sub_breaker \<times> nat \<Rightarrow> bool"
  for b0 where
  start: "sb_reachable b0 (b0, 0)"
| admitted: "sb_reachable b0 (b, n) \<Longrightarrow> sb_admit t b = (True, b') \<Longrightarrow> sb_reachable b0 (b', Suc n)"
| discarded: "sb_reachable b0 (b, n) \<Longrightarrow> sb_admit t b = (False, b') \<Longrightarrow> sb_reachable b0 (b', n)"
| completed: "sb_reachable b0 (b, Suc n) \<Longrightarrow> sb_complete d t b = (e, b') \<Longrightarrow> sb_reachable b0 (b', n)"

inductive_cases sb_reachable_elim: "sb_reachable b0 s"

definition sb_inv :: "sub_breaker \<Rightarrow> bool" where
  "sb_inv b \<longleftrightarrow>
     (sb_state b = Open \<longrightarrow> sb_last_failure_at b \<noteq> None) \<and>
     (sb_state b = Closed \<longrightarrow> sb_failures b = 0 \<or> sb_failures b < sb_open_threshold b)"

interpretation sb: breaker sb_state sb_recovered sb_admit
    "\<lambda>b. snd (sb_on_success b)" "\<lambda>t b. snd (sb_on_failure t b)"
    "\<lambda>t u b. sb_recovery_window_ms b \<le> elapsed_ms u t"
  by unfold_locales
    (simp_all add: sb_admit_def check_recovery_def Let_def sb_on_success_def sb_on_failure_def sb_recovered_def)

lemma sb_inv_admit: "sb_inv b \<Longrightarrow> sb_admit t b = (r, b') \<Longrightarrow> sb_inv b'"
  by (auto simp: sb_inv_def sb_admit_def check_recovery_def Let_def split: if_splits)

lemma sb_inv_complete: "sb_inv b \<Longrightarrow> sb_complete d t b = (e, b') \<Longrightarrow> sb_inv b'"
  by (cases "sb_state b"; cases d)
    (auto simp: sb_inv_def sb_complete_def sb_on_success_def sb_on_failure_def Let_def not_le split: if_splits)

lemma sb_reachable_inv: "sb_reachable b0 s \<Longrightarrow> sb_inv b0 \<Longrightarrow> sb_inv (fst s)"
  by (induction rule: sb_reachable.induct) (auto dest: sb_inv_admit sb_inv_complete)

text \<open>A non-empty event list tells the state: its last event is \<open>circuit_closed\<close> iff the breaker is closed.\<close>

definition track :: "circuit_state \<Rightarrow> lifecycle_event list \<Rightarrow> bool" where
  "track ph es \<longleftrightarrow> (ph = Closed) = (case last es of CircuitClosed _ _ \<Rightarrow> True | CircuitOpened _ _ _ \<Rightarrow> False)"

lemma sb_on_event_track:
  assumes "sb_on_event t d u b = (es, b')"
  shows "if es = [] then (sb_state b' = Closed) = (sb_state b = Closed) else track (sb_state b') es"
  using assms
  by (cases "sb_state b"; cases d)
    (auto simp: track_def sb_on_event_def sb_admit_def check_recovery_def sb_complete_def sb_on_success_def
      sb_on_failure_def Let_def split: if_splits option.splits prod.splits bool.splits)

lemma sb_run_track:
  "sb_run xs b = (es, b') \<Longrightarrow>
     if es = [] then (sb_state b' = Closed) = (sb_state b = Closed) else track (sb_state b') es"
proof (induction xs arbitrary: b es b')
  case Nil
  then show ?case by simp
next
  case (Cons x xs)
  obtain t d u where x: "x = (t, d, u)" by (cases x)
  obtain es1 b1 where 1: "sb_on_event t d u b = (es1, b1)" by (cases "sb_on_event t d u b")
  obtain es2 b2 where 2: "sb_run xs b1 = (es2, b2)" by (cases "sb_run xs b1")
  from Cons.prems x 1 2 have es: "es = es1 @ es2" "b' = b2" by auto
  note t1 = sb_on_event_track [OF 1] and t2 = Cons.IH [OF 2]
  show ?case
  proof (cases "es2 = []")
    case True
    with t2 have "(sb_state b2 = Closed) = (sb_state b1 = Closed)" by simp
    with t1 es True show ?thesis by (cases "es1 = []") (simp_all add: track_def)
  next
    case False
    with t2 es show ?thesis by (simp add: track_def)
  qed
qed

text \<open>under any interleaving of deliveries, an open breaker always knows when its last failure was,
  so it cannot stay open for ever, and a closed one has fewer consecutive failures on record than its
  threshold.\<close>

theorem subscriber_breaker_invariant:
  assumes "sb_reachable (sb_with_open_threshold n (sb_with_recovery_window_ms w (sb_new sid ty))) (b, k)"
  shows "(sb_state b = Open \<longrightarrow> sb_last_failure_at b \<noteq> None) \<and>
    (sb_state b = Closed \<longrightarrow> sb_failures b = 0 \<or> sb_failures b < sb_open_threshold b)"
  using sb_reachable_inv [OF assms]
  by (simp add: sb_inv_def sb_new_def sb_with_open_threshold_def sb_with_recovery_window_ms_def)

lemma subscriber_breaker_invariant_witness:
  "let b = snd (sb_on_failure 7 (sb_with_open_threshold 1 (sb_with_recovery_window_ms 10 (sb_new ''s'' ''webhook''))))
   in sb_state b = Open \<and> sb_last_failure_at b \<noteq> None"
proof -
  let ?init = "sb_with_open_threshold 1 (sb_with_recovery_window_ms 10 (sb_new ''s'' ''webhook''))"
  let ?opened = "snd (sb_on_failure 7 ?init)"
  have "sb_admit 3 ?init = (True, ?init)"
    by (simp add: sb_admit_def check_recovery_def sb_new_def sb_with_open_threshold_def
        sb_with_recovery_window_ms_def)
  from sb_reachable.admitted [OF sb_reachable.start this] have "sb_reachable ?init (?init, Suc 0)" .
  from sb_reachable.completed [OF this, of Failed 7 _ ?opened] have r: "sb_reachable ?init (?opened, 0)"
    by (metis delivery.simps(8) prod.collapse sb_complete_def)
  have "sb_state ?opened = Open"
    by (simp add: sb_on_failure_def Let_def sb_new_def sb_with_open_threshold_def
        sb_with_recovery_window_ms_def)
  with subscriber_breaker_invariant [OF r] show ?thesis by (simp add: Let_def)
qed

text \<open>liveness of recovery. Once the recovery window has passed since the last failure, the first
  delivery that finds the breaker open is let through as a probe, whatever was discarded before;
  its success lets every later delivery through, its failure closes the gate for another window.\<close>

theorem subscriber_breaker_recovers:
  assumes "sb_state b = Open" and "sb_last_failure_at b = Some t0"
    and "\<forall>t \<in> set ts. elapsed_ms t t0 < sb_recovery_window_ms b"
    and "sb_recovery_window_ms b \<le> elapsed_ms u t0"
  shows "\<exists>b'. admit_all sb_admit (ts @ [u]) b = (replicate (length ts) False @ [True], b') \<and>
    (let (e, c) = sb_complete Delivered v b' in
       e = Some (CircuitClosed (sb_subscriber_id b') (sb_type_name b')) \<and>
       admit_all sb_admit us c = (replicate (length us) True, c)) \<and>
    (let (e, c) = sb_complete Failed v b' in
       e = Some (CircuitOpened (sb_subscriber_id b') (sb_type_name b') (sb_failures b' + 1)) \<and>
       ((\<forall>x \<in> set us. elapsed_ms x v < sb_recovery_window_ms b') \<longrightarrow>
         admit_all sb_admit us c = (replicate (length us) False, c)))"
proof -
  have "\<forall>t \<in> set ts. \<not> sb_recovered t b" "sb_recovered u b"
    using assms(2-4) by (auto simp: sb_recovered_def)
  from sb.first_recovered_is_probe [OF assms(1) this] obtain b' where
    b': "admit_all sb_admit (ts @ [u]) b = (replicate (length ts) False @ [True], b')"
      "sb_state b' = HalfOpen" by blast
  have "sb_on_success b' =
      (Some (CircuitClosed (sb_subscriber_id b') (sb_type_name b')), snd (sb_on_success b'))"
    using b'(2) by (simp add: sb_on_success_def)
  moreover have "sb_on_failure v b' =
      (Some (CircuitOpened (sb_subscriber_id b') (sb_type_name b') (sb_failures b' + 1)),
       snd (sb_on_failure v b'))"
    using b'(2) by (simp add: sb_on_failure_def Let_def)
  ultimately show ?thesis
    using b' sb.successful_probe_admits [OF b'(2), of us] sb.failed_probe_rejects [OF b'(2), of us v]
    by (intro exI [of _ b'])
      (auto simp: sb_complete_def not_le split: prod.splits)
qed

lemma subscriber_breaker_recovers_witness:
  "\<exists>b'. admit_all sb_admit ([5000000] @ [11000000])
     ((sb_new ''s'' ''webhook'')\<lparr>sb_state := Open, sb_last_failure_at := Some 0, sb_recovery_window_ms := 10\<rparr>) =
     ([False, True], b')"
  using subscriber_breaker_recovers [of "(sb_new ''s'' ''webhook'')\<lparr>sb_state := Open,
      sb_last_failure_at := Some 0, sb_recovery_window_ms := 10\<rparr>" 0 "[5000000]" 11000000 0 "[]"]
  by (auto simp: elapsed_ms_def)

text \<open>with deliveries one after the other, the lifecycle events tell the state: from a closed
  breaker, the breaker is closed again exactly when it has emitted nothing or its last event
  is \<open>circuit_closed\<close>.\<close>

theorem lifecycle_events_tell_the_state:
  "case sb_run xs (sb_with_open_threshold n (sb_with_recovery_window_ms w (sb_new sid ty))) of
     (es, b) \<Rightarrow> sb_state b = Closed \<longleftrightarrow>
       es = [] \<or> (case last es of CircuitClosed _ _ \<Rightarrow> True | CircuitOpened _ _ _ \<Rightarrow> False)"
proof -
  let ?init = "sb_with_open_threshold n (sb_with_recovery_window_ms w (sb_new sid ty))"
  obtain es b where r: "sb_run xs ?init = (es, b)" by (cases "sb_run xs ?init")
  have "sb_state ?init = Closed"
    by (simp add: sb_new_def sb_with_open_threshold_def sb_with_recovery_window_ms_def)
  with sb_run_track [OF r] r show ?thesis by (cases "es = []") (auto simp: track_def)
qed

text \<open>Two facts about interleaved deliveries. A delivery that was admitted while the breaker was closed
  and succeeds after others have opened it closes it without an event. And a half-open breaker
  admits every delivery that arrives before the first probe has finished.\<close>

lemma open_breaker_closed_silently:
  "let b0 = sb_with_open_threshold 1 (sb_new ''s'' ''webhook'');
       (r1, b1) = sb_admit 0 b0; (r2, b2) = sb_admit 0 b1;
       (e3, b3) = sb_complete Failed 1 b2; (e4, b4) = sb_complete Delivered 2 b3
   in r1 \<and> r2 \<and> sb_state b3 = Open \<and> e3 \<noteq> None \<and> sb_state b4 = Closed \<and> e4 = None"
  by (simp add: sb_admit_def check_recovery_def sb_complete_def sb_on_failure_def sb_on_success_def
      sb_new_def sb_with_open_threshold_def Let_def)

lemma half_open_admits_every_delivery:
  "sb_state b = HalfOpen \<Longrightarrow> admit_all sb_admit ts b = (replicate (length ts) True, b)"
  by (induction ts) (simp_all add: sb_admit_def check_recovery_def Let_def)

lemma recovery_keeps_last_failure:
  "sb_last_failure_at (snd (sb_complete Delivered t b)) = sb_last_failure_at b"
  by (simp add: sb_complete_def sb_on_success_def)

end
