(* ===== verification/CallBreakers.thy ===== *)
theory CallBreakers
  imports Breakers
begin

section \<open>The middleware's circuit breaker, per module and caller\<close>

text \<open>
  \<open>src/src/middleware/circuit_breaker.rs\<close>. Instants are nanoseconds of a monotonic clock, so that
  subtraction on natural numbers is \<open>saturating_duration_since\<close>. The error rate is a 64-bit float:
  its quotient is rounded by the parameter \<open>fl\<close> of the configuration record. Each operation reads
  and writes one circuit under the lock.
\<close>

record breaker_config =
  bc_open_threshold :: rat
  bc_window_size :: nat
  bc_recovery_window_ms :: nat
  bc_min_samples :: nat
  bc_priority :: nat
  bc_round :: "rat \<Rightarrow> rat"

definition breaker_config_default :: "(rat \<Rightarrow> rat) \<Rightarrow> breaker_config" where
  "breaker_config_default fl =
     \<lparr>bc_open_threshold = 1 / 2, bc_window_size = 20, bc_recovery_window_ms = 30000,
      bc_min_samples = 5, bc_priority = 900, bc_round = fl\<rparr>"

definition cfg_window_size :: "nat \<Rightarrow> breaker_config \<Rightarrow> breaker_config" where
  "cfg_window_size n c = c\<lparr>bc_window_size := max n 1\<rparr>"

record circuit =
  c_state :: circuit_state
  c_window :: "bool list"
  c_opened_at :: "nat option"
  c_probe_in_flight :: bool
  c_probe_started_at :: "nat option"

definition circuit_new :: circuit where
  "circuit_new = \<lparr>c_state = Closed, c_window = [], c_opened_at = None, c_probe_in_flight = False,
     c_probe_started_at = None\<rparr>"

fun evict :: "nat \<Rightarrow> bool list \<Rightarrow> bool list" where
  "evict cap [] = []"
| "evict cap (x # xs) = (if cap \<le> length (x # xs) then evict cap xs else x # xs)"

definition circuit_push :: "bool \<Rightarrow> nat \<Rightarrow> circuit \<Rightarrow> circuit" where
  "circuit_push success n c = c\<lparr>c_window := evict (max n 1) (c_window c) @ [success]\<rparr>"

definition error_rate :: "breaker_config \<Rightarrow> circuit \<Rightarrow> rat" where
  "error_rate cfg c =
     (if c_window c = [] then 0
      else bc_round cfg (of_nat (length (filter Not (c_window c))) / of_nat (length (c_window c))))"

text \<open>The admission: recover, reclaim a lost probe, decide.\<close>

definition recovery_ns :: "breaker_config \<Rightarrow> nat" where
  "recovery_ns cfg = bc_recovery_window_ms cfg * 1000000"

definition c_recovered :: "breaker_config \<Rightarrow> nat \<Rightarrow> circuit \<Rightarrow> bool" where
  "c_recovered cfg now c =
     (case c_opened_at c of None \<Rightarrow> False | Some t \<Rightarrow> recovery_ns cfg \<le> now - t)"

definition no_probe :: "circuit \<Rightarrow> circuit" where
  "no_probe c = c\<lparr>c_probe_in_flight := False, c_probe_started_at := None\<rparr>"

definition maybe_recover :: "breaker_config \<Rightarrow> nat \<Rightarrow> circuit \<Rightarrow> circuit" where
  "maybe_recover cfg now c =
     (if c_state c = Open \<and> c_recovered cfg now c then no_probe (c\<lparr>c_state := HalfOpen\<rparr>) else c)"

definition reclaim_probe :: "breaker_config \<Rightarrow> nat \<Rightarrow> circuit \<Rightarrow> circuit" where
  "reclaim_probe cfg now c =
     (if c_state c = HalfOpen \<and> c_probe_in_flight c then
        (case c_probe_started_at c of
           Some t \<Rightarrow> if recovery_ns cfg \<le> now - t then no_probe c else c
         | None \<Rightarrow> c)
      else c)"

datatype before_outcome = Allow circuit_state | Reject

definition decide_before :: "nat \<Rightarrow> circuit \<Rightarrow> before_outcome \<times> circuit" where
  "decide_before now c =
     (case c_state c of
        Open \<Rightarrow> (Reject, c)
      | HalfOpen \<Rightarrow>
          if c_probe_in_flight c then (Reject, c)
          else (Allow HalfOpen, c\<lparr>c_probe_in_flight := True, c_probe_started_at := Some now\<rparr>)
      | Closed \<Rightarrow> (Allow Closed, c))"

definition circuit_before :: "breaker_config \<Rightarrow> nat \<Rightarrow> circuit \<Rightarrow> before_outcome \<times> circuit" where
  "circuit_before cfg now c = decide_before now (reclaim_probe cfg now (maybe_recover cfg now c))"

text \<open>The accounting of a success and of an error; the flag says whether an event is emitted.\<close>

definition circuit_after :: "breaker_config \<Rightarrow> circuit \<Rightarrow> bool \<times> circuit" where
  "circuit_after cfg c =
     (let c1 = circuit_push True (bc_window_size cfg) c in
      if c_state c1 = HalfOpen
      then (True, no_probe (c1\<lparr>c_state := Closed, c_opened_at := None, c_window := []\<rparr>))
      else (False, c1))"

definition circuit_on_error :: "breaker_config \<Rightarrow> nat \<Rightarrow> circuit \<Rightarrow> bool \<times> circuit" where
  "circuit_on_error cfg now c =
     (let c1 = circuit_push False (bc_window_size cfg) c;
          opens = (case c_state c1 of
              HalfOpen \<Rightarrow> True
            | Closed \<Rightarrow> bc_min_samples cfg \<le> length (c_window c1) \<and> bc_open_threshold cfg \<le> error_rate cfg c1
            | Open \<Rightarrow> False)
      in if opens then (True, no_probe (c1\<lparr>c_state := Open, c_opened_at := Some now\<rparr>)) else (False, c1))"

subsection \<open>The middleware\<close>

record breaker_event =
  be_type :: string
  be_module_id :: string
  be_caller_id :: string
  be_error_rate :: rat
  be_severity :: string

record breaker_mw =
  bm_config :: breaker_config
  bm_circuits :: "string \<times> string \<Rightarrow> circuit option"
  bm_events :: "breaker_event list"

text \<open>The emitter is a log: emission is infallible and isolated. Without an emitter it is not read.\<close>

definition mw_with_parts :: "breaker_config \<Rightarrow> breaker_mw" where
  "mw_with_parts cfg =
     \<lparr>bm_config = (if bc_window_size cfg = 0 then cfg\<lparr>bc_window_size := 1\<rparr> else cfg),
      bm_circuits = (\<lambda>_. None), bm_events = []\<rparr>"

definition mw_circuit :: "breaker_mw \<Rightarrow> string \<times> string \<Rightarrow> circuit" where
  "mw_circuit m k = (case bm_circuits m k of None \<Rightarrow> circuit_new | Some c \<Rightarrow> c)"

definition mw_put :: "string \<times> string \<Rightarrow> circuit \<Rightarrow> breaker_mw \<Rightarrow> breaker_mw" where
  "mw_put k c m = m\<lparr>bm_circuits := (bm_circuits m)(k := Some c)\<rparr>"

definition mw_emit :: "breaker_event \<Rightarrow> breaker_mw \<Rightarrow> breaker_mw" where
  "mw_emit e m = m\<lparr>bm_events := bm_events m @ [e]\<rparr>"

definition mw_state :: "breaker_mw \<Rightarrow> string \<Rightarrow> string \<Rightarrow> circuit_state" where
  "mw_state m mid caller =
     (case bm_circuits m (mid, caller) of None \<Rightarrow> Closed | Some c \<Rightarrow> c_state c)"

definition mw_force_state ::
  "string \<Rightarrow> string \<Rightarrow> circuit_state \<Rightarrow> nat option \<Rightarrow> breaker_mw \<Rightarrow> breaker_mw" where
  "mw_force_state mid caller st opened m =
     mw_put (mid, caller)
       (no_probe ((mw_circuit m (mid, caller))\<lparr>c_state := st, c_opened_at := opened\<rparr>)) m"

definition mw_reset :: "string \<Rightarrow> string option \<Rightarrow> breaker_mw \<Rightarrow> breaker_mw" where
  "mw_reset mid caller m =
     (let k = (mid, case caller of None \<Rightarrow> [] | Some c \<Rightarrow> c) in
      case bm_circuits m k of
        None \<Rightarrow> m
      | Some c \<Rightarrow> mw_put k (no_probe (c\<lparr>c_state := Closed, c_window := [], c_opened_at := None\<rparr>)) m)"

definition key_of :: "string \<Rightarrow> json call_context \<Rightarrow> string \<times> string" where
  "key_of mid ctx = (mid, case ctx_caller_id ctx of None \<Rightarrow> [] | Some c \<Rightarrow> c)"

definition write_state_to_context ::
  "json call_context \<Rightarrow> circuit_state \<Rightarrow> data_store \<Rightarrow> data_store" where
  "write_state_to_context ctx st = write_data ctx ''_apcore.mw.circuit.state'' (JString (circuit_state_str st))"

definition mw_before ::
  "string \<Rightarrow> json call_context \<Rightarrow> nat \<Rightarrow> breaker_mw \<times> data_store
     \<Rightarrow> (module_error + json option) \<times> breaker_mw \<times> data_store" where
  "mw_before mid ctx now s =
     (case s of (m, st) \<Rightarrow>
        let k = key_of mid ctx;
            (outcome, c) = circuit_before (bm_config m) now (mw_circuit m k);
            m1 = mw_put k c m
        in case outcome of
             Reject \<Rightarrow>
               (Inl (circuit_breaker_open (fst k) (snd k)), m1, write_state_to_context ctx Open st)
           | Allow cs \<Rightarrow> (Inr None, m1, write_state_to_context ctx cs st))"

definition mw_after ::
  "string \<Rightarrow> json call_context \<Rightarrow> breaker_mw \<Rightarrow> (module_error + json option) \<times> breaker_mw" where
  "mw_after mid ctx m =
     (let k = key_of mid ctx;
          (emit, c) = circuit_after (bm_config m) (mw_circuit m k);
          m1 = mw_put k c m
      in (Inr None,
          if emit
          then mw_emit \<lparr>be_type = ''apcore.circuit.closed'', be_module_id = fst k, be_caller_id = snd k,
                 be_error_rate = 0, be_severity = ''info''\<rparr> m1
          else m1))"

definition mw_on_error ::
  "string \<Rightarrow> module_error \<Rightarrow> json call_context \<Rightarrow> nat \<Rightarrow> breaker_mw
     \<Rightarrow> (module_error + json option) \<times> breaker_mw" where
  "mw_on_error mid e ctx now m =
     (if err_code e = CircuitBreakerOpen then (Inr None, m)
      else
        let k = key_of mid ctx;
            pushed = circuit_push False (bc_window_size (bm_config m)) (mw_circuit m k);
            (emit, c) = circuit_on_error (bm_config m) now (mw_circuit m k);
            m1 = mw_put k c m
        in (Inr None,
            if emit
            then mw_emit \<lparr>be_type = ''apcore.circuit.opened'', be_module_id = fst k, be_caller_id = snd k,
                   be_error_rate = error_rate (bm_config m) pushed, be_severity = ''warn''\<rparr> m1
            else m1))"

subsection \<open>The rolling window\<close>

lemma evict_eq: "0 < cap \<Longrightarrow> evict cap xs = drop (Suc (length xs) - cap) xs"
proof (induction xs)
  case Nil
  then show ?case by simp
next
  case (Cons x xs)
  then show ?case by (cases "cap \<le> length (x # xs)") (auto simp: Suc_diff_le)
qed

lemma window_push:
  "0 < cap \<Longrightarrow> evict cap (drop (length xs - cap) xs) @ [x] = drop (length (xs @ [x]) - cap) (xs @ [x])"
  by (cases "cap \<le> length xs") (auto simp: evict_eq Suc_diff_le)

definition pushes :: "nat \<Rightarrow> bool list \<Rightarrow> circuit \<Rightarrow> circuit" where
  "pushes n xs c = fold (\<lambda>x. circuit_push x n) xs c"

lemma pushes_window:
  "c_window c = [] \<Longrightarrow> c_window (pushes n xs c) = drop (length xs - max n 1) xs"
proof (induction xs rule: rev_induct)
  case Nil
  then show ?case by (simp add: pushes_def)
next
  case (snoc x xs)
  then show ?case
    using window_push [of "max n 1" xs x] by (simp add: pushes_def circuit_push_def)
qed

lemma length_evict: "0 < cap \<Longrightarrow> length (evict cap xs) < cap"
  by (simp add: evict_eq)

lemma push_length: "length (c_window (circuit_push b n c)) \<le> max n 1"
proof -
  have "length (evict (max n 1) (c_window c)) < max n 1" by (rule length_evict) simp
  then show ?thesis by (simp add: circuit_push_def)
qed

subsection \<open>The invariant of a circuit\<close>

definition circuit_inv :: "breaker_config \<Rightarrow> circuit \<Rightarrow> bool" where
  "circuit_inv cfg c \<longleftrightarrow>
     length (c_window c) \<le> max (bc_window_size cfg) 1 \<and>
     (c_state c = Open \<longrightarrow> c_opened_at c \<noteq> None) \<and>
     (c_probe_in_flight c \<longrightarrow> c_state c = HalfOpen \<and> c_probe_started_at c \<noteq> None)"

lemmas circuit_step_defs =
  circuit_before_def decide_before_def reclaim_probe_def maybe_recover_def no_probe_def
  circuit_after_def circuit_on_error_def Let_def

lemma circuit_push_simps [simp]:
  "c_state (circuit_push b n c) = c_state c" "c_opened_at (circuit_push b n c) = c_opened_at c"
  "c_probe_in_flight (circuit_push b n c) = c_probe_in_flight c"
  "c_probe_started_at (circuit_push b n c) = c_probe_started_at c"
  by (simp_all add: circuit_push_def)

lemma circuit_inv_new: "circuit_inv cfg circuit_new"
  by (simp add: circuit_inv_def circuit_new_def)

lemma circuit_inv_before: "circuit_inv cfg c \<Longrightarrow> circuit_inv cfg (snd (circuit_before cfg now c))"
  by (cases "c_state c")
    (auto simp: circuit_inv_def circuit_step_defs split: option.splits)

lemma circuit_inv_after: "circuit_inv cfg c \<Longrightarrow> circuit_inv cfg (snd (circuit_after cfg c))"
  using push_length [of True "bc_window_size cfg" c] by (auto simp: circuit_inv_def circuit_step_defs)

lemma circuit_inv_on_error: "circuit_inv cfg c \<Longrightarrow> circuit_inv cfg (snd (circuit_on_error cfg now c))"
  using push_length [of False "bc_window_size cfg" c]
  by (cases "c_state c") (auto simp: circuit_inv_def circuit_step_defs)

inductive mw_reachable :: "breaker_config \<Rightarrow> breaker_mw \<Rightarrow> bool"
  for cfg where
  start: "mw_reachable cfg (mw_with_parts cfg)"
| before: "mw_reachable cfg m \<Longrightarrow> mw_before mid ctx now (m, st) = (r, m', st') \<Longrightarrow> mw_reachable cfg m'"
| after: "mw_reachable cfg m \<Longrightarrow> mw_after mid ctx m = (r, m') \<Longrightarrow> mw_reachable cfg m'"
| on_error: "mw_reachable cfg m \<Longrightarrow> mw_on_error mid e ctx now m = (r, m') \<Longrightarrow> mw_reachable cfg m'"
| reset: "mw_reachable cfg m \<Longrightarrow> mw_reachable cfg (mw_reset mid caller m)"

definition mw_inv :: "breaker_mw \<Rightarrow> bool" where
  "mw_inv m \<longleftrightarrow> 0 < bc_window_size (bm_config m) \<and> (\<forall>k. circuit_inv (bm_config m) (mw_circuit m k))"

lemma mw_put_simps [simp]:
  "bm_config (mw_put k c m) = bm_config m"
  "mw_circuit (mw_put k c m) k' = (if k' = k then c else mw_circuit m k')"
  by (auto simp: mw_put_def mw_circuit_def)

lemma mw_emit_simps [simp]:
  "bm_config (mw_emit e m) = bm_config m" "mw_circuit (mw_emit e m) = mw_circuit m"
  by (auto simp: mw_emit_def mw_circuit_def)

lemma mw_circuit_before:
  "mw_before mid ctx now (m, st) = (r, m', st') \<Longrightarrow> bm_config m' = bm_config m \<and>
     mw_circuit m' = (mw_circuit m)(key_of mid ctx := snd (circuit_before (bm_config m) now (mw_circuit m (key_of mid ctx))))"
  by (auto simp: mw_before_def Let_def split: prod.splits before_outcome.splits)

lemma mw_circuit_after:
  "mw_after mid ctx m = (r, m') \<Longrightarrow> bm_config m' = bm_config m \<and>
     mw_circuit m' = (mw_circuit m)(key_of mid ctx := snd (circuit_after (bm_config m) (mw_circuit m (key_of mid ctx))))"
  by (auto simp: mw_after_def Let_def split: prod.splits if_splits)

lemma mw_circuit_on_error:
  "mw_on_error mid e ctx now m = (r, m') \<Longrightarrow> bm_config m' = bm_config m \<and>
     mw_circuit m' = (if err_code e = CircuitBreakerOpen then mw_circuit m
       else (mw_circuit m)(key_of mid ctx :=
         snd (circuit_on_error (bm_config m) now (mw_circuit m (key_of mid ctx)))))"
  by (auto simp: mw_on_error_def Let_def split: prod.splits if_splits)

lemma mw_circuit_reset:
  "bm_config (mw_reset mid caller m) = bm_config m \<and>
     mw_circuit (mw_reset mid caller m) k =
       (if k = (mid, case caller of None \<Rightarrow> [] | Some c \<Rightarrow> c) \<and> bm_circuits m k \<noteq> None
        then no_probe ((mw_circuit m k)\<lparr>c_state := Closed, c_window := [], c_opened_at := None\<rparr>)
        else mw_circuit m k)"
  by (auto simp: mw_reset_def Let_def mw_circuit_def mw_put_def split: option.splits)

lemma mw_inv_put:
  "mw_inv m \<Longrightarrow> bm_config m' = bm_config m \<and> mw_circuit m' = (mw_circuit m)(k := c) \<Longrightarrow>
     circuit_inv (bm_config m) c \<Longrightarrow> mw_inv m'"
  by (simp add: mw_inv_def)

lemma mw_inv_circuit: "mw_inv m \<Longrightarrow> circuit_inv (bm_config m) (mw_circuit m k)"
  unfolding mw_inv_def by blast

lemma mw_reachable_inv: "mw_reachable cfg m \<Longrightarrow> mw_inv m"
proof (induction rule: mw_reachable.induct)
  case start
  then show ?case by (auto simp: mw_inv_def mw_with_parts_def mw_circuit_def circuit_inv_new)
next
  case (before m mid ctx now st r m' st')
  show ?case
    by (rule mw_inv_put [OF before(3) mw_circuit_before [OF before(2)]])
      (intro circuit_inv_before mw_inv_circuit before(3))
next
  case (after m mid ctx r m')
  show ?case
    by (rule mw_inv_put [OF after(3) mw_circuit_after [OF after(2)]])
      (intro circuit_inv_after mw_inv_circuit after(3))
next
  case (on_error m mid e ctx now r m')
  note s = mw_circuit_on_error [OF on_error(2)]
  show ?case
  proof (cases "err_code e = CircuitBreakerOpen")
    case True
    with s on_error(3) show ?thesis by (simp add: mw_inv_def)
  next
    case False
    with s have "bm_config m' = bm_config m \<and> mw_circuit m' = (mw_circuit m)(key_of mid ctx :=
        snd (circuit_on_error (bm_config m) now (mw_circuit m (key_of mid ctx))))" by simp
    from mw_inv_put [OF on_error(3) this] show ?thesis
      by (simp add: circuit_inv_on_error mw_inv_circuit on_error(3))
  qed
next
  case (reset m mid caller)
  have "circuit_inv (bm_config m) (no_probe ((mw_circuit m k)\<lparr>c_state := Closed, c_window := [], c_opened_at := None\<rparr>))"
    for k by (simp add: circuit_inv_def no_probe_def)
  with reset(2) show ?case by (simp add: mw_inv_def mw_circuit_reset)
qed

text \<open>in every state that calls can reach, with completions in any order, each circuit's window
  holds at most the configured number of outcomes, an open circuit knows when it opened, and a
  probe is in flight only in the half-open state and with its start time on record.\<close>

theorem call_breaker_invariant:
  assumes "mw_reachable cfg m" and "bm_circuits m (mid, caller) = Some c"
  shows "length (c_window c) \<le> max (bc_window_size (bm_config m)) 1 \<and>
    (c_state c = Open \<longrightarrow> c_opened_at c \<noteq> None) \<and>
    (c_probe_in_flight c \<longrightarrow> c_state c = HalfOpen \<and> c_probe_started_at c \<noteq> None)"
  using mw_inv_circuit [OF mw_reachable_inv [OF assms(1)], of "(mid, caller)"] assms(2)
  by (simp add: circuit_inv_def mw_circuit_def)

abbreviation sample_ctx :: "json call_context" where
  "sample_ctx \<equiv> \<lparr>ctx_trace_id = ''t'', ctx_identity = None, ctx_services = JNull, ctx_caller_id = Some ''c'',
     ctx_data = 0, ctx_call_chain = [], ctx_redacted_inputs = None, ctx_redacted_output = None,
     ctx_cancel_token = None, ctx_global_deadline = None, ctx_executor = None\<rparr>"

lemma call_breaker_invariant_witness:
  "let cfg = (breaker_config_default id)\<lparr>bc_min_samples := 1\<rparr>;
       m = snd (mw_on_error ''m'' (module_error_new ModuleExecuteError) sample_ctx 9 (mw_with_parts cfg))
   in case bm_circuits m (''m'', ''c'') of
        None \<Rightarrow> False
      | Some c \<Rightarrow> c_state c = Open \<and> c_opened_at c \<noteq> None"
proof -
  let ?cfg = "(breaker_config_default id)\<lparr>bc_min_samples := 1\<rparr>"
  let ?x = "mw_on_error ''m'' (module_error_new ModuleExecuteError) sample_ctx 9 (mw_with_parts ?cfg)"
  have r: "mw_reachable ?cfg (snd ?x)"
    by (rule mw_reachable.on_error [OF mw_reachable.start]) (rule surjective_pairing)
  obtain c where c: "bm_circuits (snd ?x) (''m'', ''c'') = Some c" "c_state c = Open"
    by (simp add: mw_on_error_def key_of_def Let_def mw_with_parts_def breaker_config_default_def
        circuit_on_error_def mw_circuit_def circuit_new_def circuit_push_def error_rate_def
        module_error_new_def no_probe_def mw_put_def mw_emit_def)
  from call_breaker_invariant [OF r c(1)] c show ?thesis by (simp add: Let_def)
qed

text \<open>the admission of a call. It is refused exactly when its circuit is open and not yet due, or
  half-open with a probe that is not stale; a refusal is the typed error for this module and caller;
  the circuits of all other modules and callers are left alone, and the context records the state.\<close>

theorem call_breaker_admission:
  assumes "mw_before mid ctx now (m, st) = (r, m', st')"
  defines "c \<equiv> mw_circuit m (key_of mid ctx)"
  shows "(r = Inl (circuit_breaker_open mid (snd (key_of mid ctx))) \<or> r = Inr None) \<and>
    ((\<exists>e. r = Inl e) \<longleftrightarrow>
       c_state c = Open \<and> \<not> c_recovered (bm_config m) now c \<or>
       c_state c = HalfOpen \<and> c_probe_in_flight c \<and>
         (case c_probe_started_at c of None \<Rightarrow> True | Some t \<Rightarrow> now - t < recovery_ns (bm_config m))) \<and>
    (\<forall>k. k \<noteq> key_of mid ctx \<longrightarrow> bm_circuits m' k = bm_circuits m k) \<and>
    (\<exists>cs. st' = write_state_to_context ctx cs st \<and> ((\<exists>e. r = Inl e) \<longrightarrow> cs = Open))"
proof -
  have fst: "fst (key_of mid ctx) = mid" by (simp add: key_of_def)
  obtain b c' where b: "circuit_before (bm_config m) now c = (b, c')"
    by (cases "circuit_before (bm_config m) now c")
  have "b = Reject \<longleftrightarrow>
       c_state c = Open \<and> \<not> c_recovered (bm_config m) now c \<or>
       c_state c = HalfOpen \<and> c_probe_in_flight c \<and>
         (case c_probe_started_at c of None \<Rightarrow> True | Some t \<Rightarrow> now - t < recovery_ns (bm_config m))"
    using b by (cases "c_state c") (auto simp: circuit_step_defs not_le split: if_splits option.splits)
  with assms(1) b fst show ?thesis
    by (cases b) (auto simp: mw_before_def Let_def c_def mw_put_def)
qed

lemma call_breaker_admission_witness:
  "let m = mw_force_state ''m'' ''c'' Open (Some 0) (mw_with_parts (breaker_config_default id)) in
   \<exists>e. fst (mw_before ''m'' sample_ctx 5 (m, st)) = Inl e"
proof -
  let ?m = "mw_force_state ''m'' ''c'' Open (Some 0) (mw_with_parts (breaker_config_default id))"
  obtain r m' st' where b: "mw_before ''m'' sample_ctx 5 (?m, st) = (r, m', st')"
    by (cases "mw_before ''m'' sample_ctx 5 (?m, st)")
  have c: "mw_circuit ?m (key_of ''m'' sample_ctx) =
      no_probe (circuit_new\<lparr>c_state := Open, c_opened_at := Some 0\<rparr>)"
    by (simp add: mw_force_state_def key_of_def mw_circuit_def mw_put_def mw_with_parts_def
        breaker_config_default_def)
  have "bm_config ?m = breaker_config_default id"
    by (simp add: mw_force_state_def mw_with_parts_def breaker_config_default_def)
  with call_breaker_admission [OF b] c b show ?thesis
    by (auto simp: Let_def no_probe_def c_recovered_def recovery_ns_def breaker_config_default_def)
qed

subsection \<open>When a circuit opens\<close>

fun run_outcomes :: "breaker_config \<Rightarrow> (bool \<times> nat) list \<Rightarrow> circuit \<Rightarrow> circuit" where
  "run_outcomes cfg [] c = c"
| "run_outcomes cfg ((ok, now) # xs) c =
     run_outcomes cfg xs (snd (if ok then circuit_after cfg c else circuit_on_error cfg now c))"

text \<open>The specification: a history of outcomes trips the breaker if it ends in an error and its last
  \<open>window_size\<close> outcomes are enough and bad enough.\<close>

definition trips :: "breaker_config \<Rightarrow> bool list \<Rightarrow> bool" where
  "trips cfg h \<longleftrightarrow>
     (let w = drop (length h - max (bc_window_size cfg) 1) h in
      h \<noteq> [] \<and> \<not> last h \<and> bc_min_samples cfg \<le> length w \<and>
      bc_open_threshold cfg \<le> bc_round cfg (of_nat (length (filter Not w)) / of_nat (length w)))"

lemma run_outcomes_append: "run_outcomes cfg (xs @ ys) c = run_outcomes cfg ys (run_outcomes cfg xs c)"
  by (induction cfg xs c rule: run_outcomes.induct) auto

definition tripped :: "breaker_config \<Rightarrow> bool list \<Rightarrow> bool" where
  "tripped cfg h \<longleftrightarrow> (\<exists>k \<le> length h. trips cfg (take k h))"

lemma tripped_snoc: "tripped cfg (h @ [x]) \<longleftrightarrow> tripped cfg h \<or> trips cfg (h @ [x])"
  by (auto simp: tripped_def le_Suc_eq)

lemma run_outcomes_state:
  "c_window (run_outcomes cfg xs circuit_new) =
     drop (length xs - max (bc_window_size cfg) 1) (map fst xs) \<and>
   c_state (run_outcomes cfg xs circuit_new) = (if tripped cfg (map fst xs) then Open else Closed)"
proof (induction xs rule: rev_induct)
  case Nil
  then show ?case by (simp add: circuit_new_def tripped_def trips_def)
next
  case (snoc x xs)
  obtain ok now where x: "x = (ok, now)" by (cases x)
  let ?n = "max (bc_window_size cfg) 1"
  let ?h = "map fst xs"
  let ?c = "run_outcomes cfg xs circuit_new"
  from snoc have w: "c_window ?c = drop (length ?h - ?n) ?h"
    and st: "c_state ?c = (if tripped cfg ?h then Open else Closed)" by auto
  have p: "c_window (circuit_push ok (bc_window_size cfg) ?c) = drop (length (?h @ [ok]) - ?n) (?h @ [ok])"
    using window_push [of ?n ?h ok] w by (simp add: circuit_push_def)
  have ne: "c_window (circuit_push ok (bc_window_size cfg) ?c) \<noteq> []" by (simp add: circuit_push_def)
  show ?case
  proof (cases ok)
    case True
    with x p st show ?thesis
      by (simp add: run_outcomes_append circuit_after_def Let_def tripped_snoc trips_def)
  next
    case False
    with x p st ne show ?thesis
      by (auto simp: run_outcomes_append circuit_on_error_def Let_def tripped_snoc trips_def error_rate_def
          no_probe_def)
  qed
qed

text \<open>C23: a circuit opens exactly when it should. Fed any sequence of outcomes, a fresh circuit is open
  iff at some point an error arrived with enough samples among the last \<open>window_size\<close> outcomes and
  their error rate at the threshold; its window is always those last outcomes.\<close>

theorem call_breaker_opens_exactly:
  "c_window (run_outcomes cfg xs circuit_new) =
     drop (length xs - max (bc_window_size cfg) 1) (map fst xs) \<and>
   c_state (run_outcomes cfg xs circuit_new) =
     (if \<exists>k \<le> length xs. trips cfg (take k (map fst xs)) then Open else Closed)"
  using run_outcomes_state [of cfg xs] by (simp add: tripped_def)

subsection \<open>The probe\<close>

definition circuit_admit :: "breaker_config \<Rightarrow> nat \<Rightarrow> circuit \<Rightarrow> bool \<times> circuit" where
  "circuit_admit cfg now c =
     (case circuit_before cfg now c of (Allow _, c') \<Rightarrow> (True, c') | (Reject, c') \<Rightarrow> (False, c'))"

interpretation cb: breaker c_state "c_recovered cfg" "circuit_admit cfg"
    "\<lambda>c. snd (circuit_after cfg c)" "\<lambda>t c. snd (circuit_on_error cfg t c)"
    "\<lambda>t u c. recovery_ns cfg \<le> u - t"
  for cfg
  by unfold_locales
    (auto simp: circuit_admit_def circuit_step_defs c_recovered_def)

lemma probe_blocks:
  assumes "c_state c = HalfOpen" and "c_probe_in_flight c" and "c_probe_started_at c = Some u"
    and "\<forall>t \<in> set ts. t - u < recovery_ns cfg"
  shows "admit_all (circuit_admit cfg) ts c = (replicate (length ts) False, c)"
  using assms(4)
  by (induction ts) (auto simp: circuit_admit_def circuit_step_defs assms(1-3))

text \<open>C22: exactly one probe. When an open circuit becomes due, the calls before that are refused, the
  first one after is admitted, and every other one that comes within a recovery window of it is
  refused while the probe is out; a success then admits every call, a failure refuses every
  call for another window, and a probe that never reports is replaced after a window.\<close>

theorem exactly_one_probe:
  assumes "c_state c = Open" and "\<forall>t \<in> set ts. \<not> c_recovered cfg t c" and "c_recovered cfg u c"
    and "\<forall>t \<in> set us. t - u < recovery_ns cfg"
  shows "\<exists>c'. admit_all (circuit_admit cfg) (ts @ [u] @ us) c =
      (replicate (length ts) False @ [True] @ replicate (length us) False, c') \<and>
    admit_all (circuit_admit cfg) vs (snd (circuit_after cfg c')) =
      (replicate (length vs) True, snd (circuit_after cfg c')) \<and>
    ((\<forall>t \<in> set vs. t - f < recovery_ns cfg) \<longrightarrow>
      admit_all (circuit_admit cfg) vs (snd (circuit_on_error cfg f c')) =
        (replicate (length vs) False, snd (circuit_on_error cfg f c'))) \<and>
    (\<forall>t. recovery_ns cfg \<le> t - u \<longrightarrow> fst (circuit_admit cfg t c'))"
proof -
  let ?c = "c\<lparr>c_state := HalfOpen, c_probe_in_flight := True, c_probe_started_at := Some u\<rparr>"
  have "circuit_admit cfg u c = (True, ?c)"
    using assms(1,3) by (simp add: circuit_admit_def circuit_step_defs)
  then have a: "admit_all (circuit_admit cfg) (ts @ [u] @ us) c =
      (replicate (length ts) False @ [True] @ replicate (length us) False, ?c)"
    using cb.open_rejects_all [OF assms(1,2)] probe_blocks [of ?c u us cfg] assms(4)
    by (simp add: cb.admit_all_append)
  have "fst (circuit_admit cfg t ?c)" if "recovery_ns cfg \<le> t - u" for t
    using that by (simp add: circuit_admit_def circuit_step_defs)
  with a cb.successful_probe_admits [of ?c cfg vs] cb.failed_probe_rejects [of ?c vs cfg f]
  show ?thesis by (intro exI [of _ ?c]) (simp add: not_le)
qed

lemma exactly_one_probe_witness:
  "let cfg = (breaker_config_default id)\<lparr>bc_recovery_window_ms := 1\<rparr>;
       c = circuit_new\<lparr>c_state := Open, c_opened_at := Some 0\<rparr>
   in \<exists>c'. admit_all (circuit_admit cfg) ([5] @ [1000000] @ [1000001, 1000002]) c =
     ([False] @ [True] @ [False, False], c')"
proof -
  let ?cfg = "(breaker_config_default id)\<lparr>bc_recovery_window_ms := 1\<rparr>"
  let ?c = "circuit_new\<lparr>c_state := Open, c_opened_at := Some 0\<rparr>"
  have "\<forall>t \<in> set [5]. \<not> c_recovered ?cfg t ?c" "c_recovered ?cfg 1000000 ?c" "c_state ?c = Open"
    "\<forall>t \<in> set [1000001, 1000002]. t - 1000000 < recovery_ns ?cfg"
    by (simp_all add: c_recovered_def recovery_ns_def)
  from exactly_one_probe [OF this(3,1,2,4)] have "\<exists>c'. admit_all (circuit_admit ?cfg)
      ([5] @ [1000000] @ [1000001, 1000002]) ?c =
      (replicate (length [5 :: nat]) False @ [True] @ replicate (length [1000001, 1000002 :: nat]) False, c')"
    by blast
  then show ?thesis by (simp add: Let_def numeral_2_eq_2 del: admit_all.simps append.simps)
qed

end
