(* ===== verification/ModuleTypes.thy ===== *)
theory ModuleTypes
  imports Policy Dependencies
begin

section \<open>The module interface: annotations, previewed changes, declarations\<close>

text \<open>
  \<open>src/src/module.rs\<close>: \<open>ModuleAnnotations\<close> with its hand-written deserializer and
  \<open>governance_union\<close>, \<open>Change\<close> with its closed key set, the preflight results, and what
  the registry reads of a \<open>dyn Module\<close> (\<open>module_object\<close>: the identity of the \<open>Arc\<close> and
  the values its declaration methods return). The deserializers are the loops of their visitors over
  the entries of the object. The bodies of \<open>execute\<close>, \<open>stream\<close>, \<open>preview\<close> and the
  lifecycle hooks are the embedding program's.
\<close>

subsection \<open>Annotations\<close>

record module_annotations =
  ma_readonly :: bool
  ma_destructive :: bool
  ma_idempotent :: bool
  ma_requires_approval :: bool
  ma_open_world :: bool
  ma_streaming :: bool
  ma_cacheable :: bool
  ma_cache_ttl :: nat
  ma_cache_key_fields :: "string list option"
  ma_paginated :: bool
  ma_pagination_style :: string
  ma_discoverable :: bool
  ma_extra :: "(string \<times> json) list"

definition default_annotations :: module_annotations where
  "default_annotations =
     \<lparr>ma_readonly = False, ma_destructive = False, ma_idempotent = False, ma_requires_approval = False,
      ma_open_world = True, ma_streaming = False, ma_cacheable = False, ma_cache_ttl = 0,
      ma_cache_key_fields = None, ma_paginated = False, ma_pagination_style = ''cursor'',
      ma_discoverable = True, ma_extra = []\<rparr>"

definition governance_union ::
  "module_annotations option \<Rightarrow> module_annotations option \<Rightarrow> module_annotations option" where
  "governance_union m d =
     (case (m, d) of
        (Some a, Some b) \<Rightarrow>
          Some (a\<lparr>ma_requires_approval := ma_requires_approval a \<or> ma_requires_approval b,
                   ma_destructive := ma_destructive a \<or> ma_destructive b\<rparr>)
      | (Some a, None) \<Rightarrow> Some a
      | (None, Some b) \<Rightarrow> Some b
      | (None, None) \<Rightarrow> None)"

text \<open>The derived \<open>Serialize\<close>.\<close>

definition json_of_annotations :: "module_annotations \<Rightarrow> json" where
  "json_of_annotations a =
     JObject (details_of [
       (''readonly'', JBool (ma_readonly a)), (''destructive'', JBool (ma_destructive a)),
       (''idempotent'', JBool (ma_idempotent a)), (''requires_approval'', JBool (ma_requires_approval a)),
       (''open_world'', JBool (ma_open_world a)), (''streaming'', JBool (ma_streaming a)),
       (''cacheable'', JBool (ma_cacheable a)), (''cache_ttl'', JNumber (PosInt (ma_cache_ttl a))),
       (''cache_key_fields'',
          (case ma_cache_key_fields a of None \<Rightarrow> JNull | Some ks \<Rightarrow> json_strings ks)),
       (''paginated'', JBool (ma_paginated a)), (''pagination_style'', JString (ma_pagination_style a)),
       (''discoverable'', JBool (ma_discoverable a)), (''extra'', JObject (ma_extra a))])"

text \<open>The visitor: what it has read so far, one entry at a time. \<open>None\<close> is a type error.\<close>

record annotations_visit =
  av_ann :: module_annotations
  av_explicit_extra :: "(string \<times> json) list option"
  av_overflow :: "(string \<times> json) list"

definition as_u64 :: "json \<Rightarrow> nat option" where
  "as_u64 j = (case j of JNumber (PosInt n) \<Rightarrow> Some n | _ \<Rightarrow> None)"

definition opt_strings_from_json :: "json \<Rightarrow> string list option option" where
  "opt_strings_from_json j =
     (case j of JNull \<Rightarrow> Some None | _ \<Rightarrow> map_option Some (strings_from_json j))"

definition set_flag ::
  "((bool \<Rightarrow> bool) \<Rightarrow> module_annotations \<Rightarrow> module_annotations) \<Rightarrow> json \<Rightarrow> annotations_visit
     \<Rightarrow> annotations_visit option" where
  "set_flag upd j v = map_option (\<lambda>b. v\<lparr>av_ann := upd (\<lambda>_. b) (av_ann v)\<rparr>) (as_bool j)"

definition visit_annotation :: "string \<Rightarrow> json \<Rightarrow> annotations_visit \<Rightarrow> annotations_visit option" where
  "visit_annotation k j v =
     (if k = ''readonly'' then set_flag ma_readonly_update j v
      else if k = ''destructive'' then set_flag ma_destructive_update j v
      else if k = ''idempotent'' then set_flag ma_idempotent_update j v
      else if k = ''requires_approval'' then set_flag ma_requires_approval_update j v
      else if k = ''open_world'' then set_flag ma_open_world_update j v
      else if k = ''streaming'' then set_flag ma_streaming_update j v
      else if k = ''cacheable'' then set_flag ma_cacheable_update j v
      else if k = ''cache_ttl'' then
        Some (v\<lparr>av_ann := (av_ann v)\<lparr>ma_cache_ttl := (case as_u64 j of None \<Rightarrow> 0 | Some n \<Rightarrow> n)\<rparr>\<rparr>)
      else if k = ''cache_key_fields'' then
        map_option (\<lambda>ks. v\<lparr>av_ann := (av_ann v)\<lparr>ma_cache_key_fields := ks\<rparr>\<rparr>) (opt_strings_from_json j)
      else if k = ''paginated'' then set_flag ma_paginated_update j v
      else if k = ''pagination_style'' then
        map_option (\<lambda>s. v\<lparr>av_ann := (av_ann v)\<lparr>ma_pagination_style := s\<rparr>\<rparr>) (as_str j)
      else if k = ''discoverable'' then set_flag ma_discoverable_update j v
      else if k = ''extra'' then
        Some (v\<lparr>av_explicit_extra := Some (case j of JObject es \<Rightarrow> es | _ \<Rightarrow> [])\<rparr>)
      else Some (v\<lparr>av_overflow := bt_insert k j (av_overflow v)\<rparr>))"

fun visit_annotations :: "(string \<times> json) list \<Rightarrow> annotations_visit \<Rightarrow> annotations_visit option" where
  "visit_annotations [] v = Some v"
| "visit_annotations ((k, j) # es) v =
     (case visit_annotation k j v of None \<Rightarrow> None | Some v' \<Rightarrow> visit_annotations es v')"

definition finish_annotations :: "annotations_visit \<Rightarrow> module_annotations" where
  "finish_annotations v =
     (av_ann v)\<lparr>ma_extra :=
        (case av_explicit_extra v of
           None \<Rightarrow> av_overflow v
         | Some ex \<Rightarrow> fold (\<lambda>(k, j). bt_insert k j) ex (av_overflow v))\<rparr>"

definition annotations_of_json :: "json \<Rightarrow> module_annotations option" where
  "annotations_of_json j =
     (case j of
        JObject es \<Rightarrow>
          map_option finish_annotations
            (visit_annotations es
               \<lparr>av_ann = default_annotations, av_explicit_extra = None, av_overflow = []\<rparr>)
      | _ \<Rightarrow> None)"

subsection \<open>Previewed changes\<close>

record change =
  ch_action :: string
  ch_target :: string
  ch_summary :: string
  ch_before :: "json option"
  ch_after :: "json option"
  ch_extra :: "(string \<times> json) list"

definition change_new :: "string \<Rightarrow> string \<Rightarrow> string \<Rightarrow> change" where
  "change_new act tgt summary =
     \<lparr>ch_action = act, ch_target = tgt, ch_summary = summary, ch_before = None, ch_after = None,
      ch_extra = []\<rparr>"

text \<open>\<open>skip_serializing_if\<close> leaves an absent field out; \<open>flatten\<close> puts the extra keys beside
  the fields, after them, so a repeated key keeps the extra value.\<close>

definition present_entry :: "string \<Rightarrow> json option \<Rightarrow> (string \<times> json) list" where
  "present_entry k v = (case v of None \<Rightarrow> [] | Some j \<Rightarrow> [(k, j)])"

definition json_of_change :: "change \<Rightarrow> json" where
  "json_of_change c =
     JObject (details_of ([(''action'', JString (ch_action c)), (''target'', JString (ch_target c)),
        (''summary'', JString (ch_summary c))] @ present_entry ''before'' (ch_before c) @
        present_entry ''after'' (ch_after c) @ ch_extra c))"

record change_visit =
  cv_action :: "string option"
  cv_target :: "string option"
  cv_summary :: "string option"
  cv_before :: "json option"
  cv_after :: "json option"
  cv_extra :: "(string \<times> json) list"

definition visit_change :: "string \<Rightarrow> json \<Rightarrow> change_visit \<Rightarrow> change_visit option" where
  "visit_change k j v =
     (if k = ''action'' then map_option (\<lambda>s. v\<lparr>cv_action := Some s\<rparr>) (as_str j)
      else if k = ''target'' then map_option (\<lambda>s. v\<lparr>cv_target := Some s\<rparr>) (as_str j)
      else if k = ''summary'' then map_option (\<lambda>s. v\<lparr>cv_summary := Some s\<rparr>) (as_str j)
      else if k = ''before'' then Some (v\<lparr>cv_before := Some j\<rparr>)
      else if k = ''after'' then Some (v\<lparr>cv_after := Some j\<rparr>)
      else if \<not> prefix ''x-'' k then None
      else Some (v\<lparr>cv_extra := bt_insert k j (cv_extra v)\<rparr>))"

fun visit_changes :: "(string \<times> json) list \<Rightarrow> change_visit \<Rightarrow> change_visit option" where
  "visit_changes [] v = Some v"
| "visit_changes ((k, j) # es) v =
     (case visit_change k j v of None \<Rightarrow> None | Some v' \<Rightarrow> visit_changes es v')"

definition finish_change :: "change_visit \<Rightarrow> change option" where
  "finish_change v =
     (case (cv_action v, cv_target v, cv_summary v) of
        (Some a, Some t, Some s) \<Rightarrow>
          Some \<lparr>ch_action = a, ch_target = t, ch_summary = s, ch_before = cv_before v,
                ch_after = cv_after v, ch_extra = cv_extra v\<rparr>
      | _ \<Rightarrow> None)"

definition change_of_json :: "json \<Rightarrow> change option" where
  "change_of_json j =
     (case j of
        JObject es \<Rightarrow>
          Option.bind
            (visit_changes es \<lparr>cv_action = None, cv_target = None, cv_summary = None, cv_before = None,
                               cv_after = None, cv_extra = []\<rparr>)
            finish_change
      | _ \<Rightarrow> None)"

subsection \<open>Preflight results\<close>

record preflight_check =
  pc_check :: string
  pc_passed :: bool
  pc_error :: "json option"
  pc_warnings :: "string list"

record preflight_result =
  pf_valid :: bool
  pf_checks :: "preflight_check list"
  pf_requires_approval :: bool
  pf_predicted_changes :: "change list"

definition preflight_errors :: "preflight_result \<Rightarrow> preflight_check list" where
  "preflight_errors r = filter (\<lambda>c. \<not> pc_passed c) (pf_checks r)"

definition json_of_check :: "preflight_check \<Rightarrow> json" where
  "json_of_check c =
     JObject (details_of ([(''check'', JString (pc_check c)), (''passed'', JBool (pc_passed c))] @
       present_entry ''error'' (pc_error c) @ [(''warnings'', json_strings (pc_warnings c))]))"

definition errors_as_json :: "preflight_result \<Rightarrow> json list" where
  "errors_as_json r = map json_of_check (filter (\<lambda>c. \<not> pc_passed c) (pf_checks r))"

subsection \<open>What a module declares\<close>

record dependency_info =
  di_module_id :: string
  di_version_constraint :: string
  di_optional :: bool

record module_example =
  me_title :: string
  me_description :: "string option"
  me_inputs :: json
  me_output :: json

record module_object =
  mo_id :: nat
  mo_input_schema :: json
  mo_output_schema :: json
  mo_description :: string
  mo_documentation :: "string option"
  mo_version :: "string option"
  mo_tags :: "string list"
  mo_annotations :: module_annotations
  mo_examples :: "module_example list"
  mo_metadata :: "(string \<times> json) list"
  mo_dependencies :: "dependency_info list"
  mo_as_streaming :: bool
  mo_describe_override :: "json option"

definition module_describe :: "module_object \<Rightarrow> json" where
  "module_describe m =
     (case mo_describe_override m of
        Some j \<Rightarrow> j
      | None \<Rightarrow>
          JObject (details_of [(''description'', JString (mo_description m)),
            (''input_schema'', mo_input_schema m), (''output_schema'', mo_output_schema m),
            (''annotations'', json_of_annotations (mo_annotations m))]))"

text \<open>A module that overrides nothing: the provided methods of the trait.\<close>

definition plain_module :: "nat \<Rightarrow> json \<Rightarrow> json \<Rightarrow> string \<Rightarrow> module_object" where
  "plain_module n inp out descr =
     \<lparr>mo_id = n, mo_input_schema = inp, mo_output_schema = out, mo_description = descr,
      mo_documentation = None, mo_version = None, mo_tags = [], mo_annotations = default_annotations,
      mo_examples = [], mo_metadata = [], mo_dependencies = [], mo_as_streaming = False,
      mo_describe_override = None\<rparr>"

subsection \<open>Lemmas\<close>

text \<open>Inserting ascending entries above all present ones appends them.\<close>

lemma bt_insert_above: "bt_ok (m @ [(k, v)]) \<Longrightarrow> bt_insert k v m = m @ [(k, v)]"
proof (induction m)
  case Nil
  then show ?case by simp
next
  case (Cons e m)
  obtain k' v' where e: "e = (k', v')" by (cases e)
  with Cons.prems have "k' < k" "bt_ok (m @ [(k, v)])" by (auto simp: bt_ok_def)
  with Cons.IH e show ?case by auto
qed

lemma fold_bt_insert_above: "bt_ok (m @ es) \<Longrightarrow> fold (\<lambda>(k, v). bt_insert k v) es m = m @ es"
proof (induction es arbitrary: m)
  case Nil
  then show ?case by simp
next
  case (Cons e es)
  obtain k v where e: "e = (k, v)" by (cases e)
  from Cons.prems have "bt_ok ((m @ [e]) @ es)" by simp
  from Cons.IH [OF this] show ?case
    using Cons.prems e bt_insert_above [of m k v] by (simp add: bt_ok_def sorted_wrt_append)
qed

lemma details_of_sorted: "bt_ok es \<Longrightarrow> details_of es = es"
  unfolding details_of_def by (rule fold_bt_insert_above [of "[]", simplified])

lemma details_of_key:
  assumes "k \<in> fst ` set kvs"
  shows "\<exists>j. (k, j) \<in> set (details_of kvs)"
proof -
  have "bt_get (details_of kvs) k \<noteq> None"
    using assms by (simp add: bt_get_details map_of_eq_None_iff image_comp)
  then show ?thesis by (auto simp: bt_get_def dest: map_of_SomeD)
qed

lemma opt_strings_roundtrip:
  "opt_strings_from_json (case ks of None \<Rightarrow> JNull | Some xs \<Rightarrow> json_strings xs) = Some ks"
proof (cases ks)
  case None
  then show ?thesis by (simp add: opt_strings_from_json_def)
next
  case (Some xs)
  have "opt_strings_from_json (json_strings xs) = map_option Some (strings_from_json (json_strings xs))"
    by (simp add: opt_strings_from_json_def json_strings_def)
  with Some show ?thesis by (simp add: strings_roundtrip)
qed

lemma visit_annotations_append:
  "visit_annotations (es @ fs) v = Option.bind (visit_annotations es v) (visit_annotations fs)"
  by (induction es v rule: visit_annotations.induct) (auto split: option.splits)

lemma annotations_document:
  "json_of_annotations a = JObject [
     (''cache_key_fields'', (case ma_cache_key_fields a of None \<Rightarrow> JNull | Some ks \<Rightarrow> json_strings ks)),
     (''cache_ttl'', JNumber (PosInt (ma_cache_ttl a))), (''cacheable'', JBool (ma_cacheable a)),
     (''destructive'', JBool (ma_destructive a)), (''discoverable'', JBool (ma_discoverable a)),
     (''extra'', JObject (ma_extra a)), (''idempotent'', JBool (ma_idempotent a)),
     (''open_world'', JBool (ma_open_world a)), (''paginated'', JBool (ma_paginated a)),
     (''pagination_style'', JString (ma_pagination_style a)), (''readonly'', JBool (ma_readonly a)),
     (''requires_approval'', JBool (ma_requires_approval a)), (''streaming'', JBool (ma_streaming a))]"
  by (simp add: json_of_annotations_def details_of_def less_char_def)

lemma annotations_roundtrip:
  assumes "bt_ok (ma_extra a)"
  shows "annotations_of_json (json_of_annotations a) = Some a"
  using details_of_sorted [OF assms] opt_strings_roundtrip [of "ma_cache_key_fields a"]
  by (simp add: annotations_document annotations_of_json_def visit_annotation_def set_flag_def
    as_u64_def finish_annotations_def details_of_def)

text \<open>The keys of a change come before every extension key.\<close>

lemma extension_key_above:
  assumes "prefix ''x-'' k" and "c < CHR ''x''"
  shows "c # s < k"
  using assms by (auto simp: prefix_def)

lemma fold_extensions:
  assumes m: "bt_ok m" "\<forall>e \<in> set m. \<exists>c s. fst e = c # s \<and> c < CHR ''x''"
    and es: "bt_ok es" "\<forall>e \<in> set es. prefix ''x-'' (fst e)"
  shows "fold (\<lambda>(k, v). bt_insert k v) es m = m @ es"
proof (rule fold_bt_insert_above)
  have "fst e < fst e'" if "e \<in> set m" "e' \<in> set es" for e e'
    using that m(2) es(2) extension_key_above by fastforce
  then show "bt_ok (m @ es)" using m(1) es(1) by (simp add: bt_ok_def sorted_wrt_append)
qed

lemma visit_extensions:
  "\<forall>e \<in> set es. prefix ''x-'' (fst e) \<Longrightarrow>
     visit_changes es v = Some (v\<lparr>cv_extra := fold (\<lambda>(k, j). bt_insert k j) es (cv_extra v)\<rparr>)"
proof (induction es arbitrary: v)
  case Nil
  then show ?case by simp
next
  case (Cons e es)
  obtain k j where e: "e = (k, j)" by (cases e)
  with Cons.prems have "visit_change k j v = Some (v\<lparr>cv_extra := bt_insert k j (cv_extra v)\<rparr>)"
    by (auto simp: visit_change_def prefix_def)
  with Cons e show ?case by simp
qed

lemma visit_changes_append:
  "visit_changes (es @ fs) v = Option.bind (visit_changes es v) (visit_changes fs)"
  by (induction es v rule: visit_changes.induct) (auto split: option.splits)

lemma change_roundtrip:
  assumes es: "bt_ok (ch_extra c)" "\<forall>e \<in> set (ch_extra c). prefix ''x-'' (fst e)"
  shows "change_of_json (json_of_change c) = Some c"
proof -
  define fs where "fs = details_of ([(''action'', JString (ch_action c)), (''target'', JString (ch_target c)),
        (''summary'', JString (ch_summary c))] @ present_entry ''before'' (ch_before c) @ present_entry ''after'' (ch_after c))"
  have fs_eq: "fs = (''action'', JString (ch_action c)) # present_entry ''after'' (ch_after c) @
      present_entry ''before'' (ch_before c) @
      [(''summary'', JString (ch_summary c)), (''target'', JString (ch_target c))]"
    by (cases "ch_before c"; cases "ch_after c")
      (simp_all add: fs_def present_entry_def details_of_def less_char_def)
  have "fold (\<lambda>(k, v). bt_insert k v) (ch_extra c) fs = fs @ ch_extra c"
  proof (rule fold_extensions [OF _ _ es])
    show "bt_ok fs" unfolding fs_def by (rule details_of_ok)
    show "\<forall>e \<in> set fs. \<exists>c s. fst e = c # s \<and> c < CHR ''x''"
      by (cases "ch_before c"; cases "ch_after c") (simp_all add: fs_eq present_entry_def less_char_def)
  qed
  then have "json_of_change c = JObject (fs @ ch_extra c)"
    by (simp add: json_of_change_def fs_def details_of_def)
  moreover have "visit_changes fs \<lparr>cv_action = None, cv_target = None, cv_summary = None, cv_before = None,
      cv_after = None, cv_extra = []\<rparr> = Some \<lparr>cv_action = Some (ch_action c), cv_target = Some (ch_target c),
      cv_summary = Some (ch_summary c), cv_before = ch_before c, cv_after = ch_after c, cv_extra = []\<rparr>"
    by (cases "ch_before c"; cases "ch_after c") (simp_all add: fs_eq present_entry_def visit_change_def)
  ultimately show ?thesis
    using visit_extensions [OF es(2)] details_of_sorted [OF es(1)]
    by (simp add: change_of_json_def visit_changes_append finish_change_def details_of_def)
qed

subsection \<open>Properties\<close>

lemma visit_extra_keys:
  "visit_changes es v = Some v' \<Longrightarrow> \<forall>e \<in> set (cv_extra v). prefix ''x-'' (fst e) \<Longrightarrow>
     \<forall>e \<in> set (cv_extra v'). prefix ''x-'' (fst e)"
proof (induction es v rule: visit_changes.induct)
  case (2 k j es v)
  then obtain u where u: "visit_change k j v = Some u" "visit_changes es u = Some v'" by (auto split: option.splits)
  have "\<forall>e \<in> set (cv_extra u). prefix ''x-'' (fst e)"
    using u(1) "2.prems"(2) set_bt_insert_sub [of k j "cv_extra v"]
    by (auto simp: visit_change_def split: if_splits)
  from "2.IH" [OF u(1) u(2) this] show ?case .
qed simp

lemma finish_change_extra: "finish_change v = Some c \<Longrightarrow> ch_extra c = cv_extra v"
  by (auto simp: finish_change_def split: option.splits)

lemma read_changes_have_extension_keys:
  assumes "change_of_json j = Some c" shows "\<forall>e \<in> set (ch_extra c). prefix ''x-'' (fst e)"
proof -
  obtain es v where "visit_changes es \<lparr>cv_action = None, cv_target = None, cv_summary = None, cv_before = None,
      cv_after = None, cv_extra = []\<rparr> = Some v" and f: "finish_change v = Some c"
    using assms by (auto simp: change_of_json_def bind_eq_Some_conv split: json.splits)
  from visit_extra_keys [OF this(1)] show ?thesis unfolding finish_change_extra [OF f] by simp
qed

text \<open>C33: the annotations a module declares and the changes it predicts survive their wire form. For sorted maps
  of extra entries, reading back what was written gives the same annotations, whatever the entries are; it
  gives the same change exactly when all its extra keys are extension keys. A change with an extra key that
  is neither an extension key nor the name of a field is refused when read; one with an extra key that has the
  name of a field does not come back as it was.\<close>

theorem module_documents_roundtrip:
  assumes "bt_ok (ma_extra a)" and "bt_ok (ch_extra c)"
  shows "annotations_of_json (json_of_annotations a) = Some a \<and>
    (change_of_json (json_of_change c) = Some c \<longleftrightarrow> (\<forall>e \<in> set (ch_extra c). prefix ''x-'' (fst e))) \<and>
    ((\<exists>e \<in> set (ch_extra c). \<not> prefix ''x-'' (fst e) \<and>
        fst e \<notin> {''action'', ''target'', ''summary'', ''before'', ''after''}) \<longrightarrow>
      change_of_json (json_of_change c) = None)"
proof -
  have "change_of_json (json_of_change c) = None"
    if e: "e \<in> set (ch_extra c)" "\<not> prefix ''x-'' (fst e)"
      "fst e \<notin> {''action'', ''target'', ''summary'', ''before'', ''after''}" for e
  proof -
    obtain es where es: "json_of_change c = JObject es" by (simp add: json_of_change_def)
    have "fst e \<in> fst ` set (ch_extra c)" using e(1) by simp
    then have "\<exists>j. (fst e, j) \<in> set es"
      using es details_of_key [of "fst e" "_ @ ch_extra c"]
      by (auto simp: json_of_change_def image_Un simp flip: append_Cons append_assoc)
    then obtain j where "(fst e, j) \<in> set es" by blast
    then obtain as bs where "es = as @ (fst e, j) # bs" by (meson split_list)
    moreover have "visit_change (fst e) j v = None" for v
      using e(2,3) by (simp add: visit_change_def)
    ultimately show ?thesis
      by (simp add: es change_of_json_def visit_changes_append bind_eq_None_conv)
  qed
  with annotations_roundtrip [OF assms(1)] change_roundtrip [OF assms(2)] read_changes_have_extension_keys
  show ?thesis by blast
qed

theorem module_documents_roundtrip_witness:
  "annotations_of_json (json_of_annotations (default_annotations\<lparr>ma_cache_key_fields := Some [''id'']\<rparr>)) =
     Some (default_annotations\<lparr>ma_cache_key_fields := Some [''id'']\<rparr>) \<and>
   change_of_json (json_of_change ((change_new ''update'' ''user:1'' ''renames'')\<lparr>ch_extra := [(''x-risk'', JNull)]\<rparr>)) =
     Some ((change_new ''update'' ''user:1'' ''renames'')\<lparr>ch_extra := [(''x-risk'', JNull)]\<rparr>)"
  using module_documents_roundtrip [of "default_annotations\<lparr>ma_cache_key_fields := Some [''id'']\<rparr>"
      "(change_new ''update'' ''user:1'' ''renames'')\<lparr>ch_extra := [(''x-risk'', JNull)]\<rparr>"]
  by (simp add: default_annotations_def change_new_def bt_ok_def)

end
