(* ===== verification/Strategy.thy ===== *)
theory Strategy
  imports Conditions ModuleTypes Complex_Main "HOL-Library.Sublist"
begin

section \<open>Execution strategies\<close>

text \<open>
  \<open>src/src/pipeline.rs\<close>: steps, the pipeline context, and \<open>ExecutionStrategy\<close> with its
  mutations. A step is a trait object: its metadata are fields here, its body is the pair
  \<open>st_execute\<close> and \<open>st_elapses\<close>; the latter says whether the per-step timer fires first, and what the
  body had written by then. Durations are not modelled. \<open>'r\<close> stands for the resources the executor
  injects (registry, configuration, handlers), \<open>'w\<close> for the world outside.
\<close>

datatype builtin_gate = AclGate | ApprovalGate

text \<open>Texts that are built from an error are represented by that error.\<close>

datatype explanation = Explained string | ErrorText module_error | RecoveredFrom module_error

record step_result =
  sr_action :: string
  sr_skip_to :: "string option"
  sr_explanation :: "explanation option"
  sr_confidence :: "rat option"
  sr_alternatives :: "string list option"

definition step_result_default :: step_result where
  "step_result_default =
     \<lparr>sr_action = ''continue'', sr_skip_to = None, sr_explanation = None, sr_confidence = None,
      sr_alternatives = None\<rparr>"

definition continue_step :: step_result where
  "continue_step = step_result_default"

definition abort_step :: "explanation \<Rightarrow> step_result" where
  "abort_step e = step_result_default\<lparr>sr_action := ''abort'', sr_explanation := Some e\<rparr>"

definition skip_to_step :: "string \<Rightarrow> step_result" where
  "skip_to_step target = step_result_default\<lparr>sr_action := ''skip_to'', sr_skip_to := Some target\<rparr>"

record step_trace =
  tr_name :: string
  tr_result :: step_result
  tr_skipped :: bool
  tr_decision_point :: bool
  tr_skip_reason :: "string option"

record pipeline_trace =
  pt_module_id :: string
  pt_strategy_name :: string
  pt_steps :: "step_trace list"
  pt_success :: bool

definition pipeline_trace_new :: "string \<Rightarrow> string \<Rightarrow> pipeline_trace" where
  "pipeline_trace_new m s = \<lparr>pt_module_id = m, pt_strategy_name = s, pt_steps = [], pt_success = False\<rparr>"

record 'r pctx =
  px_module_id :: string
  px_inputs :: json
  px_context :: "json call_context"
  px_module :: "module_object option"
  px_projection :: "projection option"
  px_acl_approval_required :: bool
  px_validated_inputs :: "json option"
  px_output :: "json option"
  px_validated_output :: "json option"
  px_dry_run :: bool
  px_preflight_errors :: "(string \<times> module_error) list"
  px_version_hint :: "string option"
  px_executed_middlewares :: "nat list"
  px_resources :: 'r
  px_strategy_name :: string
  px_trace :: pipeline_trace

definition pctx_new :: "string \<Rightarrow> json \<Rightarrow> json call_context \<Rightarrow> string \<Rightarrow> 'r \<Rightarrow> 'r pctx" where
  "pctx_new m inputs ctx sname res =
     \<lparr>px_module_id = m, px_inputs = inputs, px_context = ctx, px_module = None, px_projection = None,
      px_acl_approval_required = False, px_validated_inputs = None, px_output = None,
      px_validated_output = None, px_dry_run = False, px_preflight_errors = [], px_version_hint = None,
      px_executed_middlewares = [], px_resources = res, px_strategy_name = sname,
      px_trace = pipeline_trace_new m sname\<rparr>"

record ('r, 'w) step =
  st_name :: string
  st_description :: string
  st_removable :: bool
  st_replaceable :: bool
  st_match_modules :: "string list option"
  st_ignore_errors :: bool
  st_pure :: bool
  st_timeout_ms :: nat
  st_requires :: "string list"
  st_builtin_gate :: "builtin_gate option"
  st_provides :: "string list"
  st_execute :: "'r pctx \<Rightarrow> 'w \<Rightarrow> (module_error + step_result) \<times> 'r pctx \<times> 'w"
  st_elapses :: "'r pctx \<Rightarrow> 'w \<Rightarrow> ('r pctx \<times> 'w) option"

subsection \<open>Gates\<close>

definition gate_weakening_error :: module_error where
  "gate_weakening_error = module_error_new PipelineConfigurationError"

definition offending_fields :: "('r, 'w) step \<Rightarrow> builtin_gate \<Rightarrow> string list" where
  "offending_fields s gate =
     (if st_ignore_errors s then [''ignore_errors: true''] else []) @
     (if st_match_modules s \<noteq> None then [''match_modules''] else []) @
     (if gate = ApprovalGate \<and> st_pure s then [''pure: true''] else [])"

definition reject_weakened_gate :: "('r, 'w) step \<Rightarrow> module_error option" where
  "reject_weakened_gate s =
     (case st_builtin_gate s of
        None \<Rightarrow> None
      | Some gate \<Rightarrow> if offending_fields s gate = [] then None else Some gate_weakening_error)"

definition neutralised_gate :: "('r, 'w) step \<Rightarrow> builtin_gate \<Rightarrow> ('r, 'w) step" where
  "neutralised_gate s gate =
     s\<lparr>st_match_modules := None, st_ignore_errors := False, st_pure := (gate = AclGate),
       st_builtin_gate := Some gate\<rparr>"

subsection \<open>The strategy\<close>

text \<open>\<open>sy_index\<close> is the hash map from names to positions. The middlewares are the \<open>'m\<close> list.\<close>

record ('r, 'w, 'm) strategy =
  sy_name :: string
  sy_steps :: "('r, 'w) step list"
  sy_index :: "(string \<times> nat) list"
  sy_middlewares :: "'m list"

definition index_of_steps :: "('r, 'w) step list \<Rightarrow> (string \<times> nat) list" where
  "index_of_steps ss = fold (\<lambda>(i, s). bt_insert (st_name s) i) (enumerate 0 ss) []"

definition rebuild_index :: "('r, 'w, 'm) strategy \<Rightarrow> ('r, 'w, 'm) strategy" where
  "rebuild_index y = y\<lparr>sy_index := index_of_steps (sy_steps y)\<rparr>"

definition dependency_error :: module_error where
  "dependency_error = module_error_new PipelineDependencyError"

fun validate_from :: "string set \<Rightarrow> ('r, 'w) step list \<Rightarrow> module_error option" where
  "validate_from provided [] = None"
| "validate_from provided (s # ss) =
     (if list_ex (\<lambda>req. req \<notin> provided) (st_requires s) then Some dependency_error
      else validate_from (provided \<union> set (st_provides s)) ss)"

definition validate_dependencies :: "('r, 'w, 'm) strategy \<Rightarrow> module_error option" where
  "validate_dependencies y = validate_from {} (sy_steps y)"

fun check_new_steps :: "string set \<Rightarrow> ('r, 'w) step list \<Rightarrow> module_error option" where
  "check_new_steps seen [] = None"
| "check_new_steps seen (s # ss) =
     (case reject_weakened_gate s of
        Some e \<Rightarrow> Some e
      | None \<Rightarrow>
          if st_name s \<in> seen then Some step_name_duplicate
          else check_new_steps (insert (st_name s) seen) ss)"

definition strategy_new :: "string \<Rightarrow> ('r, 'w) step list \<Rightarrow> module_error + ('r, 'w, 'm) strategy" where
  "strategy_new n ss =
     (case check_new_steps {} ss of
        Some e \<Rightarrow> Inl e
      | None \<Rightarrow>
          let y = rebuild_index \<lparr>sy_name = n, sy_steps = ss, sy_index = [], sy_middlewares = []\<rparr> in
          case validate_dependencies y of Some e \<Rightarrow> Inl e | None \<Rightarrow> Inr y)"

definition add_step_middleware :: "'m \<Rightarrow> ('r, 'w, 'm) strategy \<Rightarrow> ('r, 'w, 'm) strategy" where
  "add_step_middleware m y = y\<lparr>sy_middlewares := sy_middlewares y @ [m]\<rparr>"

definition set_name :: "string \<Rightarrow> ('r, 'w, 'm) strategy \<Rightarrow> ('r, 'w, 'm) strategy" where
  "set_name n y = y\<lparr>sy_name := n\<rparr>"

definition step_names :: "('r, 'w, 'm) strategy \<Rightarrow> string list" where
  "step_names y = map st_name (sy_steps y)"

definition find_step_index :: "('r, 'w, 'm) strategy \<Rightarrow> string \<Rightarrow> module_error + nat" where
  "find_step_index y n =
     (case bt_get (sy_index y) n of None \<Rightarrow> Inl (module_error_new StepNotFound) | Some i \<Rightarrow> Inr i)"

definition validate_no_duplicate :: "('r, 'w, 'm) strategy \<Rightarrow> string \<Rightarrow> module_error option" where
  "validate_no_duplicate y n = (if bt_get (sy_index y) n \<noteq> None then Some step_name_duplicate else None)"

definition validate_replacement_name ::
  "('r, 'w, 'm) strategy \<Rightarrow> string \<Rightarrow> string \<Rightarrow> module_error option" where
  "validate_replacement_name y old new =
     (if new \<noteq> old \<and> bt_get (sy_index y) new \<noteq> None then Some step_name_duplicate else None)"

text \<open>The mutations. Each returns its error, if any, and the strategy as it leaves it: the two
  insertions have already changed the strategy when the dependency check fails.\<close>

type_synonym ('r, 'w, 'm) mutation = "module_error option \<times> ('r, 'w, 'm) strategy"

definition insert_at :: "nat \<Rightarrow> 'a \<Rightarrow> 'a list \<Rightarrow> 'a list" where
  "insert_at i x xs = take i xs @ x # drop i xs"

definition insert_checked ::
  "(nat \<Rightarrow> nat) \<Rightarrow> string \<Rightarrow> ('r, 'w) step \<Rightarrow> ('r, 'w, 'm) strategy \<Rightarrow> ('r, 'w, 'm) mutation" where
  "insert_checked pos anchor s y =
     (case reject_weakened_gate s of
        Some e \<Rightarrow> (Some e, y)
      | None \<Rightarrow>
          (case validate_no_duplicate y (st_name s) of
             Some e \<Rightarrow> (Some e, y)
           | None \<Rightarrow>
               (case find_step_index y anchor of
                  Inl e \<Rightarrow> (Some e, y)
                | Inr i \<Rightarrow>
                    let y' = rebuild_index (y\<lparr>sy_steps := insert_at (pos i) s (sy_steps y)\<rparr>) in
                    (validate_dependencies y', y'))))"

definition insert_after :: "string \<Rightarrow> ('r, 'w) step \<Rightarrow> ('r, 'w, 'm) strategy \<Rightarrow> ('r, 'w, 'm) mutation" where
  "insert_after = insert_checked (\<lambda>i. i + 1)"

definition insert_before :: "string \<Rightarrow> ('r, 'w) step \<Rightarrow> ('r, 'w, 'm) strategy \<Rightarrow> ('r, 'w, 'm) mutation" where
  "insert_before = insert_checked (\<lambda>i. i)"

definition remove_step :: "string \<Rightarrow> ('r, 'w, 'm) strategy \<Rightarrow> ('r, 'w, 'm) mutation" where
  "remove_step n y =
     (case find_step_index y n of
        Inl e \<Rightarrow> (Some e, y)
      | Inr i \<Rightarrow>
          if \<not> st_removable (sy_steps y ! i) then (Some (module_error_new StepNotRemovable), y)
          else (None, rebuild_index (y\<lparr>sy_steps := take i (sy_steps y) @ drop (Suc i) (sy_steps y)\<rparr>)))"

definition replace_at ::
  "nat \<Rightarrow> string \<Rightarrow> ('r, 'w) step \<Rightarrow> ('r, 'w, 'm) strategy \<Rightarrow> ('r, 'w, 'm) mutation" where
  "replace_at i n s y =
     (if \<not> st_replaceable (sy_steps y ! i) then (Some (module_error_new StepNotReplaceable), y)
      else case validate_replacement_name y n (st_name s) of
        Some e \<Rightarrow> (Some e, y)
      | None \<Rightarrow>
          (case reject_weakened_gate s of
             Some e \<Rightarrow> (Some e, y)
           | None \<Rightarrow> (None, rebuild_index (y\<lparr>sy_steps := (sy_steps y)[i := s]\<rparr>))))"

definition replace_step :: "string \<Rightarrow> ('r, 'w) step \<Rightarrow> ('r, 'w, 'm) strategy \<Rightarrow> ('r, 'w, 'm) mutation" where
  "replace_step n s y =
     (case find_step_index y n of Inl e \<Rightarrow> (Some e, y) | Inr i \<Rightarrow> replace_at i n s y)"

definition configure_step :: "string \<Rightarrow> ('r, 'w) step \<Rightarrow> ('r, 'w, 'm) strategy \<Rightarrow> ('r, 'w, 'm) mutation" where
  "configure_step n s y =
     (case bt_get (sy_index y) n of
        None \<Rightarrow> (Some (module_error_new PipelineStepNotFound), y)
      | Some i \<Rightarrow> replace_at i n s y)"

definition replace_with ::
  "string \<Rightarrow> (('r, 'w) step \<Rightarrow> ('r, 'w) step) \<Rightarrow> ('r, 'w, 'm) strategy \<Rightarrow> ('r, 'w, 'm) mutation" where
  "replace_with n wrapper y =
     (case find_step_index y n of
        Inl e \<Rightarrow> (Some e, y)
      | Inr i \<Rightarrow>
          let installed = wrapper (sy_steps y ! i);
              rejection = reject_weakened_gate installed;
              s = (case (rejection, st_builtin_gate installed) of
                     (Some _, Some gate) \<Rightarrow> neutralised_gate installed gate
                   | _ \<Rightarrow> installed)
          in (rejection, rebuild_index (y\<lparr>sy_steps := (sy_steps y)[i := s]\<rparr>)))"

record strategy_info =
  si_name :: string
  si_step_count :: nat
  si_step_names :: "string list"
  si_description :: string

definition strategy_info_of :: "('r, 'w, 'm) strategy \<Rightarrow> strategy_info" where
  "strategy_info_of y =
     \<lparr>si_name = sy_name y, si_step_count = length (sy_steps y), si_step_names = step_names y,
      si_description = join_with ''; '' (map (\<lambda>s. st_name s @ '': '' @ st_description s) (sy_steps y))\<rparr>"

subsection \<open>Operations as data\<close>

datatype ('r, 'w, 'm) strategy_op =
    InsertAfter string "('r, 'w) step"
  | InsertBefore string "('r, 'w) step"
  | Remove string
  | Replace string "('r, 'w) step"
  | Configure string "('r, 'w) step"
  | ReplaceWith string "('r, 'w) step \<Rightarrow> ('r, 'w) step"
  | AddMiddleware 'm
  | SetName string

fun apply_op :: "('r, 'w, 'm) strategy_op \<Rightarrow> ('r, 'w, 'm) strategy \<Rightarrow> ('r, 'w, 'm) mutation" where
  "apply_op (InsertAfter a s) y = insert_after a s y"
| "apply_op (InsertBefore a s) y = insert_before a s y"
| "apply_op (Remove n) y = remove_step n y"
| "apply_op (Replace n s) y = replace_step n s y"
| "apply_op (Configure n s) y = configure_step n s y"
| "apply_op (ReplaceWith n f) y = replace_with n f y"
| "apply_op (AddMiddleware m) y = (None, add_step_middleware m y)"
| "apply_op (SetName n) y = (None, set_name n y)"

fun wrapper_ok :: "(('r, 'w) step \<Rightarrow> ('r, 'w) step \<Rightarrow> bool) \<Rightarrow> ('r, 'w, 'm) strategy_op \<Rightarrow> bool" where
  "wrapper_ok P (ReplaceWith n f) = (\<forall>s. P s (f s))"
| "wrapper_ok P _ = True"

text \<open>Every strategy that construction and mutation can produce, failed mutations included.\<close>

inductive strategy_reachable ::
  "(('r, 'w) step \<Rightarrow> ('r, 'w) step \<Rightarrow> bool) \<Rightarrow> ('r, 'w, 'm) strategy \<Rightarrow> bool" for P where
  new: "strategy_new n ss = Inr y \<Longrightarrow> strategy_reachable P y"
| mutate: "strategy_reachable P y \<Longrightarrow> wrapper_ok P op \<Longrightarrow> strategy_reachable P (snd (apply_op op y))"

inductive_cases strategy_reachable_elim: "strategy_reachable P y"

subsection \<open>The index\<close>

lemma index_of_steps_snoc:
  "index_of_steps (ss @ [s]) = bt_insert (st_name s) (length ss) (index_of_steps ss)"
  by (simp add: index_of_steps_def enumerate_append_eq)

lemma index_of_steps_ok: "bt_ok (index_of_steps ss)"
  by (induction ss rule: rev_induct) (simp add: index_of_steps_def, simp add: index_of_steps_snoc bt.ok_ins)

lemma index_of_steps_get:
  "bt_get (index_of_steps ss) n = Some i \<Longrightarrow> i < length ss \<and> st_name (ss ! i) = n"
proof (induction ss arbitrary: i rule: rev_induct)
  case Nil
  then show ?case by (simp add: index_of_steps_def)
next
  case (snoc s ss)
  then show ?case
    by (auto simp: index_of_steps_snoc bt.get_ins [OF index_of_steps_ok] nth_append split: if_splits)
qed

lemma index_of_steps_None: "bt_get (index_of_steps ss) n = None \<longleftrightarrow> n \<notin> st_name ` set ss"
proof (induction ss rule: rev_induct)
  case Nil
  then show ?case by (simp add: index_of_steps_def)
next
  case (snoc s ss)
  then show ?case by (auto simp: index_of_steps_snoc bt.get_ins [OF index_of_steps_ok])
qed

definition index_exact :: "('r, 'w, 'm) strategy \<Rightarrow> bool" where
  "index_exact y \<longleftrightarrow> sy_index y = index_of_steps (sy_steps y)"

lemma index_exact_rebuild: "index_exact (rebuild_index y)"
  by (simp add: index_exact_def rebuild_index_def)

lemma find_index_Inr:
  "index_exact y \<Longrightarrow> find_step_index y n = Inr i \<Longrightarrow> i < length (sy_steps y) \<and> st_name (sy_steps y ! i) = n"
  by (auto simp: find_step_index_def index_exact_def index_of_steps_get split: option.splits)

lemma index_exact_Some:
  "index_exact y \<Longrightarrow> bt_get (sy_index y) n = Some i \<Longrightarrow> i < length (sy_steps y) \<and> st_name (sy_steps y ! i) = n"
  by (simp add: index_exact_def index_of_steps_get)

lemma index_exact_None: "index_exact y \<Longrightarrow> bt_get (sy_index y) n = None \<longleftrightarrow> n \<notin> set (step_names y)"
  by (simp add: index_exact_def index_of_steps_None step_names_def)

lemmas mutation_defs =
  insert_after_def insert_before_def insert_checked_def remove_step_def replace_step_def configure_step_def
  replace_at_def replace_with_def add_step_middleware_def set_name_def Let_def

lemma index_exact_mutation: "index_exact y \<Longrightarrow> index_exact (snd (apply_op op y))"
  by (cases op)
    (auto simp: mutation_defs index_exact_rebuild split: option.splits sum.splits,
      auto simp: index_exact_def)

lemma index_exact_new: "strategy_new n ss = Inr y \<Longrightarrow> index_exact y"
  by (auto simp: strategy_new_def Let_def index_exact_rebuild split: option.splits)

lemma index_exact_reachable: "strategy_reachable P y \<Longrightarrow> index_exact y"
  by (induction rule: strategy_reachable.induct) (auto intro: index_exact_new index_exact_mutation)

subsection \<open>Steps of a mutated strategy\<close>

lemma set_insert_at: "set (insert_at i x xs) = insert x (set xs)"
  unfolding insert_at_def by (metis append_take_drop_id list.simps(15) set_append Un_insert_right)

lemma gates_ok_neutralised:
  "st_builtin_gate s = Some g \<Longrightarrow> reject_weakened_gate (neutralised_gate s g) = None"
  by (cases g) (auto simp: reject_weakened_gate_def neutralised_gate_def offending_fields_def)

definition gates_ok :: "('r, 'w, 'm) strategy \<Rightarrow> bool" where
  "gates_ok y \<longleftrightarrow> (\<forall>s \<in> set (sy_steps y). reject_weakened_gate s = None)"

lemma rebuild_steps [simp]: "sy_steps (rebuild_index y) = sy_steps y"
  by (simp add: rebuild_index_def)

lemma gates_ok_update:
  "gates_ok y \<Longrightarrow> reject_weakened_gate s = None \<Longrightarrow> gates_ok (rebuild_index (y\<lparr>sy_steps := (sy_steps y)[i := s]\<rparr>))"
  by (auto simp: gates_ok_def dest!: set_mp [OF set_update_subset_insert])

lemma reject_weakened_gate_Some: "reject_weakened_gate s = Some e \<Longrightarrow> \<exists>g. st_builtin_gate s = Some g"
  by (simp add: reject_weakened_gate_def split: option.splits)

lemma gates_ok_mutation: "gates_ok y \<Longrightarrow> gates_ok (snd (apply_op op y))"
proof (cases op)
  case (InsertAfter a s)
  assume "gates_ok y"
  with InsertAfter show ?thesis
    by (auto simp: mutation_defs gates_ok_def set_insert_at split: option.splits sum.splits)
next
  case (InsertBefore a s)
  assume "gates_ok y"
  with InsertBefore show ?thesis
    by (auto simp: mutation_defs gates_ok_def set_insert_at split: option.splits sum.splits)
next
  case (Remove n)
  assume "gates_ok y"
  with Remove show ?thesis
    by (auto simp: mutation_defs gates_ok_def split: sum.splits dest: in_set_takeD in_set_dropD)
next
  case (Replace n s)
  assume "gates_ok y"
  with Replace show ?thesis
    by (auto simp: mutation_defs intro: gates_ok_update split: option.splits sum.splits)
next
  case (Configure n s)
  assume "gates_ok y"
  with Configure show ?thesis
    by (auto simp: mutation_defs intro: gates_ok_update split: option.splits sum.splits)
next
  case (ReplaceWith n f)
  assume g: "gates_ok y"
  show ?thesis
  proof (cases "find_step_index y n")
    case (Inl e)
    with ReplaceWith g show ?thesis by (simp add: replace_with_def)
  next
    case (Inr i)
    let ?s = "f (sy_steps y ! i)"
    show ?thesis
    proof (cases "reject_weakened_gate ?s")
      case None
      with ReplaceWith g Inr gates_ok_update [OF g, of ?s i] show ?thesis
        by (simp add: replace_with_def Let_def)
    next
      case (Some e)
      from reject_weakened_gate_Some [OF this] obtain gate where gate: "st_builtin_gate ?s = Some gate" by blast
      with ReplaceWith Some Inr gates_ok_update [OF g gates_ok_neutralised [OF gate], of i] show ?thesis
        by (simp add: replace_with_def Let_def)
    qed
  qed
qed (auto simp: mutation_defs gates_ok_def)

lemma check_new_steps_None:
  "check_new_steps seen ss = None \<Longrightarrow>
     (\<forall>s \<in> set ss. reject_weakened_gate s = None) \<and> distinct (map st_name ss) \<and> seen \<inter> st_name ` set ss = {}"
  by (induction seen ss rule: check_new_steps.induct) (auto split: option.splits if_splits)

lemma strategy_new_steps:
  "strategy_new n ss = Inr y \<Longrightarrow> sy_steps y = ss \<and> check_new_steps {} ss = None \<and> validate_from {} ss = None"
  by (auto simp: strategy_new_def Let_def validate_dependencies_def split: option.splits)

lemma gates_ok_reachable: "strategy_reachable P y \<Longrightarrow> gates_ok y"
proof (induction rule: strategy_reachable.induct)
  case (new n ss y)
  from strategy_new_steps [OF new] check_new_steps_None [of "{}" ss] show ?case
    by (simp add: gates_ok_def)
next
  case (mutate y op)
  then show ?case by (intro gates_ok_mutation)
qed

subsection \<open>Names\<close>

lemma map_insert_at: "map f (insert_at i x xs) = insert_at i (f x) (map f xs)"
  by (simp add: insert_at_def take_map drop_map)

lemma distinct_insert_at: "x \<notin> set xs \<Longrightarrow> distinct xs \<Longrightarrow> distinct (insert_at i x xs)"
  by (auto simp: insert_at_def dest: in_set_takeD in_set_dropD)
    (meson disjoint_iff order_refl set_take_disj_set_drop_if_distinct)

lemma distinct_remove_at: "distinct xs \<Longrightarrow> distinct (take i xs @ drop (Suc i) xs)"
  by (simp add: set_take_disj_set_drop_if_distinct)

lemma distinct_replace_at:
  "distinct xs \<Longrightarrow> i < length xs \<Longrightarrow> x = xs ! i \<or> x \<notin> set xs \<Longrightarrow> distinct (xs[i := x])"
  by (auto simp: distinct_list_update)

lemma names_distinct_mutation:
  assumes d: "distinct (step_names y)" and x: "index_exact y"
    and w: "wrapper_ok (\<lambda>s s'. st_name s' = st_name s) op"
  shows "distinct (step_names (snd (apply_op op y)))"
proof -
  have ins: "distinct (step_names (snd (insert_checked f a s y)))" for f a s
    using d x index_exact_None [OF x, of "st_name s"]
    by (auto simp: insert_checked_def Let_def step_names_def map_insert_at validate_no_duplicate_def
        split: option.splits sum.splits if_splits intro: distinct_insert_at)
  have rep: "distinct (step_names (snd (replace_at i n s y)))"
    if "i < length (sy_steps y)" "st_name (sy_steps y ! i) = n" for i n s
    using d that index_exact_None [OF x, of "st_name s"]
    by (auto simp: replace_at_def step_names_def map_update validate_replacement_name_def
        split: option.splits if_splits intro!: distinct_replace_at)
  show ?thesis
  proof (cases op)
    case (Remove n)
    with d distinct_remove_at [of "map st_name (sy_steps y)"] show ?thesis
      by (auto simp: remove_step_def step_names_def take_map drop_map split: sum.splits)
  next
    case (Replace n s)
    with d rep find_index_Inr [OF x] show ?thesis
      by (auto simp: replace_step_def split: sum.splits)
  next
    case (Configure n s)
    with d rep index_exact_Some [OF x] show ?thesis
      by (auto simp: configure_step_def split: option.splits)
  next
    case (ReplaceWith n f)
    show ?thesis
    proof (cases "find_step_index y n")
      case (Inl e)
      with ReplaceWith d show ?thesis by (simp add: replace_with_def)
    next
      case (Inr i)
      let ?s = "f (sy_steps y ! i)"
      have "st_name ?s = st_name (sy_steps y ! i)" using w ReplaceWith by simp
      moreover have "st_name (neutralised_gate ?s g) = st_name ?s" for g by (simp add: neutralised_gate_def)
      moreover have "i < length (sy_steps y)" using find_index_Inr [OF x Inr] by simp
      ultimately have "map st_name ((sy_steps y)[i := ?s]) = map st_name (sy_steps y)"
        "map st_name ((sy_steps y)[i := neutralised_gate ?s g]) = map st_name (sy_steps y)" for g
        by (simp_all add: map_update list_update_same_conv)
      with ReplaceWith Inr d show ?thesis
        by (auto simp: replace_with_def Let_def step_names_def split: option.splits)
    qed
  qed (use d ins in \<open>auto simp: insert_after_def insert_before_def add_step_middleware_def set_name_def step_names_def\<close>)
qed

lemma names_distinct_reachable:
  "strategy_reachable (\<lambda>s s'. st_name s' = st_name s) y \<Longrightarrow> distinct (step_names y)"
proof (induction rule: strategy_reachable.induct)
  case (new n ss y)
  from strategy_new_steps [OF new] check_new_steps_None [of "{}" ss] show ?case
    by (simp add: step_names_def)
next
  case (mutate y op)
  from names_distinct_mutation [OF mutate(3) index_exact_reachable [OF mutate(1)] mutate(2)] show ?case .
qed

text \<open>C15: a governance gate is never weakened. Whatever sequence of constructions and mutations has been
  run, with any steps and any wrappers and whether or not they were refused, a step of the
  strategy that is a built-in gate fails closed, applies to every module, and the approval
  gate does not run in a dry run.\<close>

theorem gates_never_weakened:
  assumes "strategy_reachable (\<lambda>_ _. True) y" and "s \<in> set (sy_steps y)" and "st_builtin_gate s = Some g"
  shows "\<not> st_ignore_errors s \<and> st_match_modules s = None \<and> (g = ApprovalGate \<longrightarrow> \<not> st_pure s)"
  using gates_ok_reachable [OF assms(1)] assms(2,3)
  by (auto simp: gates_ok_def reject_weakened_gate_def offending_fields_def split: if_splits)

definition plain_step :: "string \<Rightarrow> ('r, 'w) step" where
  "plain_step n =
     \<lparr>st_name = n, st_description = n, st_removable = True, st_replaceable = True, st_match_modules = None,
      st_ignore_errors = False, st_pure = False, st_timeout_ms = 0, st_requires = [], st_builtin_gate = None,
      st_provides = [], st_execute = (\<lambda>c w. (Inr continue_step, c, w)), st_elapses = (\<lambda>c w. None)\<rparr>"

lemma plain_step_simps [simp]:
  "st_name (plain_step n) = n" "st_removable (plain_step n)" "st_replaceable (plain_step n)"
  "st_match_modules (plain_step n) = None" "\<not> st_ignore_errors (plain_step n)" "\<not> st_pure (plain_step n)"
  "st_requires (plain_step n) = []" "st_provides (plain_step n) = []" "st_builtin_gate (plain_step n) = None"
  "st_timeout_ms (plain_step n) = 0"
  by (simp_all add: plain_step_def)

lemma gates_never_weakened_witness:
  "\<exists>y :: (unit, unit, unit) strategy. strategy_reachable (\<lambda>_ _. True) y \<and>
     (\<exists>s \<in> set (sy_steps y). st_builtin_gate s = Some AclGate \<and> \<not> st_ignore_errors s)"
proof -
  let ?gate = "(plain_step ''acl_check'')\<lparr>st_builtin_gate := Some AclGate\<rparr> :: (unit, unit) step"
  let ?init = "rebuild_index \<lparr>sy_name = ''s'', sy_steps = [?gate], sy_index = [], sy_middlewares = []\<rparr> ::
    (unit, unit, unit) strategy"
  let ?op = "ReplaceWith ''acl_check'' (\<lambda>s. s\<lparr>st_ignore_errors := True\<rparr>) :: (unit, unit, unit) strategy_op"
  let ?s = "neutralised_gate (?gate\<lparr>st_ignore_errors := True\<rparr>) AclGate"
  have n: "strategy_new ''s'' [?gate] = Inr ?init"
    by (simp add: strategy_new_def reject_weakened_gate_def offending_fields_def validate_dependencies_def
        Let_def)
  have r: "strategy_reachable (\<lambda>_ _. True) (snd (apply_op ?op ?init))"
    by (rule strategy_reachable.mutate [OF strategy_reachable.new [OF n]]) simp
  have s: "sy_steps (snd (apply_op ?op ?init)) = [?s]"
    by (simp add: replace_with_def find_step_index_def rebuild_index_def index_of_steps_def
        reject_weakened_gate_def offending_fields_def Let_def bt_get_Cons)
  have "\<not> st_ignore_errors ?s"
    using gates_never_weakened [OF r, of ?s AclGate]
    by (simp add: s neutralised_gate_def del: apply_op.simps)
  with r s show ?thesis
    by (intro exI [of _ "snd (apply_op ?op ?init)"]) (simp add: neutralised_gate_def del: apply_op.simps)
qed

text \<open>names are positions. As long as wrappers keep the name of the step they wrap, every reachable
  strategy has distinct step names, and the index maps a name to a position exactly when the step
  there has that name, so \<open>skip_to\<close>, \<open>remove\<close> and \<open>configure_step\<close> find the step meant.\<close>

theorem strategy_names_are_positions:
  assumes "strategy_reachable (\<lambda>s s'. st_name s' = st_name s) y"
  shows "distinct (step_names y) \<and>
    (bt_get (sy_index y) n = Some i \<longleftrightarrow> i < length (sy_steps y) \<and> st_name (sy_steps y ! i) = n)"
proof -
  note x = index_exact_reachable [OF assms] and d = names_distinct_reachable [OF assms]
  have "bt_get (sy_index y) n = Some i" if i: "i < length (sy_steps y)" "st_name (sy_steps y ! i) = n"
  proof -
    have "n \<in> set (step_names y)" using i nth_mem by (fastforce simp: step_names_def)
    with index_exact_None [OF x] obtain j where j: "bt_get (sy_index y) n = Some j" by fastforce
    with index_exact_Some [OF x j] i d have "i = j"
      by (auto simp: step_names_def distinct_conv_nth)
    with j show ?thesis by simp
  qed
  with d index_exact_Some [OF x] show ?thesis by blast
qed

lemma strategy_names_are_positions_witness:
  "\<exists>y :: (unit, unit, unit) strategy. strategy_reachable (\<lambda>s s'. st_name s' = st_name s) y \<and>
     step_names y = [''a'', ''b'', ''c''] \<and> bt_get (sy_index y) ''c'' = Some 2"
proof -
  let ?init = "rebuild_index \<lparr>sy_name = ''s'', sy_steps = [plain_step ''a'', plain_step ''c''], sy_index = [],
    sy_middlewares = []\<rparr> :: (unit, unit, unit) strategy"
  let ?op = "InsertAfter ''a'' (plain_step ''b'') :: (unit, unit, unit) strategy_op"
  have n: "strategy_new ''s'' [plain_step ''a'', plain_step ''c''] = Inr ?init"
    by (simp add: strategy_new_def reject_weakened_gate_def validate_dependencies_def Let_def)
  have r: "strategy_reachable (\<lambda>s s'. st_name s' = st_name s) (snd (apply_op ?op ?init))"
    by (rule strategy_reachable.mutate [OF strategy_reachable.new [OF n]]) simp
  have s: "sy_steps (snd (apply_op ?op ?init)) = [plain_step ''a'', plain_step ''b'', plain_step ''c'']"
    by (simp add: insert_after_def insert_checked_def find_step_index_def rebuild_index_def index_of_steps_def
        reject_weakened_gate_def validate_no_duplicate_def insert_at_def Let_def bt_get_Cons)
  have "bt_get (sy_index (snd (apply_op ?op ?init))) ''c'' = Some 2"
    using strategy_names_are_positions [OF r, of "''c''" 2] by (simp add: s del: apply_op.simps)
  with r s show ?thesis
    by (intro exI [of _ "snd (apply_op ?op ?init)"]) (simp add: step_names_def del: apply_op.simps)
qed

subsection \<open>Pinned steps and dependencies\<close>

definition pinned :: "('r, 'w) step \<Rightarrow> bool" where
  "pinned s \<longleftrightarrow> \<not> st_removable s \<and> \<not> st_replaceable s"

lemma subseq_insert_at: "subseq xs (insert_at i x xs)"
proof -
  have "subseq (take i xs @ drop i xs) (take i xs @ x # drop i xs)"
    by (rule list_emb_append_mono) (auto intro: list_emb_Cons)
  then show ?thesis by (simp add: insert_at_def)
qed

lemma filter_update_pinned:
  "i < length xs \<Longrightarrow> \<not> P (xs ! i) \<Longrightarrow> filter P xs = filter P (take i xs) @ filter P (drop (Suc i) xs)"
  by (subst id_take_nth_drop [of i xs]) simp_all

lemma subseq_update_pinned:
  assumes "i < length xs" and "\<not> P (xs ! i)"
  shows "subseq (filter P xs) (xs[i := x])" and "subseq (filter P xs) (take i xs @ drop (Suc i) xs)"
proof -
  have "subseq (filter P (take i xs) @ filter P (drop (Suc i) xs)) (take i xs @ drop (Suc i) xs)"
    by (intro list_emb_append_mono subseq_filter_left)
  moreover have "subseq (take i xs @ drop (Suc i) xs) (take i xs @ x # drop (Suc i) xs)"
    by (rule list_emb_append_mono) (auto intro: list_emb_Cons)
  ultimately show "subseq (filter P xs) (take i xs @ drop (Suc i) xs)"
    and "subseq (filter P xs) (xs[i := x])"
    unfolding filter_update_pinned [of i xs P, OF assms] using assms(1)
    by (auto simp: upd_conv_take_nth_drop intro: subseq_order.trans)
qed

text \<open>safety-critical steps stay. A step that is neither removable nor replaceable survives every
  mutation that does not wrap a step, whether it succeeds or fails, and the pinned steps keep
  their relative order.\<close>

theorem pinned_steps_survive:
  assumes "strategy_reachable P y" and "\<And>n f. op \<noteq> ReplaceWith n f"
  shows "subseq (filter pinned (sy_steps y)) (sy_steps (snd (apply_op op y)))"
proof -
  note x = index_exact_reachable [OF assms(1)]
  have ins: "subseq (filter pinned (sy_steps y)) (sy_steps (snd (insert_checked f a s y)))" for f a s
    using subseq_order.trans [OF subseq_filter_left subseq_insert_at, of pinned "sy_steps y"]
    by (auto simp: insert_checked_def Let_def subseq_filter_left split: option.splits sum.splits)
  have rep: "subseq (filter pinned (sy_steps y)) (sy_steps (snd (replace_at i n s y)))"
    if "i < length (sy_steps y)" for i n s
    using subseq_update_pinned(1) [OF that, of pinned s]
    by (auto simp: replace_at_def pinned_def subseq_filter_left split: option.splits)
  show ?thesis
  proof (cases op)
    case (Remove n)
    with find_index_Inr [OF x, of n] subseq_update_pinned(2) [of _ "sy_steps y" pinned] show ?thesis
      by (auto simp: remove_step_def pinned_def subseq_filter_left split: sum.splits)
  next
    case (Replace n s)
    with rep find_index_Inr [OF x] show ?thesis
      by (auto simp: replace_step_def subseq_filter_left split: sum.splits)
  next
    case (Configure n s)
    with rep index_exact_Some [OF x] show ?thesis
      by (auto simp: configure_step_def subseq_filter_left split: option.splits)
  next
    case (ReplaceWith n f)
    with assms(2) show ?thesis by blast
  qed (use ins in \<open>auto simp: insert_after_def insert_before_def add_step_middleware_def set_name_def
      subseq_filter_left\<close>)
qed

lemma pinned_steps_survive_witness:
  "\<exists>y :: (unit, unit, unit) strategy. filter pinned (sy_steps y) \<noteq> [] \<and>
     subseq (filter pinned (sy_steps y)) (sy_steps (snd (remove_step ''a'' y)))"
proof -
  let ?a = "(plain_step ''a'')\<lparr>st_removable := False, st_replaceable := False\<rparr> :: (unit, unit) step"
  let ?y = "rebuild_index \<lparr>sy_name = ''s'', sy_steps = [?a], sy_index = [], sy_middlewares = []\<rparr> ::
    (unit, unit, unit) strategy"
  have n: "strategy_new ''s'' [?a] = Inr ?y"
    by (simp add: strategy_new_def reject_weakened_gate_def validate_dependencies_def Let_def)
  have r: "strategy_reachable (\<lambda>_ _. True) ?y" by (rule strategy_reachable.new [OF n])
  have "subseq (filter pinned (sy_steps ?y)) (sy_steps (snd (apply_op (Remove ''a'') ?y)))"
    by (rule pinned_steps_survive [OF r]) simp
  moreover have "filter pinned (sy_steps ?y) \<noteq> []" by (simp add: pinned_def)
  ultimately show ?thesis by (intro exI [of _ ?y]) simp
qed

definition depends_ok :: "string set \<Rightarrow> ('r, 'w) step list \<Rightarrow> bool" where
  "depends_ok K ss \<longleftrightarrow>
     (\<forall>i < length ss. set (st_requires (ss ! i)) \<subseteq> K \<union> (\<Union>s \<in> set (take i ss). set (st_provides s)))"

lemma depends_ok_Cons:
  "depends_ok K (s # ss) \<longleftrightarrow> set (st_requires s) \<subseteq> K \<and> depends_ok (K \<union> set (st_provides s)) ss"
  unfolding depends_ok_def by (auto simp: All_less_Suc2 Un_assoc)

lemma validate_from_iff: "validate_from K ss = None \<longleftrightarrow> depends_ok K ss"
proof (induction K ss rule: validate_from.induct)
  case (1 K)
  then show ?case by (simp add: depends_ok_def)
next
  case (2 K s ss)
  then show ?case by (auto simp: depends_ok_Cons list_ex_iff)
qed

text \<open>a strategy is built, and an insertion succeeds, only when every step's requirements are provided
  by the steps before it; building one fails with exactly one of three typed errors otherwise.\<close>

theorem strategy_requirements_met:
  "(case (strategy_new n ss :: module_error + ('r, 'w, 'm) strategy) of
      Inr y \<Rightarrow> sy_steps y = ss \<and> distinct (map st_name ss) \<and> depends_ok {} ss
    | Inl e \<Rightarrow> err_code e \<in> {PipelineConfigurationError, StepNameDuplicate, PipelineDependencyError}) \<and>
   (fst (insert_after a s y) = None \<longrightarrow> depends_ok {} (sy_steps (snd (insert_after a s y)))) \<and>
   (fst (insert_before a s y) = None \<longrightarrow> depends_ok {} (sy_steps (snd (insert_before a s y))))"
proof (intro conjI)
  have c: "err_code e \<in> {PipelineConfigurationError, StepNameDuplicate}"
    if "check_new_steps seen ss = Some e" for seen e
    using that by (induction seen ss rule: check_new_steps.induct)
      (auto simp: reject_weakened_gate_def gate_weakening_error_def step_name_duplicate_def
        module_error_new_def split: option.splits if_splits)
  have v: "err_code e = PipelineDependencyError" if "validate_from K ss = Some e" for K e
    using that by (induction K ss rule: validate_from.induct)
      (auto simp: dependency_error_def module_error_new_def split: if_splits)
  show "case (strategy_new n ss :: module_error + ('r, 'w, 'm) strategy) of
      Inr y \<Rightarrow> sy_steps y = ss \<and> distinct (map st_name ss) \<and> depends_ok {} ss
    | Inl e \<Rightarrow> err_code e \<in> {PipelineConfigurationError, StepNameDuplicate, PipelineDependencyError}"
  proof (cases "strategy_new n ss :: module_error + ('r, 'w, 'm) strategy")
    case (Inl e)
    with c v show ?thesis
      by (auto simp: strategy_new_def Let_def validate_dependencies_def split: option.splits)
  next
    case (Inr y)
    with strategy_new_steps [OF Inr] check_new_steps_None [of "{}" ss] show ?thesis
      by (simp add: validate_from_iff)
  qed
  have "fst (insert_checked f a s y) = None \<Longrightarrow> depends_ok {} (sy_steps (snd (insert_checked f a s y)))" for f
    by (auto simp: insert_checked_def Let_def validate_dependencies_def validate_from_iff
        split: option.splits sum.splits)
  then show "fst (insert_after a s y) = None \<longrightarrow> depends_ok {} (sy_steps (snd (insert_after a s y)))"
    and "fst (insert_before a s y) = None \<longrightarrow> depends_ok {} (sy_steps (snd (insert_before a s y)))"
    by (simp_all add: insert_after_def insert_before_def)
qed

text \<open>Three edges of the contract: a refused insertion leaves the step in the strategy; a removal can leave
  a requirement unmet; a wrapper that renames its step can give two steps one name.\<close>

lemma refused_insertion_stays:
  "let y = rebuild_index \<lparr>sy_name = ''s'', sy_steps = [plain_step ''a''], sy_index = [], sy_middlewares = []\<rparr> ::
         (unit, unit, unit) strategy;
       (e, y') = insert_after ''a'' ((plain_step ''b'')\<lparr>st_requires := [''x'']\<rparr>) y
   in map_option err_code e = Some PipelineDependencyError \<and> step_names y' = [''a'', ''b'']"
  by (simp add: insert_after_def insert_checked_def find_step_index_def rebuild_index_def index_of_steps_def
      reject_weakened_gate_def validate_no_duplicate_def validate_dependencies_def insert_at_def Let_def
      bt_get_Cons step_names_def dependency_error_def module_error_new_def)

lemma removal_leaves_requirement:
  "let y = rebuild_index \<lparr>sy_name = ''s'',
         sy_steps = [(plain_step ''a'')\<lparr>st_provides := [''x'']\<rparr>, (plain_step ''b'')\<lparr>st_requires := [''x'']\<rparr>],
         sy_index = [], sy_middlewares = []\<rparr> :: (unit, unit, unit) strategy;
       (e, y') = remove_step ''a'' y
   in validate_dependencies y = None \<and> e = None \<and> validate_dependencies y' \<noteq> None"
  by (simp add: remove_step_def find_step_index_def rebuild_index_def index_of_steps_def
      validate_dependencies_def Let_def bt_get_Cons)

lemma wrapper_can_duplicate_a_name:
  "let y = rebuild_index \<lparr>sy_name = ''s'', sy_steps = [plain_step ''a'', plain_step ''b''], sy_index = [],
         sy_middlewares = []\<rparr> :: (unit, unit, unit) strategy;
       (e, y') = replace_with ''a'' (\<lambda>s. s\<lparr>st_name := ''b''\<rparr>) y
   in e = None \<and> step_names y' = [''b'', ''b'']"
  by (simp add: replace_with_def find_step_index_def rebuild_index_def index_of_steps_def
      reject_weakened_gate_def Let_def bt_get_Cons step_names_def)

end
