(* ===== verification/Engine.thy ===== *)
theory Engine
  imports Strategy Patterns
begin

section \<open>The pipeline engine\<close>

text \<open>
  \<open>src/src/pipeline.rs\<close>, \<open>PipelineEngine\<close>: one function per stage of the control loop
  of \<open>run_with_options\<close>, composed in the order of the source. Step middlewares observe the context and
  act on the world \<open>'w\<close> only, as their signatures say. A run ends by \<open>Stop\<close> with an error or none, or
  by leaving the loop.
\<close>

type_synonym outputs = "(string \<times> json option) list"

record ('r, 'w) step_mw =
  sm_before :: "string \<Rightarrow> outputs \<Rightarrow> 'r pctx \<Rightarrow> 'w \<Rightarrow> module_error option \<times> 'w"
  sm_after :: "string \<Rightarrow> outputs \<Rightarrow> 'r pctx \<Rightarrow> json \<Rightarrow> 'w \<Rightarrow> module_error option \<times> 'w"
  sm_on_error :: "string \<Rightarrow> outputs \<Rightarrow> 'r pctx \<Rightarrow> module_error \<Rightarrow> 'w \<Rightarrow> (module_error + json option) \<times> 'w"

type_synonym ('r, 'w) pipeline = "('r, 'w, ('r, 'w) step_mw) strategy"

record 'r run_options =
  ro_stop_before :: "string option"
  ro_only_steps :: "string list option"
  ro_until :: "(string \<Rightarrow> outputs \<Rightarrow> 'r pctx \<Rightarrow> bool) option"

definition run_options_default :: "'r run_options" where
  "run_options_default = \<lparr>ro_stop_before = None, ro_only_steps = None, ro_until = None\<rparr>"

definition opt_stop_before :: "string \<Rightarrow> 'r run_options" where
  "opt_stop_before n = \<lparr>ro_stop_before = Some n, ro_only_steps = None, ro_until = None\<rparr>"

definition opt_only_steps :: "string list \<Rightarrow> 'r run_options" where
  "opt_only_steps ns = \<lparr>ro_stop_before = None, ro_only_steps = Some ns, ro_until = None\<rparr>"

definition opt_run_until :: "(string \<Rightarrow> outputs \<Rightarrow> 'r pctx \<Rightarrow> bool) \<Rightarrow> 'r run_options" where
  "opt_run_until p = \<lparr>ro_stop_before = None, ro_only_steps = None, ro_until = Some p\<rparr>"

record ('r, 'w) engine =
  en_ctx :: "'r pctx"
  en_outputs :: outputs
  en_failed :: "string set"
  en_world :: 'w

datatype flow = Goto nat | Leave | Stop "module_error option"

subsection \<open>Trace records\<close>

definition passed_over :: "string \<Rightarrow> string option \<Rightarrow> step_trace" where
  "passed_over n reason =
     \<lparr>tr_name = n, tr_result = continue_step, tr_skipped = True, tr_decision_point = False,
      tr_skip_reason = reason\<rparr>"

definition ran :: "string \<Rightarrow> step_result \<Rightarrow> string option \<Rightarrow> step_trace" where
  "ran n r reason =
     \<lparr>tr_name = n, tr_result = r, tr_skipped = False, tr_decision_point = False, tr_skip_reason = reason\<rparr>"

definition aborted :: "string \<Rightarrow> module_error \<Rightarrow> step_trace" where
  "aborted n e = ran n (abort_step (ErrorText e)) None"

definition push_traces :: "step_trace list \<Rightarrow> ('r, 'w) engine \<Rightarrow> ('r, 'w) engine" where
  "push_traces ts en =
     en\<lparr>en_ctx := (en_ctx en)\<lparr>px_trace :=
       (px_trace (en_ctx en))\<lparr>pt_steps := pt_steps (px_trace (en_ctx en)) @ ts\<rparr>\<rparr>\<rparr>"

definition set_success :: "bool \<Rightarrow> ('r, 'w) engine \<Rightarrow> ('r, 'w) engine" where
  "set_success b en =
     en\<lparr>en_ctx := (en_ctx en)\<lparr>px_trace := (px_trace (en_ctx en))\<lparr>pt_success := b\<rparr>\<rparr>\<rparr>"

definition snapshot_output :: "string \<Rightarrow> ('r, 'w) engine \<Rightarrow> ('r, 'w) engine" where
  "snapshot_output n en = en\<lparr>en_outputs := bt_insert n (px_output (en_ctx en)) (en_outputs en)\<rparr>"

definition mark_failed :: "('r, 'w) step \<Rightarrow> ('r, 'w) engine \<Rightarrow> ('r, 'w) engine" where
  "mark_failed s en = en\<lparr>en_failed := en_failed en \<union> set (st_provides s)\<rparr>"

definition add_preflight_error :: "string \<Rightarrow> module_error \<Rightarrow> ('r, 'w) engine \<Rightarrow> ('r, 'w) engine" where
  "add_preflight_error n e en =
     en\<lparr>en_ctx := (en_ctx en)\<lparr>px_preflight_errors := px_preflight_errors (en_ctx en) @ [(n, e)]\<rparr>\<rparr>"

subsection \<open>Middleware hooks\<close>

fun run_before ::
  "('r, 'w) step_mw list \<Rightarrow> string \<Rightarrow> ('r, 'w) engine \<Rightarrow> (module_error option \<times> nat) \<times> ('r, 'w) engine" where
  "run_before [] n en = ((None, 0), en)"
| "run_before (m # ms) n en =
     (case sm_before m n (en_outputs en) (en_ctx en) (en_world en) of
        (Some e, w) \<Rightarrow> ((Some e, 1), en\<lparr>en_world := w\<rparr>)
      | (None, w) \<Rightarrow>
          (case run_before ms n (en\<lparr>en_world := w\<rparr>) of ((r, k), en') \<Rightarrow> ((r, Suc k), en')))"

text \<open>Unwinding after a failed \<open>before_step\<close>: every middleware given is told, whatever it answers.\<close>

fun unwind :: "('r, 'w) step_mw list \<Rightarrow> string \<Rightarrow> module_error \<Rightarrow> ('r, 'w) engine \<Rightarrow> ('r, 'w) engine" where
  "unwind [] n e en = en"
| "unwind (m # ms) n e en =
     unwind ms n e (en\<lparr>en_world := snd (sm_on_error m n (en_outputs en) (en_ctx en) e (en_world en))\<rparr>)"

datatype recovery = NotRecovered | Recovered json | HookFailed module_error

fun run_on_error ::
  "('r, 'w) step_mw list \<Rightarrow> string \<Rightarrow> module_error \<Rightarrow> ('r, 'w) engine \<Rightarrow> recovery \<times> ('r, 'w) engine" where
  "run_on_error [] n e en = (NotRecovered, en)"
| "run_on_error (m # ms) n e en =
     (case sm_on_error m n (en_outputs en) (en_ctx en) e (en_world en) of
        (Inr (Some v), w) \<Rightarrow> (Recovered v, en\<lparr>en_world := w\<rparr>)
      | (Inr None, w) \<Rightarrow> run_on_error ms n e (en\<lparr>en_world := w\<rparr>)
      | (Inl e', w) \<Rightarrow> (HookFailed e', en\<lparr>en_world := w\<rparr>))"

fun run_after ::
  "('r, 'w) step_mw list \<Rightarrow> string \<Rightarrow> json \<Rightarrow> ('r, 'w) engine \<Rightarrow> module_error option \<times> ('r, 'w) engine" where
  "run_after [] n v en = (None, en)"
| "run_after (m # ms) n v en =
     (case sm_after m n (en_outputs en) (en_ctx en) v (en_world en) of
        (Some e, w) \<Rightarrow> (Some e, en\<lparr>en_world := w\<rparr>)
      | (None, w) \<Rightarrow> run_after ms n v (en\<lparr>en_world := w\<rparr>))"

definition run_after_step_hooks ::
  "('r, 'w) step_mw list \<Rightarrow> string \<Rightarrow> json \<Rightarrow> ('r, 'w) engine \<Rightarrow> module_error option \<times> ('r, 'w) engine" where
  "run_after_step_hooks ms = run_after (rev ms)"

definition chain_error :: "string \<Rightarrow> module_error \<Rightarrow> module_error" where
  "chain_error n e =
     with_details (details_of [(''inner_error'', error_to_json e), (''step_name'', JString n)])
       (module_error_new MiddlewareChainError)"

subsection \<open>One iteration of the loop\<close>

definition execute_step ::
  "('r, 'w) step \<Rightarrow> ('r, 'w) engine \<Rightarrow> (module_error + step_result) \<times> ('r, 'w) engine" where
  "execute_step s en =
     (case (if 0 < st_timeout_ms s then st_elapses s (en_ctx en) (en_world en) else None) of
        Some (c, w) \<Rightarrow> (Inl (module_error_new ModuleTimeout), en\<lparr>en_ctx := c, en_world := w\<rparr>)
      | None \<Rightarrow>
          (case st_execute s (en_ctx en) (en_world en) of
             (r, c, w) \<Rightarrow> (r, en\<lparr>en_ctx := c, en_world := w\<rparr>)))"

definition after_failed :: "string \<Rightarrow> module_error \<Rightarrow> ('r, 'w) engine \<Rightarrow> flow \<times> ('r, 'w) engine" where
  "after_failed n e en = (Stop (Some (pipeline_step_error n e)), push_traces [aborted n e] en)"

definition step_failed ::
  "('r, 'w) step_mw list \<Rightarrow> nat \<Rightarrow> ('r, 'w) step \<Rightarrow> module_error \<Rightarrow> ('r, 'w) engine
     \<Rightarrow> flow \<times> ('r, 'w) engine" where
  "step_failed ms i s e en =
     (let n = st_name s in
      if px_dry_run (en_ctx en)
      then (Goto (i + 1), push_traces [aborted n e] (add_preflight_error n e (mark_failed s en)))
      else case run_on_error (rev ms) n e en of
        (HookFailed e', en1) \<Rightarrow> after_failed n e' en1
      | (Recovered v, en1) \<Rightarrow>
          (case run_after_step_hooks ms n v (en1\<lparr>en_ctx := (en_ctx en1)\<lparr>px_output := Some v\<rparr>\<rparr>) of
             (Some e', en2) \<Rightarrow> after_failed n e' en2
           | (None, en2) \<Rightarrow>
               (Goto (i + 1),
                snapshot_output n
                  (push_traces [ran n (continue_step\<lparr>sr_explanation := Some (RecoveredFrom e)\<rparr>)
                     (Some ''error_recovered'')] en2)))
      | (NotRecovered, en1) \<Rightarrow>
          if st_ignore_errors s
          then (Goto (i + 1),
                push_traces [ran n (continue_step\<lparr>sr_explanation := Some (ErrorText e)\<rparr>)
                  (Some ''error_ignored'')] en1)
          else after_failed n e en1)"

definition skip_target :: "('r, 'w, 'm) strategy \<Rightarrow> nat \<Rightarrow> step_result \<Rightarrow> nat option" where
  "skip_target y i r =
     (case bt_get (sy_index y) (case sr_skip_to r of None \<Rightarrow> [] | Some t \<Rightarrow> t) of
        None \<Rightarrow> None
      | Some t \<Rightarrow> if i < t then Some t else None)"

definition follow_action ::
  "('r, 'w) pipeline \<Rightarrow> 'r run_options \<Rightarrow> nat \<Rightarrow> string \<Rightarrow> step_result \<Rightarrow> ('r, 'w) engine
     \<Rightarrow> flow \<times> ('r, 'w) engine" where
  "follow_action y opts i n r en =
     (if sr_action r = ''continue'' then
        (case ro_until opts of
           Some p \<Rightarrow>
             if p n (en_outputs en) (en_ctx en) then (Stop None, set_success True en) else (Goto (i + 1), en)
         | None \<Rightarrow> (Goto (i + 1), en))
      else if sr_action r = ''abort'' then (Stop None, set_success False en)
      else if sr_action r = ''skip_to'' then
        (case skip_target y i r of
           Some t \<Rightarrow>
             (Goto t,
              push_traces (map (\<lambda>s. passed_over (st_name s) None) (drop (i + 1) (take t (sy_steps y)))) en)
         | None \<Rightarrow> (Stop (Some (module_error_new StepNotFound)), en))
      else (Stop (Some (module_error_new GeneralInvalidInput)), en))"

definition step_succeeded ::
  "('r, 'w) pipeline \<Rightarrow> 'r run_options \<Rightarrow> nat \<Rightarrow> ('r, 'w) step \<Rightarrow> step_result \<Rightarrow> ('r, 'w) engine
     \<Rightarrow> flow \<times> ('r, 'w) engine" where
  "step_succeeded y opts i s r en =
     (let n = st_name s;
          v = (case px_output (en_ctx en) of None \<Rightarrow> JNull | Some v \<Rightarrow> v)
      in case run_after_step_hooks (sy_middlewares y) n v en of
           (Some e, en1) \<Rightarrow> after_failed n e en1
         | (None, en1) \<Rightarrow>
             follow_action y opts i n r (snapshot_output n (push_traces [ran n r None] en1)))"

definition run_body ::
  "('r, 'w) pipeline \<Rightarrow> 'r run_options \<Rightarrow> nat \<Rightarrow> ('r, 'w) step \<Rightarrow> ('r, 'w) engine \<Rightarrow> flow \<times> ('r, 'w) engine" where
  "run_body y opts i s en =
     (let ms = sy_middlewares y; n = st_name s in
      case run_before ms n en of
        ((Some e, k), en1) \<Rightarrow>
          let ce = chain_error n e in
          (Stop (Some ce), push_traces [aborted n ce] (unwind (rev (take k ms)) n ce en1))
      | ((None, k), en1) \<Rightarrow>
          (case execute_step s en1 of
             (Inl e, en2) \<Rightarrow> step_failed ms i s e en2
           | (Inr r, en2) \<Rightarrow> step_succeeded y opts i s r en2))"

definition missing_dependency :: "('r, 'w) step \<Rightarrow> ('r, 'w) engine \<Rightarrow> bool" where
  "missing_dependency s en \<longleftrightarrow>
     px_dry_run (en_ctx en) \<and>
     (px_module (en_ctx en) = None \<and> ''module'' \<in> set (st_requires s) \<or>
      list_ex (\<lambda>c. c \<in> en_failed en) (st_requires s))"

definition filtered_out :: "('r, 'w) step \<Rightarrow> 'r pctx \<Rightarrow> bool" where
  "filtered_out s c \<longleftrightarrow>
     (case st_match_modules s of
        None \<Rightarrow> False
      | Some ps \<Rightarrow> \<not> list_ex (\<lambda>p. match_pattern p (px_module_id c)) ps)"

definition not_selected :: "'r run_options \<Rightarrow> string \<Rightarrow> bool" where
  "not_selected opts n \<longleftrightarrow> (case ro_only_steps opts of None \<Rightarrow> False | Some ns \<Rightarrow> n \<notin> set ns)"

definition run_step ::
  "('r, 'w) pipeline \<Rightarrow> 'r run_options \<Rightarrow> nat \<Rightarrow> ('r, 'w) engine \<Rightarrow> flow \<times> ('r, 'w) engine" where
  "run_step y opts i en =
     (let s = sy_steps y ! i; n = st_name s in
      if ro_stop_before opts = Some n then (Leave, en)
      else if not_selected opts n then (Goto (i + 1), en)
      else if missing_dependency s en
      then (Goto (i + 1), push_traces [passed_over n (Some ''missing_dependency'')] (mark_failed s en))
      else if filtered_out s (en_ctx en)
      then (Goto (i + 1), push_traces [passed_over n (Some ''no_match'')] en)
      else if px_dry_run (en_ctx en) \<and> \<not> st_pure s
      then (Goto (i + 1), push_traces [passed_over n (Some ''dry_run'')] en)
      else run_body y opts i s en)"

subsection \<open>The loop\<close>

lemma step_failed_forward: "step_failed ms i s e en = (Goto j, en') \<Longrightarrow> j = i + 1"
  by (auto simp: step_failed_def after_failed_def Let_def split: if_splits prod.splits recovery.splits option.splits)

lemma follow_action_forward: "follow_action y opts i n r en = (Goto j, en') \<Longrightarrow> i < j"
  by (auto simp: follow_action_def skip_target_def split: if_splits option.splits)

lemma run_step_forward: "run_step y opts i en = (Goto j, en') \<Longrightarrow> i < j"
  by (auto simp: run_step_def run_body_def step_succeeded_def after_failed_def Let_def
      split: if_splits prod.splits sum.splits option.splits
      dest: step_failed_forward follow_action_forward)

function run_from ::
  "('r, 'w) pipeline \<Rightarrow> 'r run_options \<Rightarrow> nat \<Rightarrow> ('r, 'w) engine \<Rightarrow> module_error option \<times> ('r, 'w) engine" where
  "run_from y opts i en =
     (if i < length (sy_steps y) then
        (case run_step y opts i en of
           (Goto j, en') \<Rightarrow> run_from y opts j en'
         | (Leave, en') \<Rightarrow> (None, set_success True en')
         | (Stop r, en') \<Rightarrow> (r, en'))
      else (None, set_success True en))"
  by pat_completeness auto
termination
  by (relation "measure (\<lambda>(y, opts, i, en). length (sy_steps y) - i)")
    (auto dest!: run_step_forward [OF sym] intro: diff_less_mono2)

declare run_from.simps [simp del]

definition engine_start :: "'r pctx \<Rightarrow> 'w \<Rightarrow> ('r, 'w) engine" where
  "engine_start c w = \<lparr>en_ctx = c, en_outputs = [], en_failed = {}, en_world = w\<rparr>"

type_synonym ('r, 'w) run_result = "(module_error + json option \<times> pipeline_trace) \<times> 'r pctx \<times> 'w"

definition run_with_options ::
  "('r, 'w) pipeline \<Rightarrow> 'r run_options \<Rightarrow> 'r pctx \<Rightarrow> 'w \<Rightarrow> ('r, 'w) run_result" where
  "run_with_options y opts c w =
     (case run_from y opts 0 (engine_start c w) of
        (r, en) \<Rightarrow>
          ((case r of Some e \<Rightarrow> Inl e | None \<Rightarrow> Inr (px_output (en_ctx en), px_trace (en_ctx en))),
           en_ctx en, en_world en))"

definition engine_run :: "('r, 'w) pipeline \<Rightarrow> 'r pctx \<Rightarrow> 'w \<Rightarrow> ('r, 'w) run_result" where
  "engine_run y = run_with_options y run_options_default"

definition engine_run_until ::
  "('r, 'w) pipeline \<Rightarrow> (string \<Rightarrow> outputs \<Rightarrow> 'r pctx \<Rightarrow> bool) \<Rightarrow> 'r pctx \<Rightarrow> 'w \<Rightarrow> ('r, 'w) run_result" where
  "engine_run_until y p = run_with_options y (opt_run_until p)"

definition run_until_step :: "('r, 'w) pipeline \<Rightarrow> string \<Rightarrow> 'r pctx \<Rightarrow> 'w \<Rightarrow> ('r, 'w) run_result" where
  "run_until_step y n = run_with_options y (opt_stop_before n)"

subsection \<open>The trace\<close>

text \<open>A step that leaves the trace to the engine.\<close>

definition keeps_trace :: "('r, 'w) step \<Rightarrow> bool" where
  "keeps_trace s \<longleftrightarrow>
     (\<forall>c w. px_trace (fst (snd (st_execute s c w))) = px_trace c) \<and>
     (\<forall>c w c' w'. st_elapses s c w = Some (c', w') \<longrightarrow> px_trace c' = px_trace c)"

definition trace_names :: "('r, 'w) engine \<Rightarrow> string list" where
  "trace_names en = map tr_name (pt_steps (px_trace (en_ctx en)))"

lemma trace_names_simps [simp]:
  "trace_names (push_traces ts en) = trace_names en @ map tr_name ts"
  "trace_names (set_success b en) = trace_names en"
  "trace_names (snapshot_output n en) = trace_names en"
  "trace_names (mark_failed s en) = trace_names en"
  "trace_names (add_preflight_error n e en) = trace_names en"
  "trace_names (en\<lparr>en_world := w\<rparr>) = trace_names en"
  "trace_names (en\<lparr>en_ctx := (en_ctx en)\<lparr>px_output := v\<rparr>\<rparr>) = trace_names en"
  by (simp_all add: trace_names_def push_traces_def set_success_def snapshot_output_def mark_failed_def
      add_preflight_error_def)

lemma tr_name_simps [simp]:
  "tr_name (passed_over n r) = n" "tr_name (ran n x r) = n" "tr_name (aborted n e) = n"
  by (simp_all add: passed_over_def ran_def aborted_def)

text \<open>The hooks change the world only.\<close>

lemma run_before_ctx: "run_before ms n en = (r, en') \<Longrightarrow> \<exists>w. en' = en\<lparr>en_world := w\<rparr>"
proof (induction ms n en arbitrary: r en' rule: run_before.induct)
  case (1 n en)
  then show ?case by (auto intro: exI [of _ "en_world en"])
next
  case (2 m ms n en)
  then show ?case by (fastforce split: prod.splits option.splits)
qed

lemma unwind_ctx: "\<exists>w. unwind ms n e en = en\<lparr>en_world := w\<rparr>"
proof (induction ms n e en rule: unwind.induct)
  case (1 n e en)
  then show ?case by (auto intro: exI [of _ "en_world en"])
next
  case (2 m ms n e en)
  then show ?case by auto
qed

lemma run_on_error_ctx: "run_on_error ms n e en = (r, en') \<Longrightarrow> \<exists>w. en' = en\<lparr>en_world := w\<rparr>"
proof (induction ms n e en arbitrary: r en' rule: run_on_error.induct)
  case (1 n e en)
  then show ?case by (auto intro: exI [of _ "en_world en"])
next
  case (2 m ms n e en)
  then show ?case by (fastforce split: prod.splits option.splits sum.splits)
qed

lemma run_after_ctx: "run_after ms n v en = (r, en') \<Longrightarrow> \<exists>w. en' = en\<lparr>en_world := w\<rparr>"
proof (induction ms n v en arbitrary: r en' rule: run_after.induct)
  case (1 n v en)
  then show ?case by (auto intro: exI [of _ "en_world en"])
next
  case (2 m ms n v en)
  then show ?case by (fastforce split: prod.splits option.splits)
qed

lemma after_hooks_ctx: "run_after_step_hooks ms n v en = (r, en') \<Longrightarrow> \<exists>w. en' = en\<lparr>en_world := w\<rparr>"
  unfolding run_after_step_hooks_def by (rule run_after_ctx)

lemma execute_step_trace:
  assumes "keeps_trace s" and "execute_step s en = (r, en')"
  shows "trace_names en' = trace_names en"
proof (cases "if 0 < st_timeout_ms s then st_elapses s (en_ctx en) (en_world en) else None")
  case None
  obtain r1 c w where "st_execute s (en_ctx en) (en_world en) = (r1, c, w)"
    by (cases "st_execute s (en_ctx en) (en_world en)")
  moreover from assms(1) this have "px_trace c = px_trace (en_ctx en)"
    unfolding keeps_trace_def by (metis fst_conv snd_conv)
  ultimately show ?thesis using assms(2) None by (auto simp: execute_step_def trace_names_def)
next
  case (Some x)
  obtain c w where x: "x = (c, w)" by (cases x)
  with Some assms(1) have "px_trace c = px_trace (en_ctx en)"
    unfolding keeps_trace_def by (metis option.distinct(1))
  with assms(2) Some x show ?thesis by (auto simp: execute_step_def trace_names_def)
qed

lemma after_failed_trace: "after_failed n e en = (fl, en') \<Longrightarrow> (\<exists>r. fl = Stop r) \<and> trace_names en' = trace_names en @ [n]"
  by (auto simp: after_failed_def)

lemma step_failed_trace:
  "step_failed ms i s e en = (fl, en') \<Longrightarrow>
     fl \<noteq> Leave \<and> trace_names en' = trace_names en @ [st_name s] \<and> (\<forall>j. fl = Goto j \<longrightarrow> j = i + 1)"
  by (auto simp: step_failed_def Let_def split: if_splits prod.splits recovery.splits option.splits
      dest!: run_on_error_ctx after_hooks_ctx after_failed_trace)

lemma follow_action_trace:
  assumes "index_exact y" and "follow_action y opts i n r en = (fl, en')" and "i < length (sy_steps y)"
  shows "fl \<noteq> Leave \<and>
    (\<forall>j. fl = Goto j \<longrightarrow> i < j \<and> j \<le> length (sy_steps y) \<and>
       trace_names en' = trace_names en @ map st_name (drop (i + 1) (take j (sy_steps y)))) \<and>
    (\<forall>e. fl = Stop e \<longrightarrow> trace_names en' = trace_names en)"
proof (cases "sr_action r = ''skip_to''")
  case True
  with assms index_exact_Some [OF assms(1)] show ?thesis
    by (auto simp: follow_action_def skip_target_def split: option.splits if_splits intro: less_imp_le)
next
  case False
  with assms show ?thesis by (auto simp: follow_action_def split: option.splits if_splits)
qed

lemma drop_take_Cons: "i < j \<Longrightarrow> j \<le> length xs \<Longrightarrow> drop i (take j xs) = xs ! i # drop (i + 1) (take j xs)"
  by (simp add: Cons_nth_drop_Suc [symmetric])

definition segment :: "('r, 'w, 'm) strategy \<Rightarrow> nat \<Rightarrow> nat \<Rightarrow> string list" where
  "segment y i j = map st_name (drop i (take j (sy_steps y)))"

lemma segment_Suc: "i < length (sy_steps y) \<Longrightarrow> segment y i (Suc i) = [st_name (sy_steps y ! i)]"
  by (simp add: segment_def drop_take_Cons [of i "Suc i", simplified])

lemma drop_take_append: "i \<le> j \<Longrightarrow> j \<le> k \<Longrightarrow> drop i (take j xs) @ drop j (take k xs) = drop i (take k xs)"
proof (cases "j \<le> length xs")
  case True
  assume "i \<le> j" "j \<le> k"
  then have "take k xs = take j xs @ drop j (take k xs)"
    by (metis append_take_drop_id min.absorb1 take_take)
  then have "drop i (take k xs) = drop i (take j xs @ drop j (take k xs))" by simp
  also have "\<dots> = drop i (take j xs) @ drop j (take k xs)" using True \<open>i \<le> j\<close> by simp
  finally show ?thesis by simp
qed simp

lemma segment_append: "i \<le> j \<Longrightarrow> j \<le> k \<Longrightarrow> segment y i j @ segment y j k = segment y i k"
  unfolding segment_def map_append [symmetric] by (simp only: drop_take_append)

lemma run_body_trace:
  assumes y: "index_exact y" and k: "keeps_trace s" and i: "i < length (sy_steps y)" "s = sy_steps y ! i"
    and r: "run_body y opts i s en = (fl, en')"
  shows "fl \<noteq> Leave \<and>
    (\<forall>j. fl = Goto j \<longrightarrow> i < j \<and> j \<le> length (sy_steps y) \<and> trace_names en' = trace_names en @ segment y i j) \<and>
    (\<forall>e. fl = Stop e \<longrightarrow> trace_names en' = trace_names en @ [st_name s])"
proof -
  let ?ms = "sy_middlewares y"
  obtain b m en1 where b: "run_before ?ms (st_name s) en = ((b, m), en1)"
    by (metis prod.collapse)
  from run_before_ctx [OF b] have t1: "trace_names en1 = trace_names en" by auto
  show ?thesis
  proof (cases b)
    case (Some e)
    obtain w where "unwind (rev (take m ?ms)) (st_name s) (chain_error (st_name s) e) en1 = en1\<lparr>en_world := w\<rparr>"
      by (rule exE [OF unwind_ctx])
    with r b Some t1 show ?thesis by (auto simp: run_body_def Let_def)
  next
    case None
    obtain x en2 where x: "execute_step s en1 = (x, en2)" by (cases "execute_step s en1")
    from execute_step_trace [OF k x] t1 have t2: "trace_names en2 = trace_names en" by simp
    show ?thesis
    proof (cases x)
      case (Inl e)
      with r b None x have "step_failed ?ms i s e en2 = (fl, en')" by (simp add: run_body_def Let_def)
      from step_failed_trace [OF this] t2 i show ?thesis by (auto simp: segment_Suc)
    next
      case (Inr sr)
      let ?v = "case px_output (en_ctx en2) of None \<Rightarrow> JNull | Some v \<Rightarrow> v"
      obtain a en3 where a: "run_after_step_hooks ?ms (st_name s) ?v en2 = (a, en3)"
        by (cases "run_after_step_hooks ?ms (st_name s) ?v en2")
      from after_hooks_ctx [OF a] t2 have t3: "trace_names en3 = trace_names en" by auto
      show ?thesis
      proof (cases a)
        case (Some e)
        with r b None x Inr a have "after_failed (st_name s) e en3 = (fl, en')"
          by (simp add: run_body_def step_succeeded_def Let_def)
        from after_failed_trace [OF this] t3 show ?thesis by auto
      next
        case None': None
        let ?en = "snapshot_output (st_name s) (push_traces [ran (st_name s) sr None] en3)"
        from r b None None' x Inr a have f: "follow_action y opts i (st_name s) sr ?en = (fl, en')"
          by (simp add: run_body_def step_succeeded_def Let_def)
        from follow_action_trace [OF y f i(1)] t3 i show ?thesis
          by (auto simp: segment_def drop_take_Cons)
      qed
    qed
  qed
qed

lemma run_step_trace:
  assumes "index_exact y" and "\<forall>s \<in> set (sy_steps y). keeps_trace s" and i: "i < length (sy_steps y)"
    and "ro_stop_before opts = None" and "ro_only_steps opts = None"
    and r: "run_step y opts i en = (fl, en')"
  shows "fl \<noteq> Leave \<and>
    (\<forall>j. fl = Goto j \<longrightarrow> i < j \<and> j \<le> length (sy_steps y) \<and> trace_names en' = trace_names en @ segment y i j) \<and>
    (\<forall>e. fl = Stop e \<longrightarrow> trace_names en' = trace_names en @ segment y i (Suc i))"
proof -
  let ?s = "sy_steps y ! i"
  have k: "keeps_trace ?s" using assms(2) i by simp
  consider (pass) reason en0 where "fl = Goto (i + 1)" "en' = push_traces [passed_over (st_name ?s) reason] en0"
      "trace_names en0 = trace_names en"
    | (body) "run_body y opts i ?s en = (fl, en')"
    using r assms(4,5) by (auto simp: run_step_def not_selected_def Let_def split: if_splits)
  then show ?thesis
  proof cases
    case pass
    with i show ?thesis by (simp add: segment_Suc)
  next
    case body
    from run_body_trace [OF assms(1) k i refl body] i show ?thesis by (simp add: segment_Suc)
  qed
qed

lemma run_from_trace:
  assumes "index_exact y" and "\<forall>s \<in> set (sy_steps y). keeps_trace s"
    and "ro_stop_before opts = None" and "ro_only_steps opts = None"
  shows "i \<le> length (sy_steps y) \<Longrightarrow> run_from y opts i en = (r, en') \<Longrightarrow>
    \<exists>k. i \<le> k \<and> k \<le> length (sy_steps y) \<and> trace_names en' = trace_names en @ segment y i k \<and>
      (pt_success (px_trace (en_ctx en')) \<and> r = None \<and> ro_until opts = None \<longrightarrow> k = length (sy_steps y))"
  using assms
proof (induction y opts i en arbitrary: r en' rule: run_from.induct)
  case (1 y opts i en)
  show ?case
  proof (cases "i < length (sy_steps y)")
    case False
    with 1(2) have i: "i = length (sy_steps y)" by simp
    with 1(3) have "en' = set_success True en"
      by (simp add: run_from.simps [of y opts "length (sy_steps y)" en])
    with i show ?thesis by (intro exI [of _ i]) (simp add: segment_def)
  next
    case True
    obtain fl en1 where s: "run_step y opts i en = (fl, en1)" by (cases "run_step y opts i en")
    note t = run_step_trace [OF 1(4,5) True 1(6,7) s]
    show ?thesis
    proof (cases fl)
      case (Goto j)
      with t have j: "i < j" "j \<le> length (sy_steps y)" and n: "trace_names en1 = trace_names en @ segment y i j"
        by auto
      have "run_from y opts j en1 = (r, en')"
        using 1(3) True s Goto by (simp add: run_from.simps [of y opts i en])
      from 1(1) [OF True s [symmetric] Goto j(2) this 1(4-7)] obtain k where
        k: "j \<le> k" "k \<le> length (sy_steps y)" "trace_names en' = trace_names en1 @ segment y j k"
          "pt_success (px_trace (en_ctx en')) \<and> r = None \<and> ro_until opts = None \<longrightarrow> k = length (sy_steps y)"
        by blast
      with n j segment_append [of i j k y] show ?thesis by (intro exI [of _ k]) auto
    next
      case Leave
      with t show ?thesis by simp
    next
      case (Stop e)
      with 1(3) True s have e: "r = e" "en' = en1" by (auto simp: run_from.simps [of y opts i en])
      have "\<not> (pt_success (px_trace (en_ctx en1)) \<and> e = None \<and> ro_until opts = None)"
        using s Stop 1(6,7)
        by (auto simp: run_step_def not_selected_def run_body_def step_failed_def step_succeeded_def follow_action_def
            after_failed_def set_success_def Let_def
            split: if_splits prod.splits sum.splits option.splits recovery.splits)
      with t Stop e True show ?thesis by (intro exI [of _ "Suc i"]) auto
    qed
  qed
qed

text \<open>the trace is a faithful record. Run on any strategy that construction and mutation can produce,
  the engine appends one record per step, in the order of the strategy and without gaps, up to the
  step where the run ended; skipped steps are recorded too. If the run is reported as a success and
  no predicate cut it short, every step has its record.\<close>

theorem trace_records_every_step:
  assumes "strategy_reachable P y" and "\<forall>s \<in> set (sy_steps y). keeps_trace s"
    and "ro_stop_before opts = None" and "ro_only_steps opts = None"
    and "run_with_options y opts c w = (r, c', w')"
  shows "\<exists>k \<le> length (sy_steps y).
    map tr_name (pt_steps (px_trace c')) = map tr_name (pt_steps (px_trace c)) @ take k (step_names y) \<and>
    (case r of
       Inl e \<Rightarrow> True
     | Inr (v, t) \<Rightarrow> t = px_trace c' \<and> v = px_output c' \<and>
         (pt_success t \<and> ro_until opts = None \<longrightarrow> k = length (sy_steps y)))"
proof -
  obtain x en where x: "run_from y opts 0 (engine_start c w) = (x, en)"
    by (cases "run_from y opts 0 (engine_start c w)")
  from run_from_trace [OF index_exact_reachable [OF assms(1)] assms(2-4) _ x] obtain k where
    k: "k \<le> length (sy_steps y)" "trace_names en = trace_names (engine_start c w) @ segment y 0 k"
      "pt_success (px_trace (en_ctx en)) \<and> x = None \<and> ro_until opts = None \<longrightarrow> k = length (sy_steps y)"
    by auto
  from assms(5) x have r: "c' = en_ctx en"
    "r = (case x of Some e \<Rightarrow> Inl e | None \<Rightarrow> Inr (px_output (en_ctx en), px_trace (en_ctx en)))"
    by (auto simp: run_with_options_def)
  have "segment y 0 k = take k (step_names y)" by (simp add: segment_def step_names_def take_map)
  with k r show ?thesis
    by (intro exI [of _ k]) (auto simp: trace_names_def engine_start_def split: option.splits)
qed

abbreviation sample_pctx :: "unit pctx" where
  "sample_pctx \<equiv> pctx_new ''m'' JNull \<lparr>ctx_trace_id = ''t'', ctx_identity = None, ctx_services = JNull,
     ctx_caller_id = None, ctx_data = 0, ctx_call_chain = [], ctx_redacted_inputs = None,
     ctx_redacted_output = None, ctx_cancel_token = None, ctx_global_deadline = None,
     ctx_executor = None\<rparr> ''s'' ()"

lemma plain_step_keeps_trace: "keeps_trace (plain_step n)"
  by (simp add: keeps_trace_def plain_step_def)

lemma trace_records_every_step_witness:
  "\<exists>y :: (unit, unit) pipeline. \<exists>r c' w'. engine_run y sample_pctx () = (r, c', w') \<and>
     (\<exists>k \<le> 2. map tr_name (pt_steps (px_trace c')) = take k [''a'', ''b''])"
proof -
  let ?y = "rebuild_index \<lparr>sy_name = ''s'', sy_steps = [plain_step ''a'', plain_step ''b''], sy_index = [],
    sy_middlewares = []\<rparr> :: (unit, unit) pipeline"
  have "strategy_new ''s'' [plain_step ''a'', plain_step ''b''] = Inr ?y"
    by (simp add: strategy_new_def reject_weakened_gate_def validate_dependencies_def Let_def)
  then have r: "strategy_reachable (\<lambda>_ _. True) ?y" by (rule strategy_reachable.new)
  obtain r c' w' where x: "run_with_options ?y run_options_default sample_pctx () = (r, c', w')"
    by (cases "run_with_options ?y run_options_default sample_pctx ()")
  have "\<exists>k \<le> length (sy_steps ?y). map tr_name (pt_steps (px_trace c')) =
      map tr_name (pt_steps (px_trace sample_pctx)) @ take k (step_names ?y) \<and>
      (case r of Inl e \<Rightarrow> True | Inr (v, t) \<Rightarrow> t = px_trace c' \<and> v = px_output c' \<and>
        (pt_success t \<and> ro_until (run_options_default :: unit run_options) = None \<longrightarrow>
          k = length (sy_steps ?y)))"
    by (rule trace_records_every_step [OF r _ _ _ x])
      (auto simp: plain_step_keeps_trace run_options_default_def)
  then obtain k where k: "k \<le> length (sy_steps ?y)" "map tr_name (pt_steps (px_trace c')) =
      map tr_name (pt_steps (px_trace sample_pctx)) @ take k (step_names ?y)" by blast
  then have "k \<le> 2" "map tr_name (pt_steps (px_trace c')) = take k [''a'', ''b'']"
    by (simp_all add: pctx_new_def pipeline_trace_new_def step_names_def)
  moreover have "engine_run ?y sample_pctx () = (r, c', w')" using x by (simp add: engine_run_def)
  ultimately show ?thesis by blast
qed

subsection \<open>Dry runs\<close>

definition keeps_dry_run :: "('r, 'w) step \<Rightarrow> bool" where
  "keeps_dry_run s \<longleftrightarrow>
     (\<forall>c w. px_dry_run (fst (snd (st_execute s c w))) = px_dry_run c) \<and>
     (\<forall>c w c' w'. st_elapses s c w = Some (c', w') \<longrightarrow> px_dry_run c' = px_dry_run c)"

text \<open>The same pipeline with other bodies in the steps that are not pure.\<close>

definition rebody ::
  "(string \<Rightarrow> 'r pctx \<Rightarrow> 'w \<Rightarrow> (module_error + step_result) \<times> 'r pctx \<times> 'w) \<Rightarrow>
   (string \<Rightarrow> 'r pctx \<Rightarrow> 'w \<Rightarrow> ('r pctx \<times> 'w) option) \<Rightarrow> ('r, 'w) step \<Rightarrow> ('r, 'w) step" where
  "rebody ex el s =
     (if st_pure s then s else s\<lparr>st_execute := ex (st_name s), st_elapses := el (st_name s)\<rparr>)"

definition rebody_pipeline ::
  "(string \<Rightarrow> 'r pctx \<Rightarrow> 'w \<Rightarrow> (module_error + step_result) \<times> 'r pctx \<times> 'w) \<Rightarrow>
   (string \<Rightarrow> 'r pctx \<Rightarrow> 'w \<Rightarrow> ('r pctx \<times> 'w) option) \<Rightarrow> ('r, 'w) pipeline \<Rightarrow> ('r, 'w) pipeline" where
  "rebody_pipeline ex el y = y\<lparr>sy_steps := map (rebody ex el) (sy_steps y)\<rparr>"

lemma rebody_simps [simp]:
  "st_name (rebody ex el s) = st_name s" "st_pure (rebody ex el s) = st_pure s"
  "st_requires (rebody ex el s) = st_requires s" "st_provides (rebody ex el s) = st_provides s"
  "st_match_modules (rebody ex el s) = st_match_modules s"
  "st_pure s \<Longrightarrow> rebody ex el s = s"
  by (simp_all add: rebody_def)

lemma rebody_checks [simp]:
  "missing_dependency (rebody ex el s) en = missing_dependency s en"
  "filtered_out (rebody ex el s) c = filtered_out s c"
  "mark_failed (rebody ex el s) en = mark_failed s en"
  by (simp_all add: missing_dependency_def filtered_out_def mark_failed_def)

lemma rebody_pipeline_simps [simp]:
  "sy_steps (rebody_pipeline ex el y) = map (rebody ex el) (sy_steps y)"
  "sy_index (rebody_pipeline ex el y) = sy_index y"
  "sy_middlewares (rebody_pipeline ex el y) = sy_middlewares y"
  by (simp_all add: rebody_pipeline_def)

lemma follow_action_rebody:
  "follow_action (rebody_pipeline ex el y) opts i n r en = follow_action y opts i n r en"
proof -
  have m: "map (\<lambda>s. passed_over (st_name s) None) (drop (i + 1) (take t (sy_steps (rebody_pipeline ex el y)))) =
      map (\<lambda>s. passed_over (st_name s) None) (drop (i + 1) (take t (sy_steps y)))" for t
    by (simp add: drop_map take_map comp_def)
  show ?thesis unfolding follow_action_def skip_target_def m by (simp only: rebody_pipeline_simps(2))
qed

lemma run_body_rebody: "run_body (rebody_pipeline ex el y) opts i s en = run_body y opts i s en"
  unfolding run_body_def step_succeeded_def follow_action_rebody rebody_pipeline_simps ..

lemma run_step_rebody:
  assumes "px_dry_run (en_ctx en)" and "i < length (sy_steps y)"
  shows "run_step (rebody_pipeline ex el y) opts i en = run_step y opts i en"
proof (cases "st_pure (sy_steps y ! i)")
  case True
  with assms(2) have e: "sy_steps (rebody_pipeline ex el y) ! i = sy_steps y ! i" by simp
  show ?thesis unfolding run_step_def e run_body_rebody ..
next
  case False
  with assms show ?thesis
    by (simp add: run_step_def Let_def cong: if_cong)
qed

lemma dry_run_simps [simp]:
  "px_dry_run (en_ctx (push_traces ts en)) = px_dry_run (en_ctx en)"
  "px_dry_run (en_ctx (set_success b en)) = px_dry_run (en_ctx en)"
  "px_dry_run (en_ctx (snapshot_output n en)) = px_dry_run (en_ctx en)"
  "px_dry_run (en_ctx (mark_failed s en)) = px_dry_run (en_ctx en)"
  "px_dry_run (en_ctx (add_preflight_error n e en)) = px_dry_run (en_ctx en)"
  by (simp_all add: push_traces_def set_success_def snapshot_output_def mark_failed_def add_preflight_error_def)

lemma execute_step_dry_run:
  assumes "keeps_dry_run s" and "execute_step s en = (r, en')"
  shows "px_dry_run (en_ctx en') = px_dry_run (en_ctx en)"
proof (cases "if 0 < st_timeout_ms s then st_elapses s (en_ctx en) (en_world en) else None")
  case None
  obtain r1 c w where "st_execute s (en_ctx en) (en_world en) = (r1, c, w)"
    by (cases "st_execute s (en_ctx en) (en_world en)")
  moreover from assms(1) this have "px_dry_run c = px_dry_run (en_ctx en)"
    unfolding keeps_dry_run_def by (metis fst_conv snd_conv)
  ultimately show ?thesis using assms(2) None by (auto simp: execute_step_def)
next
  case (Some x)
  obtain c w where x: "x = (c, w)" by (cases x)
  with Some assms(1) have "px_dry_run c = px_dry_run (en_ctx en)"
    unfolding keeps_dry_run_def by (metis option.distinct(1))
  with assms(2) Some x show ?thesis by (auto simp: execute_step_def)
qed

lemma run_body_dry_run:
  assumes "keeps_dry_run s" and "px_dry_run (en_ctx en)" and "run_body y opts i s en = (Goto j, en')"
  shows "px_dry_run (en_ctx en')"
proof -
  let ?ms = "sy_middlewares y"
  obtain b m en1 where b: "run_before ?ms (st_name s) en = ((b, m), en1)" by (metis prod.collapse)
  from run_before_ctx [OF b] assms(2) have t1: "px_dry_run (en_ctx en1)" by auto
  obtain x en2 where x: "execute_step s en1 = (x, en2)" by (cases "execute_step s en1")
  from execute_step_dry_run [OF assms(1) x] t1 have t2: "px_dry_run (en_ctx en2)" by simp
  obtain a en3 where a: "run_after_step_hooks ?ms (st_name s)
      (case px_output (en_ctx en2) of None \<Rightarrow> JNull | Some v \<Rightarrow> v) en2 = (a, en3)"
    by (metis prod.collapse)
  from after_hooks_ctx [OF a] t2 have t3: "px_dry_run (en_ctx en3)" by auto
  show ?thesis
    using assms(3) b x t2 a t3
    by (auto simp: run_body_def Let_def step_failed_def step_succeeded_def after_failed_def follow_action_def
        split: option.splits sum.splits if_splits)
qed

lemma run_step_dry_run:
  assumes "\<forall>s \<in> set (sy_steps y). st_pure s \<longrightarrow> keeps_dry_run s" and "i < length (sy_steps y)"
    and "px_dry_run (en_ctx en)" and "run_step y opts i en = (Goto j, en')"
  shows "px_dry_run (en_ctx en')"
  using assms run_body_dry_run [of "sy_steps y ! i" en y opts i j en']
  by (auto simp: run_step_def Let_def split: if_splits)

lemma run_from_rebody:
  "\<forall>s \<in> set (sy_steps y). st_pure s \<longrightarrow> keeps_dry_run s \<Longrightarrow> px_dry_run (en_ctx en) \<Longrightarrow>
     run_from (rebody_pipeline ex el y) opts i en = run_from y opts i en"
proof (induction y opts i en rule: run_from.induct)
  case (1 y opts i en)
  let ?y = "rebody_pipeline ex el y"
  show ?case
  proof (cases "i < length (sy_steps y)")
    case True
    obtain fl en1 where s: "run_step y opts i en = (fl, en1)" by (cases "run_step y opts i en")
    have s': "run_step ?y opts i en = (fl, en1)" using run_step_rebody [OF 1(3) True] s by simp
    have "run_from ?y opts j en1 = run_from y opts j en1" if "fl = Goto j" for j
      using 1(1) [OF True s [symmetric] that 1(2)] run_step_dry_run [OF 1(2) True 1(3)] s that by simp
    with True s s' show ?thesis
      by (simp add: run_from.simps [of ?y opts i en] run_from.simps [of y opts i en] split: flow.splits)
  next
    case False
    then show ?thesis by (simp add: run_from.simps [of ?y opts i en] run_from.simps [of y opts i en])
  qed
qed

text \<open>C17: a dry run has no side effects of its own. As long as the pure steps leave the dry-run flag alone,
  the result, the context and the world after a dry run do not depend on the bodies of the steps
  that are not pure: none of them is ever run.\<close>

theorem dry_run_never_runs_impure_steps:
  assumes "px_dry_run c" and "\<forall>s \<in> set (sy_steps y). st_pure s \<longrightarrow> keeps_dry_run s"
  shows "run_with_options (rebody_pipeline ex el y) opts c w = run_with_options y opts c w"
  using run_from_rebody [OF assms(2), of "engine_start c w"] assms(1)
  by (simp add: run_with_options_def engine_start_def)

lemma dry_run_never_runs_impure_steps_witness:
  "let y = rebuild_index \<lparr>sy_name = ''s'', sy_steps = [plain_step ''a''], sy_index = [], sy_middlewares = []\<rparr> ::
         (unit, nat) pipeline
   in run_with_options
        (rebody_pipeline (\<lambda>n c w. (Inr continue_step, c, w + 1)) (\<lambda>n c w. None) y) run_options_default
        (sample_pctx\<lparr>px_dry_run := True\<rparr>) 7 =
      run_with_options y run_options_default (sample_pctx\<lparr>px_dry_run := True\<rparr>) 7"
  unfolding Let_def by (rule dry_run_never_runs_impure_steps) simp_all

end
