(* ===== verification/Onion.thy ===== *)
theory Onion
  imports Engine
begin

section \<open>Step middlewares and gates at run time\<close>

text \<open>
  The order in which \<open>run_with_options\<close> (\<open>src/src/pipeline.rs\<close>) calls the hooks of
  the step middlewares, and what a failing governance gate does to a run. The middlewares are
  arbitrary; each is wrapped so that it also logs its own calls.
\<close>

datatype hook = BeforeRan nat | ErrorRan nat | AfterRan nat

definition logged :: "nat \<Rightarrow> ('r, 'w) step_mw \<Rightarrow> ('r, 'w \<times> hook list) step_mw" where
  "logged k m =
     \<lparr>sm_before = (\<lambda>n os c (w, l). let (r, w') = sm_before m n os c w in (r, (w', l @ [BeforeRan k]))),
      sm_after = (\<lambda>n os c v (w, l). let (r, w') = sm_after m n os c v w in (r, (w', l @ [AfterRan k]))),
      sm_on_error = (\<lambda>n os c e (w, l). let (r, w') = sm_on_error m n os c e w in (r, (w', l @ [ErrorRan k])))\<rparr>"

definition hook_log :: "('r, 'w \<times> hook list) engine \<Rightarrow> hook list" where
  "hook_log en = snd (en_world en)"


lemma hook_log_simps [simp]:
  "hook_log (push_traces ts en) = hook_log en" "hook_log (set_success b en) = hook_log en"
  "hook_log (snapshot_output n en) = hook_log en" "hook_log (mark_failed s en) = hook_log en"
  "hook_log (add_preflight_error n e en) = hook_log en"
  "hook_log (en\<lparr>en_ctx := c\<rparr>) = hook_log en" "hook_log (en\<lparr>en_world := w\<rparr>) = snd w"
  by (simp_all add: hook_log_def push_traces_def set_success_def snapshot_output_def mark_failed_def
      add_preflight_error_def)





definition logged_all :: "('r, 'w) step_mw list \<Rightarrow> ('r, 'w \<times> hook list) step_mw list" where
  "logged_all ms = map (\<lambda>k. logged k (ms ! k)) [0..<length ms]"





subsection \<open>The onion\<close>












subsection \<open>A failing gate\<close>

definition never_recovers :: "('r, 'w) step_mw \<Rightarrow> bool" where
  "never_recovers m \<longleftrightarrow> (\<forall>n os c e w v. fst (sm_on_error m n os c e w) \<noteq> Inr (Some v))"

lemma run_on_error_no_recovery:
  "\<forall>m \<in> set ms. never_recovers m \<Longrightarrow> run_on_error ms n e en = (r, en') \<Longrightarrow> r \<noteq> Recovered v"
proof (induction ms n e en arbitrary: r en' rule: run_on_error.induct)
  case (1 n e en)
  then show ?case by auto
next
  case (2 m ms n e en)
  have "fst (sm_on_error m n (en_outputs en) (en_ctx en) e (en_world en)) \<noteq> Inr (Some u)" for u
    using 2(2) by (simp add: never_recovers_def)
  with 2 show ?case
    by (fastforce split: prod.splits sum.splits option.splits)
qed

lemma step_failed_stops:
  assumes "\<forall>m \<in> set ms. never_recovers m" and "\<not> st_ignore_errors s" and "\<not> px_dry_run (en_ctx en)"
  shows "\<exists>e' en'. step_failed ms i s e en = (Stop (Some (pipeline_step_error (st_name s) e')), en') \<and>
    (ms = [] \<longrightarrow> e' = e)"
proof -
  obtain r en1 where r: "run_on_error (rev ms) (st_name s) e en = (r, en1)"
    by (cases "run_on_error (rev ms) (st_name s) e en")
  have "r \<noteq> Recovered v" for v
    using run_on_error_no_recovery [OF _ r] assms(1) by simp
  with r assms(2,3) show ?thesis
    by (cases r) (auto simp: step_failed_def after_failed_def Let_def)
qed

text \<open>C14: a governance gate that fails stops the call, unless a step middleware recovers errors. In a strategy built
  by construction and mutation, none of whose step middlewares ever recovers an error, when a built-in gate is
  reached in a real run without \<open>stop_before\<close> and \<open>only_steps\<close>, and its body returns an error without turning
  the run into a dry run, the run ends there with an error that names the gate; without middlewares that error
  carries the gate's own.\<close>

theorem failing_gate_stops_the_run:
  assumes "strategy_reachable (\<lambda>_ _. True) y" and "i < length (sy_steps y)"
    and "st_builtin_gate (sy_steps y ! i) = Some g"
    and "\<forall>m \<in> set (sy_middlewares y). never_recovers m"
    and "ro_stop_before opts = None" and "ro_only_steps opts = None"
    and "\<not> px_dry_run (en_ctx en)"
    and "run_before (sy_middlewares y) (st_name (sy_steps y ! i)) en = ((None, k), en1)"
    and "execute_step (sy_steps y ! i) en1 = (Inl e, en2)" and "\<not> px_dry_run (en_ctx en2)"
  shows "\<exists>e' en'. run_from y opts i en = (Some (pipeline_step_error (st_name (sy_steps y ! i)) e'), en') \<and>
    (sy_middlewares y = [] \<longrightarrow>
       unwrap_pipeline_step_error (pipeline_step_error (st_name (sy_steps y ! i)) e') = Some e)"
proof -
  let ?s = "sy_steps y ! i"
  have "reject_weakened_gate ?s = None"
    using gates_ok_reachable [OF assms(1)] assms(2) by (simp add: gates_ok_def)
  with assms(3) have gate: "\<not> st_ignore_errors ?s" "st_match_modules ?s = None"
    by (auto simp: reject_weakened_gate_def offending_fields_def split: if_splits)
  from step_failed_stops [OF assms(4) gate(1) assms(10), of i e] obtain e' en' where
    f: "step_failed (sy_middlewares y) i ?s e en2 = (Stop (Some (pipeline_step_error (st_name ?s) e')), en')"
      "sy_middlewares y = [] \<longrightarrow> e' = e" by blast
  have "run_body y opts i ?s en = (Stop (Some (pipeline_step_error (st_name ?s) e')), en')"
    using assms(8,9) f by (simp add: run_body_def Let_def)
  then have "run_step y opts i en = (Stop (Some (pipeline_step_error (st_name ?s) e')), en')"
    using assms(5-7) gate by (simp add: run_step_def not_selected_def missing_dependency_def filtered_out_def Let_def)
  then have "run_from y opts i en = (Some (pipeline_step_error (st_name ?s) e'), en')"
    using assms(2) by (simp add: run_from.simps [of y opts i en])
  moreover have "err_code (pipeline_step_error n x) = PipelineStepError" for n x
    by (simp add: pipeline_step_error_def with_details_def module_error_new_def)
  then have "unwrap_pipeline_step_error (pipeline_step_error n x) = Some x" for n x
    by (simp add: unwrap_pipeline_step_error_def is_pipeline_step_error_def err_details_pipeline_step_error
        bt_get_def error_json_roundtrip)
  ultimately show ?thesis using f(2) by blast
qed

lemma failing_gate_stops_the_run_witness:
  "\<exists>y :: (unit, unit) pipeline. \<exists>e' en'.
     length (sy_steps y) = 2 \<and>
     run_from y run_options_default 0 (engine_start sample_pctx ()) =
       (Some (pipeline_step_error ''acl_check'' e'), en') \<and>
     unwrap_pipeline_step_error (pipeline_step_error ''acl_check'' e') = Some (module_error_new ACLDenied)"
proof -
  let ?gate = "(plain_step ''acl_check'')\<lparr>st_builtin_gate := Some AclGate,
    st_execute := (\<lambda>c w. (Inl (module_error_new ACLDenied), c, w))\<rparr> :: (unit, unit) step"
  let ?y = "rebuild_index \<lparr>sy_name = ''s'', sy_steps = [?gate, plain_step ''execute''], sy_index = [],
    sy_middlewares = []\<rparr> :: (unit, unit) pipeline"
  let ?en = "engine_start sample_pctx () :: (unit, unit) engine"
  have "strategy_new ''s'' [?gate, plain_step ''execute''] = Inr ?y"
    by (simp add: strategy_new_def reject_weakened_gate_def offending_fields_def validate_dependencies_def
        Let_def)
  then have r: "strategy_reachable (\<lambda>_ _. True) ?y" by (rule strategy_reachable.new)
  have m: "sy_middlewares ?y = []" by (simp add: rebuild_index_def)
  have d: "\<not> px_dry_run (en_ctx ?en)" by (simp add: engine_start_def pctx_new_def)
  have b: "run_before (sy_middlewares ?y) (st_name (sy_steps ?y ! 0)) ?en = ((None, 0), ?en)"
    unfolding m by simp
  have x: "execute_step (sy_steps ?y ! 0) ?en = (Inl (module_error_new ACLDenied), ?en)"
    by (simp add: execute_step_def)
  from failing_gate_stops_the_run [OF r _ _ _ _ _ d b x d, of AclGate run_options_default] m show ?thesis
    by (intro exI [of _ ?y]) (auto simp: run_options_default_def)
qed

text \<open>Two edges of the loop. A \<open>skip_to\<close> that jumps over the step at which a run was told to stop runs the
  steps behind it. In a dry run a failing step ends without its error and after-hooks.\<close>

lemma skip_past_the_stop:
  "let skip = (plain_step ''a'')\<lparr>st_execute := (\<lambda>c w. (Inr (skip_to_step ''c''), c, w))\<rparr>;
       body = (plain_step ''c'')\<lparr>st_execute := (\<lambda>c w. (Inr continue_step, c, w + 1))\<rparr>;
       y = rebuild_index \<lparr>sy_name = ''s'', sy_steps = [skip, plain_step ''b'', body], sy_index = [],
             sy_middlewares = []\<rparr> :: (unit, nat) pipeline
   in snd (snd (run_until_step y ''b'' sample_pctx 0)) = 1"
  by (simp add: run_until_step_def run_with_options_def run_from.simps opt_stop_before_def engine_start_def
      run_step_def not_selected_def missing_dependency_def filtered_out_def run_body_def execute_step_def
      step_succeeded_def run_after_step_hooks_def follow_action_def skip_target_def skip_to_step_def
      continue_step_def step_result_default_def rebuild_index_def index_of_steps_def snapshot_output_def
      push_traces_def set_success_def bt_get_Cons pctx_new_def Let_def)

lemma dry_run_error_skips_hooks:
  fixes en :: "('r, 'w \<times> hook list) engine"
  assumes "sy_middlewares y = logged_all ms" and "run_before (logged_all ms) (st_name s) en = ((None, k), en1)"
    and "execute_step s en1 = (Inl e, en2)" and "px_dry_run (en_ctx en2)"
  shows "\<exists>en'. run_body y opts i s en = (Goto (i + 1), en') \<and> hook_log en' = hook_log en2"
  using assms by (simp add: run_body_def step_failed_def Let_def)

end
