(* ===== verification/Cancel.thy ===== *)
theory Cancel
  imports Errors
begin

section \<open>Cancellation tokens\<close>

text \<open>
  \<open>src/src/cancel.rs\<close>. A \<open>CancelToken\<close> is an immutable chain: its own shared cell and its
  parent's token. The cell stands for the two \<open>Arc\<close>s that are created together, the
  cancelled flag and the execution scope; cloning a token copies the address. The heap holds the cells,
  the global execution counter and the set of spawned tasks whose \<open>abort\<close> was called. Registering
  an execution in every scope, attaching its abort handle and aborting a scope are sequences of critical
  sections, one per mutex; \<open>token_act\<close> interleaves them. Waking and polling are the runtime's.
\<close>

datatype cancel_token = CancelToken (tk_cell: nat) (tk_parent: "cancel_token option")

record execution_record =
  er_abort :: "nat option"
  er_abort_requested :: bool

record cell =
  ce_cancelled :: bool
  ce_active :: "(nat \<times> execution_record) list"
  ce_abort_requested :: bool

definition new_cell :: cell where
  "new_cell = \<lparr>ce_cancelled = False, ce_active = [], ce_abort_requested = False\<rparr>"

type_synonym cells = "cell list"

subsection \<open>Tokens\<close>

definition token_new :: "cells \<Rightarrow> cancel_token \<times> cells" where
  "token_new h = (CancelToken (length h) None, h @ [new_cell])"

definition token_child :: "cancel_token \<Rightarrow> cells \<Rightarrow> cancel_token \<times> cells" where
  "token_child t h = (CancelToken (length h) (Some t), h @ [new_cell])"

definition update_cell :: "nat \<Rightarrow> (cell \<Rightarrow> cell) \<Rightarrow> cells \<Rightarrow> cells" where
  "update_cell c f h = h[c := f (h ! c)]"

definition token_cancel :: "cancel_token \<Rightarrow> cells \<Rightarrow> cells" where
  "token_cancel t = update_cell (tk_cell t) (\<lambda>e. e\<lparr>ce_cancelled := True\<rparr>)"

definition token_reset :: "cancel_token \<Rightarrow> cells \<Rightarrow> cells" where
  "token_reset t = update_cell (tk_cell t) (\<lambda>e. e\<lparr>ce_cancelled := False\<rparr>)"

fun is_cancelled :: "cells \<Rightarrow> cancel_token \<Rightarrow> bool" where
  "is_cancelled h (CancelToken c p) =
     (if ce_cancelled (h ! c) then True
      else case p of Some t \<Rightarrow> is_cancelled h t | None \<Rightarrow> False)"

text \<open>\<open>ExecutionCancelledError\<close>: only the module id; the message is a text.\<close>

datatype execution_cancelled_error = ExecutionCancelledError (ec_module_id: "string option")

definition execution_cancelled_new :: "string \<Rightarrow> execution_cancelled_error" where
  "execution_cancelled_new m = ExecutionCancelledError (Some m)"

definition without_module :: execution_cancelled_error where
  "without_module = ExecutionCancelledError None"

definition to_module_error :: "execution_cancelled_error \<Rightarrow> module_error" where
  "to_module_error e =
     (case ec_module_id e of
        Some m \<Rightarrow> with_details (details_of [(''module_id'', JString m)]) (module_error_new ExecutionCancelled)
      | None \<Rightarrow> module_error_new ExecutionCancelled)"

definition token_check :: "cells \<Rightarrow> cancel_token \<Rightarrow> execution_cancelled_error option" where
  "token_check h t = (if is_cancelled h t then Some without_module else None)"

definition raise_if_cancelled :: "cells \<Rightarrow> cancel_token \<Rightarrow> execution_cancelled_error option" where
  "raise_if_cancelled = token_check"

definition check_for :: "cells \<Rightarrow> cancel_token \<Rightarrow> string \<Rightarrow> execution_cancelled_error option" where
  "check_for h t m = (if is_cancelled h t then Some (execution_cancelled_new m) else None)"

definition has_active_executions :: "cells \<Rightarrow> cancel_token \<Rightarrow> bool" where
  "has_active_executions h t \<longleftrightarrow> ce_active (h ! tk_cell t) \<noteq> []"

text \<open>The scopes an execution of a token registers in: its own and its ancestors', innermost first.\<close>

fun scopes :: "cancel_token \<Rightarrow> nat list" where
  "scopes (CancelToken c p) = c # (case p of Some t \<Rightarrow> scopes t | None \<Rightarrow> [])"

subsection \<open>The critical sections\<close>

text \<open>\<open>register_in\<close> is the body of the first loop of \<open>spawn_tracked\<close> and \<open>attach_in\<close> that of the
  second; \<open>drop_in\<close> is that of the registration's \<open>Drop\<close>; \<open>request_abort\<close> and \<open>mark_aborted\<close>
  are the two sections of \<open>abort_owned_executions\<close>, the latter with the calls of \<open>abort\<close> that follow it.
  The flag of the scope is read with the scope locked, and written without the lock.\<close>

definition register_in :: "nat \<Rightarrow> nat \<Rightarrow> cells \<Rightarrow> cells" where
  "register_in x = (\<lambda>c. update_cell c (\<lambda>e. e\<lparr>ce_active :=
     bt_insert x \<lparr>er_abort = None, er_abort_requested = ce_abort_requested e\<rparr> (ce_active e)\<rparr>))"

definition attach_in :: "nat \<Rightarrow> nat \<Rightarrow> cells \<times> nat set \<Rightarrow> cells \<times> nat set" where
  "attach_in x c = (\<lambda>(h, aborted).
     case bt_get (ce_active (h ! c)) x of
       None \<Rightarrow> (h, aborted)
     | Some r \<Rightarrow>
         (update_cell c (\<lambda>e. e\<lparr>ce_active := bt_insert x (r\<lparr>er_abort := Some x\<rparr>) (ce_active e)\<rparr>) h,
          if er_abort_requested r then insert x aborted else aborted))"

definition drop_in :: "nat \<Rightarrow> nat \<Rightarrow> cells \<Rightarrow> cells" where
  "drop_in x = (\<lambda>c. update_cell c (\<lambda>e. e\<lparr>ce_active := bt_remove x (ce_active e)\<rparr>))"

definition request_abort :: "nat \<Rightarrow> cells \<Rightarrow> cells" where
  "request_abort c = update_cell c (\<lambda>e. e\<lparr>ce_abort_requested := True\<rparr>)"

definition mark_aborted :: "nat \<Rightarrow> cells \<times> nat set \<Rightarrow> cells \<times> nat set" where
  "mark_aborted c = (\<lambda>(h, aborted).
     (update_cell c (\<lambda>e. e\<lparr>ce_active := map (\<lambda>(x, r). (x, r\<lparr>er_abort_requested := True\<rparr>)) (ce_active e)\<rparr>) h,
      aborted \<union> set (List.map_filter (\<lambda>(x, r). er_abort r) (ce_active (h ! c)))))"

subsection \<open>Interleaving\<close>

text \<open>An execution goes through its scopes three times: registering, attaching and, once its future
  has been dropped, leaving. \<open>tokio::spawn\<close> happens between the first two passes, so the future
  can end before the handle is attached everywhere.\<close>

record execution =
  xe_scopes :: "nat list"
  xe_to_register :: "nat list"
  xe_spawned :: bool
  xe_to_attach :: "nat list"
  xe_ended :: bool
  xe_to_leave :: "nat list"

record token_world =
  tw_cells :: cells
  tw_aborted :: "nat set"
  tw_executions :: "execution list"
  tw_aborters :: "nat list"
  tw_abort_done :: "nat set"

datatype token_event =
    NewToken
  | ChildOf cancel_token
  | CancelOf cancel_token
  | ResetOf cancel_token
  | SpawnOn cancel_token
  | RegisterNext nat
  | StartFuture nat
  | AttachNext nat
  | EndFuture nat
  | LeaveNext nat
  | AbortRequest cancel_token
  | AbortMark nat

definition token_valid :: "cells \<Rightarrow> cancel_token \<Rightarrow> bool" where
  "token_valid h t \<longleftrightarrow> (\<forall>c \<in> set (scopes t). c < length h)"

definition update_execution :: "nat \<Rightarrow> (execution \<Rightarrow> execution) \<Rightarrow> token_world \<Rightarrow> token_world" where
  "update_execution x f w = w\<lparr>tw_executions := (tw_executions w)[x := f (tw_executions w ! x)]\<rparr>"

text \<open>\<open>token_act\<close> is \<open>None\<close> when the thread is not at that point. Executions are numbered in order.\<close>

fun token_act :: "token_event \<Rightarrow> token_world \<Rightarrow> token_world option" where
  "token_act NewToken w = Some (w\<lparr>tw_cells := snd (token_new (tw_cells w))\<rparr>)"
| "token_act (ChildOf t) w =
     (if token_valid (tw_cells w) t then Some (w\<lparr>tw_cells := snd (token_child t (tw_cells w))\<rparr>) else None)"
| "token_act (CancelOf t) w =
     (if token_valid (tw_cells w) t then Some (w\<lparr>tw_cells := token_cancel t (tw_cells w)\<rparr>) else None)"
| "token_act (ResetOf t) w =
     (if token_valid (tw_cells w) t then Some (w\<lparr>tw_cells := token_reset t (tw_cells w)\<rparr>) else None)"
| "token_act (SpawnOn t) w =
     (if token_valid (tw_cells w) t
      then Some (w\<lparr>tw_executions := tw_executions w @
        [\<lparr>xe_scopes = scopes t, xe_to_register = scopes t, xe_spawned = False, xe_to_attach = [],
          xe_ended = False, xe_to_leave = []\<rparr>]\<rparr>)
      else None)"
| "token_act (RegisterNext x) w =
     (if x < length (tw_executions w) then
        (case xe_to_register (tw_executions w ! x) of
           [] \<Rightarrow> None
         | c # cs \<Rightarrow> Some (update_execution x (\<lambda>e. e\<lparr>xe_to_register := cs\<rparr>)
                     (w\<lparr>tw_cells := register_in x c (tw_cells w)\<rparr>)))
      else None)"
| "token_act (StartFuture x) w =
     (if x < length (tw_executions w) \<and> xe_to_register (tw_executions w ! x) = [] \<and>
         \<not> xe_spawned (tw_executions w ! x)
      then Some (update_execution x (\<lambda>e. e\<lparr>xe_spawned := True, xe_to_attach := xe_scopes e\<rparr>) w)
      else None)"
| "token_act (AttachNext x) w =
     (if x < length (tw_executions w) then
        (case xe_to_attach (tw_executions w ! x) of
           [] \<Rightarrow> None
         | c # cs \<Rightarrow>
             (case attach_in x c (tw_cells w, tw_aborted w) of
                (h, a) \<Rightarrow> Some (update_execution x (\<lambda>e. e\<lparr>xe_to_attach := cs\<rparr>)
                            (w\<lparr>tw_cells := h, tw_aborted := a\<rparr>))))
      else None)"
| "token_act (EndFuture x) w =
     (if x < length (tw_executions w) \<and> xe_spawned (tw_executions w ! x) \<and> \<not> xe_ended (tw_executions w ! x)
      then Some (update_execution x (\<lambda>e. e\<lparr>xe_ended := True, xe_to_leave := xe_scopes e\<rparr>) w)
      else None)"
| "token_act (LeaveNext x) w =
     (if x < length (tw_executions w) then
        (case xe_to_leave (tw_executions w ! x) of
           [] \<Rightarrow> None
         | c # cs \<Rightarrow> Some (update_execution x (\<lambda>e. e\<lparr>xe_to_leave := cs\<rparr>)
                     (w\<lparr>tw_cells := drop_in x c (tw_cells w)\<rparr>)))
      else None)"
| "token_act (AbortRequest t) w =
     (if token_valid (tw_cells w) t
      then Some (w\<lparr>tw_cells := request_abort (tk_cell t) (tw_cells w),
                   tw_aborters := tk_cell t # tw_aborters w\<rparr>)
      else None)"
| "token_act (AbortMark c) w =
     (if c \<in> set (tw_aborters w) then
        (case mark_aborted c (tw_cells w, tw_aborted w) of
           (h, a) \<Rightarrow> Some (w\<lparr>tw_cells := h, tw_aborted := a, tw_aborters := remove1 c (tw_aborters w),
                             tw_abort_done := insert c (tw_abort_done w)\<rparr>))
      else None)"

definition token_world_init :: token_world where
  "token_world_init =
     \<lparr>tw_cells = [], tw_aborted = {}, tw_executions = [], tw_aborters = [], tw_abort_done = {}\<rparr>"

inductive token_reachable :: "token_world \<Rightarrow> bool" where
  start: "token_reachable token_world_init"
| act: "token_reachable w \<Longrightarrow> token_act e w = Some w' \<Longrightarrow> token_reachable w'"


inductive_cases token_reachableE: "token_reachable w"

subsection \<open>Tokens: cancellation reaches the descendants and nobody else\<close>

lemma update_cell_nth [simp]:
  "update_cell c f h ! c' = (if c' = c \<and> c < length h then f (h ! c) else h ! c')"
  by (cases "c < length h") (simp_all add: update_cell_def nth_list_update list_update_beyond)

lemma length_update_cell [simp]: "length (update_cell c f h) = length h"
  by (simp add: update_cell_def)

lemma tk_cell_in_scopes [simp]: "tk_cell t \<in> set (scopes t)"
  by (cases t) simp

lemma is_cancelled_iff: "is_cancelled h t \<longleftrightarrow> (\<exists>c \<in> set (scopes t). ce_cancelled (h ! c))"
  by (induction h t rule: is_cancelled.induct) (auto split: option.splits)

lemma scopes_child: "token_child t h = (t', h') \<Longrightarrow> scopes t' = length h # scopes t"
  by (auto simp: token_child_def)

lemma token_new_valid: "token_new h = (t, h') \<Longrightarrow> token_valid h' t \<and> \<not> is_cancelled h' t"
  by (auto simp: token_new_def token_valid_def new_cell_def)

lemma token_child_valid: "token_valid h t \<Longrightarrow> token_child t h = (t', h') \<Longrightarrow> token_valid h' t'"
  by (auto simp: token_child_def token_valid_def less_Suc_eq)

text \<open>The tokens that see a cancellation: those with the cancelled token's cell in their chain.\<close>

lemma cancel_seen_by:
  "token_valid h t \<Longrightarrow>
     is_cancelled (token_cancel t h) s \<longleftrightarrow> is_cancelled h s \<or> tk_cell t \<in> set (scopes s)"
  by (auto simp: is_cancelled_iff token_cancel_def token_valid_def dest: bspec [of _ _ "tk_cell t"])

lemma reset_cleared:
  "token_valid h t \<Longrightarrow>
     is_cancelled (token_reset t h) s \<longleftrightarrow> (\<exists>c \<in> set (scopes s). c \<noteq> tk_cell t \<and> ce_cancelled (h ! c))"
  by (auto simp: is_cancelled_iff token_reset_def token_valid_def dest: bspec [of _ _ "tk_cell t"])

lemma child_cancelled_iff:
  "token_valid h t \<Longrightarrow> token_child t h = (t', h') \<Longrightarrow> is_cancelled h' t' \<longleftrightarrow> is_cancelled h t"
  by (fastforce simp: is_cancelled_iff token_child_def token_valid_def nth_append new_cell_def)

subsection \<open>Aborting a scope\<close>

definition record_in :: "cells \<Rightarrow> nat \<Rightarrow> nat \<Rightarrow> execution_record option" where
  "record_in h c x = bt_get (ce_active (h ! c)) x"

abbreviation record_of :: "token_world \<Rightarrow> nat \<Rightarrow> nat \<Rightarrow> execution_record option" where
  "record_of w \<equiv> record_in (tw_cells w)"

definition cells_ordered :: "cells \<Rightarrow> bool" where
  "cells_ordered h \<longleftrightarrow> (\<forall>c < length h. bt_ok (ce_active (h ! c)))"

lemma bt_ok_map_snd: "bt_ok m \<Longrightarrow> bt_ok (map (\<lambda>(x, r). (x, f r)) m)"
  by (simp add: bt_ok_def comp_def case_prod_beta')

lemma bt_get_map_snd: "bt_get (map (\<lambda>(x, r). (x, f r)) m) x = map_option f (bt_get m x)"
  by (induction m) (auto simp: bt_get_def)

lemma set_map_filter_snd: "bt_ok m \<Longrightarrow>
    set (List.map_filter (\<lambda>(x, r). g r) m) = {y. \<exists>x r. bt_get m x = Some r \<and> g r = Some y}"
  by (fastforce simp: map_filter_def bt_get_entry image_iff)

text \<open>The state of the executions and of their records.\<close>

definition execution_ok :: "cells \<Rightarrow> nat \<Rightarrow> execution \<Rightarrow> bool" where
  "execution_ok h x e \<longleftrightarrow>
     set (xe_scopes e) \<subseteq> {..<length h} \<and> set (xe_to_register e) \<subseteq> set (xe_scopes e) \<and>
     set (xe_to_attach e) \<subseteq> set (xe_scopes e) \<and> set (xe_to_leave e) \<subseteq> set (xe_scopes e) \<and>
     (xe_spawned e \<longrightarrow> xe_to_register e = []) \<and>
     (\<not> xe_spawned e \<longrightarrow> xe_to_attach e = [] \<and> \<not> xe_ended e) \<and>
     (\<not> xe_ended e \<longrightarrow> xe_to_leave e = []) \<and>
     (\<forall>c \<in> set (xe_scopes e). c \<notin> set (xe_to_register e) \<longrightarrow> \<not> xe_ended e \<longrightarrow> record_in h c x \<noteq> None) \<and>
     (\<forall>c \<in> set (xe_scopes e). xe_spawned e \<longrightarrow> c \<notin> set (xe_to_attach e) \<longrightarrow> \<not> xe_ended e \<longrightarrow>
        map_option er_abort (record_in h c x) = Some (Some x))"

definition records_ok :: "token_world \<Rightarrow> bool" where
  "records_ok w \<longleftrightarrow>
     (\<forall>c < length (tw_cells w). \<forall>x r. record_of w c x = Some r \<longrightarrow>
        x < length (tw_executions w) \<and> c \<in> set (xe_scopes (tw_executions w ! x)) \<and>
        (er_abort_requested r \<longrightarrow> ce_abort_requested (tw_cells w ! c)) \<and>
        (\<forall>y. er_abort r = Some y \<longrightarrow> y = x \<and> (er_abort_requested r \<longrightarrow> x \<in> tw_aborted w)) \<and>
        (c \<in> tw_abort_done w \<longrightarrow> er_abort_requested r))"

definition aborts_ok :: "token_world \<Rightarrow> bool" where
  "aborts_ok w \<longleftrightarrow>
     (\<forall>c \<in> set (tw_aborters w) \<union> tw_abort_done w. c < length (tw_cells w) \<and> ce_abort_requested (tw_cells w ! c)) \<and>
     (\<forall>x \<in> tw_aborted w. x < length (tw_executions w) \<and>
        (\<exists>c \<in> set (xe_scopes (tw_executions w ! x)). ce_abort_requested (tw_cells w ! c)))"

definition executions_ok :: "token_world \<Rightarrow> bool" where
  "executions_ok w \<longleftrightarrow> (\<forall>x < length (tw_executions w). execution_ok (tw_cells w) x (tw_executions w ! x))"

definition token_world_ok :: "token_world \<Rightarrow> bool" where
  "token_world_ok w \<longleftrightarrow> cells_ordered (tw_cells w) \<and> executions_ok w \<and> records_ok w \<and> aborts_ok w"

text \<open>What each critical section does to the records, the flags and the order of the entries.\<close>

lemma record_in_append [simp]:
  "c < length h \<Longrightarrow> record_in (h @ [new_cell]) c x = record_in h c x"
  "record_in (h @ [new_cell]) (length h) x = None"
  by (auto simp: record_in_def nth_append new_cell_def)

lemma update_execution_simps [simp]:
  "tw_cells (update_execution x f w) = tw_cells w" "tw_aborted (update_execution x f w) = tw_aborted w"
  "tw_aborters (update_execution x f w) = tw_aborters w"
  "tw_abort_done (update_execution x f w) = tw_abort_done w"
  "length (tw_executions (update_execution x f w)) = length (tw_executions w)"
  "x < length (tw_executions w) \<Longrightarrow> tw_executions (update_execution x f w) ! y =
     (if y = x then f (tw_executions w ! x) else tw_executions w ! y)"
  by (auto simp: update_execution_def nth_list_update)

lemma register_in_simps:
  "cells_ordered h \<Longrightarrow> c < length h \<Longrightarrow> record_in (register_in x c h) c' x' =
     (if c' = c \<and> x' = x then Some \<lparr>er_abort = None, er_abort_requested = ce_abort_requested (h ! c)\<rparr>
      else record_in h c' x')"
  "length (register_in x c h) = length h"
  "ce_abort_requested (register_in x c h ! c') = ce_abort_requested (h ! c')"
  "cells_ordered h \<Longrightarrow> cells_ordered (register_in x c h)"
  by (auto simp: register_in_def record_in_def cells_ordered_def bt.get_ins intro: bt.ok_ins)

lemma attach_in_simps:
  assumes "attach_in x c (h, a) = (h', a')" "cells_ordered h" "c < length h"
  shows "record_in h' c' x' =
     (if c' = c \<and> x' = x then map_option (\<lambda>r. r\<lparr>er_abort := Some x\<rparr>) (record_in h c x) else record_in h c' x')"
    and "length h' = length h" "ce_abort_requested (h' ! c') = ce_abort_requested (h ! c')" "cells_ordered h'"
    and "a' = (if map_option er_abort_requested (record_in h c x) = Some True then insert x a else a)"
  using assms
  by (auto simp: attach_in_def record_in_def cells_ordered_def bt.get_ins bt.ok_ins split: option.splits if_splits)

lemma drop_in_simps:
  "c < length h \<Longrightarrow> cells_ordered h \<Longrightarrow>
     record_in (drop_in x c h) c' x' = (if c' = c \<and> x' = x then None else record_in h c' x')"
  "length (drop_in x c h) = length h"
  "ce_abort_requested (drop_in x c h ! c') = ce_abort_requested (h ! c')"
  "cells_ordered h \<Longrightarrow> cells_ordered (drop_in x c h)"
  by (auto simp: drop_in_def record_in_def cells_ordered_def bt.get_del intro: bt.ok_del)

lemma request_abort_simps:
  "record_in (request_abort c h) c' x' = record_in h c' x'"
  "length (request_abort c h) = length h"
  "c < length h \<Longrightarrow> ce_abort_requested (request_abort c h ! c') = (c' = c \<or> ce_abort_requested (h ! c'))"
  "cells_ordered h \<Longrightarrow> cells_ordered (request_abort c h)"
  by (auto simp: request_abort_def record_in_def cells_ordered_def)

lemma mark_aborted_simps:
  assumes "mark_aborted c (h, a) = (h', a')" "cells_ordered h" "c < length h"
  shows "record_in h' c' x' =
     (if c' = c then map_option (\<lambda>r. r\<lparr>er_abort_requested := True\<rparr>) (record_in h c x') else record_in h c' x')"
    and "length h' = length h" "ce_abort_requested (h' ! c') = ce_abort_requested (h ! c')" "cells_ordered h'"
    and "a' = a \<union> {y. \<exists>x r. record_in h c x = Some r \<and> er_abort r = Some y}"
  using assms
  by (auto simp: mark_aborted_def record_in_def cells_ordered_def bt_get_map_snd set_map_filter_snd
      bt_ok_map_snd split: if_splits)

lemma flag_simps:
  "record_in (update_cell c (\<lambda>e. e\<lparr>ce_cancelled := b\<rparr>) h) c' x' = record_in h c' x'"
  "ce_abort_requested (update_cell c (\<lambda>e. e\<lparr>ce_cancelled := b\<rparr>) h ! c') = ce_abort_requested (h ! c')"
  "cells_ordered h \<Longrightarrow> cells_ordered (update_cell c (\<lambda>e. e\<lparr>ce_cancelled := b\<rparr>) h)"
  by (auto simp: record_in_def cells_ordered_def)


text \<open>Each invariant, event by event.\<close>

lemma execution_ok_transfer:
  assumes ok: "execution_ok h x e" and len: "length h \<le> length h'"
    and rec: "\<And>c. c < length h \<Longrightarrow> map_option er_abort (record_in h' c x) = map_option er_abort (record_in h c x)"
  shows "execution_ok h' x e"
proof -
  have sc: "c < length h" if "c \<in> set (xe_scopes e)" for c
    using ok that by (auto simp: execution_ok_def)
  have "record_in h' c x \<noteq> None" if "c \<in> set (xe_scopes e)" "c \<notin> set (xe_to_register e)" "\<not> xe_ended e" for c
  proof -
    have "record_in h c x \<noteq> None" using ok that by (simp add: execution_ok_def)
    then show ?thesis using rec [OF sc [OF that(1)]] by (metis map_option_is_None)
  qed
  moreover have "map_option er_abort (record_in h' c x) = Some (Some x)"
    if "c \<in> set (xe_scopes e)" "xe_spawned e" "c \<notin> set (xe_to_attach e)" "\<not> xe_ended e" for c
    using ok that rec [OF sc [OF that(1)]] by (simp add: execution_ok_def)
  moreover have "set (xe_scopes e) \<subseteq> {..<length h'}" using sc len by fastforce
  ultimately show ?thesis using ok by (simp add: execution_ok_def)
qed

lemmas token_event_simps = register_in_simps drop_in_simps request_abort_simps flag_simps

lemma executions_ok_transfer:
  assumes "executions_ok w" "tw_executions w' = tw_executions w" "length (tw_cells w) \<le> length (tw_cells w')"
    and "\<And>c x. c < length (tw_cells w) \<Longrightarrow>
      map_option er_abort (record_of w' c x) = map_option er_abort (record_of w c x)"
  shows "executions_ok w'"
  using assms unfolding executions_ok_def by (metis execution_ok_transfer)

lemma register_execution_ok:
  assumes ok: "token_world_ok w" and step: "token_act (RegisterNext x) w = Some w'"
  shows "token_world_ok w'"
proof -
  obtain c cs where x: "x < length (tw_executions w)" and l: "xe_to_register (tw_executions w ! x) = c # cs"
    and w': "w' = update_execution x (\<lambda>e. e\<lparr>xe_to_register := cs\<rparr>) (w\<lparr>tw_cells := register_in x c (tw_cells w)\<rparr>)"
    using step by (auto split: if_splits list.splits)
  have ord: "cells_ordered (tw_cells w)" and e: "execution_ok (tw_cells w) x (tw_executions w ! x)"
    using ok x by (auto simp: token_world_ok_def executions_ok_def)
  have c: "c < length (tw_cells w)" and ns: "\<not> xe_spawned (tw_executions w ! x)"
    using e l by (auto simp: execution_ok_def)
  note reg = register_in_simps(1) [OF ord c] register_in_simps(2,3)
  have 1: "cells_ordered (tw_cells w')" using ord by (simp add: w' register_in_simps)
  have 2: "executions_ok w'"
    using ok e ns x l unfolding token_world_ok_def executions_ok_def execution_ok_def w'
    by (auto simp: reg)
  have 3: "records_ok w'"
    using ok x e l unfolding token_world_ok_def records_ok_def w'
    by (auto simp: reg execution_ok_def aborts_ok_def)
  have 4: "aborts_ok w'"
    using ok x unfolding token_world_ok_def aborts_ok_def w'
    by (auto simp: reg)
  from 1 2 3 4 show ?thesis by (simp add: token_world_ok_def)
qed

lemma attach_ok:
  assumes ok: "token_world_ok w" and step: "token_act (AttachNext x) w = Some w'"
  shows "token_world_ok w'"
proof -
  obtain c cs h a where x: "x < length (tw_executions w)" and l: "xe_to_attach (tw_executions w ! x) = c # cs"
    and at: "attach_in x c (tw_cells w, tw_aborted w) = (h, a)"
    and w': "w' = update_execution x (\<lambda>e. e\<lparr>xe_to_attach := cs\<rparr>) (w\<lparr>tw_cells := h, tw_aborted := a\<rparr>)"
    using step by (auto split: if_splits list.splits prod.splits)
  have ord: "cells_ordered (tw_cells w)" and e: "execution_ok (tw_cells w) x (tw_executions w ! x)"
    using ok x by (auto simp: token_world_ok_def executions_ok_def)
  have c: "c < length (tw_cells w)" using e l by (auto simp: execution_ok_def)
  note att = attach_in_simps [OF at ord c]
  have 1: "cells_ordered (tw_cells w')" using att(4) by (simp add: w')
  have "\<not> xe_ended (tw_executions w ! x) \<Longrightarrow> \<exists>r. record_of w c x = Some r"
    using e l by (auto simp: execution_ok_def)
  then have "execution_ok h x ((tw_executions w ! x)\<lparr>xe_to_attach := cs\<rparr>)"
    using e l by (auto simp: execution_ok_def att(1,2))
  moreover have "execution_ok h y (tw_executions w ! y)" if "y < length (tw_executions w)" "y \<noteq> x" for y
    by (rule execution_ok_transfer [of "tw_cells w"])
      (use ok that in \<open>auto simp: token_world_ok_def executions_ok_def att(1,2)\<close>)
  ultimately have 2: "executions_ok w'"
    using x unfolding executions_ok_def w' by simp
  have 3: "records_ok w'"
    using ok x unfolding token_world_ok_def records_ok_def w'
    by (auto simp: att(1,2,3,5))
  have 4: "aborts_ok w'"
    using ok x c unfolding token_world_ok_def aborts_ok_def records_ok_def w'
    by (auto simp: att(2,3,5) split: if_splits)
  from 1 2 3 4 show ?thesis by (simp add: token_world_ok_def)
qed

lemma leave_ok:
  assumes ok: "token_world_ok w" and step: "token_act (LeaveNext x) w = Some w'"
  shows "token_world_ok w'"
proof -
  obtain c cs where x: "x < length (tw_executions w)" and l: "xe_to_leave (tw_executions w ! x) = c # cs"
    and w': "w' = update_execution x (\<lambda>e. e\<lparr>xe_to_leave := cs\<rparr>) (w\<lparr>tw_cells := drop_in x c (tw_cells w)\<rparr>)"
    using step by (auto split: if_splits list.splits)
  have ord: "cells_ordered (tw_cells w)" and e: "execution_ok (tw_cells w) x (tw_executions w ! x)"
    using ok x by (auto simp: token_world_ok_def executions_ok_def)
  have c: "c < length (tw_cells w)" and en: "xe_ended (tw_executions w ! x)"
    using e l by (auto simp: execution_ok_def)
  note drp = drop_in_simps(1) [OF c ord] drop_in_simps(2,3)
  have 1: "cells_ordered (tw_cells w')" using ord by (simp add: w' drop_in_simps)
  have 2: "executions_ok w'"
    using ok e en x l unfolding token_world_ok_def executions_ok_def execution_ok_def w'
    by (auto simp: drp)
  have 3: "records_ok w'"
    using ok x unfolding token_world_ok_def records_ok_def w' by (auto simp: drp)
  have 4: "aborts_ok w'"
    using ok x unfolding token_world_ok_def aborts_ok_def w' by (auto simp: drp)
  from 1 2 3 4 show ?thesis by (simp add: token_world_ok_def)
qed

lemma mark_ok:
  assumes ok: "token_world_ok w" and step: "token_act (AbortMark c) w = Some w'"
  shows "token_world_ok w'"
proof -
  obtain h a where ab: "c \<in> set (tw_aborters w)" and m: "mark_aborted c (tw_cells w, tw_aborted w) = (h, a)"
    and w': "w' = w\<lparr>tw_cells := h, tw_aborted := a, tw_aborters := remove1 c (tw_aborters w),
                     tw_abort_done := insert c (tw_abort_done w)\<rparr>"
    using step by (auto split: if_splits prod.splits)
  have ord: "cells_ordered (tw_cells w)" using ok by (simp add: token_world_ok_def)
  have c: "c < length (tw_cells w)" and req: "ce_abort_requested (tw_cells w ! c)"
    using ok ab by (auto simp: token_world_ok_def aborts_ok_def)
  note mk = mark_aborted_simps [OF m ord c]
  have 1: "cells_ordered (tw_cells w')" using mk(4) by (simp add: w')
  have 2: "executions_ok w'"
    using ok unfolding token_world_ok_def w'
    by (auto simp: mk(1,2) option.map_comp comp_def elim!: executions_ok_transfer)
  have own: "record_of w c x = Some r \<Longrightarrow> er_abort r = Some y \<Longrightarrow> y = x" for x r y
    using ok c by (auto simp: token_world_ok_def records_ok_def)
  have tree: "y < length (tw_executions w) \<and> c \<in> set (xe_scopes (tw_executions w ! y))"
    if "record_of w c x = Some r" "er_abort r = Some y" for x r y
    using ok c that own [OF that] by (auto simp: token_world_ok_def records_ok_def)
  have 3: "records_ok w'"
    using ok req unfolding token_world_ok_def records_ok_def w'
    by (auto simp: mk(1,2,3,5) dest: own split: if_splits) (metis own)
  have 4: "aborts_ok w'"
    using ok c req tree unfolding token_world_ok_def aborts_ok_def w'
    by (auto simp: mk(2,3,5) dest: set_mp [OF set_remove1_subset])
  from 1 2 3 4 show ?thesis by (simp add: token_world_ok_def)
qed

lemma request_ok:
  assumes ok: "token_world_ok w" and step: "token_act (AbortRequest t) w = Some w'"
  shows "token_world_ok w'"
proof -
  have v: "token_valid (tw_cells w) t"
    and w': "w' = w\<lparr>tw_cells := request_abort (tk_cell t) (tw_cells w), tw_aborters := tk_cell t # tw_aborters w\<rparr>"
    using step by (auto split: if_splits)
  have c: "tk_cell t < length (tw_cells w)" using v by (simp add: token_valid_def)
  note rq = request_abort_simps(1,2) request_abort_simps(3) [OF c]
  have 1: "cells_ordered (tw_cells w')" using ok by (simp add: w' request_abort_simps token_world_ok_def)
  have 2: "executions_ok w'"
    using ok unfolding token_world_ok_def executions_ok_def execution_ok_def w' by (auto simp: rq)
  have 3: "records_ok w'"
    using ok unfolding token_world_ok_def records_ok_def w' by (auto simp: rq)
  have 4: "aborts_ok w'"
    using ok c unfolding token_world_ok_def aborts_ok_def w' by (auto simp: rq)
  from 1 2 3 4 show ?thesis by (simp add: token_world_ok_def)
qed

lemma spawn_execution_ok:
  assumes ok: "token_world_ok w" and step: "token_act (SpawnOn t) w = Some w'"
  shows "token_world_ok w'"
proof -
  have v: "token_valid (tw_cells w) t"
    and w': "w' = w\<lparr>tw_executions := tw_executions w @
        [\<lparr>xe_scopes = scopes t, xe_to_register = scopes t, xe_spawned = False, xe_to_attach = [],
          xe_ended = False, xe_to_leave = []\<rparr>]\<rparr>"
    using step by (auto split: if_splits)
  have 2: "executions_ok w'"
    using ok v unfolding token_world_ok_def executions_ok_def w'
    by (auto simp: nth_append execution_ok_def token_valid_def less_Suc_eq)
  have 3: "records_ok w'"
    using ok unfolding token_world_ok_def records_ok_def w' by (fastforce simp: nth_append)
  have 4: "aborts_ok w'"
    using ok unfolding token_world_ok_def aborts_ok_def w' by (fastforce simp: nth_append)
  from ok 2 3 4 show ?thesis by (simp add: token_world_ok_def w')
qed

lemma future_step_ok:
  assumes ok: "token_world_ok w" and x: "x < length (tw_executions w)"
    and e': "execution_ok (tw_cells w) x (f (tw_executions w ! x))"
    and sc: "xe_scopes (f (tw_executions w ! x)) = xe_scopes (tw_executions w ! x)"
  shows "token_world_ok (update_execution x f w)"
proof -
  have 2: "executions_ok (update_execution x f w)"
    using ok e' x unfolding token_world_ok_def executions_ok_def by auto
  have 3: "records_ok (update_execution x f w)"
    using ok x sc unfolding token_world_ok_def records_ok_def by auto
  have 4: "aborts_ok (update_execution x f w)"
    using ok x sc unfolding token_world_ok_def aborts_ok_def by auto
  from ok 2 3 4 show ?thesis by (simp add: token_world_ok_def)
qed

lemma future_ok:
  assumes ok: "token_world_ok w"
    and step: "token_act (StartFuture x) w = Some w' \<or> token_act (EndFuture x) w = Some w'"
  shows "token_world_ok w'"
proof -
  have e: "x < length (tw_executions w) \<Longrightarrow> execution_ok (tw_cells w) x (tw_executions w ! x)"
    using ok by (simp add: token_world_ok_def executions_ok_def)
  show ?thesis
    using step e by (auto simp: execution_ok_def split: if_splits intro!: future_step_ok [OF ok])
qed

lemma new_token_ok:
  assumes ok: "token_world_ok w" and w': "w' = w\<lparr>tw_cells := tw_cells w @ [new_cell]\<rparr>"
  shows "token_world_ok w'"
proof -
  have 1: "cells_ordered (tw_cells w')"
    using ok by (auto simp: w' token_world_ok_def cells_ordered_def nth_append new_cell_def)
  have 2: "executions_ok w'"
    using ok unfolding token_world_ok_def w' by (auto elim!: executions_ok_transfer)
  have 3: "records_ok w'"
    using ok unfolding token_world_ok_def records_ok_def w'
    by (auto simp: less_Suc_eq nth_append)
  have sc: "c < length (tw_cells w)"
    if "x < length (tw_executions w)" "c \<in> set (xe_scopes (tw_executions w ! x))" for x c
    using ok that by (auto simp: token_world_ok_def executions_ok_def execution_ok_def)
  have flag: "ce_abort_requested (tw_cells w' ! c) = ce_abort_requested (tw_cells w ! c)"
    if "c < length (tw_cells w)" for c
    using that by (simp add: w' nth_append)
  have "\<forall>c \<in> set (tw_aborters w) \<union> tw_abort_done w. c < length (tw_cells w) \<and> ce_abort_requested (tw_cells w' ! c)"
    using ok flag by (auto simp: token_world_ok_def aborts_ok_def)
  moreover have "\<forall>x \<in> tw_aborted w. x < length (tw_executions w) \<and>
      (\<exists>c \<in> set (xe_scopes (tw_executions w ! x)). ce_abort_requested (tw_cells w' ! c))"
    using ok sc flag by (fastforce simp: token_world_ok_def aborts_ok_def)
  ultimately have 4: "aborts_ok w'"
    unfolding aborts_ok_def by (auto simp: w' less_Suc_eq)
  from 1 2 3 4 show ?thesis by (simp add: token_world_ok_def)
qed

lemma flag_ok:
  assumes ok: "token_world_ok w" and w': "w' = w\<lparr>tw_cells := update_cell c (\<lambda>e. e\<lparr>ce_cancelled := b\<rparr>) (tw_cells w)\<rparr>"
  shows "token_world_ok w'"
proof -
  have 2: "executions_ok w'"
    using ok unfolding token_world_ok_def w'
    by (auto simp: flag_simps simp del: update_cell_nth elim!: executions_ok_transfer)
  have 1: "cells_ordered (tw_cells w')" using ok by (simp add: w' token_world_ok_def flag_simps)
  have 3: "records_ok w'"
    using ok unfolding token_world_ok_def records_ok_def w' by (simp add: flag_simps del: update_cell_nth)
  have 4: "aborts_ok w'"
    using ok unfolding token_world_ok_def aborts_ok_def w' by (simp add: flag_simps del: update_cell_nth)
  from 1 2 3 4 show ?thesis by (simp add: token_world_ok_def)
qed

lemma token_act_ok:
  assumes "token_world_ok w" "token_act ev w = Some w'"
  shows "token_world_ok w'"
proof (cases ev)
  case NewToken
  with assms show ?thesis by (auto simp: token_new_def intro: new_token_ok)
next
  case (ChildOf t)
  with assms show ?thesis by (auto simp: token_child_def intro: new_token_ok split: if_splits)
next
  case (CancelOf t)
  with assms show ?thesis by (auto simp: token_cancel_def intro: flag_ok split: if_splits)
next
  case (ResetOf t)
  with assms show ?thesis by (auto simp: token_reset_def intro: flag_ok split: if_splits)
next
  case (StartFuture x)
  with assms future_ok show ?thesis by blast
next
  case (EndFuture x)
  with assms future_ok show ?thesis by blast
qed (use assms register_execution_ok attach_ok leave_ok mark_ok request_ok spawn_execution_ok in blast)+

lemma reachable_token_world_ok: "token_reachable w \<Longrightarrow> token_world_ok w"
proof (induction rule: token_reachable.induct)
  case start
  show ?case
    by (simp add: token_world_ok_def token_world_init_def cells_ordered_def executions_ok_def records_ok_def
        aborts_ok_def)
next
  case (act w e w')
  then show ?case by (blast intro: token_act_ok)
qed


subsection \<open>The properties\<close>

text \<open>C31: aborting a background task interrupts its whole invocation tree and nothing else, whatever
  the interleaving. Once the abort of a scope has marked it, every execution of the scope's tree that is
  running with its handle attached there has been aborted, whether it registered before, during or after
  the request; and an execution is only ever aborted through a scope of its own chain whose abort was
  requested.\<close>

theorem abort_reaches_exactly_the_tree:
  assumes "token_reachable w"
  shows "(\<forall>c x. c \<in> tw_abort_done w \<longrightarrow> x < length (tw_executions w) \<longrightarrow>
           c \<in> set (xe_scopes (tw_executions w ! x)) \<longrightarrow>
           xe_spawned (tw_executions w ! x) \<and> \<not> xe_ended (tw_executions w ! x) \<longrightarrow>
           c \<notin> set (xe_to_attach (tw_executions w ! x)) \<longrightarrow> x \<in> tw_aborted w)
    \<and> (\<forall>x \<in> tw_aborted w. x < length (tw_executions w) \<and>
           (\<exists>c \<in> set (xe_scopes (tw_executions w ! x)). ce_abort_requested (tw_cells w ! c)))"
proof (rule conjI)
  have ok: "token_world_ok w" using assms by (rule reachable_token_world_ok)
  show "\<forall>x \<in> tw_aborted w. x < length (tw_executions w) \<and>
           (\<exists>c \<in> set (xe_scopes (tw_executions w ! x)). ce_abort_requested (tw_cells w ! c))"
    using ok by (simp add: token_world_ok_def aborts_ok_def)
  have "x \<in> tw_aborted w"
    if d: "c \<in> tw_abort_done w" and x: "x < length (tw_executions w)"
      and s: "c \<in> set (xe_scopes (tw_executions w ! x))" "xe_spawned (tw_executions w ! x)"
        "\<not> xe_ended (tw_executions w ! x)" "c \<notin> set (xe_to_attach (tw_executions w ! x))" for c x
  proof -
    have c: "c < length (tw_cells w)" using ok d by (auto simp: token_world_ok_def aborts_ok_def)
    have "execution_ok (tw_cells w) x (tw_executions w ! x)"
      using ok x by (simp add: token_world_ok_def executions_ok_def)
    with s obtain r where r: "record_of w c x = Some r" "er_abort r = Some x"
      by (auto simp: execution_ok_def)
    with ok c d show ?thesis by (simp add: token_world_ok_def records_ok_def)
  qed
  then show "\<forall>c x. c \<in> tw_abort_done w \<longrightarrow> x < length (tw_executions w) \<longrightarrow>
           c \<in> set (xe_scopes (tw_executions w ! x)) \<longrightarrow>
           xe_spawned (tw_executions w ! x) \<and> \<not> xe_ended (tw_executions w ! x) \<longrightarrow>
           c \<notin> set (xe_to_attach (tw_executions w ! x)) \<longrightarrow> x \<in> tw_aborted w"
    by blast
qed

fun token_acts :: "token_event list \<Rightarrow> token_world \<Rightarrow> token_world option" where
  "token_acts [] w = Some w"
| "token_acts (e # es) w = (case token_act e w of None \<Rightarrow> None | Some w' \<Rightarrow> token_acts es w')"

lemma token_acts_reachable: "token_reachable w \<Longrightarrow> token_acts es w = Some w' \<Longrightarrow> token_reachable w'"
  by (induction es w rule: token_acts.induct) (auto split: option.splits intro: token_reachable.act)

text \<open>An execution that registers with the task's scope before the abort request, in its parent's
  after it, and gets its handle only after the marking.\<close>

definition abort_race :: "token_event list" where
  "abort_race =
     [NewToken, ChildOf (CancelToken 0 None), SpawnOn (CancelToken 1 (Some (CancelToken 0 None))),
      RegisterNext 0, AbortRequest (CancelToken 1 (Some (CancelToken 0 None))), RegisterNext 0,
      AbortMark 1, StartFuture 0, AttachNext 0]"

lemmas token_run_simps = abort_race_def token_world_init_def token_new_def token_child_def new_cell_def
  token_valid_def register_in_def attach_in_def mark_aborted_def request_abort_def update_cell_def
  update_execution_def bt_get_def map_filter_def

theorem abort_reaches_exactly_the_tree_witness:
  "\<exists>w. token_acts abort_race token_world_init = Some w \<and> 0 \<in> tw_aborted w"
proof -
  have run: "token_acts abort_race token_world_init = Some w \<Longrightarrow> token_reachable w" for w
    by (rule token_acts_reachable [OF token_reachable.start])
  obtain w where w: "token_acts abort_race token_world_init = Some w" and d: "1 \<in> tw_abort_done w"
    "tw_executions w = [\<lparr>xe_scopes = [1, 0], xe_to_register = [], xe_spawned = True, xe_to_attach = [0],
       xe_ended = False, xe_to_leave = []\<rparr>]"
    by (simp add: token_run_simps)
  from abort_reaches_exactly_the_tree [OF run [OF w]] d have "0 \<in> tw_aborted w" by force
  with w show ?thesis by blast
qed

text \<open>Cancellation is scoped. Cancelling a token is seen by exactly the tokens that have it in
  their chain, that is itself, its clones and its descendants; a child starts with what its parent sees,
  and a reset of a token clears what it contributed and nothing more.\<close>

theorem cancellation_reaches_descendants_only:
  assumes "token_valid h t"
  shows "is_cancelled (token_cancel t h) s \<longleftrightarrow> is_cancelled h s \<or> tk_cell t \<in> set (scopes s)"
    and "token_child t h = (t', h') \<Longrightarrow> token_valid h' t' \<and>
           (is_cancelled h' t' \<longleftrightarrow> is_cancelled h t) \<and> tk_cell t \<in> set (scopes t') \<and>
           (token_valid h s \<longrightarrow> is_cancelled (token_cancel t' h') s \<longleftrightarrow> is_cancelled h s)"
    and "is_cancelled (token_reset t h) t \<longleftrightarrow> (\<exists>p. tk_parent t = Some p \<and> is_cancelled (token_reset t h) p)"
proof -
  show "is_cancelled (token_cancel t h) s \<longleftrightarrow> is_cancelled h s \<or> tk_cell t \<in> set (scopes s)"
    using assms by (rule cancel_seen_by)
  show "token_valid h' t' \<and> (is_cancelled h' t' \<longleftrightarrow> is_cancelled h t) \<and> tk_cell t \<in> set (scopes t') \<and>
      (token_valid h s \<longrightarrow> is_cancelled (token_cancel t' h') s \<longleftrightarrow> is_cancelled h s)"
    if c: "token_child t h = (t', h')"
  proof -
    have v: "token_valid h' t'" using assms c by (rule token_child_valid)
    have "is_cancelled (token_cancel t' h') s \<longleftrightarrow> is_cancelled h s" if s: "token_valid h s"
    proof -
      have h': "h' = h @ [new_cell]" and t': "tk_cell t' = length h" using c by (auto simp: token_child_def)
      have old: "c < length h" if "c \<in> set (scopes s)" for c using s that by (simp add: token_valid_def)
      have "is_cancelled h' s \<longleftrightarrow> is_cancelled h s"
        unfolding is_cancelled_iff h' by (rule bex_cong) (simp_all add: nth_append old)
      moreover have "tk_cell t' \<notin> set (scopes s)" using old t' by auto
      ultimately have "is_cancelled h' s \<longleftrightarrow> is_cancelled h s" "tk_cell t' \<notin> set (scopes s)" by simp_all
      then show ?thesis by (simp add: cancel_seen_by [OF v])
    qed
    with v c child_cancelled_iff [OF assms c] scopes_child [OF c] show ?thesis by simp
  qed
  show "is_cancelled (token_reset t h) t \<longleftrightarrow> (\<exists>p. tk_parent t = Some p \<and> is_cancelled (token_reset t h) p)"
    using assms by (cases t) (auto simp: token_reset_def token_valid_def split: option.splits)
qed

end
