(* ===== verification/Tasks.thy ===== *)
theory Tasks
  imports Errors "HOL-Library.Word" Complex_Main
begin

section \<open>Background tasks: records, stores, retries, the manager's operations\<close>

text \<open>
  \<open>src/src/async_task.rs\<close>: task records, the \<open>TaskStore\<close> trait with its in-memory
  implementation, the retry delay, the operations of \<open>AsyncTaskManager\<close> on a store, and the
  single-reaper guard. A store is a trait object: a record of its operations on an arbitrary state
  \<open>'s\<close>, each of which may fail. The workers and the interleaving of the manager's operations are in
  theory \<open>TaskRuns\<close>. Times are rational seconds, without the rounding of \<open>f64\<close>; the error text
  a failed task keeps is represented by the error.
\<close>

datatype task_status = Pending | Running | TaskCompleted | TaskFailed | TaskCancelled

definition is_terminal :: "task_status \<Rightarrow> bool" where
  [model_simps]: "is_terminal st \<longleftrightarrow> st \<in> {TaskCompleted, TaskFailed, TaskCancelled}"

definition is_active :: "task_status \<Rightarrow> bool" where
  [model_simps]: "is_active st \<longleftrightarrow> st \<in> {Pending, Running}"

record task_info =
  ti_task_id :: string
  ti_module_id :: string
  ti_status :: task_status
  ti_submitted_at :: rat
  ti_started_at :: "rat option"
  ti_completed_at :: "rat option"
  ti_result :: "json option"
  ti_error :: "module_error option"
  ti_retry_count :: nat
  ti_max_retries :: nat

subsection \<open>Stores\<close>

record 's task_store =
  so_save :: "task_info \<Rightarrow> 's \<Rightarrow> module_error option \<times> 's"
  so_get :: "string \<Rightarrow> 's \<Rightarrow> module_error + task_info option"
  so_list :: "task_status option \<Rightarrow> 's \<Rightarrow> module_error + task_info list"
  so_delete :: "string \<Rightarrow> 's \<Rightarrow> module_error option \<times> 's"
  so_list_expired :: "rat \<Rightarrow> 's \<Rightarrow> module_error + task_info list"

text \<open>The in-memory store: each record carries the sequence number of its first save.\<close>

record memory_store =
  ms_tasks :: "(string \<times> nat \<times> task_info) list"
  ms_next_seq :: nat

definition memory_store_new :: memory_store where
  "memory_store_new = \<lparr>ms_tasks = [], ms_next_seq = 0\<rparr>"

definition ms_save :: "task_info \<Rightarrow> memory_store \<Rightarrow> module_error option \<times> memory_store" where
  "ms_save info m =
     (case bt_get (ms_tasks m) (ti_task_id info) of
        Some (seq, _) \<Rightarrow> (None, m\<lparr>ms_tasks := bt_insert (ti_task_id info) (seq, info) (ms_tasks m)\<rparr>)
      | None \<Rightarrow>
          (None, m\<lparr>ms_tasks := bt_insert (ti_task_id info) (ms_next_seq m, info) (ms_tasks m),
                   ms_next_seq := ms_next_seq m + 1\<rparr>))"

definition ms_get :: "string \<Rightarrow> memory_store \<Rightarrow> module_error + task_info option" where
  "ms_get i m = Inr (map_option snd (bt_get (ms_tasks m) i))"

definition ms_collect :: "(task_info \<Rightarrow> bool) \<Rightarrow> memory_store \<Rightarrow> task_info list" where
  "ms_collect keep m = map snd (sort_key fst (filter (\<lambda>e. keep (snd e)) (map snd (ms_tasks m))))"

definition ms_list :: "task_status option \<Rightarrow> memory_store \<Rightarrow> module_error + task_info list" where
  "ms_list status m =
     Inr (ms_collect (\<lambda>t. case status of Some st \<Rightarrow> ti_status t = st | None \<Rightarrow> True) m)"

definition ms_delete :: "string \<Rightarrow> memory_store \<Rightarrow> module_error option \<times> memory_store" where
  "ms_delete i m = (None, m\<lparr>ms_tasks := bt_remove i (ms_tasks m)\<rparr>)"

definition has_expired :: "rat \<Rightarrow> task_info \<Rightarrow> bool" where
  "has_expired before t \<longleftrightarrow> is_terminal (ti_status t) \<and>
     (case ti_completed_at t of Some ts \<Rightarrow> ts < before | None \<Rightarrow> False)"

definition ms_list_expired :: "rat \<Rightarrow> memory_store \<Rightarrow> module_error + task_info list" where
  "ms_list_expired before m = Inr (ms_collect (has_expired before) m)"

definition memory_ops :: "memory_store task_store" where
  "memory_ops = \<lparr>so_save = ms_save, so_get = ms_get, so_list = ms_list, so_delete = ms_delete,
     so_list_expired = ms_list_expired\<rparr>"

text \<open>What the trait promises: the store behaves like the list of its records in submission order.\<close>

definition put_task :: "task_info \<Rightarrow> task_info list \<Rightarrow> task_info list" where
  "put_task t ts =
     (if ti_task_id t \<in> ti_task_id ` set ts
      then map (\<lambda>u. if ti_task_id u = ti_task_id t then t else u) ts else ts @ [t])"

definition find_task :: "string \<Rightarrow> task_info list \<Rightarrow> task_info option" where
  "find_task i ts = List.find (\<lambda>t. ti_task_id t = i) ts"

locale faithful_store =
  fixes ops :: "'s task_store"
    and ok :: "'s \<Rightarrow> bool"
    and tasks :: "'s \<Rightarrow> task_info list"
  assumes ids: "ok s \<Longrightarrow> distinct (map ti_task_id (tasks s))"
    and get: "ok s \<Longrightarrow> so_get ops i s = Inr (find_task i (tasks s))"
    and list: "ok s \<Longrightarrow> so_list ops status s =
      Inr (filter (\<lambda>t. case status of Some st \<Rightarrow> ti_status t = st | None \<Rightarrow> True) (tasks s))"
    and expired: "ok s \<Longrightarrow> so_list_expired ops before s = Inr (filter (has_expired before) (tasks s))"
    and save: "ok s \<Longrightarrow> so_save ops t s = (e, s') \<Longrightarrow> e = None \<and> ok s' \<and> tasks s' = put_task t (tasks s)"
    and delete: "ok s \<Longrightarrow> so_delete ops i s = (e, s') \<Longrightarrow>
      e = None \<and> ok s' \<and> tasks s' = filter (\<lambda>t. ti_task_id t \<noteq> i) (tasks s)"


subsection \<open>The in-memory store keeps submission order\<close>

lemma map_ids_put_task:
  "map ti_task_id (put_task t ts) =
     (if ti_task_id t \<in> ti_task_id ` set ts then map ti_task_id ts else map ti_task_id ts @ [ti_task_id t])"
  by (simp add: put_task_def)

lemma ids_put_task: "ti_task_id ` set (put_task t ts) = insert (ti_task_id t) (ti_task_id ` set ts)"
proof -
  have "set (map ti_task_id (put_task t ts)) = insert (ti_task_id t) (set (map ti_task_id ts))"
    unfolding map_ids_put_task by auto
  then show ?thesis by simp
qed

lemma distinct_put_task: "distinct (map ti_task_id ts) \<Longrightarrow> distinct (map ti_task_id (put_task t ts))"
  unfolding map_ids_put_task by auto

lemma find_task_Some:
  "distinct (map ti_task_id ts) \<Longrightarrow> find_task i ts = Some t \<longleftrightarrow> t \<in> set ts \<and> ti_task_id t = i"
  by (induction ts) (force simp: find_task_def)+

lemma find_task_None: "find_task i ts = None \<longleftrightarrow> i \<notin> ti_task_id ` set ts"
  by (induction ts) (auto simp: find_task_def)

lemma find_task_id: "find_task i ts = Some t \<Longrightarrow> ti_task_id t = i"
  by (induction ts) (auto simp: find_task_def split: if_splits)

lemma find_task_put: "find_task i (put_task t ts) = (if i = ti_task_id t then Some t else find_task i ts)"
proof -
  have "find_task i (map (\<lambda>u. if ti_task_id u = ti_task_id t then t else u) us) =
      (if i = ti_task_id t then (if i \<in> ti_task_id ` set us then Some t else None) else find_task i us)" for us
    by (induction us) (auto simp: find_task_def)
  moreover have "find_task i (us @ [t]) =
      (case find_task i us of Some u \<Rightarrow> Some u | None \<Rightarrow> if ti_task_id t = i then Some t else None)" for us
    by (induction us) (auto simp: find_task_def)
  ultimately show ?thesis
    using find_task_None [of i ts]
    by (cases "find_task i ts"; cases "i = ti_task_id t") (simp_all add: put_task_def)
qed

lemma find_task_filter:
  "find_task i (filter (\<lambda>t. ti_task_id t \<noteq> j) ts) = (if i = j then None else find_task i ts)"
  by (induction ts) (auto simp: find_task_def)

lemma put_task_new: "ti_task_id t \<notin> ti_task_id ` set ts \<Longrightarrow> put_task t ts = ts @ [t]"
  by (simp add: put_task_def)

definition ms_records :: "memory_store \<Rightarrow> task_info list" where
  "ms_records m = map snd (sort_key fst (map snd (ms_tasks m)))"

definition ms_ok :: "memory_store \<Rightarrow> bool" where
  "ms_ok m \<longleftrightarrow> bt_ok (ms_tasks m) \<and> (\<forall>(k, q, t) \<in> set (ms_tasks m). k = ti_task_id t \<and> q < ms_next_seq m) \<and>
     distinct (map (\<lambda>e. fst (snd e)) (ms_tasks m))"

lemma sort_key_unique:
  assumes "distinct (map f xs)" "distinct (map f ys)" "sorted (map f ys)" "set xs = set ys"
  shows "sort_key f xs = ys"
proof (rule map_sorted_distinct_set_unique)
  show "inj_on f (set (sort_key f xs) \<union> set ys)" using assms(2,4) by (simp add: distinct_map)
  have "mset (map f (sort_key f xs)) = mset (map f xs)" by simp
  then show "distinct (map f (sort_key f xs))" using assms(1) mset_eq_imp_distinct_iff by blast
qed (use assms in simp_all)

lemma ms_collect_records: "ms_collect keep m = filter keep (ms_records m)"
proof -
  have "ms_collect keep m = map snd (filter (\<lambda>e. keep (snd e)) (sort_key fst (map snd (ms_tasks m))))"
    unfolding ms_collect_def by (simp only: filter_sort)
  then show ?thesis by (simp add: ms_records_def filter_map comp_def)
qed

lemma ms_records_ids:
  assumes "ms_ok m"
  shows "ti_task_id ` set (ms_records m) = fst ` set (ms_tasks m)" "distinct (map ti_task_id (ms_records m))"
proof -
  have keys: "map (\<lambda>e. ti_task_id (snd (snd e))) (ms_tasks m) = map fst (ms_tasks m)"
    using assms by (auto simp: ms_ok_def)
  then show "ti_task_id ` set (ms_records m) = fst ` set (ms_tasks m)"
    by (auto simp: ms_records_def image_image map_eq_conv image_iff)
  have "mset (map ti_task_id (ms_records m)) = mset (map (\<lambda>e. ti_task_id (snd (snd e))) (ms_tasks m))"
    by (simp add: ms_records_def multiset.map_comp comp_def)
  then have "mset (map ti_task_id (ms_records m)) = mset (map fst (ms_tasks m))" unfolding keys .
  then show "distinct (map ti_task_id (ms_records m))"
    using assms bt_ok_distinct mset_eq_imp_distinct_iff unfolding ms_ok_def by metis
qed


lemma set_ms_records: "set (ms_records m) = (\<lambda>e. snd (snd e)) ` set (ms_tasks m)"
  by (simp add: ms_records_def image_image)

lemma ms_find:
  assumes "ms_ok m"
  shows "map_option snd (bt_get (ms_tasks m) i) = find_task i (ms_records m)"
proof (cases "bt_get (ms_tasks m) i")
  case None
  with assms show ?thesis
    by (simp add: find_task_None [THEN iffD2] ms_records_ids bt_get_None_iff)
next
  case (Some e)
  then have "(i, e) \<in> set (ms_tasks m)" using assms by (simp add: bt_get_entry ms_ok_def)
  with assms have "snd e \<in> set (ms_records m) \<and> ti_task_id (snd e) = i"
    by (force simp: ms_ok_def set_ms_records)
  then have "find_task i (ms_records m) = Some (snd e)"
    using find_task_Some [OF ms_records_ids(2) [OF assms]] by blast
  with Some show ?thesis by simp
qed

text \<open>The sequence numbers are distinct, so the sorted list is determined by its elements.\<close>

lemma ms_sorted_unique:
  assumes "ms_ok m" "distinct (map fst es)" "sorted (map fst es)" "set es = snd ` set (ms_tasks m)"
  shows "ms_records m = map snd es"
  unfolding ms_records_def
  by (rule arg_cong [where f = "map snd"], rule sort_key_unique) (use assms in \<open>simp_all add: ms_ok_def comp_def\<close>)

lemma ms_entries:
  assumes "ms_ok m"
  obtains es where "distinct (map fst es)" "sorted (map fst es)" "set es = snd ` set (ms_tasks m)"
    "ms_records m = map snd es"
proof
  let ?es = "sort_key fst (map snd (ms_tasks m))"
  have "mset (map fst ?es) = mset (map (\<lambda>e. fst (snd e)) (ms_tasks m))"
    by (simp add: multiset.map_comp comp_def)
  then show "distinct (map fst ?es)"
    using assms mset_eq_imp_distinct_iff unfolding ms_ok_def by metis
qed (simp_all add: ms_records_def)


lemma ms_save_faithful:
  assumes ok: "ms_ok m" and save: "ms_save t m = (e, m')"
  shows "e = None \<and> ms_ok m' \<and> ms_records m' = put_task t (ms_records m)"
proof (cases "bt_get (ms_tasks m) (ti_task_id t)")
  case None
  let ?n = "ms_next_seq m"
  have e: "e = None" and m': "m' = m\<lparr>ms_tasks := bt_insert (ti_task_id t) (?n, t) (ms_tasks m), ms_next_seq := ?n + 1\<rparr>"
    using save None by (auto simp: ms_save_def)
  have bt: "bt_ok (ms_tasks m)" using ok by (simp add: ms_ok_def)
  have new: "ti_task_id t \<notin> fst ` set (ms_tasks m)" using None by (simp add: bt_get_None_iff)
  then have set': "set (ms_tasks m') = insert (ti_task_id t, ?n, t) (set (ms_tasks m))"
  proof -
    have "{x \<in> set (ms_tasks m). fst x \<noteq> ti_task_id t} = set (ms_tasks m)" using new by force
    then show ?thesis using bt by (simp add: m' set_bt_insert)
  qed
  have seqs: "q < ?n" if "q \<in> (\<lambda>e. fst (snd e)) ` set (ms_tasks m)" for q
    using ok that by (auto simp: ms_ok_def)
  have "distinct (map (\<lambda>e. fst (snd e)) (bt_insert k (n, t) mm))"
    if "distinct (map (\<lambda>e. fst (snd e)) mm)" "n \<notin> (\<lambda>e. fst (snd e)) ` set mm" "k \<notin> fst ` set mm" "bt_ok mm"
    for k n mm
  proof -
    have "mset (bt_insert k (n, t) mm) = add_mset (k, n, t) (mset mm)"
      using that(3) by (induction mm) auto
    then have "mset (map (\<lambda>e. fst (snd e)) (bt_insert k (n, t) mm)) = mset (n # map (\<lambda>e. fst (snd e)) mm)"
      by simp
    moreover have "distinct (n # map (\<lambda>e. fst (snd e)) mm)" using that(1,2) by auto
    ultimately show ?thesis using mset_eq_imp_distinct_iff by blast
  qed
  moreover have "?n \<notin> (\<lambda>e. fst (snd e)) ` set (ms_tasks m)" using seqs by blast
  ultimately have ok': "ms_ok m'"
    using ok new bt set' by (auto simp: ms_ok_def m' bt.ok_ins less_Suc_eq)
  obtain es where es: "distinct (map fst es)" "sorted (map fst es)" "set es = snd ` set (ms_tasks m)"
      "ms_records m = map snd es"
    using ms_entries [OF ok] .
  have below: "fst x < ?n" if "x \<in> set es" for x using seqs es(3) that by auto
  have "?n \<notin> fst ` set es" using below by force
  moreover have "\<forall>x \<in> set es. fst x \<le> ?n" using below less_imp_le by blast
  ultimately have "ms_records m' = map snd (es @ [(?n, t)])"
    by (intro ms_sorted_unique [OF ok']) (use es(1,2,3) in \<open>simp_all add: sorted_append set'\<close>)
  moreover have "ti_task_id t \<notin> ti_task_id ` set (ms_records m)"
    using new ms_records_ids(1) [OF ok] by simp
  ultimately show ?thesis using e ok' es(4) by (simp add: put_task_new)
next
  case (Some p)
  then obtain q u where p: "bt_get (ms_tasks m) (ti_task_id t) = Some (q, u)" by (cases p) auto
  have e: "e = None" and m': "m' = m\<lparr>ms_tasks := bt_insert (ti_task_id t) (q, t) (ms_tasks m)\<rparr>"
    using save p by (auto simp: ms_save_def)
  have bt: "bt_ok (ms_tasks m)" using ok by (simp add: ms_ok_def)
  have inm: "(ti_task_id t, q, u) \<in> set (ms_tasks m)" using p bt by (simp add: bt_get_entry)
  have uid: "ti_task_id u = ti_task_id t" using ok inm by (auto simp: ms_ok_def)
  have "map (\<lambda>e. fst (snd e)) (bt_insert k (n, t) mm) = map (\<lambda>e. fst (snd e)) mm"
    if "(k, n, u) \<in> set mm" "bt_ok mm" for k n mm
    using that by (induction mm) (fastforce simp: bt_ok_def)+
  then have seqs: "map (\<lambda>e. fst (snd e)) (ms_tasks m') = map (\<lambda>e. fst (snd e)) (ms_tasks m)"
    using inm bt by (simp add: m')
  have set': "set (ms_tasks m') = insert (ti_task_id t, q, t) {x \<in> set (ms_tasks m). fst x \<noteq> ti_task_id t}"
    using bt by (simp add: m' set_bt_insert)
  have ok': "ms_ok m'"
    using ok seqs bt set' inm unfolding ms_ok_def by (auto simp: m' bt.ok_ins)
  let ?r = "\<lambda>x. (fst x, if ti_task_id (snd x) = ti_task_id t then t else snd x)"
  obtain es where es: "distinct (map fst es)" "sorted (map fst es)" "set es = snd ` set (ms_tasks m)"
      "ms_records m = map snd es"
    using ms_entries [OF ok] .
  have only: "x = (q, u)" if "x \<in> set es" "ti_task_id (snd x) = ti_task_id t" for x
  proof -
    have "x \<in> snd ` set (ms_tasks m)" using that(1) es(3) by simp
    then obtain k where "(k, x) \<in> set (ms_tasks m)" by force
    with that(2) ok have "(ti_task_id t, x) \<in> set (ms_tasks m)" by (auto simp: ms_ok_def)
    with p bt show ?thesis by (metis bt_get_entry option.inject)
  qed
  have "?r ` set es = snd ` set (ms_tasks m')"
  proof -
    have key: "fst x = ti_task_id (snd (snd x))" if "x \<in> set (ms_tasks m)" for x using ok that by (auto simp: ms_ok_def)
    have "(q, t) \<in> ?r ` set es" using inm es(3) uid by (force simp: image_iff)
    moreover have "?r x \<in> insert (q, t) (snd ` {x \<in> set (ms_tasks m). fst x \<noteq> ti_task_id t})" if x: "x \<in> set es" for x
    proof (cases "ti_task_id (snd x) = ti_task_id t")
      case True
      with only [OF x] show ?thesis by simp
    next
      case False
      from x es(3) obtain y where "y \<in> set (ms_tasks m)" "x = snd y" by auto
      with key False show ?thesis by auto
    qed
    moreover have "snd x \<in> ?r ` set es" if x: "x \<in> set (ms_tasks m)" "fst x \<noteq> ti_task_id t" for x
    proof
      show "snd x \<in> set es" using es(3) x by simp
      show "snd x = ?r (snd x)" using key [OF x(1)] x(2) by simp
    qed
    ultimately show ?thesis unfolding set' by auto
  qed
  then have "ms_records m' = map snd (map ?r es)"
    by (intro ms_sorted_unique [OF ok']) (use es(1,2) in \<open>simp_all add: comp_def\<close>)
  moreover have "ti_task_id t \<in> ti_task_id ` set (ms_records m)"
    using inm ms_records_ids(1) [OF ok] by force
  ultimately show ?thesis using e ok' es(4) by (simp add: put_task_def comp_def)
qed


lemma ms_delete_faithful:
  assumes ok: "ms_ok m" and del: "ms_delete i m = (e, m')"
  shows "e = None \<and> ms_ok m' \<and> ms_records m' = filter (\<lambda>t. ti_task_id t \<noteq> i) (ms_records m)"
proof -
  have e: "e = None" and m': "m' = m\<lparr>ms_tasks := bt_remove i (ms_tasks m)\<rparr>"
    using del by (auto simp: ms_delete_def)
  have ok': "ms_ok m'"
    using ok by (auto simp: ms_ok_def m' bt.ok_del) (auto simp: bt_remove_def distinct_map_filter)
  have key: "fst x = ti_task_id (snd (snd x))" if "x \<in> set (ms_tasks m)" for x
    using ok that by (auto simp: ms_ok_def)
  have "map snd (ms_tasks m') = filter (\<lambda>x. ti_task_id (snd x) \<noteq> i) (map snd (ms_tasks m))"
    by (simp add: m' bt_remove_def filter_map comp_def key cong: filter_cong)
  then have "ms_records m' = map snd (filter (\<lambda>x. ti_task_id (snd x) \<noteq> i) (sort_key fst (map snd (ms_tasks m))))"
    unfolding ms_records_def by (simp only: filter_sort)
  then have "ms_records m' = filter (\<lambda>t. ti_task_id t \<noteq> i) (ms_records m)"
    by (simp add: ms_records_def filter_map comp_def)
  with e ok' show ?thesis by simp
qed

interpretation mem: faithful_store memory_ops ms_ok ms_records
proof
  show "distinct (map ti_task_id (ms_records s))" if "ms_ok s" for s
    using that by (rule ms_records_ids(2))
  show "e = None \<and> ms_ok s' \<and> ms_records s' = put_task t (ms_records s)"
    if "ms_ok s" "so_save memory_ops t s = (e, s')" for s t e s'
    using that by (intro ms_save_faithful) (simp_all add: memory_ops_def)
  show "e = None \<and> ms_ok s' \<and> ms_records s' = filter (\<lambda>t. ti_task_id t \<noteq> i) (ms_records s)"
    if "ms_ok s" "so_delete memory_ops i s = (e, s')" for s i e s'
    using that by (intro ms_delete_faithful) (simp_all add: memory_ops_def)
qed (simp_all add: memory_ops_def ms_get_def ms_find ms_list_def ms_list_expired_def ms_collect_records)

lemma memory_store_new_ok [simp]: "ms_ok memory_store_new" "ms_records memory_store_new = []"
  by (simp_all add: ms_ok_def ms_records_def memory_store_new_def)

subsection \<open>Retry delays\<close>

text \<open>\<open>f64\<close> with its special values; the rounding operations of the library are a parameter.\<close>

datatype f64 = Finite rat | PosInfinity | NegInfinity | NotANumber

record float_ops =
  fo_of_u64 :: "nat \<Rightarrow> f64"
  fo_mul :: "f64 \<Rightarrow> f64 \<Rightarrow> f64"
  fo_powf :: "f64 \<Rightarrow> f64 \<Rightarrow> f64"

fun f64_min :: "f64 \<Rightarrow> f64 \<Rightarrow> f64" where
  "f64_min NotANumber y = y"
| "f64_min x NotANumber = x"
| "f64_min NegInfinity y = NegInfinity"
| "f64_min x NegInfinity = NegInfinity"
| "f64_min PosInfinity y = y"
| "f64_min x PosInfinity = x"
| "f64_min (Finite x) (Finite y) = Finite (min x y)"

record retry_config =
  rc_max_retries :: nat
  rc_retry_delay_ms :: nat
  rc_backoff_multiplier :: f64
  rc_max_retry_delay_ms :: nat

definition retry_config_default :: retry_config where
  "retry_config_default = \<lparr>rc_max_retries = 0, rc_retry_delay_ms = 1000, rc_backoff_multiplier = Finite 2,
     rc_max_retry_delay_ms = 60000\<rparr>"

text \<open>\<open>as u64\<close> truncates and saturates.\<close>

definition compute_delay_ms :: "float_ops \<Rightarrow> retry_config \<Rightarrow> nat \<Rightarrow> nat" where
  "compute_delay_ms fo cfg attempt =
     (let raw = fo_mul fo (fo_of_u64 fo (rc_retry_delay_ms cfg))
            (fo_powf fo (rc_backoff_multiplier cfg) (Finite (of_nat attempt)));
          capped = f64_min raw (fo_of_u64 fo (rc_max_retry_delay_ms cfg))
      in case capped of
           Finite x \<Rightarrow> if x \<le> 0 then 0 else min (2 ^ 64 - 1) (nat \<lfloor>x\<rfloor>)
         | _ \<Rightarrow> 0)"

lemma f64_min_le: "f64_min x (Finite c) = Finite y \<Longrightarrow> y \<le> c"
  by (cases x) auto


subsection \<open>The manager's operations on its store\<close>

text \<open>\<open>tm_handles\<close> and \<open>tm_tokens\<close> are the keys of the two maps of the manager: the tasks with a
  registered join handle, and those with an execution token.\<close>

record 's manager =
  mg_store :: 's
  mg_handles :: "string set"
  mg_tokens :: "string set"
  mg_max_tasks :: nat

definition active_count :: "task_info list \<Rightarrow> nat" where
  "active_count ts = length (filter (\<lambda>t. is_active (ti_status t)) ts)"

definition check_capacity_and_save ::
  "'s task_store \<Rightarrow> nat \<Rightarrow> task_info \<Rightarrow> 's \<Rightarrow> module_error option \<times> 's" where
  "check_capacity_and_save ops max_tasks info s =
     (case so_list ops None s of
        Inl e \<Rightarrow> (Some e, s)
      | Inr current \<Rightarrow>
          if max_tasks \<le> active_count current then (Some (module_error_new TaskLimitExceeded), s)
          else so_save ops info s)"

definition get_status :: "'s task_store \<Rightarrow> string \<Rightarrow> 's manager \<Rightarrow> module_error + task_info option" where
  "get_status ops i mg = so_get ops i (mg_store mg)"

definition get_result :: "'s task_store \<Rightarrow> string \<Rightarrow> 's manager \<Rightarrow> module_error + json" where
  "get_result ops i mg =
     (case so_get ops i (mg_store mg) of
        Inl e \<Rightarrow> Inl e
      | Inr None \<Rightarrow> Inl (module_error_new GeneralInternalError)
      | Inr (Some info) \<Rightarrow>
          if ti_status info \<noteq> TaskCompleted then Inl (module_error_new GeneralInternalError)
          else Inr (case ti_result info of Some v \<Rightarrow> v | None \<Rightarrow> JNull))"

definition list_tasks :: "'s task_store \<Rightarrow> task_status option \<Rightarrow> 's manager \<Rightarrow> module_error + task_info list" where
  "list_tasks ops status mg = so_list ops status (mg_store mg)"

definition task_count :: "'s task_store \<Rightarrow> 's manager \<Rightarrow> module_error + nat" where
  "task_count ops mg =
     (case so_list ops None (mg_store mg) of Inl e \<Rightarrow> Inl e | Inr ts \<Rightarrow> Inr (length ts))"

text \<open>The sweep over old terminal records. \<open>busy\<close> says which tokens still have running executions.\<close>

definition cleanup_due :: "rat \<Rightarrow> rat \<Rightarrow> task_info \<Rightarrow> bool" where
  "cleanup_due now max_age t \<longleftrightarrow> is_terminal (ti_status t) \<and>
     max_age \<le> now - (case ti_completed_at t of Some ts \<Rightarrow> ts | None \<Rightarrow> ti_submitted_at t)"

fun cleanup_loop ::
  "'s task_store \<Rightarrow> (string \<Rightarrow> bool) \<Rightarrow> string list \<Rightarrow> 's manager \<Rightarrow> module_error option \<times> 's manager" where
  "cleanup_loop ops busy [] mg = (None, mg)"
| "cleanup_loop ops busy (i # ids) mg =
     (case so_delete ops i (mg_store mg) of
        (Some e, s) \<Rightarrow> (Some e, mg\<lparr>mg_store := s\<rparr>)
      | (None, s) \<Rightarrow>
          cleanup_loop ops busy ids
            (mg\<lparr>mg_store := s, mg_handles := mg_handles mg - {i},
                mg_tokens := {j \<in> mg_tokens mg. j \<noteq> i \<or> busy j}\<rparr>))"

definition cleanup ::
  "'s task_store \<Rightarrow> (string \<Rightarrow> bool) \<Rightarrow> rat \<Rightarrow> rat \<Rightarrow> 's manager \<Rightarrow> (module_error + nat) \<times> 's manager" where
  "cleanup ops busy now max_age mg =
     (case so_list ops None (mg_store mg) of
        Inl e \<Rightarrow> (Inl e, mg)
      | Inr ts \<Rightarrow>
          let to_remove = map ti_task_id (filter (cleanup_due now max_age) ts) in
          (case cleanup_loop ops busy to_remove mg of
             (Some e, mg') \<Rightarrow> (Inl e, mg')
           | (None, mg') \<Rightarrow> (Inr (length to_remove), mg')))"

text \<open>Cancelling a task stops its worker and waits for it; \<open>drained i\<close> is what happens to the store
  meanwhile. A task that has no handle and no token here has nothing to stop.\<close>

definition stop_local_task :: "(string \<Rightarrow> 's \<Rightarrow> 's) \<Rightarrow> string \<Rightarrow> 's manager \<Rightarrow> 's manager" where
  "stop_local_task drained i mg =
     mg\<lparr>mg_store := (if i \<in> mg_handles mg \<union> mg_tokens mg then drained i (mg_store mg) else mg_store mg),
        mg_handles := mg_handles mg - {i}, mg_tokens := mg_tokens mg - {i}\<rparr>"

definition record_cancelled ::
  "'s task_store \<Rightarrow> rat \<Rightarrow> string \<Rightarrow> 's manager \<Rightarrow> (module_error + bool) \<times> 's manager" where
  "record_cancelled ops now i mg =
     (case so_get ops i (mg_store mg) of
        Inl e \<Rightarrow> (Inl e, mg)
      | Inr None \<Rightarrow> (Inr False, mg)
      | Inr (Some updated) \<Rightarrow>
          if \<not> is_active (ti_status updated) then (Inr False, mg)
          else (case so_save ops (updated\<lparr>ti_status := TaskCancelled, ti_completed_at := Some now\<rparr>) (mg_store mg) of
                  (Some e, s) \<Rightarrow> (Inl e, mg\<lparr>mg_store := s\<rparr>)
                | (None, s) \<Rightarrow> (Inr True, mg\<lparr>mg_store := s\<rparr>)))"

definition task_cancel ::
  "'s task_store \<Rightarrow> (string \<Rightarrow> 's \<Rightarrow> 's) \<Rightarrow> rat \<Rightarrow> string \<Rightarrow> 's manager \<Rightarrow> (module_error + bool) \<times> 's manager" where
  "task_cancel ops drained now i mg =
     (case so_get ops i (mg_store mg) of
        Inl e \<Rightarrow> (Inl e, mg)
      | Inr None \<Rightarrow> (Inr False, mg)
      | Inr (Some info) \<Rightarrow>
          if \<not> is_active (ti_status info) then (Inr False, mg)
          else record_cancelled ops now i (stop_local_task drained i mg))"

fun shutdown_loop ::
  "'s task_store \<Rightarrow> (string \<Rightarrow> 's \<Rightarrow> 's) \<Rightarrow> rat \<Rightarrow> string list \<Rightarrow> module_error option \<times> 's manager
     \<Rightarrow> module_error option \<times> 's manager" where
  "shutdown_loop ops drained now [] (first, mg) = (first, mg)"
| "shutdown_loop ops drained now (i # ids) (first, mg) =
     (case task_cancel ops drained now i mg of
        (r, mg1) \<Rightarrow>
          shutdown_loop ops drained now ids
            (case (first, r) of (None, Inl e) \<Rightarrow> Some e | _ \<Rightarrow> first, stop_local_task drained i mg1))"

definition shutdown_ids :: "'s task_store \<Rightarrow> 's manager \<Rightarrow> string set" where
  "shutdown_ids ops mg = mg_handles mg \<union> mg_tokens mg \<union>
     (case so_list ops None (mg_store mg) of
        Inl e \<Rightarrow> {}
      | Inr ts \<Rightarrow> ti_task_id ` {t \<in> set ts. is_active (ti_status t)})"

text \<open>What \<open>shutdown\<close> does after \<open>stop_reaper\<close>.\<close>

definition shutdown_tasks ::
  "'s task_store \<Rightarrow> (string \<Rightarrow> 's \<Rightarrow> 's) \<Rightarrow> rat \<Rightarrow> 's manager \<Rightarrow> module_error option \<times> 's manager" where
  "shutdown_tasks ops drained now mg =
     shutdown_loop ops drained now (sorted_list_of_set (shutdown_ids ops mg))
       (case so_list ops None (mg_store mg) of Inl e \<Rightarrow> Some e | Inr _ \<Rightarrow> None, mg)"


subsection \<open>What the operations promise\<close>

definition active_ids :: "task_info list \<Rightarrow> string set" where
  "active_ids ts = {i. \<exists>t. find_task i ts = Some t \<and> is_active (ti_status t)}"

lemma active_ids_put:
  "active_ids (put_task t ts) =
     (if is_active (ti_status t) then insert (ti_task_id t) (active_ids ts) else active_ids ts - {ti_task_id t})"
  by (auto simp: active_ids_def find_task_put)

lemma active_ids_set:
  "distinct (map ti_task_id ts) \<Longrightarrow> active_ids ts = ti_task_id ` {t \<in> set ts. is_active (ti_status t)}"
  by (auto simp: active_ids_def find_task_Some)

lemma active_count_card:
  assumes "distinct (map ti_task_id ts)"
  shows "active_count ts = card (active_ids ts)"
proof -
  have "distinct (map ti_task_id (filter (\<lambda>t. is_active (ti_status t)) ts))"
    using assms by (simp add: distinct_map_filter)
  then have "card (set (map ti_task_id (filter (\<lambda>t. is_active (ti_status t)) ts))) = active_count ts"
    by (simp only: distinct_card active_count_def length_map)
  moreover have "set (map ti_task_id (filter (\<lambda>t. is_active (ti_status t)) ts)) = active_ids ts"
    using active_ids_set [OF assms] by auto
  ultimately show ?thesis by simp
qed

text \<open>A store whose writes fail for some records.\<close>

definition flaky :: "module_error \<Rightarrow> string set \<Rightarrow> 's task_store \<Rightarrow> 's task_store" where
  "flaky err bad ops = ops\<lparr>so_save := (\<lambda>t s. if ti_task_id t \<in> bad then (Some err, s) else so_save ops t s)\<rparr>"

lemma flaky_simps [simp]:
  "so_get (flaky err bad ops) = so_get ops" "so_list (flaky err bad ops) = so_list ops"
  "so_delete (flaky err bad ops) = so_delete ops"
  "so_save (flaky err bad ops) t s = (if ti_task_id t \<in> bad then (Some err, s) else so_save ops t s)"
  by (simp_all add: flaky_def)

lemma flaky_none [simp]: "flaky err {} ops = ops"
  by (simp add: flaky_def)

lemma stop_local_task_simps [simp]:
  "mg_handles (stop_local_task d i mg) = mg_handles mg - {i}"
  "mg_tokens (stop_local_task d i mg) = mg_tokens mg - {i}"
  by (simp_all add: stop_local_task_def)

lemma task_cancel_handles:
  "task_cancel ops d now i mg = (r, mg') \<Longrightarrow>
     mg_handles mg' - {i} = mg_handles mg - {i} \<and> mg_tokens mg' - {i} = mg_tokens mg - {i}"
  by (auto simp: task_cancel_def record_cancelled_def split: sum.splits option.splits if_splits prod.splits)

lemma shutdown_loop_handles:
  "shutdown_loop ops d now ids (fe, mg) = (fe', mg') \<Longrightarrow>
     mg_handles mg' = mg_handles mg - set ids \<and> mg_tokens mg' = mg_tokens mg - set ids"
proof (induction ids arbitrary: fe mg)
  case Nil
  then show ?case by simp
next
  case (Cons i ids)
  obtain r mg1 where c: "task_cancel ops d now i mg = (r, mg1)" by fastforce
  with Cons.prems have "mg_handles mg' = mg_handles (stop_local_task d i mg1) - set ids \<and>
      mg_tokens mg' = mg_tokens (stop_local_task d i mg1) - set ids"
    by (intro Cons.IH) simp
  with task_cancel_handles [OF c] show ?case by auto
qed

context faithful_store
begin

lemma capacity_checked:
  assumes "ok s" "check_capacity_and_save ops max_tasks info s = (e, s')" "is_active (ti_status info)"
  shows "e = None \<longleftrightarrow> active_count (tasks s) < max_tasks"
    and "e = None \<Longrightarrow> tasks s' = put_task info (tasks s)" "e \<noteq> None \<Longrightarrow> s' = s"
proof -
  obtain e1 s1 where sv: "so_save ops info s = (e1, s1)" by fastforce
  have "e = None \<and> tasks s' = put_task info (tasks s) \<and> active_count (tasks s) < max_tasks \<or>
      e \<noteq> None \<and> s' = s \<and> \<not> active_count (tasks s) < max_tasks"
    using assms(1,2) sv save [OF assms(1) sv] by (auto simp: check_capacity_and_save_def list split: if_splits)
  then show "e = None \<longleftrightarrow> active_count (tasks s) < max_tasks"
    "e = None \<Longrightarrow> tasks s' = put_task info (tasks s)" "e \<noteq> None \<Longrightarrow> s' = s"
    by auto
qed

lemma stop_ok:
  assumes "ok (mg_store mg)" "\<And>i s. ok s \<Longrightarrow> ok (d i s) \<and> active_ids (tasks (d i s)) \<subseteq> active_ids (tasks s)"
  shows "ok (mg_store (stop_local_task d i mg))"
    and "active_ids (tasks (mg_store (stop_local_task d i mg))) \<subseteq> active_ids (tasks (mg_store mg))"
  using assms by (auto simp: stop_local_task_def)

lemma record_cancelled_flaky:
  assumes ok: "ok (mg_store mg)" and c: "record_cancelled (flaky err bad ops) now i mg = (r, mg')"
  shows "ok (mg_store mg') \<and> active_ids (tasks (mg_store mg')) \<subseteq> active_ids (tasks (mg_store mg)) - ({i} - bad) \<and>
    (case r of Inl e \<Rightarrow> e = err \<and> i \<in> bad \<and> i \<in> active_ids (tasks (mg_store mg'))
             | Inr _ \<Rightarrow> i \<notin> active_ids (tasks (mg_store mg')))"
proof (cases "i \<in> active_ids (tasks (mg_store mg))")
  case False
  then have "r = Inr False \<and> mg' = mg"
    using c by (auto simp: record_cancelled_def get [OF ok] active_ids_def split: option.splits)
  with ok False show ?thesis by auto
next
  case True
  then obtain t where t: "find_task i (tasks (mg_store mg)) = Some t" "is_active (ti_status t)"
    by (auto simp: active_ids_def)
  have i: "ti_task_id t = i" using t(1) by (rule find_task_id)
  let ?t = "t\<lparr>ti_status := TaskCancelled, ti_completed_at := Some now\<rparr>"
  obtain e s' where sv: "so_save ops ?t (mg_store mg) = (e, s')" by fastforce
  have s': "e = None \<and> ok s' \<and> tasks s' = put_task ?t (tasks (mg_store mg))" using ok sv by (rule save)
  show ?thesis
  proof (cases "i \<in> bad")
    case True
    then have "r = Inl err \<and> mg_store mg' = mg_store mg"
      using c t i by (auto simp: record_cancelled_def get [OF ok])
    with ok True \<open>i \<in> active_ids _\<close> show ?thesis by auto
  next
    case False
    then have "r = Inr True \<and> mg_store mg' = s'"
      using c t i sv s' by (auto simp: record_cancelled_def get [OF ok])
    with s' i show ?thesis by (auto simp: active_ids_put is_active_def)
  qed
qed

lemma cancel_flaky:
  assumes ok: "ok (mg_store mg)"
    and d: "\<And>i s. ok s \<Longrightarrow> ok (d i s) \<and> active_ids (tasks (d i s)) \<subseteq> active_ids (tasks s)"
    and c: "task_cancel (flaky err bad ops) d now i mg = (r, mg')"
  shows "ok (mg_store mg') \<and> active_ids (tasks (mg_store mg')) \<subseteq> active_ids (tasks (mg_store mg)) - ({i} - bad) \<and>
    (case r of Inl e \<Rightarrow> e = err \<and> i \<in> bad \<and> i \<in> active_ids (tasks (mg_store mg'))
             | Inr _ \<Rightarrow> i \<notin> active_ids (tasks (mg_store mg')))"
proof (cases "i \<in> active_ids (tasks (mg_store mg))")
  case False
  then have "r = Inr False \<and> mg' = mg"
    using c by (auto simp: task_cancel_def get [OF ok] active_ids_def split: option.splits)
  with ok False show ?thesis by auto
next
  case True
  then have "record_cancelled (flaky err bad ops) now i (stop_local_task d i mg) = (r, mg')"
    using c by (auto simp: task_cancel_def get [OF ok] active_ids_def)
  moreover have "ok (mg_store (stop_local_task d i mg))"
    "active_ids (tasks (mg_store (stop_local_task d i mg))) \<subseteq> active_ids (tasks (mg_store mg))"
    using stop_ok [where d = d, OF ok d] by blast+
  ultimately show ?thesis
    using record_cancelled_flaky [of "stop_local_task d i mg"] by (fastforce split: sum.splits)
qed

lemma shutdown_loop_flaky:
  assumes "ok (mg_store mg)"
    and d: "\<And>i s. ok s \<Longrightarrow> ok (d i s) \<and> active_ids (tasks (d i s)) \<subseteq> active_ids (tasks s)"
    and "shutdown_loop (flaky err bad ops) d now ids (fe, mg) = (fe', mg')"
  shows "ok (mg_store mg') \<and>
     active_ids (tasks (mg_store mg')) \<subseteq> active_ids (tasks (mg_store mg)) - (set ids - bad) \<and>
     fe' \<in> {fe, Some err} \<and> (fe \<noteq> None \<longrightarrow> fe' = fe) \<and>
     (fe' = None \<longrightarrow> active_ids (tasks (mg_store mg')) \<subseteq> active_ids (tasks (mg_store mg)) - set ids)"
  using assms(1,3)
proof (induction ids arbitrary: fe mg)
  case Nil
  then show ?case by simp
next
  case (Cons i ids)
  obtain r mg1 where c: "task_cancel (flaky err bad ops) d now i mg = (r, mg1)" by fastforce
  note c' = cancel_flaky [OF Cons.prems(1) d c]
  let ?mg2 = "stop_local_task d i mg1" and ?fe = "case (fe, r) of (None, Inl e) \<Rightarrow> Some e | _ \<Rightarrow> fe"
  have s2: "ok (mg_store ?mg2)" "active_ids (tasks (mg_store ?mg2)) \<subseteq> active_ids (tasks (mg_store mg1))"
    using stop_ok c' d by blast+
  have "shutdown_loop (flaky err bad ops) d now ids (?fe, ?mg2) = (fe', mg')"
    using Cons.prems(2) c by simp
  note IH = Cons.IH [OF s2(1) this]
  have fe: "?fe \<in> {fe, Some err} \<and> (fe \<noteq> None \<longrightarrow> ?fe = fe) \<and>
      (?fe = None \<longrightarrow> i \<notin> active_ids (tasks (mg_store mg1)))"
    using c' by (auto split: sum.splits option.splits)
  from IH fe c' s2(2) show ?case by (auto split: sum.splits)
qed

lemma cleanup_loop_tasks:
  "ok (mg_store mg) \<Longrightarrow> cleanup_loop ops busy ids mg = (e, mg') \<Longrightarrow>
     e = None \<and> ok (mg_store mg') \<and>
     tasks (mg_store mg') = filter (\<lambda>t. ti_task_id t \<notin> set ids) (tasks (mg_store mg)) \<and>
     mg_handles mg' = mg_handles mg - set ids \<and> mg_tokens mg' = {j \<in> mg_tokens mg. j \<notin> set ids \<or> busy j}"
proof (induction ids arbitrary: mg)
  case Nil
  then show ?case by simp
next
  case (Cons i ids)
  obtain e1 s1 where d: "so_delete ops i (mg_store mg) = (e1, s1)" by fastforce
  note s1 = delete [OF Cons.prems(1) d]
  with Cons.prems d have "cleanup_loop ops busy ids
      (mg\<lparr>mg_store := s1, mg_handles := mg_handles mg - {i}, mg_tokens := {j \<in> mg_tokens mg. j \<noteq> i \<or> busy j}\<rparr>) = (e, mg')"
    by simp
  from Cons.IH [OF _ this] s1 show ?case by (auto intro: filter_cong)
qed

lemma cleanup_exact:
  assumes ok: "ok (mg_store mg)" and c: "cleanup ops busy now max_age mg = (r, mg')"
  shows "tasks (mg_store mg') = filter (\<lambda>t. \<not> cleanup_due now max_age t) (tasks (mg_store mg))"
    and "r = Inr (length (filter (cleanup_due now max_age) (tasks (mg_store mg))))"
    and "ok (mg_store mg')"
proof -
  let ?ids = "map ti_task_id (filter (cleanup_due now max_age) (tasks (mg_store mg)))"
  obtain e mg1 where l: "cleanup_loop ops busy ?ids mg = (e, mg1)" by fastforce
  note l' = cleanup_loop_tasks [OF ok l]
  have r: "r = Inr (length ?ids)" "mg' = mg1"
    using c l l' by (auto simp: cleanup_def list [OF ok] Let_def)
  have "t \<in> set (tasks (mg_store mg)) \<Longrightarrow> ti_task_id t \<in> set ?ids \<longleftrightarrow> cleanup_due now max_age t" for t
    using ids [OF ok] by (auto simp: distinct_map inj_on_def)
  then show "tasks (mg_store mg') = filter (\<lambda>t. \<not> cleanup_due now max_age t) (tasks (mg_store mg))"
    using l' r by (auto intro: filter_cong)
  show "r = Inr (length (filter (cleanup_due now max_age) (tasks (mg_store mg))))" using r by simp
  show "ok (mg_store mg')" using l' r by simp
qed

end


subsection \<open>The single-reaper guard\<close>

text \<open>Sweep loops are numbered. \<open>rp_slot\<close> is the manager's stop sender, \<open>rp_live\<close> the loops that
  have not been told to stop. A handle is the number of its loop; dropping one does nothing.\<close>

record reapers =
  rp_running :: bool
  rp_slot :: "nat option"
  rp_live :: "nat set"
  rp_next :: nat

definition no_reaper :: reapers where
  "no_reaper = \<lparr>rp_running = False, rp_slot = None, rp_live = {}, rp_next = 0\<rparr>"

definition start_reaper :: "reapers \<Rightarrow> (module_error + nat) \<times> reapers" where
  "start_reaper rp =
     (if rp_running rp then (Inl (module_error_new ReaperAlreadyRunning), rp)
      else (Inr (rp_next rp),
            rp\<lparr>rp_running := True, rp_slot := Some (rp_next rp), rp_live := insert (rp_next rp) (rp_live rp),
               rp_next := rp_next rp + 1\<rparr>))"

definition reaper_handle_stop :: "nat \<Rightarrow> reapers \<Rightarrow> reapers" where
  "reaper_handle_stop n rp = rp\<lparr>rp_live := rp_live rp - {n}, rp_slot := None, rp_running := False\<rparr>"

definition stop_reaper :: "reapers \<Rightarrow> bool \<times> reapers" where
  "stop_reaper rp =
     (rp_slot rp \<noteq> None,
      rp\<lparr>rp_live := rp_live rp - set_option (rp_slot rp), rp_slot := None, rp_running := False\<rparr>)"

text \<open>One iteration of a sweep loop; a failing delete is logged and the sweep goes on.\<close>

fun delete_each :: "'s task_store \<Rightarrow> string list \<Rightarrow> 's \<Rightarrow> 's" where
  "delete_each ops [] s = s"
| "delete_each ops (i # ids) s = delete_each ops ids (snd (so_delete ops i s))"

definition reaper_sweep :: "'s task_store \<Rightarrow> rat \<Rightarrow> rat \<Rightarrow> 's \<Rightarrow> 's" where
  "reaper_sweep ops now ttl s =
     (case so_list_expired ops (now - ttl) s of
        Inl _ \<Rightarrow> s
      | Inr expired \<Rightarrow> delete_each ops (map ti_task_id expired) s)"

datatype reaper_event = Start | StopHandle nat | StopReaper | DropHandle nat

fun reaper_act :: "reaper_event \<Rightarrow> reapers \<Rightarrow> reapers" where
  "reaper_act Start rp = snd (start_reaper rp)"
| "reaper_act (StopHandle n) rp = reaper_handle_stop n rp"
| "reaper_act StopReaper rp = snd (stop_reaper rp)"
| "reaper_act (DropHandle n) rp = rp"

text \<open>Handles that are stopped while their own loop is the one the manager holds.\<close>

fun current_handles_only :: "reaper_event list \<Rightarrow> reapers \<Rightarrow> bool" where
  "current_handles_only [] rp \<longleftrightarrow> True"
| "current_handles_only (e # es) rp \<longleftrightarrow>
     (case e of StopHandle n \<Rightarrow> rp_slot rp = Some n | _ \<Rightarrow> True) \<and> current_handles_only es (reaper_act e rp)"

definition single_reaper :: "reapers \<Rightarrow> bool" where
  "single_reaper rp \<longleftrightarrow> rp_live rp = set_option (rp_slot rp) \<and> (rp_running rp \<longleftrightarrow> rp_slot rp \<noteq> None)"

lemma reaper_act_single:
  "single_reaper rp \<Longrightarrow> (case e of StopHandle n \<Rightarrow> rp_slot rp = Some n | _ \<Rightarrow> True) \<Longrightarrow>
     single_reaper (reaper_act e rp)"
  by (cases e; cases "rp_slot rp")
    (auto simp: single_reaper_def start_reaper_def reaper_handle_stop_def stop_reaper_def)

lemma reapers_single:
  "single_reaper rp \<Longrightarrow> current_handles_only es rp \<Longrightarrow> single_reaper (fold reaper_act es rp)"
  by (induction es arbitrary: rp) (auto dest: reaper_act_single)

text \<open>Stopping a handle whose loop was already stopped through the manager frees the guard of the
  next loop: a third start then runs beside it, and the manager can no longer reach it.\<close>

lemma stale_handle_frees_the_guard:
  "let rp = fold reaper_act [Start, StopReaper, Start, StopHandle 0, Start] no_reaper
   in rp_live rp = {1, 2} \<and> rp_slot rp = Some 2"
  by (simp add: Let_def start_reaper_def reaper_handle_stop_def stop_reaper_def no_reaper_def numeral_2_eq_2 insert_commute)

context faithful_store
begin

lemma delete_each_tasks:
  "ok s \<Longrightarrow> ok (delete_each ops is s) \<and>
     tasks (delete_each ops is s) = filter (\<lambda>t. ti_task_id t \<notin> set is) (tasks s)"
proof (induction "is" arbitrary: s)
  case Nil
  then show ?case by simp
next
  case (Cons i "is")
  obtain e s1 where d: "so_delete ops i s = (e, s1)" by fastforce
  note s1 = delete [OF Cons.prems d]
  with Cons.IH [of s1] d show ?case by (auto intro: filter_cong)
qed

lemma reaper_sweep_exact:
  assumes ok: "ok s"
  shows "ok (reaper_sweep ops now ttl s)"
    and "tasks (reaper_sweep ops now ttl s) = filter (\<lambda>t. \<not> has_expired (now - ttl) t) (tasks s)"
proof -
  let ?ids = "map ti_task_id (filter (has_expired (now - ttl)) (tasks s))"
  have sw: "reaper_sweep ops now ttl s = delete_each ops ?ids s"
    by (simp add: reaper_sweep_def expired [OF ok])
  have "t \<in> set (tasks s) \<Longrightarrow> ti_task_id t \<in> set ?ids \<longleftrightarrow> has_expired (now - ttl) t" for t
    using ids [OF ok] by (auto simp: distinct_map inj_on_def)
  then show "tasks (reaper_sweep ops now ttl s) = filter (\<lambda>t. \<not> has_expired (now - ttl) t) (tasks s)"
    using delete_each_tasks [OF ok] sw by (auto intro: filter_cong)
  show "ok (reaper_sweep ops now ttl s)" using delete_each_tasks [OF ok] sw by simp
qed

end


subsection \<open>The properties\<close>

datatype store_command = Save task_info | Delete string

fun store_act :: "'s task_store \<Rightarrow> store_command \<Rightarrow> 's \<Rightarrow> 's" where
  "store_act ops (Save t) s = snd (so_save ops t s)"
| "store_act ops (Delete i) s = snd (so_delete ops i s)"

fun task_list_act :: "store_command \<Rightarrow> task_info list \<Rightarrow> task_info list" where
  "task_list_act (Save t) ts = put_task t ts"
| "task_list_act (Delete i) ts = filter (\<lambda>t. ti_task_id t \<noteq> i) ts"

context faithful_store
begin

lemma store_acts:
  "ok s \<Longrightarrow> ok (fold (store_act ops) cs s) \<and> tasks (fold (store_act ops) cs s) = fold task_list_act cs (tasks s)"
proof (induction cs arbitrary: s)
  case Nil
  then show ?case by simp
next
  case (Cons c cs)
  have "ok (store_act ops c s) \<and> tasks (store_act ops c s) = task_list_act c (tasks s)"
    using Cons.prems
    by (cases c; cases "so_save ops (case c of Save t \<Rightarrow> t) s"; cases "so_delete ops (case c of Delete i \<Rightarrow> i) s")
      (auto dest: save delete)
  with Cons.IH [of "store_act ops c s"] show ?case by simp
qed

end

text \<open>C29: the in-memory store, a hash map with sequence numbers, behaves like the list of its
  records in submission order: after any saves and deletions, a lookup, a listing by status and a listing
  of expired records answer what the list answers, a save keeping the place of a record it replaces.\<close>

theorem memory_store_refines_task_list:
  "so_get memory_ops i (fold (store_act memory_ops) commands memory_store_new) =
     Inr (find_task i (fold task_list_act commands []))
   \<and> so_list memory_ops status (fold (store_act memory_ops) commands memory_store_new) =
       Inr (filter (\<lambda>t. case status of Some st \<Rightarrow> ti_status t = st | None \<Rightarrow> True)
              (fold task_list_act commands []))
   \<and> so_list_expired memory_ops before (fold (store_act memory_ops) commands memory_store_new) =
       Inr (filter (has_expired before) (fold task_list_act commands []))"
  using mem.store_acts [of memory_store_new commands]
  by (simp add: mem.get mem.list mem.expired)

text \<open>C30: shutting down attempts every task. On a store whose writes fail for some records only, no
  task stays active except those whose cancellation could not be written, the manager keeps no handle
  and no token, and the error returned is the failure of such a task, none if there was none.\<close>

theorem shutdown_attempts_every_task:
  assumes ok: "ms_ok (mg_store mg)" and fin: "finite (mg_handles mg)" "finite (mg_tokens mg)"
    and d: "\<And>i s. ms_ok s \<Longrightarrow> ms_ok (d i s) \<and> active_ids (ms_records (d i s)) \<subseteq> active_ids (ms_records s)"
    and s: "shutdown_tasks (flaky err bad memory_ops) d now mg = (e, mg')"
  shows "active_ids (ms_records (mg_store mg')) \<subseteq> bad \<and> mg_handles mg' = {} \<and> mg_tokens mg' = {}
    \<and> (if e = None then active_ids (ms_records (mg_store mg')) = {} else e = Some err)"
proof -
  let ?ids = "shutdown_ids (flaky err bad memory_ops) mg"
  have act: "active_ids (ms_records (mg_store mg)) \<subseteq> ?ids"
    by (simp add: shutdown_ids_def mem.list [OF ok] active_ids_set [OF mem.ids [OF ok]])
  have fids: "finite ?ids"
    using fin by (simp add: shutdown_ids_def mem.list [OF ok])
  have l: "shutdown_loop (flaky err bad memory_ops) d now (sorted_list_of_set ?ids) (None, mg) = (e, mg')"
    using s by (simp add: shutdown_tasks_def mem.list [OF ok])
  note r = mem.shutdown_loop_flaky [where d = d, OF ok d l]
  have "active_ids (ms_records (mg_store mg')) \<subseteq> bad"
    "e = None \<Longrightarrow> active_ids (ms_records (mg_store mg')) = {}" "e \<noteq> None \<Longrightarrow> e = Some err"
    using r act fids by auto
  moreover have "mg_handles mg' = {} \<and> mg_tokens mg' = {}"
    using shutdown_loop_handles [OF l] fids by (auto simp: shutdown_ids_def)
  ultimately show ?thesis by simp
qed

definition sample_task :: "string \<Rightarrow> task_status \<Rightarrow> task_info" where
  "sample_task i st = \<lparr>ti_task_id = i, ti_module_id = ''m'', ti_status = st, ti_submitted_at = 0, ti_started_at = None,
     ti_completed_at = None, ti_result = None, ti_error = None, ti_retry_count = 0, ti_max_retries = 0\<rparr>"

definition sample_manager :: "memory_store manager" where
  "sample_manager = \<lparr>mg_store = fold (store_act memory_ops)
       [Save (sample_task ''a'' Running), Save (sample_task ''b'' Pending), Save (sample_task ''c'' TaskCompleted)]
       memory_store_new,
     mg_handles = {''a''}, mg_tokens = {''a''}, mg_max_tasks = 3\<rparr>"

theorem shutdown_attempts_every_task_witness:
  "\<exists>e mg'. shutdown_tasks (flaky (module_error_new TaskStoreUnavailable) {''a''} memory_ops) (\<lambda>i s. s) 1 sample_manager = (e, mg') \<and>
     active_ids (ms_records (mg_store mg')) \<subseteq> {''a''} \<and> mg_handles mg' = {}"
proof -
  have ok: "ms_ok (mg_store sample_manager)"
    unfolding sample_manager_def manager.simps by (rule mem.store_acts [THEN conjunct1]) simp
  have fin: "finite (mg_handles sample_manager)" "finite (mg_tokens sample_manager)"
    by (simp_all add: sample_manager_def)
  obtain e mg' where s: "shutdown_tasks (flaky (module_error_new TaskStoreUnavailable) {''a''} memory_ops) (\<lambda>i s. s) 1 sample_manager = (e, mg')"
    by fastforce
  show ?thesis
    using shutdown_attempts_every_task [OF ok fin _ s] s by auto
qed

text \<open>Sweeps remove what is due and nothing else: \<open>cleanup\<close> and the reaper leave every record
  that is active or too young, in order, and \<open>cleanup\<close> counts what it removed.\<close>

theorem sweeps_remove_exactly_the_due:
  assumes ok: "ms_ok (mg_store mg)" and c: "cleanup memory_ops busy now max_age mg = (r, mg')"
  shows "ms_records (mg_store mg') = filter (\<lambda>t. \<not> cleanup_due now max_age t) (ms_records (mg_store mg))"
    and "r = Inr (length (ms_records (mg_store mg)) - length (ms_records (mg_store mg')))"
    and "ms_records (reaper_sweep memory_ops now ttl (mg_store mg)) =
           filter (\<lambda>t. \<not> has_expired (now - ttl) t) (ms_records (mg_store mg))"
    and "active_ids (ms_records (mg_store mg')) = active_ids (ms_records (mg_store mg))"
proof -
  note x = mem.cleanup_exact [OF ok c]
  show 1: "ms_records (mg_store mg') = filter (\<lambda>t. \<not> cleanup_due now max_age t) (ms_records (mg_store mg))"
    by (rule x)
  show "r = Inr (length (ms_records (mg_store mg)) - length (ms_records (mg_store mg')))"
    using x(2) sum_length_filter_compl [of "cleanup_due now max_age" "ms_records (mg_store mg)"] by (simp add: 1)
  show "ms_records (reaper_sweep memory_ops now ttl (mg_store mg)) =
      filter (\<lambda>t. \<not> has_expired (now - ttl) t) (ms_records (mg_store mg))"
    by (rule mem.reaper_sweep_exact [OF ok])
  show "active_ids (ms_records (mg_store mg')) = active_ids (ms_records (mg_store mg))"
    using mem.ids [OF ok] mem.ids [OF x(3)] unfolding 1
    by (auto simp: active_ids_set cleanup_due_def is_terminal_def is_active_def)
qed

text \<open>a retry delay never exceeds the configured ceiling, whatever the multiplier (infinite and
  not-a-number products included), and it is the truncated product when that is finite and positive below the
  ceiling. The conversion of integers below \<open>2 ^ 53\<close> is exact.\<close>

theorem retry_delay_bounded:
  assumes exact: "\<And>n. n < 2 ^ 53 \<Longrightarrow> fo_of_u64 fo n = Finite (of_nat n)"
    and cap: "rc_max_retry_delay_ms cfg < 2 ^ 53"
  shows "compute_delay_ms fo cfg attempt \<le> rc_max_retry_delay_ms cfg
    \<and> (\<forall>x. fo_mul fo (fo_of_u64 fo (rc_retry_delay_ms cfg))
               (fo_powf fo (rc_backoff_multiplier cfg) (Finite (of_nat attempt))) = Finite x \<longrightarrow> 0 < x \<longrightarrow>
             compute_delay_ms fo cfg attempt = min (nat \<lfloor>x\<rfloor>) (rc_max_retry_delay_ms cfg))"
proof (intro conjI allI impI)
  let ?c = "rc_max_retry_delay_ms cfg"
  let ?raw = "fo_mul fo (fo_of_u64 fo (rc_retry_delay_ms cfg)) (fo_powf fo (rc_backoff_multiplier cfg) (Finite (of_nat attempt)))"
  have c: "fo_of_u64 fo ?c = Finite (of_nat ?c)" using exact cap by simp
  have fl: "nat \<lfloor>y\<rfloor> \<le> ?c" if "y \<le> of_nat ?c" for y :: rat
    using floor_mono [OF that] by simp
  show "compute_delay_ms fo cfg attempt \<le> ?c"
    using fl f64_min_le [of ?raw "of_nat ?c"]
    by (auto simp: compute_delay_ms_def Let_def c min.coboundedI2 split: f64.splits)
  show "compute_delay_ms fo cfg attempt = min (nat \<lfloor>x\<rfloor>) ?c" if "?raw = Finite x" "0 < x" for x
  proof (cases "?c = 0")
    case True
    with that c show ?thesis by (simp add: compute_delay_ms_def)
  next
    case False
    have "nat \<lfloor>min x (of_nat ?c)\<rfloor> = min (nat \<lfloor>x\<rfloor>) ?c"
      by (simp add: min_def floor_mono nat_mono) (metis floor_mono floor_of_nat int_nat_eq nat_int nat_mono linear order.antisym)
    with that False cap show ?thesis by (simp add: compute_delay_ms_def c min_le_iff_disj)
  qed
qed


definition exact_floats :: float_ops where
  "exact_floats = \<lparr>fo_of_u64 = (\<lambda>n. Finite (of_nat n)),
     fo_mul = (\<lambda>x y. case (x, y) of (Finite a, Finite b) \<Rightarrow> Finite (a * b) | _ \<Rightarrow> NotANumber),
     fo_powf = (\<lambda>x y. case (x, y) of (Finite a, Finite b) \<Rightarrow> Finite (a ^ nat \<lfloor>b\<rfloor>) | _ \<Rightarrow> NotANumber)\<rparr>"

theorem retry_delay_bounded_witness:
  "compute_delay_ms exact_floats retry_config_default 10 \<le> 60000 \<and>
   compute_delay_ms exact_floats retry_config_default 3 = 8000"
proof
  show "compute_delay_ms exact_floats retry_config_default 10 \<le> 60000"
    using retry_delay_bounded [of exact_floats retry_config_default 10]
    by (simp add: exact_floats_def retry_config_default_def)
  show "compute_delay_ms exact_floats retry_config_default 3 = 8000"
    using retry_delay_bounded [of exact_floats retry_config_default 3]
    by (simp add: exact_floats_def retry_config_default_def)
qed

text \<open>A multiplier that is not a number gives the ceiling, not the zero the comment in the code
  announces: \<open>f64::min\<close> returns its other argument.\<close>

lemma nan_multiplier_gives_the_ceiling:
  assumes "fo_of_u64 fo (rc_max_retry_delay_ms cfg) = Finite (of_nat (rc_max_retry_delay_ms cfg))"
    and "fo_mul fo (fo_of_u64 fo (rc_retry_delay_ms cfg))
           (fo_powf fo (rc_backoff_multiplier cfg) (Finite (of_nat attempt))) = NotANumber"
    and "rc_max_retry_delay_ms cfg < 2 ^ 64"
  shows "compute_delay_ms fo cfg attempt = rc_max_retry_delay_ms cfg"
  using assms by (simp add: compute_delay_ms_def Let_def)

end
