(* ===== verification/TaskRuns.thy ===== *)
theory TaskRuns
  imports Tasks
begin

section \<open>Background tasks: workers, cancellation and sweeps interleaved\<close>

text \<open>
  \<open>run_task\<close>, \<open>submit_with_retry\<close>, \<open>cancel\<close>, \<open>stop_local_task\<close>, \<open>cleanup\<close> and
  the reaper of \<open>src/src/async_task.rs\<close> as threads over a shared store. A thread is a program counter with
  the values it holds; one event is what it does between two suspension points or critical sections.
  The semaphore is the number of free permits; nothing in the code closes it, so its closed branch is not
  a step. A worker that has been told to abort may take further steps before \<open>Kill\<close> stops it.
  \<open>wk_calls\<close> counts the executions started.
\<close>

datatype phase =
    Acquiring
  | Fetching
  | SavingRunning task_info
  | Calling
  | Refetching "module_error + json"
  | CheckingTerminal task_info
  | SavingTerminal task_info
  | SavingRetry task_info nat
  | Sleeping nat
  | Draining
  | Unlisting
  | Untokening
  | Ended
  | Aborted

record worker =
  wk_module :: string
  wk_retry :: "retry_config option"
  wk_phase :: phase
  wk_abort :: bool
  wk_calls :: nat

datatype cancel_phase =
    CancelFetching
  | CancelTaking bool
  | CancelJoining bool
  | CancelDraining bool
  | CancelRefetching
  | CancelSaving task_info

text \<open>The flag of the stopping phases: whether a cancellation is under way, or only the teardown that
  \<open>shutdown\<close> does after it. \<open>tr_cancel\<close> is the holder of the cancellation lock, \<open>tr_admitting\<close>
  that of the admission lock. \<open>tr_sweeps\<close> are the deletions sweeps have still to do, those of
  \<open>cleanup\<close> marked with \<open>True\<close>; \<open>tr_used\<close> the ids handed out.\<close>

record 's task_world =
  tr_store :: 's
  tr_handles :: "string set"
  tr_tokens :: "string set"
  tr_workers :: "string \<Rightarrow> worker option"
  tr_permits :: nat
  tr_admitting :: "(task_info \<times> retry_config option) option"
  tr_admitted :: "string \<Rightarrow> (string \<times> retry_config option) option"
  tr_unregistered :: "string set"
  tr_used :: "string set"
  tr_cancel :: "(string \<times> cancel_phase) option"
  tr_sweeps :: "(string \<times> bool) list"

definition task_world_init :: "'s \<Rightarrow> nat \<Rightarrow> 's task_world" where
  "task_world_init s max_concurrent =
     \<lparr>tr_store = s, tr_handles = {}, tr_tokens = {}, tr_workers = Map.empty, tr_permits = max_concurrent,
      tr_admitting = None, tr_admitted = Map.empty, tr_unregistered = {}, tr_used = {}, tr_cancel = None,
      tr_sweeps = []\<rparr>"

subsection \<open>The worker\<close>

definition set_phase :: "string \<Rightarrow> phase \<Rightarrow> 's task_world \<Rightarrow> 's task_world" where
  "set_phase i p w =
     (case tr_workers w i of
        None \<Rightarrow> w
      | Some k \<Rightarrow> w\<lparr>tr_workers := (tr_workers w)(i := Some (k\<lparr>wk_phase := p\<rparr>))\<rparr>)"

definition phase_of :: "string \<Rightarrow> 's task_world \<Rightarrow> phase option" where
  "phase_of i w = map_option wk_phase (tr_workers w i)"

definition release_permit :: "'s task_world \<Rightarrow> 's task_world" where
  "release_permit w = w\<lparr>tr_permits := tr_permits w + 1\<rparr>"

definition count_call :: "string \<Rightarrow> 's task_world \<Rightarrow> 's task_world" where
  "count_call i w =
     (case tr_workers w i of
        None \<Rightarrow> w
      | Some k \<Rightarrow> w\<lparr>tr_workers := (tr_workers w)(i := Some (k\<lparr>wk_calls := wk_calls k + 1\<rparr>))\<rparr>)"

definition retry_limit :: "retry_config option \<Rightarrow> nat" where
  "retry_limit retry = (case retry of None \<Rightarrow> 0 | Some cfg \<Rightarrow> rc_max_retries cfg)"

text \<open>With the permit held: fetch the record, give up if it is gone or cancelled, mark it running.\<close>

definition fetch_and_mark :: "'s task_store \<Rightarrow> rat \<Rightarrow> string \<Rightarrow> 's task_world \<Rightarrow> 's task_world" where
  "fetch_and_mark ops now i w =
     (case so_get ops i (tr_store w) of
        Inr (Some info) \<Rightarrow>
          if ti_status info = TaskCancelled then set_phase i Draining (release_permit w)
          else set_phase i (SavingRunning (info\<lparr>ti_status := Running,
                 ti_started_at := (case ti_started_at info of None \<Rightarrow> Some now | Some t \<Rightarrow> Some t)\<rparr>)) w
      | _ \<Rightarrow> set_phase i Draining (release_permit w))"

definition save_running :: "'s task_store \<Rightarrow> string \<Rightarrow> task_info \<Rightarrow> 's task_world \<Rightarrow> 's task_world" where
  "save_running ops i info w =
     (case so_save ops info (tr_store w) of
        (Some e, s) \<Rightarrow> set_phase i Draining (release_permit (w\<lparr>tr_store := s\<rparr>))
      | (None, s) \<Rightarrow> count_call i (set_phase i Calling (w\<lparr>tr_store := s\<rparr>)))"

text \<open>After the call: what becomes of the record fetched again.\<close>

definition after_call ::
  "float_ops \<Rightarrow> rat \<Rightarrow> retry_config option \<Rightarrow> module_error + json \<Rightarrow> task_info \<Rightarrow> phase" where
  "after_call fo now retry outcome info =
     (case outcome of
        Inr output \<Rightarrow>
          CheckingTerminal (info\<lparr>ti_status := TaskCompleted, ti_completed_at := Some now, ti_result := Some output\<rparr>)
      | Inl err \<Rightarrow>
          (case retry of
             Some cfg \<Rightarrow>
               if ti_retry_count info < rc_max_retries cfg
               then SavingRetry (info\<lparr>ti_retry_count := ti_retry_count info + 1, ti_status := Pending\<rparr>)
                      (compute_delay_ms fo cfg (ti_retry_count info))
               else CheckingTerminal (info\<lparr>ti_status := TaskFailed, ti_completed_at := Some now, ti_error := Some err\<rparr>)
           | None \<Rightarrow>
               CheckingTerminal (info\<lparr>ti_status := TaskFailed, ti_completed_at := Some now, ti_error := Some err\<rparr>)))"

definition refetch :: "'s task_store \<Rightarrow> float_ops \<Rightarrow> rat \<Rightarrow> string \<Rightarrow> module_error + json \<Rightarrow> 's task_world \<Rightarrow> 's task_world" where
  "refetch ops fo now i outcome w =
     (case so_get ops i (tr_store w) of
        Inr (Some info) \<Rightarrow>
          if ti_status info = TaskCancelled then set_phase i Draining w
          else (case tr_workers w i of
                  None \<Rightarrow> w
                | Some k \<Rightarrow> set_phase i (after_call fo now (wk_retry k) outcome info) w)
      | _ \<Rightarrow> set_phase i Draining w)"

text \<open>\<open>save_terminal_if_not_cancelled\<close>: a read, then a write.\<close>

definition check_terminal :: "'s task_store \<Rightarrow> string \<Rightarrow> task_info \<Rightarrow> 's task_world \<Rightarrow> 's task_world" where
  "check_terminal ops i info w =
     (case so_get ops i (tr_store w) of
        Inr (Some current) \<Rightarrow>
          set_phase i (if ti_status current = TaskCancelled then Draining else SavingTerminal info) w
      | _ \<Rightarrow> set_phase i (SavingTerminal info) w)"

definition save_then :: "'s task_store \<Rightarrow> string \<Rightarrow> task_info \<Rightarrow> phase \<Rightarrow> 's task_world \<Rightarrow> 's task_world" where
  "save_then ops i info p w = set_phase i p (w\<lparr>tr_store := snd (so_save ops info (tr_store w))\<rparr>)"

text \<open>What may happen to a worker. The runtime decides when it goes on and how its call ends.\<close>

datatype worker_event = Continue rat | CallReturns "module_error + json" | Kill

datatype task_event =
    Admit string string "retry_config option" rat
  | Persist
  | Spawn string
  | Register string
  | Work string worker_event
  | CancelStart string
  | StopStart string
  | CancelNext rat
  | CancelDropped
  | SweepStart rat rat
  | ReapStart rat rat
  | SweepNext bool

definition holds_permit :: "phase \<Rightarrow> bool" where
  "holds_permit p = (case p of Fetching \<Rightarrow> True | SavingRunning _ \<Rightarrow> True | Calling \<Rightarrow> True | _ \<Rightarrow> False)"

definition flagged_finished :: "phase \<Rightarrow> bool" where
  "flagged_finished p = (case p of Unlisting \<Rightarrow> True | Untokening \<Rightarrow> True | Ended \<Rightarrow> True | _ \<Rightarrow> False)"

definition over :: "phase \<Rightarrow> bool" where
  "over p = (case p of Ended \<Rightarrow> True | Aborted \<Rightarrow> True | _ \<Rightarrow> False)"

definition continue_worker ::
  "'s task_store \<Rightarrow> float_ops \<Rightarrow> rat \<Rightarrow> string \<Rightarrow> phase \<Rightarrow> 's task_world \<Rightarrow> 's task_world option" where
  "continue_worker ops fo now i p w =
     (case p of
        Acquiring \<Rightarrow>
          if 0 < tr_permits w then Some (set_phase i Fetching (w\<lparr>tr_permits := tr_permits w - 1\<rparr>)) else None
      | Fetching \<Rightarrow> Some (fetch_and_mark ops now i w)
      | SavingRunning info \<Rightarrow> Some (save_running ops i info w)
      | Refetching outcome \<Rightarrow> Some (refetch ops fo now i outcome w)
      | CheckingTerminal info \<Rightarrow> Some (check_terminal ops i info w)
      | SavingTerminal info \<Rightarrow> Some (save_then ops i info Draining w)
      | SavingRetry info delay \<Rightarrow> Some (save_then ops i info (Sleeping delay) w)
      | Sleeping delay \<Rightarrow> Some (set_phase i Acquiring w)
      | Draining \<Rightarrow> Some (set_phase i Unlisting w)
      | Unlisting \<Rightarrow> Some (set_phase i Untokening (w\<lparr>tr_handles := tr_handles w - {i}\<rparr>))
      | Untokening \<Rightarrow> Some (set_phase i Ended (w\<lparr>tr_tokens := tr_tokens w - {i}\<rparr>))
      | _ \<Rightarrow> None)"

definition kill_worker :: "string \<Rightarrow> phase \<Rightarrow> 's task_world \<Rightarrow> 's task_world" where
  "kill_worker i p w = set_phase i Aborted (if holds_permit p then release_permit w else w)"

definition worker_act ::
  "'s task_store \<Rightarrow> float_ops \<Rightarrow> string \<Rightarrow> worker_event \<Rightarrow> 's task_world \<Rightarrow> 's task_world option" where
  "worker_act ops fo i ev w =
     (case tr_workers w i of
        None \<Rightarrow> None
      | Some k \<Rightarrow>
          (case ev of
             Continue now \<Rightarrow> continue_worker ops fo now i (wk_phase k) w
           | CallReturns outcome \<Rightarrow>
               if wk_phase k = Calling then Some (set_phase i (Refetching outcome) (release_permit w)) else None
           | Kill \<Rightarrow> if wk_abort k \<and> \<not> over (wk_phase k) then Some (kill_worker i (wk_phase k) w) else None))"

subsection \<open>Submission\<close>

definition fresh_task :: "string \<Rightarrow> string \<Rightarrow> retry_config option \<Rightarrow> rat \<Rightarrow> task_info" where
  "fresh_task i m retry now =
     \<lparr>ti_task_id = i, ti_module_id = m, ti_status = Pending, ti_submitted_at = now, ti_started_at = None,
      ti_completed_at = None, ti_result = None, ti_error = None, ti_retry_count = 0, ti_max_retries = retry_limit retry\<rparr>"

text \<open>The id is new (a random UUID). The submission is refused, without a trace, when the listing fails
  or the limit is reached; otherwise the lock is held until the record is saved.\<close>

definition admit ::
  "'s task_store \<Rightarrow> nat \<Rightarrow> string \<Rightarrow> string \<Rightarrow> retry_config option \<Rightarrow> rat \<Rightarrow> 's task_world \<Rightarrow> 's task_world option" where
  "admit ops max_tasks i m retry now w =
     (if tr_admitting w \<noteq> None \<or> i \<in> tr_used w then None
      else let w1 = w\<lparr>tr_used := insert i (tr_used w)\<rparr> in
        (case so_list ops None (tr_store w) of
           Inl e \<Rightarrow> Some w1
         | Inr current \<Rightarrow>
             if max_tasks \<le> active_count current then Some w1
             else Some (w1\<lparr>tr_admitting := Some (fresh_task i m retry now, retry)\<rparr>)))"

definition persist :: "'s task_store \<Rightarrow> 's task_world \<Rightarrow> 's task_world option" where
  "persist ops w =
     (case tr_admitting w of
        None \<Rightarrow> None
      | Some (info, retry) \<Rightarrow>
          (case so_save ops info (tr_store w) of
             (Some e, s) \<Rightarrow> Some (w\<lparr>tr_store := s, tr_admitting := None\<rparr>)
           | (None, s) \<Rightarrow>
               Some (w\<lparr>tr_store := s, tr_admitting := None,
                       tr_admitted := (tr_admitted w)(ti_task_id info := Some (ti_module_id info, retry))\<rparr>)))"

definition spawn_worker :: "string \<Rightarrow> 's task_world \<Rightarrow> 's task_world option" where
  "spawn_worker i w =
     (case tr_admitted w i of
        None \<Rightarrow> None
      | Some (m, retry) \<Rightarrow>
          Some (w\<lparr>tr_admitted := (tr_admitted w)(i := None), tr_tokens := insert i (tr_tokens w),
                  tr_unregistered := insert i (tr_unregistered w),
                  tr_workers := (tr_workers w)(i :=
                    Some \<lparr>wk_module = m, wk_retry = retry, wk_phase = Acquiring, wk_abort = False, wk_calls = 0\<rparr>)\<rparr>))"

text \<open>The parent inserts the handle unless the worker has raised its flag.\<close>

definition register_handle :: "string \<Rightarrow> 's task_world \<Rightarrow> 's task_world option" where
  "register_handle i w =
     (if i \<notin> tr_unregistered w then None
      else let w1 = w\<lparr>tr_unregistered := tr_unregistered w - {i}\<rparr> in
        (case phase_of i w of
           Some p \<Rightarrow> Some (if flagged_finished p then w1 else w1\<lparr>tr_handles := insert i (tr_handles w)\<rparr>)
         | None \<Rightarrow> Some w1))"

subsection \<open>Cancellation\<close>

definition request_kill :: "string \<Rightarrow> 's task_world \<Rightarrow> 's task_world" where
  "request_kill i w =
     (case tr_workers w i of
        None \<Rightarrow> w
      | Some k \<Rightarrow> w\<lparr>tr_workers := (tr_workers w)(i := Some (k\<lparr>wk_abort := True\<rparr>))\<rparr>)"

definition cancel_at :: "string \<Rightarrow> cancel_phase \<Rightarrow> 's task_world \<Rightarrow> 's task_world" where
  "cancel_at i c w = w\<lparr>tr_cancel := Some (i, c)\<rparr>"

definition cancel_done :: "'s task_world \<Rightarrow> 's task_world" where
  "cancel_done w = w\<lparr>tr_cancel := None\<rparr>"

text \<open>One step of the holder of the cancellation lock: \<open>stop_local_task\<close> is the three middle phases.\<close>

definition cancel_next :: "'s task_store \<Rightarrow> rat \<Rightarrow> 's task_world \<Rightarrow> 's task_world option" where
  "cancel_next ops now w =
     (case tr_cancel w of
        None \<Rightarrow> None
      | Some (i, CancelFetching) \<Rightarrow>
          (case so_get ops i (tr_store w) of
             Inr (Some info) \<Rightarrow>
               Some (if is_active (ti_status info) then cancel_at i (CancelTaking True) w else cancel_done w)
           | _ \<Rightarrow> Some (cancel_done w))
      | Some (i, CancelTaking full) \<Rightarrow>
          if i \<in> tr_handles w
          then Some (cancel_at i (CancelJoining full) (request_kill i (w\<lparr>tr_handles := tr_handles w - {i}\<rparr>)))
          else Some (cancel_at i (CancelDraining full) w)
      | Some (i, CancelJoining full) \<Rightarrow>
          (case phase_of i w of
             Some p \<Rightarrow> if over p then Some (cancel_at i (CancelDraining full) w) else None
           | None \<Rightarrow> Some (cancel_at i (CancelDraining full) w))
      | Some (i, CancelDraining full) \<Rightarrow>
          let w1 = w\<lparr>tr_tokens := tr_tokens w - {i}\<rparr> in
          Some (if full then cancel_at i CancelRefetching w1 else cancel_done w1)
      | Some (i, CancelRefetching) \<Rightarrow>
          (case so_get ops i (tr_store w) of
             Inr (Some updated) \<Rightarrow>
               Some (if is_active (ti_status updated)
                     then cancel_at i (CancelSaving (updated\<lparr>ti_status := TaskCancelled, ti_completed_at := Some now\<rparr>)) w
                     else cancel_done w)
           | _ \<Rightarrow> Some (cancel_done w))
      | Some (i, CancelSaving updated) \<Rightarrow>
          Some (cancel_done (w\<lparr>tr_store := snd (so_save ops updated (tr_store w))\<rparr>)))"

text \<open>The caller gives up: the lock is released, and an unfinished join goes back to the manager.\<close>

definition cancel_dropped :: "'s task_world \<Rightarrow> 's task_world option" where
  "cancel_dropped w =
     (case tr_cancel w of
        None \<Rightarrow> None
      | Some (i, CancelJoining full) \<Rightarrow>
          (case phase_of i w of
             Some p \<Rightarrow>
               Some (cancel_done (if flagged_finished p \<or> over p then w else w\<lparr>tr_handles := insert i (tr_handles w)\<rparr>))
           | None \<Rightarrow> Some (cancel_done w))
      | Some _ \<Rightarrow> Some (cancel_done w))"

subsection \<open>Sweeps and the whole system\<close>

definition sweep_start :: "'s task_store \<Rightarrow> rat \<Rightarrow> rat \<Rightarrow> 's task_world \<Rightarrow> 's task_world" where
  "sweep_start ops now max_age w =
     (case so_list ops None (tr_store w) of
        Inl e \<Rightarrow> w
      | Inr ts \<Rightarrow> w\<lparr>tr_sweeps := tr_sweeps w @ map (\<lambda>t. (ti_task_id t, True)) (filter (cleanup_due now max_age) ts)\<rparr>)"

definition reap_start :: "'s task_store \<Rightarrow> rat \<Rightarrow> rat \<Rightarrow> 's task_world \<Rightarrow> 's task_world" where
  "reap_start ops now ttl w =
     (case so_list_expired ops (now - ttl) (tr_store w) of
        Inl e \<Rightarrow> w
      | Inr ts \<Rightarrow> w\<lparr>tr_sweeps := tr_sweeps w @ map (\<lambda>t. (ti_task_id t, False)) ts\<rparr>)"

text \<open>\<open>busy\<close> says whether the token of the task still has running executions.\<close>

definition sweep_next :: "'s task_store \<Rightarrow> bool \<Rightarrow> 's task_world \<Rightarrow> 's task_world option" where
  "sweep_next ops busy w =
     (case tr_sweeps w of
        [] \<Rightarrow> None
      | (i, full) # rest \<Rightarrow>
          Some (w\<lparr>tr_store := snd (so_delete ops i (tr_store w)), tr_sweeps := rest,
                  tr_handles := (if full then tr_handles w - {i} else tr_handles w),
                  tr_tokens := (if full \<and> \<not> busy then tr_tokens w - {i} else tr_tokens w)\<rparr>))"

fun task_act :: "'s task_store \<Rightarrow> float_ops \<Rightarrow> nat \<Rightarrow> task_event \<Rightarrow> 's task_world \<Rightarrow> 's task_world option" where
  "task_act ops fo n (Admit i m retry now) w = admit ops n i m retry now w"
| "task_act ops fo n Persist w = persist ops w"
| "task_act ops fo n (Spawn i) w = spawn_worker i w"
| "task_act ops fo n (Register i) w = register_handle i w"
| "task_act ops fo n (Work i ev) w = worker_act ops fo i ev w"
| "task_act ops fo n (CancelStart i) w =
     (if tr_cancel w = None then Some (cancel_at i CancelFetching w) else None)"
| "task_act ops fo n (StopStart i) w =
     (if tr_cancel w = None then Some (cancel_at i (CancelTaking False) w) else None)"
| "task_act ops fo n (CancelNext now) w = cancel_next ops now w"
| "task_act ops fo n CancelDropped w = cancel_dropped w"
| "task_act ops fo n (SweepStart now max_age) w = Some (sweep_start ops now max_age w)"
| "task_act ops fo n (ReapStart now ttl) w = Some (reap_start ops now ttl w)"
| "task_act ops fo n (SweepNext busy) w = sweep_next ops busy w"

text \<open>\<open>submit\<close> has returned the id, so the caller can cancel it.\<close>

definition submit_returned :: "string \<Rightarrow> 's task_world \<Rightarrow> bool" where
  "submit_returned i w \<longleftrightarrow> i \<in> tr_used w \<and> tr_admitted w i = None \<and> i \<notin> tr_unregistered w \<and>
     (case tr_admitting w of Some (info, _) \<Rightarrow> ti_task_id info \<noteq> i | None \<Rightarrow> True)"

definition after_submit :: "task_event \<Rightarrow> 's task_world \<Rightarrow> bool" where
  "after_submit ev w = (case ev of CancelStart i \<Rightarrow> submit_returned i w | _ \<Rightarrow> True)"

text \<open>Histories; with \<open>strict\<close>, tasks are cancelled only once their submission has returned.\<close>

inductive task_run ::
  "'s task_store \<Rightarrow> float_ops \<Rightarrow> nat \<Rightarrow> bool \<Rightarrow> 's task_world \<Rightarrow> 's task_world \<Rightarrow> bool"
  for ops fo n strict where
  refl: "task_run ops fo n strict w w"
| step: "task_run ops fo n strict u v \<Longrightarrow> task_act ops fo n ev v = Some w \<Longrightarrow>
          (strict \<longrightarrow> after_submit ev v) \<Longrightarrow> task_run ops fo n strict u w"


subsection \<open>Invariants\<close>

text \<open>The records are seen through the map \<open>rec\<close> from ids to records.\<close>

definition live :: "phase \<Rightarrow> bool" where
  "live p = (case p of Draining \<Rightarrow> False | Unlisting \<Rightarrow> False | Untokening \<Rightarrow> False | Ended \<Rightarrow> False
     | Aborted \<Rightarrow> False | _ \<Rightarrow> True)"

definition phase_ok :: "string \<Rightarrow> worker \<Rightarrow> task_info \<Rightarrow> bool" where
  "phase_ok i k t \<longleftrightarrow>
     (let c = ti_retry_count t; m = wk_calls k in
      case wk_phase k of
        SavingRunning info \<Rightarrow> ti_task_id info = i \<and> ti_status info = Running \<and> ti_retry_count info = c \<and> m = c
      | Calling \<Rightarrow> m = c + 1
      | Refetching outcome \<Rightarrow> m = c + 1
      | CheckingTerminal info \<Rightarrow> ti_task_id info = i \<and> is_terminal (ti_status info) \<and> m = c + 1
      | SavingTerminal info \<Rightarrow> ti_task_id info = i \<and> is_terminal (ti_status info) \<and> m = c + 1
      | SavingRetry info delay \<Rightarrow> ti_task_id info = i \<and> ti_status info = Pending \<and> ti_retry_count info = c + 1 \<and>
          c < retry_limit (wk_retry k) \<and> m = c + 1
      | _ \<Rightarrow> m = c)"

definition worker_ok :: "string \<Rightarrow> worker \<Rightarrow> task_info option \<Rightarrow> bool" where
  "worker_ok i k r \<longleftrightarrow> wk_calls k \<le> retry_limit (wk_retry k) + 1 \<and>
     (live (wk_phase k) \<longrightarrow>
       (\<exists>t. r = Some t \<and> is_active (ti_status t) \<and> ti_retry_count t \<le> retry_limit (wk_retry k) \<and> phase_ok i k t))"

definition active_in :: "(string \<Rightarrow> task_info option) \<Rightarrow> string \<Rightarrow> bool" where
  "active_in rec i \<longleftrightarrow> (\<exists>t. rec i = Some t \<and> is_active (ti_status t))"

definition admitting_id :: "'s task_world \<Rightarrow> string option" where
  "admitting_id w = map_option (\<lambda>(info, _). ti_task_id info) (tr_admitting w)"

definition workers_ok :: "(string \<Rightarrow> task_info option) \<Rightarrow> 's task_world \<Rightarrow> bool" where
  "workers_ok rec w \<longleftrightarrow>
     (\<forall>i k. tr_workers w i = Some k \<longrightarrow> worker_ok i k (rec i) \<and> i \<in> tr_used w) \<and>
     (\<forall>i k. tr_workers w i = Some k \<longrightarrow> live (wk_phase k) \<longrightarrow>
        i \<in> tr_unregistered w \<or> i \<in> tr_handles w \<or> (\<exists>full. tr_cancel w = Some (i, CancelJoining full)))"

definition submits_ok :: "(string \<Rightarrow> task_info option) \<Rightarrow> 's task_world \<Rightarrow> bool" where
  "submits_ok rec w \<longleftrightarrow>
     (\<forall>i. rec i \<noteq> None \<longrightarrow> i \<in> tr_used w) \<and>
     (\<forall>i. tr_admitted w i \<noteq> None \<longrightarrow> tr_workers w i = None \<and> i \<in> tr_used w \<and>
        (\<exists>t. rec i = Some t \<and> is_active (ti_status t) \<and> ti_retry_count t = 0)) \<and>
     (\<forall>info r. tr_admitting w = Some (info, r) \<longrightarrow>
        (let i = ti_task_id info in ti_status info = Pending \<and> ti_retry_count info = 0 \<and> i \<in> tr_used w \<and>
          rec i = None \<and> tr_workers w i = None \<and> tr_admitted w i = None)) \<and>
     (\<forall>i \<in> tr_unregistered w. tr_workers w i \<noteq> None)"

definition stopped :: "string \<Rightarrow> 's task_world \<Rightarrow> bool" where
  "stopped i w \<longleftrightarrow> (\<forall>k. tr_workers w i = Some k \<longrightarrow> \<not> live (wk_phase k))"

definition cancel_point_ok :: "(string \<Rightarrow> task_info option) \<Rightarrow> 's task_world \<Rightarrow> string \<Rightarrow> cancel_phase \<Rightarrow> bool" where
  "cancel_point_ok rec w i c \<longleftrightarrow>
     (case c of
        CancelFetching \<Rightarrow> submit_returned i w
      | CancelTaking full \<Rightarrow> full \<longrightarrow> submit_returned i w
      | CancelJoining full \<Rightarrow> full \<longrightarrow> submit_returned i w
      | CancelDraining full \<Rightarrow> full \<longrightarrow> submit_returned i w \<and> stopped i w
      | CancelRefetching \<Rightarrow> submit_returned i w \<and> stopped i w
      | CancelSaving info \<Rightarrow> submit_returned i w \<and> stopped i w \<and> ti_task_id info = i \<and>
          ti_status info = TaskCancelled \<and> active_in rec i)"

definition cancel_ok :: "(string \<Rightarrow> task_info option) \<Rightarrow> 's task_world \<Rightarrow> bool" where
  "cancel_ok rec w \<longleftrightarrow> (\<forall>i c. tr_cancel w = Some (i, c) \<longrightarrow> cancel_point_ok rec w i c)"

lemma cancel_point_transfer:
  assumes "cancel_point_ok rec w i c" "submit_returned i w \<Longrightarrow> submit_returned i w'"
    and "submit_returned i w \<Longrightarrow> stopped i w \<Longrightarrow> stopped i w'"
    and "submit_returned i w \<Longrightarrow> stopped i w \<Longrightarrow> active_in rec i \<Longrightarrow> active_in rec' i"
  shows "cancel_point_ok rec' w' i c"
  using assms by (cases c) (auto simp: cancel_point_ok_def)

lemma cancel_ok_transfer:
  assumes "cancel_ok rec w" "tr_cancel w' = tr_cancel w"
    and "\<And>i. submit_returned i w \<Longrightarrow> submit_returned i w'"
    and "\<And>i. submit_returned i w \<Longrightarrow> stopped i w \<Longrightarrow> stopped i w'"
    and "\<And>i. submit_returned i w \<Longrightarrow> stopped i w \<Longrightarrow> active_in rec i \<Longrightarrow> active_in rec' i"
  shows "cancel_ok rec' w'"
  unfolding cancel_ok_def
proof (intro allI impI)
  fix i c
  assume "tr_cancel w' = Some (i, c)"
  with assms(1,2) have "cancel_point_ok rec w i c" by (simp add: cancel_ok_def)
  then show "cancel_point_ok rec' w' i c"
    by (rule cancel_point_transfer) (use assms(3,4,5) in blast)+
qed

text \<open>A task that is quiet never becomes active again.\<close>

definition quiet :: "(string \<Rightarrow> task_info option) \<Rightarrow> 's task_world \<Rightarrow> string \<Rightarrow> bool" where
  "quiet rec w i \<longleftrightarrow> i \<in> tr_used w \<and> \<not> active_in rec i \<and> admitting_id w \<noteq> Some i"

definition sweeps_ok :: "(string \<Rightarrow> task_info option) \<Rightarrow> 's task_world \<Rightarrow> bool" where
  "sweeps_ok rec w \<longleftrightarrow> (\<forall>i \<in> fst ` set (tr_sweeps w). quiet rec w i)"

definition task_world_ok :: "(string \<Rightarrow> task_info option) \<Rightarrow> 's task_world \<Rightarrow> bool" where
  "task_world_ok rec w \<longleftrightarrow> workers_ok rec w \<and> submits_ok rec w \<and> cancel_ok rec w \<and> sweeps_ok rec w"

lemmas task_world_defs = task_world_ok_def workers_ok_def submits_ok_def cancel_ok_def sweeps_ok_def
  quiet_def active_in_def admitting_id_def stopped_def submit_returned_def Let_def

lemma task_world_okE:
  assumes ok: "task_world_ok rec w" and k: "tr_workers w i = Some k"
  shows "worker_ok i k (rec i)" "i \<in> tr_used w" "tr_admitted w i = None" "admitting_id w \<noteq> Some i"
    "live (wk_phase k) \<Longrightarrow> active_in rec i"
proof -
  show wk: "worker_ok i k (rec i)" and "i \<in> tr_used w"
    using ok k by (simp_all add: task_world_ok_def workers_ok_def)
  show "live (wk_phase k) \<Longrightarrow> active_in rec i" using wk by (auto simp: worker_ok_def active_in_def)
  have sub: "submits_ok rec w" using ok by (simp add: task_world_ok_def)
  show "tr_admitted w i = None"
  proof (rule ccontr)
    assume "tr_admitted w i \<noteq> None"
    with sub have "tr_workers w i = None" by (simp add: submits_ok_def)
    with k show False by simp
  qed
  show "admitting_id w \<noteq> Some i"
    using sub k by (force simp: submits_ok_def admitting_id_def Let_def)
qed

text \<open>A worker that takes a step without writing.\<close>

lemma worker_step_ok:
  assumes ok: "task_world_ok rec w" and k: "tr_workers w i = Some k"
    and k': "worker_ok i k' (rec i)" and lv: "live (wk_phase k') \<Longrightarrow> live (wk_phase k)"
  shows "task_world_ok rec (w\<lparr>tr_workers := (tr_workers w)(i := Some k')\<rparr>)"
proof -
  have "workers_ok rec (w\<lparr>tr_workers := (tr_workers w)(i := Some k')\<rparr>)"
    using ok k k' lv by (auto simp: task_world_ok_def workers_ok_def)
  moreover have "submits_ok rec (w\<lparr>tr_workers := (tr_workers w)(i := Some k')\<rparr>)"
    using ok k by (auto simp: task_world_ok_def submits_ok_def Let_def)
  moreover have "cancel_ok rec (w\<lparr>tr_workers := (tr_workers w)(i := Some k')\<rparr>)"
    by (rule cancel_ok_transfer [of rec w]) (use ok k lv in \<open>auto simp: task_world_ok_def submit_returned_def stopped_def\<close>)
  moreover have "sweeps_ok rec (w\<lparr>tr_workers := (tr_workers w)(i := Some k')\<rparr>)"
    using ok by (auto simp: task_world_ok_def sweeps_ok_def quiet_def admitting_id_def)
  ultimately show ?thesis by (simp add: task_world_ok_def)
qed

text \<open>A live worker that writes its record.\<close>

lemma worker_write_ok:
  assumes ok: "task_world_ok rec w" and k: "tr_workers w i = Some k" and lk: "live (wk_phase k)"
    and k': "worker_ok i k' (Some t)"
  shows "task_world_ok (rec(i \<mapsto> t)) (w\<lparr>tr_workers := (tr_workers w)(i := Some k')\<rparr>)"
proof -
  note e = task_world_okE [OF ok k]
  have "workers_ok (rec(i \<mapsto> t)) (w\<lparr>tr_workers := (tr_workers w)(i := Some k')\<rparr>)"
    using ok k k' lk by (auto simp: task_world_ok_def workers_ok_def)
  moreover have "submits_ok (rec(i \<mapsto> t)) (w\<lparr>tr_workers := (tr_workers w)(i := Some k')\<rparr>)"
    using ok k e by (auto simp: task_world_ok_def submits_ok_def admitting_id_def Let_def)
  moreover have "cancel_ok (rec(i \<mapsto> t)) (w\<lparr>tr_workers := (tr_workers w)(i := Some k')\<rparr>)"
    by (rule cancel_ok_transfer [of rec w])
      (use ok k lk in \<open>auto simp: task_world_ok_def submit_returned_def stopped_def active_in_def\<close>)
  moreover have "sweeps_ok (rec(i \<mapsto> t)) (w\<lparr>tr_workers := (tr_workers w)(i := Some k')\<rparr>)"
    using ok e(5) [OF lk] by (force simp: task_world_ok_def sweeps_ok_def quiet_def admitting_id_def active_in_def)
  ultimately show ?thesis by (simp add: task_world_ok_def)
qed


lemma task_world_ok_frame [simp]:
  "task_world_ok rec (w\<lparr>tr_store := s\<rparr>) = task_world_ok rec w"
  "task_world_ok rec (w\<lparr>tr_permits := n\<rparr>) = task_world_ok rec w"
  "task_world_ok rec (w\<lparr>tr_tokens := tk\<rparr>) = task_world_ok rec w"
proof -
  have "cancel_point_ok rec (w\<lparr>tr_store := s\<rparr>) i c = cancel_point_ok rec w i c"
    "cancel_point_ok rec (w\<lparr>tr_permits := n\<rparr>) i c = cancel_point_ok rec w i c"
    "cancel_point_ok rec (w\<lparr>tr_tokens := tk\<rparr>) i c = cancel_point_ok rec w i c" for i c
    by (cases c; simp add: cancel_point_ok_def submit_returned_def stopped_def)+
  then show "task_world_ok rec (w\<lparr>tr_store := s\<rparr>) = task_world_ok rec w"
    "task_world_ok rec (w\<lparr>tr_permits := n\<rparr>) = task_world_ok rec w"
    "task_world_ok rec (w\<lparr>tr_tokens := tk\<rparr>) = task_world_ok rec w"
    by (simp_all add: task_world_ok_def workers_ok_def submits_ok_def cancel_ok_def sweeps_ok_def quiet_def
        admitting_id_def)
qed

lemma task_world_ok_frame2 [simp]:
  "task_world_ok rec (w\<lparr>tr_store := s, tr_workers := ks\<rparr>) = task_world_ok rec (w\<lparr>tr_workers := ks\<rparr>)"
  "task_world_ok rec (w\<lparr>tr_permits := n, tr_workers := ks\<rparr>) = task_world_ok rec (w\<lparr>tr_workers := ks\<rparr>)"
  "task_world_ok rec (w\<lparr>tr_tokens := tk, tr_workers := ks\<rparr>) = task_world_ok rec (w\<lparr>tr_workers := ks\<rparr>)"
proof -
  have "w\<lparr>tr_store := s, tr_workers := ks\<rparr> = w\<lparr>tr_workers := ks\<rparr>\<lparr>tr_store := s\<rparr>"
    "w\<lparr>tr_permits := n, tr_workers := ks\<rparr> = w\<lparr>tr_workers := ks\<rparr>\<lparr>tr_permits := n\<rparr>"
    "w\<lparr>tr_tokens := tk, tr_workers := ks\<rparr> = w\<lparr>tr_workers := ks\<rparr>\<lparr>tr_tokens := tk\<rparr>"
    by (rule task_world.equality; simp)+
  then show "task_world_ok rec (w\<lparr>tr_store := s, tr_workers := ks\<rparr>) = task_world_ok rec (w\<lparr>tr_workers := ks\<rparr>)"
    "task_world_ok rec (w\<lparr>tr_permits := n, tr_workers := ks\<rparr>) = task_world_ok rec (w\<lparr>tr_workers := ks\<rparr>)"
    "task_world_ok rec (w\<lparr>tr_tokens := tk, tr_workers := ks\<rparr>) = task_world_ok rec (w\<lparr>tr_workers := ks\<rparr>)"
    by (simp_all only: task_world_ok_frame)
qed

lemma task_world_ok_unlist:
  assumes ok: "task_world_ok rec w" and st: "stopped i w"
  shows "task_world_ok rec (w\<lparr>tr_handles := tr_handles w - {i}\<rparr>)"
proof -
  have "cancel_ok rec (w\<lparr>tr_handles := tr_handles w - {i}\<rparr>)"
    by (rule cancel_ok_transfer [of rec w]) (use ok in \<open>simp_all add: task_world_ok_def submit_returned_def stopped_def\<close>)
  moreover have "workers_ok rec (w\<lparr>tr_handles := tr_handles w - {i}\<rparr>)"
    using ok st by (fastforce simp: task_world_ok_def workers_ok_def stopped_def)
  ultimately show ?thesis
    using ok by (simp add: task_world_ok_def submits_ok_def sweeps_ok_def quiet_def admitting_id_def)
qed

definition view_of :: "('s \<Rightarrow> task_info list) \<Rightarrow> 's task_world \<Rightarrow> string \<Rightarrow> task_info option" where
  "view_of f w = (\<lambda>i. find_task i (f (tr_store w)))"

lemma view_of_simps [simp]:
  "view_of f (w\<lparr>tr_workers := k\<rparr>) = view_of f w" "view_of f (w\<lparr>tr_permits := n\<rparr>) = view_of f w"
  "view_of f (w\<lparr>tr_tokens := tk\<rparr>) = view_of f w" "view_of f (w\<lparr>tr_handles := h\<rparr>) = view_of f w"
  by (simp_all add: view_of_def)

lemma release_permit_simps [simp]:
  "tr_workers (release_permit w) = tr_workers w" "tr_store (release_permit w) = tr_store w"
  "task_world_ok rec (release_permit w) = task_world_ok rec w" "view_of f (release_permit w) = view_of f w"
  "tr_handles (release_permit w) = tr_handles w"
  "task_world_ok rec (release_permit w\<lparr>tr_workers := ks\<rparr>) = task_world_ok rec (w\<lparr>tr_workers := ks\<rparr>)"
  by (simp_all add: release_permit_def)

lemma set_phase_eq:
  "tr_workers w i = Some k \<Longrightarrow> set_phase i p w = w\<lparr>tr_workers := (tr_workers w)(i := Some (k\<lparr>wk_phase := p\<rparr>))\<rparr>"
  by (simp add: set_phase_def)

lemma set_phase_ok:
  assumes "task_world_ok rec w" "tr_workers w i = Some k" "worker_ok i (k\<lparr>wk_phase := p\<rparr>) (rec i)"
    and "live p \<Longrightarrow> live (wk_phase k)"
  shows "task_world_ok rec (set_phase i p w)"
  unfolding set_phase_eq [OF assms(2)] by (rule worker_step_ok) (use assms in simp_all)

text \<open>A phase that ends the worker's work keeps only the bound on the calls.\<close>

lemma worker_ok_stop: "worker_ok i k r \<Longrightarrow> \<not> live p \<Longrightarrow> worker_ok i (k\<lparr>wk_phase := p\<rparr>) r'"
  by (simp add: worker_ok_def)

lemma worker_ok_live:
  assumes "worker_ok i k r" "live (wk_phase k)"
  obtains t where "r = Some t" "is_active (ti_status t)" "ti_retry_count t \<le> retry_limit (wk_retry k)"
    "phase_ok i k t" "wk_calls k \<le> retry_limit (wk_retry k) + 1"
  using assms by (auto simp: worker_ok_def)

lemma worker_ok_move:
  assumes "worker_ok i k r" "live (wk_phase k)" "\<And>t. r = Some t \<Longrightarrow> phase_ok i k t \<Longrightarrow> phase_ok i (k\<lparr>wk_phase := p\<rparr>) t"
  shows "worker_ok i (k\<lparr>wk_phase := p\<rparr>) r"
  using assms by (auto simp: worker_ok_def phase_ok_def Let_def)

context faithful_store
begin

lemma view_save:
  "ok (tr_store w) \<Longrightarrow> so_save ops t (tr_store w) = (e, s) \<Longrightarrow>
     e = None \<and> ok s \<and> view_of tasks (w\<lparr>tr_store := s\<rparr>) = (view_of tasks w)(ti_task_id t \<mapsto> t)"
  by (drule (1) save) (auto simp: view_of_def find_task_put fun_eq_iff)

lemma view_get: "ok (tr_store w) \<Longrightarrow> so_get ops i (tr_store w) = Inr (view_of tasks w i)"
  by (simp add: get view_of_def)

lemma view_id: "view_of tasks w i = Some t \<Longrightarrow> ti_task_id t = i"
  by (auto simp: view_of_def dest: find_task_id)

lemma saved_ok:
  assumes s: "ok (tr_store w)" "task_world_ok (view_of tasks w) w" and k: "tr_workers w i = Some k" "live (wk_phase k)"
    and k': "worker_ok i (k\<lparr>wk_phase := p\<rparr>) (Some t)" and t: "ti_task_id t = i"
  shows "ok (tr_store (save_then ops i t p w)) \<and>
    task_world_ok (view_of tasks (save_then ops i t p w)) (save_then ops i t p w)"
proof -
  obtain e s' where sv: "so_save ops t (tr_store w) = (e, s')" by fastforce
  note v = view_save [OF s(1) sv]
  have "save_then ops i t p w = (w\<lparr>tr_workers := (tr_workers w)(i := Some (k\<lparr>wk_phase := p\<rparr>))\<rparr>)\<lparr>tr_store := s'\<rparr>"
    by (simp add: save_then_def set_phase_def sv k)
  moreover have "view_of tasks ((w\<lparr>tr_workers := (tr_workers w)(i := Some (k\<lparr>wk_phase := p\<rparr>))\<rparr>)\<lparr>tr_store := s'\<rparr>)
      = (view_of tasks w)(i \<mapsto> t)"
    using v t by (simp add: view_of_def)
  ultimately show ?thesis
    using worker_write_ok [OF s(2) k k'] v by simp
qed

text \<open>The worker's steps.\<close>

lemma continue_ok:
  assumes s: "ok (tr_store w)" "task_world_ok (view_of tasks w) w" and k: "tr_workers w i = Some k"
    and c: "continue_worker ops fo now i (wk_phase k) w = Some w'"
  shows "ok (tr_store w') \<and> task_world_ok (view_of tasks w') w'"
proof -
  note e = task_world_okE [OF s(2) k]
  have move: "ok (tr_store (set_phase i p w)) \<and> task_world_ok (view_of tasks (set_phase i p w)) (set_phase i p w)"
    if "worker_ok i (k\<lparr>wk_phase := p\<rparr>) (view_of tasks w i)" "live p \<Longrightarrow> live (wk_phase k)" for p
    using set_phase_ok [OF s(2) k that] s(1) by (simp add: set_phase_eq [OF k])
  have stop: "ok (tr_store (set_phase i p w)) \<and> task_world_ok (view_of tasks (set_phase i p w)) (set_phase i p w)"
    if "\<not> live p" for p
    by (rule move) (use e that in \<open>auto intro: worker_ok_stop\<close>)
  have here: "worker_ok i (k\<lparr>wk_phase := p\<rparr>) (view_of tasks w i)"
    if "live (wk_phase k)" "\<And>t. phase_ok i k t \<Longrightarrow> phase_ok i (k\<lparr>wk_phase := p\<rparr>) t" for p
    using worker_ok_move [OF e(1)] that by blast
  note set_phase_simps = set_phase_eq [OF k] release_permit_def set_phase_def k
  show ?thesis
  proof (cases "wk_phase k")
    case Acquiring
    have "worker_ok i (k\<lparr>wk_phase := Fetching\<rparr>) (view_of tasks w i)"
      by (rule here) (simp_all add: Acquiring live_def phase_ok_def)
    from move [OF this] Acquiring c show ?thesis
      by (auto simp: continue_worker_def live_def set_phase_simps split: if_splits)
  next
    case Fetching
    then obtain t where t: "view_of tasks w i = Some t" "is_active (ti_status t)" "phase_ok i k t"
      using worker_ok_live [OF e(1)] by (auto simp: live_def)
    let ?p = "SavingRunning (t\<lparr>ti_status := Running,
        ti_started_at := (case ti_started_at t of None \<Rightarrow> Some now | Some x \<Rightarrow> Some x)\<rparr>)"
    have w': "w' = set_phase i ?p w"
      using c t by (auto simp: continue_worker_def Fetching fetch_and_mark_def view_get [OF s(1)] is_active_def)
    have "worker_ok i (k\<lparr>wk_phase := ?p\<rparr>) (view_of tasks w i)"
      by (rule worker_ok_move [OF e(1)]) (use t Fetching in \<open>auto simp: live_def phase_ok_def view_id\<close>)
    from move [OF this] show ?thesis by (simp add: w' Fetching live_def)
  next
    case (SavingRunning info)
    then have lk: "live (wk_phase k)" by (simp add: live_def)
    then obtain t where t: "view_of tasks w i = Some t" "is_active (ti_status t)" "phase_ok i k t"
        "ti_retry_count t \<le> retry_limit (wk_retry k)"
      using worker_ok_live [OF e(1)] by auto
    obtain x s' where sv: "so_save ops info (tr_store w) = (x, s')" by fastforce
    note v = view_save [OF s(1) sv]
    let ?k = "k\<lparr>wk_phase := Calling, wk_calls := wk_calls k + 1\<rparr>"
    have w': "w' = w\<lparr>tr_store := s', tr_workers := (tr_workers w)(i := Some ?k)\<rparr>"
      using c v sv by (simp add: continue_worker_def SavingRunning save_running_def count_call_def set_phase_def k)
    have "worker_ok i ?k (Some info)" and id: "ti_task_id info = i"
      using t by (auto simp: worker_ok_def phase_ok_def SavingRunning Let_def is_active_def)
    from worker_write_ok [OF s(2) k lk this(1)] v id show ?thesis by (simp add: w' view_of_def)
  next
    case (Refetching outcome)
    then obtain t where t: "view_of tasks w i = Some t" "is_active (ti_status t)" "phase_ok i k t"
        "ti_retry_count t \<le> retry_limit (wk_retry k)"
      using worker_ok_live [OF e(1)] by (auto simp: live_def)
    have w': "w' = set_phase i (after_call fo now (wk_retry k) outcome t) w"
      using c t by (auto simp: continue_worker_def Refetching refetch_def view_get [OF s(1)] is_active_def k)
    have "worker_ok i (k\<lparr>wk_phase := after_call fo now (wk_retry k) outcome t\<rparr>) (view_of tasks w i)"
      by (rule worker_ok_move [OF e(1)])
        (use t Refetching in \<open>auto simp: live_def phase_ok_def after_call_def view_id is_terminal_def retry_limit_def
           split: sum.splits option.splits\<close>)
    from move [OF this] show ?thesis by (simp add: w' Refetching live_def)
  next
    case (CheckingTerminal info)
    then obtain t where t: "view_of tasks w i = Some t" "is_active (ti_status t)"
      using worker_ok_live [OF e(1)] by (auto simp: live_def)
    have w': "w' = set_phase i (SavingTerminal info) w"
      using c t by (auto simp: continue_worker_def CheckingTerminal check_terminal_def view_get [OF s(1)] is_active_def)
    have "worker_ok i (k\<lparr>wk_phase := SavingTerminal info\<rparr>) (view_of tasks w i)"
      by (rule here) (simp_all add: CheckingTerminal live_def phase_ok_def)
    from move [OF this] show ?thesis by (simp add: w' CheckingTerminal live_def)
  next
    case (SavingTerminal info)
    then have lk: "live (wk_phase k)" by (simp add: live_def)
    then have id: "ti_task_id info = i"
      using e(1) by (auto simp: worker_ok_def phase_ok_def SavingTerminal Let_def)
    have "worker_ok i (k\<lparr>wk_phase := Draining\<rparr>) (Some info)"
      by (rule worker_ok_stop [OF e(1)]) (simp add: live_def)
    from saved_ok [OF s k lk this id] c show ?thesis by (simp add: continue_worker_def SavingTerminal)
  next
    case (SavingRetry info delay)
    then have lk: "live (wk_phase k)" by (simp add: live_def)
    then have id: "ti_task_id info = i" and "worker_ok i (k\<lparr>wk_phase := Sleeping delay\<rparr>) (Some info)"
      using e(1) by (auto simp: worker_ok_def phase_ok_def SavingRetry Let_def is_active_def)
    from saved_ok [OF s k lk this(2,1)] c show ?thesis by (simp add: continue_worker_def SavingRetry)
  next
    case (Sleeping delay)
    have "worker_ok i (k\<lparr>wk_phase := Acquiring\<rparr>) (view_of tasks w i)"
      by (rule here) (simp_all add: Sleeping live_def phase_ok_def)
    from move [OF this] c show ?thesis by (simp add: continue_worker_def Sleeping live_def)
  next
    case Draining
    with c stop [of Unlisting] show ?thesis by (simp add: continue_worker_def live_def)
  next
    case Unlisting
    have "stopped i (set_phase i Untokening w)" by (simp add: stopped_def set_phase_simps live_def)
    moreover have "w' = (set_phase i Untokening w)\<lparr>tr_handles := tr_handles (set_phase i Untokening w) - {i}\<rparr>"
      by (rule task_world.equality) (use c in \<open>auto simp: continue_worker_def Unlisting set_phase_simps\<close>)
    ultimately show ?thesis
      using stop [of Untokening] task_world_ok_unlist [of _ "set_phase i Untokening w" i] by (simp add: live_def)
  next
    case Untokening
    with c stop [of Ended] show ?thesis by (auto simp: continue_worker_def live_def set_phase_simps)
  qed (use c in \<open>simp_all add: continue_worker_def\<close>)
qed

lemma worker_act_ok:
  assumes s: "ok (tr_store w)" "task_world_ok (view_of tasks w) w" and c: "worker_act ops fo i ev w = Some w'"
  shows "ok (tr_store w') \<and> task_world_ok (view_of tasks w') w'"
proof -
  obtain k where k: "tr_workers w i = Some k" using c by (auto simp: worker_act_def split: option.splits)
  note e = task_world_okE [OF s(2) k]
  show ?thesis
  proof (cases ev)
    case (Continue now)
    with c k continue_ok [OF s k] show ?thesis by (simp add: worker_act_def)
  next
    case (CallReturns outcome)
    with c k have ph: "wk_phase k = Calling" and w': "w' = set_phase i (Refetching outcome) (release_permit w)"
      by (auto simp: worker_act_def split: if_splits)
    have "worker_ok i (k\<lparr>wk_phase := Refetching outcome\<rparr>) (view_of tasks w i)"
      by (rule worker_ok_move [OF e(1)]) (simp_all add: ph live_def phase_ok_def)
    then show ?thesis
      using s k by (simp add: w' set_phase_eq worker_step_ok ph live_def)
  next
    case Kill
    with c k have w': "w' = kill_worker i (wk_phase k) w" by (auto simp: worker_act_def split: if_splits)
    have "worker_ok i (k\<lparr>wk_phase := Aborted\<rparr>) (view_of tasks w i)"
      by (rule worker_ok_stop [OF e(1)]) (simp add: live_def)
    then have "task_world_ok (view_of tasks w) (w\<lparr>tr_workers := (tr_workers w)(i := Some (k\<lparr>wk_phase := Aborted\<rparr>))\<rparr>)"
      by (rule worker_step_ok [OF s(2) k]) (simp add: live_def)
    then show ?thesis
      using s k by (simp add: w' kill_worker_def set_phase_eq)
  qed
qed

text \<open>Submission.\<close>

lemma admittedE:
  assumes "task_world_ok (view_of tasks w) w" "tr_admitted w i = Some a"
  obtains t where "view_of tasks w i = Some t" "is_active (ti_status t)" "ti_retry_count t = 0"
    "i \<in> tr_used w" "tr_workers w i = None"
proof -
  have "tr_admitted w i \<noteq> None" using assms(2) by simp
  with assms(1) that show thesis unfolding task_world_ok_def submits_ok_def by blast
qed

lemma admit_ok:
  assumes s: "ok (tr_store w)" "task_world_ok (view_of tasks w) w" and c: "admit ops n i m retry now w = Some w'"
  shows "ok (tr_store w') \<and> task_world_ok (view_of tasks w') w'"
proof -
  let ?w1 = "w\<lparr>tr_used := insert i (tr_used w)\<rparr>"
  let ?w2 = "?w1\<lparr>tr_admitting := Some (fresh_task i m retry now, retry)\<rparr>"
  have "tr_admitting w = None"
    by (cases "tr_admitting w") (use c in \<open>simp_all add: admit_def\<close>)
  moreover have "i \<notin> tr_used w" by (rule notI) (use c in \<open>simp add: admit_def\<close>)
  ultimately have g: "tr_admitting w = None" "i \<notin> tr_used w" by simp_all
  then have w': "w' = ?w1 \<or> w' = ?w2"
    using c by (auto simp: admit_def Let_def list [OF s(1)] split: if_splits)
  have new: "tr_workers w i = None" "tr_admitted w i = None" "view_of tasks w i = None"
  proof -
    show "tr_workers w i = None" using task_world_okE(2) [OF s(2)] g(2) by (cases "tr_workers w i") auto
    show "tr_admitted w i = None" using g(2) by (cases "tr_admitted w i") (auto elim: admittedE [OF s(2)])
    show "view_of tasks w i = None" using s(2) g(2) unfolding task_world_ok_def submits_ok_def by blast
  qed
  have cb: "view_of tasks ?w1 = view_of tasks w" "view_of tasks ?w2 = view_of tasks w" by (simp_all add: view_of_def)
  have sr: "submit_returned j ?w1 \<and> submit_returned j ?w2" if "submit_returned j w" for j
    using that g by (auto simp: submit_returned_def fresh_task_def)
  have "task_world_ok (view_of tasks w) ?w1 \<and> task_world_ok (view_of tasks w) ?w2"
  proof -
    have "cancel_ok (view_of tasks w) ?w1" "cancel_ok (view_of tasks w) ?w2"
      by (rule cancel_ok_transfer [of "view_of tasks w" w];
          use s(2) sr in \<open>simp add: task_world_ok_def stopped_def\<close>)+
    moreover have "workers_ok (view_of tasks w) ?w1" "workers_ok (view_of tasks w) ?w2"
      using s(2) by (auto simp: task_world_ok_def workers_ok_def)
    moreover have "submits_ok (view_of tasks w) ?w1" "submits_ok (view_of tasks w) ?w2"
      using s(2) g new by (auto simp: task_world_ok_def submits_ok_def fresh_task_def Let_def)
    moreover have "sweeps_ok (view_of tasks w) ?w1" "sweeps_ok (view_of tasks w) ?w2"
      using s(2) g by (auto simp: task_world_ok_def sweeps_ok_def quiet_def admitting_id_def fresh_task_def)
    ultimately show ?thesis by (simp add: task_world_ok_def)
  qed
  with w' s(1) cb show ?thesis by auto
qed

lemma persist_ok:
  assumes s: "ok (tr_store w)" "task_world_ok (view_of tasks w) w" and c: "persist ops w = Some w'"
  shows "ok (tr_store w') \<and> task_world_ok (view_of tasks w') w'"
proof -
  obtain info retry where a: "tr_admitting w = Some (info, retry)" using c by (auto simp: persist_def split: option.splits)
  let ?i = "ti_task_id info"
  obtain e s' where sv: "so_save ops info (tr_store w) = (e, s')" by fastforce
  note v = view_save [OF s(1) sv]
  let ?w1 = "w\<lparr>tr_admitting := None, tr_admitted := (tr_admitted w)(?i := Some (ti_module_id info, retry))\<rparr>"
  have w': "w' = ?w1\<lparr>tr_store := s'\<rparr>"
    by (rule task_world.equality) (use c v in \<open>auto simp: persist_def a sv\<close>)
  have g: "ti_status info = Pending" "ti_retry_count info = 0" "?i \<in> tr_used w" "view_of tasks w ?i = None"
      "tr_workers w ?i = None" "tr_admitted w ?i = None"
    using s(2) a by (auto simp: task_world_ok_def submits_ok_def Let_def)
  have sr: "submit_returned j ?w1" "j \<noteq> ?i" if "submit_returned j w" for j
    using that a by (auto simp: submit_returned_def)
  let ?r = "(view_of tasks w)(?i \<mapsto> info)"
  have "cancel_ok ?r ?w1"
    by (rule cancel_ok_transfer [of "view_of tasks w" w])
      (use s(2) sr in \<open>auto simp: task_world_ok_def stopped_def active_in_def\<close>)
  moreover have "workers_ok ?r ?w1"
    using s(2) g by (auto simp: task_world_ok_def workers_ok_def)
  moreover have "submits_ok ?r ?w1"
    using s(2) g by (auto simp: task_world_ok_def submits_ok_def is_active_def)
  moreover have "sweeps_ok ?r ?w1"
    using s(2) a by (auto simp: task_world_ok_def sweeps_ok_def quiet_def admitting_id_def active_in_def)
  ultimately have "task_world_ok ?r ?w1" by (simp add: task_world_ok_def)
  moreover have "view_of tasks w' = ?r" using v by (simp add: w' view_of_def)
  ultimately show ?thesis using v by (simp add: w')
qed

lemma spawn_ok:
  assumes s: "ok (tr_store w)" "task_world_ok (view_of tasks w) w" and c: "spawn_worker i w = Some w'"
  shows "ok (tr_store w') \<and> task_world_ok (view_of tasks w') w'"
proof -
  obtain m retry where a: "tr_admitted w i = Some (m, retry)"
    using c by (auto simp: spawn_worker_def split: option.splits)
  let ?k = "\<lparr>wk_module = m, wk_retry = retry, wk_phase = Acquiring, wk_abort = False, wk_calls = 0\<rparr>"
  have w': "w' = w\<lparr>tr_admitted := (tr_admitted w)(i := None), tr_tokens := insert i (tr_tokens w),
      tr_unregistered := insert i (tr_unregistered w), tr_workers := (tr_workers w)(i := Some ?k)\<rparr>"
    using c a by (simp add: spawn_worker_def)
  obtain t where t: "view_of tasks w i = Some t" "is_active (ti_status t)" "ti_retry_count t = 0"
      "i \<in> tr_used w" "tr_workers w i = None"
    using admittedE [OF s(2) a] .
  have sr: "submit_returned j w'" "j \<noteq> i" if "submit_returned j w" for j
    using that a by (auto simp: submit_returned_def w')
  have v: "view_of tasks w' = view_of tasks w" by (simp add: view_of_def w')
  have "cancel_ok (view_of tasks w) w'"
    by (rule cancel_ok_transfer [of "view_of tasks w" w])
      (use s(2) sr in \<open>auto simp: task_world_ok_def stopped_def w'\<close>)
  moreover have "workers_ok (view_of tasks w) w'"
    using s(2) t by (auto simp: task_world_ok_def workers_ok_def w' worker_ok_def phase_ok_def)
  moreover have "submits_ok (view_of tasks w) w'"
  proof -
    have "ti_task_id info \<noteq> i" if "tr_admitting w = Some (info, r)" for info r
      using s(2) a that by (auto simp: task_world_ok_def submits_ok_def Let_def)
    then show ?thesis using s(2) by (auto simp: task_world_ok_def submits_ok_def w' Let_def)
  qed
  moreover have "sweeps_ok (view_of tasks w) w'"
    using s(2) by (auto simp: task_world_ok_def sweeps_ok_def quiet_def admitting_id_def w')
  ultimately show ?thesis using s(1) by (simp add: task_world_ok_def v) (simp add: w')
qed

lemma register_ok:
  assumes s: "ok (tr_store w)" "task_world_ok (view_of tasks w) w" and c: "register_handle i w = Some w'"
  shows "ok (tr_store w') \<and> task_world_ok (view_of tasks w') w'"
proof -
  have iu: "i \<in> tr_unregistered w" using c by (auto simp: register_handle_def split: if_splits)
  then obtain k where k: "tr_workers w i = Some k"
    using s(2) by (force simp: task_world_ok_def submits_ok_def)
  obtain h where w': "w' = w\<lparr>tr_unregistered := tr_unregistered w - {i}, tr_handles := h\<rparr>"
    and h: "h = (if flagged_finished (wk_phase k) then tr_handles w else insert i (tr_handles w))"
  proof
    show "w' = w\<lparr>tr_unregistered := tr_unregistered w - {i}, tr_handles := (if flagged_finished (wk_phase k) then tr_handles w else insert i (tr_handles w))\<rparr>"
      by (cases "flagged_finished (wk_phase k)")
        (use c iu k in \<open>auto simp: register_handle_def phase_of_def Let_def intro!: task_world.equality\<close>)
  qed simp
  have fl: "flagged_finished (wk_phase k) \<Longrightarrow> \<not> live (wk_phase k)"
    by (simp add: flagged_finished_def live_def split: phase.splits)
  have v: "view_of tasks w' = view_of tasks w" by (simp add: view_of_def w')
  have "cancel_ok (view_of tasks w) w'"
    by (rule cancel_ok_transfer [of "view_of tasks w" w])
      (use s(2) in \<open>auto simp: task_world_ok_def stopped_def submit_returned_def w'\<close>)
  moreover have "workers_ok (view_of tasks w) w'"
    using s(2) k fl by (auto simp: task_world_ok_def workers_ok_def w' h)
  moreover have "submits_ok (view_of tasks w) w'"
    using s(2) by (auto simp: task_world_ok_def submits_ok_def w' Let_def)
  moreover have "sweeps_ok (view_of tasks w) w'"
    using s(2) by (auto simp: task_world_ok_def sweeps_ok_def quiet_def admitting_id_def w')
  ultimately show ?thesis using s(1) by (simp add: task_world_ok_def v) (simp add: w')
qed

text \<open>Cancellation. A change of the lock holder's phase, of the handles and of abort requests.\<close>

lemma cancel_update_ok:
  assumes ok: "task_world_ok rec w"
    and c: "\<And>i c. tr_cancel w' = Some (i, c) \<Longrightarrow> cancel_point_ok rec w i c"
    and h: "\<And>i k. tr_workers w i = Some k \<Longrightarrow> live (wk_phase k) \<Longrightarrow>
        i \<in> tr_handles w \<or> (\<exists>full. tr_cancel w = Some (i, CancelJoining full)) \<Longrightarrow>
        i \<in> tr_handles w' \<or> (\<exists>full. tr_cancel w' = Some (i, CancelJoining full))"
    and f: "tr_workers w' = tr_workers w" "tr_admitting w' = tr_admitting w" "tr_admitted w' = tr_admitted w"
      "tr_unregistered w' = tr_unregistered w" "tr_used w' = tr_used w" "tr_sweeps w' = tr_sweeps w"
  shows "task_world_ok rec w'"
proof -
  have "workers_ok rec w'"
    unfolding workers_ok_def
  proof (intro conjI allI impI)
    fix i k
    assume "tr_workers w' i = Some k"
    then have k: "tr_workers w i = Some k" using f by simp
    with ok f show "worker_ok i k (rec i)" "i \<in> tr_used w'" by (simp_all add: task_world_ok_def workers_ok_def)
    assume lk: "live (wk_phase k)"
    have "i \<in> tr_unregistered w \<or> (i \<in> tr_handles w \<or> (\<exists>full. tr_cancel w = Some (i, CancelJoining full)))"
      using ok k lk by (simp add: task_world_ok_def workers_ok_def)
    with h [OF k lk] show "i \<in> tr_unregistered w' \<or> i \<in> tr_handles w' \<or> (\<exists>full. tr_cancel w' = Some (i, CancelJoining full))"
      unfolding f by argo
  qed
  moreover have "submits_ok rec w'" using ok f by (simp add: task_world_ok_def submits_ok_def)
  moreover have "cancel_ok rec w'"
    unfolding cancel_ok_def
  proof (intro allI impI)
    fix i p
    assume "tr_cancel w' = Some (i, p)"
    then have "cancel_point_ok rec w i p" by (rule c)
    then show "cancel_point_ok rec w' i p"
      by (rule cancel_point_transfer) (simp_all add: submit_returned_def stopped_def f)
  qed
  moreover have "sweeps_ok rec w'" using ok f by (simp add: task_world_ok_def sweeps_ok_def quiet_def admitting_id_def)
  ultimately show ?thesis by (simp add: task_world_ok_def)
qed

lemma worker_ok_abort [simp]: "worker_ok i (k\<lparr>wk_abort := b\<rparr>) r = worker_ok i k r"
proof -
  have "phase_ok i (k\<lparr>wk_abort := b\<rparr>) t = phase_ok i k t" for t
    by (cases "wk_phase k") (simp_all add: phase_ok_def)
  then show ?thesis by (simp add: worker_ok_def)
qed

lemma request_kill_ok: "task_world_ok rec w \<Longrightarrow> task_world_ok rec (request_kill i w)"
  by (cases "tr_workers w i")
    (auto simp: request_kill_def dest: task_world_okE(1) intro!: worker_step_ok)

lemma request_kill_simps [simp]:
  "tr_cancel (request_kill i w) = tr_cancel w" "tr_store (request_kill i w) = tr_store w"
  "tr_handles (request_kill i w) = tr_handles w"
  by (simp_all add: request_kill_def split: option.splits)

lemma over_not_live: "over p \<Longrightarrow> \<not> live p" "flagged_finished p \<Longrightarrow> \<not> live p"
  by (simp_all add: over_def flagged_finished_def live_def split: phase.splits)

lemma cancel_next_ok:
  assumes s: "ok (tr_store w)" "task_world_ok (view_of tasks w) w" and c: "cancel_next ops now w = Some w'"
  shows "ok (tr_store w') \<and> task_world_ok (view_of tasks w') w'"
proof -
  obtain i p where p: "tr_cancel w = Some (i, p)" using c by (auto simp: cancel_next_def split: option.splits)
  have pt: "cancel_point_ok (view_of tasks w) w i p" using s(2) p by (simp add: task_world_ok_def cancel_ok_def)
  have quit: "task_world_ok (view_of tasks w) (cancel_done w)" if "\<And>full. p \<noteq> CancelJoining full"
    by (rule cancel_update_ok [OF s(2)]) (use p that in \<open>auto simp: cancel_done_def\<close>)
  have goto: "task_world_ok (view_of tasks w) (cancel_at i q w)"
    if "\<And>full. p \<noteq> CancelJoining full" "cancel_point_ok (view_of tasks w) w i q" for q
    by (rule cancel_update_ok [OF s(2)]) (use p that in \<open>auto simp: cancel_at_def\<close>)
  have vw: "view_of tasks (cancel_done w) = view_of tasks w" "tr_store (cancel_done w) = tr_store w"
    "view_of tasks (cancel_at i q w) = view_of tasks w" "tr_store (cancel_at i q w) = tr_store w" for q
    by (simp_all add: view_of_def cancel_done_def cancel_at_def)
  show ?thesis
  proof (cases p)
    case CancelFetching
    then have "w' = cancel_done w \<or> w' = cancel_at i (CancelTaking True) w"
      using c p by (auto simp: cancel_next_def view_get [OF s(1)] split: option.splits if_splits)
    with CancelFetching quit goto [of "CancelTaking True"] pt s(1) vw show ?thesis
      by (auto simp: cancel_point_ok_def)
  next
    case (CancelTaking full)
    show ?thesis
    proof (cases "i \<in> tr_handles w")
      case True
      let ?w1 = "w\<lparr>tr_handles := tr_handles w - {i}, tr_cancel := Some (i, CancelJoining full)\<rparr>"
      have "task_world_ok (view_of tasks w) ?w1"
        by (rule cancel_update_ok [OF s(2)]) (use p pt CancelTaking in \<open>auto simp: cancel_point_ok_def\<close>)
      then have "task_world_ok (view_of tasks w) (request_kill i ?w1)" by (rule request_kill_ok)
      moreover have "w' = request_kill i ?w1"
        by (rule task_world.equality)
          (use c p True CancelTaking in \<open>auto simp: cancel_next_def cancel_at_def request_kill_def split: option.splits\<close>)
      ultimately show ?thesis using s(1) by (simp add: view_of_def)
    next
      case False
      have st: "full \<longrightarrow> stopped i w"
      proof
        assume full
        with pt CancelTaking have sr: "submit_returned i w" by (simp add: cancel_point_ok_def)
        show "stopped i w"
          unfolding stopped_def
        proof (intro allI impI notI)
          fix k
          assume "tr_workers w i = Some k" "live (wk_phase k)"
          with s(2) have "i \<in> tr_unregistered w \<or> i \<in> tr_handles w \<or> (\<exists>f. tr_cancel w = Some (i, CancelJoining f))"
            unfolding task_world_ok_def workers_ok_def by blast
          with sr False p CancelTaking show False by (simp add: submit_returned_def)
        qed
      qed
      have "w' = cancel_at i (CancelDraining full) w" using c p False CancelTaking by (simp add: cancel_next_def)
      with CancelTaking goto [of "CancelDraining full"] pt st s(1) vw show ?thesis
        by (auto simp: cancel_point_ok_def)
    qed
  next
    case (CancelJoining full)
    have w': "w' = cancel_at i (CancelDraining full) w" and st: "stopped i w"
      using c p CancelJoining over_not_live(1)
      by (auto simp: cancel_next_def phase_of_def stopped_def split: option.splits if_splits)
    have "task_world_ok (view_of tasks w) (cancel_at i (CancelDraining full) w)"
      by (rule cancel_update_ok [OF s(2)])
        (use p pt CancelJoining st in \<open>auto simp: cancel_at_def cancel_point_ok_def stopped_def\<close>)
    with w' s(1) vw show ?thesis by simp
  next
    case (CancelDraining full)
    let ?q = "if full then cancel_at i CancelRefetching w else cancel_done w"
    have "w' = ?q\<lparr>tr_tokens := tr_tokens w - {i}\<rparr>"
      by (rule task_world.equality)
        (use c p CancelDraining in \<open>auto simp: cancel_next_def cancel_at_def cancel_done_def Let_def split: if_splits\<close>)
    moreover have "task_world_ok (view_of tasks w) ?q"
      using CancelDraining quit goto [of CancelRefetching] pt by (auto simp: cancel_point_ok_def)
    ultimately show ?thesis using s(1) vw by (auto simp: view_of_def)
  next
    case CancelRefetching
    then have "w' = cancel_done w \<or> (\<exists>t. view_of tasks w i = Some t \<and> is_active (ti_status t) \<and>
        w' = cancel_at i (CancelSaving (t\<lparr>ti_status := TaskCancelled, ti_completed_at := Some now\<rparr>)) w)"
      using c p by (auto simp: cancel_next_def view_get [OF s(1)] split: option.splits if_splits)
    with CancelRefetching quit goto pt s(1) vw view_id show ?thesis
      by (auto simp: cancel_point_ok_def active_in_def)
  next
    case (CancelSaving info)
    obtain e s' where sv: "so_save ops info (tr_store w) = (e, s')" by fastforce
    note v = view_save [OF s(1) sv]
    have id: "ti_task_id info = i" and ca: "ti_status info = TaskCancelled" and st: "stopped i w"
      and sr: "submit_returned i w"
      using pt by (simp_all add: cancel_point_ok_def CancelSaving)
    have w': "w' = cancel_done w\<lparr>tr_store := s'\<rparr>"
      by (rule task_world.equality) (use c p CancelSaving sv in \<open>auto simp: cancel_next_def cancel_done_def\<close>)
    let ?r = "(view_of tasks w)(i \<mapsto> info)"
    have q: "task_world_ok (view_of tasks w) (cancel_done w)" using quit CancelSaving by simp
    have na: "\<not> is_active (ti_status info)" by (simp add: ca is_active_def)
    have adm: "tr_admitted w i = None" "\<And>x r. tr_admitting w = Some (x, r) \<Longrightarrow> ti_task_id x \<noteq> i" "i \<in> tr_used w"
      using sr by (auto simp: submit_returned_def)
    have "workers_ok ?r (cancel_done w)"
      using q st by (auto simp: task_world_ok_def workers_ok_def worker_ok_def stopped_def cancel_done_def)
    moreover have "submits_ok ?r (cancel_done w)"
      using q adm by (auto simp: task_world_ok_def submits_ok_def cancel_done_def Let_def)
    moreover have "cancel_ok ?r (cancel_done w)" by (simp add: cancel_ok_def cancel_done_def)
    moreover have "sweeps_ok ?r (cancel_done w)"
      using q na by (auto simp: task_world_ok_def sweeps_ok_def quiet_def active_in_def)
    ultimately have "task_world_ok ?r (cancel_done w)" by (simp add: task_world_ok_def)
    moreover have "view_of tasks w' = ?r" using v id by (simp add: w' view_of_def)
    ultimately show ?thesis using v by (simp add: w')
  qed
qed

lemma cancel_dropped_cases:
  assumes "cancel_dropped w = Some w'" "tr_cancel w = Some (i, p)"
  shows "w' = cancel_done w \<and> (\<forall>full. p = CancelJoining full \<longrightarrow> stopped i w) \<or>
    w' = cancel_done (w\<lparr>tr_handles := insert i (tr_handles w)\<rparr>)"
proof (cases p)
  case (CancelJoining full)
  then show ?thesis
    using assms over_not_live
    by (cases "tr_workers w i") (auto simp: cancel_dropped_def phase_of_def stopped_def split: if_splits)
qed (use assms in \<open>simp_all add: cancel_dropped_def\<close>)

lemma cancel_dropped_ok:
  assumes s: "ok (tr_store w)" "task_world_ok (view_of tasks w) w" and c: "cancel_dropped w = Some w'"
  shows "ok (tr_store w') \<and> task_world_ok (view_of tasks w') w'"
proof -
  obtain i p where p: "tr_cancel w = Some (i, p)" using c by (auto simp: cancel_dropped_def split: option.splits)
  note cs = cancel_dropped_cases [OF c p]
  then have f: "tr_workers w' = tr_workers w" "tr_admitting w' = tr_admitting w" "tr_admitted w' = tr_admitted w"
      "tr_unregistered w' = tr_unregistered w" "tr_used w' = tr_used w" "tr_sweeps w' = tr_sweeps w"
      "tr_cancel w' = None" "tr_store w' = tr_store w"
    by (auto simp: cancel_done_def)
  have "task_world_ok (view_of tasks w) w'"
  proof (rule cancel_update_ok [OF s(2)])
    fix j k
    assume "tr_workers w j = Some k" "live (wk_phase k)"
      "j \<in> tr_handles w \<or> (\<exists>full. tr_cancel w = Some (j, CancelJoining full))"
    with cs p show "j \<in> tr_handles w' \<or> (\<exists>full. tr_cancel w' = Some (j, CancelJoining full))"
      by (auto simp: cancel_done_def stopped_def)
  qed (simp_all add: f)
  with s(1) show ?thesis by (simp add: view_of_def f)
qed

text \<open>Sweeps.\<close>

lemma sweep_add_ok:
  assumes ok: "task_world_ok rec w" and new: "\<forall>i \<in> set is. quiet rec w i"
  shows "task_world_ok rec (w\<lparr>tr_sweeps := tr_sweeps w @ map (\<lambda>i. (i, b)) is\<rparr>)"
proof -
  have "cancel_ok rec (w\<lparr>tr_sweeps := tr_sweeps w @ map (\<lambda>i. (i, b)) is\<rparr>)"
    by (rule cancel_ok_transfer [of rec w]) (use ok in \<open>simp_all add: task_world_ok_def submit_returned_def stopped_def\<close>)
  moreover have "sweeps_ok rec (w\<lparr>tr_sweeps := tr_sweeps w @ map (\<lambda>i. (i, b)) is\<rparr>)"
    using ok new by (auto simp: task_world_ok_def sweeps_ok_def quiet_def admitting_id_def)
  ultimately show ?thesis using ok by (simp add: task_world_ok_def workers_ok_def submits_ok_def)
qed

lemma terminal_quiet:
  assumes s: "ok (tr_store w)" "task_world_ok (view_of tasks w) w"
    and t: "t \<in> set (tasks (tr_store w))" "is_terminal (ti_status t)"
  shows "quiet (view_of tasks w) w (ti_task_id t)"
proof -
  have r: "view_of tasks w (ti_task_id t) = Some t"
    using t(1) find_task_Some [OF ids [OF s(1)]] by (simp add: view_of_def)
  moreover have "admitting_id w \<noteq> Some (ti_task_id t)"
    using s(2) r by (auto simp: task_world_ok_def submits_ok_def admitting_id_def Let_def)
  moreover have "ti_task_id t \<in> tr_used w"
    using s(2) r unfolding task_world_ok_def submits_ok_def by blast
  ultimately show ?thesis using t(2) by (auto simp: quiet_def active_in_def is_terminal_def is_active_def)
qed

lemma sweep_start_ok:
  assumes s: "ok (tr_store w)" "task_world_ok (view_of tasks w) w"
    and w': "w' = sweep_start ops now x w \<or> w' = reap_start ops now x w"
  shows "ok (tr_store w') \<and> task_world_ok (view_of tasks w') w'"
proof -
  obtain ts b where ts: "set ts \<subseteq> {t \<in> set (tasks (tr_store w)). is_terminal (ti_status t)}"
    and eq: "w' = w\<lparr>tr_sweeps := tr_sweeps w @ map (\<lambda>i. (i, b)) (map ti_task_id ts)\<rparr>"
  proof (cases "w' = sweep_start ops now x w")
    case True
    with that [of "filter (cleanup_due now x) (tasks (tr_store w))" True] show ?thesis
      by (auto simp: sweep_start_def list [OF s(1)] cleanup_due_def comp_def)
  next
    case False
    with w' that [of "filter (has_expired (now - x)) (tasks (tr_store w))" False] show ?thesis
      by (auto simp: reap_start_def expired [OF s(1)] has_expired_def comp_def)
  qed
  have "task_world_ok (view_of tasks w) w'"
    unfolding eq by (rule sweep_add_ok [OF s(2)]) (use ts terminal_quiet [OF s] in auto)
  with s(1) show ?thesis by (simp add: eq view_of_def)
qed

lemma sweep_next_ok:
  assumes s: "ok (tr_store w)" "task_world_ok (view_of tasks w) w" and c: "sweep_next ops busy w = Some w'"
  shows "ok (tr_store w') \<and> task_world_ok (view_of tasks w') w'"
proof -
  obtain i full rest where sw: "tr_sweeps w = (i, full) # rest"
    using c by (auto simp: sweep_next_def split: list.splits)
  obtain e s' where d: "so_delete ops i (tr_store w) = (e, s')" by fastforce
  note s' = delete [OF s(1) d]
  have q: "quiet (view_of tasks w) w i" using s(2) sw by (auto simp: task_world_ok_def sweeps_ok_def)
  have st: "stopped i w"
    using q task_world_okE(5) [OF s(2)] by (auto simp: stopped_def quiet_def)
  have v: "view_of tasks w' = (view_of tasks w)(i := None)"
    using c sw d s' by (auto simp: sweep_next_def view_of_def find_task_filter fun_eq_iff)
  have f: "tr_workers w' = tr_workers w" "tr_admitting w' = tr_admitting w" "tr_admitted w' = tr_admitted w"
      "tr_unregistered w' = tr_unregistered w" "tr_used w' = tr_used w" "tr_sweeps w' = rest"
      "tr_cancel w' = tr_cancel w" "tr_store w' = s'" "tr_handles w - {i} \<subseteq> tr_handles w'"
    using c sw d by (auto simp: sweep_next_def split: if_splits)
  let ?r = "(view_of tasks w)(i := None)"
  have "workers_ok ?r w'"
  proof -
    have "j \<noteq> i" if "tr_workers w j = Some k" "live (wk_phase k)" for j k
      using st that by (auto simp: stopped_def)
    then show ?thesis
      using s(2) f(9) unfolding task_world_ok_def workers_ok_def worker_ok_def f by fastforce
  qed
  moreover have "submits_ok ?r w'"
  proof -
    have "j \<noteq> i" if "tr_admitted w j \<noteq> None" for j
      using that q by (auto simp: quiet_def active_in_def elim: admittedE [OF s(2)])
    then show ?thesis using s(2) unfolding task_world_ok_def submits_ok_def f by (simp add: Let_def)
  qed
  moreover have "cancel_ok ?r w'"
    by (rule cancel_ok_transfer [of "view_of tasks w" w])
      (use s(2) q in \<open>auto simp: task_world_ok_def f submit_returned_def stopped_def quiet_def active_in_def\<close>)
  moreover have "sweeps_ok ?r w'"
    using s(2) sw by (auto simp: task_world_ok_def sweeps_ok_def f quiet_def active_in_def admitting_id_def)
  ultimately show ?thesis using s' by (simp add: task_world_ok_def v f)
qed

lemma task_act_ok:
  assumes s: "ok (tr_store w)" "task_world_ok (view_of tasks w) w"
    and c: "task_act ops fo n ev w = Some w'" and a: "after_submit ev w"
  shows "ok (tr_store w') \<and> task_world_ok (view_of tasks w') w'"
proof (cases ev)
  case (CancelStart i)
  then have w': "w' = cancel_at i CancelFetching w" "tr_cancel w = None" "submit_returned i w"
    using c a by (auto simp: after_submit_def split: if_splits)
  have "task_world_ok (view_of tasks w) w'"
    by (rule cancel_update_ok [OF s(2)]) (use w' in \<open>auto simp: cancel_at_def cancel_point_ok_def\<close>)
  with s(1) w' show ?thesis by (simp add: view_of_def cancel_at_def)
next
  case (StopStart i)
  then have w': "w' = cancel_at i (CancelTaking False) w" "tr_cancel w = None"
    using c by (auto split: if_splits)
  have "task_world_ok (view_of tasks w) w'"
    by (rule cancel_update_ok [OF s(2)]) (use w' in \<open>auto simp: cancel_at_def cancel_point_ok_def\<close>)
  with s(1) w' show ?thesis by (simp add: view_of_def cancel_at_def)
next
  case (Admit i m retry now)
  with c show ?thesis by (simp add: admit_ok [OF s])
next
  case Persist
  with c show ?thesis by (simp add: persist_ok [OF s])
next
  case (Spawn i)
  with c show ?thesis by (simp add: spawn_ok [OF s])
next
  case (Register i)
  with c show ?thesis by (simp add: register_ok [OF s])
next
  case (Work i x)
  with c show ?thesis by (simp add: worker_act_ok [OF s])
next
  case (CancelNext now)
  with c show ?thesis by (simp add: cancel_next_ok [OF s])
next
  case CancelDropped
  with c show ?thesis by (simp add: cancel_dropped_ok [OF s])
next
  case (SweepNext busy)
  with c show ?thesis by (simp add: sweep_next_ok [OF s])
next
  case (SweepStart now x)
  with c show ?thesis using sweep_start_ok [OF s, of w' now x] by simp
next
  case (ReapStart now x)
  with c show ?thesis using sweep_start_ok [OF s, of w' now x] by simp
qed

lemma init_ok: "ok s \<Longrightarrow> tasks s = [] \<Longrightarrow> task_world_ok (view_of tasks (task_world_init s k)) (task_world_init s k)"
  by (simp add: task_world_init_def task_world_defs view_of_def find_task_def)

lemma task_run_ok:
  assumes "task_run ops fo n True u w" "ok (tr_store u)" "task_world_ok (view_of tasks u) u"
  shows "ok (tr_store w) \<and> task_world_ok (view_of tasks w) w"
  using assms by (induction rule: task_run.induct) (blast dest: task_act_ok)+

end

text \<open>What an event does to the records: nothing; a write by a live worker or a canceller to an active
  record; the first save of a submission; the deletion of a quiet record; or it only takes the admission lock.\<close>

definition record_effect ::
  "nat \<Rightarrow> (string \<Rightarrow> task_info option) \<Rightarrow> 's task_world \<Rightarrow> (string \<Rightarrow> task_info option) \<Rightarrow> 's task_world \<Rightarrow> bool" where
  "record_effect n rec w rec' w' \<longleftrightarrow> tr_used w \<subseteq> tr_used w' \<and>
     (rec' = rec \<and> tr_admitting w' = tr_admitting w \<or>
      (\<exists>t. rec' = rec(ti_task_id t \<mapsto> t) \<and> active_in rec (ti_task_id t) \<and> tr_admitting w' = tr_admitting w) \<or>
      (\<exists>t r. rec' = rec(ti_task_id t \<mapsto> t) \<and> tr_admitting w = Some (t, r) \<and> tr_admitting w' = None) \<or>
      (\<exists>i. rec' = rec(i := None) \<and> \<not> active_in rec i \<and> tr_admitting w' = tr_admitting w) \<or>
      (rec' = rec \<and> tr_admitting w = None \<and> card {i. active_in rec i} < n \<and>
         (\<exists>t r. tr_admitting w' = Some (t, r) \<and> ti_task_id t \<notin> tr_used w)))"

lemma set_phase_frame [simp]:
  "tr_store (set_phase i p w) = tr_store w" "tr_admitting (set_phase i p w) = tr_admitting w"
  "tr_used (set_phase i p w) = tr_used w"
  by (simp_all add: set_phase_def split: option.splits)

lemma count_call_frame [simp]:
  "tr_store (count_call i w) = tr_store w" "tr_admitting (count_call i w) = tr_admitting w"
  "tr_used (count_call i w) = tr_used w"
  by (simp_all add: count_call_def split: option.splits)

lemma other_frame [simp]:
  "tr_admitting (release_permit w) = tr_admitting w" "tr_used (release_permit w) = tr_used w"
  "tr_store (cancel_at i c w) = tr_store w" "tr_admitting (cancel_at i c w) = tr_admitting w"
  "tr_used (cancel_at i c w) = tr_used w" "tr_store (cancel_done w) = tr_store w"
  "tr_admitting (cancel_done w) = tr_admitting w" "tr_used (cancel_done w) = tr_used w"
  "tr_admitting (request_kill i w) = tr_admitting w" "tr_used (request_kill i w) = tr_used w"
  by (simp_all add: release_permit_def cancel_at_def cancel_done_def request_kill_def split: option.splits)

context faithful_store
begin

lemma effect_none:
  "tr_store w' = tr_store w \<Longrightarrow> tr_admitting w' = tr_admitting w \<Longrightarrow> tr_used w' = tr_used w \<Longrightarrow>
     record_effect n (view_of tasks w) w (view_of tasks w') w'"
  by (simp add: record_effect_def view_of_def)

lemma effect_write:
  assumes s: "ok (tr_store w)" and t: "active_in (view_of tasks w) (ti_task_id t)"
    and "tr_store w' = snd (so_save ops t (tr_store w))" "tr_admitting w' = tr_admitting w" "tr_used w' = tr_used w"
  shows "record_effect n (view_of tasks w) w (view_of tasks w') w'"
proof -
  obtain e s' where sv: "so_save ops t (tr_store w) = (e, s')" by fastforce
  have "view_of tasks w' = (view_of tasks w)(ti_task_id t \<mapsto> t)"
    using view_save [OF s sv] assms(3) sv by (simp add: view_of_def)
  with assms show ?thesis by (auto simp: record_effect_def)
qed

lemma continue_effect:
  assumes s: "ok (tr_store w)" "task_world_ok (view_of tasks w) w" and k: "tr_workers w i = Some k"
    and c: "continue_worker ops fo now i (wk_phase k) w = Some w'"
  shows "record_effect n (view_of tasks w) w (view_of tasks w') w'"
proof -
  note e = task_world_okE [OF s(2) k]
  have wr: "active_in (view_of tasks w) (ti_task_id t)"
    if "wk_phase k = SavingRunning t \<or> wk_phase k = SavingTerminal t \<or> (\<exists>d. wk_phase k = SavingRetry t d)" for t
  proof -
    have "live (wk_phase k)" using that by (auto simp: live_def)
    moreover from this e(1) that have "ti_task_id t = i" by (auto simp: worker_ok_def phase_ok_def Let_def)
    ultimately show ?thesis using e(5) by simp
  qed
  show ?thesis
  proof (cases "wk_phase k")
    case (SavingRunning t)
    obtain x s' where sv: "so_save ops t (tr_store w) = (x, s')" by fastforce
    with view_save [OF s(1) sv] c SavingRunning show ?thesis
      by (intro effect_write [OF s(1) wr]) (auto simp: continue_worker_def save_running_def)
  next
    case (SavingTerminal t)
    with c show ?thesis
      by (intro effect_write [OF s(1) wr]) (auto simp: continue_worker_def save_then_def)
  next
    case (SavingRetry t d)
    with c show ?thesis
      by (intro effect_write [OF s(1) wr]) (auto simp: continue_worker_def save_then_def)
  qed (use c in \<open>auto simp: continue_worker_def fetch_and_mark_def refetch_def check_terminal_def
        intro!: effect_none split: if_splits sum.splits option.splits\<close>)
qed

lemma task_act_effect:
  assumes s: "ok (tr_store w)" "task_world_ok (view_of tasks w) w" and c: "task_act ops fo n ev w = Some w'"
  shows "record_effect n (view_of tasks w) w (view_of tasks w') w'"
proof (cases ev)
  case (Admit i m retry now)
  have card: "card {i. active_in (view_of tasks w) i} = active_count (tasks (tr_store w))"
    using active_count_card [OF ids [OF s(1)]] by (simp add: active_ids_def active_in_def view_of_def)
  have "tr_admitting w = None"
    by (cases "tr_admitting w") (use c Admit in \<open>simp_all add: admit_def\<close>)
  moreover have "i \<notin> tr_used w" by (rule notI) (use c Admit in \<open>simp add: admit_def\<close>)
  ultimately show ?thesis
    using c Admit card
    by (auto simp: admit_def list [OF s(1)] record_effect_def view_of_def fresh_task_def Let_def split: if_splits)
next
  case Persist
  obtain t r where a: "tr_admitting w = Some (t, r)" using c Persist by (auto simp: persist_def split: option.splits)
  obtain e s' where sv: "so_save ops t (tr_store w) = (e, s')" by fastforce
  from view_save [OF s(1) sv] a sv c Persist show ?thesis
    by (auto simp: persist_def record_effect_def view_of_def)
next
  case (Work i x)
  then obtain k where k: "tr_workers w i = Some k" using c by (auto simp: worker_act_def split: option.splits)
  show ?thesis
  proof (cases x)
    case (Continue now)
    with c Work k have "continue_worker ops fo now i (wk_phase k) w = Some w'" by (simp add: worker_act_def)
    then show ?thesis by (rule continue_effect [OF s k])
  qed (use c Work k in \<open>auto simp: worker_act_def kill_worker_def intro!: effect_none split: if_splits\<close>)
next
  case (CancelNext now)
  then obtain i p where p: "tr_cancel w = Some (i, p)" using c by (auto simp: cancel_next_def split: option.splits)
  show ?thesis
  proof (cases p)
    case (CancelSaving t)
    with s(2) p have "active_in (view_of tasks w) (ti_task_id t)"
      by (auto simp: task_world_ok_def cancel_ok_def cancel_point_ok_def)
    then show ?thesis
      by (rule effect_write [OF s(1)]) (use c CancelNext p CancelSaving in \<open>auto simp: cancel_next_def\<close>)
  qed (use c CancelNext p in \<open>auto simp: cancel_next_def Let_def intro!: effect_none split: if_splits sum.splits option.splits\<close>)
next
  case (SweepNext busy)
  then obtain i full rest where sw: "tr_sweeps w = (i, full) # rest"
    using c by (auto simp: sweep_next_def split: list.splits)
  obtain e s' where d: "so_delete ops i (tr_store w) = (e, s')" by fastforce
  have "\<not> active_in (view_of tasks w) i" using s(2) sw by (auto simp: task_world_ok_def sweeps_ok_def quiet_def)
  moreover have "view_of tasks w' = (view_of tasks w)(i := None)"
    using c sw d delete [OF s(1) d] SweepNext by (auto simp: sweep_next_def view_of_def find_task_filter fun_eq_iff)
  moreover have "tr_admitting w' = tr_admitting w" "tr_used w' = tr_used w"
    using c sw SweepNext by (auto simp: sweep_next_def)
  ultimately show ?thesis unfolding record_effect_def by blast
qed (use c in \<open>auto simp: spawn_worker_def register_handle_def cancel_dropped_def sweep_start_def reap_start_def Let_def
       intro!: effect_none split: if_splits option.splits sum.splits cancel_phase.splits\<close>)

end

text \<open>A finished record stays as it is until it is deleted, and a deleted one does not come back.\<close>

definition record_settled :: "(string \<Rightarrow> task_info option) \<Rightarrow> 's task_world \<Rightarrow> string \<Rightarrow> task_info \<Rightarrow> bool" where
  "record_settled rec w i t \<longleftrightarrow> i \<in> tr_used w \<and> (rec i = Some t \<or> rec i = None) \<and> admitting_id w \<noteq> Some i"

lemma settled_step:
  "record_settled rec w i t \<Longrightarrow> is_terminal (ti_status t) \<Longrightarrow> record_effect n rec w rec' w' \<Longrightarrow> record_settled rec' w' i t"
  unfolding record_settled_def record_effect_def
proof (elim conjE disjE exE, goal_cases)
qed (auto simp: admitting_id_def active_in_def is_terminal_def is_active_def)

context faithful_store
begin

lemma settled_run:
  assumes "task_run ops fo n True v w" "ok (tr_store v)" "task_world_ok (view_of tasks v) v"
    "record_settled (view_of tasks v) v i t" "is_terminal (ti_status t)"
  shows "record_settled (view_of tasks w) w i t"
  using assms
proof (induction rule: task_run.induct)
  case (step v u ev w)
  then have "ok (tr_store u)" "task_world_ok (view_of tasks u) u" "record_settled (view_of tasks u) u i t"
    using task_run_ok by blast+
  with task_act_effect step.hyps(2) step.prems(4) show ?case by (blast intro: settled_step)
qed

end

text \<open>Capacity.\<close>

definition within_capacity :: "nat \<Rightarrow> (string \<Rightarrow> task_info option) \<Rightarrow> 's task_world \<Rightarrow> bool" where
  "within_capacity n rec w \<longleftrightarrow> finite {i. active_in rec i} \<and>
     card {i. active_in rec i} + (if tr_admitting w = None then 0 else 1) \<le> n"

lemma capacity_step:
  assumes c: "within_capacity n rec w" and e: "record_effect n rec w rec' w'"
  shows "within_capacity n rec' w'"
proof -
  let ?A = "{i. active_in rec i}" and ?A' = "{i. active_in rec' i}"
  have fin: "finite ?A" using c by (simp add: within_capacity_def)
  from e consider (same) "rec' = rec" "tr_admitting w' = tr_admitting w"
    | (shrink) "?A' \<subseteq> ?A" "tr_admitting w' = tr_admitting w"
    | (save) t :: task_info where "?A' \<subseteq> insert (ti_task_id t) ?A" "tr_admitting w \<noteq> None" "tr_admitting w' = None"
    | (lock) "rec' = rec" "card ?A < n" "tr_admitting w' \<noteq> None"
    unfolding record_effect_def
  proof (elim conjE disjE exE)
    fix t :: task_info
    assume "rec' = rec(ti_task_id t \<mapsto> t)" "active_in rec (ti_task_id t)" "tr_admitting w' = tr_admitting w"
    moreover from this have "?A' \<subseteq> ?A" by (auto simp: active_in_def split: if_splits)
    ultimately show thesis using that(2) by blast
  next
    fix t :: task_info and r
    assume "rec' = rec(ti_task_id t \<mapsto> t)" "tr_admitting w = Some (t, r)" "tr_admitting w' = None"
    moreover from this have "?A' \<subseteq> insert (ti_task_id t) ?A" by (auto simp: active_in_def split: if_splits)
    ultimately show thesis using that(3) [of t] by blast
  next
    fix i
    assume "rec' = rec(i := None)" "\<not> active_in rec i" "tr_admitting w' = tr_admitting w"
    moreover from this have "?A' \<subseteq> ?A" by (auto simp: active_in_def split: if_splits)
    ultimately show thesis using that(2) by blast
  qed (use that in simp_all)
  then show ?thesis
  proof cases
    case shrink
    then have "card ?A' \<le> card ?A" "finite ?A'" using fin card_mono finite_subset by blast+
    with c shrink show ?thesis by (auto simp: within_capacity_def)
  next
    case (save t)
    have "card ?A' \<le> card (insert (ti_task_id t) ?A)" using save fin by (intro card_mono) auto
    also have "\<dots> \<le> card ?A + 1" using fin by (simp add: card_insert_if)
    finally show ?thesis
      using c save fin finite_subset [OF save(1)] by (auto simp: within_capacity_def)
  qed (use c in \<open>auto simp: within_capacity_def\<close>)
qed

context faithful_store
begin

lemma capacity_run:
  assumes "task_run ops fo n True v w" "ok (tr_store v)" "task_world_ok (view_of tasks v) v"
    "within_capacity n (view_of tasks v) v"
  shows "within_capacity n (view_of tasks w) w"
  using assms
proof (induction rule: task_run.induct)
  case (step v u ev w)
  then have "ok (tr_store u)" "task_world_ok (view_of tasks u) u" "within_capacity n (view_of tasks u) u"
    using task_run_ok by blast+
  with task_act_effect step.hyps(2) show ?case by (blast intro: capacity_step)
qed

end

subsection \<open>Permits and handles\<close>

definition holders :: "'s task_world \<Rightarrow> string set" where
  "holders w = {i. \<exists>k. tr_workers w i = Some k \<and> holds_permit (wk_phase k)}"

definition resources_ok :: "nat \<Rightarrow> 's task_world \<Rightarrow> bool" where
  "resources_ok m w \<longleftrightarrow> finite (holders w) \<and> tr_permits w + card (holders w) = m \<and>
     (\<forall>i k. tr_workers w i = Some k \<longrightarrow> wk_phase k \<in> {Untokening, Ended} \<longrightarrow> i \<notin> tr_handles w)"

lemma holders_update:
  "tr_workers w' = (tr_workers w)(i := Some k) \<Longrightarrow>
     holders w' = (if holds_permit (wk_phase k) then insert i (holders w) else holders w - {i})"
  by (auto simp: holders_def)

lemma resources_worker:
  assumes ok: "resources_ok m w" and k: "tr_workers w i = Some k"
    and w': "tr_workers w' = (tr_workers w)(i := Some k')"
    and h: "tr_handles w' \<subseteq> tr_handles w" "wk_phase k' \<in> {Untokening, Ended} \<Longrightarrow> i \<notin> tr_handles w'"
    and p: "tr_permits w' + (if holds_permit (wk_phase k') then 1 else 0) =
      tr_permits w + (if holds_permit (wk_phase k) then 1 else 0)"
  shows "resources_ok m w'"
proof -
  have fin: "finite (holders w)" and m: "tr_permits w + card (holders w) = m" using ok by (simp_all add: resources_ok_def)
  have i: "i \<in> holders w \<longleftrightarrow> holds_permit (wk_phase k)" by (simp add: holders_def k)
  have "tr_permits w' + card (holders w') = m"
    using p m fin i card_gt_0_iff [of "holders w"] unfolding holders_update [OF w']
    by (auto simp: card_insert_if card_Diff_singleton split: if_splits)
  then show ?thesis
    using ok h w' fin holders_update [OF w'] unfolding resources_ok_def by auto
qed

lemma resources_frame:
  assumes "resources_ok m w" "holders w' = holders w" "tr_permits w' = tr_permits w"
    "\<And>i k. tr_workers w' i = Some k \<Longrightarrow> wk_phase k \<in> {Untokening, Ended} \<Longrightarrow> i \<notin> tr_handles w'"
  shows "resources_ok m w'"
  using assms by (simp add: resources_ok_def)


lemma holders_simps [simp]:
  "holders (w\<lparr>tr_store := s\<rparr>) = holders w" "holders (cancel_at i c w) = holders w"
  "holders (cancel_done w) = holders w" "holders (w\<lparr>tr_tokens := tk\<rparr>) = holders w"
  "holders (w\<lparr>tr_handles := h\<rparr>) = holders w"
  by (simp_all add: holders_def cancel_at_def cancel_done_def)

lemma more_frame [simp]:
  "tr_workers (cancel_at i c w) = tr_workers w" "tr_workers (cancel_done w) = tr_workers w"
  "tr_handles (cancel_at i c w) = tr_handles w" "tr_handles (cancel_done w) = tr_handles w"
  "tr_permits (cancel_at i c w) = tr_permits w" "tr_permits (cancel_done w) = tr_permits w"
  "tr_permits (request_kill i w) = tr_permits w" "tr_permits (release_permit w) = tr_permits w + 1"
  "tr_permits (set_phase i p w) = tr_permits w" "tr_handles (set_phase i p w) = tr_handles w"
  "tr_handles (count_call i w) = tr_handles w" "tr_permits (count_call i w) = tr_permits w"
  by (simp_all add: cancel_at_def cancel_done_def request_kill_def release_permit_def set_phase_def count_call_def
      split: option.splits)

lemma resources_continue:
  assumes ok: "resources_ok m w" and k: "tr_workers w i = Some k"
    and c: "continue_worker ops fo now i (wk_phase k) w = Some w'"
  shows "resources_ok m w'"
proof -
  have "\<exists>p u. (w' = set_phase i p u \<or> w' = count_call i (set_phase i p u)) \<and> tr_workers u = tr_workers w \<and>
      tr_handles u = (if p = Untokening then tr_handles w - {i} else tr_handles w) \<and>
      (p = Ended \<longrightarrow> wk_phase k = Untokening) \<and>
      tr_permits u + (if holds_permit p then 1 else 0) = tr_permits w + (if holds_permit (wk_phase k) then 1 else 0)"
  proof (cases "wk_phase k")
    case (SavingRunning info)
    obtain e s where "so_save ops info (tr_store w) = (e, s)" by fastforce
    with SavingRunning c have "w' = set_phase i Draining (release_permit (w\<lparr>tr_store := s\<rparr>)) \<or>
        w' = count_call i (set_phase i Calling (w\<lparr>tr_store := s\<rparr>))"
      by (cases e) (auto simp: continue_worker_def save_running_def)
    then show ?thesis
    proof
      assume "w' = set_phase i Draining (release_permit (w\<lparr>tr_store := s\<rparr>))"
      then show ?thesis
        by (intro exI [of _ Draining] exI [of _ "release_permit (w\<lparr>tr_store := s\<rparr>)"])
          (simp add: SavingRunning holds_permit_def)
    next
      assume "w' = count_call i (set_phase i Calling (w\<lparr>tr_store := s\<rparr>))"
      then show ?thesis
        by (intro exI [of _ Calling] exI [of _ "w\<lparr>tr_store := s\<rparr>"]) (simp add: SavingRunning holds_permit_def)
    qed
  next
    case (Refetching outcome)
    then have "\<exists>p. w' = set_phase i p w \<and> p \<notin> {Untokening, Ended} \<and> \<not> holds_permit p"
      using c k by (auto simp: continue_worker_def refetch_def after_call_def holds_permit_def
          split: if_splits sum.splits option.splits)
    then obtain p where "w' = set_phase i p w" "p \<notin> {Untokening, Ended}" "\<not> holds_permit p" by blast
    with Refetching show ?thesis
      by (intro exI [of _ p] exI [of _ w]) (simp add: holds_permit_def)
  next
    case Fetching
    then have "(\<exists>info. w' = set_phase i (SavingRunning info) w) \<or> w' = set_phase i Draining (release_permit w)"
      using c by (auto simp: continue_worker_def fetch_and_mark_def split: if_splits sum.splits option.splits)
    then show ?thesis
    proof (elim disjE exE)
      fix info
      assume "w' = set_phase i (SavingRunning info) w"
      with Fetching show ?thesis
        by (intro exI [of _ "SavingRunning info"] exI [of _ w]) (simp add: holds_permit_def)
    next
      assume "w' = set_phase i Draining (release_permit w)"
      with Fetching show ?thesis
        by (intro exI [of _ Draining] exI [of _ "release_permit w"]) (simp add: holds_permit_def)
    qed
  next
    case (CheckingTerminal info)
    then have "w' = set_phase i (SavingTerminal info) w \<or> w' = set_phase i Draining w"
      using c by (auto simp: continue_worker_def check_terminal_def split: if_splits sum.splits option.splits)
    then obtain p where "w' = set_phase i p w" "p \<in> {SavingTerminal info, Draining}" by blast
    with CheckingTerminal show ?thesis
      by (intro exI [of _ p] exI [of _ w]) (auto simp: holds_permit_def)
  next
    case (SavingTerminal info)
    with c show ?thesis
      by (intro exI [of _ Draining] exI [of _ "w\<lparr>tr_store := snd (so_save ops info (tr_store w))\<rparr>"])
        (simp add: continue_worker_def save_then_def holds_permit_def)
  next
    case (SavingRetry info d)
    with c show ?thesis
      by (intro exI [of _ "Sleeping d"] exI [of _ "w\<lparr>tr_store := snd (so_save ops info (tr_store w))\<rparr>"])
        (simp add: continue_worker_def save_then_def holds_permit_def)
  next
    case Acquiring
    with c show ?thesis
      by (intro exI [of _ Fetching] exI [of _ "w\<lparr>tr_permits := tr_permits w - 1\<rparr>"])
        (simp add: continue_worker_def holds_permit_def split: if_splits)
  next
    case (Sleeping d)
    with c show ?thesis
      by (intro exI [of _ Acquiring] exI [of _ w]) (simp add: continue_worker_def holds_permit_def)
  next
    case Draining
    with c show ?thesis
      by (intro exI [of _ Unlisting] exI [of _ w]) (simp add: continue_worker_def holds_permit_def)
  next
    case Unlisting
    with c show ?thesis
      by (intro exI [of _ Untokening] exI [of _ "w\<lparr>tr_handles := tr_handles w - {i}\<rparr>"])
        (simp add: continue_worker_def holds_permit_def)
  next
    case Untokening
    with c show ?thesis
      by (intro exI [of _ Ended] exI [of _ "w\<lparr>tr_tokens := tr_tokens w - {i}\<rparr>"])
        (simp add: continue_worker_def holds_permit_def)
  qed (use c in \<open>simp_all add: continue_worker_def\<close>)
  then obtain p u where u: "w' = set_phase i p u \<or> w' = count_call i (set_phase i p u)" "tr_workers u = tr_workers w"
      "tr_handles u = (if p = Untokening then tr_handles w - {i} else tr_handles w)"
      "p = Ended \<Longrightarrow> wk_phase k = Untokening"
      "tr_permits u + (if holds_permit p then 1 else 0) = tr_permits w + (if holds_permit (wk_phase k) then 1 else 0)"
    by blast
  from u(1,2) k obtain k' where k': "tr_workers w' = (tr_workers w)(i := Some k')" "wk_phase k' = p"
    by (auto simp: set_phase_def count_call_def)
  have "tr_handles w' = tr_handles u" "tr_permits w' = tr_permits u" using u(1) by auto
  with u(3-5) k' show ?thesis
    by (intro resources_worker [OF ok k k'(1)]) (use ok k in \<open>auto simp: resources_ok_def\<close>)
qed

lemma resources_work:
  assumes ok: "resources_ok m w" and c: "worker_act ops fo i ev w = Some w'"
  shows "resources_ok m w'"
proof -
  obtain k where k: "tr_workers w i = Some k" using c by (auto simp: worker_act_def split: option.splits)
  show ?thesis
  proof (cases ev)
    case (Continue now)
    with c k resources_continue [OF ok k] show ?thesis by (simp add: worker_act_def)
  next
    case (CallReturns outcome)
    with c k show ?thesis
      by (intro resources_worker [OF ok k, of _ "k\<lparr>wk_phase := Refetching outcome\<rparr>"])
        (auto simp: worker_act_def set_phase_def release_permit_def holds_permit_def split: if_splits)
  next
    case Kill
    with c k show ?thesis
      by (intro resources_worker [OF ok k, of _ "k\<lparr>wk_phase := Aborted\<rparr>"])
        (auto simp: worker_act_def kill_worker_def set_phase_def release_permit_def holds_permit_def split: if_splits)
  qed
qed

lemma resources_spawn:
  assumes ok: "resources_ok m w" and new: "tr_admitted w i \<noteq> None \<Longrightarrow> tr_workers w i = None"
    and c: "spawn_worker i w = Some w'"
  shows "resources_ok m w'"
proof -
  have "tr_workers w i = None" using c new by (auto simp: spawn_worker_def split: option.splits)
  then have "holders w' = holders w"
    using c by (auto simp: spawn_worker_def holders_def holds_permit_def split: option.splits if_splits)
  then show ?thesis
    by (rule resources_frame [OF ok])
      (use ok c in \<open>auto simp: spawn_worker_def resources_ok_def split: option.splits if_splits\<close>)
qed

lemma resources_register:
  assumes ok: "resources_ok m w" and c: "register_handle i w = Some w'"
  shows "resources_ok m w'"
proof -
  have w: "tr_workers w' = tr_workers w" "tr_permits w' = tr_permits w"
    and h: "tr_handles w' = tr_handles w \<or> tr_handles w' = insert i (tr_handles w) \<and>
      (\<forall>k. tr_workers w i = Some k \<longrightarrow> \<not> flagged_finished (wk_phase k))"
    using c by (auto simp: register_handle_def phase_of_def Let_def split: if_splits option.splits)
  have "holders w' = holders w" by (simp add: holders_def w)
  then show ?thesis
    by (rule resources_frame [OF ok]) (use ok w h in \<open>auto simp: resources_ok_def flagged_finished_def\<close>)
qed

lemma resources_cancel:
  assumes ok: "resources_ok m w" and c: "cancel_next ops now w = Some w' \<or> cancel_dropped w = Some w'"
  shows "resources_ok m w'"
proof -
  obtain i p where p: "tr_cancel w = Some (i, p)"
    using c by (auto simp: cancel_next_def cancel_dropped_def split: option.splits)
  have dropped: "tr_workers w' = tr_workers w \<and> tr_permits w' = tr_permits w \<and>
      (tr_handles w' = tr_handles w \<or> tr_handles w' = insert i (tr_handles w) \<and>
        phase_of i w \<notin> {Some Untokening, Some Ended})" if "cancel_dropped w = Some w'"
    using that p by (auto simp: cancel_dropped_def phase_of_def flagged_finished_def over_def
        split: cancel_phase.splits option.splits if_splits)
  have step: "(\<forall>l. phase_of l w' = phase_of l w) \<and> tr_permits w' = tr_permits w \<and> tr_handles w' \<subseteq> tr_handles w"
    if "cancel_next ops now w = Some w'"
    using that p by (cases p) (auto simp: cancel_next_def phase_of_def request_kill_def Let_def
        split: option.splits if_splits sum.splits)
  have "(\<forall>l. phase_of l w' = phase_of l w) \<and> tr_permits w' = tr_permits w \<and>
      (tr_handles w' \<subseteq> tr_handles w \<or> tr_handles w' = insert i (tr_handles w) \<and>
        phase_of i w \<notin> {Some Untokening, Some Ended})"
    using c dropped step by (auto simp: phase_of_def)
  moreover have h: "holders u = {l. \<exists>q. phase_of l u = Some q \<and> holds_permit q}" for u :: "'a task_world"
    by (auto simp: holders_def phase_of_def)
  ultimately have "holders w' = holders w" "tr_permits w' = tr_permits w"
    and hs: "\<And>l. phase_of l w' = phase_of l w" "tr_handles w' \<subseteq> tr_handles w \<or> tr_handles w' = insert i (tr_handles w) \<and>
        phase_of i w \<notin> {Some Untokening, Some Ended}"
    by simp_all
  then show ?thesis
  proof (intro resources_frame [OF ok])
    fix l k
    assume "tr_workers w' l = Some k" and ph: "wk_phase k \<in> {Untokening, Ended}"
    then have pl: "phase_of l w = Some (wk_phase k)" using hs(1) [of l] by (simp add: phase_of_def)
    then have "l \<notin> tr_handles w" using ok ph by (auto simp: resources_ok_def phase_of_def)
    with hs(2) pl ph show "l \<notin> tr_handles w'" by auto
  qed
qed


lemma resources_same:
  "resources_ok m w \<Longrightarrow> tr_workers w' = tr_workers w \<Longrightarrow> tr_permits w' = tr_permits w \<Longrightarrow>
     tr_handles w' \<subseteq> tr_handles w \<Longrightarrow> resources_ok m w'"
  by (rule resources_frame) (auto simp: resources_ok_def holders_def)

lemma resources_act:
  assumes ok: "resources_ok m w" and new: "\<And>i. tr_admitted w i \<noteq> None \<Longrightarrow> tr_workers w i = None"
    and c: "task_act ops fo n ev w = Some w'"
  shows "resources_ok m w'"
proof (cases ev)
  case (Spawn i)
  with c show ?thesis by (intro resources_spawn [OF ok new]) auto
next
  case (Register i)
  with c show ?thesis by (intro resources_register [OF ok]) auto
next
  case (Work i x)
  with c show ?thesis by (intro resources_work [OF ok]) auto
next
  case (CancelNext now)
  with c show ?thesis by (intro resources_cancel [OF ok]) auto
next
  case CancelDropped
  with c show ?thesis by (intro resources_cancel [OF ok]) auto
next
  case (Admit i m retry now)
  with c show ?thesis
    by (intro resources_same [OF ok]) (auto simp: admit_def Let_def split: if_splits sum.splits)
next
  case Persist
  with c show ?thesis
    by (intro resources_same [OF ok]) (auto simp: persist_def split: option.splits prod.splits)
next
  case (SweepNext busy)
  with c show ?thesis
    by (intro resources_same [OF ok]) (auto simp: sweep_next_def split: list.splits if_splits)
qed (use c ok in \<open>auto simp: sweep_start_def reap_start_def split: if_splits sum.splits intro: resources_same\<close>)

context faithful_store
begin

lemma resources_run:
  assumes "task_run ops fo n True v w" "ok (tr_store v)" "task_world_ok (view_of tasks v) v" "resources_ok m v"
  shows "resources_ok m w"
  using assms
proof (induction rule: task_run.induct)
  case (step v u ev w)
  then have u: "task_world_ok (view_of tasks u) u" "resources_ok m u"
    using task_run_ok by blast+
  have "tr_workers u i = None" if "tr_admitted u i \<noteq> None" for i
    using that by (auto elim: admittedE [OF u(1)])
  with u(2) show ?case using step.hyps(2) by (rule resources_act)
qed

end

subsection \<open>The properties\<close>

abbreviation run_from_empty :: "float_ops \<Rightarrow> nat \<Rightarrow> nat \<Rightarrow> memory_store task_world \<Rightarrow> bool" where
  "run_from_empty fo max_tasks max_concurrent w \<equiv>
     task_run memory_ops fo max_tasks True (task_world_init memory_store_new max_concurrent) w"

lemma init_resources: "resources_ok m (task_world_init s m)"
  by (simp add: resources_ok_def holders_def task_world_init_def)

lemma init_capacity: "within_capacity n (view_of ms_records (task_world_init memory_store_new m)) (task_world_init memory_store_new m)"
  by (simp add: within_capacity_def task_world_init_def view_of_def active_in_def find_task_def)

lemma reached_ok:
  assumes "run_from_empty fo n m w"
  shows "ms_ok (tr_store w)" "task_world_ok (view_of ms_records w) w" "resources_ok m w"
    "within_capacity n (view_of ms_records w) w"
proof -
  let ?i = "task_world_init memory_store_new m"
  have i: "ms_ok (tr_store ?i)" "task_world_ok (view_of ms_records ?i) ?i"
    by (simp_all add: mem.init_ok) (simp add: task_world_init_def)
  show "ms_ok (tr_store w)" "task_world_ok (view_of ms_records w) w"
    using mem.task_run_ok [OF assms i] by simp_all
  show "resources_ok m w" by (rule mem.resources_run [OF assms i init_resources])
  show "within_capacity n (view_of ms_records w) w" by (rule mem.capacity_run [OF assms i init_capacity])
qed

text \<open>C27: a finished task stays finished, when tasks are only cancelled after their submission has returned. In
  every history with the in-memory store in which each \<open>cancel\<close> starts after the \<open>submit\<close> of its task has
  returned, whatever the interleaving of submissions, workers, retries, cancellations (whose callers may give
  up), shutdown's teardown and sweeps, a record that has reached a terminal status is never changed again:
  later it is the same record or it has been deleted.\<close>

theorem finished_tasks_stay_finished:
  assumes "run_from_empty fo n m v" and "find_task i (ms_records (tr_store v)) = Some t"
    and "is_terminal (ti_status t)" and "task_run memory_ops fo n True v w"
  shows "find_task i (ms_records (tr_store w)) \<in> {Some t, None}"
proof -
  note v = reached_ok [OF assms(1)]
  have r: "view_of ms_records v i = Some t" using assms(2) by (simp add: view_of_def)
  have "admitting_id v \<noteq> Some i" "i \<in> tr_used v"
    using v(2) r by (auto simp: task_world_ok_def submits_ok_def admitting_id_def Let_def)
  then have "record_settled (view_of ms_records v) v i t" using r by (simp add: record_settled_def)
  from mem.settled_run [OF assms(4) v(1,2) this assms(3)] show ?thesis
    by (auto simp: record_settled_def view_of_def)
qed

text \<open>C28: the limits hold, when tasks are only cancelled after their submission has returned. In every state that
  a history with the in-memory store reaches in which each \<open>cancel\<close> starts after the \<open>submit\<close> of its task has
  returned: at most \<open>max_tasks\<close> tasks are pending or running, one less while an admitted submission is still
  being saved; at most \<open>max_concurrent\<close> workers hold a permit, and none is lost; no task is executed more
  often than its retries allow; and a worker that has taken itself off the manager's map is not on it, so
  finished tasks leave no stale handle. An earlier cancellation breaks the first limit.\<close>

theorem task_limits_hold:
  assumes "run_from_empty fo n m w"
  shows "active_count (ms_records (tr_store w)) + (if tr_admitting w = None then 0 else 1) \<le> n
    \<and> tr_permits w + card {i. \<exists>k. tr_workers w i = Some k \<and> holds_permit (wk_phase k)} = m
    \<and> (\<forall>i k. tr_workers w i = Some k \<longrightarrow>
         wk_calls k \<le> retry_limit (wk_retry k) + 1 \<and> (wk_phase k \<in> {Untokening, Ended} \<longrightarrow> i \<notin> tr_handles w))"
proof (intro conjI allI impI)
  note r = reached_ok [OF assms]
  have "active_count (ms_records (tr_store w)) = card {i. active_in (view_of ms_records w) i}"
    using active_count_card [OF mem.ids [OF r(1)]] by (simp add: active_ids_def active_in_def view_of_def)
  then show "active_count (ms_records (tr_store w)) + (if tr_admitting w = None then 0 else 1) \<le> n"
    using r(4) by (simp add: within_capacity_def)
  show "tr_permits w + card {i. \<exists>k. tr_workers w i = Some k \<and> holds_permit (wk_phase k)} = m"
    using r(3) by (simp add: resources_ok_def holders_def)
  show "wk_calls k \<le> retry_limit (wk_retry k) + 1" if "tr_workers w i = Some k" for i k
    using task_world_okE(1) [OF r(2) that] by (simp add: worker_ok_def)
  show "i \<notin> tr_handles w" if "tr_workers w i = Some k" "wk_phase k \<in> {Untokening, Ended}" for i k
    using r(3) that by (auto simp: resources_ok_def)
qed

fun task_acts :: "'s task_store \<Rightarrow> float_ops \<Rightarrow> nat \<Rightarrow> task_event list \<Rightarrow> 's task_world \<Rightarrow> 's task_world option" where
  "task_acts ops fo n [] w = Some w"
| "task_acts ops fo n (e # es) w = (case task_act ops fo n e w of None \<Rightarrow> None | Some w' \<Rightarrow> task_acts ops fo n es w')"

fun all_after_submit :: "'s task_store \<Rightarrow> float_ops \<Rightarrow> nat \<Rightarrow> task_event list \<Rightarrow> 's task_world \<Rightarrow> bool" where
  "all_after_submit ops fo n [] w = True"
| "all_after_submit ops fo n (e # es) w =
     (after_submit e w \<and> (case task_act ops fo n e w of None \<Rightarrow> True | Some w' \<Rightarrow> all_after_submit ops fo n es w'))"

lemma task_acts_run_from:
  "task_run ops fo n b u w \<Longrightarrow> task_acts ops fo n es w = Some w' \<Longrightarrow>
     (b \<Longrightarrow> all_after_submit ops fo n es w) \<Longrightarrow> task_run ops fo n b u w'"
  by (induction es arbitrary: w) (auto split: option.splits intro: task_run.step)

lemmas task_acts_run = task_acts_run_from [OF task_run.refl]


lemmas task_eval = task_world_init_def memory_store_new_def memory_ops_def admit_def persist_def spawn_worker_def
  register_handle_def worker_act_def continue_worker_def fetch_and_mark_def save_running_def refetch_def
  check_terminal_def save_then_def set_phase_def count_call_def release_permit_def after_call_def phase_of_def
  cancel_next_def cancel_at_def cancel_done_def request_kill_def after_submit_def submit_returned_def
  ms_list_def ms_collect_def ms_save_def ms_get_def bt_get_def active_count_def fresh_task_def retry_limit_def
  flagged_finished_def is_active_def Let_def

definition one_task :: "task_event list" where
  "one_task = [Admit ''a'' ''m'' None 0, Persist, Spawn ''a'', Register ''a''] @ replicate 3 (Work ''a'' (Continue 1)) @
     [Work ''a'' (CallReturns (Inr JNull))] @ replicate 3 (Work ''a'' (Continue 2))"

definition completed_task :: task_info where
  "completed_task = \<lparr>ti_task_id = ''a'', ti_module_id = ''m'', ti_status = TaskCompleted, ti_submitted_at = 0,
     ti_started_at = Some 1, ti_completed_at = Some 2, ti_result = Some JNull, ti_error = None, ti_retry_count = 0,
     ti_max_retries = 0\<rparr>"

lemma one_task_runs:
  "\<exists>v. task_acts memory_ops fo 1 one_task (task_world_init memory_store_new 1) = Some v \<and>
     all_after_submit memory_ops fo 1 one_task (task_world_init memory_store_new 1) \<and>
     ms_tasks (tr_store v) = [(''a'', 0, completed_task)] \<and> tr_used v = {''a''} \<and> tr_admitting v = None \<and>
     tr_admitted v = Map.empty \<and> tr_unregistered v = {} \<and> tr_cancel v = None \<and> tr_handles v = {''a''} \<and>
     map_option wk_retry (tr_workers v ''a'') = Some None"
  by (simp add: one_task_def completed_task_def task_eval numeral_3_eq_3)


theorem finished_tasks_stay_finished_witness:
  "\<exists>v w. task_run memory_ops exact_floats 1 True v w \<and> tr_cancel w \<noteq> tr_cancel v \<and>
     find_task ''a'' (ms_records (tr_store w)) \<in> {Some completed_task, None}"
proof -
  obtain v where v: "task_acts memory_ops exact_floats 1 one_task (task_world_init memory_store_new 1) = Some v"
      "all_after_submit memory_ops exact_floats 1 one_task (task_world_init memory_store_new 1)"
      "ms_tasks (tr_store v) = [(''a'', 0, completed_task)]" "tr_used v = {''a''}" "tr_admitting v = None"
      "tr_admitted v = Map.empty" "tr_unregistered v = {}" "tr_cancel v = None"
    using one_task_runs [of exact_floats] by (elim exE conjE) (rule that)
  have r: "run_from_empty exact_floats 1 1 v" using v(1,2) by (rule task_acts_run)
  have f: "find_task ''a'' (ms_records (tr_store v)) = Some completed_task"
    by (simp add: ms_records_def v(3) find_task_def completed_task_def)
  have w: "task_run memory_ops exact_floats 1 True v (cancel_at ''a'' CancelFetching v)"
    by (rule task_run.step [OF task_run.refl, where ev = "CancelStart ''a''"])
      (simp_all add: v after_submit_def submit_returned_def)
  have "find_task ''a'' (ms_records (tr_store (cancel_at ''a'' CancelFetching v))) \<in> {Some completed_task, None}"
    by (rule finished_tasks_stay_finished [OF r f _ w]) (simp add: completed_task_def is_terminal_def)
  moreover have "tr_cancel (cancel_at ''a'' CancelFetching v) \<noteq> tr_cancel v" by (simp add: cancel_at_def v)
  ultimately show ?thesis using w by (intro exI conjI)
qed

theorem task_limits_hold_witness:
  "\<exists>v. run_from_empty exact_floats 1 1 v \<and> ms_records (tr_store v) = [completed_task] \<and>
     active_count (ms_records (tr_store v)) \<le> 1 \<and> (\<exists>k. tr_workers v ''a'' = Some k \<and> wk_calls k \<le> 1)"
proof -
  obtain v where v: "task_acts memory_ops exact_floats 1 one_task (task_world_init memory_store_new 1) = Some v"
      "all_after_submit memory_ops exact_floats 1 one_task (task_world_init memory_store_new 1)"
      "ms_tasks (tr_store v) = [(''a'', 0, completed_task)]"
      "map_option wk_retry (tr_workers v ''a'') = Some None"
    using one_task_runs [of exact_floats] by (elim exE conjE) (rule that)
  have r: "run_from_empty exact_floats 1 1 v" using v(1,2) by (rule task_acts_run)
  obtain k where k: "tr_workers v ''a'' = Some k" "wk_retry k = None" using v(4) by auto
  show ?thesis
    using r task_limits_hold [OF r] k v(3)
    by (fastforce simp: ms_records_def retry_limit_def)
qed

text \<open>Cancelling a task before its submission has registered the handle: the record is marked
  cancelled, and the worker, which had already fetched it, marks it running again.\<close>

definition early_cancel :: "task_event list" where
  "early_cancel = [Admit ''a'' ''m'' None 0, Persist, Spawn ''a'', Work ''a'' (Continue 1), Work ''a'' (Continue 1),
     CancelStart ''a''] @ replicate 5 (CancelNext 2)"

lemma early_cancel_runs:
  "\<exists>v. task_acts memory_ops fo 1 early_cancel (task_world_init memory_store_new 1) = Some v \<and>
     map ti_status (map snd (map snd (ms_tasks (tr_store v)))) = [TaskCancelled] \<and>
     (\<exists>w. task_act memory_ops fo 1 (Work ''a'' (Continue 3)) v = Some w \<and>
        map ti_status (map snd (map snd (ms_tasks (tr_store w)))) = [Running])"
  by (simp add: early_cancel_def task_eval eval_nat_numeral)

lemma early_cancel_is_undone:
  "\<exists>v w. task_run memory_ops fo 1 False (task_world_init memory_store_new 1) v \<and> task_run memory_ops fo 1 False v w \<and>
     map ti_status (ms_records (tr_store v)) = [TaskCancelled] \<and> map ti_status (ms_records (tr_store w)) = [Running]"
proof -
  obtain v w where v: "task_acts memory_ops fo 1 early_cancel (task_world_init memory_store_new 1) = Some v"
      "map ti_status (map snd (map snd (ms_tasks (tr_store v)))) = [TaskCancelled]"
    and w: "task_act memory_ops fo 1 (Work ''a'' (Continue 3)) v = Some w"
      "map ti_status (map snd (map snd (ms_tasks (tr_store w)))) = [Running]"
    using early_cancel_runs [of fo] by (elim exE conjE) (rule that)
  have one: "map ti_status (ms_records m) = [st]" if "map ti_status (map snd (map snd (ms_tasks m))) = [st]" for m st
    using that by (cases "ms_tasks m") (auto simp: ms_records_def)
  have "task_run memory_ops fo 1 False (task_world_init memory_store_new 1) v"
    using v(1) by (rule task_acts_run) simp
  moreover have "task_run memory_ops fo 1 False v w"
    by (rule task_run.step [OF task_run.refl w(1)]) simp
  ultimately show ?thesis using one [OF v(2)] one [OF w(2)] by (intro exI conjI)
qed

text \<open>While that record counts as cancelled a second task is admitted, so two are active although the limit
  is one.\<close>

definition early_cancel_and_submit :: "task_event list" where
  "early_cancel_and_submit = early_cancel @ [Admit ''b'' ''m'' None 0, Persist, Work ''a'' (Continue 3)]"

lemma early_cancel_exceeds_limit:
  "\<exists>v. task_acts memory_ops fo 1 early_cancel_and_submit (task_world_init memory_store_new 1) = Some v \<and>
     map ti_status (map snd (map snd (ms_tasks (tr_store v)))) = [Running, Pending]"
  by (simp add: early_cancel_and_submit_def early_cancel_def task_eval eval_nat_numeral)

end
