(* ===== verification/StrictSchemas.thy ===== *)
theory StrictSchemas
  imports Prelude
begin

section \<open>Strict schemas\<close>

text \<open>
  \<open>src/src/schema/strict.rs\<close>: stripping extension keywords, the conversion to strict mode
  (no additional properties, every property required, optional ones nullable) and the substitution of
  model-facing descriptions; and the canonical rendering of \<open>src/src/schema/hardening.rs\<close>. The
  code mutates a clone of the schema in place; here each pass is a function of the schema. The rendering
  of a scalar or of a string (\<open>serde_json::to_string\<close>) is a parameter.
\<close>

definition schema_name_map :: "string \<Rightarrow> bool" where
  "schema_name_map k \<longleftrightarrow>
     k \<in> {''properties'', ''patternProperties'', ''$defs'', ''definitions'', ''dependentSchemas''}"

subsection \<open>Extension keywords\<close>

definition stripped_key :: "bool \<Rightarrow> bool \<Rightarrow> string \<Rightarrow> bool" where
  "stripped_key names remove_defaults k \<longleftrightarrow>
     \<not> names \<and> (prefix ''x-'' k \<or> (remove_defaults \<and> k = ''default''))"

function strip_extensions :: "bool \<Rightarrow> bool \<Rightarrow> json \<Rightarrow> json" where
  "strip_extensions names remove_defaults (JObject es) =
     JObject (map (\<lambda>e. (fst e,
         (case snd e of
            JObject fs \<Rightarrow>
              strip_extensions (\<not> names \<and> schema_name_map (fst e)) remove_defaults (JObject fs)
          | JArray xs \<Rightarrow>
              JArray (map (\<lambda>x. case x of
                                 JObject fs \<Rightarrow> strip_extensions False remove_defaults (JObject fs)
                               | _ \<Rightarrow> x) xs)
          | v \<Rightarrow> v)))
       (filter (\<lambda>e. \<not> stripped_key names remove_defaults (fst e)) es))"
| "strip_extensions names remove_defaults JNull = JNull"
| "strip_extensions names remove_defaults (JBool b) = JBool b"
| "strip_extensions names remove_defaults (JNumber n) = JNumber n"
| "strip_extensions names remove_defaults (JString s) = JString s"
| "strip_extensions names remove_defaults (JArray xs) = JArray xs"
  by pat_completeness auto

lemma size_entry: "e \<in> set es \<Longrightarrow> size (snd e) < size (JObject es)"
  by (induction es) (auto split: prod.splits)

lemma size_item: "x \<in> set xs \<Longrightarrow> size x < size (JArray xs)"
  by (induction xs) auto

lemma size_array_item:
  "e \<in> set es \<Longrightarrow> snd e = JArray xs \<Longrightarrow> x \<in> set xs \<Longrightarrow> size x < size (JObject es)"
  using size_entry [of e es] size_item [of x xs] by simp

termination strip_extensions
proof (relation "measure (\<lambda>(_, _, j). size j)", goal_cases)
  case 1
  then show ?case by simp
next
  case 2
  then show ?case using size_array_item by fastforce
next
  case 3
  then show ?case using size_entry by fastforce
qed

definition strip_extension_keywords :: "json \<Rightarrow> json" where
  "strip_extension_keywords schema = strip_extensions False False schema"

subsection \<open>Strict mode\<close>

fun declares_object_type :: "json option \<Rightarrow> bool" where
  "declares_object_type (Some (JString s)) \<longleftrightarrow> s = ''object''"
| "declares_object_type (Some (JArray items)) \<longleftrightarrow> JString ''object'' \<in> set items"
| "declares_object_type _ \<longleftrightarrow> False"

definition null_schema :: json where
  "null_schema = JObject [(''type'', JString ''null'')]"

definition constraining_keywords :: "string list" where
  "constraining_keywords = [''enum'', ''const'', ''$ref'', ''allOf'', ''anyOf'', ''oneOf'', ''not'', ''if'']"

text \<open>A value replaced through \<open>get_mut\<close>: the key is there and stays where it is.\<close>

fun put_present :: "'k \<Rightarrow> 'v \<Rightarrow> ('k \<times> 'v) list \<Rightarrow> ('k \<times> 'v) list" where
  "put_present k v [] = []"
| "put_present k v ((k', v') # m) = (if k = k' then (k, v) # m else (k', v') # put_present k v m)"

fun make_nullable :: "json \<Rightarrow> json" where
  "make_nullable (JObject es) =
     (if bt_get es ''type'' = None \<or> (\<exists>k \<in> set constraining_keywords. bt_get es k \<noteq> None)
      then JObject [(''anyOf'', JArray [JObject es, null_schema])]
      else (case the (bt_get es ''type'') of
              JString s \<Rightarrow>
                if s \<noteq> ''null'' then JObject (put_present ''type'' (JArray [JString s, JString ''null'']) es)
                else JObject es
            | JArray items \<Rightarrow>
                if JString ''null'' \<notin> set items
                then JObject (put_present ''type'' (JArray (items @ [JString ''null''])) es)
                else JObject es
            | _ \<Rightarrow> JObject es))"
| "make_nullable j = j"

definition required_names :: "(string \<times> json) list \<Rightarrow> string list" where
  "required_names es =
     (case bt_get es ''required'' of
        Some (JArray xs) \<Rightarrow> List.map_filter as_str xs
      | _ \<Rightarrow> [])"

definition property_names :: "(string \<times> json) list \<Rightarrow> string list" where
  "property_names es = (case bt_get es ''properties'' of Some (JObject ps) \<Rightarrow> map fst ps | _ \<Rightarrow> [])"

definition object_with_props :: "(string \<times> json) list \<Rightarrow> bool" where
  "object_with_props es \<longleftrightarrow>
     bt_get es ''properties'' \<noteq> None \<and>
     (bt_get es ''type'' = None \<or> declares_object_type (bt_get es ''type''))"

definition nullable_props :: "string set \<Rightarrow> (string \<times> json) list \<Rightarrow> json" where
  "nullable_props names ps =
     JObject (map (\<lambda>p. (fst p, if fst p \<in> names then snd p else make_nullable (snd p))) ps)"

text \<open>The entries after the conditional part of \<open>convert_to_strict\<close>, before the recursion.\<close>

definition strict_entries :: "(string \<times> json) list \<Rightarrow> (string \<times> json) list" where
  "strict_entries es =
     (if object_with_props es then
        (let closed = bt_insert ''additionalProperties'' (JBool False) es;
             nullable = (case bt_get closed ''properties'' of
                 Some (JObject ps) \<Rightarrow>
                   put_present ''properties'' (nullable_props (set (required_names closed)) ps) closed
               | _ \<Rightarrow> closed)
         in bt_insert ''required'' (JArray (map JString (sort (property_names closed)))) nullable)
      else es)"

fun schema_weight :: "json \<Rightarrow> nat" where
  "schema_weight (JObject es) =
     1 + sum_list (map (\<lambda>e. (if fst e = ''properties'' then 20 else 0) + schema_weight (snd e)) es)"
| "schema_weight (JArray xs) = 1 + sum_list (map schema_weight xs)"
| "schema_weight _ = 1"


text \<open>The recursion of \<open>recurse_into_nested\<close>. A property made nullable may be larger than the
  schema it replaces, but it is one level further inside: \<open>schema_weight\<close> counts that level.\<close>

definition nested_kind :: "string \<Rightarrow> nat" where
  "nested_kind k =
     (if k \<in> {''properties'', ''definitions'', ''$defs''} then 1
      else if k = ''items'' then 2
      else if k \<in> {''prefixItems'', ''oneOf'', ''anyOf'', ''allOf''} then 3
      else 0)"

function convert_to_strict :: "json \<Rightarrow> json" where
  "convert_to_strict (JObject es) =
     JObject (map (\<lambda>e. (fst e,
         (case snd e of
            JObject fs \<Rightarrow>
              if nested_kind (fst e) = 1 then JObject (map (\<lambda>f. (fst f, convert_to_strict (snd f))) fs)
              else if nested_kind (fst e) = 2 then convert_to_strict (JObject fs)
              else JObject fs
          | JArray xs \<Rightarrow> JArray (if nested_kind (fst e) = 3 then map convert_to_strict xs else xs)
          | v \<Rightarrow> v)))
       (strict_entries es))"
| "convert_to_strict JNull = JNull"
| "convert_to_strict (JBool b) = JBool b"
| "convert_to_strict (JNumber n) = JNumber n"
| "convert_to_strict (JString s) = JString s"
| "convert_to_strict (JArray xs) = JArray xs"
  by pat_completeness auto

lemma weight_entry: "e \<in> set es \<Longrightarrow>
    (if fst e = ''properties'' then 20 else 0) + schema_weight (snd e) < schema_weight (JObject es)"
  using member_le_sum_list [of "(if fst e = ''properties'' then 20 else 0) + schema_weight (snd e)"
      "map (\<lambda>e. (if fst e = ''properties'' then 20 else 0) + schema_weight (snd e)) es"]
  by force

lemma weight_item: "x \<in> set xs \<Longrightarrow> schema_weight x < schema_weight (JArray xs)"
  using member_le_sum_list [of "schema_weight x" "map schema_weight xs"] by force

lemma weight_array_item:
  "e \<in> set es \<Longrightarrow> snd e = JArray xs \<Longrightarrow> x \<in> set xs \<Longrightarrow> schema_weight x < schema_weight (JObject es)"
  using weight_entry [of e es] weight_item [of x xs] by simp

lemma weight_nested_entry:
  "e \<in> set es \<Longrightarrow> snd e = JObject fs \<Longrightarrow> f \<in> set fs \<Longrightarrow>
     (if fst e = ''properties'' then 20 else 0) + schema_weight (snd f) < schema_weight (JObject es)"
  using weight_entry [of e es] weight_entry [of f fs] by simp

lemma weight_put_present:
  "k \<noteq> ''properties'' \<Longrightarrow> bt_get es k = Some v \<Longrightarrow>
     schema_weight (JObject (put_present k w es)) + schema_weight v
       = schema_weight (JObject es) + schema_weight w"
  by (induction k w es rule: put_present.induct) (auto simp: bt_get_Cons split: if_splits)

lemma weight_make_nullable: "schema_weight (make_nullable j) \<le> schema_weight j + 4"
proof (cases j)
  case (JObject es)
  show ?thesis
  proof (cases "bt_get es ''type''")
    case None
    with JObject show ?thesis by (simp add: null_schema_def)
  next
    case (Some t)
    then have "schema_weight (JObject (put_present ''type'' w es)) + schema_weight t
        = schema_weight (JObject es) + schema_weight w" for w
      using weight_put_present [of "''type''" es t w] by simp
    from this [of "JArray [t, JString ''null'']"] this [of "JArray (the (as_array t) @ [JString ''null''])"]
    show ?thesis using JObject Some
      by (cases t) (simp_all add: null_schema_def)
  qed
qed simp_all

lemma bt_get_insert_other: "k' \<noteq> k \<Longrightarrow> bt_get (bt_insert k v m) k' = bt_get m k'"
  by (induction k v m rule: bt_insert.induct) (auto simp: bt_get_def)

lemma set_put_present: "set (put_present k v m) \<subseteq> insert (k, v) (set m)"
  by (induction k v m rule: put_present.induct) auto

lemma strict_entries_cases:
  assumes "e \<in> set (strict_entries es)"
  obtains (old) "e \<in> set es"
  | (closed) "e = (''additionalProperties'', JBool False)"
  | (required) ns where "e = (''required'', JArray (map JString ns))"
  | (props) ps names where "bt_get es ''properties'' = Some (JObject ps)"
      "e = (''properties'', nullable_props names ps)"
proof (cases "object_with_props es")
  case False
  with assms old show ?thesis by (simp add: strict_entries_def)
next
  case True
  let ?c = "bt_insert ''additionalProperties'' (JBool False) es"
  have p: "bt_get ?c ''properties'' = bt_get es ''properties''" by (simp add: bt_get_insert_other)
  let ?n = "case bt_get es ''properties'' of
      Some (JObject ps) \<Rightarrow> put_present ''properties'' (nullable_props (set (required_names ?c)) ps) ?c | _ \<Rightarrow> ?c"
  have "strict_entries es = bt_insert ''required'' (JArray (map JString (sort (property_names ?c)))) ?n"
    using True by (simp add: strict_entries_def p Let_def)
  then have "set (strict_entries es) \<subseteq>
      insert (''required'', JArray (map JString (sort (property_names ?c)))) (set ?n)"
    by (simp only: set_bt_insert_sub)
  with assms have "e \<in> insert (''required'', JArray (map JString (sort (property_names ?c)))) (set ?n)"
    by (rule subsetD [rotated])
  moreover have "set ?c \<subseteq> insert (''additionalProperties'', JBool False) (set es)" by (rule set_bt_insert_sub)
  moreover have "e \<in> set ?n \<Longrightarrow> e \<in> set ?c \<or> (\<exists>ps. bt_get es ''properties'' = Some (JObject ps) \<and>
      e = (''properties'', nullable_props (set (required_names ?c)) ps))"
    using set_put_present [of "''properties''" _ ?c] by (auto split: option.splits json.splits)
  ultimately show ?thesis using old closed required props by blast
qed

termination convert_to_strict
proof (relation "measure schema_weight", goal_cases)
  case 1
  then show ?case by simp
next
  case (2 es e xs x)
  then show ?case
    by (elim strict_entries_cases) (auto simp: nested_kind_def nullable_props_def dest: weight_array_item)
next
  case (3 es e fs f)
  from 3(1) show ?case
  proof (cases rule: strict_entries_cases)
    case old
    with 3 show ?thesis using weight_nested_entry [of e es fs f] by simp
  next
    case (props ps names)
    with 3 obtain p where p: "p \<in> set ps" "snd f = snd p \<or> snd f = make_nullable (snd p)"
      by (auto simp: nullable_props_def)
    from props have "(''properties'', JObject ps) \<in> set es"
      by (auto simp: bt_get_def dest: map_of_SomeD)
    from weight_nested_entry [OF this, of ps p] p weight_make_nullable [of "snd p"] show ?thesis by auto
  qed (use 3 in auto)
next
  case (4 es e fs)
  then show ?case
    using weight_entry [of e es]
    by (elim strict_entries_cases) (auto simp: nested_kind_def nullable_props_def)
qed

definition to_strict_schema :: "json \<Rightarrow> json" where
  "to_strict_schema schema = convert_to_strict (strip_extensions False True schema)"

subsection \<open>Model-facing descriptions and the canonical rendering\<close>

function apply_llm :: "bool \<Rightarrow> json \<Rightarrow> json" where
  "apply_llm names (JObject es) =
     JObject (map (\<lambda>e. (fst e, apply_llm (\<not> names \<and> schema_name_map (fst e)) (snd e)))
       (case (bt_get es ''description'', bt_get es ''x-llm-description'') of
          (Some _, Some d) \<Rightarrow> if names then es else put_present ''description'' d es
        | _ \<Rightarrow> es))"
| "apply_llm names (JArray xs) = JArray (map (apply_llm False) xs)"
| "apply_llm names JNull = JNull"
| "apply_llm names (JBool b) = JBool b"
| "apply_llm names (JNumber n) = JNumber n"
| "apply_llm names (JString s) = JString s"
  by pat_completeness auto

termination apply_llm
proof (relation "measure (\<lambda>(_, j). size j)", goal_cases)
  case 1
  then show ?case by simp
next
  case (2 names es e)
  have "size (snd e) < size (JObject es)"
    if "bt_get es ''x-llm-description'' = Some d" "e \<in> set (put_present ''description'' d es)" for d
  proof -
    from that(1) have "(''x-llm-description'', d) \<in> set es" by (simp add: bt_get_def map_of_SomeD)
    with that(2) show ?thesis
      using set_put_present [of "''description''" d es] size_entry [of _ es] by fastforce
  qed
  with 2 size_entry [of e es] show ?case by (auto split: option.splits if_splits)
next
  case 3
  then show ?case using size_item by fastforce
qed

definition apply_llm_descriptions :: "json \<Rightarrow> json" where
  "apply_llm_descriptions schema = apply_llm False schema"

text \<open>\<open>write_canonical\<close>; the \<open>String\<close> form of a scalar is \<open>render\<close>.\<close>

fun canonical_json :: "(json \<Rightarrow> string) \<Rightarrow> json \<Rightarrow> string" where
  "canonical_json render (JObject es) =
     ''{'' @ join_with '','' (map (\<lambda>e. render (JString (fst e)) @ '':'' @ canonical_json render (snd e)) es) @ ''}''"
| "canonical_json render (JArray xs) = ''['' @ join_with '','' (map (canonical_json render) xs) @ '']''"
| "canonical_json render j = render j"

subsection \<open>Lemmas\<close>

lemma bt_ok_map_values: "bt_ok (map (\<lambda>e. (fst e, f e)) es) \<longleftrightarrow> bt_ok es"
  by (simp add: bt_ok_def comp_def)

lemma bt_ok_filter: "bt_ok es \<Longrightarrow> bt_ok (filter P es)"
  by (simp add: bt_ok_def sorted_wrt_map sorted_wrt_filter)

lemma keys_put_present: "map fst (put_present k v m) = map fst m"
  by (induction k v m rule: put_present.induct) auto

lemma bt_ok_put_present: "bt_ok (put_present k v m) \<longleftrightarrow> bt_ok m"
  by (simp add: bt_ok_def keys_put_present)

lemma bt_get_put_present:
  "bt_get (put_present k v m) k' = (if k' = k \<and> bt_get m k \<noteq> None then Some v else bt_get m k')"
  by (induction k v m rule: put_present.induct) (auto simp: bt_get_Cons)

lemma put_present_same: "bt_get m k = Some v \<Longrightarrow> put_present k v m = m"
  by (induction k v m rule: put_present.induct) (auto simp: bt_get_Cons split: if_splits)

lemma bt_insert_same: "bt_ok m \<Longrightarrow> bt_get m k = Some v \<Longrightarrow> bt_insert k v m = m"
proof (induction k v m rule: bt_insert.induct)
  case (2 k v k' v' m)
  then have "k < k' \<Longrightarrow> bt_get m k = None" by (auto simp: bt_get_None_iff bt_ok_def)
  with 2 show ?case by (auto simp: bt_get_Cons bt_ok_def split: if_splits)
qed simp

lemma bt_get_map_values:
  "bt_get (map (\<lambda>e. (fst e, f e)) es) k = map_option (\<lambda>v. f (k, v)) (bt_get es k)"
  by (induction es) (auto simp: bt_get_def)

lemma json_ok_object: "json_ok (JObject es) \<longleftrightarrow> bt_ok es \<and> (\<forall>e \<in> set es. json_ok (snd e))"
  by (simp add: list_all_iff)

lemma json_ok_get: "json_ok (JObject es) \<Longrightarrow> bt_get es k = Some v \<Longrightarrow> json_ok v"
  by (force simp: list_all_iff bt_get_def dest: map_of_SomeD)

lemma json_ok_put_present:
  "json_ok (JObject es) \<Longrightarrow> json_ok v \<Longrightarrow> json_ok (JObject (put_present k v es))"
  using set_put_present [of k v es] by (auto simp: list_all_iff bt_ok_put_present)

lemma json_ok_insert: "json_ok (JObject es) \<Longrightarrow> json_ok v \<Longrightarrow> json_ok (JObject (bt_insert k v es))"
  using set_bt_insert_sub [of k v es] by (auto simp: list_all_iff bt.ok_ins)

lemma bt_ok_single [simp]: "bt_ok [e]"
  by (simp add: bt_ok_def)

lemma json_ok_make_nullable: "json_ok j \<Longrightarrow> json_ok (make_nullable j)"
proof (cases j)
  case (JObject es)
  assume ok: "json_ok j"
  show ?thesis
  proof (cases "bt_get es ''type''")
    case None
    with ok JObject show ?thesis by (simp add: null_schema_def)
  next
    case (Some t)
    with ok JObject have "json_ok t" using json_ok_get by blast
    with ok JObject Some json_ok_put_present [of es _ "''type''"] show ?thesis
      by (cases t) (simp_all add: null_schema_def del: json_ok.simps(2), simp_all add: null_schema_def list_all_iff)
  qed
qed simp_all

lemma json_ok_nullable_props:
  "json_ok (JObject ps) \<Longrightarrow> json_ok (nullable_props names ps)"
  by (auto simp: nullable_props_def bt_ok_map_values list_all_iff json_ok_make_nullable)

lemma json_ok_strict_entries:
  assumes "json_ok (JObject es)"
  shows "json_ok (JObject (strict_entries es))"
proof -
  let ?c = "bt_insert ''additionalProperties'' (JBool False) es"
  have c: "json_ok (JObject ?c)" using assms by (rule json_ok_insert) simp
  have "json_ok (JObject (case bt_get ?c ''properties'' of
      Some (JObject ps) \<Rightarrow> put_present ''properties'' (nullable_props (set (required_names ?c)) ps) ?c | _ \<Rightarrow> ?c))"
    using c json_ok_get [OF c, of "''properties''"]
    by (auto simp del: json_ok.simps(2) intro!: json_ok_put_present json_ok_nullable_props split: option.splits json.splits)
  then show ?thesis
    using assms by (simp add: strict_entries_def Let_def json_ok_insert list_all_iff del: json_ok.simps(2))
qed

lemma json_ok_strip: "json_ok j \<Longrightarrow> json_ok (strip_extensions names rd j)"
proof (induction names rd j rule: strip_extensions.induct)
  case (1 names rd es)
  let ?v = "\<lambda>e. case snd e of
      JObject fs \<Rightarrow> strip_extensions (\<not> names \<and> schema_name_map (fst e)) rd (JObject fs)
    | JArray xs \<Rightarrow> JArray (map (\<lambda>x. case x of JObject fs \<Rightarrow> strip_extensions False rd (JObject fs) | _ \<Rightarrow> x) xs)
    | v \<Rightarrow> v"
  have "json_ok (?v e)" if e: "e \<in> set (filter (\<lambda>e. \<not> stripped_key names rd (fst e)) es)" for e
  proof -
    have ok: "json_ok (snd e)" using 1(3) e by (auto simp: list_all_iff)
    show ?thesis
    proof (cases "snd e")
      case (JArray xs)
      with ok 1(1) [OF e JArray] have "json_ok (case x of JObject fs \<Rightarrow> strip_extensions False rd (JObject fs) | _ \<Rightarrow> x)"
        if "x \<in> set xs" for x
        using that by (cases x) (auto simp: list_all_iff)
      with JArray show ?thesis by (simp add: list_all_iff)
    next
      case (JObject fs)
      with ok 1(2) [OF e JObject] show ?thesis by simp
    qed (use ok in simp_all)
  qed
  with 1(3) show ?case
    by (simp add: bt_ok_map_values bt_ok_filter list_all_iff del: list.set_map set_filter)
qed simp_all

text \<open>One entry of the converted object.\<close>

definition convert_entry :: "string \<times> json \<Rightarrow> json" where
  "convert_entry e =
     (case snd e of
        JObject fs \<Rightarrow>
          if nested_kind (fst e) = 1 then JObject (map (\<lambda>f. (fst f, convert_to_strict (snd f))) fs)
          else if nested_kind (fst e) = 2 then convert_to_strict (JObject fs)
          else JObject fs
      | JArray xs \<Rightarrow> JArray (if nested_kind (fst e) = 3 then map convert_to_strict xs else xs)
      | v \<Rightarrow> v)"

lemma convert_object:
  "convert_to_strict (JObject es) = JObject (map (\<lambda>e. (fst e, convert_entry e)) (strict_entries es))"
  by (simp add: convert_entry_def)

lemma convert_not_object: "(\<And>es. j \<noteq> JObject es) \<Longrightarrow> convert_to_strict j = j"
  by (cases j) auto

declare convert_to_strict.simps(1) [simp del]

lemma json_ok_convert: "json_ok j \<Longrightarrow> json_ok (convert_to_strict j)"
proof (induction j rule: convert_to_strict.induct)
  case (1 es)
  have ok: "json_ok (JObject (strict_entries es))" using 1(4) by (rule json_ok_strict_entries)
  have "json_ok (convert_entry e)" if e: "e \<in> set (strict_entries es)" for e
  proof -
    have v: "json_ok (snd e)" using ok e by (auto simp: list_all_iff)
    show ?thesis
    proof (cases "snd e")
      case (JArray xs)
      with v 1(1) [OF e JArray] show ?thesis by (auto simp: convert_entry_def list_all_iff)
    next
      case (JObject fs)
      with v 1(2) [OF e JObject] have "nested_kind (fst e) = 1 \<Longrightarrow> f \<in> set fs \<Longrightarrow> json_ok (convert_to_strict (snd f))" for f
        by (auto simp: list_all_iff)
      with v JObject 1(3) [OF e JObject] show ?thesis
        by (auto simp: convert_entry_def list_all_iff bt_ok_map_values)
    qed (use v in \<open>simp_all add: convert_entry_def\<close>)
  qed
  with ok show ?case by (simp add: convert_object bt_ok_map_values list_all_iff)
qed simp_all

lemma convert_entry_plain:
  assumes "nested_kind (fst e) = 0"
  shows "convert_entry e = snd e"
  using assms by (cases "snd e") (simp_all add: convert_entry_def)

lemma nested_kind_simps [simp]:
  "nested_kind ''type'' = 0" "nested_kind ''required'' = 0" "nested_kind ''additionalProperties'' = 0"
  "nested_kind ''properties'' = 1"
  by (simp_all add: nested_kind_def)

lemma strict_entries_get:
  assumes ok: "bt_ok es" and op: "object_with_props es"
  shows "bt_get (strict_entries es) ''type'' = bt_get es ''type''"
    "bt_get (strict_entries es) ''additionalProperties'' = Some (JBool False)"
    "bt_get (strict_entries es) ''required'' = Some (JArray (map JString (sort (property_names es))))"
    "bt_get (strict_entries es) ''properties'' =
       (case bt_get es ''properties'' of
          Some (JObject ps) \<Rightarrow> Some (nullable_props (set (required_names es)) ps) | v \<Rightarrow> v)"
    "bt_ok (strict_entries es)"
proof -
  let ?c = "bt_insert ''additionalProperties'' (JBool False) es"
  have c: "bt_ok ?c" using ok by (rule bt.ok_ins)
  have g: "bt_get ?c k = (if k = ''additionalProperties'' then Some (JBool False) else bt_get es k)" for k
    using ok by (simp add: bt.get_ins)
  have pn: "property_names ?c = property_names es" "required_names ?c = required_names es"
    by (simp_all add: property_names_def required_names_def g)
  let ?n = "case bt_get es ''properties'' of
      Some (JObject ps) \<Rightarrow> put_present ''properties'' (nullable_props (set (required_names es)) ps) ?c | _ \<Rightarrow> ?c"
  have n: "bt_ok ?n" using c by (auto simp: bt_ok_put_present split: option.splits json.splits)
  have s: "strict_entries es = bt_insert ''required'' (JArray (map JString (sort (property_names es)))) ?n"
    using op by (simp add: strict_entries_def Let_def pn g cong: option.case_cong json.case_cong)
  have gn: "bt_get ?n k = (if k = ''properties'' then
      (case bt_get es ''properties'' of
          Some (JObject ps) \<Rightarrow> Some (nullable_props (set (required_names es)) ps) | v \<Rightarrow> v)
      else if k = ''additionalProperties'' then Some (JBool False) else bt_get es k)" for k
    by (auto simp: bt_get_put_present g split: option.splits json.splits)
  show "bt_get (strict_entries es) ''type'' = bt_get es ''type''"
    "bt_get (strict_entries es) ''additionalProperties'' = Some (JBool False)"
    "bt_get (strict_entries es) ''required'' = Some (JArray (map JString (sort (property_names es))))"
    "bt_get (strict_entries es) ''properties'' =
       (case bt_get es ''properties'' of
          Some (JObject ps) \<Rightarrow> Some (nullable_props (set (required_names es)) ps) | v \<Rightarrow> v)"
    "bt_ok (strict_entries es)"
    unfolding s using n by (simp_all add: bt.get_ins gn bt.ok_ins)
qed

lemma convert_entry_props:
  "convert_entry (''properties'', JObject ps) = JObject (map (\<lambda>f. (fst f, convert_to_strict (snd f))) ps)"
  by (simp add: convert_entry_def)

text \<open>A converted object is closed, requires all its properties, and is left alone by
  \<open>strict_entries\<close>.\<close>

lemma converted_object:
  assumes ok: "bt_ok es" and rs: "convert_to_strict (JObject es) = JObject rs"
  shows "object_with_props rs \<longleftrightarrow> object_with_props es"
    and "object_with_props rs \<Longrightarrow> bt_get rs ''additionalProperties'' = Some (JBool False)"
    and "object_with_props rs \<Longrightarrow> bt_get rs ''required'' = Some (JArray (map JString (sort (property_names rs))))"
    and "strict_entries rs = rs"
proof -
  have r: "rs = map (\<lambda>e. (fst e, convert_entry e)) (strict_entries es)"
    using rs by (simp add: convert_object)
  have g: "bt_get rs k = map_option (\<lambda>v. convert_entry (k, v)) (bt_get (strict_entries es) k)" for k
    unfolding r by (rule bt_get_map_values)
  have no: "strict_entries es = es" if "\<not> object_with_props es"
    using that by (simp add: strict_entries_def)
  have ty: "bt_get rs ''type'' = bt_get es ''type''"
    using strict_entries_get(1) [OF ok] no
    by (cases "object_with_props es") (auto simp: g convert_entry_plain intro: option.map_ident_strong)
  have pr: "bt_get rs ''properties'' = None \<longleftrightarrow> bt_get es ''properties'' = None"
    using strict_entries_get(4) [OF ok] no
    by (cases "object_with_props es") (auto simp: g split: option.splits json.splits)
  show owp: "object_with_props rs \<longleftrightarrow> object_with_props es"
    by (simp add: object_with_props_def ty pr)
  have okr: "bt_ok rs" if "object_with_props es"
    unfolding r using strict_entries_get(5) [OF ok that] by (simp add: bt_ok_map_values)
  have pn: "property_names rs = property_names es" if "object_with_props es"
    using strict_entries_get(4) [OF ok that]
    by (auto simp: property_names_def g nullable_props_def convert_entry_props convert_entry_def
        split: option.splits json.splits)
  show ap: "bt_get rs ''additionalProperties'' = Some (JBool False)" if "object_with_props rs"
    using that strict_entries_get(2) [OF ok] by (simp add: owp g convert_entry_plain)
  show rq: "bt_get rs ''required'' = Some (JArray (map JString (sort (property_names rs))))"
    if "object_with_props rs"
    using that strict_entries_get(3) [OF ok] by (simp add: owp g convert_entry_plain pn)
  show "strict_entries rs = rs"
  proof (cases "object_with_props rs")
    case False
    then show ?thesis by (simp add: strict_entries_def)
  next
    case True
    note okr' = okr [OF True [unfolded owp]]
    have c: "bt_insert ''additionalProperties'' (JBool False) rs = rs"
      using okr' ap [OF True] by (rule bt_insert_same)
    have names: "set (required_names rs) = set (property_names rs)"
      using rq [OF True] by (simp add: required_names_def List.map_filter_def comp_def image_image)
    have "put_present ''properties'' (nullable_props (set (required_names rs)) ps) rs = rs"
      if ps: "bt_get rs ''properties'' = Some (JObject ps)" for ps
    proof -
      have "nullable_props (set (required_names rs)) ps = JObject ps"
        using ps by (simp add: nullable_props_def names property_names_def map_idI)
      with ps show ?thesis by (simp add: put_present_same)
    qed
    then have "(case bt_get rs ''properties'' of
        Some (JObject ps) \<Rightarrow> put_present ''properties'' (nullable_props (set (required_names rs)) ps) rs | _ \<Rightarrow> rs) = rs"
      by (auto split: option.splits json.splits)
    then show ?thesis
      using True rq [OF True] bt_insert_same [OF okr' rq [OF True]]
      by (simp add: strict_entries_def c)
  qed
qed

lemma convert_idempotent: "json_ok j \<Longrightarrow> convert_to_strict (convert_to_strict j) = convert_to_strict j"
proof (induction j rule: convert_to_strict.induct)
  case (1 es)
  have ok: "json_ok (JObject (strict_entries es))" using 1(4) by (rule json_ok_strict_entries)
  let ?rs = "map (\<lambda>e. (fst e, convert_entry e)) (strict_entries es)"
  have rs: "convert_to_strict (JObject es) = JObject ?rs" by (rule convert_object)
  have "strict_entries ?rs = ?rs" using 1(4) by (intro converted_object(4) [OF _ rs]) simp
  then have "convert_to_strict (JObject ?rs) = JObject (map (\<lambda>e. (fst e, convert_entry e)) ?rs)"
    by (simp only: convert_object)
  moreover have "convert_entry (fst e, convert_entry e) = convert_entry e"
    if e: "e \<in> set (strict_entries es)" for e
  proof -
    have v: "json_ok (snd e)" using ok e by (auto simp: list_all_iff)
    show ?thesis
    proof (cases "snd e")
      case (JArray xs)
      with v 1(1) [OF e JArray] show ?thesis by (auto simp: convert_entry_def list_all_iff)
    next
      case (JObject fs)
      with v 1(2) [OF e JObject] have n1: "nested_kind (fst e) = 1 \<Longrightarrow> f \<in> set fs \<Longrightarrow>
          convert_to_strict (convert_to_strict (snd f)) = convert_to_strict (snd f)" for f
        by (auto simp: list_all_iff)
      obtain gs where gs: "convert_to_strict (JObject fs) = JObject gs" by (simp add: convert_object)
      show ?thesis
      proof (cases "nested_kind (fst e) = 2")
        case True
        with v JObject 1(3) [OF e JObject] gs show ?thesis by (simp add: convert_entry_def)
      next
        case False
        with n1 JObject show ?thesis by (auto simp: convert_entry_def)
      qed
    qed (simp_all add: convert_entry_def)
  qed
  ultimately show ?case by (simp add: rs)
qed simp_all

text \<open>The schemas that the conversion visits inside a schema.\<close>

inductive subschema :: "json \<Rightarrow> json \<Rightarrow> bool" where
  itself: "subschema s s"
| named: "subschema s (JObject es) \<Longrightarrow> (k, JObject ps) \<in> set es \<Longrightarrow> nested_kind k = 1 \<Longrightarrow> p \<in> set ps \<Longrightarrow>
    subschema s (snd p)"
| single: "subschema s (JObject es) \<Longrightarrow> (k, JObject ps) \<in> set es \<Longrightarrow> nested_kind k = 2 \<Longrightarrow>
    subschema s (JObject ps)"
| listed: "subschema s (JObject es) \<Longrightarrow> (k, JArray xs) \<in> set es \<Longrightarrow> nested_kind k = 3 \<Longrightarrow> x \<in> set xs \<Longrightarrow>
    subschema s x"

lemma converted_entry:
  assumes t: "json_ok t" "convert_to_strict t = JObject es" and e: "(k, v) \<in> set es"
  obtains w where "json_ok w" "v = convert_entry (k, w)"
proof -
  obtain fs where fs: "t = JObject fs" using t(2) by (cases t) auto
  with t have es: "es = map (\<lambda>e. (fst e, convert_entry e)) (strict_entries fs)" by (simp add: convert_object)
  have "json_ok (JObject (strict_entries fs))" using t(1) fs json_ok_strict_entries by simp
  with es e that show thesis by (auto simp: list_all_iff)
qed

lemma subschema_converted:
  "subschema u v \<Longrightarrow> u = convert_to_strict s \<Longrightarrow> json_ok s \<Longrightarrow> \<exists>t. json_ok t \<and> v = convert_to_strict t"
proof (induction rule: subschema.induct)
  case (itself u)
  then show ?case by blast
next
  case (named u es k ps p)
  then obtain t where t: "json_ok t" "convert_to_strict t = JObject es" by auto
  from converted_entry [OF t named(2)] obtain w where w: "json_ok w" "JObject ps = convert_entry (k, w)" .
  with named(3,4) show ?case
    by (cases w) (auto simp: convert_entry_def list_all_iff)
next
  case (single u es k ps)
  then obtain t where t: "json_ok t" "convert_to_strict t = JObject es" by auto
  from converted_entry [OF t single(2)] obtain w where w: "json_ok w" "JObject ps = convert_entry (k, w)" .
  with single(3) have "JObject ps = convert_to_strict w"
    by (cases w) (auto simp: convert_entry_def)
  with w(1) show ?case by blast
next
  case (listed u es k xs x)
  then obtain t where t: "json_ok t" "convert_to_strict t = JObject es" by auto
  from converted_entry [OF t listed(2)] obtain w where w: "json_ok w" "JArray xs = convert_entry (k, w)" .
  with listed(3,4) show ?case
    by (cases w) (auto simp: convert_entry_def convert_object list_all_iff split: if_splits)
qed

subsection \<open>Stripped schemas stay stripped\<close>

definition strip_value :: "bool \<Rightarrow> bool \<Rightarrow> json \<Rightarrow> json" where
  "strip_value names rd v =
     (case v of
        JObject fs \<Rightarrow> strip_extensions names rd (JObject fs)
      | JArray xs \<Rightarrow> JArray (map (strip_extensions False rd) xs)
      | v \<Rightarrow> v)"

declare strip_extensions.simps(1) [simp del]

lemma strip_object:
  "strip_extensions names rd (JObject es) =
     JObject (map (\<lambda>e. (fst e, strip_value (\<not> names \<and> schema_name_map (fst e)) rd (snd e)))
       (filter (\<lambda>e. \<not> stripped_key names rd (fst e)) es))"
proof -
  have "(case x of JObject fs \<Rightarrow> strip_extensions False rd (JObject fs) | _ \<Rightarrow> x) = strip_extensions False rd x" for x
    by (cases x) simp_all
  then show ?thesis by (auto simp: strip_extensions.simps(1) strip_value_def split: json.split)
qed

lemma strip_fixed_object:
  "strip_extensions names rd (JObject es) = JObject es \<longleftrightarrow>
     (\<forall>e \<in> set es. \<not> stripped_key names rd (fst e) \<and>
        strip_value (\<not> names \<and> schema_name_map (fst e)) rd (snd e) = snd e)"
proof -
  have "map (\<lambda>e. (fst e, f e)) (filter P es) = es \<longleftrightarrow> (\<forall>e \<in> set es. P e \<and> f e = snd e)"
    for f :: "string \<times> json \<Rightarrow> json" and P :: "string \<times> json \<Rightarrow> bool"
  proof
    assume "map (\<lambda>e. (fst e, f e)) (filter P es) = es"
    moreover from this have "length (filter P es) = length es" by (metis length_map)
    then have "filter P es = es" by (metis filter_True length_filter_less less_irrefl)
    ultimately show "\<forall>e \<in> set es. P e \<and> f e = snd e"
      by (metis (no_types, lifting) filter_id_conv in_set_conv_nth length_map nth_map snd_conv)
  next
    assume "\<forall>e \<in> set es. P e \<and> f e = snd e"
    then show "map (\<lambda>e. (fst e, f e)) (filter P es) = es"
      by (simp add: filter_True map_idI)
  qed
  then show ?thesis by (simp add: strip_object)
qed

lemma strip_value_fixed_array: "strip_value names rd (JArray xs) = JArray xs \<longleftrightarrow> (\<forall>x \<in> set xs. strip_extensions False rd x = x)"
  by (simp add: strip_value_def map_eq_conv [of _ _ id, simplified])

lemma strip_idempotent: "strip_extensions names rd (strip_extensions names rd j) = strip_extensions names rd j"
proof (induction names rd j rule: strip_extensions.induct)
  case (1 names rd es)
  let ?n = "\<lambda>e. \<not> names \<and> schema_name_map (fst e)"
  have "strip_value (?n e) rd (strip_value (?n e) rd (snd e)) = strip_value (?n e) rd (snd e)"
    if e: "e \<in> set (filter (\<lambda>e. \<not> stripped_key names rd (fst e)) es)" for e
  proof (cases "snd e")
    case (JArray xs)
    have "strip_extensions False rd (strip_extensions False rd x) = strip_extensions False rd x" if x: "x \<in> set xs" for x
    proof (cases x)
      case (JObject gs)
      with 1(1) [OF e JArray x JObject] show ?thesis by simp
    qed simp_all
    with JArray show ?thesis by (simp add: strip_value_def)
  next
    case (JObject fs)
    obtain gs where "strip_extensions (?n e) rd (JObject fs) = JObject gs" by (simp add: strip_object)
    with JObject 1(2) [OF e JObject] show ?thesis by (simp add: strip_value_def)
  qed (simp_all add: strip_value_def)
  then have "strip_extensions names rd (JObject (map (\<lambda>e. (fst e, strip_value (?n e) rd (snd e)))
      (filter (\<lambda>e. \<not> stripped_key names rd (fst e)) es))) = JObject (map (\<lambda>e. (fst e, strip_value (?n e) rd (snd e)))
      (filter (\<lambda>e. \<not> stripped_key names rd (fst e)) es))"
    unfolding strip_fixed_object by auto
  then show ?case by (simp only: strip_object)
qed simp_all

lemma stripped_make_nullable:
  assumes "strip_extensions False rd j = j"
  shows "strip_extensions False rd (make_nullable j) = make_nullable j"
proof (cases j)
  case (JObject es)
  have t: "strip_extensions False rd (JObject (put_present ''type'' (JArray (map JString ss)) es)) =
      JObject (put_present ''type'' (JArray (map JString ss)) es)" for ss
    using assms JObject set_put_present [of "''type''" "JArray (map JString ss)" es]
    by (fastforce simp: strip_fixed_object strip_value_fixed_array stripped_key_def)
  have i: "strip_extensions False rd (JObject (put_present ''type'' (JArray (items @ [JString ''null''])) es)) =
      JObject (put_present ''type'' (JArray (items @ [JString ''null''])) es)"
    if "bt_get es ''type'' = Some (JArray items)" for items
  proof -
    from that have "(''type'', JArray items) \<in> set es" by (simp add: bt_get_def map_of_SomeD)
    with assms JObject have "\<forall>x \<in> set items. strip_extensions False rd x = x"
      by (fastforce simp: strip_fixed_object strip_value_fixed_array)
    with assms JObject set_put_present [of "''type''" "JArray (items @ [JString ''null''])" es] show ?thesis
      by (fastforce simp: strip_fixed_object strip_value_fixed_array stripped_key_def)
  qed
  have w: "strip_extensions False rd (JObject [(''anyOf'', JArray [JObject es, null_schema])]) =
      JObject [(''anyOf'', JArray [JObject es, null_schema])]"
    using assms JObject
    by (simp add: strip_fixed_object [of _ _ "[_]"] strip_value_fixed_array null_schema_def stripped_key_def strip_value_def)
  show ?thesis
    using assms JObject t [of "[_, ''null'']"] i w by (auto split: json.splits option.splits)
qed simp_all

lemma strip_value_object [simp]: "strip_value names rd (JObject fs) = strip_extensions names rd (JObject fs)"
  by (simp add: strip_value_def)

lemma make_nullable_object: "\<exists>gs. make_nullable (JObject fs) = JObject gs"
  by (auto split: json.splits)

lemma strip_value_make_nullable:
  "strip_value False rd v = v \<Longrightarrow> strip_value False rd (make_nullable v) = make_nullable v"
proof (cases v)
  case (JObject fs)
  assume "strip_value False rd v = v"
  with JObject stripped_make_nullable [of rd v] make_nullable_object [of fs] show ?thesis
    by (metis strip_value_object)
qed simp_all

lemma strip_value_convert:
  assumes "strip_value False rd v = v"
    and "\<And>fs. v = JObject fs \<Longrightarrow> strip_extensions False rd v = v \<Longrightarrow>
      strip_extensions False rd (convert_to_strict v) = convert_to_strict v"
  shows "strip_value False rd (convert_to_strict v) = convert_to_strict v"
  using assms by (cases v) (auto simp: convert_object)

lemma stripped_convert:
  "strip_extensions False rd j = j \<Longrightarrow> strip_extensions False rd (convert_to_strict j) = convert_to_strict j"
proof (induction j rule: convert_to_strict.induct)
  case (1 es)
  note fixed = 1(4) [unfolded strip_fixed_object]
  have entry: "\<not> stripped_key False rd (fst e) \<and> strip_value (schema_name_map (fst e)) rd (snd e) = snd e"
    if e: "e \<in> set (strict_entries es)" for e
    using e
  proof (cases rule: strict_entries_cases)
    case old
    with fixed show ?thesis by auto
  next
    case (props ps names)
    from props(1) have m: "(''properties'', JObject ps) \<in> set es" by (simp add: bt_get_def map_of_SomeD)
    with fixed have "strip_extensions True rd (JObject ps) = JObject ps"
      by (fastforce simp: strip_value_def schema_name_map_def)
    then have "strip_extensions True rd (nullable_props names ps) = nullable_props names ps"
      unfolding nullable_props_def strip_fixed_object by (auto simp: strip_value_make_nullable stripped_key_def)
    with props(2) fixed m show ?thesis
      by (auto simp: strip_value_def schema_name_map_def nullable_props_def)
  qed (auto simp: stripped_key_def strip_value_def)
  have "strip_value (schema_name_map (fst e)) rd (convert_entry e) = convert_entry e"
    if e: "e \<in> set (strict_entries es)" for e
  proof (cases "snd e")
    case (JArray xs)
    with entry [OF e] have "\<forall>x \<in> set xs. strip_extensions False rd x = x"
      by (simp add: strip_value_fixed_array)
    with 1(1) [OF e JArray] JArray show ?thesis
      by (auto simp: convert_entry_def strip_value_fixed_array)
  next
    case (JObject fs)
    note fs = entry [OF e, unfolded JObject, THEN conjunct2, unfolded strip_value_object]
    consider "nested_kind (fst e) = 1" | "nested_kind (fst e) = 2" | "nested_kind (fst e) \<notin> {1, 2}" by blast
    then show ?thesis
    proof cases
      assume k: "nested_kind (fst e) = 1"
      then have n: "schema_name_map (fst e)" by (auto simp: nested_kind_def schema_name_map_def split: if_splits)
      have "strip_value False rd (convert_to_strict (snd f)) = convert_to_strict (snd f)" if f: "f \<in> set fs" for f
        using fs n f by (intro strip_value_convert 1(2) [OF e JObject k f]) (auto simp: strip_fixed_object)
      with JObject k n show ?thesis by (auto simp: convert_entry_def strip_fixed_object stripped_key_def)
    next
      assume k: "nested_kind (fst e) = 2"
      then have n: "\<not> schema_name_map (fst e)" by (auto simp: nested_kind_def schema_name_map_def split: if_splits)
      have "strip_extensions False rd (convert_to_strict (JObject fs)) = convert_to_strict (JObject fs)"
        using fs n k by (intro 1(3) [OF e JObject]) simp_all
      with JObject k n show ?thesis by (simp add: convert_entry_def convert_object)
    next
      assume "nested_kind (fst e) \<notin> {1, 2}"
      with JObject fs show ?thesis by (simp add: convert_entry_def)
    qed
  qed (simp_all add: convert_entry_def strip_value_def)
  with entry show ?case by (simp add: convert_object strip_fixed_object)
qed simp_all

subsection \<open>Properties\<close>

text \<open>C32: strict conversion of a well-formed schema gives a well-formed document in which every schema
  that the conversion visits and that lists properties forbids all others and requires exactly the listed
  ones, in order; converting once more changes nothing.\<close>

theorem strict_schema_is_closed:
  assumes "json_ok s"
  shows "json_ok (to_strict_schema s) \<and> to_strict_schema (to_strict_schema s) = to_strict_schema s
    \<and> (\<forall>es. subschema (to_strict_schema s) (JObject es) \<and> object_with_props es \<longrightarrow>
         bt_get es ''additionalProperties'' = Some (JBool False) \<and>
         bt_get es ''required'' = Some (JArray (map JString (sort (property_names es)))))"
proof -
  let ?t = "strip_extensions False True s"
  have t: "json_ok ?t" using assms by (rule json_ok_strip)
  have "to_strict_schema (to_strict_schema s) = to_strict_schema s"
    using stripped_convert [OF strip_idempotent] convert_idempotent [OF t] by (simp add: to_strict_schema_def)
  moreover have "bt_get es ''additionalProperties'' = Some (JBool False) \<and>
      bt_get es ''required'' = Some (JArray (map JString (sort (property_names es))))"
    if es: "subschema (to_strict_schema s) (JObject es)" "object_with_props es" for es
  proof -
    from subschema_converted [OF es(1) to_strict_schema_def t] obtain u
      where u: "json_ok u" "JObject es = convert_to_strict u" by blast
    then obtain fs where fs: "u = JObject fs" by (cases u) auto
    with u have "bt_ok fs" "convert_to_strict (JObject fs) = JObject es" by simp_all
    with es(2) show ?thesis using converted_object(2,3) by blast
  qed
  ultimately show ?thesis using json_ok_convert [OF t] by (simp add: to_strict_schema_def)
qed

definition sample_schema :: json where
  "sample_schema = JObject [
     (''properties'', JObject [(''age'', JObject [(''default'', JNull), (''type'', JString ''integer'')]),
        (''name'', JObject [(''type'', JString ''string'')])]),
     (''required'', JArray [JString ''name'']), (''type'', JString ''object''), (''x-hint'', JBool True)]"

theorem strict_schema_is_closed_witness:
  "\<exists>es. to_strict_schema sample_schema = JObject es \<and>
     bt_get es ''required'' = Some (JArray [JString ''age'', JString ''name''])"
proof -
  have ok: "json_ok sample_schema" by code_simp
  have v: "to_strict_schema sample_schema = JObject [(''additionalProperties'', JBool False),
     (''properties'', JObject [(''age'', JObject [(''type'', JArray [JString ''integer'', JString ''null''])]),
        (''name'', JObject [(''type'', JString ''string'')])]),
     (''required'', JArray [JString ''age'', JString ''name'']), (''type'', JString ''object'')]" (is "_ = JObject ?es")
    by code_simp
  have "object_with_props ?es" "sort (property_names ?es) = [''age'', ''name'']" by code_simp+
  with strict_schema_is_closed [OF ok] subschema.itself [of "to_strict_schema sample_schema"] v show ?thesis by force
qed

text \<open>Stripping does not know literals from schemas: a constant loses its own keys.\<close>

lemma strict_changes_constants:
  "to_strict_schema (JObject [(''const'', JObject [(''default'', JBool True), (''x-id'', JString ''a'')])]) =
     JObject [(''const'', JObject [])]"
  by code_simp

end
