(* ===== verification/Registry.thy ===== *)
theory Registry
  imports Names Contexts ModuleTypes StrictSchemas
begin

section \<open>The module registry\<close>

text \<open>
  \<open>src/src/registry/registry.rs\<close> and \<open>conflicts.rs\<close>. The state behind the registry's locks
  is one record; every critical section (a block under one lock) is one function of it, so that an
  operation is a composition of them and, in the theory of registry runs, a sequence of steps between which
  other threads act. A module is the object its \<open>Arc\<close> points to (\<open>module_object\<close>); what its
  \<open>on_load\<close> answers is the environment's and comes as a parameter. Callbacks, hooks and events are
  recorded in order in the log \<open>rg_log\<close>. Message texts are not modelled.
\<close>

subsection \<open>Identifiers\<close>

definition reserved_words :: "string list" where
  "reserved_words = [''system'', ''internal'', ''core'', ''apcore'', ''plugin'', ''schema'', ''acl'']"

definition max_module_id_length :: nat where
  "max_module_id_length = 192"

definition default_module_version :: string where
  "default_module_version = ''1.0.0''"

definition first_segment :: "string \<Rightarrow> string" where
  "first_segment name = hd (split_on (CHR ''.'') name)"

definition validate_module_id :: "string \<Rightarrow> bool \<Rightarrow> module_error + unit" where
  "validate_module_id name allow_reserved =
     (if name = [] then Inl (module_error_new InvalidModuleId)
      else if \<not> canonical_id_grammar name then Inl (module_error_new InvalidModuleId)
      else if length name > max_module_id_length then Inl (module_error_new InvalidModuleId)
      else if \<not> allow_reserved \<and> first_segment name \<in> set reserved_words
        then Inl (module_error_new InvalidModuleId)
      else Inr ())"

definition is_ephemeral_module_id :: "string \<Rightarrow> bool" where
  "is_ephemeral_module_id name \<longleftrightarrow> name = ''ephemeral'' \<or> prefix ''ephemeral.'' name"

datatype conflict_type = DuplicateId | ReservedWord | CaseCollision

datatype conflict_severity = ConflictError | ConflictWarning

definition to_lowercase :: "string \<Rightarrow> string" where
  "to_lowercase s = map to_ascii_lower s"

definition detect_id_conflicts ::
  "string \<Rightarrow> string set \<Rightarrow> string list \<Rightarrow> (string \<times> string) list option
     \<Rightarrow> (conflict_type \<times> conflict_severity) option" where
  "detect_id_conflicts new_id existing_ids reserved lowercase_map =
     (if new_id \<in> existing_ids then Some (DuplicateId, ConflictError)
      else if first_segment new_id \<in> set reserved then Some (ReservedWord, ConflictError)
      else
        (case lowercase_map of
           Some lc \<Rightarrow>
             (case bt_get lc (to_lowercase new_id) of
                Some existing \<Rightarrow> if existing \<noteq> new_id then Some (CaseCollision, ConflictWarning) else None
              | None \<Rightarrow> None)
         | None \<Rightarrow>
             if \<exists>e \<in> existing_ids. to_lowercase e = to_lowercase new_id \<and> e \<noteq> new_id
             then Some (CaseCollision, ConflictWarning) else None))"

subsection \<open>Descriptors\<close>

record module_descriptor =
  md_module_id :: string
  md_name :: "string option"
  md_description :: string
  md_documentation :: "string option"
  md_input_schema :: json
  md_output_schema :: json
  md_version :: string
  md_tags :: "string list"
  md_annotations :: "module_annotations option"
  md_examples :: "module_example list"
  md_metadata :: "(string \<times> json) list"
  md_display :: "json option"
  md_sunset_date :: "string option"
  md_dependencies :: "dependency_info list"
  md_enabled :: bool

text \<open>\<open>parse_dependencies\<close>: entries without a module id are skipped.\<close>

definition parse_dependency :: "json \<Rightarrow> dep_info option" where
  "parse_dependency dep =
     (case dep of
        JObject es \<Rightarrow>
          (case Option.bind (bt_get es ''module_id'') as_str of
             None \<Rightarrow> None
           | Some m \<Rightarrow>
               if m = [] then None
               else Some \<lparr>dep_module_id = m, dep_version = Option.bind (bt_get es ''version'') as_str,
                          dep_optional = (case Option.bind (bt_get es ''optional'') as_bool of
                                            None \<Rightarrow> False | Some b \<Rightarrow> b)\<rparr>)
      | _ \<Rightarrow> None)"

definition parse_dependencies :: "json list \<Rightarrow> dep_info list" where
  "parse_dependencies deps = List.map_filter parse_dependency deps"

definition dependency_of_info :: "dep_info \<Rightarrow> dependency_info" where
  "dependency_of_info d =
     \<lparr>di_module_id = dep_module_id d,
      di_version_constraint = (case dep_version d of None \<Rightarrow> [] | Some v \<Rightarrow> v),
      di_optional = dep_optional d\<rparr>"

definition dependencies_from_metadata :: "(string \<times> json) list \<Rightarrow> dependency_info list" where
  "dependencies_from_metadata metadata =
     (case Option.bind (bt_get metadata ''dependencies'') as_array of
        None \<Rightarrow> []
      | Some arr \<Rightarrow> map dependency_of_info (parse_dependencies arr))"

definition nonempty :: "string option \<Rightarrow> string option" where
  "nonempty v = (case v of Some s \<Rightarrow> if s = [] then None else Some s | None \<Rightarrow> None)"

text \<open>The descriptor that \<open>register_module\<close> builds from the module alone.\<close>

definition inferred_descriptor :: "string \<Rightarrow> module_object \<Rightarrow> module_descriptor" where
  "inferred_descriptor name m =
     \<lparr>md_module_id = name, md_name = None, md_description = mo_description m,
      md_documentation = mo_documentation m, md_input_schema = mo_input_schema m,
      md_output_schema = mo_output_schema m,
      md_version = (case nonempty (mo_version m) of None \<Rightarrow> default_module_version | Some v \<Rightarrow> v),
      md_tags = mo_tags m, md_annotations = Some (mo_annotations m), md_examples = mo_examples m,
      md_metadata = mo_metadata m, md_display = None, md_sunset_date = None,
      md_dependencies = dependencies_from_metadata (mo_metadata m), md_enabled = True\<rparr>"

text \<open>The descriptor of the four-argument form.\<close>

definition versioned_descriptor ::
  "string \<Rightarrow> module_object \<Rightarrow> string option \<Rightarrow> (string \<times> json) list option \<Rightarrow> module_descriptor" where
  "versioned_descriptor name m version metadata0 =
     (let metadata = (case metadata0 of None \<Rightarrow> [] | Some md \<Rightarrow> md);
          declared = dependencies_from_metadata metadata
      in \<lparr>md_module_id = name, md_name = None, md_description = mo_description m,
          md_documentation = mo_documentation m, md_input_schema = mo_input_schema m,
          md_output_schema = mo_output_schema m,
          md_version =
            (case nonempty version of
               Some v \<Rightarrow> v
             | None \<Rightarrow> (case nonempty (mo_version m) of None \<Rightarrow> default_module_version | Some v \<Rightarrow> v)),
          md_tags = mo_tags m, md_annotations = Some (mo_annotations m), md_examples = mo_examples m,
          md_metadata = metadata, md_display = None, md_sunset_date = None,
          md_dependencies = (if declared = [] then mo_dependencies m else declared), md_enabled = True\<rparr>)"

definition descriptor_is_discoverable :: "module_descriptor option \<Rightarrow> bool" where
  "descriptor_is_discoverable d =
     (case d of
        Some desc \<Rightarrow> (case md_annotations desc of None \<Rightarrow> True | Some ann \<Rightarrow> ma_discoverable ann)
      | None \<Rightarrow> True)"

definition x_deprecation :: "module_descriptor \<Rightarrow> (string \<times> json) list option" where
  "x_deprecation d = Option.bind (bt_get (md_metadata d) ''x-deprecation'') as_object"

definition apply_deprecation_metadata :: "module_descriptor \<Rightarrow> module_descriptor" where
  "apply_deprecation_metadata d =
     (case x_deprecation d of
        None \<Rightarrow> d
      | Some deprecation \<Rightarrow>
          if md_sunset_date d = None
          then d\<lparr>md_sunset_date := Option.bind (bt_get deprecation ''sunset_date'') as_str\<rparr>
          else d)"

definition descriptor_schema_shape_is_valid :: "module_descriptor \<Rightarrow> bool" where
  "descriptor_schema_shape_is_valid d \<longleftrightarrow>
     (as_object (md_input_schema d) \<noteq> None \<or> md_input_schema d = JNull) \<and>
     (as_object (md_output_schema d) \<noteq> None \<or> md_output_schema d = JNull)"

subsection \<open>State\<close>

record version_entry =
  ve_version :: string
  ve_module :: module_object
  ve_descriptor :: module_descriptor

datatype registry_event =
    Loaded string module_object
  | LoadFailed string module_object
  | Unloaded string module_object
  | RegisterCallback nat string module_object
  | UnregisterCallback nat string module_object
  | LoadFailedCallback nat string module_error
  | LoadFailedEvent string module_error
  | EphemeralEvent string string
  | Resumed string module_object json
  | ApprovalWarning string
  | DeprecationWarning string string

record registry =
  rg_modules :: "(string \<times> module_object) list"
  rg_descriptors :: "(string \<times> module_descriptor) list"
  rg_ref_counts :: "(string \<times> nat) list"
  rg_draining :: "string set"
  rg_lowercase_map :: "(string \<times> string) list"
  rg_schema_cache :: "(string \<times> json) list"
  rg_versions :: "(string \<times> version_entry list) list"
  rg_sources :: "(string \<times> string) list"
  rg_in_flight :: "string set"
  rg_callbacks :: "(string \<times> (nat \<times> nat) list) list"
  rg_callback_counter :: nat
  rg_deprecation_warned :: "(string \<times> string \<times> string) set"
  rg_drain_events :: "(string \<times> nat) list"
  rg_next_notify :: nat
  rg_notified :: "nat set"
  rg_load_failed_callbacks :: "nat list"
  rg_validator :: "(module_object \<Rightarrow> module_descriptor option \<Rightarrow> bool) option"
  rg_extension_roots :: "string list"
  rg_emitter :: bool
  rg_log :: "registry_event list"

definition registry_new :: registry where
  "registry_new =
     \<lparr>rg_modules = [], rg_descriptors = [], rg_ref_counts = [], rg_draining = {}, rg_lowercase_map = [],
      rg_schema_cache = [], rg_versions = [], rg_sources = [], rg_in_flight = {}, rg_callbacks = [],
      rg_callback_counter = 1, rg_deprecation_warned = {}, rg_drain_events = [], rg_next_notify = 0,
      rg_notified = {}, rg_load_failed_callbacks = [], rg_validator = None, rg_extension_roots = [],
      rg_emitter = False, rg_log = []\<rparr>"

definition log_events :: "registry_event list \<Rightarrow> registry \<Rightarrow> registry" where
  "log_events evs r = r\<lparr>rg_log := rg_log r @ evs\<rparr>"

definition snapshot_callbacks :: "string \<Rightarrow> registry \<Rightarrow> nat list" where
  "snapshot_callbacks event r =
     (case bt_get (rg_callbacks r) event of None \<Rightarrow> [] | Some cbs \<Rightarrow> map snd cbs)"

definition emit_module_load_failed :: "string \<Rightarrow> module_error \<Rightarrow> registry \<Rightarrow> registry" where
  "emit_module_load_failed name e r =
     (if rg_emitter r then log_events [LoadFailedEvent name e] r else r)"

definition emit_ephemeral_event :: "string \<Rightarrow> string \<Rightarrow> registry \<Rightarrow> registry" where
  "emit_ephemeral_event event name r =
     (if is_ephemeral_module_id name \<and> rg_emitter r then log_events [EphemeralEvent event name] r else r)"

subsection \<open>Registration\<close>

definition duplicate_module_id :: "string \<Rightarrow> module_error" where
  "duplicate_module_id name =
     with_details (details_of [(''module_id'', JString name)]) (module_error_new DuplicateModuleId)"

definition module_not_found :: "string \<Rightarrow> module_error" where
  "module_not_found name =
     with_details (details_of [(''module_id'', JString name)]) (module_error_new ModuleNotFound)"

definition streaming_interface_mismatch :: "string \<Rightarrow> string \<Rightarrow> module_error" where
  "streaming_interface_mismatch name reason =
     with_details (details_of [(''module_id'', JString name), (''mismatch_reason'', JString reason)])
       (module_error_new StreamingInterfaceMismatch)"

definition warn_if_missing_approval :: "string \<Rightarrow> module_object \<Rightarrow> module_descriptor \<Rightarrow> registry \<Rightarrow> registry" where
  "warn_if_missing_approval name m d r =
     (if case governance_union (Some (mo_annotations m)) (md_annotations d) of
           None \<Rightarrow> False | Some a \<Rightarrow> ma_requires_approval a
      then r else log_events [ApprovalWarning name] r)"

definition check_registration ::
  "string \<Rightarrow> module_object \<Rightarrow> module_descriptor \<Rightarrow> bool \<Rightarrow> bool \<Rightarrow> registry
     \<Rightarrow> (module_error + module_descriptor) \<times> registry" where
  "check_registration name m d0 allow_reserved run_validator r0 =
     (case validate_module_id name allow_reserved of
        Inl e \<Rightarrow> (Inl e, r0)
      | Inr _ \<Rightarrow>
          (let d = apply_deprecation_metadata d0;
               r = (if is_ephemeral_module_id name then warn_if_missing_approval name m d r0 else r0)
           in if (case md_annotations d of None \<Rightarrow> False | Some ann \<Rightarrow> ma_streaming ann \<and> \<not> mo_as_streaming m)
              then (Inl (streaming_interface_mismatch name
                     ''missing_marker: module declares streaming=true but does not implement StreamingModule''), r)
              else if run_validator
                then (case rg_validator r of
                        Some validate \<Rightarrow>
                          if \<not> validate m (Some d) then (Inl (module_error_new GeneralInvalidInput), r)
                          else (Inr d, r)
                      | None \<Rightarrow> (Inr d, r))
              else (Inr d, r)))"

text \<open>Conflict detection under the read lock.\<close>

definition find_conflict :: "string list \<Rightarrow> string \<Rightarrow> registry \<Rightarrow> (conflict_type \<times> conflict_severity) option" where
  "find_conflict reserved name r =
     detect_id_conflicts name (set (map fst (rg_modules r))) reserved (Some (rg_lowercase_map r))"

definition conflict_gate :: "bool \<Rightarrow> string \<Rightarrow> registry \<Rightarrow> module_error option" where
  "conflict_gate allow_reserved name r =
     (case find_conflict (if allow_reserved then [] else reserved_words) name r of
        Some (ct, ConflictError) \<Rightarrow>
          Some (module_error_new (if ct = DuplicateId then DuplicateModuleId else GeneralInvalidInput))
      | _ \<Rightarrow> None)"

text \<open>The atomic reservation in \<open>in_flight\<close>, and its release.\<close>

definition reserve_slot :: "string \<Rightarrow> registry \<Rightarrow> registry option" where
  "reserve_slot name r =
     (if name \<in> rg_in_flight r then None else Some (r\<lparr>rg_in_flight := insert name (rg_in_flight r)\<rparr>))"

definition release_slot :: "string \<Rightarrow> registry \<Rightarrow> registry" where
  "release_slot name r = r\<lparr>rg_in_flight := rg_in_flight r - {name}\<rparr>"

definition schemas_of :: "module_descriptor \<Rightarrow> json" where
  "schemas_of d = JObject (details_of [(''input'', md_input_schema d), (''output'', md_output_schema d)])"

definition publish :: "string \<Rightarrow> module_object \<Rightarrow> module_descriptor \<Rightarrow> registry \<Rightarrow> registry" where
  "publish name m d r =
     r\<lparr>rg_schema_cache := bt_insert name (schemas_of d) (rg_schema_cache r),
        rg_lowercase_map := bt_insert (to_lowercase name) name (rg_lowercase_map r),
        rg_modules := bt_insert name m (rg_modules r),
        rg_descriptors := bt_insert name d (rg_descriptors r)\<rparr>"

text \<open>\<open>register_core\<close> publishes only when the id is still free; discovery does not look again.\<close>

definition publish_if_free :: "string \<Rightarrow> module_object \<Rightarrow> module_descriptor \<Rightarrow> registry \<Rightarrow> bool \<times> registry" where
  "publish_if_free name m d r =
     (if bt_get (rg_modules r) name \<noteq> None then (False, r) else (True, publish name m d r))"

definition publish_discovered ::
  "string \<Rightarrow> string \<Rightarrow> module_object \<Rightarrow> module_descriptor \<Rightarrow> registry \<Rightarrow> registry" where
  "publish_discovered name source m d r =
     (publish name m d r)\<lparr>rg_sources := bt_insert name source (rg_sources r)\<rparr>"

definition notify_registered :: "string \<Rightarrow> module_object \<Rightarrow> registry \<Rightarrow> registry" where
  "notify_registered name m r =
     log_events (map (\<lambda>cb. RegisterCallback cb name m) (snapshot_callbacks ''register'' r)) r"

definition notify_load_failed :: "string \<Rightarrow> module_error \<Rightarrow> registry \<Rightarrow> registry" where
  "notify_load_failed name e r =
     emit_module_load_failed name e
       (log_events (map (\<lambda>cb. LoadFailedCallback cb name e) (rg_load_failed_callbacks r)) r)"

definition register_core ::
  "(module_object \<Rightarrow> module_error option) \<Rightarrow> string \<Rightarrow> module_object \<Rightarrow> module_descriptor \<Rightarrow> bool \<Rightarrow> bool
     \<Rightarrow> registry \<Rightarrow> (module_error + unit) \<times> registry" where
  "register_core on_load name m d0 allow_reserved run_validator r0 =
     (case check_registration name m d0 allow_reserved run_validator r0 of
        (Inl e, r1) \<Rightarrow> (Inl e, r1)
      | (Inr d, r1) \<Rightarrow>
          (case conflict_gate allow_reserved name r1 of
             Some e \<Rightarrow> (Inl e, r1)
           | None \<Rightarrow>
               (case reserve_slot name r1 of
                  None \<Rightarrow> (Inl (duplicate_module_id name), r1)
                | Some r2 \<Rightarrow>
                    (case on_load m of
                       None \<Rightarrow>
                         (case publish_if_free name m d (log_events [Loaded name m] r2) of
                            (published, r3) \<Rightarrow>
                              (let r4 = release_slot name r3
                               in if \<not> published then (Inl (duplicate_module_id name), r4)
                                  else (Inr (), emit_ephemeral_event ''apcore.registry.module_registered'' name
                                                  (notify_registered name m r4))))
                     | Some e \<Rightarrow>
                         (Inl e, notify_load_failed name e
                                   (release_slot name (log_events [LoadFailed name m] r2)))))))"

definition register ::
  "(module_object \<Rightarrow> module_error option) \<Rightarrow> string \<Rightarrow> module_object \<Rightarrow> module_descriptor \<Rightarrow> registry
     \<Rightarrow> (module_error + unit) \<times> registry" where
  "register on_load name m d r = register_core on_load name m d False True r"

definition register_module ::
  "(module_object \<Rightarrow> module_error option) \<Rightarrow> string \<Rightarrow> module_object \<Rightarrow> registry
     \<Rightarrow> (module_error + unit) \<times> registry" where
  "register_module on_load name m r = register on_load name m (inferred_descriptor name m) r"

definition register_internal ::
  "(module_object \<Rightarrow> module_error option) \<Rightarrow> string \<Rightarrow> module_object \<Rightarrow> module_descriptor \<Rightarrow> registry
     \<Rightarrow> (module_error + unit) \<times> registry" where
  "register_internal on_load name m d r =
     (if is_ephemeral_module_id name then (Inl (module_error_new InvalidModuleId), r)
      else register_core on_load name m d True False r)"

definition reinstate_internal ::
  "(module_object \<Rightarrow> module_error option) \<Rightarrow> string \<Rightarrow> module_object \<Rightarrow> module_descriptor \<Rightarrow> registry
     \<Rightarrow> (module_error + unit) \<times> registry" where
  "reinstate_internal on_load name m d r = register_core on_load name m d True False r"

subsection \<open>Several versions of one module\<close>

definition version_registered :: "string \<Rightarrow> string \<Rightarrow> registry \<Rightarrow> bool" where
  "version_registered name version r =
     (case bt_get (rg_versions r) name of
        Some entries \<Rightarrow> \<exists>e \<in> set entries. ve_version e = version
      | None \<Rightarrow> (case bt_get (rg_descriptors r) name of None \<Rightarrow> False | Some d \<Rightarrow> md_version d = version))"

text \<open>\<open>Iterator::max_by_key\<close>: the last of the maximal entries.\<close>

fun latest_entry :: "version_entry list \<Rightarrow> version_entry option" where
  "latest_entry [] = None"
| "latest_entry (e # es) =
     (case latest_entry es of
        None \<Rightarrow> Some e
      | Some l \<Rightarrow> if sv_less (parse_semver (ve_version l)) (parse_semver (ve_version e)) then Some e else Some l)"

definition has :: "string \<Rightarrow> registry \<Rightarrow> bool" where
  "has name r \<longleftrightarrow> bt_get (rg_modules r) name \<noteq> None"

text \<open>The critical section of \<open>add_version\<close>: \<open>None\<close> when the module was unregistered
  meanwhile, otherwise whether the version was added.\<close>

definition put_version :: "string \<Rightarrow> module_object \<Rightarrow> module_descriptor \<Rightarrow> registry \<Rightarrow> (bool \<times> registry) option" where
  "put_version name m d r =
     (case (bt_get (rg_modules r) name, bt_get (rg_descriptors r) name) of
        (Some current, Some current_descriptor) \<Rightarrow>
          (let entries0 = (case bt_get (rg_versions r) name of
                 Some es \<Rightarrow> es
               | None \<Rightarrow> [\<lparr>ve_version = md_version current_descriptor, ve_module = current,
                           ve_descriptor = current_descriptor\<rparr>])
           in if \<exists>e \<in> set entries0. ve_version e = md_version d
              then Some (False, r\<lparr>rg_versions := bt_insert name entries0 (rg_versions r)\<rparr>)
              else
                (let entries = entries0 @ [\<lparr>ve_version = md_version d, ve_module = m, ve_descriptor = d\<rparr>];
                     r1 = r\<lparr>rg_versions := bt_insert name entries (rg_versions r)\<rparr>
                 in Some (True,
                      (case latest_entry entries of
                         None \<Rightarrow> r1
                       | Some l \<Rightarrow>
                           r1\<lparr>rg_schema_cache := bt_insert name (schemas_of (ve_descriptor l)) (rg_schema_cache r1),
                               rg_modules := bt_insert name (ve_module l) (rg_modules r1),
                               rg_descriptors := bt_insert name (ve_descriptor l) (rg_descriptors r1)\<rparr>))))
      | _ \<Rightarrow> None)"

definition add_version ::
  "(module_object \<Rightarrow> module_error option) \<Rightarrow> string \<Rightarrow> module_object \<Rightarrow> module_descriptor \<Rightarrow> registry
     \<Rightarrow> (module_error + unit) \<times> registry" where
  "add_version on_load name m d0 r0 =
     (case check_registration name m d0 False True r0 of
        (Inl e, r1) \<Rightarrow> (Inl e, r1)
      | (Inr d, r1) \<Rightarrow>
          if version_registered name (md_version d) r1 then (Inl (module_error_new DuplicateModuleId), r1)
          else
            (case on_load m of
               Some e \<Rightarrow> (Inl e, emit_module_load_failed name e (log_events [LoadFailed name m] r1))
             | None \<Rightarrow>
                 (let r2 = log_events [Loaded name m] r1
                  in case put_version name m d r2 of
                       None \<Rightarrow> register_core on_load name m d False False r2
                     | Some (False, r3) \<Rightarrow> (Inl (module_error_new DuplicateModuleId), r3)
                     | Some (True, r3) \<Rightarrow> (Inr (), notify_registered name m r3))))"

definition register_versioned ::
  "(module_object \<Rightarrow> module_error option) \<Rightarrow> string \<Rightarrow> module_object \<Rightarrow> string option
     \<Rightarrow> (string \<times> json) list option \<Rightarrow> registry \<Rightarrow> (module_error + unit) \<times> registry" where
  "register_versioned on_load name m version metadata r =
     (let d = versioned_descriptor name m version metadata
      in if nonempty version \<noteq> None \<and> has name r then add_version on_load name m d r
         else register on_load name m d r)"

subsection \<open>Removal, references and draining\<close>

text \<open>The critical section of \<open>unregister\<close>.\<close>

definition withdraw :: "string \<Rightarrow> registry \<Rightarrow> registry" where
  "withdraw name r =
     r\<lparr>rg_modules := bt_remove name (rg_modules r),
        rg_descriptors := bt_remove name (rg_descriptors r),
        rg_lowercase_map := bt_remove (to_lowercase name) (rg_lowercase_map r),
        rg_schema_cache := bt_remove name (rg_schema_cache r),
        rg_versions := bt_remove name (rg_versions r),
        rg_sources := bt_remove name (rg_sources r),
        rg_ref_counts := bt_remove name (rg_ref_counts r),
        rg_draining := rg_draining r - {name}\<rparr>"

definition forget_drain_event :: "string \<Rightarrow> registry \<Rightarrow> registry" where
  "forget_drain_event name r = r\<lparr>rg_drain_events := bt_remove name (rg_drain_events r)\<rparr>"

definition notify_unregistered :: "string \<Rightarrow> module_object \<Rightarrow> registry \<Rightarrow> registry" where
  "notify_unregistered name m r0 =
     (let r = log_events [Unloaded name m] r0
      in emit_ephemeral_event ''apcore.registry.module_unregistered'' name
           (log_events (map (\<lambda>cb. UnregisterCallback cb name m) (snapshot_callbacks ''unregister'' r)) r))"

definition unregister :: "string \<Rightarrow> registry \<Rightarrow> bool \<times> registry" where
  "unregister name r =
     (case bt_get (rg_modules r) name of
        None \<Rightarrow> (False, r)
      | Some m \<Rightarrow> (True, notify_unregistered name m (forget_drain_event name (withdraw name r))))"

definition acquire :: "string \<Rightarrow> registry \<Rightarrow> (module_error + module_object) \<times> registry" where
  "acquire name r =
     (if name \<in> rg_draining r then (Inl (module_error_new ModuleNotFound), r)
      else
        (case bt_get (rg_modules r) name of
           None \<Rightarrow> (Inl (module_not_found name), r)
         | Some m \<Rightarrow>
             (Inr m, r\<lparr>rg_ref_counts :=
                bt_insert name ((case bt_get (rg_ref_counts r) name of None \<Rightarrow> 0 | Some n \<Rightarrow> n) + 1)
                  (rg_ref_counts r)\<rparr>)))"

text \<open>The counting part of \<open>release\<close>, and the wake-up of a waiting drain after it.\<close>

definition count_down :: "string \<Rightarrow> registry \<Rightarrow> bool \<times> registry" where
  "count_down name r =
     (case bt_get (rg_ref_counts r) name of
        None \<Rightarrow> (False, r)
      | Some n \<Rightarrow>
          (let n' = (if n > 0 then n - 1 else n)
           in if n' = 0 then (True, r\<lparr>rg_ref_counts := bt_remove name (rg_ref_counts r)\<rparr>)
              else (False, r\<lparr>rg_ref_counts := bt_insert name n' (rg_ref_counts r)\<rparr>)))"

definition wake_drain :: "string \<Rightarrow> registry \<Rightarrow> registry" where
  "wake_drain name r =
     (case bt_get (rg_drain_events r) name of
        None \<Rightarrow> r
      | Some n \<Rightarrow> r\<lparr>rg_notified := insert n (rg_notified r)\<rparr>)"

definition release_module :: "string \<Rightarrow> registry \<Rightarrow> registry" where
  "release_module name r =
     (case count_down name r of (should_notify, r') \<Rightarrow> if should_notify then wake_drain name r' else r')"

definition is_draining :: "string \<Rightarrow> registry \<Rightarrow> bool" where
  "is_draining name r \<longleftrightarrow> name \<in> rg_draining r"

datatype drain_start = NotRegistered | NoReferences | WaitFor nat

text \<open>The critical section that begins \<open>safe_unregister\<close>.\<close>

definition begin_drain :: "string \<Rightarrow> registry \<Rightarrow> drain_start \<times> registry" where
  "begin_drain name r =
     (if bt_get (rg_modules r) name = None then (NotRegistered, r)
      else
        (let r1 = r\<lparr>rg_draining := insert name (rg_draining r)\<rparr>
         in if (case bt_get (rg_ref_counts r) name of None \<Rightarrow> 0 | Some n \<Rightarrow> n) = 0 then (NoReferences, r1)
            else (WaitFor (rg_next_notify r),
                  r1\<lparr>rg_drain_events := bt_insert name (rg_next_notify r) (rg_drain_events r),
                     rg_next_notify := rg_next_notify r + 1\<rparr>)))"

definition end_drain :: "string \<Rightarrow> registry \<Rightarrow> registry" where
  "end_drain name r = forget_drain_event name (r\<lparr>rg_draining := rg_draining r - {name}\<rparr>)"

text \<open>The whole of \<open>safe_unregister\<close> when nobody else acts; \<open>drained\<close> is the outcome of
  the wait, false for the timeout.\<close>

definition safe_unregister :: "bool \<Rightarrow> string \<Rightarrow> registry \<Rightarrow> bool \<times> registry" where
  "safe_unregister drained name r =
     (case begin_drain name r of
        (NotRegistered, r1) \<Rightarrow> (False, r1)
      | (NoReferences, r1) \<Rightarrow> (True, snd (unregister name r1))
      | (WaitFor _, r1) \<Rightarrow> (drained, snd (unregister name (end_drain name r1))))"

subsection \<open>Reading\<close>

definition get_module :: "string \<Rightarrow> registry \<Rightarrow> module_error + module_object option" where
  "get_module name r =
     (if name = [] then Inl (module_error_new ModuleNotFound) else Inr (bt_get (rg_modules r) name))"

definition warn_if_deprecated :: "(json \<Rightarrow> string) \<Rightarrow> string \<Rightarrow> module_descriptor \<Rightarrow> registry \<Rightarrow> registry" where
  "warn_if_deprecated render name d r =
     (case x_deprecation d of
        None \<Rightarrow> r
      | Some deprecation \<Rightarrow>
          (let key = (name, md_version d, canonical_json render (JObject deprecation))
           in if key \<in> rg_deprecation_warned r then r
              else log_events [DeprecationWarning name (md_version d)]
                     (r\<lparr>rg_deprecation_warned := insert key (rg_deprecation_warned r)\<rparr>)))"

definition get_definition ::
  "(json \<Rightarrow> string) \<Rightarrow> string \<Rightarrow> registry \<Rightarrow> (module_error + module_descriptor option) \<times> registry" where
  "get_definition render name r =
     (case get_module name r of
        Inl e \<Rightarrow> (Inl e, r)
      | Inr None \<Rightarrow> (Inr None, r)
      | Inr (Some _) \<Rightarrow>
          (case bt_get (rg_descriptors r) name of
             None \<Rightarrow> (Inr None, r)
           | Some d \<Rightarrow> (Inr (Some d), warn_if_deprecated render name d r)))"

definition list_full ::
  "string list option \<Rightarrow> string option \<Rightarrow> string list option \<Rightarrow> registry \<Rightarrow> string list" where
  "list_full tags pfx visibility r =
     (let vis = (case visibility of None \<Rightarrow> [''public''] | Some v \<Rightarrow> v);
          show_public = ''public'' \<in> set vis;
          show_hidden = ''hidden'' \<in> set vis;
          selected = (\<lambda>(name, m).
            (let d = bt_get (rg_descriptors r) name; is_disc = descriptor_is_discoverable d
             in ((is_disc \<and> show_public) \<or> (\<not> is_disc \<and> show_hidden)) \<and>
                (case pfx of None \<Rightarrow> True | Some p \<Rightarrow> prefix p name) \<and>
                (case tags of
                   None \<Rightarrow> True
                 | Some ts \<Rightarrow> set ts \<subseteq> set (case d of None \<Rightarrow> [] | Some desc \<Rightarrow> md_tags desc) \<union> set (mo_tags m))))
      in sort (map fst (filter selected (rg_modules r))))"

definition module_ids_full :: "bool \<Rightarrow> registry \<Rightarrow> string list" where
  "module_ids_full include_hidden r =
     sort (filter (\<lambda>name. include_hidden \<or> descriptor_is_discoverable (bt_get (rg_descriptors r) name))
       (map fst (rg_modules r)))"

definition entries_full :: "bool \<Rightarrow> registry \<Rightarrow> (string \<times> module_object) list" where
  "entries_full include_hidden r =
     filter (\<lambda>e. include_hidden \<or> descriptor_is_discoverable (bt_get (rg_descriptors r) (fst e))) (rg_modules r)"

definition count_modules :: "registry \<Rightarrow> nat" where
  "count_modules r = length (rg_modules r)"

definition is_enabled :: "string \<Rightarrow> registry \<Rightarrow> bool option" where
  "is_enabled name r = map_option md_enabled (bt_get (rg_descriptors r) name)"

definition set_enabled :: "bool \<Rightarrow> string \<Rightarrow> registry \<Rightarrow> (module_error + unit) \<times> registry" where
  "set_enabled b name r =
     (case bt_get (rg_descriptors r) name of
        None \<Rightarrow> (Inl (module_error_new ModuleNotFound), r)
      | Some d \<Rightarrow> (Inr (), r\<lparr>rg_descriptors := bt_insert name (d\<lparr>md_enabled := b\<rparr>) (rg_descriptors r)\<rparr>))"

definition export_schema :: "(json \<Rightarrow> string) \<Rightarrow> string \<Rightarrow> bool \<Rightarrow> registry \<Rightarrow> json option \<times> registry" where
  "export_schema render name strict r =
     (case get_definition render name r of
        (Inr (Some d), r') \<Rightarrow>
          (let f = (if strict then to_strict_schema else (\<lambda>s. s))
           in (Some (JObject (details_of [(''module_id'', JString (md_module_id d)),
                 (''description'', JString (md_description d)), (''input_schema'', f (md_input_schema d)),
                 (''output_schema'', f (md_output_schema d))])), r'))
      | (_, r') \<Rightarrow> (None, r'))"

subsection \<open>Event subscriptions\<close>

definition registry_events :: "string list" where
  "registry_events = [''register'', ''unregister'']"

definition on_event :: "string \<Rightarrow> nat \<Rightarrow> registry \<Rightarrow> (module_error + nat) \<times> registry" where
  "on_event event callback r =
     (if event \<notin> set registry_events then (Inl invalid_input, r)
      else
        (let i = rg_callback_counter r
         in (Inr i, r\<lparr>rg_callback_counter := (i + 1) mod 2 ^ 64,
               rg_callbacks := bt_insert event
                 ((case bt_get (rg_callbacks r) event of None \<Rightarrow> [] | Some es \<Rightarrow> es) @ [(i, callback)])
                 (rg_callbacks r)\<rparr>)))"

fun remove_handle :: "nat \<Rightarrow> (nat \<times> nat) list \<Rightarrow> (nat \<times> nat) list option" where
  "remove_handle h [] = None"
| "remove_handle h ((i, cb) # es) =
     (if i = h then Some es else map_option ((#) (i, cb)) (remove_handle h es))"

fun off_entries :: "nat \<Rightarrow> (string \<times> (nat \<times> nat) list) list \<Rightarrow> (string \<times> (nat \<times> nat) list) list option" where
  "off_entries h [] = None"
| "off_entries h ((event, es) # m) =
     (case remove_handle h es of
        Some es' \<Rightarrow> Some ((event, es') # m)
      | None \<Rightarrow> map_option ((#) (event, es)) (off_entries h m))"

definition off_event :: "nat \<Rightarrow> registry \<Rightarrow> bool \<times> registry" where
  "off_event h r =
     (case off_entries h (rg_callbacks r) of
        None \<Rightarrow> (False, r)
      | Some m \<Rightarrow> (True, r\<lparr>rg_callbacks := m\<rparr>))"

subsection \<open>What the host installs\<close>

definition on_load_failed :: "nat \<Rightarrow> registry \<Rightarrow> registry" where
  "on_load_failed callback r = r\<lparr>rg_load_failed_callbacks := rg_load_failed_callbacks r @ [callback]\<rparr>"

definition set_event_emitter :: "registry \<Rightarrow> registry" where
  "set_event_emitter r = r\<lparr>rg_emitter := True\<rparr>"

definition set_validator ::
  "(module_object \<Rightarrow> module_descriptor option \<Rightarrow> bool) \<Rightarrow> registry \<Rightarrow> registry" where
  "set_validator v r = r\<lparr>rg_validator := Some v\<rparr>"

definition set_extension_roots :: "string list \<Rightarrow> registry \<Rightarrow> registry" where
  "set_extension_roots roots r = r\<lparr>rg_extension_roots := roots\<rparr>"

definition for_each_module :: "(string \<Rightarrow> module_object \<Rightarrow> 's \<Rightarrow> 's) \<Rightarrow> registry \<Rightarrow> 's \<Rightarrow> 's" where
  "for_each_module f r = fold (\<lambda>(name, m). f name m) (rg_modules r)"

subsection \<open>The description document\<close>

definition newline :: string where
  "newline = [CHR 0x0A]"

definition param_line :: "string list \<Rightarrow> string \<times> json \<Rightarrow> string" where
  "param_line required p =
     (let field = (\<lambda>k fallback. case Option.bind (Option.bind (as_object (snd p)) (\<lambda>es. bt_get es k)) as_str of
                     None \<Rightarrow> fallback | Some s \<Rightarrow> s)
      in ''- `'' @ fst p @ ''` ('' @ field ''type'' ''any'' @ '')'' @
         (if fst p \<in> set required then '' (required)'' else []) @ '': '' @ field ''description'' [])"

definition description_lines :: "module_descriptor \<Rightarrow> string list" where
  "description_lines d =
     (let inp = (case as_object (md_input_schema d) of None \<Rightarrow> [] | Some es \<Rightarrow> es);
          props = (case Option.bind (bt_get inp ''properties'') as_object of None \<Rightarrow> [] | Some ps \<Rightarrow> ps)
      in [''# '' @ md_module_id d] @
         (if md_description d = [] then [] else [newline @ md_description d]) @
         (if md_tags d = [] then [] else [newline @ ''**Tags:** '' @ join_with '', '' (md_tags d)]) @
         (if props = [] then []
          else (newline @ ''**Parameters:**'') # map (param_line (required_names inp)) props) @
         (case nonempty (md_documentation d) of
            None \<Rightarrow> []
          | Some doc \<Rightarrow> [newline @ ''**Documentation:**'' @ newline @ doc]))"

definition describe :: "(json \<Rightarrow> string) \<Rightarrow> string \<Rightarrow> registry \<Rightarrow> (module_error + string) \<times> registry" where
  "describe render name r =
     (case bt_get (rg_modules r) name of
        None \<Rightarrow> (Inl (module_not_found name), r)
      | Some m \<Rightarrow>
          (case module_describe m of
             JString s \<Rightarrow> (Inr s, r)
           | _ \<Rightarrow>
               (case get_definition render name r of
                  (Inl e, r') \<Rightarrow> (Inl e, r')
                | (Inr None, r') \<Rightarrow>
                    (Inr (''Module: '' @ name @ newline @ newline @ ''No description available.''), r')
                | (Inr (Some d), r') \<Rightarrow> (Inr (join_with newline (description_lines d)), r'))))"

subsection \<open>Discovery\<close>

record discovered_module =
  dm_name :: string
  dm_source :: string
  dm_descriptor :: module_descriptor
  dm_module :: module_object

text \<open>The checks that an entry passes before anything is locked.\<close>

definition discovered_acceptable :: "discovered_module \<Rightarrow> registry \<Rightarrow> bool" where
  "discovered_acceptable dm r \<longleftrightarrow>
     validate_module_id (dm_name dm) False = Inr () \<and> \<not> is_ephemeral_module_id (dm_name dm) \<and>
     (case rg_validator r of None \<Rightarrow> True | Some validate \<Rightarrow> validate (dm_module dm) (Some (dm_descriptor dm))) \<and>
     descriptor_schema_shape_is_valid (dm_descriptor dm)"

definition register_one_discovered ::
  "(module_object \<Rightarrow> module_error option) \<Rightarrow> discovered_module \<Rightarrow> registry \<Rightarrow> bool \<times> registry" where
  "register_one_discovered on_load dm r0 =
     (let name = dm_name dm; m = dm_module dm
      in if \<not> discovered_acceptable dm r0 then (False, r0)
         else if conflict_gate False name r0 \<noteq> None then (False, r0)
         else
           (case reserve_slot name r0 of
              None \<Rightarrow> (False, r0)
            | Some r1 \<Rightarrow>
                (case on_load m of
                   None \<Rightarrow>
                     (True, notify_registered name m (release_slot name
                        (publish_discovered name (dm_source dm) m (dm_descriptor dm) (log_events [Loaded name m] r1))))
                 | Some e \<Rightarrow>
                     (False, notify_load_failed name e (release_slot name (log_events [LoadFailed name m] r1))))))"

fun register_discovered ::
  "(module_object \<Rightarrow> module_error option) \<Rightarrow> discovered_module list \<Rightarrow> registry \<Rightarrow> nat \<times> registry" where
  "register_discovered on_load [] r = (0, r)"
| "register_discovered on_load (dm # dms) r =
     (case register_one_discovered on_load dm r of
        (registered, r1) \<Rightarrow>
          (case register_discovered on_load dms r1 of
             (n, r2) \<Rightarrow> ((if registered then n + 1 else n), r2)))"

type_synonym discoverer = "string list \<Rightarrow> module_error + discovered_module list"

definition discover ::
  "(module_object \<Rightarrow> module_error option) \<Rightarrow> discoverer \<Rightarrow> registry \<Rightarrow> (module_error + nat) \<times> registry" where
  "discover on_load discoverer r =
     (case discoverer (rg_extension_roots r) of
        Inl e \<Rightarrow> (Inl e, r)
      | Inr dms \<Rightarrow> (case register_discovered on_load dms r of (n, r') \<Rightarrow> (Inr n, r')))"

text \<open>The slot of the internal discoverer is emptied while it runs and refilled afterwards unless
  another one was set meanwhile (\<open>installed\<close>).\<close>

definition set_discoverer :: "discoverer \<Rightarrow> discoverer option \<Rightarrow> discoverer option" where
  "set_discoverer d slot = Some d"

definition restore_discoverer :: "discoverer option \<Rightarrow> discoverer option \<Rightarrow> discoverer option" where
  "restore_discoverer taken slot = (case taken of None \<Rightarrow> slot | Some d \<Rightarrow> if slot = None then Some d else slot)"

definition run_discoverer ::
  "discoverer option \<Rightarrow> discoverer option \<Rightarrow> registry
     \<Rightarrow> (module_error + discovered_module list) \<times> discoverer option" where
  "run_discoverer slot installed r =
     (case slot of
        None \<Rightarrow> (Inl (module_error_new NoDiscovererConfigured), restore_discoverer None installed)
      | Some d \<Rightarrow> (d (rg_extension_roots r), restore_discoverer (Some d) installed))"

definition discover_internal ::
  "(module_object \<Rightarrow> module_error option) \<Rightarrow> discoverer option \<Rightarrow> discoverer option \<Rightarrow> registry
     \<Rightarrow> (module_error + nat) \<times> discoverer option \<times> registry" where
  "discover_internal on_load slot installed r =
     (case run_discoverer slot installed r of
        (Inl e, slot') \<Rightarrow> (Inl e, slot', r)
      | (Inr dms, slot') \<Rightarrow> (case register_discovered on_load dms r of (n, r') \<Rightarrow> (Inr n, slot', r')))"

text \<open>What the host supplies to a reload: whether a drain completes in time, the state a module hands
  over (\<open>None\<close> also when the hook panicked), the outcome of \<open>on_load\<close>, the file system.\<close>

record reload_world =
  rw_on_load :: "module_object \<Rightarrow> module_error option"
  rw_drained :: "string \<Rightarrow> bool"
  rw_suspend :: "module_object \<Rightarrow> json option"
  rw_touches :: "string \<Rightarrow> bool"
  rw_exists :: "string \<Rightarrow> bool"

definition replace_discovered ::
  "(json \<Rightarrow> string) \<Rightarrow> reload_world \<Rightarrow> discovered_module \<Rightarrow> registry \<Rightarrow> (module_error + unit) \<times> registry" where
  "replace_discovered render w dm r0 =
     (let name = dm_name dm
      in case get_module name r0 of
           Inl e \<Rightarrow> (Inl e, r0)
         | Inr previous \<Rightarrow>
             (case get_definition render name r0 of
                (Inl e, r1) \<Rightarrow> (Inl e, r1)
              | (Inr previous_descriptor, r1) \<Rightarrow>
                  (let state = Option.bind previous (rw_suspend w);
                       r2 = snd (safe_unregister (rw_drained w name) name r1)
                   in case register_discovered (rw_on_load w) [dm] r2 of
                        (n, r3) \<Rightarrow>
                          if n = 0 then
                            (case (previous, previous_descriptor) of
                               (Some m, Some d) \<Rightarrow> reinstate_internal (rw_on_load w) name m d r3
                             | _ \<Rightarrow> (Inr (), r3))
                          else
                            (case (state, get_module name r3) of
                               (Some st, Inr (Some m)) \<Rightarrow> (Inr (), log_events [Resumed name m st] r3)
                             | _ \<Rightarrow> (Inr (), r3)))))"

fun apply_discovered ::
  "(json \<Rightarrow> string) \<Rightarrow> reload_world \<Rightarrow> discovered_module list \<Rightarrow> discovered_module list \<Rightarrow> registry
     \<Rightarrow> (module_error + unit) \<times> registry" where
  "apply_discovered render w [] new_modules r =
     (Inr (), snd (register_discovered (rw_on_load w) new_modules r))"
| "apply_discovered render w (dm # dms) new_modules r =
     (if \<not> has (dm_name dm) r then apply_discovered render w dms (new_modules @ [dm]) r
      else if rw_touches w (dm_source dm)
      then (case replace_discovered render w dm r of
              (Inl e, r') \<Rightarrow> (Inl e, r')
            | (Inr _, r') \<Rightarrow> apply_discovered render w dms new_modules r')
      else apply_discovered render w dms new_modules r)"

definition removed_sources :: "reload_world \<Rightarrow> discovered_module list \<Rightarrow> registry \<Rightarrow> string list" where
  "removed_sources w dms r =
     map fst (filter (\<lambda>(i, source). \<not> rw_exists w source \<and> rw_touches w source \<and>
                         (\<forall>dm \<in> set dms. dm_name dm \<noteq> i)) (rg_sources r))"

definition apply_file_changes ::
  "(json \<Rightarrow> string) \<Rightarrow> reload_world \<Rightarrow> module_error + discovered_module list \<Rightarrow> registry
     \<Rightarrow> (module_error + unit) \<times> registry" where
  "apply_file_changes render w discovered r =
     (case discovered of
        Inl e \<Rightarrow> (Inl e, r)
      | Inr dms \<Rightarrow>
          apply_discovered render w dms []
            (fold (\<lambda>i r. snd (safe_unregister (rw_drained w i) i r)) (removed_sources w dms r) r))"

subsection \<open>Extension roots\<close>

definition root_of_item :: "json \<Rightarrow> string option" where
  "root_of_item item =
     (case item of
        JString s \<Rightarrow> Some s
      | JObject es \<Rightarrow> Option.bind (bt_get es ''root'') as_str
      | _ \<Rightarrow> None)"

definition set_extension_roots_from_config :: "(string \<Rightarrow> json option) \<Rightarrow> registry \<Rightarrow> registry" where
  "set_extension_roots_from_config cfg r =
     (if rg_extension_roots r \<noteq> [] then r
      else
        (let roots = (case cfg ''extensions.roots'' of
               Some (JArray items) \<Rightarrow> List.map_filter root_of_item items
             | _ \<Rightarrow> [])
         in if roots \<noteq> [] then r\<lparr>rg_extension_roots := roots\<rparr>
            else (case nonempty (Option.bind (cfg ''extensions.root'') as_str) of
                    Some root \<Rightarrow> r\<lparr>rg_extension_roots := [root]\<rparr>
                  | None \<Rightarrow> r)))"

end
