(* ===== verification/RegistryRuns.thy ===== *)
theory RegistryRuns
  imports Registry
begin

section \<open>Registrations, removals and references interleaved\<close>

text \<open>
  The operations of the registry as threads that run their critical sections one at a time, in any
  interleaving: registrations by hand and by discovery, further versions, removals with and without a
  drain, acquisitions and releases. What \<open>on_load\<close> answers and whether a wait for a drain times out
  is chosen by the step. \<open>ww_handles\<close> counts the acquisitions not yet released, \<open>ww_forced\<close>
  remembers the ids whose module was withdrawn while some were outstanding.
\<close>

record registration =
  ri_source :: "string option"
  ri_allow_reserved :: bool
  ri_name :: string
  ri_module :: module_object
  ri_descriptor :: module_descriptor

datatype registration_phase =
    Checked | Cleared | Reserved | LoadOk | LoadErr module_error | Published bool
  | RegisterDone "module_error + unit"

datatype version_phase = VersionChecked | VersionNew | VersionLoaded | VersionDone "module_error + unit"

datatype removal_phase =
    Waiting nat | Unmarked bool | ToWithdraw bool | Withdrawn module_object bool | Removed bool bool

datatype registry_thread =
    Registering registration registration_phase
  | Versioning registration version_phase
  | Removing string removal_phase
  | Waking string bool

record registry_world =
  ww_reg :: registry
  ww_threads :: "registry_thread list"
  ww_handles :: "string multiset"
  ww_forced :: "string set"

definition registry_world_init :: "registry \<Rightarrow> registry_world" where
  "registry_world_init r = \<lparr>ww_reg = r, ww_threads = [], ww_handles = {#}, ww_forced = {}\<rparr>"

definition registering_next ::
  "module_error option \<Rightarrow> registration \<Rightarrow> registration_phase \<Rightarrow> registry \<Rightarrow> (registration_phase \<times> registry) option" where
  "registering_next outcome ri p r =
     (let name = ri_name ri; m = ri_module ri
      in case p of
           Checked \<Rightarrow>
             (case conflict_gate (ri_allow_reserved ri) name r of
                Some e \<Rightarrow> Some (RegisterDone (Inl e), r)
              | None \<Rightarrow> Some (Cleared, r))
         | Cleared \<Rightarrow>
             (case reserve_slot name r of
                None \<Rightarrow> Some (RegisterDone (Inl (duplicate_module_id name)), r)
              | Some r' \<Rightarrow> Some (Reserved, r'))
         | Reserved \<Rightarrow>
             (case outcome of
                None \<Rightarrow> Some (LoadOk, log_events [Loaded name m] r)
              | Some e \<Rightarrow> Some (LoadErr e, log_events [LoadFailed name m] r))
         | LoadOk \<Rightarrow>
             (case ri_source ri of
                None \<Rightarrow> (case publish_if_free name m (ri_descriptor ri) r of (b, r') \<Rightarrow> Some (Published b, r'))
              | Some source \<Rightarrow> Some (Published True, publish_discovered name source m (ri_descriptor ri) r))
         | Published b \<Rightarrow>
             (let r' = release_slot name r
              in if \<not> b then Some (RegisterDone (Inl (duplicate_module_id name)), r')
                 else Some (RegisterDone (Inr ()),
                        (if ri_source ri = None
                         then emit_ephemeral_event ''apcore.registry.module_registered'' name (notify_registered name m r')
                         else notify_registered name m r')))
         | LoadErr e \<Rightarrow> Some (RegisterDone (Inl e), notify_load_failed name e (release_slot name r))
         | RegisterDone _ \<Rightarrow> None)"

definition versioning_next ::
  "module_error option \<Rightarrow> registration \<Rightarrow> version_phase \<Rightarrow> registry \<Rightarrow> (registry_thread \<times> registry) option" where
  "versioning_next outcome ri p r =
     (let name = ri_name ri; m = ri_module ri; d = ri_descriptor ri
      in case p of
           VersionChecked \<Rightarrow>
             Some (Versioning ri
               (if version_registered name (md_version d) r
                then VersionDone (Inl (module_error_new DuplicateModuleId)) else VersionNew), r)
         | VersionNew \<Rightarrow>
             (case outcome of
                Some e \<Rightarrow> Some (Versioning ri (VersionDone (Inl e)),
                            emit_module_load_failed name e (log_events [LoadFailed name m] r))
              | None \<Rightarrow> Some (Versioning ri VersionLoaded, log_events [Loaded name m] r))
         | VersionLoaded \<Rightarrow>
             (case put_version name m d r of
                None \<Rightarrow>
                  (case check_registration name m d False False r of
                     (Inl e, r') \<Rightarrow> Some (Versioning ri (VersionDone (Inl e)), r')
                   | (Inr d', r') \<Rightarrow> Some (Registering (ri\<lparr>ri_descriptor := d'\<rparr>) Checked, r'))
              | Some (False, r') \<Rightarrow> Some (Versioning ri (VersionDone (Inl (module_error_new DuplicateModuleId))), r')
              | Some (True, r') \<Rightarrow> Some (Versioning ri (VersionDone (Inr ())), notify_registered name m r'))
         | VersionDone _ \<Rightarrow> None)"

definition removing_next :: "bool \<Rightarrow> string \<Rightarrow> removal_phase \<Rightarrow> registry \<Rightarrow> (removal_phase \<times> registry) option" where
  "removing_next timed_out name p r =
     (case p of
        Waiting n \<Rightarrow>
          if timed_out then Some (Unmarked False, r\<lparr>rg_draining := rg_draining r - {name}\<rparr>)
          else if n \<in> rg_notified r then Some (Unmarked True, r\<lparr>rg_draining := rg_draining r - {name}\<rparr>)
          else None
      | Unmarked clean \<Rightarrow> Some (ToWithdraw clean, forget_drain_event name r)
      | ToWithdraw clean \<Rightarrow>
          (case bt_get (rg_modules r) name of
             None \<Rightarrow> Some (Removed False clean, r)
           | Some m \<Rightarrow> Some (Withdrawn m clean, withdraw name r))
      | Withdrawn m clean \<Rightarrow>
          Some (Removed True clean, notify_unregistered name m (forget_drain_event name r))
      | Removed _ _ \<Rightarrow> None)"

datatype registry_action =
    StartRegister registration bool
  | StartDiscovered discovered_module
  | StartVersion registration
  | StartUnregister string
  | StartDrain string
  | AcquireModule string
  | ReleaseModule string
  | SetEnabled bool string
  | Advance nat "module_error option" bool

definition spawn_thread :: "registry_thread \<Rightarrow> registry \<Rightarrow> registry_world \<Rightarrow> registry_world" where
  "spawn_thread t r w = w\<lparr>ww_reg := r, ww_threads := ww_threads w @ [t]\<rparr>"

definition thread_at :: "nat \<Rightarrow> registry_thread \<Rightarrow> registry \<Rightarrow> registry_world \<Rightarrow> registry_world" where
  "thread_at i t r w = w\<lparr>ww_reg := r, ww_threads := (ww_threads w)[i := t]\<rparr>"

text \<open>A withdrawal with outstanding references forces the unload.\<close>

definition note_forced :: "registry_thread \<Rightarrow> registry_world \<Rightarrow> registry_world" where
  "note_forced t w =
     (case t of
        Removing name (Withdrawn m clean) \<Rightarrow>
          if name \<in># ww_handles w then w\<lparr>ww_forced := insert name (ww_forced w)\<rparr> else w
      | _ \<Rightarrow> w)"

definition advance_thread :: "nat \<Rightarrow> module_error option \<Rightarrow> bool \<Rightarrow> registry_world \<Rightarrow> registry_world option" where
  "advance_thread i outcome timed_out w =
     (if i < length (ww_threads w) then
        (case ww_threads w ! i of
           Registering ri p \<Rightarrow>
             map_option (\<lambda>(p', r). thread_at i (Registering ri p') r w) (registering_next outcome ri p (ww_reg w))
         | Versioning ri p \<Rightarrow>
             map_option (\<lambda>(t, r). thread_at i t r w) (versioning_next outcome ri p (ww_reg w))
         | Removing name p \<Rightarrow>
             map_option (\<lambda>(p', r). note_forced (Removing name p') (thread_at i (Removing name p') r w))
               (removing_next timed_out name p (ww_reg w))
         | Waking name woken \<Rightarrow>
             if woken then None else Some (thread_at i (Waking name True) (wake_drain name (ww_reg w)) w))
      else None)"

fun registry_act :: "registry_action \<Rightarrow> registry_world \<Rightarrow> registry_world option" where
  "registry_act (StartRegister ri run_validator) w =
     (case check_registration (ri_name ri) (ri_module ri) (ri_descriptor ri) (ri_allow_reserved ri) run_validator
             (ww_reg w) of
        (Inl e, r) \<Rightarrow> Some (w\<lparr>ww_reg := r\<rparr>)
      | (Inr d, r) \<Rightarrow>
          Some (spawn_thread (Registering (ri\<lparr>ri_source := None, ri_descriptor := d\<rparr>) Checked) r w))"
| "registry_act (StartDiscovered dm) w =
     (if discovered_acceptable dm (ww_reg w) then
        Some (spawn_thread (Registering
          \<lparr>ri_source = Some (dm_source dm), ri_allow_reserved = False, ri_name = dm_name dm,
           ri_module = dm_module dm, ri_descriptor = dm_descriptor dm\<rparr> Checked) (ww_reg w) w)
      else None)"
| "registry_act (StartVersion ri) w =
     (case check_registration (ri_name ri) (ri_module ri) (ri_descriptor ri) False True (ww_reg w) of
        (Inl e, r) \<Rightarrow> Some (w\<lparr>ww_reg := r\<rparr>)
      | (Inr d, r) \<Rightarrow>
          Some (spawn_thread (Versioning
            (ri\<lparr>ri_source := None, ri_allow_reserved := False, ri_descriptor := d\<rparr>) VersionChecked) r w))"
| "registry_act (StartUnregister name) w =
     Some (spawn_thread (Removing name (ToWithdraw True)) (ww_reg w) w)"
| "registry_act (StartDrain name) w =
     (case begin_drain name (ww_reg w) of
        (NotRegistered, r) \<Rightarrow> None
      | (NoReferences, r) \<Rightarrow> Some (spawn_thread (Removing name (ToWithdraw True)) r w)
      | (WaitFor n, r) \<Rightarrow> Some (spawn_thread (Removing name (Waiting n)) r w))"
| "registry_act (AcquireModule name) w =
     (case acquire name (ww_reg w) of
        (Inl e, r) \<Rightarrow> None
      | (Inr m, r) \<Rightarrow> Some (w\<lparr>ww_reg := r, ww_handles := add_mset name (ww_handles w)\<rparr>))"
| "registry_act (ReleaseModule name) w =
     (if name \<in># ww_handles w then
        (case count_down name (ww_reg w) of
           (should_notify, r) \<Rightarrow>
             let w' = w\<lparr>ww_reg := r, ww_handles := ww_handles w - {#name#}\<rparr>
             in Some (if should_notify then spawn_thread (Waking name False) r w' else w'))
      else None)"
| "registry_act (SetEnabled b name) w = Some (w\<lparr>ww_reg := snd (set_enabled b name (ww_reg w))\<rparr>)"
| "registry_act (Advance i outcome timed_out) w = advance_thread i outcome timed_out w"

definition registry_fresh :: "registry \<Rightarrow> bool" where
  "registry_fresh r \<longleftrightarrow>
     rg_modules r = [] \<and> rg_descriptors r = [] \<and> rg_ref_counts r = [] \<and> rg_draining r = {} \<and>
     rg_lowercase_map r = [] \<and> rg_schema_cache r = [] \<and> rg_versions r = [] \<and> rg_sources r = [] \<and>
     rg_in_flight r = {} \<and> rg_drain_events r = [] \<and> rg_notified r = {}"

inductive registry_run :: "(registry_action \<Rightarrow> registry_world \<Rightarrow> bool) \<Rightarrow> registry_world \<Rightarrow> bool"
  for allowed where
  run_start: "registry_fresh r \<Longrightarrow> registry_run allowed (registry_world_init r)"
| run_act: "registry_run allowed w \<Longrightarrow> allowed a w \<Longrightarrow> registry_act a w = Some w' \<Longrightarrow> registry_run allowed w'"

subsection \<open>The registry's own invariant\<close>

definition valid_id :: "string \<Rightarrow> bool" where
  "valid_id name \<longleftrightarrow> validate_module_id name True = Inr ()"

definition loaded_in :: "registry \<Rightarrow> string \<Rightarrow> module_object \<Rightarrow> bool" where
  "loaded_in r name m \<longleftrightarrow> Loaded name m \<in> set (rg_log r)"

definition maps_ok :: "registry \<Rightarrow> bool" where
  "maps_ok r \<longleftrightarrow>
     bt_ok (rg_modules r) \<and> bt_ok (rg_descriptors r) \<and> bt_ok (rg_schema_cache r) \<and> bt_ok (rg_lowercase_map r) \<and>
     bt_ok (rg_versions r) \<and> bt_ok (rg_sources r) \<and> bt_ok (rg_ref_counts r)"

text \<open>What the maps say about one id fits together.\<close>

definition entry_ok :: "registry \<Rightarrow> string \<Rightarrow> bool" where
  "entry_ok r n \<longleftrightarrow>
     (case bt_get (rg_modules r) n of
        None \<Rightarrow>
          bt_get (rg_descriptors r) n = None \<and> bt_get (rg_schema_cache r) n = None \<and>
          bt_get (rg_lowercase_map r) n = None \<and> bt_get (rg_versions r) n = None \<and>
          bt_get (rg_sources r) n = None \<and> bt_get (rg_ref_counts r) n = None \<and> n \<notin> rg_draining r
      | Some m \<Rightarrow>
          valid_id n \<and> loaded_in r n m \<and>
          (\<exists>d. bt_get (rg_descriptors r) n = Some d \<and> bt_get (rg_schema_cache r) n = Some (schemas_of d)) \<and>
          bt_get (rg_lowercase_map r) n = Some n \<and> bt_get (rg_ref_counts r) n \<noteq> Some 0 \<and>
          (\<forall>es. bt_get (rg_versions r) n = Some es \<longrightarrow>
             es \<noteq> [] \<and> distinct (map ve_version es) \<and> (\<forall>e \<in> set es. loaded_in r n (ve_module e))))"

definition registry_ok :: "registry \<Rightarrow> bool" where
  "registry_ok r \<longleftrightarrow> maps_ok r \<and> (\<forall>n. entry_ok r n)"

lemma entry_ok_cong:
  assumes "entry_ok r n"
    and "bt_get (rg_modules r') n = bt_get (rg_modules r) n"
    and "bt_get (rg_descriptors r') n = bt_get (rg_descriptors r) n"
    and "bt_get (rg_schema_cache r') n = bt_get (rg_schema_cache r) n"
    and "bt_get (rg_lowercase_map r') n = bt_get (rg_lowercase_map r) n"
    and "bt_get (rg_versions r') n = bt_get (rg_versions r) n"
    and "bt_get (rg_sources r') n = bt_get (rg_sources r) n"
    and "bt_get (rg_ref_counts r') n = bt_get (rg_ref_counts r) n"
    and "n \<in> rg_draining r' \<Longrightarrow> n \<in> rg_draining r"
    and "set (rg_log r) \<subseteq> set (rg_log r')"
  shows "entry_ok r' n"
  using assms by (fastforce simp: entry_ok_def loaded_in_def split: option.splits)

lemma registry_okD:
  assumes "registry_ok r"
  shows "bt_ok (rg_modules r)" "bt_ok (rg_descriptors r)" "bt_ok (rg_schema_cache r)" "bt_ok (rg_lowercase_map r)"
    "bt_ok (rg_versions r)" "bt_ok (rg_sources r)" "bt_ok (rg_ref_counts r)" "entry_ok r n"
  using assms by (simp_all add: registry_ok_def maps_ok_def)

text \<open>An operation that changes the maps at one id only has to be judged there.\<close>

lemma registry_okI:
  assumes ok: "registry_ok r" and m: "maps_ok r'" and e: "entry_ok r' name"
    and "\<And>n. n \<noteq> name \<Longrightarrow>
      bt_get (rg_modules r') n = bt_get (rg_modules r) n \<and> bt_get (rg_descriptors r') n = bt_get (rg_descriptors r) n \<and>
      bt_get (rg_schema_cache r') n = bt_get (rg_schema_cache r) n \<and>
      bt_get (rg_lowercase_map r') n = bt_get (rg_lowercase_map r) n \<and>
      bt_get (rg_versions r') n = bt_get (rg_versions r) n \<and> bt_get (rg_sources r') n = bt_get (rg_sources r) n \<and>
      bt_get (rg_ref_counts r') n = bt_get (rg_ref_counts r) n \<and> (n \<in> rg_draining r' \<longrightarrow> n \<in> rg_draining r)"
    and "set (rg_log r) \<subseteq> set (rg_log r')"
  shows "registry_ok r'"
proof -
  have "entry_ok r' n" for n
  proof (cases "n = name")
    case False
    then show ?thesis
      using assms(4) [of n] by (intro entry_ok_cong [OF registry_okD(8) [OF ok] _ _ _ _ _ _ _ _ assms(5)]) simp_all
  qed (simp add: e)
  with m show ?thesis by (simp add: registry_ok_def)
qed

lemma log_events_simps [simp]:
  "rg_modules (log_events es r) = rg_modules r" "rg_descriptors (log_events es r) = rg_descriptors r"
  "rg_schema_cache (log_events es r) = rg_schema_cache r" "rg_lowercase_map (log_events es r) = rg_lowercase_map r"
  "rg_versions (log_events es r) = rg_versions r" "rg_sources (log_events es r) = rg_sources r"
  "rg_ref_counts (log_events es r) = rg_ref_counts r" "rg_draining (log_events es r) = rg_draining r"
  "rg_in_flight (log_events es r) = rg_in_flight r" "rg_drain_events (log_events es r) = rg_drain_events r"
  "rg_notified (log_events es r) = rg_notified r" "rg_next_notify (log_events es r) = rg_next_notify r"
  "rg_callbacks (log_events es r) = rg_callbacks r" "rg_emitter (log_events es r) = rg_emitter r"
  "rg_load_failed_callbacks (log_events es r) = rg_load_failed_callbacks r"
  "rg_validator (log_events es r) = rg_validator r"
  "rg_log (log_events es r) = rg_log r @ es"
  by (simp_all add: log_events_def)

text \<open>Logging, notifying and warning touch nothing but the log.\<close>

lemma log_only:
  "\<exists>es. emit_module_load_failed name e r = log_events es r"
  "\<exists>es. emit_ephemeral_event ev name r = log_events es r"
  "\<exists>es. notify_registered name m r = log_events es r"
  "\<exists>es. notify_load_failed name e r = log_events es r"
  "\<exists>es. notify_unregistered name m r = log_events es r"
  "\<exists>es. warn_if_missing_approval name m d r = log_events es r"
proof -
  have c: "\<exists>es. log_events as (log_events bs r) = log_events es r" "\<exists>es. r = log_events es r" for as bs r
    by (auto simp: log_events_def intro: exI [of _ "bs @ as"] exI [of _ "[]"])
  show "\<exists>es. emit_module_load_failed name e r = log_events es r"
    "\<exists>es. emit_ephemeral_event ev name r = log_events es r" "\<exists>es. notify_registered name m r = log_events es r"
    "\<exists>es. notify_load_failed name e r = log_events es r"
    "\<exists>es. notify_unregistered name m r = log_events es r"
    "\<exists>es. warn_if_missing_approval name m d r = log_events es r"
    using c unfolding emit_module_load_failed_def emit_ephemeral_event_def notify_registered_def
      notify_load_failed_def notify_unregistered_def warn_if_missing_approval_def Let_def
    by (auto simp: log_events_def)
qed

lemma set_split_on: "set xs \<subseteq> insert c (\<Union> (set ` set (split_on c xs)))"
proof (induction xs)
  case (Cons x xs)
  obtain s ss where "split_on c xs = s # ss" by (cases "split_on c xs") auto
  with Cons show ?case by auto
qed simp

lemma canonical_chars: "canonical_id_grammar s \<Longrightarrow> c \<in> set s \<Longrightarrow> \<not> is_ascii_upper c"
proof -
  assume g: "canonical_id_grammar s" and c: "c \<in> set s"
  have "set s \<subseteq> insert (CHR ''.'') (\<Union> (set ` set (split_on (CHR ''.'') s)))"
    by (rule set_split_on)
  moreover have "canonical_segment p \<Longrightarrow> c \<in> set p \<Longrightarrow> segment_char c" for p
    by (cases p) (auto simp: canonical_segment_def segment_char_def list_all_iff)
  ultimately have "segment_char c \<or> c = CHR ''.''"
    using g c by (fastforce simp: canonical_id_grammar_def list_all_iff)
  then show ?thesis by (auto simp: segment_char_def model_simps)
qed

lemma valid_id_lowercase: "valid_id name \<Longrightarrow> to_lowercase name = name"
  using canonical_chars [of name]
  by (auto simp: valid_id_def validate_module_id_def to_lowercase_def to_ascii_lower_id
    split: if_splits intro: map_idI)

lemma registry_ok_same:
  assumes "registry_ok r"
    and "rg_modules r' = rg_modules r" "rg_descriptors r' = rg_descriptors r" "rg_schema_cache r' = rg_schema_cache r"
      "rg_lowercase_map r' = rg_lowercase_map r" "rg_versions r' = rg_versions r" "rg_sources r' = rg_sources r"
      "rg_ref_counts r' = rg_ref_counts r"
    and "rg_draining r' \<subseteq> rg_draining r" "set (rg_log r) \<subseteq> set (rg_log r')"
  shows "registry_ok r'"
proof -
  have "entry_ok r' n" for n
    by (rule entry_ok_cong [OF registry_okD(8) [OF assms(1)]]) (use assms in auto)
  with assms show ?thesis by (simp add: registry_ok_def maps_ok_def)
qed

lemma registry_ok_log: "registry_ok r \<Longrightarrow> registry_ok (log_events es r)"
  by (erule registry_ok_same) simp_all

lemma registry_ok_publish:
  assumes ok: "registry_ok r" and v: "valid_id name" and l: "loaded_in r name m"
  shows "registry_ok (publish name m d r)"
proof (rule registry_okI [OF ok, where name = name])
  note k = registry_okD [OF ok] and lc = valid_id_lowercase [OF v]
  show "maps_ok (publish name m d r)" using k by (simp add: maps_ok_def publish_def bt.ok_ins)
  show "entry_ok (publish name m d r) name"
    using k(8) [of name] k(1-7) v l
    by (auto simp: entry_ok_def publish_def lc bt.get_ins loaded_in_def split: option.splits)
qed (use registry_okD [OF ok] valid_id_lowercase [OF v] in \<open>simp_all add: publish_def bt.get_ins\<close>)

lemma registry_ok_publish_discovered:
  assumes ok: "registry_ok r" and v: "valid_id name" and l: "loaded_in r name m"
  shows "registry_ok (publish_discovered name src m d r)"
proof (rule registry_okI [OF registry_ok_publish [OF assms], where name = name])
  let ?p = "publish name m d r"
  have ok': "registry_ok ?p" using assms by (rule registry_ok_publish)
  note k = registry_okD [OF ok']
  have s: "rg_sources r = rg_sources ?p" by (simp add: publish_def)
  have h: "bt_get (rg_modules ?p) name = Some m" using registry_okD [OF ok] by (simp add: publish_def bt.get_ins)
  show "maps_ok (publish_discovered name src m d r)"
    using k by (simp add: maps_ok_def publish_discovered_def bt.ok_ins s)
  show "entry_ok (publish_discovered name src m d r) name"
    using k(8) [of name] h by (simp add: entry_ok_def publish_discovered_def loaded_in_def)
qed (use registry_okD [OF ok] in \<open>simp_all add: publish_discovered_def bt.get_ins\<close>, simp_all add: publish_def)

lemma registry_ok_withdraw:
  assumes ok: "registry_ok r" and h: "has name r"
  shows "registry_ok (withdraw name r)"
proof -
  note k = registry_okD [OF ok]
  have "valid_id name" using k(8) [of name] h by (auto simp: entry_ok_def has_def)
  note lc = valid_id_lowercase [OF this]
  show ?thesis
  proof (rule registry_okI [OF ok, where name = name])
    show "maps_ok (withdraw name r)" using k by (simp add: maps_ok_def withdraw_def bt.ok_del)
    show "entry_ok (withdraw name r) name" using k by (simp add: entry_ok_def withdraw_def lc bt.get_del)
  qed (use k lc in \<open>simp_all add: withdraw_def bt.get_del\<close>)
qed

lemma registry_ok_set_enabled:
  assumes ok: "registry_ok r"
  shows "registry_ok (snd (set_enabled b name r))"
proof (cases "bt_get (rg_descriptors r) name")
  case None
  with ok show ?thesis by (simp add: set_enabled_def)
next
  case (Some d)
  note k = registry_okD [OF ok]
  have d: "schemas_of (d\<lparr>md_enabled := b\<rparr>) = schemas_of d" by (simp add: schemas_of_def)
  have s: "snd (set_enabled b name r) = r\<lparr>rg_descriptors := bt_insert name (d\<lparr>md_enabled := b\<rparr>) (rg_descriptors r)\<rparr>"
    using Some by (simp add: set_enabled_def)
  show ?thesis unfolding s
  proof (rule registry_okI [OF ok, where name = name])
    show "maps_ok (r\<lparr>rg_descriptors := bt_insert name (d\<lparr>md_enabled := b\<rparr>) (rg_descriptors r)\<rparr>)"
      using k by (simp add: maps_ok_def bt.ok_ins)
    show "entry_ok (r\<lparr>rg_descriptors := bt_insert name (d\<lparr>md_enabled := b\<rparr>) (rg_descriptors r)\<rparr>) name"
      using k(2) k(8) [of name] Some by (auto simp: entry_ok_def loaded_in_def bt.get_ins d split: option.splits)
  qed (use k in \<open>simp_all add: bt.get_ins\<close>)
qed

text \<open>Changing the reference count of a registered id.\<close>

lemma registry_ok_counts:
  assumes ok: "registry_ok r" and h: "has name r"
    and c: "counts = bt_insert name (Suc n) (rg_ref_counts r) \<or> counts = bt_remove name (rg_ref_counts r)"
  shows "registry_ok (r\<lparr>rg_ref_counts := counts\<rparr>)"
proof (rule registry_okI [OF ok, where name = name])
  note k = registry_okD [OF ok]
  show "maps_ok (r\<lparr>rg_ref_counts := counts\<rparr>)" using k c by (auto simp: maps_ok_def bt.ok_ins bt.ok_del)
  show "entry_ok (r\<lparr>rg_ref_counts := counts\<rparr>) name"
    using k(7) k(8) [of name] h c by (auto simp: entry_ok_def has_def loaded_in_def bt.get_ins bt.get_del)
qed (use registry_okD(7) [OF ok] c in \<open>auto simp: bt.get_ins bt.get_del\<close>)

lemma registry_ok_acquire:
  assumes ok: "registry_ok r" and a: "acquire name r = (Inr m, r')"
  shows "registry_ok r'"
  using a by (auto simp: acquire_def has_def split: if_splits option.splits intro!: registry_ok_counts [OF ok])

lemma registry_ok_count_down:
  assumes ok: "registry_ok r"
  shows "registry_ok (snd (count_down name r))"
proof (cases "bt_get (rg_ref_counts r) name")
  case None
  with ok show ?thesis by (simp add: count_down_def)
next
  case (Some n)
  with registry_okD(8) [OF ok, of name] have "has name r"
    by (auto simp: entry_ok_def has_def split: option.splits)
  note c = registry_ok_counts [OF ok this]
  show ?thesis
    using Some c [of _ "n - 2"] by (cases "n \<le> 1") (auto simp: count_down_def Let_def Suc_diff_Suc numeral_2_eq_2)
qed

lemma registry_ok_begin_drain:
  assumes ok: "registry_ok r"
  shows "registry_ok (snd (begin_drain name r))"
proof (cases "bt_get (rg_modules r) name")
  case None
  with ok show ?thesis by (simp add: begin_drain_def)
next
  case (Some m)
  note k = registry_okD [OF ok]
  show ?thesis
  proof (rule registry_okI [OF ok, where name = name])
    show "maps_ok (snd (begin_drain name r))" using k by (simp add: maps_ok_def begin_drain_def Let_def)
    show "entry_ok (snd (begin_drain name r)) name"
      using k(8) [of name] Some by (auto simp: entry_ok_def begin_drain_def Let_def loaded_in_def)
  qed (auto simp: begin_drain_def Let_def)
qed

lemma registry_ok_others:
  assumes "registry_ok r"
  shows "registry_ok (forget_drain_event name r)" "registry_ok (wake_drain name r)"
    "registry_ok (release_slot name r)" "registry_ok (r\<lparr>rg_in_flight := x\<rparr>)"
    "registry_ok (r\<lparr>rg_draining := rg_draining r - {name}\<rparr>)"
  by (rule registry_ok_same [OF assms];
      auto simp: forget_drain_event_def wake_drain_def release_slot_def split: option.splits)+

lemma latest_entry_member: "latest_entry es = Some e \<Longrightarrow> e \<in> set es"
  by (induction es arbitrary: e) (auto split: option.splits if_splits)

lemma latest_entry_None: "latest_entry es = None \<longleftrightarrow> es = []"
  by (cases es) (auto split: option.splits)

lemma registry_ok_put_version:
  assumes ok: "registry_ok r" and l: "loaded_in r name m" and v: "put_version name m d r = Some (b, r')"
  shows "registry_ok r' \<and> (\<forall>n. has n r' \<longleftrightarrow> has n r)"
proof -
  note k = registry_okD [OF ok]
  obtain cur cd where c: "bt_get (rg_modules r) name = Some cur" "bt_get (rg_descriptors r) name = Some cd"
    using v by (auto simp: put_version_def split: option.splits)
  define es where "es = (case bt_get (rg_versions r) name of Some es \<Rightarrow> es
      | None \<Rightarrow> [\<lparr>ve_version = md_version cd, ve_module = cur, ve_descriptor = cd\<rparr>])"
  have es: "es \<noteq> []" "distinct (map ve_version es)" "\<forall>e \<in> set es. loaded_in r name (ve_module e)"
    using k(8) [of name] c by (auto simp: es_def entry_ok_def split: option.splits)
  have versions: "registry_ok (r\<lparr>rg_versions := bt_insert name es' (rg_versions r)\<rparr>)"
    if "es' \<noteq> []" "distinct (map ve_version es')" "\<forall>e \<in> set es'. loaded_in r name (ve_module e)" for es'
  proof (rule registry_okI [OF ok, where name = name])
    show "maps_ok (r\<lparr>rg_versions := bt_insert name es' (rg_versions r)\<rparr>)" using k by (simp add: maps_ok_def bt.ok_ins)
    show "entry_ok (r\<lparr>rg_versions := bt_insert name es' (rg_versions r)\<rparr>) name"
      using k(5) k(8) [of name] c that by (simp add: entry_ok_def loaded_in_def bt.get_ins)
  qed (use k in \<open>simp_all add: bt.get_ins\<close>)
  show ?thesis
  proof (cases "\<exists>e \<in> set es. ve_version e = md_version d")
    case True
    with v c have r': "r' = r\<lparr>rg_versions := bt_insert name es (rg_versions r)\<rparr>"
      by (simp add: put_version_def es_def)
    show ?thesis using versions [OF es] unfolding r' by (simp add: has_def)
  next
    case False
    define es' where "es' = es @ [\<lparr>ve_version = md_version d, ve_module = m, ve_descriptor = d\<rparr>]"
    have es': "es' \<noteq> []" "distinct (map ve_version es')" "\<forall>e \<in> set es'. loaded_in r name (ve_module e)"
      using es False l by (auto simp: es'_def)
    then obtain e where e: "latest_entry es' = Some e" by (cases "latest_entry es'") (auto simp: latest_entry_None)
    with v c False have r': "r' = (r\<lparr>rg_versions := bt_insert name es' (rg_versions r)\<rparr>)\<lparr>
        rg_schema_cache := bt_insert name (schemas_of (ve_descriptor e)) (rg_schema_cache r),
        rg_modules := bt_insert name (ve_module e) (rg_modules r),
        rg_descriptors := bt_insert name (ve_descriptor e) (rg_descriptors r)\<rparr>"
      by (simp add: put_version_def es_def es'_def Let_def)
    have l': "loaded_in r name (ve_module e)" using es'(3) latest_entry_member [OF e] by blast
    have "registry_ok r'"
    proof (rule registry_okI [OF versions [OF es'], where name = name])
      show "maps_ok r'" using k unfolding r' by (simp add: maps_ok_def bt.ok_ins)
      show "entry_ok r' name"
        using k l' c registry_okD(8) [OF versions [OF es'], of name] unfolding r'
        by (simp add: entry_ok_def loaded_in_def bt.get_ins)
    qed (use k in \<open>simp_all add: r' bt.get_ins\<close>)
    moreover have "has n r' \<longleftrightarrow> has n r" for n
      using k(1) c unfolding r' by (simp add: has_def bt.get_ins)
    ultimately show ?thesis by simp
  qed
qed

subsection \<open>Threads\<close>

definition thread_valid :: "registry \<Rightarrow> registry_thread \<Rightarrow> bool" where
  "thread_valid r t \<longleftrightarrow>
     (case t of
        Registering ri p \<Rightarrow> valid_id (ri_name ri) \<and> (p = LoadOk \<longrightarrow> loaded_in r (ri_name ri) (ri_module ri))
      | Versioning ri p \<Rightarrow> valid_id (ri_name ri) \<and> (p = VersionLoaded \<longrightarrow> loaded_in r (ri_name ri) (ri_module ri))
      | _ \<Rightarrow> True)"

text \<open>A step keeps the registry consistent, keeps what has been logged, and keeps its thread valid.\<close>

definition good_step :: "registry \<Rightarrow> registry \<Rightarrow> bool" where
  "good_step r r' \<longleftrightarrow> registry_ok r' \<and> set (rg_log r) \<subseteq> set (rg_log r')"

lemma good_step_log: "registry_ok r \<Longrightarrow> good_step r (log_events es r)"
  by (simp add: good_step_def registry_ok_log)

lemma good_step_refl: "registry_ok r \<Longrightarrow> good_step r r"
  by (simp add: good_step_def)

lemma good_step_trans: "good_step r r' \<Longrightarrow> good_step r' r'' \<Longrightarrow> good_step r r''"
  by (auto simp: good_step_def)

lemma good_step_ok: "good_step r r' \<Longrightarrow> registry_ok r'"
  by (simp add: good_step_def)

lemma thread_valid_mono: "good_step r r' \<Longrightarrow> thread_valid r t \<Longrightarrow> thread_valid r' t"
  by (auto simp: good_step_def thread_valid_def loaded_in_def split: registry_thread.splits)

lemma good_step_logs:
  assumes "registry_ok r"
  shows "good_step r (emit_module_load_failed name e r)" "good_step r (emit_ephemeral_event ev name r)"
    "good_step r (notify_registered name m r)" "good_step r (notify_load_failed name e r)"
    "good_step r (notify_unregistered name m r)" "good_step r (warn_if_missing_approval name m d r)"
proof -
  have log: "\<exists>es. r' = log_events es r \<Longrightarrow> good_step r r'" for r'
    using good_step_log [OF assms] by auto
  show "good_step r (emit_module_load_failed name e r)" "good_step r (emit_ephemeral_event ev name r)"
    "good_step r (notify_registered name m r)" "good_step r (notify_load_failed name e r)"
    "good_step r (notify_unregistered name m r)" "good_step r (warn_if_missing_approval name m d r)"
    by (rule log, rule log_only)+
qed

lemma good_step_others:
  assumes "registry_ok r"
  shows "good_step r (forget_drain_event name r)" "good_step r (wake_drain name r)"
    "good_step r (release_slot name r)" "good_step r (r\<lparr>rg_draining := rg_draining r - {name}\<rparr>)"
  using registry_ok_others [OF assms]
  by (auto simp: good_step_def forget_drain_event_def wake_drain_def release_slot_def split: option.splits)

lemma check_registration_spec:
  assumes "check_registration name m d allow run r = (res, r')"
  shows "\<exists>es. r' = log_events es r" and "res = Inr d' \<Longrightarrow> valid_id name"
proof -
  have w: "\<exists>es. r = log_events es r" by (auto simp: log_events_def intro: exI [of _ "[]"])
  have "r' = r \<or> r' = warn_if_missing_approval name m (apply_deprecation_metadata d) r"
    using assms by (auto simp: check_registration_def Let_def split: sum.splits if_splits option.splits)
  then show "\<exists>es. r' = log_events es r"
    using w log_only(6) by (elim disjE) (simp_all only:)
  show "res = Inr d' \<Longrightarrow> valid_id name"
    using assms
    by (auto simp: check_registration_def valid_id_def validate_module_id_def Let_def split: if_splits)
qed

lemma registering_next_good:
  assumes ok: "registry_ok r" and t: "thread_valid r (Registering ri p)"
    and n: "registering_next outcome ri p r = Some (p', r')"
  shows "good_step r r' \<and> thread_valid r' (Registering ri p')"
proof (cases p)
  case Checked
  with n t ok show ?thesis
    by (auto simp: registering_next_def Let_def thread_valid_def good_step_refl split: option.splits)
next
  case Cleared
  with n t ok show ?thesis
    by (auto simp: registering_next_def Let_def thread_valid_def good_step_refl reserve_slot_def good_step_def
        registry_ok_others split: option.splits if_splits)
next
  case Reserved
  with n t ok show ?thesis
    by (auto simp: registering_next_def Let_def thread_valid_def good_step_log loaded_in_def split: option.splits)
next
  case LoadOk
  with t have v: "valid_id (ri_name ri)" "loaded_in r (ri_name ri) (ri_module ri)" by (simp_all add: thread_valid_def)
  have "good_step r (publish (ri_name ri) (ri_module ri) (ri_descriptor ri) r)"
    "good_step r (publish_discovered (ri_name ri) src (ri_module ri) (ri_descriptor ri) r)" for src
    using registry_ok_publish [OF ok v] registry_ok_publish_discovered [OF ok v]
    by (simp_all add: good_step_def publish_def publish_discovered_def)
  with LoadOk n v ok show ?thesis
    by (auto simp: registering_next_def Let_def thread_valid_def good_step_refl publish_if_free_def
        split: option.splits if_splits)
next
  case (LoadErr e)
  with n t have "r' = notify_load_failed (ri_name ri) e (release_slot (ri_name ri) r)"
    "thread_valid r' (Registering ri p')"
    by (auto simp: registering_next_def Let_def thread_valid_def)
  moreover note rel = good_step_others(3) [OF ok, of "ri_name ri"]
  ultimately show ?thesis
    using good_step_trans [OF rel good_step_logs(4) [OF good_step_ok [OF rel]]] by simp
next
  case (Published b)
  note rel = good_step_others(3) [OF ok, of "ri_name ri"]
  note ok1 = good_step_ok [OF rel]
  note g = good_step_trans [OF rel good_step_logs(3) [OF ok1, of "ri_name ri" "ri_module ri"]]
  note g2 = good_step_trans [OF g good_step_logs(2) [OF good_step_ok [OF g]]]
  from Published n t rel g g2 show ?thesis
    by (auto simp: registering_next_def Let_def thread_valid_def split: if_splits)
next
  case (RegisterDone x)
  with n show ?thesis by (simp add: registering_next_def)
qed

lemma versioning_next_good:
  assumes ok: "registry_ok r" and t: "thread_valid r (Versioning ri p)"
    and n: "versioning_next outcome ri p r = Some (t', r')"
  shows "good_step r r' \<and> thread_valid r' t'"
proof (cases p)
  case VersionChecked
  with n t ok show ?thesis
    by (auto simp: versioning_next_def Let_def thread_valid_def good_step_refl split: if_splits)
next
  case VersionNew
  note g = good_step_log [OF ok]
  from VersionNew n t show ?thesis
    using g good_step_trans [OF g good_step_logs(1) [OF good_step_ok [OF g]]]
    by (auto simp: versioning_next_def Let_def thread_valid_def loaded_in_def split: option.splits)
next
  case VersionLoaded
  with t have v: "valid_id (ri_name ri)" "loaded_in r (ri_name ri) (ri_module ri)" by (simp_all add: thread_valid_def)
  show ?thesis
  proof (cases "put_version (ri_name ri) (ri_module ri) (ri_descriptor ri) r")
    case None
    obtain res r1 where c: "check_registration (ri_name ri) (ri_module ri) (ri_descriptor ri) False False r = (res, r1)"
      by fastforce
    from check_registration_spec(1) [OF c] good_step_log [OF ok] have "good_step r r1" by auto
    with None VersionLoaded n v c show ?thesis
      by (auto simp: versioning_next_def Let_def thread_valid_def split: sum.splits)
  next
    case (Some x)
    obtain b r1 where x: "x = (b, r1)" by fastforce
    from registry_ok_put_version [OF ok v(2) Some [unfolded x]]
    have "registry_ok r1" by blast
    moreover have "rg_log r1 = rg_log r"
      using Some x by (auto simp: put_version_def Let_def split: option.splits if_splits)
    ultimately have g: "good_step r r1" by (simp add: good_step_def)
    from good_step_trans [OF g good_step_logs(3) [OF good_step_ok [OF g]]] g show ?thesis
      using VersionLoaded n v Some x
      by (auto simp: versioning_next_def Let_def thread_valid_def split: bool.splits)
  qed
next
  case (VersionDone x)
  with n show ?thesis by (simp add: versioning_next_def)
qed

lemma removing_next_good:
  assumes ok: "registry_ok r" and n: "removing_next timed_out name p r = Some (p', r')"
  shows "good_step r r'"
proof -
  have w: "good_step r (withdraw name r)" if "bt_get (rg_modules r) name = Some m" for m
    using registry_ok_withdraw [OF ok, of name] that by (simp add: has_def good_step_def withdraw_def)
  note f = good_step_others(1) [OF ok, of name]
  note g = good_step_trans [OF f good_step_logs(5) [OF good_step_ok [OF f]]]
  show ?thesis
    using n w g good_step_others [OF ok] good_step_refl [OF ok]
    by (auto simp: removing_next_def split: removal_phase.splits if_splits option.splits)
qed

definition world_ok :: "registry_world \<Rightarrow> bool" where
  "world_ok w \<longleftrightarrow> registry_ok (ww_reg w) \<and> (\<forall>t \<in> set (ww_threads w). thread_valid (ww_reg w) t)"

lemma world_okI:
  assumes "world_ok w" "good_step (ww_reg w) (ww_reg w')" "set (ww_threads w') \<subseteq> insert t (set (ww_threads w))"
    "thread_valid (ww_reg w') t"
  shows "world_ok w'"
  using assms thread_valid_mono [OF assms(2)] good_step_ok [OF assms(2)] by (auto simp: world_ok_def)

lemma world_ok_registry:
  assumes "world_ok w" "good_step (ww_reg w) (ww_reg w')" "ww_threads w' = ww_threads w"
  shows "world_ok w'"
  using assms thread_valid_mono [OF assms(2)] good_step_ok [OF assms(2)] by (auto simp: world_ok_def)

lemma world_ok_spawn:
  "world_ok w \<Longrightarrow> good_step (ww_reg w) r \<Longrightarrow> thread_valid r t \<Longrightarrow> world_ok (spawn_thread t r w)"
  by (rule world_okI [where t = t]) (auto simp: spawn_thread_def)

lemma world_ok_thread_at:
  "world_ok w \<Longrightarrow> good_step (ww_reg w) r \<Longrightarrow> thread_valid r t \<Longrightarrow> world_ok (thread_at i t r w)"
  by (rule world_okI [where t = t]) (auto simp: thread_at_def dest!: set_update_subset_insert [THEN subsetD])

lemma world_ok_note_forced: "world_ok (note_forced t w) \<longleftrightarrow> world_ok w"
  by (simp add: note_forced_def world_ok_def split: registry_thread.splits removal_phase.splits)

lemma world_ok_advance:
  assumes ok: "world_ok w" and a: "advance_thread i outcome timed_out w = Some w'"
  shows "world_ok w'"
proof -
  have r: "registry_ok (ww_reg w)" using ok by (simp add: world_ok_def)
  from a have i: "i < length (ww_threads w)" by (simp add: advance_thread_def split: if_splits)
  then have t: "thread_valid (ww_reg w) (ww_threads w ! i)" using ok by (simp add: world_ok_def)
  show ?thesis
  proof (cases "ww_threads w ! i")
    case (Registering ri p)
    with a i obtain p' r' where n: "registering_next outcome ri p (ww_reg w) = Some (p', r')"
      and w': "w' = thread_at i (Registering ri p') r' w"
      by (auto simp: advance_thread_def)
    from registering_next_good [OF r t [unfolded Registering] n] show ?thesis
      unfolding w' using world_ok_thread_at [OF ok] by blast
  next
    case (Versioning ri p)
    with a i obtain t' r' where n: "versioning_next outcome ri p (ww_reg w) = Some (t', r')"
      and w': "w' = thread_at i t' r' w"
      by (auto simp: advance_thread_def)
    from versioning_next_good [OF r t [unfolded Versioning] n] show ?thesis
      unfolding w' using world_ok_thread_at [OF ok] by blast
  next
    case (Removing name p)
    with a i obtain p' r' where n: "removing_next timed_out name p (ww_reg w) = Some (p', r')"
      and w': "w' = note_forced (Removing name p') (thread_at i (Removing name p') r' w)"
      by (auto simp: advance_thread_def)
    from removing_next_good [OF r n] show ?thesis
      unfolding w' world_ok_note_forced by (rule world_ok_thread_at [OF ok]) (simp add: thread_valid_def)
  next
    case (Waking name woken)
    with a i have w': "w' = thread_at i (Waking name True) (wake_drain name (ww_reg w)) w"
      by (simp add: advance_thread_def split: if_splits)
    show ?thesis
      unfolding w' by (rule world_ok_thread_at [OF ok good_step_others(2) [OF r]]) (simp add: thread_valid_def)
  qed
qed

lemma check_registration_good:
  assumes "registry_ok r" "check_registration name m d allow run r = (res, r')"
  shows "good_step r r'"
  using check_registration_spec(1) [OF assms(2)] good_step_log [OF assms(1)] by auto

lemma world_ok_act:
  assumes ok: "world_ok w" and a: "registry_act a w = Some w'"
  shows "world_ok w'"
proof -
  have r: "registry_ok (ww_reg w)" using ok by (simp add: world_ok_def)
  have start: "world_ok (w\<lparr>ww_reg := r'\<rparr>)" if "good_step (ww_reg w) r'" for r'
    by (rule world_ok_registry [OF ok]) (use that in simp_all)
  show ?thesis
  proof (cases a)
    case (StartRegister ri run)
    with a show ?thesis
      by (auto simp: thread_valid_def split: prod.splits sum.splits
          intro!: world_ok_spawn [OF ok] start dest: check_registration_good [OF r] check_registration_spec(2))
  next
    case (StartDiscovered dm)
    with a show ?thesis
      by (auto simp: thread_valid_def discovered_acceptable_def valid_id_def validate_module_id_def split: if_splits
          intro!: world_ok_spawn [OF ok good_step_refl [OF r]])
  next
    case (StartVersion ri)
    with a show ?thesis
      by (auto simp: thread_valid_def split: prod.splits sum.splits
          intro!: world_ok_spawn [OF ok] start dest: check_registration_good [OF r] check_registration_spec(2))
  next
    case (StartUnregister name)
    with a show ?thesis by (auto simp: thread_valid_def intro!: world_ok_spawn [OF ok good_step_refl [OF r]])
  next
    case (StartDrain name)
    have "good_step (ww_reg w) (snd (begin_drain name (ww_reg w)))"
      using registry_ok_begin_drain [OF r] by (auto simp: good_step_def begin_drain_def Let_def)
    with a StartDrain show ?thesis
      by (auto simp: thread_valid_def split: prod.splits drain_start.splits intro!: world_ok_spawn [OF ok])
  next
    case (AcquireModule name)
    with a obtain m r' where q: "acquire name (ww_reg w) = (Inr m, r')"
      and w': "w' = w\<lparr>ww_reg := r', ww_handles := add_mset name (ww_handles w)\<rparr>"
      by (auto split: prod.splits sum.splits)
    have "good_step (ww_reg w) r'"
      using registry_ok_acquire [OF r q] q by (auto simp: good_step_def acquire_def split: if_splits option.splits)
    then show ?thesis unfolding w' by (intro world_ok_registry [OF ok]) simp_all
  next
    case (ReleaseModule name)
    obtain b r' where q: "count_down name (ww_reg w) = (b, r')" by fastforce
    have g: "good_step (ww_reg w) r'"
      using registry_ok_count_down [OF r, of name] q
      by (auto simp: good_step_def count_down_def Let_def split: if_splits option.splits)
    have "world_ok (w\<lparr>ww_reg := r', ww_handles := ww_handles w - {#name#}\<rparr>)"
      by (rule world_ok_registry [OF ok]) (use g in simp_all)
    with a ReleaseModule q g show ?thesis
      by (auto simp: Let_def thread_valid_def good_step_refl good_step_ok split: if_splits intro!: world_ok_spawn)
  next
    case (SetEnabled b name)
    have "good_step (ww_reg w) (snd (set_enabled b name (ww_reg w)))"
      using registry_ok_set_enabled [OF r] by (auto simp: good_step_def set_enabled_def split: option.splits)
    with a SetEnabled start show ?thesis by auto
  next
    case (Advance i outcome timed_out)
    with a world_ok_advance [OF ok] show ?thesis by simp
  qed
qed

lemma world_ok_run: "registry_run allowed w \<Longrightarrow> world_ok w"
proof (induction rule: registry_run.induct)
  case (run_start r)
  then show ?case
    by (simp add: world_ok_def registry_world_init_def registry_ok_def maps_ok_def entry_ok_def registry_fresh_def)
next
  case (run_act w a w')
  then show ?case using world_ok_act by blast
qed

subsection \<open>Counting threads\<close>

definition count_threads :: "(registry_thread \<Rightarrow> bool) \<Rightarrow> registry_world \<Rightarrow> nat" where
  "count_threads P w = length (filter P (ww_threads w))"

lemma filter_update_length:
  "i < length xs \<Longrightarrow>
     length (filter P (xs[i := t])) + of_bool (P (xs ! i)) = length (filter P xs) + of_bool (P t)"
proof (induction xs arbitrary: i)
  case (Cons x xs)
  then show ?case by (cases i) auto
qed simp

lemma count_threads_simps [simp]:
  "count_threads P (w\<lparr>ww_reg := r\<rparr>) = count_threads P w"
  "count_threads P (w\<lparr>ww_handles := hs\<rparr>) = count_threads P w"
  "count_threads P (spawn_thread t r w) = count_threads P w + of_bool (P t)"
  "count_threads P (note_forced t w) = count_threads P w"
  by (simp_all add: count_threads_def spawn_thread_def note_forced_def split: registry_thread.splits removal_phase.splits)

lemma count_threads_at:
  "i < length (ww_threads w) \<Longrightarrow>
     count_threads P (thread_at i t r w) + of_bool (P (ww_threads w ! i)) = count_threads P w + of_bool (P t)"
  using filter_update_length [of i "ww_threads w" P t] by (simp add: count_threads_def thread_at_def)

lemma ww_reg_simps [simp]:
  "ww_reg (spawn_thread t r w) = r" "ww_reg (thread_at i t r w) = r" "ww_reg (note_forced t w) = ww_reg w"
  by (simp_all add: spawn_thread_def thread_at_def note_forced_def split: registry_thread.splits removal_phase.splits)

text \<open>The threads that hold the reservation of an id, that have registered it, that have withdrawn it.\<close>

definition holds_slot :: "string \<Rightarrow> registry_thread \<Rightarrow> bool" where
  "holds_slot n t \<longleftrightarrow>
     (case t of
        Registering ri p \<Rightarrow> ri_name ri = n \<and> (case p of Reserved \<Rightarrow> True | LoadOk \<Rightarrow> True | LoadErr _ \<Rightarrow> True
                              | Published _ \<Rightarrow> True | _ \<Rightarrow> False)
      | _ \<Rightarrow> False)"

definition has_won :: "string \<Rightarrow> registry_thread \<Rightarrow> bool" where
  "has_won n t \<longleftrightarrow>
     (case t of
        Registering ri p \<Rightarrow> ri_name ri = n \<and> (p = Published True \<or> p = RegisterDone (Inr ()))
      | _ \<Rightarrow> False)"

definition has_withdrawn :: "string \<Rightarrow> registry_thread \<Rightarrow> bool" where
  "has_withdrawn n t \<longleftrightarrow>
     (case t of
        Removing name p \<Rightarrow> name = n \<and> (case p of Withdrawn _ _ \<Rightarrow> True | Removed b _ \<Rightarrow> b | _ \<Rightarrow> False)
      | _ \<Rightarrow> False)"

lemma log_only_fields:
  assumes "\<exists>es. r' = log_events es r"
  shows "rg_in_flight r' = rg_in_flight r" "has n r' = has n r" "rg_ref_counts r' = rg_ref_counts r"
    "rg_draining r' = rg_draining r" "rg_drain_events r' = rg_drain_events r" "rg_notified r' = rg_notified r"
    "rg_next_notify r' = rg_next_notify r" "rg_modules r' = rg_modules r"
  using assms by (auto simp: has_def)

lemmas log_fields [simp] =
  log_only_fields [OF log_only(1)] log_only_fields [OF log_only(2)] log_only_fields [OF log_only(3)]
  log_only_fields [OF log_only(4)] log_only_fields [OF log_only(5)] log_only_fields [OF log_only(6)]

lemma has_log [simp]: "has n (log_events es r) \<longleftrightarrow> has n r"
  by (simp add: has_def)

lemma has_publish:
  assumes "registry_ok r"
  shows "has n (publish name m d r) \<longleftrightarrow> n = name \<or> has n r"
    and "has n (publish_discovered name src m d r) \<longleftrightarrow> n = name \<or> has n r"
  using registry_okD [OF assms] by (simp_all add: has_def publish_def publish_discovered_def bt.get_ins)

lemma has_withdraw: "has n (withdraw name r) \<longleftrightarrow> n \<noteq> name \<and> has n r"
  by (auto simp: has_def withdraw_def bt_get_remove)

lemma forget_drain_event_simps [simp]:
  "has n (forget_drain_event name r) = has n r" "rg_in_flight (forget_drain_event name r) = rg_in_flight r"
  "rg_ref_counts (forget_drain_event name r) = rg_ref_counts r" "rg_draining (forget_drain_event name r) = rg_draining r"
  "rg_notified (forget_drain_event name r) = rg_notified r" "rg_next_notify (forget_drain_event name r) = rg_next_notify r"
  "rg_modules (forget_drain_event name r) = rg_modules r"
  by (simp_all add: has_def forget_drain_event_def)

lemma has_fields [simp]:
  "has n (r\<lparr>rg_draining := x\<rparr>) = has n r" "has n (r\<lparr>rg_in_flight := y\<rparr>) = has n r"
  "has n (r\<lparr>rg_ref_counts := z\<rparr>) = has n r" "has n (r\<lparr>rg_notified := v\<rparr>) = has n r"
  by (simp_all add: has_def)

lemma registering_next_slot:
  assumes n: "registering_next outcome ri p r = Some (p', r')"
    and h: "holds_slot (ri_name ri) (Registering ri p) \<Longrightarrow> ri_name ri \<in> rg_in_flight r"
  shows "of_bool (n \<in> rg_in_flight r') + of_bool (holds_slot n (Registering ri p)) =
    of_bool (n \<in> rg_in_flight r) + (of_bool (holds_slot n (Registering ri p')) :: nat)"
  using n h
  by (auto simp: registering_next_def holds_slot_def Let_def reserve_slot_def release_slot_def publish_if_free_def
      publish_def publish_discovered_def
      split: registration_phase.splits option.splits if_splits)

lemma registering_next_win:
  assumes n: "registering_next outcome ri p r = Some (p', r')" and ok: "registry_ok r" and s: "ri_source ri = None"
  shows "of_bool (has n r') + of_bool (has_won n (Registering ri p)) =
    of_bool (has n r) + (of_bool (has_won n (Registering ri p')) :: nat)"
proof (cases p)
  case LoadOk
  show ?thesis
  proof (cases "bt_get (rg_modules r) (ri_name ri)")
    case None
    then have "\<not> has (ri_name ri) r" by (simp add: has_def)
    with LoadOk None n s show ?thesis
      by (auto simp: registering_next_def Let_def publish_if_free_def has_publish [OF ok] has_won_def)
  next
    case (Some m)
    with LoadOk n s show ?thesis
      by (auto simp: registering_next_def Let_def publish_if_free_def has_won_def)
  qed
next
  case Cleared
  with n show ?thesis
    by (auto simp: registering_next_def Let_def has_won_def reserve_slot_def has_def split: option.splits if_splits)
qed (use n s in \<open>auto simp: registering_next_def Let_def has_won_def release_slot_def has_def
       split: option.splits if_splits\<close>)

lemma versioning_next_fields:
  assumes n: "versioning_next outcome ri p r = Some (t', r')" and ok: "registry_ok r"
    and t: "thread_valid r (Versioning ri p)"
  shows "rg_in_flight r' = rg_in_flight r" "has n r' = has n r" "\<not> holds_slot n t'" "\<not> has_won n t'" "\<not> has_withdrawn n t'"
    "rg_ref_counts r' = rg_ref_counts r" "rg_draining r' = rg_draining r" "rg_drain_events r' = rg_drain_events r"
    "rg_notified r' = rg_notified r" "rg_next_notify r' = rg_next_notify r"
    "(\<exists>p'. t' = Versioning ri p') \<or> (\<exists>d. t' = Registering (ri\<lparr>ri_descriptor := d\<rparr>) Checked)"
proof -
  have core: "rg_in_flight r' = rg_in_flight r \<and> has n r' = has n r \<and> rg_ref_counts r' = rg_ref_counts r \<and>
      rg_draining r' = rg_draining r \<and> rg_drain_events r' = rg_drain_events r \<and>
      rg_notified r' = rg_notified r \<and> rg_next_notify r' = rg_next_notify r \<and>
      ((\<exists>p'. t' = Versioning ri p') \<or> (\<exists>d. t' = Registering (ri\<lparr>ri_descriptor := d\<rparr>) Checked))"
  proof (cases p)
    case VersionLoaded
    with t have l: "loaded_in r (ri_name ri) (ri_module ri)" by (simp add: thread_valid_def)
    show ?thesis
    proof (cases "put_version (ri_name ri) (ri_module ri) (ri_descriptor ri) r")
      case None
      obtain res r1 where c: "check_registration (ri_name ri) (ri_module ri) (ri_descriptor ri) False False r = (res, r1)"
        by fastforce
      from log_only_fields [OF check_registration_spec(1) [OF c]] None VersionLoaded n c show ?thesis
        by (auto simp: versioning_next_def Let_def split: sum.splits)
    next
      case (Some x)
      obtain b r1 where x: "x = (b, r1)" by fastforce
      have "has n r1 = has n r" using registry_ok_put_version [OF ok l Some [unfolded x]] by blast
      moreover have "rg_in_flight r1 = rg_in_flight r \<and> rg_ref_counts r1 = rg_ref_counts r \<and>
          rg_draining r1 = rg_draining r \<and> rg_drain_events r1 = rg_drain_events r \<and>
          rg_notified r1 = rg_notified r \<and> rg_next_notify r1 = rg_next_notify r"
        using Some x by (auto simp: put_version_def Let_def split: option.splits if_splits)
      ultimately show ?thesis
        using VersionLoaded n Some x by (auto simp: versioning_next_def Let_def split: bool.splits)
    qed
  qed (use n in \<open>auto simp: versioning_next_def Let_def split: option.splits if_splits\<close>)
  then show "rg_in_flight r' = rg_in_flight r" "has n r' = has n r" "\<not> holds_slot n t'" "\<not> has_won n t'"
    "\<not> has_withdrawn n t'" "rg_ref_counts r' = rg_ref_counts r" "rg_draining r' = rg_draining r"
    "rg_drain_events r' = rg_drain_events r" "rg_notified r' = rg_notified r" "rg_next_notify r' = rg_next_notify r"
    "(\<exists>p'. t' = Versioning ri p') \<or> (\<exists>d. t' = Registering (ri\<lparr>ri_descriptor := d\<rparr>) Checked)"
    by (auto simp: holds_slot_def has_won_def has_withdrawn_def)
qed

lemma removing_next_win:
  assumes n: "removing_next timed_out name p r = Some (p', r')"
  shows "of_bool (has_withdrawn n (Removing name p)) + of_bool (has n r) =
    of_bool (has_withdrawn n (Removing name p')) + (of_bool (has n r') :: nat)"
    and "rg_in_flight r' = rg_in_flight r"
proof -
  have h: "bt_get (rg_modules r) name = Some m \<Longrightarrow> has name r" for m by (simp add: has_def)
  show "of_bool (has_withdrawn n (Removing name p)) + of_bool (has n r) =
    of_bool (has_withdrawn n (Removing name p')) + (of_bool (has n r') :: nat)"
    using n h
    by (auto simp: removing_next_def has_withdrawn_def has_withdraw split: removal_phase.splits if_splits option.splits)
  show "rg_in_flight r' = rg_in_flight r"
    using n
    by (auto simp: removing_next_def withdraw_def split: removal_phase.splits if_splits option.splits)
qed

text \<open>In every reachable world one thread holds the reservation of each id in \<open>in_flight\<close>, and no
  other; without discovery, as many registrations as withdrawals of an id have succeeded, and one more
  if it is registered.\<close>

definition slots_ok :: "registry_world \<Rightarrow> bool" where
  "slots_ok w \<longleftrightarrow> (\<forall>n. count_threads (holds_slot n) w = of_bool (n \<in> rg_in_flight (ww_reg w)))"

definition by_hand :: "registry_thread \<Rightarrow> bool" where
  "by_hand t \<longleftrightarrow> (case t of Registering ri _ \<Rightarrow> ri_source ri = None | Versioning ri _ \<Rightarrow> ri_source ri = None | _ \<Rightarrow> True)"

definition wins_ok :: "registry_world \<Rightarrow> bool" where
  "wins_ok w \<longleftrightarrow> (\<forall>t \<in> set (ww_threads w). by_hand t) \<and>
     (\<forall>n. count_threads (has_won n) w = count_threads (has_withdrawn n) w + of_bool (has n (ww_reg w)))"

lemma count_threads_pos: "t \<in> set (ww_threads w) \<Longrightarrow> P t \<Longrightarrow> 0 < count_threads P w"
  by (auto simp: count_threads_def filter_empty_conv)

lemma slots_ok_advance:
  assumes w: "world_ok w" and s: "slots_ok w" and a: "advance_thread i outcome timed_out w = Some w'"
  shows "slots_ok w'"
  unfolding slots_ok_def
proof
  fix n
  have r: "registry_ok (ww_reg w)" using w by (simp add: world_ok_def)
  from a have i: "i < length (ww_threads w)" by (simp add: advance_thread_def split: if_splits)
  then have t: "thread_valid (ww_reg w) (ww_threads w ! i)" using w by (simp add: world_ok_def)
  note s' = s [unfolded slots_ok_def, rule_format]
  note at = count_threads_at [OF i, where P = "holds_slot n"]
  show "count_threads (holds_slot n) w' = of_bool (n \<in> rg_in_flight (ww_reg w'))"
  proof (cases "ww_threads w ! i")
    case (Registering ri p)
    with a i obtain p' r' where n: "registering_next outcome ri p (ww_reg w) = Some (p', r')"
      and w': "w' = thread_at i (Registering ri p') r' w"
      by (auto simp: advance_thread_def)
    have "holds_slot (ri_name ri) (Registering ri p) \<Longrightarrow> ri_name ri \<in> rg_in_flight (ww_reg w)"
      using count_threads_pos [of "Registering ri p" w "holds_slot (ri_name ri)"] s' [of "ri_name ri"] i Registering
      by (metis nth_mem of_bool_eq(1) less_irrefl)
    from registering_next_slot [OF n this, of n] at [of "Registering ri p'" r'] s' [of n] show ?thesis
      by (simp add: w' Registering)
  next
    case (Versioning ri p)
    with a i obtain t' r' where n: "versioning_next outcome ri p (ww_reg w) = Some (t', r')"
      and w': "w' = thread_at i t' r' w"
      by (auto simp: advance_thread_def)
    from versioning_next_fields [OF n r t [unfolded Versioning]] at [of t' r'] s' [of n] show ?thesis
      by (simp add: w' Versioning holds_slot_def)
  next
    case (Removing name p)
    with a i obtain p' r' where n: "removing_next timed_out name p (ww_reg w) = Some (p', r')"
      and w': "w' = note_forced (Removing name p') (thread_at i (Removing name p') r' w)"
      by (auto simp: advance_thread_def)
    from removing_next_win(2) [OF n] at [of "Removing name p'" r'] s' [of n] show ?thesis
      by (simp add: w' Removing holds_slot_def)
  next
    case (Waking name woken)
    with a i have w': "w' = thread_at i (Waking name True) (wake_drain name (ww_reg w)) w"
      by (simp add: advance_thread_def split: if_splits)
    show ?thesis
      using at [of "Waking name True" "wake_drain name (ww_reg w)"] s' [of n]
      by (simp add: w' Waking holds_slot_def wake_drain_def split: option.splits)
  qed
qed

lemma wins_ok_advance:
  assumes w: "world_ok w" and s: "wins_ok w" and a: "advance_thread i outcome timed_out w = Some w'"
  shows "wins_ok w'"
proof -
  have r: "registry_ok (ww_reg w)" using w by (simp add: world_ok_def)
  from a have i: "i < length (ww_threads w)" by (simp add: advance_thread_def split: if_splits)
  then have t: "thread_valid (ww_reg w) (ww_threads w ! i)" "by_hand (ww_threads w ! i)"
    using w s by (simp_all add: world_ok_def wins_ok_def)
  have hand: "\<forall>t \<in> set (ww_threads (thread_at i t' r' w)). by_hand t" if "by_hand t'" for t' r'
    using s that by (auto simp: wins_ok_def thread_at_def dest!: set_update_subset_insert [THEN subsetD])
  have forced: "ww_threads (note_forced t' v) = ww_threads v" for t' v
    by (simp add: note_forced_def split: registry_thread.splits removal_phase.splits)
  have s': "count_threads (has_won n) w = count_threads (has_withdrawn n) w + of_bool (has n (ww_reg w))" for n
    using s by (simp add: wins_ok_def)
  note won = count_threads_at [OF i, where P = "has_won n" for n]
    and gone = count_threads_at [OF i, where P = "has_withdrawn n" for n]
  show ?thesis
  proof (cases "ww_threads w ! i")
    case (Registering ri p)
    with a i obtain p' r' where n: "registering_next outcome ri p (ww_reg w) = Some (p', r')"
      and w': "w' = thread_at i (Registering ri p') r' w"
      by (auto simp: advance_thread_def)
    from t(2) Registering have src: "ri_source ri = None" by (simp add: by_hand_def)
    have "count_threads (has_won n) w' = count_threads (has_withdrawn n) w' + of_bool (has n (ww_reg w'))" for n
      using registering_next_win [OF n r src, of n] won [of n "Registering ri p'" r'] gone [of n "Registering ri p'" r'] s' [of n]
      by (simp add: w' Registering has_withdrawn_def)
    with hand [of "Registering ri p'" r'] src show ?thesis by (simp add: wins_ok_def w' by_hand_def)
  next
    case (Versioning ri p)
    with a i obtain t' r' where n: "versioning_next outcome ri p (ww_reg w) = Some (t', r')"
      and w': "w' = thread_at i t' r' w"
      by (auto simp: advance_thread_def)
    note f = versioning_next_fields [OF n r t(1) [unfolded Versioning]]
    have "count_threads (has_won n) w' = count_threads (has_withdrawn n) w' + of_bool (has n (ww_reg w'))" for n
      using f(2,4,5) [of n] won [of n t' r'] gone [of n t' r'] s' [of n]
      by (simp add: w' Versioning has_withdrawn_def has_won_def)
    moreover have "by_hand t'" using f(11) t(2) Versioning by (auto simp: by_hand_def)
    ultimately show ?thesis using hand [of t' r'] by (simp add: wins_ok_def w')
  next
    case (Removing name p)
    with a i obtain p' r' where n: "removing_next timed_out name p (ww_reg w) = Some (p', r')"
      and w': "w' = note_forced (Removing name p') (thread_at i (Removing name p') r' w)"
      by (auto simp: advance_thread_def)
    have "count_threads (has_won n) w' = count_threads (has_withdrawn n) w' + of_bool (has n (ww_reg w'))" for n
      using removing_next_win(1) [OF n, of n] won [of n "Removing name p'" r'] gone [of n "Removing name p'" r'] s' [of n]
      by (simp add: w' Removing has_won_def)
    with hand [of "Removing name p'" r'] show ?thesis by (simp add: wins_ok_def w' forced by_hand_def)
  next
    case (Waking name woken)
    with a i have w': "w' = thread_at i (Waking name True) (wake_drain name (ww_reg w)) w"
      by (simp add: advance_thread_def split: if_splits)
    have "count_threads (has_won n) w' = count_threads (has_withdrawn n) w' + of_bool (has n (ww_reg w'))" for n
      using won [of n "Waking name True" "wake_drain name (ww_reg w)"] gone [of n "Waking name True" "wake_drain name (ww_reg w)"] s' [of n]
      by (simp add: w' Waking has_won_def has_withdrawn_def wake_drain_def split: option.splits)
    with hand [of "Waking name True"] show ?thesis by (simp add: wins_ok_def w' by_hand_def)
  qed
qed

text \<open>What the actions other than a thread's step do: at most one new thread, that holds nothing yet.\<close>

definition newborn :: "registry_thread \<Rightarrow> bool" where
  "newborn t \<longleftrightarrow>
     (case t of
        Registering ri p \<Rightarrow> p = Checked
      | Versioning ri p \<Rightarrow> p = VersionChecked
      | Removing name p \<Rightarrow> (case p of Waiting _ \<Rightarrow> True | ToWithdraw _ \<Rightarrow> True | _ \<Rightarrow> False)
      | Waking name woken \<Rightarrow> \<not> woken)"

lemma newborn_holds: "newborn t \<Longrightarrow> \<not> holds_slot n t \<and> \<not> has_won n t \<and> \<not> has_withdrawn n t"
  by (auto simp: newborn_def holds_slot_def has_won_def has_withdrawn_def
      split: registry_thread.splits removal_phase.splits)

lemma count_down_presence:
  "count_down name r = (b, r') \<Longrightarrow> rg_in_flight r' = rg_in_flight r \<and> (\<forall>n. has n r' = has n r)"
  by (auto simp: count_down_def Let_def has_def split: option.splits if_splits)

lemma begin_drain_presence:
  "begin_drain name r = (s, r') \<Longrightarrow> rg_in_flight r' = rg_in_flight r \<and> (\<forall>n. has n r' = has n r)"
  by (auto simp: begin_drain_def Let_def has_def split: if_splits)

lemma acquire_presence:
  "acquire name r = (res, r') \<Longrightarrow> rg_in_flight r' = rg_in_flight r \<and> (\<forall>n. has n r' = has n r)"
  by (auto simp: acquire_def split: if_splits option.splits)

lemma registry_act_start:
  assumes act: "registry_act a w = Some w'" and na: "\<And>i outcome timed_out. a \<noteq> Advance i outcome timed_out"
  obtains "rg_in_flight (ww_reg w') = rg_in_flight (ww_reg w)" "\<And>n. has n (ww_reg w') = has n (ww_reg w)"
      "ww_threads w' = ww_threads w"
  | t where "rg_in_flight (ww_reg w') = rg_in_flight (ww_reg w)" "\<And>n. has n (ww_reg w') = has n (ww_reg w)"
      "ww_threads w' = ww_threads w @ [t]" "newborn t" "(\<forall>dm. a \<noteq> StartDiscovered dm) \<Longrightarrow> by_hand t"
proof (cases a)
  case (StartRegister ri run)
  obtain res r' where c: "check_registration (ri_name ri) (ri_module ri) (ri_descriptor ri) (ri_allow_reserved ri) run (ww_reg w) = (res, r')"
    by fastforce
  with act StartRegister that log_only_fields [OF check_registration_spec(1) [OF c]] show thesis
    by (cases res) (auto simp: spawn_thread_def newborn_def by_hand_def)
next
  case (StartDiscovered dm)
  with act that show thesis by (auto simp: spawn_thread_def newborn_def split: if_splits)
next
  case (StartVersion ri)
  obtain res r' where c: "check_registration (ri_name ri) (ri_module ri) (ri_descriptor ri) False True (ww_reg w) = (res, r')"
    by fastforce
  with act StartVersion that log_only_fields [OF check_registration_spec(1) [OF c]] show thesis
    by (cases res) (auto simp: spawn_thread_def newborn_def by_hand_def)
next
  case (StartUnregister name)
  with act that show thesis by (auto simp: spawn_thread_def newborn_def by_hand_def)
next
  case (StartDrain name)
  obtain d r' where d: "begin_drain name (ww_reg w) = (d, r')" by fastforce
  with act StartDrain that begin_drain_presence [OF d] show thesis
    by (cases d) (auto simp: spawn_thread_def newborn_def by_hand_def)
next
  case (AcquireModule name)
  obtain res r' where d: "acquire name (ww_reg w) = (res, r')" by fastforce
  with act AcquireModule that acquire_presence [OF d] show thesis by (cases res) auto
next
  case (ReleaseModule name)
  obtain b r' where d: "count_down name (ww_reg w) = (b, r')" by fastforce
  with act ReleaseModule that count_down_presence [OF d] show thesis
    by (cases b) (auto simp: spawn_thread_def newborn_def by_hand_def Let_def split: if_splits)
next
  case (SetEnabled b name)
  have "rg_in_flight (snd (set_enabled b name (ww_reg w))) = rg_in_flight (ww_reg w)"
    "has n (snd (set_enabled b name (ww_reg w))) = has n (ww_reg w)" for n
    by (simp_all add: set_enabled_def has_def split: option.splits)
  with act SetEnabled that show thesis by auto
next
  case (Advance i outcome timed_out)
  with na show thesis by blast
qed

lemma count_threads_spawned:
  "ww_threads w' = ww_threads w @ [t] \<Longrightarrow> count_threads P w' = count_threads P w + of_bool (P t)"
  by (simp add: count_threads_def)

lemma count_threads_same: "ww_threads w' = ww_threads w \<Longrightarrow> count_threads P w' = count_threads P w"
  by (simp add: count_threads_def)

lemma slots_ok_run: "registry_run allowed w \<Longrightarrow> slots_ok w"
proof (induction rule: registry_run.induct)
  case (run_start r)
  then show ?case by (simp add: slots_ok_def registry_world_init_def registry_fresh_def count_threads_def)
next
  case (run_act w a w')
  show ?case
  proof (cases "\<exists>i outcome timed_out. a = Advance i outcome timed_out")
    case True
    with run_act slots_ok_advance [OF world_ok_run [OF run_act(1)]] show ?thesis by auto
  next
    case False
    have IH: "count_threads (holds_slot n) w = of_bool (n \<in> rg_in_flight (ww_reg w))" for n
      using run_act.IH by (simp add: slots_ok_def)
    from run_act(3) show ?thesis
    proof (rule registry_act_start)
      fix t
      assume "rg_in_flight (ww_reg w') = rg_in_flight (ww_reg w)" "ww_threads w' = ww_threads w @ [t]" "newborn t"
      then show ?thesis by (simp add: slots_ok_def count_threads_spawned [of w' w] IH newborn_holds)
    qed (use False in \<open>simp_all add: slots_ok_def count_threads_same [of w' w] IH\<close>)
  qed
qed

definition no_discovery :: "registry_action \<Rightarrow> registry_world \<Rightarrow> bool" where
  "no_discovery a w \<longleftrightarrow> (case a of StartDiscovered dm \<Rightarrow> False | _ \<Rightarrow> True)"

lemma wins_ok_run: "registry_run no_discovery w \<Longrightarrow> wins_ok w"
proof (induction rule: registry_run.induct)
  case (run_start r)
  then show ?case
    by (simp add: wins_ok_def registry_world_init_def registry_fresh_def count_threads_def has_def)
next
  case (run_act w a w')
  show ?case
  proof (cases "\<exists>i outcome timed_out. a = Advance i outcome timed_out")
    case True
    with run_act wins_ok_advance [OF world_ok_run [OF run_act(1)]] show ?thesis by auto
  next
    case False
    have nd: "\<forall>dm. a \<noteq> StartDiscovered dm" using run_act(2) by (auto simp: no_discovery_def)
    have IH: "count_threads (has_won n) w = count_threads (has_withdrawn n) w + of_bool (has n (ww_reg w))"
      "t \<in> set (ww_threads w) \<Longrightarrow> by_hand t" for n t
      using run_act.IH by (auto simp: wins_ok_def)
    from run_act(3) show ?thesis
    proof (rule registry_act_start)
      fix t
      assume "\<And>n. has n (ww_reg w') = has n (ww_reg w)" "ww_threads w' = ww_threads w @ [t]" "newborn t"
        "\<forall>dm. a \<noteq> StartDiscovered dm \<Longrightarrow> by_hand t"
      with nd show ?thesis by (simp add: wins_ok_def count_threads_spawned [of w' w] IH newborn_holds)
    qed (use False in \<open>simp_all add: wins_ok_def count_threads_same [of w' w] IH\<close>)
  qed
qed

subsection \<open>References and drains\<close>

definition references :: "registry \<Rightarrow> string \<Rightarrow> nat" where
  "references r n = (case bt_get (rg_ref_counts r) n of None \<Rightarrow> 0 | Some c \<Rightarrow> c)"

definition removing :: "string \<Rightarrow> registry_thread \<Rightarrow> bool" where
  "removing n t \<longleftrightarrow> (case t of Removing name p \<Rightarrow> name = n \<and> (\<forall>b c. p \<noteq> Removed b c) | _ \<Rightarrow> False)"

text \<open>No removal of the id and no wake-up for it is under way when a removal of it starts.\<close>

definition reg_quiet :: "registry_action \<Rightarrow> registry_world \<Rightarrow> bool" where
  "reg_quiet a w \<longleftrightarrow>
     (case a of
        StartDrain n \<Rightarrow> \<forall>t \<in> set (ww_threads w). \<not> removing n t \<and> t \<noteq> Waking n False
      | StartUnregister n \<Rightarrow> \<forall>t \<in> set (ww_threads w). \<not> removing n t \<and> t \<noteq> Waking n False
      | _ \<Rightarrow> True)"

definition drain_events_ok :: "registry \<Rightarrow> bool" where
  "drain_events_ok r \<longleftrightarrow>
     bt_ok (rg_drain_events r) \<and> (\<forall>k \<in> rg_notified r. k < rg_next_notify r) \<and>
     (\<forall>n k. bt_get (rg_drain_events r) n = Some k \<longrightarrow> k < rg_next_notify r) \<and>
     (\<forall>n n' k. bt_get (rg_drain_events r) n = Some k \<longrightarrow> bt_get (rg_drain_events r) n' = Some k \<longrightarrow> n = n')"

definition waits_ok :: "registry_world \<Rightarrow> bool" where
  "waits_ok w \<longleftrightarrow>
     (\<forall>n k. Removing n (Waiting k) \<in> set (ww_threads w) \<longrightarrow>
        bt_get (rg_drain_events (ww_reg w)) n = Some k \<and> n \<in> rg_draining (ww_reg w) \<and>
        (n \<notin> ww_forced w \<and> (k \<in> rg_notified (ww_reg w) \<or> Waking n False \<in> set (ww_threads w)) \<longrightarrow>
           n \<notin># ww_handles w))"

definition drains_ok :: "registry_world \<Rightarrow> bool" where
  "drains_ok w \<longleftrightarrow>
     (\<forall>n. n \<notin> ww_forced w \<longrightarrow> references (ww_reg w) n = count (ww_handles w) n) \<and>
     (\<forall>n. count_threads (removing n) w \<le> 1) \<and> drain_events_ok (ww_reg w) \<and> waits_ok w"

text \<open>What a step leaves alone when it has nothing to do with references.\<close>

definition same_drains :: "registry \<Rightarrow> registry \<Rightarrow> bool" where
  "same_drains r r' \<longleftrightarrow> rg_ref_counts r' = rg_ref_counts r \<and> rg_draining r' = rg_draining r \<and>
     rg_drain_events r' = rg_drain_events r \<and> rg_notified r' = rg_notified r \<and> rg_next_notify r' = rg_next_notify r"

lemma same_drains_log: "\<exists>es. r' = log_events es r \<Longrightarrow> same_drains r r'"
  by (auto simp: same_drains_def)

lemma registering_next_drains: "registering_next outcome ri p r = Some (p', r') \<Longrightarrow> same_drains r r'"
  by (auto simp: registering_next_def same_drains_def Let_def reserve_slot_def release_slot_def publish_if_free_def
      publish_def publish_discovered_def
      split: registration_phase.splits option.splits if_splits)

lemma waits_okI:
  assumes "\<And>n k. Removing n (Waiting k) \<in> set (ww_threads w) \<Longrightarrow>
        bt_get (rg_drain_events (ww_reg w)) n = Some k \<and> n \<in> rg_draining (ww_reg w) \<and>
        (n \<notin> ww_forced w \<and> (k \<in> rg_notified (ww_reg w) \<or> Waking n False \<in> set (ww_threads w)) \<longrightarrow>
           n \<notin># ww_handles w)"
  shows "waits_ok w"
  using assms by (simp add: waits_ok_def)

lemma waits_okD:
  assumes "waits_ok w" "Removing n (Waiting k) \<in> set (ww_threads w)"
  shows "bt_get (rg_drain_events (ww_reg w)) n = Some k" "n \<in> rg_draining (ww_reg w)"
    "n \<notin> ww_forced w \<Longrightarrow> k \<in> rg_notified (ww_reg w) \<or> Waking n False \<in> set (ww_threads w) \<Longrightarrow> n \<notin># ww_handles w"
  using assms by (auto simp: waits_ok_def)

lemma drains_ok_other:
  assumes d: "drains_ok w" and s: "same_drains (ww_reg w) (ww_reg w')"
    and h: "ww_handles w' = ww_handles w" "ww_forced w' = ww_forced w"
    and c: "\<And>n. count_threads (removing n) w' = count_threads (removing n) w"
    and t: "\<And>n k. Removing n (Waiting k) \<in> set (ww_threads w') \<Longrightarrow> Removing n (Waiting k) \<in> set (ww_threads w)"
      "\<And>n. Waking n False \<in> set (ww_threads w') \<Longrightarrow> Waking n False \<in> set (ww_threads w)"
  shows "drains_ok w'"
proof -
  have "waits_ok w'"
  proof (rule waits_okI)
    fix n k
    assume "Removing n (Waiting k) \<in> set (ww_threads w')"
    from waits_okD [OF _ t(1) [OF this]] d s t(2) [of n]
    show "bt_get (rg_drain_events (ww_reg w')) n = Some k \<and> n \<in> rg_draining (ww_reg w') \<and>
        (n \<notin> ww_forced w' \<and> (k \<in> rg_notified (ww_reg w') \<or> Waking n False \<in> set (ww_threads w')) \<longrightarrow>
           n \<notin># ww_handles w')"
      by (simp add: drains_ok_def same_drains_def h) blast
  qed
  with d s show ?thesis
    by (simp add: drains_ok_def c h same_drains_def references_def drain_events_ok_def)
qed

lemma removing_alone:
  assumes "count_threads (removing n) w \<le> 1" and i: "i < length (ww_threads w)" "removing n (ww_threads w ! i)"
    and j: "j < length (ww_threads w)" "removing n (ww_threads w ! j)"
  shows "i = j"
proof (rule ccontr)
  assume "i \<noteq> j"
  let ?xs = "ww_threads w"
  have "{i, j} \<subseteq> {k. k < length ?xs \<and> removing n (?xs ! k)}" using i j by auto
  moreover have "finite {k. k < length ?xs \<and> removing n (?xs ! k)}" by simp
  ultimately have "card {i, j} \<le> card {k. k < length ?xs \<and> removing n (?xs ! k)}" by (rule card_mono [rotated])
  with \<open>i \<noteq> j\<close> assms(1) show False by (simp add: count_threads_def length_filter_conv_card)
qed

lemma no_other_waiting:
  assumes "count_threads (removing n) w \<le> 1" and i: "i < length (ww_threads w)" "removing n (ww_threads w ! i)"
    and t: "\<And>k. t \<noteq> Removing n (Waiting k)"
  shows "Removing n (Waiting k) \<notin> set ((ww_threads w)[i := t])"
proof
  assume "Removing n (Waiting k) \<in> set ((ww_threads w)[i := t])"
  then obtain j where j: "j < length (ww_threads w)" "(ww_threads w)[i := t] ! j = Removing n (Waiting k)"
    by (auto simp: in_set_conv_nth)
  with t have "j \<noteq> i" by auto
  with j have "removing n (ww_threads w ! j)" by (simp add: removing_def)
  with removing_alone [OF assms(1) i j(1)] \<open>j \<noteq> i\<close> show False by simp
qed

lemma references_withdraw: "references (withdraw name r) n = (if n = name then 0 else references r n)"
  by (simp add: references_def withdraw_def bt_get_remove)

lemma drain_events_ok_forget: "drain_events_ok r \<Longrightarrow> drain_events_ok (forget_drain_event name r)"
  by (auto simp: drain_events_ok_def forget_drain_event_def bt_get_remove bt.ok_del split: if_splits)

lemma same_drains_versioning:
  assumes n: "versioning_next outcome ri p r = Some (t', r')" and ok: "registry_ok r"
    and t: "thread_valid r (Versioning ri p)"
  shows "same_drains r r'"
  using versioning_next_fields [OF assms] by (simp add: same_drains_def)

lemma set_updated: "t \<in> set (xs[i := t']) \<Longrightarrow> t = t' \<or> t \<in> set xs"
  using set_update_subset_insert [of xs i t'] by auto

lemma removing_at:
  assumes "i < length (ww_threads w)"
  shows "removing n t = removing n (ww_threads w ! i) \<Longrightarrow>
      count_threads (removing n) (thread_at i t r w) = count_threads (removing n) w"
    and "\<not> removing n t \<Longrightarrow> count_threads (removing n) (thread_at i t r w) \<le> count_threads (removing n) w"
  using count_threads_at [OF assms, of "removing n" t r] by (simp_all split: if_splits)

lemma thread_at_simps [simp]:
  "ww_threads (thread_at i t r w) = (ww_threads w)[i := t]" "ww_handles (thread_at i t r w) = ww_handles w"
  "ww_forced (thread_at i t r w) = ww_forced w"
  "ww_threads (spawn_thread t r w) = ww_threads w @ [t]" "ww_handles (spawn_thread t r w) = ww_handles w"
  "ww_forced (spawn_thread t r w) = ww_forced w"
  "ww_threads (note_forced t w) = ww_threads w" "ww_handles (note_forced t w) = ww_handles w"
  by (simp_all add: thread_at_def spawn_thread_def note_forced_def split: registry_thread.splits removal_phase.splits)

text \<open>The steps of a removal, under the assumption that it is the only one of its id.\<close>

lemma drains_ok_removing:
  assumes d: "drains_ok w" and i: "i < length (ww_threads w)" "ww_threads w ! i = Removing name p"
    and n: "removing_next timed_out name p (ww_reg w) = Some (p', r')"
  shows "drains_ok (note_forced (Removing name p') (thread_at i (Removing name p') r' w))"
proof -
  let ?r = "ww_reg w" and ?w' = "note_forced (Removing name p') (thread_at i (Removing name p') r' w)"
  have ref: "n \<notin> ww_forced w \<Longrightarrow> references ?r n = count (ww_handles w) n"
    and one: "count_threads (removing n) w \<le> 1" and de: "drain_events_ok ?r" and wt: "waits_ok w" for n
    using d by (simp_all add: drains_ok_def)
  have act: "removing name (ww_threads w ! i)"
    using i n by (auto simp: removing_def removing_next_def split: removal_phase.splits)
  have nw: "p' \<noteq> Waiting k" for k
    using n by (auto simp: removing_next_def split: removal_phase.splits if_splits option.splits)
  have gone: "Removing name (Waiting k) \<notin> set ((ww_threads w)[i := Removing name p'])" for k
    by (rule no_other_waiting [OF one i(1) act]) (simp add: nw)
  have cnt: "count_threads (removing n) ?w' \<le> 1" for n
  proof (cases "removing n (Removing name p')")
    case True
    then have "removing n (Removing name p') = removing n (ww_threads w ! i)"
      using act i(2) by (simp add: removing_def)
    from removing_at(1) [OF i(1) this] one show ?thesis by simp
  next
    case False
    from removing_at(2) [OF i(1) this, of r'] one [of n] show ?thesis by simp
  qed
  have other: "bt_get (rg_drain_events r') n = bt_get (rg_drain_events ?r) n \<and> (n \<in> rg_draining ?r \<longrightarrow> n \<in> rg_draining r') \<and>
      references r' n = references ?r n" if "n \<noteq> name" for n
    using n that references_withdraw [of name ?r n]
    by (auto simp: removing_next_def references_def forget_drain_event_def bt_get_remove withdraw_def
        split: removal_phase.splits if_splits option.splits)
  have same: "rg_notified r' = rg_notified ?r" "rg_next_notify r' = rg_next_notify ?r"
    using n by (auto simp: removing_next_def withdraw_def split: removal_phase.splits if_splits option.splits)
  have de': "drain_events_ok r'"
  proof -
    have "rg_drain_events r' = rg_drain_events ?r \<or> rg_drain_events r' = bt_remove name (rg_drain_events ?r)"
      using n by (auto simp: removing_next_def forget_drain_event_def withdraw_def
          split: removal_phase.splits if_splits option.splits)
    then show ?thesis
      using de same by (auto simp: drain_events_ok_def bt_get_remove bt.ok_del split: if_splits)
  qed
  have ref': "references r' name = count (ww_handles w) name" if "name \<notin> ww_forced ?w'"
  proof (cases "\<exists>m clean. p' = Withdrawn m clean")
    case True
    with n have "r' = withdraw name ?r"
      by (auto simp: removing_next_def split: removal_phase.splits if_splits option.splits)
    moreover have "name \<notin># ww_handles w" using that True by (auto simp: note_forced_def split: if_splits)
    ultimately show ?thesis by (simp add: references_withdraw not_in_iff)
  next
    case False
    then have "name \<notin> ww_forced w" using that by (cases p') (auto simp: note_forced_def)
    moreover have "references r' name = references ?r name"
      using n False by (auto simp: removing_next_def references_def split: removal_phase.splits if_splits option.splits)
    ultimately show ?thesis using ref by simp
  qed
  have fo: "n \<in> ww_forced ?w' \<longleftrightarrow> n \<in> ww_forced w" if "n \<noteq> name" for n
    using that by (simp add: note_forced_def split: removal_phase.splits)
  have "waits_ok ?w'"
  proof (rule waits_okI)
    fix n k
    assume m: "Removing n (Waiting k) \<in> set (ww_threads ?w')"
    with gone have ne: "n \<noteq> name" by auto
    with set_updated m have "Removing n (Waiting k) \<in> set (ww_threads w)" by force
    note x = waits_okD [OF wt this]
    have "Waking n False \<in> set (ww_threads ?w') \<Longrightarrow> Waking n False \<in> set (ww_threads w)"
      using set_updated by force
    with x other [OF ne] same fo [OF ne]
    show "bt_get (rg_drain_events (ww_reg ?w')) n = Some k \<and> n \<in> rg_draining (ww_reg ?w') \<and>
        (n \<notin> ww_forced ?w' \<and> (k \<in> rg_notified (ww_reg ?w') \<or> Waking n False \<in> set (ww_threads ?w')) \<longrightarrow>
           n \<notin># ww_handles ?w')"
      by auto
  qed
  moreover have "references r' n = count (ww_handles w) n" if "n \<notin> ww_forced ?w'" for n
    using that ref' other [of n] fo [of n] ref [of n] by (cases "n = name") auto
  ultimately show ?thesis using cnt de' by (simp add: drains_ok_def)
qed

lemma drains_ok_waking:
  assumes d: "drains_ok w" and i: "i < length (ww_threads w)" "ww_threads w ! i = Waking name False"
  shows "drains_ok (thread_at i (Waking name True) (wake_drain name (ww_reg w)) w)"
proof -
  let ?r = "ww_reg w" and ?w' = "thread_at i (Waking name True) (wake_drain name (ww_reg w)) w"
  have ref: "n \<notin> ww_forced w \<Longrightarrow> references ?r n = count (ww_handles w) n"
    and one: "count_threads (removing n) w \<le> 1" and de: "drain_events_ok ?r" and wt: "waits_ok w" for n
    using d by (simp_all add: drains_ok_def)
  have mem: "Waking name False \<in> set (ww_threads w)" using i by (metis nth_mem)
  have r': "rg_ref_counts (wake_drain name ?r) = rg_ref_counts ?r" "rg_draining (wake_drain name ?r) = rg_draining ?r"
    "rg_drain_events (wake_drain name ?r) = rg_drain_events ?r" "rg_next_notify (wake_drain name ?r) = rg_next_notify ?r"
    "rg_notified (wake_drain name ?r) = rg_notified ?r \<union> set_option (bt_get (rg_drain_events ?r) name)"
    by (auto simp: wake_drain_def split: option.splits)
  have "waits_ok ?w'"
  proof (rule waits_okI)
    fix n k
    assume m: "Removing n (Waiting k) \<in> set (ww_threads ?w')"
    with set_updated have "Removing n (Waiting k) \<in> set (ww_threads w)" by force
    note x = waits_okD [OF wt this]
    have k: "k \<in> rg_notified (wake_drain name ?r) \<Longrightarrow> k \<in> rg_notified ?r \<or> n = name"
      using x(1) de by (auto simp: r' drain_events_ok_def)
    have "Waking n False \<in> set (ww_threads ?w') \<Longrightarrow> Waking n False \<in> set (ww_threads w)"
      using set_updated by force
    with x k mem
    show "bt_get (rg_drain_events (ww_reg ?w')) n = Some k \<and> n \<in> rg_draining (ww_reg ?w') \<and>
        (n \<notin> ww_forced ?w' \<and> (k \<in> rg_notified (ww_reg ?w') \<or> Waking n False \<in> set (ww_threads ?w')) \<longrightarrow>
           n \<notin># ww_handles ?w')"
      by (auto simp: r'(2,3))
  qed
  moreover have "count_threads (removing n) ?w' \<le> 1" for n
    by (rule order.trans [OF removing_at(2) [OF i(1)] one]) (simp add: removing_def)
  moreover have "drain_events_ok (wake_drain name ?r)"
    using de by (auto simp: drain_events_ok_def r')
  ultimately show ?thesis using ref by (simp add: drains_ok_def references_def r')
qed

lemma drains_ok_advance:
  assumes w: "world_ok w" and d: "drains_ok w" and a: "advance_thread i outcome timed_out w = Some w'"
  shows "drains_ok w'"
proof -
  have r: "registry_ok (ww_reg w)" using w by (simp add: world_ok_def)
  from a have i: "i < length (ww_threads w)" by (simp add: advance_thread_def split: if_splits)
  then have t: "thread_valid (ww_reg w) (ww_threads w ! i)" using w by (simp add: world_ok_def)
  have other: "drains_ok (thread_at i t' r' w)"
    if "same_drains (ww_reg w) r'" "\<And>n. \<not> removing n t' \<and> t' \<noteq> Waking n False" "\<And>n. \<not> removing n (ww_threads w ! i)" for t' r'
  proof (rule drains_ok_other [OF d])
    show "count_threads (removing n) (thread_at i t' r' w) = count_threads (removing n) w" for n
      using that(2,3) by (intro removing_at(1) [OF i]) simp
    show "Removing n (Waiting k) \<in> set (ww_threads (thread_at i t' r' w)) \<Longrightarrow> Removing n (Waiting k) \<in> set (ww_threads w)" for n k
      using that(2) [of n] set_updated by (fastforce simp: removing_def)
    show "Waking n False \<in> set (ww_threads (thread_at i t' r' w)) \<Longrightarrow> Waking n False \<in> set (ww_threads w)" for n
      using that(2) [of n] set_updated by fastforce
  qed (use that(1) in simp_all)
  show ?thesis
  proof (cases "ww_threads w ! i")
    case (Registering ri p)
    with a i obtain p' r' where n: "registering_next outcome ri p (ww_reg w) = Some (p', r')"
      and w': "w' = thread_at i (Registering ri p') r' w"
      by (auto simp: advance_thread_def)
    show ?thesis unfolding w' by (rule other [OF registering_next_drains [OF n]]) (simp_all add: removing_def Registering)
  next
    case (Versioning ri p)
    with a i obtain t' r' where n: "versioning_next outcome ri p (ww_reg w) = Some (t', r')"
      and w': "w' = thread_at i t' r' w"
      by (auto simp: advance_thread_def)
    show ?thesis
      unfolding w' using versioning_next_fields(11) [OF n r t [unfolded Versioning]]
      by (intro other [OF same_drains_versioning [OF n r t [unfolded Versioning]]]) (auto simp: removing_def Versioning)
  next
    case (Removing name p)
    with a i obtain p' r' where n: "removing_next timed_out name p (ww_reg w) = Some (p', r')"
      and w': "w' = note_forced (Removing name p') (thread_at i (Removing name p') r' w)"
      by (auto simp: advance_thread_def)
    show ?thesis unfolding w' by (rule drains_ok_removing [OF d i Removing n])
  next
    case (Waking name woken)
    with a i have w': "w' = thread_at i (Waking name True) (wake_drain name (ww_reg w)) w" and "\<not> woken"
      by (simp_all add: advance_thread_def split: if_splits)
    with Waking show ?thesis unfolding w' by (intro drains_ok_waking [OF d i]) simp
  qed
qed

lemma same_drains_set_enabled: "same_drains r (snd (set_enabled b name r))"
  by (simp add: same_drains_def set_enabled_def split: option.splits)

lemma drains_ok_registry:
  assumes "drains_ok w" "same_drains (ww_reg w) r"
  shows "drains_ok (w\<lparr>ww_reg := r\<rparr>)"
  by (rule drains_ok_other [OF assms(1)]) (use assms(2) in simp_all)

lemma drains_ok_spawn:
  assumes "drains_ok w" "same_drains (ww_reg w) r" "\<And>n. \<not> removing n t \<and> t \<noteq> Waking n False"
  shows "drains_ok (spawn_thread t r w)"
proof (rule drains_ok_other [OF assms(1)])
  show "Removing n (Waiting k) \<in> set (ww_threads (spawn_thread t r w)) \<Longrightarrow> Removing n (Waiting k) \<in> set (ww_threads w)" for n k
    using assms(3) [of n] by (auto simp: removing_def)
qed (use assms in auto)

text \<open>A removal starts when none is under way and no wake-up is pending.\<close>

lemma drains_ok_start_removal:
  assumes d: "drains_ok w" and q: "\<forall>t \<in> set (ww_threads w). \<not> removing name t \<and> t \<noteq> Waking name False"
    and r: "references r = references (ww_reg w)" "rg_notified r = rg_notified (ww_reg w)" "drain_events_ok r"
      "\<And>n. n \<noteq> name \<Longrightarrow> bt_get (rg_drain_events r) n = bt_get (rg_drain_events (ww_reg w)) n"
      "rg_draining (ww_reg w) \<subseteq> rg_draining r"
    and p: "p = ToWithdraw c \<or> (\<exists>k. p = Waiting k \<and> bt_get (rg_drain_events r) name = Some k \<and>
      name \<in> rg_draining r \<and> k \<notin> rg_notified r)"
  shows "drains_ok (spawn_thread (Removing name p) r w)"
proof -
  let ?w' = "spawn_thread (Removing name p) r w"
  have wt: "waits_ok w" using d by (simp add: drains_ok_def)
  have "filter (removing name) (ww_threads w) = []" using q by (simp add: filter_empty_conv)
  then have "count_threads (removing n) ?w' \<le> 1" for n
    using d by (cases "n = name") (auto simp: drains_ok_def count_threads_def removing_def)
  moreover have "waits_ok ?w'"
  proof (rule waits_okI)
    fix n k
    assume m: "Removing n (Waiting k) \<in> set (ww_threads ?w')"
    show "bt_get (rg_drain_events (ww_reg ?w')) n = Some k \<and> n \<in> rg_draining (ww_reg ?w') \<and>
        (n \<notin> ww_forced ?w' \<and> (k \<in> rg_notified (ww_reg ?w') \<or> Waking n False \<in> set (ww_threads ?w')) \<longrightarrow>
           n \<notin># ww_handles ?w')"
    proof (cases "n = name")
      case True
      with m q have "p = Waiting k" by (auto simp: removing_def)
      with p q True show ?thesis by auto
    next
      case False
      with m have "Removing n (Waiting k) \<in> set (ww_threads w)" by auto
      from waits_okD [OF wt this] r(2,4,5) False show ?thesis by auto
    qed
  qed
  ultimately show ?thesis using d r(1,3) by (simp add: drains_ok_def)
qed

lemma drains_ok_begin_drain:
  assumes d: "drains_ok w" and q: "\<forall>t \<in> set (ww_threads w). \<not> removing name t \<and> t \<noteq> Waking name False"
    and b: "begin_drain name (ww_reg w) = (s, r)"
  shows "s = NoReferences \<Longrightarrow> drains_ok (spawn_thread (Removing name (ToWithdraw True)) r w)"
    and "s = WaitFor k \<Longrightarrow> drains_ok (spawn_thread (Removing name (Waiting k)) r w)"
proof -
  have de: "drain_events_ok (ww_reg w)" using d by (simp add: drains_ok_def)
  show "drains_ok (spawn_thread (Removing name (ToWithdraw True)) r w)" if "s = NoReferences"
    using b that de
    by (intro drains_ok_start_removal [OF d q])
      (auto simp: begin_drain_def Let_def fun_eq_iff references_def drain_events_ok_def split: if_splits)
  show "drains_ok (spawn_thread (Removing name (Waiting k)) r w)" if "s = WaitFor k"
  proof (rule drains_ok_start_removal [OF d q])
    have r: "r = (ww_reg w)\<lparr>rg_draining := insert name (rg_draining (ww_reg w)),
        rg_drain_events := bt_insert name k (rg_drain_events (ww_reg w)), rg_next_notify := k + 1\<rparr>"
      and k: "k = rg_next_notify (ww_reg w)"
      using b that by (auto simp: begin_drain_def Let_def split: if_splits)
    have bo: "bt_ok (rg_drain_events (ww_reg w))" using de by (simp add: drain_events_ok_def)
    show "drain_events_ok r"
      using de unfolding r k
      by (auto simp: drain_events_ok_def bt.get_ins bt.ok_ins less_Suc_eq split: if_splits)
    show "Waiting k = ToWithdraw True \<or> (\<exists>k'. Waiting k = Waiting k' \<and> bt_get (rg_drain_events r) name = Some k' \<and>
        name \<in> rg_draining r \<and> k' \<notin> rg_notified r)"
      using de bo unfolding r k by (auto simp: drain_events_ok_def bt.get_ins)
  qed (use b that de in \<open>auto simp: begin_drain_def Let_def fun_eq_iff references_def drain_events_ok_def bt.get_ins split: if_splits\<close>)
qed

lemma drains_ok_acquire:
  assumes d: "drains_ok w" and w: "world_ok w" and a: "acquire name (ww_reg w) = (Inr m, r)"
  shows "drains_ok (w\<lparr>ww_reg := r, ww_handles := add_mset name (ww_handles w)\<rparr>)" (is "drains_ok ?w'")
proof -
  let ?r = "ww_reg w"
  have bo: "bt_ok (rg_ref_counts ?r)" using w by (simp add: world_ok_def registry_ok_def maps_ok_def)
  have nd: "name \<notin> rg_draining ?r" and r: "r = ?r\<lparr>rg_ref_counts := bt_insert name (references ?r name + 1) (rg_ref_counts ?r)\<rparr>"
    using a by (auto simp: acquire_def references_def split: if_splits option.splits)
  have "references r n = references ?r n + of_bool (n = name)" for n
    unfolding r using bo by (simp add: references_def bt.get_ins)
  moreover have "waits_ok ?w'"
  proof (rule waits_okI)
    fix n k
    assume "Removing n (Waiting k) \<in> set (ww_threads ?w')"
    then have m: "Removing n (Waiting k) \<in> set (ww_threads w)" by simp
    have wt: "waits_ok w" using d by (simp add: drains_ok_def)
    note x = waits_okD [OF wt m]
    with nd have "n \<noteq> name" by auto
    with x show "bt_get (rg_drain_events (ww_reg ?w')) n = Some k \<and> n \<in> rg_draining (ww_reg ?w') \<and>
        (n \<notin> ww_forced ?w' \<and> (k \<in> rg_notified (ww_reg ?w') \<or> Waking n False \<in> set (ww_threads ?w')) \<longrightarrow>
           n \<notin># ww_handles ?w')"
      by (auto simp: r)
  qed
  ultimately show ?thesis
    using d by (simp add: drains_ok_def r drain_events_ok_def count_threads_def)
qed

lemma count_down_spec:
  assumes "bt_ok (rg_ref_counts r)" "count_down name r = (b, r')"
  shows "references r' n = references r n - of_bool (n = name)" "b \<Longrightarrow> references r' name = 0"
    "rg_drain_events r' = rg_drain_events r" "rg_draining r' = rg_draining r" "rg_notified r' = rg_notified r"
    "rg_next_notify r' = rg_next_notify r"
  using assms
  by (auto simp: count_down_def Let_def references_def bt.get_ins bt.get_del split: option.splits if_splits)

lemma drains_ok_release:
  assumes d: "drains_ok w" and w: "world_ok w" and h: "name \<in># ww_handles w"
    and c: "count_down name (ww_reg w) = (b, r)"
  shows "drains_ok (if b then spawn_thread (Waking name False) r (w\<lparr>ww_reg := r, ww_handles := ww_handles w - {#name#}\<rparr>)
    else w\<lparr>ww_reg := r, ww_handles := ww_handles w - {#name#}\<rparr>)" (is "drains_ok ?w'")
proof -
  have bo: "bt_ok (rg_ref_counts (ww_reg w))" using w by (simp add: world_ok_def registry_ok_def maps_ok_def)
  note cd = count_down_spec [OF bo c]
  have f: "ww_reg ?w' = r" "ww_handles ?w' = ww_handles w - {#name#}" "ww_forced ?w' = ww_forced w"
    "set (ww_threads ?w') = set (ww_threads w) \<union> (if b then {Waking name False} else {})"
    by simp_all
  have ref: "references r n = count (ww_handles ?w') n" if "n \<notin> ww_forced w" for n
    using d that cd(1) [of n] by (simp add: drains_ok_def f)
  have "waits_ok ?w'"
  proof (rule waits_okI)
    fix n k
    assume "Removing n (Waiting k) \<in> set (ww_threads ?w')"
    then have m: "Removing n (Waiting k) \<in> set (ww_threads w)" by (simp add: f split: if_splits)
    have wt: "waits_ok w" using d by (simp add: drains_ok_def)
    note x = waits_okD [OF wt m]
    have z: "n \<notin># ww_handles ?w'" if "n \<notin> ww_forced w" "b" "n = name"
      using ref [OF that(1)] cd(2) [OF that(2)] that(3) by (simp add: not_in_iff)
    have "n \<notin># ww_handles w \<Longrightarrow> n \<notin># ww_handles ?w'" by (auto simp: f dest: in_diffD)
    with x z show "bt_get (rg_drain_events (ww_reg ?w')) n = Some k \<and> n \<in> rg_draining (ww_reg ?w') \<and>
        (n \<notin> ww_forced ?w' \<and> (k \<in> rg_notified (ww_reg ?w') \<or> Waking n False \<in> set (ww_threads ?w')) \<longrightarrow>
           n \<notin># ww_handles ?w')"
      unfolding f(1,3,4) cd(3-5) by (auto split: if_splits)
  qed
  moreover have "count_threads (removing n) ?w' = count_threads (removing n) w" for n
    by (simp add: count_threads_def removing_def)
  ultimately show ?thesis
    using d ref cd(3-6) by (simp add: drains_ok_def f(1,3) drain_events_ok_def)
qed

lemma drains_ok_act:
  assumes w: "world_ok w" and d: "drains_ok w" and q: "reg_quiet a w" and a: "registry_act a w = Some w'"
  shows "drains_ok w'"
proof (cases a)
  case (StartRegister ri run)
  obtain res r' where c: "check_registration (ri_name ri) (ri_module ri) (ri_descriptor ri) (ri_allow_reserved ri) run (ww_reg w) = (res, r')"
    by fastforce
  note s = same_drains_log [OF check_registration_spec(1) [OF c]]
  from a StartRegister c drains_ok_registry [OF d s] drains_ok_spawn [OF d s] show ?thesis
    by (cases res) (auto simp: removing_def)
next
  case (StartDiscovered dm)
  with a show ?thesis
    by (auto simp: removing_def same_drains_def intro!: drains_ok_spawn [OF d] split: if_splits)
next
  case (StartVersion ri)
  obtain res r' where c: "check_registration (ri_name ri) (ri_module ri) (ri_descriptor ri) False True (ww_reg w) = (res, r')"
    by fastforce
  note s = same_drains_log [OF check_registration_spec(1) [OF c]]
  from a StartVersion c drains_ok_registry [OF d s] drains_ok_spawn [OF d s] show ?thesis
    by (cases res) (auto simp: removing_def)
next
  case (StartUnregister name)
  with q have "\<forall>t \<in> set (ww_threads w). \<not> removing name t \<and> t \<noteq> Waking name False" by (simp add: reg_quiet_def)
  then have "drains_ok (spawn_thread (Removing name (ToWithdraw True)) (ww_reg w) w)"
    by (rule drains_ok_start_removal [OF d]) (use d in \<open>simp_all add: drains_ok_def\<close>)
  with a StartUnregister show ?thesis by simp
next
  case (StartDrain name)
  with q have nq: "\<forall>t \<in> set (ww_threads w). \<not> removing name t \<and> t \<noteq> Waking name False" by (simp add: reg_quiet_def)
  obtain st r' where b: "begin_drain name (ww_reg w) = (st, r')" by fastforce
  from a StartDrain b drains_ok_begin_drain [OF d nq b] show ?thesis by (cases st) auto
next
  case (AcquireModule name)
  obtain res r' where b: "acquire name (ww_reg w) = (res, r')" by fastforce
  with a AcquireModule drains_ok_acquire [OF d w] show ?thesis by (cases res) auto
next
  case (ReleaseModule name)
  obtain b r' where c: "count_down name (ww_reg w) = (b, r')" by fastforce
  with a ReleaseModule drains_ok_release [OF d w _ c] show ?thesis by (auto simp: Let_def split: if_splits)
next
  case (SetEnabled b name)
  with a drains_ok_registry [OF d same_drains_set_enabled] show ?thesis by auto
next
  case (Advance i outcome timed_out)
  with a drains_ok_advance [OF w d] show ?thesis by simp
qed

lemma drains_ok_run: "registry_run reg_quiet w \<Longrightarrow> drains_ok w"
proof (induction rule: registry_run.induct)
  case (run_start r)
  then show ?case
    by (simp add: drains_ok_def registry_world_init_def registry_fresh_def references_def count_threads_def
        drain_events_ok_def waits_ok_def)
next
  case (run_act w a w')
  then show ?case using drains_ok_act [OF world_ok_run] by blast
qed

subsection \<open>Sample runs\<close>

fun registry_acts :: "registry_action list \<Rightarrow> registry_world \<Rightarrow> registry_world option" where
  "registry_acts [] w = Some w"
| "registry_acts (a # as) w = (case registry_act a w of None \<Rightarrow> None | Some w' \<Rightarrow> registry_acts as w')"

text \<open>Whether every action of a run is allowed.\<close>

fun all_allowed :: "(registry_action \<Rightarrow> registry_world \<Rightarrow> bool) \<Rightarrow> registry_action list \<Rightarrow> registry_world \<Rightarrow> bool" where
  "all_allowed P [] w \<longleftrightarrow> True"
| "all_allowed P (a # as) w \<longleftrightarrow>
     P a w \<and> (case registry_act a w of None \<Rightarrow> False | Some w' \<Rightarrow> all_allowed P as w')"

lemma registry_acts_run:
  "registry_run P w \<Longrightarrow> all_allowed P as w \<Longrightarrow> registry_acts as w = Some w' \<Longrightarrow> registry_run P w'"
  by (induction as w rule: registry_acts.induct) (auto split: option.splits intro: run_act)

lemma registry_new_run: "registry_run P (registry_world_init registry_new)"
  by (rule run_start) (simp add: registry_fresh_def registry_new_def)

definition sample_module :: "nat \<Rightarrow> module_object" where
  "sample_module i = plain_module i (JObject []) (JObject []) ''sample''"

definition sample_registration :: "nat \<Rightarrow> registration" where
  "sample_registration i =
     \<lparr>ri_source = None, ri_allow_reserved = False, ri_name = ''m'', ri_module = sample_module i,
      ri_descriptor = inferred_descriptor ''m'' (sample_module i)\<rparr>"

definition reg_step :: "nat \<Rightarrow> registry_action" where
  "reg_step i = Advance i None False"

text \<open>Two threads register the same id; both pass the first check.\<close>

definition register_race :: "registry_action list" where
  "register_race = [StartRegister (sample_registration 1) True, StartRegister (sample_registration 2) True, reg_step 0, reg_step 1,
     reg_step 0, reg_step 0, reg_step 0, reg_step 0, reg_step 1, reg_step 1, reg_step 1, reg_step 1]"

definition discovery_race :: "registry_action list" where
  "discovery_race = [StartDiscovered \<lparr>dm_name = ''m'', dm_source = ''a.rs'',
       dm_descriptor = inferred_descriptor ''m'' (sample_module 1), dm_module = sample_module 1\<rparr>,
     StartRegister (sample_registration 2) True, reg_step 0, reg_step 1, reg_step 1, reg_step 1, reg_step 1, reg_step 1,
     reg_step 0, reg_step 0, reg_step 0, reg_step 0]"

definition registered_once :: "registry_action list" where
  "registered_once = [StartRegister (sample_registration 1) True, reg_step 0, reg_step 0, reg_step 0, reg_step 0, reg_step 0]"

definition clean_drain :: "registry_action list" where
  "clean_drain = registered_once @ [AcquireModule ''m'', StartDrain ''m'', ReleaseModule ''m'', reg_step 2]"

definition stale_wake :: "registry_action list" where
  "stale_wake = registered_once @ [AcquireModule ''m'', ReleaseModule ''m'', AcquireModule ''m'', StartDrain ''m'',
     reg_step 1, reg_step 2, reg_step 2, reg_step 2, reg_step 2]"

definition drain_window :: "registry_action list" where
  "drain_window = clean_drain @ [reg_step 1, AcquireModule ''m'', reg_step 1, reg_step 1, reg_step 1]"

definition run_ends ::
  "(registry_action \<Rightarrow> registry_world \<Rightarrow> bool) \<Rightarrow> registry_action list \<Rightarrow> (registry_world \<Rightarrow> bool) \<Rightarrow> bool" where
  "run_ends allowed as P \<longleftrightarrow> all_allowed allowed as (registry_world_init registry_new) \<and>
     (case registry_acts as (registry_world_init registry_new) of None \<Rightarrow> False | Some w \<Rightarrow> P w)"

lemma run_endsD: "run_ends allowed as P \<Longrightarrow> \<exists>w. registry_run allowed w \<and> P w"
  using registry_acts_run [OF registry_new_run] by (auto simp: run_ends_def split: option.splits)

definition any_action :: "registry_action \<Rightarrow> registry_world \<Rightarrow> bool" where
  "any_action a w \<longleftrightarrow> True"

subsection \<open>Properties\<close>

text \<open>C34: in every interleaving of registrations by hand and by discovery, further versions, removals,
  drains, acquisitions and releases the registry's maps agree: an id is in all of them or in none, the cached
  schemas are those of its descriptor, its versions are distinct, and it is valid. A module is only
  reachable after its \<open>on_load\<close> has succeeded, also as an older version, and an id is reserved while
  exactly one thread registers it.\<close>

theorem registry_stays_consistent:
  assumes "registry_run allowed w"
  shows "registry_ok (ww_reg w)
    \<and> (\<forall>n m. get_module n (ww_reg w) = Inr (Some m) \<longrightarrow> Loaded n m \<in> set (rg_log (ww_reg w)))
    \<and> (\<forall>n. count_threads (holds_slot n) w = of_bool (n \<in> rg_in_flight (ww_reg w)))"
proof (intro conjI allI impI)
  show ok: "registry_ok (ww_reg w)" using world_ok_run [OF assms] by (simp add: world_ok_def)
  show "count_threads (holds_slot n) w = of_bool (n \<in> rg_in_flight (ww_reg w))" for n
    using slots_ok_run [OF assms] by (simp add: slots_ok_def)
  show "Loaded n m \<in> set (rg_log (ww_reg w))" if "get_module n (ww_reg w) = Inr (Some m)" for n m
    using that registry_okD(8) [OF ok, of n] by (auto simp: get_module_def entry_ok_def loaded_in_def split: if_splits)
qed

theorem registry_stays_consistent_witness:
  "\<exists>w. registry_run any_action w \<and> get_module ''m'' (ww_reg w) = Inr (Some (sample_module 1)) \<and>
     Loaded ''m'' (sample_module 1) \<in> set (rg_log (ww_reg w))"
proof -
  have "run_ends any_action registered_once (\<lambda>w. get_module ''m'' (ww_reg w) = Inr (Some (sample_module 1)))"
    by code_simp
  then obtain w where "registry_run any_action w" "get_module ''m'' (ww_reg w) = Inr (Some (sample_module 1))"
    by (blast dest: run_endsD)
  with registry_stays_consistent [of any_action w] show ?thesis by blast
qed

text \<open>C35: registrations by hand never replace one another. However they interleave with each other, with
  further versions and with removals, the registrations of an id that succeeded are as many as its
  withdrawals, and one more exactly when the id is registered; so between two that succeed lies a
  removal.\<close>

theorem one_registration_wins:
  assumes "registry_run no_discovery w"
  shows "count_threads (has_won n) w = count_threads (has_withdrawn n) w + of_bool (has n (ww_reg w))"
  using wins_ok_run [OF assms] by (simp add: wins_ok_def)

theorem one_registration_wins_witness:
  "\<exists>w. registry_run no_discovery w \<and> ww_threads w ! 1 = Registering (sample_registration 2)
       (RegisterDone (Inl (duplicate_module_id ''m''))) \<and> count_threads (has_won ''m'') w = 1"
proof -
  have "run_ends no_discovery register_race (\<lambda>w. ww_threads w ! 1 = Registering (sample_registration 2)
       (RegisterDone (Inl (duplicate_module_id ''m''))) \<and> has ''m'' (ww_reg w) \<and> count_threads (has_withdrawn ''m'') w = 0)"
    by code_simp
  then obtain w where "registry_run no_discovery w" "ww_threads w ! 1 = Registering (sample_registration 2)
       (RegisterDone (Inl (duplicate_module_id ''m'')))" "has ''m'' (ww_reg w)" "count_threads (has_withdrawn ''m'') w = 0"
    by (blast dest: run_endsD)
  with one_registration_wins [of w "''m''"] show ?thesis by auto
qed

text \<open>C36: a drain that ends without a timeout ends when nobody uses the module, as long as every removal of an id
  starts when no other removal of it is running and no wake-up of it is pending, and the id was never
  withdrawn while some acquisition of it was unreleased. Then the reference count of the id is the number of
  its unreleased acquisitions, a drain that begins without a wait begins with none, and a waiting drain that is
  woken is woken when there is none.\<close>

theorem clean_drain_means_unused:
  assumes "registry_run reg_quiet w" and "n \<notin> ww_forced w"
  shows "references (ww_reg w) n = count (ww_handles w) n
    \<and> (fst (begin_drain n (ww_reg w)) = NoReferences \<longrightarrow> n \<notin># ww_handles w)
    \<and> (\<forall>i k outcome w'. ww_threads w ! i = Removing n (Waiting k) \<and> advance_thread i outcome False w = Some w' \<longrightarrow>
         n \<notin># ww_handles w')"
proof (intro conjI allI impI)
  have d: "drains_ok w" using drains_ok_run [OF assms(1)] .
  show r: "references (ww_reg w) n = count (ww_handles w) n" using d assms(2) by (simp add: drains_ok_def)
  show "n \<notin># ww_handles w" if "fst (begin_drain n (ww_reg w)) = NoReferences"
    using that r by (auto simp: begin_drain_def references_def Let_def not_in_iff split: if_splits)
  show "n \<notin># ww_handles w'"
    if a: "ww_threads w ! i = Removing n (Waiting k) \<and> advance_thread i outcome False w = Some w'" for i k outcome w'
  proof -
    from a have "i < length (ww_threads w)" "k \<in> rg_notified (ww_reg w)" "ww_handles w' = ww_handles w"
      by (auto simp: advance_thread_def removing_next_def split: if_splits)
    moreover from this a have "Removing n (Waiting k) \<in> set (ww_threads w)" by (metis nth_mem)
    ultimately show ?thesis
      using waits_okD(3) [of w n k] d assms(2) by (simp add: drains_ok_def)
  qed
qed

theorem clean_drain_means_unused_witness:
  "\<exists>w w'. registry_run reg_quiet w \<and> ww_threads w ! 1 = Removing ''m'' (Waiting 0) \<and>
     advance_thread 1 None False w = Some w' \<and> ''m'' \<notin># ww_handles w'"
proof -
  have "run_ends reg_quiet clean_drain (\<lambda>w. ww_threads w ! 1 = Removing ''m'' (Waiting 0) \<and> ''m'' \<notin> ww_forced w \<and>
      (case advance_thread 1 None False w of None \<Rightarrow> False | Some w' \<Rightarrow> True))"
    by code_simp
  then obtain w where "registry_run reg_quiet w" "ww_threads w ! 1 = Removing ''m'' (Waiting 0)" "''m'' \<notin> ww_forced w"
      "case advance_thread 1 None False w of None \<Rightarrow> False | Some w' \<Rightarrow> True"
    by (blast dest: run_endsD)
  moreover from this(4) obtain w' where "advance_thread 1 None False w = Some w'"
    by (cases "advance_thread 1 None False w") simp_all
  ultimately show ?thesis using clean_drain_means_unused [of w "''m''"] by blast
qed

text \<open>Discovery does not look again before it publishes: it replaces a module that was registered while
  its own \<open>on_load\<close> ran, without unloading it, and both registrations succeed.\<close>

lemma discovery_overwrites:
  "run_ends any_action discovery_race (\<lambda>w. count_threads (has_won ''m'') w = 2 \<and> count_threads (has_withdrawn ''m'') w = 0 \<and>
     bt_get (rg_modules (ww_reg w)) ''m'' = Some (sample_module 1) \<and>
     Loaded ''m'' (sample_module 2) \<in> set (rg_log (ww_reg w)) \<and> Unloaded ''m'' (sample_module 2) \<notin> set (rg_log (ww_reg w)))"
  by code_simp

text \<open>A release decides to wake a drain and wakes it under different locks. A drain that begins in between
  is woken although the module has been acquired again, reports a clean drain and removes the module.\<close>

lemma stale_wake_ends_drain:
  "run_ends any_action stale_wake (\<lambda>w. ww_threads w ! 2 = Removing ''m'' (Removed True True) \<and> ''m'' \<in># ww_handles w)"
  by code_simp

text \<open>A drain clears its mark before it removes the module: an acquisition in between succeeds, and the
  module is removed under it although the drain reports that it was clean.\<close>

lemma acquire_in_the_drain_window:
  "run_ends reg_quiet drain_window (\<lambda>w. ww_threads w ! 1 = Removing ''m'' (Removed True True) \<and> ''m'' \<in># ww_handles w)"
  by code_simp

end
