(* ===== verification/RegistryOps.thy ===== *)
theory RegistryOps
  imports RegistryRuns
begin

section \<open>Whole registry operations\<close>

text \<open>
  What \<open>register\<close>, \<open>add_version\<close>, \<open>unregister\<close> and a hot reload do from start to end when
  nobody else acts, on every branch, on registries that satisfy the invariant of the registry runs.
\<close>

subsection \<open>Registration\<close>

text \<open>What a registration logs after a failed load.\<close>

definition failure_log :: "string \<Rightarrow> module_object \<Rightarrow> module_error \<Rightarrow> registry \<Rightarrow> registry_event list" where
  "failure_log name m e r =
     LoadFailed name m # map (\<lambda>cb. LoadFailedCallback cb name e) (rg_load_failed_callbacks r) @
     (if rg_emitter r then [LoadFailedEvent name e] else [])"

lemma log_events_append: "log_events bs (log_events as r) = log_events (as @ bs) r"
  by (simp add: log_events_def)

lemma log_events_slot:
  "log_events es (release_slot name r) = release_slot name (log_events es r)"
  "log_events es (r\<lparr>rg_in_flight := x\<rparr>) = (log_events es r)\<lparr>rg_in_flight := x\<rparr>"
  by (simp_all add: log_events_def release_slot_def)

lemma reserve_release:
  "reserve_slot name r = Some r' \<Longrightarrow> release_slot name (log_events es r') = log_events es r"
  by (auto simp: reserve_slot_def release_slot_def log_events_def split: if_splits)

lemma failed_load_registers_nothing:
  assumes c: "check_registration name m d0 allow run r = (Inr d, r1)" "conflict_gate allow name r1 = None"
    and f: "name \<notin> rg_in_flight r1" and l: "on_load m = Some e"
  shows "register_core on_load name m d0 allow run r = (Inl e, log_events (failure_log name m e r1) r1)"
proof -
  obtain r2 where r2: "reserve_slot name r1 = Some r2" using f by (simp add: reserve_slot_def)
  have "rg_load_failed_callbacks r2 = rg_load_failed_callbacks r1" "rg_emitter r2 = rg_emitter r1"
    using r2 by (auto simp: reserve_slot_def split: if_splits)
  then have "notify_load_failed name e (release_slot name (log_events [LoadFailed name m] r2)) =
      log_events (failure_log name m e r1) r1"
    using reserve_release [OF r2]
    by (simp add: notify_load_failed_def emit_module_load_failed_def failure_log_def log_events_append)
  with c r2 l show ?thesis by (simp add: register_core_def)
qed

lemma successful_load_registers:
  assumes c: "check_registration name m d0 allow run r = (Inr d, r1)" "conflict_gate allow name r1 = None"
    and f: "name \<notin> rg_in_flight r1" and n: "bt_get (rg_modules r1) name = None" and l: "on_load m = None"
  shows "fst (register_core on_load name m d0 allow run r) = Inr () \<and>
    (\<exists>es. snd (register_core on_load name m d0 allow run r) = log_events (Loaded name m # es) (publish name m d r1))"
proof -
  obtain r2 where r2: "reserve_slot name r1 = Some r2" and m2: "rg_modules r2 = rg_modules r1"
    using f by (simp add: reserve_slot_def)
  have "release_slot name (publish name m d (log_events [Loaded name m] r2)) =
      log_events [Loaded name m] (publish name m d r1)"
    using r2 by (auto simp: reserve_slot_def publish_def release_slot_def log_events_def split: if_splits)
  moreover obtain es1 es2 where
    "notify_registered name m (log_events [Loaded name m] (publish name m d r1)) =
       log_events es1 (log_events [Loaded name m] (publish name m d r1))"
    "emit_ephemeral_event ''apcore.registry.module_registered'' name
       (log_events es1 (log_events [Loaded name m] (publish name m d r1))) =
       log_events es2 (log_events es1 (log_events [Loaded name m] (publish name m d r1)))"
    using log_only(2,3) by metis
  ultimately show ?thesis
    using c r2 m2 l n by (auto simp: register_core_def publish_if_free_def log_events_append Let_def)
qed

lemma conflict_gate_absent:
  assumes ok: "registry_ok r" and n: "bt_get (rg_modules r) name = None"
    and v: "valid_id name" and a: "allow \<or> first_segment name \<notin> set reserved_words"
  shows "conflict_gate allow name r = None"
proof -
  have "bt_get (rg_lowercase_map r) name = None"
    using registry_okD(8) [OF ok, of name] n by (simp add: entry_ok_def)
  moreover have "name \<notin> set (map fst (rg_modules r))" using n by (simp add: bt_get_None_iff)
  ultimately show ?thesis
    using a by (auto simp: conflict_gate_def find_conflict_def detect_id_conflicts_def valid_id_lowercase [OF v])
qed

lemma conflict_gate_present:
  assumes "bt_get (rg_modules r) name \<noteq> None"
  shows "conflict_gate allow name r = Some (module_error_new DuplicateModuleId)"
proof -
  have "name \<in> set (map fst (rg_modules r))" using assms by (auto simp: bt_get_None_iff)
  then show ?thesis by (simp add: conflict_gate_def find_conflict_def detect_id_conflicts_def)
qed

text \<open>C37: a registration either publishes its module or leaves no trace. On a consistent registry with no
  other registration under way it succeeds exactly when the checks pass, the id is free and the load hook
  succeeds; then the id maps to the module and its checked descriptor and every other id is as it was. If
  \<open>on_load\<close> fails the error is returned unchanged, every load-failure callback and then the event hears of
  it, in order, and nothing else changes.\<close>

theorem registration_is_atomic:
  assumes ok: "registry_ok r" and f: "rg_in_flight r = {}"
    and c: "check_registration name m d0 False True r = (Inr d, r1)"
  shows "if has name r then register on_load name m d0 r = (Inl (module_error_new DuplicateModuleId), r1)
    else (case on_load m of
       Some e \<Rightarrow> register on_load name m d0 r = (Inl e, log_events (failure_log name m e r1) r1)
     | None \<Rightarrow> fst (register on_load name m d0 r) = Inr () \<and>
         (let r' = snd (register on_load name m d0 r)
          in bt_get (rg_modules r') name = Some m \<and> bt_get (rg_descriptors r') name = Some d \<and>
             rg_in_flight r' = {} \<and>
             (\<forall>n. n \<noteq> name \<longrightarrow> bt_get (rg_modules r') n = bt_get (rg_modules r) n \<and>
                bt_get (rg_descriptors r') n = bt_get (rg_descriptors r) n)))"
proof -
  obtain es where r1: "r1 = log_events es r" using check_registration_spec(1) [OF c] by blast
  have ok1: "registry_ok r1" unfolding r1 using ok by (rule registry_ok_log)
  have f1: "name \<notin> rg_in_flight r1" using f by (simp add: r1)
  have v: "valid_id name" using check_registration_spec(2) [OF c] by simp
  have res: "first_segment name \<notin> set reserved_words"
    using c by (auto simp: check_registration_def validate_module_id_def split: if_splits)
  show ?thesis
  proof (cases "has name r")
    case True
    then have "bt_get (rg_modules r1) name \<noteq> None" by (simp add: r1 has_def)
    from conflict_gate_present [OF this] c True show ?thesis by (simp add: register_def register_core_def)
  next
    case False
    then have n: "bt_get (rg_modules r1) name = None" by (simp add: r1 has_def)
    have g: "conflict_gate False name r1 = None" using conflict_gate_absent [OF ok1 n v] res by simp
    show ?thesis
    proof (cases "on_load m")
      case (Some e)
      from failed_load_registers_nothing [where on_load = on_load, OF c g f1 Some] False Some show ?thesis
        by (simp add: register_def)
    next
      case None
      from successful_load_registers [where on_load = on_load, OF c g f1 n None] obtain es' where
        "fst (register on_load name m d0 r) = Inr ()"
        "snd (register on_load name m d0 r) = log_events es' (publish name m d r1)"
        by (auto simp: register_def)
      with False None f registry_okD [OF ok] show ?thesis
        by (simp add: Let_def publish_def r1 bt.get_ins)
    qed
  qed
qed

theorem registration_is_atomic_witness:
  "fst (register (\<lambda>_. None) ''m'' (sample_module 1) (inferred_descriptor ''m'' (sample_module 1)) registry_new) = Inr ()"
proof -
  let ?c = "check_registration ''m'' (sample_module 1) (inferred_descriptor ''m'' (sample_module 1)) False True registry_new"
  have "fst ?c = Inr (inferred_descriptor ''m'' (sample_module 1))" by code_simp
  then have "?c = (Inr (inferred_descriptor ''m'' (sample_module 1)), snd ?c)" by (metis prod.collapse)
  moreover have "registry_ok registry_new"
    by (simp add: registry_ok_def maps_ok_def entry_ok_def registry_new_def)
  moreover have "rg_in_flight registry_new = {}" "\<not> has ''m'' registry_new" by (simp_all add: has_def registry_new_def)
  ultimately show ?thesis
    using registration_is_atomic [of registry_new "''m''" "sample_module 1" _ _ "snd ?c" "\<lambda>_. None"] by simp
qed

subsection \<open>Versions\<close>

lemma latest_entry_max:
  "latest_entry es = Some e \<Longrightarrow> x \<in> set es \<Longrightarrow> sv_le (parse_semver (ve_version x)) (parse_semver (ve_version e))"
proof (induction es arbitrary: e)
  case (Cons y es)
  show ?case
  proof (cases "latest_entry es")
    case None
    with Cons.prems show ?thesis by (simp add: latest_entry_None)
  next
    case (Some l)
    let ?s = "\<lambda>e. parse_semver (ve_version e)"
    have l: "x \<in> set es \<Longrightarrow> sv_le (?s x) (?s l)" using Cons.IH [OF Some] .
    show ?thesis
    proof (cases "sv_less (?s l) (?s y)")
      case True
      then have "sv_le (?s l) (?s y)" using sv_le_total [of "?s l" "?s y"] by (auto simp: sv_le_def)
      with True Some Cons.prems l show ?thesis by (auto intro: sv_le_trans)
    next
      case False
      with Some Cons.prems l show ?thesis by (auto simp: sv_le_def)
    qed
  qed
qed simp

text \<open>the module and the definition that lookups return after a version was added are those of one
  of the registered versions, and no registered version is higher; the new version is among them and no
  version occurs twice.\<close>

theorem lookups_return_the_highest_version:
  assumes ok: "registry_ok r" and l: "loaded_in r name m"
    and v: "put_version name m d r = Some (True, r')"
  shows "\<exists>es e. bt_get (rg_versions r') name = Some es \<and> e \<in> set es \<and>
     bt_get (rg_modules r') name = Some (ve_module e) \<and> bt_get (rg_descriptors r') name = Some (ve_descriptor e) \<and>
     (\<forall>x \<in> set es. sv_le (parse_semver (ve_version x)) (parse_semver (ve_version e))) \<and>
     \<lparr>ve_version = md_version d, ve_module = m, ve_descriptor = d\<rparr> \<in> set es \<and> distinct (map ve_version es)"
proof -
  obtain cur cd where c: "bt_get (rg_modules r) name = Some cur" "bt_get (rg_descriptors r) name = Some cd"
    using v by (auto simp: put_version_def split: option.splits)
  define es where "es = (case bt_get (rg_versions r) name of Some es \<Rightarrow> es
      | None \<Rightarrow> [\<lparr>ve_version = md_version cd, ve_module = cur, ve_descriptor = cd\<rparr>]) @
        [\<lparr>ve_version = md_version d, ve_module = m, ve_descriptor = d\<rparr>]"
  obtain e where e: "latest_entry es = Some e" by (cases "latest_entry es") (auto simp: latest_entry_None es_def)
  have r': "bt_get (rg_versions r') name = Some es" "bt_get (rg_modules r') name = Some (ve_module e)"
    "bt_get (rg_descriptors r') name = Some (ve_descriptor e)"
    using v c e registry_okD [OF ok]
    by (auto simp: put_version_def Let_def es_def [symmetric] bt.get_ins split: if_splits)
  have "registry_ok r'" using registry_ok_put_version [OF ok l v] by blast
  from registry_okD(8) [OF this, of name] r' have "distinct (map ve_version es)"
    by (simp add: entry_ok_def)
  with r' latest_entry_member [OF e] latest_entry_max [OF e] show ?thesis
    by (intro exI [of _ es] exI [of _ e]) (simp add: es_def)
qed

definition lower_version :: module_descriptor where
  "lower_version = versioned_descriptor ''m'' (sample_module 2) (Some ''0.9.0'') None"

definition loaded_second :: "registry_world \<Rightarrow> registry" where
  "loaded_second w = log_events [Loaded ''m'' (sample_module 2)] (ww_reg w)"

definition takes_lower_version :: "registry_world \<Rightarrow> bool" where
  "takes_lower_version w \<longleftrightarrow> (case put_version ''m'' (sample_module 2) lower_version (loaded_second w) of
     None \<Rightarrow> False | Some x \<Rightarrow> fst x)"

theorem lookups_return_the_highest_version_witness:
  "\<exists>w r'. registry_run any_action w \<and>
     put_version ''m'' (sample_module 2) lower_version (loaded_second w) = Some (True, r') \<and>
     (\<exists>e :: version_entry. bt_get (rg_modules r') ''m'' = Some (ve_module e) \<and> sv_le (0, 9, 0) (parse_semver (ve_version e)))"
proof -
  have "run_ends any_action registered_once takes_lower_version" by code_simp
  then obtain w where w: "registry_run any_action w" "takes_lower_version w" by (blast dest: run_endsD)
  then obtain r' where r': "put_version ''m'' (sample_module 2) lower_version (loaded_second w) = Some (True, r')"
    by (auto simp: takes_lower_version_def split: option.splits)
  have ok: "registry_ok (loaded_second w)"
    using world_ok_run [OF w(1)] by (simp add: world_ok_def registry_ok_log loaded_second_def)
  have ld: "loaded_in (loaded_second w) ''m'' (sample_module 2)"
    by (simp add: loaded_in_def loaded_second_def)
  obtain es and e :: version_entry where e: "bt_get (rg_modules r') ''m'' = Some (ve_module e)"
      "\<forall>x \<in> set es. sv_le (parse_semver (ve_version x)) (parse_semver (ve_version e))"
      "\<lparr>ve_version = md_version lower_version, ve_module = sample_module 2, ve_descriptor = lower_version\<rparr> \<in> set es"
    using lookups_return_the_highest_version [OF ok ld r'] by (elim exE conjE) (rule that)
  have "parse_semver (md_version lower_version) = (0, 9, 0)" by code_simp
  with bspec [OF e(2) e(3)] have "sv_le (0, 9, 0) (parse_semver (ve_version e))" by simp
  with w(1) r' e(1) show ?thesis by blast
qed

definition with_version :: "string \<Rightarrow> nat \<Rightarrow> registry \<Rightarrow> registry" where
  "with_version v i r = snd (register_versioned (\<lambda>_. None) ''m'' (sample_module i) (Some v) None r)"

definition two_versions :: registry where
  "two_versions = with_version ''2.0.0'' 2 (with_version ''1.0.0'' 1 registry_new)"

text \<open>Adding a lower version puts the highest version's stored descriptor back: a module that was
  disabled is enabled again.\<close>

lemma adding_a_version_enables:
  "is_enabled ''m'' (snd (set_enabled False ''m'' two_versions)) = Some False \<and>
   is_enabled ''m'' (with_version ''0.5.0'' 3 (snd (set_enabled False ''m'' two_versions))) = Some True"
  by code_simp

text \<open>Removing the module unloads the version that lookups returned and none of the others.\<close>

lemma older_versions_are_not_unloaded:
  "filter (\<lambda>e. case e of Loaded _ _ \<Rightarrow> True | Unloaded _ _ \<Rightarrow> True | _ \<Rightarrow> False) (rg_log (snd (unregister ''m'' two_versions))) =
     [Loaded ''m'' (sample_module 1), Loaded ''m'' (sample_module 2), Unloaded ''m'' (sample_module 2)]"
  by code_simp

text \<open>The four-argument form without version and metadata is not the two-argument form: it drops what
  the module declares as metadata.\<close>

lemma versioned_form_drops_metadata:
  assumes "mo_metadata m \<noteq> []"
  shows "versioned_descriptor name m None None \<noteq> inferred_descriptor name m"
  using assms by (simp add: versioned_descriptor_def inferred_descriptor_def Let_def)

text \<open>Discovery registers a module that declares streaming without implementing it, which every other
  registration refuses.\<close>

definition streaming_module :: module_object where
  "streaming_module = (sample_module 1)\<lparr>mo_annotations := default_annotations\<lparr>ma_streaming := True\<rparr>\<rparr>"

lemma discovery_skips_the_streaming_check:
  "fst (register_discovered (\<lambda>_. None) [\<lparr>dm_name = ''m'', dm_source = ''a.rs'',
      dm_descriptor = inferred_descriptor ''m'' streaming_module, dm_module = streaming_module\<rparr>] registry_new) = 1 \<and>
   (case fst (register_module (\<lambda>_. None) ''m'' streaming_module registry_new) of
      Inl e \<Rightarrow> err_code e = StreamingInterfaceMismatch | Inr _ \<Rightarrow> False)"
  by code_simp

subsection \<open>Removal and reload\<close>

subsection \<open>Reload\<close>

text \<open>A reload whose new instance fails to load keeps the previous instance, but not the source it was
  discovered from: a later change of that file no longer reaches it.\<close>

definition discovered_at :: "string \<Rightarrow> nat \<Rightarrow> discovered_module" where
  "discovered_at source i = \<lparr>dm_name = ''m'', dm_source = source,
     dm_descriptor = inferred_descriptor ''m'' (sample_module i), dm_module = sample_module i\<rparr>"

definition failing_reload :: reload_world where
  "failing_reload = \<lparr>rw_on_load = (\<lambda>m. if m = sample_module 2 then Some (module_not_found ''m'') else None),
     rw_drained = (\<lambda>_. True), rw_suspend = (\<lambda>_. None), rw_touches = (\<lambda>_. True), rw_exists = (\<lambda>_. True)\<rparr>"

definition discovered_once :: registry where
  "discovered_once = snd (register_discovered (\<lambda>_. None) [discovered_at ''a.rs'' 1] registry_new)"

lemma failed_reload_forgets_source:
  "bt_get (rg_modules (snd (replace_discovered (\<lambda>_. []) failing_reload (discovered_at ''a.rs'' 2) discovered_once))) ''m'' =
     Some (sample_module 1) \<and>
   bt_get (rg_sources discovered_once) ''m'' = Some ''a.rs'' \<and>
   bt_get (rg_sources (snd (replace_discovered (\<lambda>_. []) failing_reload (discovered_at ''a.rs'' 2) discovered_once))) ''m'' = None"
  by code_simp

end
