(* ===== verification/Floats.thy ===== *)
theory Floats
  imports ModuleTypes Versions
begin

section \<open>Reading numbers\<close>

text \<open>
  The number readers of the standard library and of \<open>serde_json\<close> that configuration values go
  through: \<open>str::parse\<close> for \<open>i64\<close> and \<open>f64\<close>, \<open>Value::as_i64\<close> and
  \<open>Value::as_f64\<close>. A finite \<open>f64\<close> is \<open>mantissa * 2 ^ exponent\<close> with an odd mantissa, or
  \<open>(0, 0)\<close>; the sign of a zero is not kept.
\<close>

type_synonym dyadic = "int \<times> int"

fun strip_twos :: "nat \<Rightarrow> int \<Rightarrow> nat \<times> int" where
  "strip_twos m e =
     (if m = 0 then (0, 0) else if even m then strip_twos (m div 2) (e + 1) else (m, e))"

declare strip_twos.simps [simp del]

fun bit_length :: "nat \<Rightarrow> nat" where
  "bit_length n = (if n = 0 then 0 else Suc (bit_length (n div 2)))"

declare bit_length.simps [simp del]

text \<open>Division rounded to the nearest integer, ties to even.\<close>

definition half_even :: "nat \<Rightarrow> nat \<Rightarrow> nat" where
  "half_even n d =
     (let q = n div d; r = n mod d
      in if 2 * r < d then q else if 2 * r > d then q + 1 else if even q then q else q + 1)"

definition scaled :: "nat \<Rightarrow> nat \<Rightarrow> int \<Rightarrow> nat \<times> nat" where
  "scaled n d e = (if e \<ge> 0 then (n, d * 2 ^ nat e) else (n * 2 ^ nat (- e), d))"

text \<open>The double nearest to \<open>n / d\<close>; \<open>None\<close> when it overflows to infinity.\<close>

definition nearest_f64 :: "nat \<Rightarrow> nat \<Rightarrow> (nat \<times> int) option" where
  "nearest_f64 n d =
     (if n = 0 then Some (0, 0)
      else
        (let e0 = int (bit_length n) - int (bit_length d) - 53;
             e1 = (case scaled n d e0 of (a, b) \<Rightarrow> if a \<ge> b * 2 ^ 53 then e0 + 1 else e0);
             e = max e1 (- 1074);
             m = (case scaled n d e of (a, b) \<Rightarrow> half_even a b)
         in if e > 971 \<or> (e = 971 \<and> m = 2 ^ 53) then None else Some (strip_twos m e)))"

definition signed_f64 :: "bool \<Rightarrow> nat \<Rightarrow> nat \<Rightarrow> dyadic option" where
  "signed_f64 negative n d =
     map_option (\<lambda>(m, e). (if negative then - int m else int m, e)) (nearest_f64 n d)"

fun as_f64 :: "json \<Rightarrow> dyadic option" where
  "as_f64 (JNumber (PosInt n)) = signed_f64 False n 1"
| "as_f64 (JNumber (NegInt i)) = signed_f64 True (nat (- i)) 1"
| "as_f64 (JNumber (Flt m e)) = Some (m, e)"
| "as_f64 _ = None"

definition i64_fits :: "int \<Rightarrow> bool" where
  "i64_fits i \<longleftrightarrow> - (2 ^ 63) \<le> i \<and> i < 2 ^ 63"

fun as_i64 :: "json \<Rightarrow> int option" where
  "as_i64 (JNumber (PosInt n)) = (if i64_fits (int n) then Some (int n) else None)"
| "as_i64 (JNumber (NegInt i)) = Some i"
| "as_i64 _ = None"

definition number_of_int :: "int \<Rightarrow> json" where
  "number_of_int i = JNumber (if i \<ge> 0 then PosInt (nat i) else NegInt i)"

definition number_of_f64 :: "dyadic \<Rightarrow> json" where
  "number_of_f64 x = JNumber (Flt (fst x) (snd x))"

subsection \<open>Comparisons\<close>

definition f64_nonneg :: "dyadic \<Rightarrow> bool" where
  "f64_nonneg x \<longleftrightarrow> 0 \<le> fst x"

definition f64_pos :: "dyadic \<Rightarrow> bool" where
  "f64_pos x \<longleftrightarrow> 0 < fst x"

definition f64_le_one :: "dyadic \<Rightarrow> bool" where
  "f64_le_one x \<longleftrightarrow>
     (if snd x \<ge> 0 then fst x * 2 ^ nat (snd x) \<le> 1 else fst x \<le> 2 ^ nat (- snd x))"

subsection \<open>Parsing\<close>

definition all_digits :: "string \<Rightarrow> bool" where
  "all_digits s \<longleftrightarrow> s \<noteq> [] \<and> list_all is_ascii_digit s"

definition split_sign :: "string \<Rightarrow> bool \<times> string" where
  "split_sign s =
     (case s of
        [] \<Rightarrow> (False, [])
      | c # cs \<Rightarrow> if c = CHR ''-'' then (True, cs) else if c = CHR ''+'' then (False, cs) else (False, s))"

definition parse_i64 :: "string \<Rightarrow> int option" where
  "parse_i64 s =
     (case split_sign s of
        (negative, ds) \<Rightarrow>
          if \<not> all_digits ds then None
          else (let i = (if negative then - int (digits_value 0 ds) else int (digits_value 0 ds))
                in if i64_fits i then Some i else None))"

text \<open>The exponent part: nothing, or \<open>e\<close> and a signed number.\<close>

definition parse_exponent :: "string \<Rightarrow> int option" where
  "parse_exponent s =
     (case s of
        [] \<Rightarrow> Some 0
      | c # cs \<Rightarrow>
          if c = CHR ''e'' \<or> c = CHR ''E''
          then (case split_sign cs of
                  (negative, ds) \<Rightarrow>
                    if \<not> all_digits ds then None
                    else Some (if negative then - int (digits_value 0 ds) else int (digits_value 0 ds)))
          else None)"

text \<open>\<open>parse::<f64>\<close> followed by \<open>Number::from_f64\<close>: the words for infinity and for NaN, and what
  overflows, give no number.\<close>

definition parse_finite_f64 :: "string \<Rightarrow> dyadic option" where
  "parse_finite_f64 s =
     (case split_sign s of
        (negative, rest) \<Rightarrow>
          (let whole = takeWhile is_ascii_digit rest;
               rest1 = dropWhile is_ascii_digit rest;
               (frac, rest2) = (case rest1 of
                                  [] \<Rightarrow> ([], [])
                                | c # cs \<Rightarrow> if c = CHR ''.'' then (takeWhile is_ascii_digit cs, dropWhile is_ascii_digit cs)
                                            else ([], rest1))
           in if whole @ frac = [] then None
              else (case parse_exponent rest2 of
                      None \<Rightarrow> None
                    | Some x \<Rightarrow>
                        (let d = digits_value 0 (whole @ frac); p = x - int (length frac)
                         in if p \<ge> 0 then signed_f64 negative (d * 10 ^ nat p) 1
                            else signed_f64 negative d (10 ^ nat (- p))))))"

subsection \<open>Printing and reading back\<close>

definition show_int :: "int \<Rightarrow> string" where
  "show_int i = (if i < 0 then CHR ''-'' # show_nat (nat (- i)) else show_nat (nat i))"

lemma digits_value_append: "digits_value a (s @ t) = digits_value (digits_value a s) t"
  by (induction s arbitrary: a) auto

lemma of_char_digit: "n < 10 \<Longrightarrow> of_char (char_of (48 + n) :: char) = (48 + n :: nat)"
  by (simp add: of_char_of take_bit_eq_mod)

lemma digits_value_show_nat: "digits_value 0 (show_nat n) = n"
proof (induction n rule: less_induct)
  case (less n)
  show ?case
  proof (cases "n < 10")
    case True
    then show ?thesis by (subst show_nat.simps) (simp add: of_char_digit)
  next
    case False
    then have "digits_value 0 (show_nat (n div 10)) = n div 10" by (intro less) simp
    with False show ?thesis
      by (subst show_nat.simps) (simp add: digits_value_append of_char_digit)
  qed
qed

lemma all_digits_show_nat: "all_digits (show_nat n)"
proof (induction n rule: less_induct)
  case (less n)
  have d: "m < 10 \<Longrightarrow> is_ascii_digit (char_of (48 + m :: nat))" for m
    by (simp add: is_ascii_digit_def of_char_digit)
  show ?case
  proof (cases "n < 10")
    case True
    then show ?thesis by (subst show_nat.simps) (simp add: all_digits_def d)
  next
    case False
    then have "all_digits (show_nat (n div 10))" by (intro less) simp
    with False show ?thesis by (subst show_nat.simps) (simp add: all_digits_def d)
  qed
qed

lemma split_sign_digits: "all_digits s \<Longrightarrow> split_sign s = (False, s)"
  by (cases s) (auto simp: all_digits_def split_sign_def is_ascii_digit_def)

lemma parse_show_int: "i64_fits i \<Longrightarrow> parse_i64 (show_int i) = Some i"
  using all_digits_show_nat [of "nat (- i)"] split_sign_digits [OF all_digits_show_nat [of "nat i"]]
  by (auto simp: parse_i64_def show_int_def digits_value_show_nat all_digits_show_nat split_sign_def)

lemma number_of_int_i64: "i64_fits i \<Longrightarrow> as_i64 (number_of_int i) = Some i"
  by (simp add: number_of_int_def)

end
