(* ===== verification/ConfigStore.thy ===== *)
theory ConfigStore
  imports Floats
begin

section \<open>The configuration: stores, lookups and writes\<close>

text \<open>
  \<open>src/src/config.rs\<close>. A \<open>Config\<close> keeps the as-written document (\<open>user_namespaces\<close>) beside typed
  structs for the executor and observability sections; the typed structs win for the leaves they model.
  The registry of namespaces, the global environment map and the table of claimed variables are process
  globals and are passed explicitly. Here are the tables, the paths, the reconciled views, the lookups
  with their tiers of defaults, \<open>set\<close>, mounts and namespaces; loading, environment overrides and
  validation are in the theories that follow. Error texts that other crates produce are not modelled.
\<close>

subsection \<open>Tables\<close>

datatype config_mode = Legacy | Namespace

definition default_max_depth :: nat where
  "default_max_depth = 5"

definition env_config_file :: string where
  "env_config_file = ''APCORE_CONFIG_FILE''"

datatype env_style = Nested | Flat | Auto

record namespace_registration =
  nr_name :: string
  nr_env_prefix :: "string option"
  nr_defaults :: "json option"
  nr_schema :: "json option"
  nr_env_style :: env_style
  nr_max_depth :: nat
  nr_env_map :: "(string \<times> string) list option"

text \<open>The process globals: registered namespaces, the global environment map, and who claimed which
  variable.\<close>

record config_globals =
  cg_registry :: "(string \<times> namespace_registration) list"
  cg_env_map :: "(string \<times> string) list"
  cg_claimed :: "(string \<times> string) list"

definition globals_new :: config_globals where
  "globals_new = \<lparr>cg_registry = [], cg_env_map = [], cg_claimed = []\<rparr>"

definition reserved_namespaces :: "string list" where
  "reserved_namespaces = [''apcore'', ''_config'']"

definition observability_ns :: string where
  "observability_ns = ''observability''"

definition executor_ns :: string where
  "executor_ns = ''executor''"

definition typed_sections :: "string list" where
  "typed_sections = [executor_ns, observability_ns]"

definition framework_config_keys :: "string list" where
  "framework_config_keys =
     [''$schema'', ''_config.allow_unknown'', ''_config.strict'', ''acl.audit.enabled'',
      ''acl.audit.include_denied'', ''acl.audit.log_level'', ''acl.default_effect'', ''acl.root'',
      ''bindings.dir'', ''bindings.pattern'', ''executor.default_timeout'', ''executor.global_timeout'',
      ''executor.max_call_depth'', ''executor.max_module_repeat'', ''extensions.auto_discover'',
      ''extensions.follow_symlinks'', ''extensions.ignore_patterns'', ''extensions.lazy_load'',
      ''extensions.max_depth'', ''extensions.namespace'', ''extensions.root'', ''extensions.roots'',
      ''id_map.auto_detect'', ''id_map.overrides'', ''logging.format'', ''logging.level'',
      ''middleware.disabled'', ''obs.redaction.regex_patterns'', ''obs.redaction.replacement'',
      ''obs.redaction.sensitive_keys'', ''observability.metrics.enabled'',
      ''observability.metrics.exporter'', ''observability.tracing.enabled'',
      ''observability.tracing.exporter'', ''observability.tracing.otlp_endpoint'',
      ''observability.tracing.sampling_rate'', ''observability.tracing.strategy'', ''pipeline.configure'',
      ''pipeline.remove'', ''pipeline.steps'', ''project.name'', ''project.version'',
      ''schema.max_ref_depth'', ''schema.root'', ''schema.strategy'', ''stream.max_merge_depth'',
      ''sys_modules.control.enabled'', ''sys_modules.control.overrides_path'', ''sys_modules.enabled'',
      ''sys_modules.error_history.max_entries_per_module'', ''sys_modules.error_history.max_total_entries'',
      ''sys_modules.events.enabled'', ''sys_modules.events.subscribers'',
      ''sys_modules.events.thresholds.error_rate'', ''sys_modules.events.thresholds.latency_p99_ms'',
      ''sys_modules.health.enabled'', ''sys_modules.manifest.enabled'',
      ''sys_modules.usage.bucketing_strategy'', ''sys_modules.usage.enabled'',
      ''sys_modules.usage.retention_hours'', ''validation.binding.description_max_length'',
      ''validation.binding.documentation_max_length'', ''validation.binding.tags_pattern'',
      ''validation.binding.version_require_semver'', ''validation.pipeline.step_name_max_length'',
      ''validation.pipeline.timeout_ms_max'', ''version'']"

definition is_declared_prefix :: "string \<Rightarrow> bool" where
  "is_declared_prefix path \<longleftrightarrow> (\<exists>k \<in> set framework_config_keys. k = path \<or> prefix (path @ ''.'') k)"

definition is_declared_container :: "string \<Rightarrow> bool" where
  "is_declared_container path \<longleftrightarrow> (\<exists>k \<in> set framework_config_keys. prefix (path @ ''.'') k)"

definition is_framework_section :: "string \<Rightarrow> bool" where
  "is_framework_section name \<longleftrightarrow>
     (\<exists>k \<in> set framework_config_keys. hd (split_on CHR ''.'' k) = name \<and> CHR ''.'' \<in> set k)"

datatype default_value = StrDefault string | BoolDefault bool | IntDefault int

fun default_json :: "default_value \<Rightarrow> json" where
  "default_json (StrDefault s) = JString s"
| "default_json (BoolDefault b) = JBool b"
| "default_json (IntDefault i) = number_of_int i"

definition constrained_config_keys :: "string list" where
  "constrained_config_keys =
     [''acl.default_effect'', ''observability.tracing.sampling_rate'', ''observability.tracing.strategy'',
      ''observability.tracing.exporter'', ''observability.tracing.otlp_endpoint'',
      ''sys_modules.events.thresholds.error_rate'', ''sys_modules.events.thresholds.latency_p99_ms'',
      ''extensions.max_depth'', ''executor.default_timeout'', ''executor.global_timeout'',
      ''executor.max_call_depth'', ''executor.max_module_repeat'',
      ''sys_modules.error_history.max_entries_per_module'', ''sys_modules.error_history.max_total_entries'']"

definition path_typed_config_keys :: "string list" where
  "path_typed_config_keys =
     [''acl.root'', ''bindings.dir'', ''extensions.root'', ''extensions.roots[]'', ''id_map.overrides'',
      ''schema.root'', ''sys_modules.control.overrides_path'']"

definition deprecated_inert_keys :: "string list" where
  "deprecated_inert_keys =
     [''acl.default_effect'', ''observability.metrics.enabled'', ''observability.metrics.exporter'',
      ''logging.level'', ''logging.format'', ''acl.audit.enabled'', ''acl.audit.include_denied'',
      ''acl.audit.log_level'', ''middleware.disabled'', ''extensions.auto_discover'']"

definition config_defaults :: "(string \<times> default_value) list" where
  "config_defaults =
     [(''extensions.root'', StrDefault ''./extensions''), (''extensions.auto_discover'', BoolDefault True),
      (''extensions.max_depth'', IntDefault 8), (''extensions.follow_symlinks'', BoolDefault False),
      (''schema.root'', StrDefault ''./schemas''), (''schema.strategy'', StrDefault ''yaml_first''),
      (''schema.max_ref_depth'', IntDefault 32), (''acl.root'', StrDefault ''./acl''),
      (''acl.default_effect'', StrDefault ''deny''), (''sys_modules.enabled'', BoolDefault False),
      (''stream.max_merge_depth'', IntDefault 32), (''bindings.dir'', StrDefault ''./bindings''),
      (''validation.binding.version_require_semver'', BoolDefault False),
      (''bindings.pattern'', StrDefault ''*.binding.yaml'')]"

definition config_default_keys :: "string list" where
  "config_default_keys = map fst config_defaults"

subsection \<open>State\<close>

record executor_config =
  xc_default_timeout :: nat
  xc_global_timeout :: nat
  xc_max_call_depth :: nat
  xc_max_module_repeat :: nat

definition executor_config_default :: executor_config where
  "executor_config_default =
     \<lparr>xc_default_timeout = 30000, xc_global_timeout = 60000, xc_max_call_depth = 32, xc_max_module_repeat = 3\<rparr>"

record tracing_config =
  tc_enabled :: bool
  tc_sampling_rate :: dyadic
  tc_exporter :: string
  tc_strategy :: string
  tc_otlp_endpoint :: "string option"

definition tracing_config_default :: tracing_config where
  "tracing_config_default =
     \<lparr>tc_enabled = False, tc_sampling_rate = (1, 0), tc_exporter = ''stdout'', tc_strategy = ''full'',
      tc_otlp_endpoint = None\<rparr>"

record metrics_config =
  mc_enabled :: bool

record observability_config =
  oc_tracing :: tracing_config
  oc_metrics :: metrics_config

definition observability_config_default :: observability_config where
  "observability_config_default = \<lparr>oc_tracing = tracing_config_default, oc_metrics = \<lparr>mc_enabled = False\<rparr>\<rparr>"

record app_config =
  cf_modules_path :: "string option"
  cf_executor :: executor_config
  cf_observability :: observability_config
  cf_user_namespaces :: "(string \<times> json) list"
  cf_yaml_path :: "string option"
  cf_mode :: config_mode
  cf_generation :: nat
  cf_mounts :: "(string \<times> json) list"

definition app_config_default :: app_config where
  "app_config_default =
     \<lparr>cf_modules_path = None, cf_executor = executor_config_default,
      cf_observability = observability_config_default, cf_user_namespaces = [], cf_yaml_path = None,
      cf_mode = Legacy, cf_generation = 0, cf_mounts = []\<rparr>"

subsection \<open>Paths through documents\<close>

fun walk_parts :: "json \<Rightarrow> string list \<Rightarrow> json option" where
  "walk_parts v [] = Some v"
| "walk_parts v (p # ps) =
     (case as_object v of
        None \<Rightarrow> None
      | Some es \<Rightarrow> (case bt_get es p of None \<Rightarrow> None | Some w \<Rightarrow> walk_parts w ps))"

text \<open>Lookup of a path that starts at a top-level key.\<close>

fun get_path :: "(string \<times> json) list \<Rightarrow> string list \<Rightarrow> json option" where
  "get_path m [] = None"
| "get_path m (p # ps) = (case bt_get m p of None \<Rightarrow> None | Some v \<Rightarrow> walk_parts v ps)"

text \<open>Insertion at a path: missing containers are created, and a value that is in the way of one is
  replaced by an empty object.\<close>

fun put_path :: "string list \<Rightarrow> json \<Rightarrow> (string \<times> json) list \<Rightarrow> (string \<times> json) list" where
  "put_path [] v m = m"
| "put_path [p] v m = bt_insert p v m"
| "put_path (p # q # ps) v m =
     bt_insert p
       (JObject (put_path (q # ps) v (case Option.bind (bt_get m p) as_object of None \<Rightarrow> [] | Some es \<Rightarrow> es))) m"

definition strip_namespace :: "string \<Rightarrow> string \<Rightarrow> string option" where
  "strip_namespace key ns =
     (if prefix ns key
      then (let rest = drop (length ns) key
            in if rest = [] \<or> hd rest = CHR ''.'' then Some (dropWhile (\<lambda>c. c = CHR ''.'') rest) else None)
      else None)"

definition walk_view :: "json \<Rightarrow> string \<Rightarrow> json option" where
  "walk_view view rest = walk_parts view (filter (\<lambda>p. p \<noteq> []) (split_on CHR ''.'' rest))"

fun merge_into :: "(string \<times> json) list \<Rightarrow> (string \<times> json) list \<Rightarrow> (string \<times> json) list"
  and deep_merge :: "json \<Rightarrow> json \<Rightarrow> json" where
  "merge_into base [] = base"
| "merge_into base ((k, v) # overlay) =
     merge_into (bt_insert k (case bt_get base k of None \<Rightarrow> v | Some existing \<Rightarrow> deep_merge existing v) base) overlay"
| "deep_merge base v =
     (case v of
        JObject overlay \<Rightarrow> (case base of JObject es \<Rightarrow> JObject (merge_into es overlay) | _ \<Rightarrow> v)
      | _ \<Rightarrow> v)"

declare deep_merge.simps [simp del]

subsection \<open>Typed fields and reconciled views\<close>

text \<open>The keys with a typed field: the match arms shared by \<open>get_typed_field\<close> and
  \<open>set_typed_field\<close>.\<close>

datatype typed_key =
    MaxCallDepth | MaxModuleRepeat | DefaultTimeout | GlobalTimeout | TracingEnabled | SamplingRate | Exporter
  | SamplingStrategy | OtlpEndpoint | MetricsEnabled | ModulesPath

definition typed_keys :: "(string \<times> typed_key) list" where
  "typed_keys =
     [(''executor.max_call_depth'', MaxCallDepth), (''executor.max_module_repeat'', MaxModuleRepeat),
      (''executor.default_timeout'', DefaultTimeout), (''executor.global_timeout'', GlobalTimeout),
      (''observability.tracing.enabled'', TracingEnabled),
      (''observability.tracing.sampling_rate'', SamplingRate), (''observability.tracing.exporter'', Exporter),
      (''observability.tracing.strategy'', SamplingStrategy),
      (''observability.tracing.otlp_endpoint'', OtlpEndpoint), (''observability.metrics.enabled'', MetricsEnabled),
      (''modules_path'', ModulesPath)]"

definition number_json :: "nat \<Rightarrow> json" where
  "number_json n = JNumber (PosInt n)"

definition opt_string_json :: "string option \<Rightarrow> json" where
  "opt_string_json v = (case v of None \<Rightarrow> JNull | Some s \<Rightarrow> JString s)"

fun read_typed :: "typed_key \<Rightarrow> app_config \<Rightarrow> json option" where
  "read_typed MaxCallDepth c = Some (number_json (xc_max_call_depth (cf_executor c)))"
| "read_typed MaxModuleRepeat c = Some (number_json (xc_max_module_repeat (cf_executor c)))"
| "read_typed DefaultTimeout c = Some (number_json (xc_default_timeout (cf_executor c)))"
| "read_typed GlobalTimeout c = Some (number_json (xc_global_timeout (cf_executor c)))"
| "read_typed TracingEnabled c = Some (JBool (tc_enabled (oc_tracing (cf_observability c))))"
| "read_typed SamplingRate c = Some (number_of_f64 (tc_sampling_rate (oc_tracing (cf_observability c))))"
| "read_typed Exporter c = Some (JString (tc_exporter (oc_tracing (cf_observability c))))"
| "read_typed SamplingStrategy c = Some (JString (tc_strategy (oc_tracing (cf_observability c))))"
| "read_typed OtlpEndpoint c = Some (opt_string_json (tc_otlp_endpoint (oc_tracing (cf_observability c))))"
| "read_typed MetricsEnabled c = Some (JBool (mc_enabled (oc_metrics (cf_observability c))))"
| "read_typed ModulesPath c = map_option JString (cf_modules_path c)"

definition get_typed_field :: "app_config \<Rightarrow> string \<Rightarrow> json option" where
  "get_typed_field c key = Option.bind (map_of typed_keys key) (\<lambda>k. read_typed k c)"

text \<open>The derived serializers; \<open>serde_json\<close> keeps keys in order.\<close>

definition executor_json :: "executor_config \<Rightarrow> json" where
  "executor_json x =
     JObject [(''default_timeout'', number_json (xc_default_timeout x)),
       (''global_timeout'', number_json (xc_global_timeout x)),
       (''max_call_depth'', number_json (xc_max_call_depth x)),
       (''max_module_repeat'', number_json (xc_max_module_repeat x))]"

definition tracing_json :: "tracing_config \<Rightarrow> json" where
  "tracing_json t =
     JObject [(''enabled'', JBool (tc_enabled t)), (''exporter'', JString (tc_exporter t)),
       (''otlp_endpoint'', opt_string_json (tc_otlp_endpoint t)),
       (''sampling_rate'', number_of_f64 (tc_sampling_rate t)), (''strategy'', JString (tc_strategy t))]"

definition observability_json :: "observability_config \<Rightarrow> json" where
  "observability_json o' =
     JObject [(''metrics'', JObject [(''enabled'', JBool (mc_enabled (oc_metrics o')))]),
       (''tracing'', tracing_json (oc_tracing o'))]"

definition typed_namespace_view :: "string \<Rightarrow> json \<Rightarrow> app_config \<Rightarrow> json" where
  "typed_namespace_view name typed c =
     deep_merge
       (case bt_get (cf_user_namespaces c) name of
          Some (JObject es) \<Rightarrow> JObject es
        | _ \<Rightarrow> JObject [])
       typed"

definition observability_view :: "app_config \<Rightarrow> json" where
  "observability_view c = typed_namespace_view observability_ns (observability_json (cf_observability c)) c"

definition executor_view :: "app_config \<Rightarrow> json" where
  "executor_view c = typed_namespace_view executor_ns (executor_json (cf_executor c)) c"

text \<open>The wire form: \<open>data()\<close>. The as-written entries come last and win, the two typed sections
  excepted.\<close>

definition config_data :: "app_config \<Rightarrow> json" where
  "config_data c =
     JObject (fold (\<lambda>(k, v) m. if k = observability_ns \<or> k = executor_ns then m else bt_insert k v m)
       (cf_user_namespaces c)
       (bt_insert observability_ns (observability_view c)
         (bt_insert executor_ns (executor_view c)
           (case cf_modules_path c of None \<Rightarrow> [] | Some p \<Rightarrow> [(''modules_path'', JString p)]))))"

subsection \<open>Lookups\<close>

text \<open>The longest registered name that is the key or a dotted prefix of it, and the rest.\<close>

definition match_registered_namespace :: "config_globals \<Rightarrow> string \<Rightarrow> (string \<times> string) option" where
  "match_registered_namespace g key =
     map_option (\<lambda>name. (name, if key = name then [] else drop (length name + 1) key))
       (find (\<lambda>name. key = name \<or> prefix (name @ ''.'') key)
         (sort_key (\<lambda>name. - int (length name)) (map fst (cg_registry g))))"

definition get_as_written :: "config_globals \<Rightarrow> app_config \<Rightarrow> string \<Rightarrow> json option" where
  "get_as_written g c key =
     (case match_registered_namespace g key of
        Some (name, rest) \<Rightarrow>
          (case bt_get (cf_user_namespaces c) name of
             None \<Rightarrow> None
           | Some entry \<Rightarrow> if rest = [] then Some entry else walk_parts entry (split_on CHR ''.'' rest))
      | None \<Rightarrow> get_path (cf_user_namespaces c) (split_on CHR ''.'' key))"

definition get_direct :: "config_globals \<Rightarrow> app_config \<Rightarrow> string \<Rightarrow> json option" where
  "get_direct g c key =
     (case get_typed_field c key of
        Some v \<Rightarrow> Some v
      | None \<Rightarrow>
          (case strip_namespace key observability_ns of
             Some rest \<Rightarrow>
               if bt_get (cf_user_namespaces c) observability_ns = None then None
               else walk_view (observability_view c) rest
           | None \<Rightarrow>
               (case strip_namespace key executor_ns of
                  Some rest \<Rightarrow> walk_view (executor_view c) rest
                | None \<Rightarrow> get_as_written g c key)))"

definition implicit_apcore :: "app_config \<Rightarrow> string \<Rightarrow> bool" where
  "implicit_apcore c key \<longleftrightarrow>
     cf_mode c = Namespace \<and> key \<noteq> ''apcore'' \<and> \<not> prefix ''apcore.'' key \<and>
     bt_get (cf_user_namespaces c) ''apcore'' \<noteq> None"

definition registered_namespace_default :: "config_globals \<Rightarrow> string \<Rightarrow> json option" where
  "registered_namespace_default g key =
     (case match_registered_namespace g key of
        None \<Rightarrow> None
      | Some (name, rest) \<Rightarrow>
          (case Option.bind (bt_get (cg_registry g) name) nr_defaults of
             None \<Rightarrow> None
           | Some d \<Rightarrow> if rest = [] then Some d else walk_parts d (split_on CHR ''.'' rest)))"

definition default_for :: "string \<Rightarrow> json option" where
  "default_for key = map_option default_json (map_of config_defaults key)"

definition get :: "config_globals \<Rightarrow> app_config \<Rightarrow> string \<Rightarrow> json option" where
  "get g c key =
     (case get_direct g c key of
        Some v \<Rightarrow> Some v
      | None \<Rightarrow>
          (case (if implicit_apcore c key then get_direct g c (''apcore.'' @ key) else None) of
             Some v \<Rightarrow> Some v
           | None \<Rightarrow>
               (case (if cf_mode c = Namespace then registered_namespace_default g key else None) of
                  Some v \<Rightarrow> Some v
                | None \<Rightarrow> default_for key)))"

definition get_declared :: "config_globals \<Rightarrow> app_config \<Rightarrow> string \<Rightarrow> json option" where
  "get_declared g c key =
     (case get_as_written g c key of
        Some v \<Rightarrow> Some v
      | None \<Rightarrow> if implicit_apcore c key then get_as_written g c (''apcore.'' @ key) else None)"

subsection \<open>Writes\<close>

text \<open>Writing a typed field: \<open>None\<close> when the value has the wrong type. The two counters are stored
  as \<open>u32\<close> by truncation.\<close>

definition update_tracing :: "(tracing_config \<Rightarrow> tracing_config) \<Rightarrow> app_config \<Rightarrow> app_config" where
  "update_tracing f c =
     c\<lparr>cf_observability := (cf_observability c)\<lparr>oc_tracing := f (oc_tracing (cf_observability c))\<rparr>\<rparr>"

fun write_typed :: "typed_key \<Rightarrow> json \<Rightarrow> app_config \<Rightarrow> app_config option" where
  "write_typed MaxCallDepth v c =
     map_option (\<lambda>n. c\<lparr>cf_executor := (cf_executor c)\<lparr>xc_max_call_depth := n mod 2 ^ 32\<rparr>\<rparr>) (as_u64 v)"
| "write_typed MaxModuleRepeat v c =
     map_option (\<lambda>n. c\<lparr>cf_executor := (cf_executor c)\<lparr>xc_max_module_repeat := n mod 2 ^ 32\<rparr>\<rparr>) (as_u64 v)"
| "write_typed DefaultTimeout v c =
     map_option (\<lambda>n. c\<lparr>cf_executor := (cf_executor c)\<lparr>xc_default_timeout := n\<rparr>\<rparr>) (as_u64 v)"
| "write_typed GlobalTimeout v c =
     map_option (\<lambda>n. c\<lparr>cf_executor := (cf_executor c)\<lparr>xc_global_timeout := n\<rparr>\<rparr>) (as_u64 v)"
| "write_typed TracingEnabled v c = map_option (\<lambda>b. update_tracing (\<lambda>t. t\<lparr>tc_enabled := b\<rparr>) c) (as_bool v)"
| "write_typed SamplingRate v c = map_option (\<lambda>x. update_tracing (\<lambda>t. t\<lparr>tc_sampling_rate := x\<rparr>) c) (as_f64 v)"
| "write_typed Exporter v c = map_option (\<lambda>s. update_tracing (\<lambda>t. t\<lparr>tc_exporter := s\<rparr>) c) (as_str v)"
| "write_typed SamplingStrategy v c = map_option (\<lambda>s. update_tracing (\<lambda>t. t\<lparr>tc_strategy := s\<rparr>) c) (as_str v)"
| "write_typed OtlpEndpoint v c =
     (if v = JNull then Some (update_tracing (\<lambda>t. t\<lparr>tc_otlp_endpoint := None\<rparr>) c)
      else map_option (\<lambda>s. update_tracing (\<lambda>t. t\<lparr>tc_otlp_endpoint := Some s\<rparr>) c) (as_str v))"
| "write_typed MetricsEnabled v c =
     map_option (\<lambda>b. c\<lparr>cf_observability := (cf_observability c)\<lparr>oc_metrics := \<lparr>mc_enabled = b\<rparr>\<rparr>\<rparr>) (as_bool v)"
| "write_typed ModulesPath v c = map_option (\<lambda>s. c\<lparr>cf_modules_path := Some s\<rparr>) (as_str v)"

definition set_typed_field :: "string \<Rightarrow> json \<Rightarrow> app_config \<Rightarrow> app_config option" where
  "set_typed_field key v c = Option.bind (map_of typed_keys key) (\<lambda>k. write_typed k v c)"

definition record_as_written :: "string \<Rightarrow> json \<Rightarrow> app_config \<Rightarrow> app_config" where
  "record_as_written key v c =
     c\<lparr>cf_user_namespaces := put_path (split_on CHR ''.'' key) v (cf_user_namespaces c)\<rparr>"

definition set_key :: "string \<Rightarrow> json \<Rightarrow> app_config \<Rightarrow> app_config" where
  "set_key key v c0 =
     (let c1 = c0\<lparr>cf_generation := (cf_generation c0 + 1) mod 2 ^ 64\<rparr>;
          c2 = (if prefix ''apcore.'' key
                then (case set_typed_field (drop 7 key) v c1 of None \<Rightarrow> c1 | Some c \<Rightarrow> c)
                else c1);
          c3 = (case set_typed_field key v c2 of None \<Rightarrow> c2 | Some c \<Rightarrow> c)
      in record_as_written key v c3)"

subsection \<open>Namespaces and mounts\<close>

definition config_mount_error :: "string \<Rightarrow> string \<Rightarrow> module_error" where
  "config_mount_error namespace reason =
     with_details (details_of [(''namespace'', JString namespace), (''reason'', JString reason)])
       (module_error_new ConfigMountError)"

definition config_bind_error :: "string \<Rightarrow> string \<Rightarrow> module_error" where
  "config_bind_error namespace reason =
     with_details (details_of [(''namespace'', JString namespace), (''reason'', JString reason)])
       (module_error_new ConfigBindError)"

definition apply_mount :: "string \<Rightarrow> (string \<times> json) list \<Rightarrow> app_config \<Rightarrow> app_config" where
  "apply_mount namespace data c =
     (let entry = (case bt_get (cf_user_namespaces c) namespace of None \<Rightarrow> JObject [] | Some v \<Rightarrow> v)
      in c\<lparr>cf_user_namespaces := bt_insert namespace
             (case entry of JObject es \<Rightarrow> JObject (merge_into es data) | _ \<Rightarrow> entry) (cf_user_namespaces c)\<rparr>)"

text \<open>A mount takes what its source resolved to: a document, or the error of reading the file.\<close>

definition mount :: "string \<Rightarrow> string + json \<Rightarrow> app_config \<Rightarrow> (module_error + unit) \<times> app_config" where
  "mount namespace source c0 =
     (let c = c0\<lparr>cf_generation := (cf_generation c0 + 1) mod 2 ^ 64\<rparr>
      in if namespace = ''_config''
         then (Inl (config_mount_error namespace
                 (''cannot mount to reserved namespace '' @ [CHR 0x27] @ ''_config'' @ [CHR 0x27])), c)
         else (case source of
                 Inl reason \<Rightarrow> (Inl (config_mount_error namespace reason), c)
               | Inr (JObject data) \<Rightarrow>
                   (let c' = apply_mount namespace data c
                    in (Inr (), c'\<lparr>cf_mounts := cf_mounts c' @ [(namespace, JObject data)]\<rparr>))
               | Inr _ \<Rightarrow> (Inl (config_mount_error namespace ''mount source must be a JSON object''), c)))"

definition namespace_map :: "config_globals \<Rightarrow> app_config \<Rightarrow> string \<Rightarrow> (string \<times> json) list" where
  "namespace_map g c name =
     (let defaults = (case Option.bind (Option.bind (bt_get (cg_registry g) name) nr_defaults) as_object of
                        None \<Rightarrow> [] | Some d \<Rightarrow> merge_into [] d);
          overlay = (if name = observability_ns then as_object (observability_view c)
                     else if name = executor_ns then as_object (executor_view c)
                     else Option.bind (bt_get (cf_user_namespaces c) name) as_object)
      in case overlay of None \<Rightarrow> defaults | Some es \<Rightarrow> merge_into defaults es)"

text \<open>What \<open>bind\<close> hands to the deserializer of the caller's type, and its errors.\<close>

definition bind_payload :: "config_globals \<Rightarrow> app_config \<Rightarrow> string \<Rightarrow> json" where
  "bind_payload g c namespace =
     (if namespace = executor_ns then executor_view c
      else if namespace = observability_ns then observability_view c
      else JObject (namespace_map g c namespace))"

definition bind_config ::
  "(json \<Rightarrow> string + 't) \<Rightarrow> config_globals \<Rightarrow> app_config \<Rightarrow> string \<Rightarrow> module_error + 't" where
  "bind_config deserialize g c namespace =
     (case deserialize (bind_payload g c namespace) of
        Inl reason \<Rightarrow> Inl (config_bind_error namespace reason)
      | Inr t \<Rightarrow> Inr t)"

definition get_typed ::
  "(json \<Rightarrow> string + 't) \<Rightarrow> config_globals \<Rightarrow> app_config \<Rightarrow> string \<Rightarrow> module_error + 't" where
  "get_typed deserialize g c key =
     (case get g c key of
        None \<Rightarrow> Inl (config_bind_error key ''key not found'')
      | Some v \<Rightarrow>
          (case deserialize v of
             Inl reason \<Rightarrow> Inl (config_bind_error key reason)
           | Inr t \<Rightarrow> Inr t))"

definition detect_mode :: "app_config \<Rightarrow> app_config" where
  "detect_mode c =
     c\<lparr>cf_mode := (case Option.bind (bt_get (cf_user_namespaces c) ''apcore'') as_object of
                     Some _ \<Rightarrow> Namespace | None \<Rightarrow> Legacy)\<rparr>"

subsection \<open>Laws of the stores\<close>

text \<open>What is written at a path is read there and below it; paths that are apart do not see it. The
  interface that the lookups rely on, and its instance, the as-written document.\<close>

locale path_store =
  fixes put :: "'p list \<Rightarrow> 'v \<Rightarrow> 's \<Rightarrow> 's"
    and look :: "'s \<Rightarrow> 'p list \<Rightarrow> 'v option"
    and inside :: "'v \<Rightarrow> 'p list \<Rightarrow> 'v option"
  assumes look_below: "p \<noteq> [] \<Longrightarrow> look (put p v s) (p @ q) = inside v q"
    and look_apart: "\<not> prefix p q \<Longrightarrow> \<not> prefix q p \<Longrightarrow> look (put p v s) q = look s q"
    and inside_Nil: "inside v [] = Some v"
begin

lemma look_same: "p \<noteq> [] \<Longrightarrow> look (put p v s) p = Some v"
  using look_below [of p v s "[]"] by (simp add: inside_Nil)

lemma look_fold_apart:
  "(\<And>p v. (p, v) \<in> set ws \<Longrightarrow> \<not> prefix p q \<and> \<not> prefix q p) \<Longrightarrow> look (fold (\<lambda>(p, v). put p v) ws s) q = look s q"
proof (induction ws arbitrary: s)
  case (Cons w ws)
  obtain p v where w: "w = (p, v)" by (cases w)
  have "look (fold (\<lambda>(p, v). put p v) ws (put p v s)) q = look (put p v s) q"
    using Cons.prems by (intro Cons.IH) auto
  moreover have "look (put p v s) q = look s q"
    using Cons.prems [of p v] w by (intro look_apart) auto
  ultimately show ?case by (simp add: w)
qed simp

end

lemma walk_parts_get_path: "ps \<noteq> [] \<Longrightarrow> walk_parts (JObject es) ps = get_path es ps"
  by (cases ps) auto

lemma get_path_insert:
  "get_path (bt_insert k v m) (p # ps) = (if p = k then walk_parts v ps else get_path m (p # ps))"
  by (simp add: bt_get_insert_any)

lemma put_path_below: "p \<noteq> [] \<Longrightarrow> get_path (put_path p v m) (p @ q) = walk_parts v q"
proof (induction p v m rule: put_path.induct)
  case (3 p p' ps v m)
  then show ?case by (simp add: get_path_insert walk_parts_get_path del: get_path.simps walk_parts.simps)
qed (simp_all add: bt_get_insert_any)

lemma get_path_object:
  "get_path (case Option.bind (bt_get m p) as_object of None \<Rightarrow> [] | Some es \<Rightarrow> es) (r # rs) = get_path m (p # r # rs)"
  by (cases "bt_get m p") (auto simp: bt_get_Nil split: option.splits)

lemma put_path_apart:
  "\<not> prefix p q \<Longrightarrow> \<not> prefix q p \<Longrightarrow> get_path (put_path p v m) q = get_path m q"
proof (induction p v m arbitrary: q rule: put_path.induct)
  case (2 p v m)
  then show ?case by (cases q) (auto simp: get_path_insert simp del: get_path.simps(2))
next
  case (3 p p' ps v m)
  from 3 obtain r rs where q: "q = r # rs" by (cases q) auto
  show ?case
  proof (cases "r = p")
    case False
    with q show ?thesis by (simp add: get_path_insert del: get_path.simps)
  next
    case True
    with 3 q have apart: "\<not> prefix (p' # ps) rs" "\<not> prefix rs (p' # ps)" by auto
    then obtain s ss where rs: "rs = s # ss" by (cases rs) auto
    from 3 apart have "get_path (put_path (p' # ps) v (case Option.bind (bt_get m p) as_object of None \<Rightarrow> [] | Some es \<Rightarrow> es)) rs
        = get_path (case Option.bind (bt_get m p) as_object of None \<Rightarrow> [] | Some es \<Rightarrow> es) rs" by blast
    with q rs True show ?thesis
      by (simp add: get_path_insert walk_parts_get_path get_path_object del: get_path.simps walk_parts.simps)
  qed
qed simp

interpretation doc: path_store put_path get_path walk_parts
  by unfold_locales (simp_all add: put_path_below put_path_apart)

lemma split_on_append: "c \<notin> set s \<Longrightarrow> split_on c (s @ c # t) = s # split_on c t"
  by (induction s) auto

lemma split_join: "ps \<noteq> [] \<Longrightarrow> \<forall>p \<in> set ps. c \<notin> set p \<Longrightarrow> split_on c (join_with [c] ps) = ps"
proof (induction ps rule: induct_list012)
  case (3 x y zs)
  then show ?case by (simp add: split_on_append)
qed (simp_all add: split_on_no_sep)

abbreviation segs :: "string \<Rightarrow> string list" where
  "segs key \<equiv> split_on CHR ''.'' key"

definition key_ok :: "string \<Rightarrow> bool" where
  "key_ok key \<longleftrightarrow> [] \<notin> set (segs key)"

text \<open>Whether no registered name contains a dot.\<close>

definition dotless :: "config_globals \<Rightarrow> bool" where
  "dotless g \<longleftrightarrow> (\<forall>name \<in> fst ` set (cg_registry g). CHR ''.'' \<notin> set name)"

lemma find_Some_member: "find P xs = Some x \<Longrightarrow> x \<in> set xs \<and> P x"
  by (induction xs) (auto split: if_splits)

lemma match_registered_Some:
  assumes "match_registered_namespace g key = Some (name, rest)" and "dotless g" and "key_ok key"
  shows "segs key = (if rest = [] then [name] else name # segs rest)"
proof -
  from assms(1) have f: "find (\<lambda>name. key = name \<or> prefix (name @ ''.'') key)
      (sort_key (\<lambda>name. - int (length name)) (map fst (cg_registry g))) = Some name"
    and r: "rest = (if key = name then [] else drop (length name + 1) key)"
    by (auto simp: match_registered_namespace_def)
  from f have "name \<in> fst ` set (cg_registry g)" and k: "key = name \<or> prefix (name @ ''.'') key"
    by (auto dest!: find_Some_member)
  then have d: "CHR ''.'' \<notin> set name" using assms(2) by (auto simp: dotless_def)
  from k show ?thesis
  proof
    assume "key = name"
    with d r show ?thesis by (simp add: split_on_no_sep)
  next
    assume "prefix (name @ ''.'') key"
    then obtain t where t: "key = name @ CHR ''.'' # t" by (auto elim: prefixE)
    then have s: "segs key = name # segs t" using d by (simp add: split_on_append)
    with assms(3) have "t \<noteq> []" by (auto simp: key_ok_def)
    with s t r show ?thesis by simp
  qed
qed

lemma as_written_path:
  assumes "dotless g" and "key_ok key"
  shows "get_as_written g c key = get_path (cf_user_namespaces c) (segs key)"
proof (cases "match_registered_namespace g key")
  case None
  then show ?thesis by (simp add: get_as_written_def)
next
  case (Some x)
  obtain name rest where x: "x = (name, rest)" by (cases x)
  show ?thesis
    using match_registered_Some [OF _ assms] Some x by (auto simp: get_as_written_def split: option.splits)
qed

subsection \<open>Merging\<close>

lemma deep_merge_scalar: "as_object v = None \<Longrightarrow> deep_merge b v = v"
  by (cases v) (simp_all add: deep_merge.simps)

lemma deep_merge_over_scalar: "as_object b = None \<Longrightarrow> deep_merge b v = v"
  by (cases v; cases b) (simp_all add: deep_merge.simps)

lemma deep_merge_objects [simp]: "deep_merge (JObject es) (JObject ds) = JObject (merge_into es ds)"
  by (simp add: deep_merge.simps)

lemma merge_lookup:
  "distinct (map fst ds) \<Longrightarrow>
     bt_get (merge_into es ds) k =
       (case bt_get ds k of
          None \<Rightarrow> bt_get es k
        | Some v \<Rightarrow> Some (case bt_get es k of None \<Rightarrow> v | Some w \<Rightarrow> deep_merge w v))"
proof (induction ds arbitrary: es)
  case (Cons e ds)
  obtain k' v where e: "e = (k', v)" by (cases e)
  with Cons.prems have "bt_get ds k' = None" by (auto simp: bt_get_None_iff image_iff)
  then show ?case
    using Cons by (auto simp: e bt_get_Cons bt_get_insert_any split: option.splits)
qed simp

text \<open>A scalar of the overlay is read through the merge, whatever is below it.\<close>

lemma overlay_leaf:
  assumes "walk_parts v ps = Some x" and "as_object x = None" and "json_ok v"
  shows "walk_parts (deep_merge b v) ps = Some x"
  using assms
proof (induction ps arbitrary: v b)
  case Nil
  then show ?case by (simp add: deep_merge_scalar)
next
  case (Cons p ps)
  then obtain ds w where v: "v = JObject ds" "bt_get ds p = Some w" "walk_parts w ps = Some x"
    by (cases v) (auto split: option.splits)
  have ok: "json_ok w" "distinct (map fst ds)"
    using Cons.prems(3) v bt_get_entry [of ds p w] by (auto simp: list_all_iff bt_ok_distinct)
  show ?case
  proof (cases "as_object b")
    case None
    with Cons.prems show ?thesis by (simp add: deep_merge_over_scalar)
  next
    case (Some es)
    then have b: "b = JObject es" by (cases b) auto
    with v ok Cons.IH [OF v(3) Cons.prems(2) ok(1)] v(3) show ?thesis
      by (auto simp: merge_lookup split: option.splits)
  qed
qed

subsection \<open>Typed sections\<close>

definition typed_json :: "string \<Rightarrow> app_config \<Rightarrow> json" where
  "typed_json ns c = (if ns = executor_ns then executor_json (cf_executor c) else observability_json (cf_observability c))"

definition section_view :: "string \<Rightarrow> app_config \<Rightarrow> json" where
  "section_view ns c = (if ns = executor_ns then executor_view c else observability_view c)"

lemmas typed_json_defs = typed_json_def executor_json_def observability_json_def tracing_json_def number_json_def
  number_of_f64_def opt_string_json_def executor_ns_def observability_ns_def

lemma typed_key_orders:
  "sorted_wrt (<) [''default_timeout'', ''global_timeout'', ''max_call_depth'', ''max_module_repeat'']"
  "sorted_wrt (<) [''enabled'', ''exporter'', ''otlp_endpoint'', ''sampling_rate'', ''strategy'']"
  "sorted_wrt (<) [''metrics'', ''tracing'']" "sorted_wrt (<) [''enabled'']"
  by code_simp+

lemma typed_json_ok: "json_ok (typed_json ns c)"
  using typed_key_orders
  by (simp add: typed_json_defs bt_ok_def del: sorted_wrt.simps split: option.splits)

lemma typed_view_merge: "\<exists>es. typed_namespace_view ns typed c = deep_merge (JObject es) typed"
  unfolding typed_namespace_view_def by (auto split: option.split json.split)

lemma section_view_merge:
  "ns \<in> {executor_ns, observability_ns} \<Longrightarrow>
     \<exists>es. section_view ns c = deep_merge (JObject es) (typed_json ns c)"
  using typed_view_merge [of executor_ns "executor_json (cf_executor c)" c]
    typed_view_merge [of observability_ns "observability_json (cf_observability c)" c]
  by (simp add: section_view_def typed_json_def executor_view_def observability_view_def)

text \<open>Where a typed field lives.\<close>

fun place :: "typed_key \<Rightarrow> string list" where
  "place MaxCallDepth = [''executor'', ''max_call_depth'']"
| "place MaxModuleRepeat = [''executor'', ''max_module_repeat'']"
| "place DefaultTimeout = [''executor'', ''default_timeout'']"
| "place GlobalTimeout = [''executor'', ''global_timeout'']"
| "place TracingEnabled = [''observability'', ''tracing'', ''enabled'']"
| "place SamplingRate = [''observability'', ''tracing'', ''sampling_rate'']"
| "place Exporter = [''observability'', ''tracing'', ''exporter'']"
| "place SamplingStrategy = [''observability'', ''tracing'', ''strategy'']"
| "place OtlpEndpoint = [''observability'', ''tracing'', ''otlp_endpoint'']"
| "place MetricsEnabled = [''observability'', ''metrics'', ''enabled'']"
| "place ModulesPath = [''modules_path'']"

lemma typed_keys_places: "list_all (\<lambda>(key, k). segs key = place k) typed_keys"
  unfolding typed_keys_def by simp

lemma typed_key_segs: "map_of typed_keys key = Some k \<Longrightarrow> segs key = place k"
  using typed_keys_places map_of_SomeD [of typed_keys key k] by (auto simp: list_all_iff)

text \<open>A typed field is what the reconciled view of its section holds at its place.\<close>

lemma typed_field_in_json:
  assumes "ns \<in> {executor_ns, observability_ns}" and "segs key = ns # ps" and "get_typed_field c key = Some x"
  shows "walk_parts (typed_json ns c) ps = Some x \<and> as_object x = None"
proof -
  from assms(3) obtain k where k: "map_of typed_keys key = Some k" "read_typed k c = Some x"
    by (auto simp: get_typed_field_def bind_eq_Some_conv)
  have "place k = ns # ps" using typed_key_segs [OF k(1)] assms(2) by simp
  with k(2) assms(1) show ?thesis
    by (cases k) (auto simp: typed_json_defs bt_get_Cons split: option.splits)
qed

lemma typed_field_in_view:
  assumes "ns \<in> {executor_ns, observability_ns}" and "segs key = ns # ps" and "get_typed_field c key = Some x"
  shows "walk_parts (section_view ns c) ps = Some x"
proof -
  obtain es where es: "section_view ns c = deep_merge (JObject es) (typed_json ns c)"
    using section_view_merge [OF assms(1)] by blast
  show ?thesis
    using typed_field_in_json [OF assms] overlay_leaf [OF _ _ typed_json_ok] by (auto simp: es)
qed

lemma key_of_segs: "key = join_with ''.'' (segs key)"
  by (simp add: join_split_on)

lemma walk_view_section:
  assumes "segs key = ns # ps" and "key_ok key"
  shows "\<exists>rest. strip_namespace key ns = Some rest \<and> (\<forall>v. walk_view v rest = walk_parts v ps)"
proof -
  have seg: "[] \<notin> set ps" "\<forall>p \<in> set ps. CHR ''.'' \<notin> set p"
    using assms split_on_sep_free [of _ "CHR ''.''" key] by (auto simp: key_ok_def)
  have k: "key = join_with ''.'' (ns # ps)" using key_of_segs [of key] assms(1) by simp
  show ?thesis
  proof (cases ps)
    case Nil
    with k show ?thesis by (simp add: strip_namespace_def walk_view_def)
  next
    case (Cons p ps')
    let ?rest = "join_with ''.'' ps"
    have "segs ?rest = ps" using seg Cons by (intro split_join) auto
    have w: "walk_view v ?rest = walk_parts v ps" for v
    proof -
      have "filter (\<lambda>p. p \<noteq> []) ps = ps" using seg(1) by (auto simp: filter_id_conv)
      then show ?thesis using \<open>segs ?rest = ps\<close> by (simp add: walk_view_def)
    qed
    have "p \<noteq> []" "CHR ''.'' \<notin> set p" using seg Cons by auto
    then have "hd ?rest \<noteq> CHR ''.''" "?rest \<noteq> []"
      using Cons by (cases p; cases ps'; auto)+
    then have "dropWhile (\<lambda>c. c = CHR ''.'') ?rest = ?rest" by (cases ?rest) auto
    with w k Cons show ?thesis by (auto simp: strip_namespace_def)
  qed
qed

lemma strip_other:
  "segs key = executor_ns # ps \<Longrightarrow> strip_namespace key observability_ns = None"
proof -
  assume "segs key = executor_ns # ps"
  then have "key = join_with ''.'' (executor_ns # ps)" using key_of_segs [of key] by simp
  then show ?thesis
    by (cases ps) (auto simp: executor_ns_def observability_ns_def strip_namespace_def)
qed

lemma get_direct_section:
  assumes ns: "ns \<in> {executor_ns, observability_ns}" and key: "segs key = ns # ps" and ok: "key_ok key"
  shows "get_direct g c key =
     (if get_typed_field c key = None \<and> ns = observability_ns \<and> bt_get (cf_user_namespaces c) observability_ns = None
      then None else walk_parts (section_view ns c) ps)"
proof (cases "get_typed_field c key")
  case (Some x)
  with typed_field_in_view [OF ns key Some] show ?thesis by (simp add: get_direct_def)
next
  case None
  obtain rest where r: "strip_namespace key ns = Some rest" "\<And>v. walk_view v rest = walk_parts v ps"
    using walk_view_section [OF key ok] by blast
  show ?thesis
  proof (cases "ns = executor_ns")
    case True
    with None r strip_other [of key ps] key show ?thesis
      by (simp add: get_direct_def section_view_def executor_ns_def observability_ns_def)
  next
    case False
    with ns None r show ?thesis by (simp add: get_direct_def section_view_def)
  qed
qed

lemma walk_parts_append: "walk_parts v (ps @ qs) = Option.bind (walk_parts v ps) (\<lambda>w. walk_parts w qs)"
  by (induction ps arbitrary: v) (auto split: option.splits)

lemma walk_scalar: "as_object x = None \<Longrightarrow> qs \<noteq> [] \<Longrightarrow> walk_parts x qs = None"
  by (cases qs) auto

lemma extended_key:
  assumes "key_ok key" and "qs \<noteq> []" and "\<forall>q \<in> set qs. q \<noteq> [] \<and> CHR ''.'' \<notin> set q"
  shows "segs (join_with ''.'' (segs key @ qs)) = segs key @ qs" and "key_ok (join_with ''.'' (segs key @ qs))"
proof -
  show s: "segs (join_with ''.'' (segs key @ qs)) = segs key @ qs"
    using assms(3) split_on_sep_free [of _ "CHR ''.''" key] by (intro split_join) auto
  show "key_ok (join_with ''.'' (segs key @ qs))"
    using assms s by (auto simp: key_ok_def)
qed

lemma direct_below_container:
  assumes "segs key = ns # ps" and "ns \<in> {executor_ns, observability_ns}" and "key_ok key"
    and "get_direct g c key = Some v"
    and "qs \<noteq> []" and "\<forall>q \<in> set qs. q \<noteq> [] \<and> CHR ''.'' \<notin> set q"
  shows "get_direct g c (join_with ''.'' (segs key @ qs)) = walk_parts v qs"
proof -
  let ?leaf = "join_with ''.'' (segs key @ qs)"
  have leaf: "segs ?leaf = ns # (ps @ qs)" "key_ok ?leaf"
    using extended_key [OF assms(3,5,6)] assms(1) by simp_all
  have v: "walk_parts (section_view ns c) ps = Some v"
    using assms(4) get_direct_section [OF assms(2,1,3), of g c] by (auto split: if_splits)
  then have w: "walk_parts (section_view ns c) (ps @ qs) = walk_parts v qs"
    by (simp add: walk_parts_append)
  show ?thesis
  proof (cases "get_typed_field c ?leaf = None \<and> ns = observability_ns \<and> bt_get (cf_user_namespaces c) observability_ns = None")
    case False
    then show ?thesis using get_direct_section [OF assms(2) leaf, of g c] by (simp only: w if_False)
  next
    case True
    then have "get_typed_field c key \<noteq> None"
      using assms(4) get_direct_section [OF assms(2,1,3), of g c] by (auto split: if_splits)
    then obtain x where x: "get_typed_field c key = Some x" by auto
    have "as_object x = None" using typed_field_in_json [OF assms(2,1) x] by simp
    moreover have "x = v" using x assms(4) by (simp add: get_direct_def)
    ultimately have "walk_parts v qs = None" using assms(5) by (simp add: walk_scalar)
    with True show ?thesis using get_direct_section [OF assms(2) leaf, of g c] by simp
  qed
qed


text \<open>In the two sections that are kept twice, as typed fields and as the written document, a container and
  its leaves never disagree on what is configured. Whatever was loaded, set or mounted, if a key of the
  executor or observability section is answered from the configuration itself and not from a default, then
  \<open>get\<close> gives that document, and for any key below it gives what the document holds there; where the document
  holds nothing, \<open>get\<close> gives what the lower tiers have: the section under \<open>apcore\<close> and the
  defaults of a registered namespace, both in namespace mode only, and the framework's default.\<close>

theorem containers_agree_with_leaves:
  assumes "segs key = ns # ps" and "ns \<in> {executor_ns, observability_ns}" and "key_ok key"
    and "get_direct g c key = Some v" and "qs \<noteq> []" and "\<forall>q \<in> set qs. q \<noteq> [] \<and> CHR ''.'' \<notin> set q"
    and "leaf = join_with ''.'' (segs key @ qs)"
  shows "get g c key = Some v \<and>
    get g c leaf =
      (case walk_parts v qs of
         Some x \<Rightarrow> Some x
       | None \<Rightarrow>
           (case (if implicit_apcore c leaf then get_direct g c (''apcore.'' @ leaf) else None) of
              Some x \<Rightarrow> Some x
            | None \<Rightarrow>
                (case (if cf_mode c = Namespace then registered_namespace_default g leaf else None) of
                   Some x \<Rightarrow> Some x | None \<Rightarrow> default_for leaf)))"
proof -
  have leaf: "get_direct g c leaf = walk_parts v qs"
    unfolding assms(7) by (rule direct_below_container [OF assms(1-6)])
  show ?thesis unfolding get_def leaf assms(4) by simp
qed

definition sample_config :: app_config where
  "sample_config = app_config_default
     \<lparr>cf_user_namespaces := [(''executor'', JObject [(''max_call_depth'', JString ''seven''), (''vendor'', JBool True)])]\<rparr>"

lemma sample_config_view:
  "get_direct globals_new sample_config ''executor'' = Some (executor_view sample_config)"
  using get_direct_section [of executor_ns "''executor''" "[]" globals_new sample_config]
  by (simp add: executor_ns_def observability_ns_def key_ok_def section_view_def)

lemma sample_config_walk:
  "walk_parts (executor_view sample_config) [''vendor''] = Some (JBool True)"
  "walk_parts (executor_view sample_config) [''max_call_depth''] = Some (JNumber (PosInt 32))"
  by (simp_all add: executor_view_def typed_namespace_view_def sample_config_def executor_ns_def bt_get_Cons
      app_config_default_def executor_config_default_def executor_json_def merge_lookup number_json_def
      deep_merge_scalar)

theorem containers_agree_with_leaves_witness:
  "get globals_new sample_config ''executor.vendor'' = Some (JBool True) \<and>
   get globals_new sample_config ''executor.max_call_depth'' = Some (JNumber (PosInt 32))"
proof
  have k: "segs ''executor'' = executor_ns # []" "executor_ns \<in> {executor_ns, observability_ns}" "key_ok ''executor''"
    by (simp_all add: executor_ns_def key_ok_def)
  note below = containers_agree_with_leaves [OF k sample_config_view]
  show "get globals_new sample_config ''executor.vendor'' = Some (JBool True)"
    using below [of "[''vendor'']" "''executor.vendor''"] sample_config_walk(1) by simp
  show "get globals_new sample_config ''executor.max_call_depth'' = Some (JNumber (PosInt 32))"
    using below [of "[''max_call_depth'']" "''executor.max_call_depth''"] sample_config_walk(2) by simp
qed

subsection \<open>Writes are read back\<close>

lemma write_typed_keeps:
  "write_typed k v c = Some c' \<Longrightarrow> cf_user_namespaces c' = cf_user_namespaces c \<and> cf_mode c' = cf_mode c"
  by (cases k) (auto simp: update_tracing_def split: if_splits)

lemma set_typed_field_keeps:
  "set_typed_field key v c = Some c' \<Longrightarrow> cf_user_namespaces c' = cf_user_namespaces c \<and> cf_mode c' = cf_mode c"
  by (auto simp: set_typed_field_def bind_eq_Some_conv dest: write_typed_keeps)

lemma typed_or_keeps:
  "cf_user_namespaces (case set_typed_field key v c of None \<Rightarrow> c | Some c' \<Rightarrow> c') = cf_user_namespaces c"
  "cf_mode (case set_typed_field key v c of None \<Rightarrow> c | Some c' \<Rightarrow> c') = cf_mode c"
  by (auto split: option.splits dest: set_typed_field_keeps)

lemma set_key_stores [simp]:
  "cf_user_namespaces (set_key key v c) = put_path (segs key) v (cf_user_namespaces c)"
  "cf_mode (set_key key v c) = cf_mode c"
  by (simp_all add: set_key_def record_as_written_def Let_def typed_or_keeps)

text \<open>What a typed field keeps of an accepted value.\<close>

fun stored :: "typed_key \<Rightarrow> json \<Rightarrow> json option" where
  "stored MaxCallDepth v = map_option (\<lambda>n. number_json (n mod 2 ^ 32)) (as_u64 v)"
| "stored MaxModuleRepeat v = map_option (\<lambda>n. number_json (n mod 2 ^ 32)) (as_u64 v)"
| "stored DefaultTimeout v = map_option number_json (as_u64 v)"
| "stored GlobalTimeout v = map_option number_json (as_u64 v)"
| "stored TracingEnabled v = map_option JBool (as_bool v)"
| "stored SamplingRate v = map_option number_of_f64 (as_f64 v)"
| "stored Exporter v = map_option JString (as_str v)"
| "stored SamplingStrategy v = map_option JString (as_str v)"
| "stored OtlpEndpoint v = (if v = JNull then Some JNull else map_option JString (as_str v))"
| "stored MetricsEnabled v = map_option JBool (as_bool v)"
| "stored ModulesPath v = map_option JString (as_str v)"

lemma write_typed_stored: "write_typed k v c = Some c' \<Longrightarrow> read_typed k c' = stored k v \<and> stored k v \<noteq> None"
  by (cases k) (auto simp: update_tracing_def opt_string_json_def split: if_splits)

lemma stored_writes: "stored k v \<noteq> None \<Longrightarrow> \<exists>c'. write_typed k v c = Some c'"
  by (cases k) (auto split: if_splits)

lemma read_typed_record [simp]: "read_typed k (record_as_written key v c) = read_typed k c"
  by (cases k) (simp_all add: record_as_written_def)

lemma set_key_form:
  "\<exists>c2. set_key key v c = record_as_written key v (case set_typed_field key v c2 of None \<Rightarrow> c2 | Some c \<Rightarrow> c)"
  unfolding set_key_def Let_def by (rule exI, rule refl)

lemma get_typed_field_set:
  assumes "map_of typed_keys key = Some k" and "stored k v = Some w"
  shows "get_typed_field (set_key key v c) key = Some w"
proof -
  obtain c2 where c2: "set_key key v c = record_as_written key v (case set_typed_field key v c2 of None \<Rightarrow> c2 | Some c \<Rightarrow> c)"
    using set_key_form by blast
  obtain c' where c': "write_typed k v c2 = Some c'" using stored_writes assms(2) by fastforce
  with c2 assms(1) have "set_key key v c = record_as_written key v c'" by (simp add: set_typed_field_def)
  then show ?thesis using write_typed_stored [OF c'] assms by (simp add: get_typed_field_def)
qed

text \<open>A key that no typed section answers for.\<close>

definition outside_typed :: "string \<Rightarrow> bool" where
  "outside_typed key \<longleftrightarrow> map_of typed_keys key = None \<and> strip_namespace key observability_ns = None \<and>
     strip_namespace key executor_ns = None"

abbreviation apart :: "string \<Rightarrow> string \<Rightarrow> bool" where
  "apart p q \<equiv> \<not> prefix (segs p) (segs q) \<and> \<not> prefix (segs q) (segs p)"

lemma get_path_top: "get_path m [k] = bt_get m k"
  by (auto split: option.splits)

lemma segs_apcore: "segs (''apcore.'' @ key) = ''apcore'' # segs key"
  using split_on_append [of "CHR ''.''" "''apcore''" key] by simp

lemma key_ok_apcore: "key_ok key \<Longrightarrow> key_ok (''apcore.'' @ key)"
  by (simp add: key_ok_def segs_apcore [simplified])

lemma as_written_apcore:
  assumes "dotless g" and "key_ok q"
  shows "get_as_written g c (''apcore.'' @ q) = get_path (cf_user_namespaces c) (''apcore'' # segs q)"
  using as_written_path [OF assms(1) key_ok_apcore [OF assms(2)]] unfolding segs_apcore .

lemma declared_apart:
  assumes d: "dotless g" and ok: "key_ok q" and a: "apart key q" "apart key (''apcore.'' @ q)"
  shows "get_declared g (set_key key v c) q = get_declared g c q"
proof -
  let ?c' = "set_key key v c"
  have 1: "get_as_written g ?c' q = get_as_written g c q"
    using a(1) by (simp add: as_written_path [OF d ok] doc.look_apart)
  have 2: "get_as_written g ?c' (''apcore.'' @ q) = get_as_written g c (''apcore.'' @ q)"
    unfolding as_written_apcore [OF d ok] set_key_stores
    by (rule doc.look_apart) (use a(2) segs_apcore [of q] in simp_all)
  have 3: "get_as_written g c'' (''apcore.'' @ q) = None" if "bt_get (cf_user_namespaces c'') ''apcore'' = None" for c''
    using that unfolding as_written_apcore [OF d ok] by simp
  show ?thesis
    unfolding get_declared_def implicit_apcore_def 1 2 set_key_stores(2)
    using 2 3 [of c] 3 [of ?c'] by (simp split: option.split) metis
qed

lemma as_written_set: "dotless g \<Longrightarrow> key_ok key \<Longrightarrow> get_as_written g (set_key key v c) key = Some v"
  by (simp add: as_written_path doc.look_same)

lemma get_set_outside:
  "dotless g \<Longrightarrow> key_ok key \<Longrightarrow> outside_typed key \<Longrightarrow> get g (set_key key v c) key = Some v"
  using as_written_set [of g key v c] by (simp add: get_def get_direct_def get_typed_field_def outside_typed_def)

lemma typed_key_unqualified: "map_of typed_keys (''apcore.'' @ key) = None"
  by (simp add: typed_keys_def)

lemma get_typed_field_set_qualified:
  assumes "map_of typed_keys key = Some k" and "stored k v = Some w"
  shows "get_typed_field (set_key (''apcore.'' @ key) v c) key = Some w"
proof -
  let ?c1 = "c\<lparr>cf_generation := (cf_generation c + 1) mod 2 ^ 64\<rparr>"
  obtain c' where c': "write_typed k v ?c1 = Some c'" using stored_writes assms(2) by fastforce
  have "set_typed_field (''apcore.'' @ key) v x = None" for x
    using typed_key_unqualified by (simp add: set_typed_field_def del: append.simps)
  then have "set_key (''apcore.'' @ key) v c = record_as_written (''apcore.'' @ key) v c'"
    using assms(1) c' by (simp add: set_key_def set_typed_field_def Let_def)
  then show ?thesis using write_typed_stored [OF c'] assms by (simp add: get_typed_field_def)
qed

lemma read_typed_generation [simp]: "read_typed k (c\<lparr>cf_generation := n\<rparr>) = read_typed k c"
  by (cases k) simp_all

lemma stored_None: "stored k v = None \<Longrightarrow> write_typed k v c = None"
  by (cases k) (auto split: if_splits)

lemma typed_key_not_qualified: "map_of typed_keys key = Some k \<Longrightarrow> \<not> prefix ''apcore.'' key"
  by (auto simp: typed_keys_def split: if_splits)

lemma get_typed_field_rejected:
  assumes "map_of typed_keys key = Some k" and "stored k v = None"
  shows "get_typed_field (set_key key v c) key = get_typed_field c key"
  using assms typed_key_not_qualified [OF assms(1)] stored_None [OF assms(2)]
  by (simp add: set_key_def set_typed_field_def get_typed_field_def Let_def)

text \<open>The effect of \<open>set\<close>, when no registered namespace has a dot in its name and the key has no empty
  segment. The key is declared with exactly the value given, and every key apart from it is declared as before.
  What \<open>get\<close> gives for it: outside the typed sections, the value; for a typed field that accepts the value,
  what the field keeps of it, which is the value except that the two counters keep a number modulo
  \<open>2 ^ 32\<close>, and setting such a field by its name qualified with \<open>apcore.\<close> does the same; for a typed field that
  rejects the value, the field's old value.\<close>

theorem set_declares_exactly:
  assumes d: "dotless g" and ok: "key_ok key"
  shows "get_declared g (set_key key v c) key = Some v
    \<and> (\<forall>q. key_ok q \<and> apart key q \<and> apart key (''apcore.'' @ q) \<longrightarrow>
          get_declared g (set_key key v c) q = get_declared g c q)
    \<and> (outside_typed key \<longrightarrow> get g (set_key key v c) key = Some v)
    \<and> (\<forall>k w. map_of typed_keys key = Some k \<and> stored k v = Some w \<longrightarrow>
          get g (set_key key v c) key = Some w \<and> get g (set_key (''apcore.'' @ key) v c) key = Some w)
    \<and> (\<forall>k w. map_of typed_keys key = Some k \<and> stored k v = None \<and> get_typed_field c key = Some w \<longrightarrow>
          get g (set_key key v c) key = Some w)"
proof (intro conjI allI impI)
  show "get_declared g (set_key key v c) key = Some v" using as_written_set [OF d ok] by (simp add: get_declared_def)
  show "get g (set_key key v c) key = Some v" if "outside_typed key" using get_set_outside [OF d ok that] .
  show "get g (set_key key v c) key = Some x" if "map_of typed_keys key = Some k \<and> stored k v = Some x" for k x
    using get_typed_field_set that by (simp add: get_def get_direct_def)
  show "get g (set_key (''apcore.'' @ key) v c) key = Some x"
    if "map_of typed_keys key = Some k \<and> stored k v = Some x" for k x
    using get_typed_field_set_qualified that by (simp add: get_def get_direct_def)
  show "get g (set_key key v c) key = Some x"
    if "map_of typed_keys key = Some k \<and> stored k v = None \<and> get_typed_field c key = Some x" for k x
    using get_typed_field_rejected that by (simp add: get_def get_direct_def)
  show "get_declared g (set_key key v c) q = get_declared g c q"
    if "key_ok q \<and> apart key q \<and> apart key (''apcore.'' @ q)" for q
    using that declared_apart [OF d] by blast
qed

theorem set_declares_exactly_witness:
  "get globals_new (set_key ''acl.root'' (JString ''x'') sample_config) ''acl.root'' = Some (JString ''x'') \<and>
   get globals_new (set_key ''executor.max_call_depth'' (number_of_int 4294967297) sample_config) ''executor.max_call_depth''
     = Some (number_json 1)"
proof -
  have "dotless globals_new" by (simp add: dotless_def globals_new_def)
  from set_declares_exactly [OF this, of "''acl.root''"] set_declares_exactly [OF this, of "''executor.max_call_depth''"]
  show ?thesis
    by (simp add: key_ok_def outside_typed_def typed_keys_def strip_namespace_def observability_ns_def
        executor_ns_def number_of_int_def as_u64_def)
qed

text \<open>The truncation of the counters accepts a value that the check of the key admits and stores zero.\<close>

lemma counter_truncates_to_zero:
  "get globals_new (set_key ''executor.max_call_depth'' (number_of_int 4294967296) app_config_default)
     ''executor.max_call_depth'' = Some (number_json 0)"
proof -
  have "map_of typed_keys ''executor.max_call_depth'' = Some MaxCallDepth" by (simp add: typed_keys_def)
  moreover have "stored MaxCallDepth (number_of_int 4294967296) = Some (number_json 0)"
    by (simp add: number_of_int_def as_u64_def)
  ultimately show ?thesis by (simp add: get_def get_direct_def get_typed_field_set)
qed

end
