(* ===== verification/ConfigChecks.thy ===== *)
theory ConfigChecks
  imports ConfigStore
begin

section \<open>Checks on a configuration\<close>

text \<open>
  \<open>Config::validate\<close> and what it calls, \<open>validate_key_constraint\<close>, and the two scans that only
  warn (deprecated keys, relative paths). A fault is a value without its text. JSON-schema validation
  and the compilation of regular expressions belong to other crates and are parameters.
\<close>

subsection \<open>Constraints\<close>

definition has_str :: "string list \<Rightarrow> json \<Rightarrow> bool" where
  "has_str xs v \<longleftrightarrow> (case as_str v of None \<Rightarrow> False | Some s \<Rightarrow> s \<in> set xs)"

definition in_unit_interval :: "json \<Rightarrow> bool" where
  "in_unit_interval v \<longleftrightarrow> (case as_f64 v of None \<Rightarrow> False | Some x \<Rightarrow> f64_nonneg x \<and> f64_le_one x)"

definition is_positive :: "json \<Rightarrow> bool" where
  "is_positive v \<longleftrightarrow> (case as_f64 v of None \<Rightarrow> False | Some x \<Rightarrow> f64_pos x)"

definition is_integer :: "json \<Rightarrow> bool" where
  "is_integer v \<longleftrightarrow> (case v of JNumber (PosInt _) \<Rightarrow> True | JNumber (NegInt _) \<Rightarrow> True | _ \<Rightarrow> False)"

definition int_in :: "int \<Rightarrow> int option \<Rightarrow> json \<Rightarrow> bool" where
  "int_in lo hi v \<longleftrightarrow>
     (case as_i64 v of
        None \<Rightarrow> False
      | Some i \<Rightarrow> lo \<le> i \<and> (case hi of None \<Rightarrow> True | Some h \<Rightarrow> i \<le> h))"

definition ws_char :: "char \<Rightarrow> bool" where
  "ws_char c \<longleftrightarrow> of_char c \<in> {9, 10, 11, 12, 13, 32, 133, 160 :: nat}"

definition is_endpoint :: "json \<Rightarrow> bool" where
  "is_endpoint v \<longleftrightarrow>
     v = JNull \<or> (case as_str v of None \<Rightarrow> False | Some s \<Rightarrow> \<exists>c \<in> set s. \<not> ws_char c)"

text \<open>\<open>validate_key_constraint\<close>: \<open>None\<close> for an unconstrained key, otherwise whether the value
  is allowed.\<close>

definition validate_key_constraint :: "string \<Rightarrow> json \<Rightarrow> bool option" where
  "validate_key_constraint key v =
     (if key = ''acl.default_effect'' then Some (as_str v = Some ''allow'' \<or> as_str v = Some ''deny'')
      else if key \<in> {''observability.tracing.sampling_rate'', ''sys_modules.events.thresholds.error_rate''}
      then Some (in_unit_interval v)
      else if key = ''observability.tracing.strategy''
      then Some (has_str [''full'', ''proportional'', ''error_first'', ''off''] v)
      else if key = ''observability.tracing.exporter'' then Some (has_str [''stdout'', ''otlp'', ''jaeger''] v)
      else if key = ''observability.tracing.otlp_endpoint'' then Some (is_endpoint v)
      else if key = ''sys_modules.events.thresholds.latency_p99_ms'' then Some (is_positive v)
      else if key = ''extensions.max_depth'' then Some (int_in 1 (Some 16) v)
      else if key \<in> {''executor.default_timeout'', ''executor.global_timeout''}
      then Some (is_integer v \<and> int_in 0 None v)
      else if key \<in> {''executor.max_call_depth'', ''executor.max_module_repeat'',
                      ''sys_modules.error_history.max_entries_per_module'',
                      ''sys_modules.error_history.max_total_entries''}
      then Some (is_integer v \<and> int_in 1 None v)
      else None)"

datatype config_fault =
    MissingField string
  | BadValue string
  | EndpointUnread
  | UnknownKey string
  | UnknownNamespace string
  | SchemaMismatch string
  | BadRegex nat

text \<open>The second routine for the same table, as it is written.\<close>

definition check_key :: "config_globals \<Rightarrow> app_config \<Rightarrow> (json \<Rightarrow> bool) \<Rightarrow> string \<Rightarrow> config_fault list" where
  "check_key g c ok key =
     (case get g c key of None \<Rightarrow> [] | Some v \<Rightarrow> if ok v then [] else [BadValue key])"

definition collect_constraint_errors :: "config_globals \<Rightarrow> app_config \<Rightarrow> config_fault list" where
  "collect_constraint_errors g c =
     concat (map (\<lambda>key. check_key g c (\<lambda>v. validate_key_constraint key v \<noteq> Some False) key)
       [''observability.tracing.strategy'', ''observability.tracing.exporter'',
        ''observability.tracing.otlp_endpoint'']) @
     check_key g c (has_str [''allow'', ''deny'']) ''acl.default_effect'' @
     concat (map (check_key g c in_unit_interval)
       [''observability.tracing.sampling_rate'', ''sys_modules.events.thresholds.error_rate'']) @
     check_key g c is_positive ''sys_modules.events.thresholds.latency_p99_ms'' @
     concat (map (check_key g c (\<lambda>v. is_integer v \<and> int_in 0 None v))
       [''executor.default_timeout'', ''executor.global_timeout'']) @
     concat (map (check_key g c (\<lambda>v. is_integer v \<and> int_in 1 None v))
       [''executor.max_call_depth'', ''executor.max_module_repeat'',
        ''sys_modules.error_history.max_entries_per_module'', ''sys_modules.error_history.max_total_entries'']) @
     check_key g c (\<lambda>v. is_integer v \<and> int_in 1 (Some 16) v) ''extensions.max_depth''"

subsection \<open>Strict mode\<close>

definition strict_mode :: "app_config \<Rightarrow> bool" where
  "strict_mode c \<longleftrightarrow>
     (case Option.bind (get_path (cf_user_namespaces c) [''_config'', ''strict'']) as_bool of
        None \<Rightarrow> False | Some b \<Rightarrow> b)"

text \<open>The recursive scan of one section: undeclared keys are reported and not entered.\<close>

lemma size_object_entry:
  assumes "(k, v) \<in> set es" and "v = JObject ds"
  shows "size_list (size_prod (\<lambda>_. 0) size) ds < size_list (size_prod (\<lambda>_. 0) size) es"
  using assms by (induction es) auto

function walk_section :: "string \<Rightarrow> (string \<times> json) list \<Rightarrow> config_fault list" where
  "walk_section pfx es =
     concat (map (\<lambda>(k, v).
       (let path = pfx @ ''.'' @ k
        in if \<not> is_declared_prefix path then [UnknownKey path]
           else (case v of
                   JObject child \<Rightarrow> if is_declared_container path then walk_section path child else []
                 | _ \<Rightarrow> []))) es)"
  by auto
termination
  by (relation "measure (\<lambda>(p, es). size_list (size_prod (\<lambda>_. 0) size) es)")
    (auto dest: size_object_entry)

declare walk_section.simps [simp del]

definition framework_sections :: "string list" where
  "framework_sections =
     remdups_adj (sort (map (\<lambda>k. hd (split_on CHR ''.'' k)) (filter (\<lambda>k. CHR ''.'' \<in> set k) framework_config_keys)))"

definition reject_unknown_framework_keys :: "app_config \<Rightarrow> config_fault list" where
  "reject_unknown_framework_keys c =
     concat (map (\<lambda>s. case Option.bind (bt_get (cf_user_namespaces c) s) as_object of
                        None \<Rightarrow> [] | Some present \<Rightarrow> walk_section s present) framework_sections)"

subsection \<open>Validation\<close>

definition required_fields :: "string list" where
  "required_fields = [''version'', ''project.name'']"

definition namespace_faults ::
  "(json \<Rightarrow> json \<Rightarrow> bool) \<Rightarrow> config_globals \<Rightarrow> bool \<Rightarrow> string \<times> json \<Rightarrow> config_fault list" where
  "namespace_faults schema_ok g strict e =
     (case e of (key, v) \<Rightarrow>
        if key = ''apcore'' \<or> key = ''_config'' \<or> as_object v = None then []
        else (case bt_get (cg_registry g) key of
                None \<Rightarrow> if strict \<and> \<not> is_framework_section key then [UnknownNamespace key] else []
              | Some reg \<Rightarrow>
                  (case nr_schema reg of
                     None \<Rightarrow> []
                   | Some schema \<Rightarrow> if schema_ok v schema then [] else [SchemaMismatch key])))"

definition regex_faults :: "(string \<Rightarrow> bool) \<Rightarrow> json option \<Rightarrow> config_fault list" where
  "regex_faults regex_ok patterns =
     (case Option.bind patterns as_array of
        None \<Rightarrow> []
      | Some xs \<Rightarrow>
          map (\<lambda>(i, _). BadRegex i)
            (filter (\<lambda>(i, x). case as_str x of None \<Rightarrow> False | Some p \<Rightarrow> p \<noteq> [] \<and> \<not> regex_ok p) (enumerate 0 xs)))"

definition validation_faults ::
  "(json \<Rightarrow> json \<Rightarrow> bool) \<Rightarrow> (string \<Rightarrow> bool) \<Rightarrow> config_globals \<Rightarrow> app_config \<Rightarrow> config_fault list" where
  "validation_faults schema_ok regex_ok g c =
     (if cf_mode c = Namespace then []
      else map MissingField (filter (\<lambda>f. get_declared g c f = None) required_fields)) @
     collect_constraint_errors g c @
     (let t = oc_tracing (cf_observability c)
      in if tc_otlp_endpoint t \<noteq> None \<and> tc_exporter t \<noteq> ''otlp'' then [EndpointUnread] else []) @
     (if strict_mode c then reject_unknown_framework_keys c else []) @
     (if cf_mode c = Namespace
      then concat (map (namespace_faults schema_ok g (strict_mode c)) (cf_user_namespaces c)) else []) @
     regex_faults regex_ok (get g c ''obs.redaction.regex_patterns'')"

definition validate ::
  "(json \<Rightarrow> json \<Rightarrow> bool) \<Rightarrow> (string \<Rightarrow> bool) \<Rightarrow> config_globals \<Rightarrow> app_config \<Rightarrow> module_error + unit" where
  "validate schema_ok regex_ok g c =
     (if validation_faults schema_ok regex_ok g c = [] then Inr ()
      else Inl (module_error_new ConfigInvalid))"

subsection \<open>Scans that warn\<close>

definition is_relative :: "string option \<Rightarrow> bool" where
  "is_relative v \<longleftrightarrow> (case v of None \<Rightarrow> False | Some s \<Rightarrow> s \<noteq> [] \<and> hd s \<noteq> CHR ''/'')"

definition root_entry :: "json \<Rightarrow> string option" where
  "root_entry item =
     (case item of
        JString s \<Rightarrow> Some s
      | JObject es \<Rightarrow> Option.bind (bt_get es ''root'') as_str
      | _ \<Rightarrow> None)"

definition strip_list_marker :: "string \<Rightarrow> string option" where
  "strip_list_marker key =
     (if suffix ''[]'' key then Some (take (length key - 2) key) else None)"

definition relative_path_typed_keys :: "config_globals \<Rightarrow> app_config \<Rightarrow> string list" where
  "relative_path_typed_keys g c =
     filter (\<lambda>key. case strip_list_marker key of
         Some list_key \<Rightarrow>
           (case Option.bind (get g c list_key) as_array of
              None \<Rightarrow> False | Some items \<Rightarrow> \<exists>item \<in> set items. is_relative (root_entry item))
       | None \<Rightarrow> is_relative (Option.bind (get g c key) as_str)) path_typed_config_keys"

text \<open>The deprecated keys that the document declares, in the order of the table; an empty list gives no
  warning.\<close>

definition declared_inert :: "app_config \<Rightarrow> string \<Rightarrow> bool" where
  "declared_inert c key \<longleftrightarrow>
     (case split_on CHR ''.'' key of
        section # part # parts \<Rightarrow>
          (case (case bt_get (cf_user_namespaces c) section of
                   Some v \<Rightarrow> Some v
                 | None \<Rightarrow> get_path (cf_user_namespaces c) [''apcore'', section]) of
             None \<Rightarrow> False
           | Some node \<Rightarrow> walk_parts node (part # parts) \<noteq> None)
      | _ \<Rightarrow> False)"

definition deprecated_keys_declared :: "app_config \<Rightarrow> string list" where
  "deprecated_keys_declared c = filter (declared_inert c) deprecated_inert_keys"

definition path_warning :: "config_globals \<Rightarrow> string \<Rightarrow> string \<Rightarrow> app_config \<Rightarrow> string list" where
  "path_warning g cwd root c = (if root = cwd then [] else relative_path_typed_keys g c)"

subsection \<open>The two constraint tables agree\<close>

lemma check_key_Nil: "check_key g c ok key = [] \<longleftrightarrow> (\<forall>v. get g c key = Some v \<longrightarrow> ok v)"
  by (auto simp: check_key_def split: option.splits)

lemma int_in_integer: "int_in lo hi v \<Longrightarrow> is_integer v"
  by (cases v rule: as_i64.cases) (auto simp: int_in_def is_integer_def)

lemma has_str_effects: "has_str [''allow'', ''deny''] v \<longleftrightarrow> as_str v = Some ''allow'' \<or> as_str v = Some ''deny''"
  by (auto simp: has_str_def split: option.splits)

definition key_allowed :: "string \<Rightarrow> json \<Rightarrow> bool" where
  "key_allowed key v \<longleftrightarrow> validate_key_constraint key v = Some True"

lemma key_allowed_table:
  "key_allowed ''acl.default_effect'' = has_str [''allow'', ''deny'']"
  "key_allowed ''observability.tracing.sampling_rate'' = in_unit_interval"
  "key_allowed ''sys_modules.events.thresholds.error_rate'' = in_unit_interval"
  "key_allowed ''sys_modules.events.thresholds.latency_p99_ms'' = is_positive"
  "key_allowed ''extensions.max_depth'' = (\<lambda>v. is_integer v \<and> int_in 1 (Some 16) v)"
  "key_allowed ''executor.default_timeout'' = (\<lambda>v. is_integer v \<and> int_in 0 None v)"
  "key_allowed ''executor.global_timeout'' = (\<lambda>v. is_integer v \<and> int_in 0 None v)"
  "key_allowed ''executor.max_call_depth'' = (\<lambda>v. is_integer v \<and> int_in 1 None v)"
  "key_allowed ''executor.max_module_repeat'' = (\<lambda>v. is_integer v \<and> int_in 1 None v)"
  "key_allowed ''sys_modules.error_history.max_entries_per_module'' = (\<lambda>v. is_integer v \<and> int_in 1 None v)"
  "key_allowed ''sys_modules.error_history.max_total_entries'' = (\<lambda>v. is_integer v \<and> int_in 1 None v)"
  by (auto simp: key_allowed_def validate_key_constraint_def has_str_effects int_in_integer fun_eq_iff)

lemma key_allowed_tracing:
  assumes "key \<in> {''observability.tracing.strategy'', ''observability.tracing.exporter'',
    ''observability.tracing.otlp_endpoint''}"
  shows "validate_key_constraint key v \<noteq> Some False \<longleftrightarrow> key_allowed key v"
  using assms by (elim insertE emptyE) (simp_all add: key_allowed_def validate_key_constraint_def)

text \<open>C38: the two hand-written constraint tables agree. The check of a whole configuration finds no bad
  value exactly when every constrained key that is answered at all is answered with a value that the check
  of single keys, which guards updates at run time, allows.\<close>

theorem constraint_tables_agree:
  "collect_constraint_errors g c = [] \<longleftrightarrow>
     (\<forall>key \<in> set constrained_config_keys. \<forall>v. get g c key = Some v \<longrightarrow> validate_key_constraint key v = Some True)"
proof -
  have "collect_constraint_errors g c = [] \<longleftrightarrow>
      (\<forall>key \<in> set constrained_config_keys. check_key g c (key_allowed key) key = [])"
    by (simp add: collect_constraint_errors_def constrained_config_keys_def key_allowed_table
        key_allowed_tracing conj_ac)
  then show ?thesis by (simp add: check_key_Nil key_allowed_def)
qed

theorem constraint_tables_agree_witness:
  "collect_constraint_errors globals_new (set_key ''acl.default_effect'' (JString ''permit'') app_config_default) \<noteq> []"
proof -
  let ?c = "set_key ''acl.default_effect'' (JString ''permit'') app_config_default"
  have "get globals_new ?c ''acl.default_effect'' = Some (JString ''permit'')"
    by (rule get_set_outside)
      (simp_all add: dotless_def globals_new_def key_ok_def outside_typed_def typed_keys_def strip_namespace_def
        observability_ns_def executor_ns_def)
  moreover have "validate_key_constraint ''acl.default_effect'' (JString ''permit'') \<noteq> Some True"
    by (simp add: validate_key_constraint_def)
  moreover have "''acl.default_effect'' \<in> set constrained_config_keys" by (simp add: constrained_config_keys_def)
  ultimately show ?thesis using constraint_tables_agree [of globals_new ?c] by blast
qed

text \<open>The check of single keys admits a counter that the store truncates to zero.\<close>

lemma truncated_counter_is_allowed:
  "validate_key_constraint ''executor.max_call_depth'' (number_of_int 4294967296) = Some True"
  by (simp add: validate_key_constraint_def is_integer_def int_in_def number_of_int_def i64_fits_def)

end
