(* ===== verification/ConfigLoad.thy ===== *)
theory ConfigLoad
  imports ConfigChecks
begin

section \<open>Loading: namespaces, the environment, files, reload\<close>

text \<open>
  How a \<open>Config\<close> comes about: the registration of namespaces and environment maps, the overrides taken
  from the environment, the two-pass deserialization of a document, loading, reloading and the search for
  the configuration file. The environment is the list of its variables in the order the system gives them,
  a file is what reading and parsing it gives, and the file system is a predicate.
\<close>

subsection \<open>Registering namespaces and variables\<close>

definition to_ascii_upper :: "char \<Rightarrow> char" where
  "to_ascii_upper c = (if is_ascii_lower c then char_of (of_char c - 32 :: nat) else c)"

definition config_namespace_error :: "error_code \<Rightarrow> string \<Rightarrow> module_error" where
  "config_namespace_error code name = with_details (details_of [(''name'', JString name)]) (module_error_new code)"

definition config_env_prefix_conflict :: "string \<Rightarrow> module_error" where
  "config_env_prefix_conflict pfx =
     with_details (details_of [(''env_prefix'', JString pfx)]) (module_error_new ConfigEnvPrefixConflict)"

definition config_env_map_conflict :: "string \<Rightarrow> string \<Rightarrow> module_error" where
  "config_env_map_conflict env_var owner =
     with_details (details_of [(''env_var'', JString env_var), (''owner'', JString owner)])
       (module_error_new ConfigEnvMapConflict)"

text \<open>The first variable of a mapping that somebody claimed already, with its owner.\<close>

definition claimed_variable :: "(string \<times> string) list \<Rightarrow> config_globals \<Rightarrow> (string \<times> string) option" where
  "claimed_variable mapping g =
     Option.bind (find (\<lambda>v. bt_get (cg_claimed g) v \<noteq> None) (map fst mapping))
       (\<lambda>v. map_option (Pair v) (bt_get (cg_claimed g) v))"

definition claim_all :: "string \<Rightarrow> (string \<times> string) list \<Rightarrow> config_globals \<Rightarrow> config_globals" where
  "claim_all owner mapping g =
     g\<lparr>cg_claimed := fold (\<lambda>v. bt_insert v owner) (map fst mapping) (cg_claimed g)\<rparr>"

definition derived_prefix :: "string \<Rightarrow> string" where
  "derived_prefix name = map (\<lambda>c. if c = CHR ''-'' then CHR ''_'' else to_ascii_upper c) name"

definition register_namespace ::
  "namespace_registration \<Rightarrow> config_globals \<Rightarrow> (module_error + unit) \<times> config_globals" where
  "register_namespace reg0 g =
     (if nr_name reg0 \<in> set reserved_namespaces
      then (Inl (config_namespace_error ConfigNamespaceReserved (nr_name reg0)), g)
      else
        (let pfx = (case nr_env_prefix reg0 of None \<Rightarrow> derived_prefix (nr_name reg0) | Some p \<Rightarrow> p);
             reg = reg0\<lparr>nr_env_prefix := Some pfx\<rparr>
         in if pfx = ''APCORE'' \<and> nr_name reg \<noteq> ''apcore''
            then (Inl (config_namespace_error ConfigNamespaceReserved (nr_name reg)), g)
            else if bt_get (cg_registry g) (nr_name reg) \<noteq> None
            then (Inl (config_namespace_error ConfigNamespaceDuplicate (nr_name reg)), g)
            else if \<exists>e \<in> set (cg_registry g). nr_env_prefix (snd e) = Some pfx
            then (Inl (config_env_prefix_conflict pfx), g)
            else
              (case nr_env_map reg of
                 None \<Rightarrow> (Inr (), g\<lparr>cg_registry := bt_insert (nr_name reg) reg (cg_registry g)\<rparr>)
               | Some em \<Rightarrow>
                   (case claimed_variable em g of
                      Some (v, owner) \<Rightarrow> (Inl (config_env_map_conflict v owner), g)
                    | None \<Rightarrow>
                        (let g' = claim_all (nr_name reg) em g
                         in (Inr (), g'\<lparr>cg_registry := bt_insert (nr_name reg) reg (cg_registry g')\<rparr>))))))"

definition env_map :: "(string \<times> string) list \<Rightarrow> config_globals \<Rightarrow> (module_error + unit) \<times> config_globals" where
  "env_map mapping g =
     (case claimed_variable mapping g of
        Some (v, owner) \<Rightarrow> (Inl (config_env_map_conflict v owner), g)
      | None \<Rightarrow>
          (let g' = claim_all ''__global__'' mapping g
           in (Inr (), g'\<lparr>cg_env_map := fold (\<lambda>(v, key). bt_insert v key) mapping (cg_env_map g')\<rparr>)))"

definition registered_namespaces :: "config_globals \<Rightarrow> (string \<times> string option \<times> bool) list" where
  "registered_namespaces g =
     map (\<lambda>(_, r). (nr_name r, nr_env_prefix r, nr_schema r \<noteq> None)) (cg_registry g)"

definition default_sensitive_keys :: "string list" where
  "default_sensitive_keys =
     [''_secret_*'', ''password'', ''passwd'', ''secret'', ''token'', ''api_key'', ''apikey'', ''apiKey'',
      ''access_key'', ''private_key'', ''authorization'', ''auth'', ''credential'', ''cookie'', ''session'',
      ''bearer'']"

definition builtin_namespace :: "string \<Rightarrow> string \<Rightarrow> json \<Rightarrow> namespace_registration" where
  "builtin_namespace name pfx defaults =
     \<lparr>nr_name = name, nr_env_prefix = Some pfx, nr_defaults = Some defaults, nr_schema = None,
      nr_env_style = Auto, nr_max_depth = default_max_depth, nr_env_map = None\<rparr>"

definition flag :: "bool \<Rightarrow> json" where
  "flag b = JObject [(''enabled'', JBool b)]"

definition observability_defaults :: json where
  "observability_defaults =
     JObject [(''metrics'', JObject [(''enabled'', JBool False), (''exporter'', JString ''stdout'')]),
       (''tracing'', JObject [(''enabled'', JBool False), (''exporter'', JString ''stdout''),
          (''otlp_endpoint'', JNull), (''sampling_rate'', number_of_f64 (1, 0)), (''strategy'', JString ''full'')])]"

definition sys_modules_defaults :: json where
  "sys_modules_defaults =
     JObject [(''control'', flag True), (''enabled'', JBool False),
       (''error_history'', JObject [(''max_entries_per_module'', number_of_int 50),
          (''max_total_entries'', number_of_int 1000)]),
       (''events'', JObject [(''enabled'', JBool False), (''subscribers'', JArray []),
          (''thresholds'', JObject [(''error_rate'', number_of_f64 (3602879701896397, - 55)),
             (''latency_p99_ms'', number_of_f64 (625, 3))])]),
       (''health'', flag True), (''manifest'', flag True),
       (''usage'', JObject [(''bucketing_strategy'', JString ''hourly''), (''enabled'', JBool True),
          (''retention_hours'', number_of_int 168)])]"

definition obs_defaults :: json where
  "obs_defaults =
     JObject [(''redaction'', JObject [(''regex_patterns'', JArray []),
       (''replacement'', JString ''***REDACTED***''),
       (''sensitive_keys'', JArray (map JString default_sensitive_keys))])]"

text \<open>Running the initialisation again changes nothing, as its once-cell has it: the names are taken.\<close>

definition init_builtin_namespaces :: "config_globals \<Rightarrow> config_globals" where
  "init_builtin_namespaces g =
     fold (\<lambda>reg g. snd (register_namespace reg g))
       [builtin_namespace ''observability'' ''APCORE_OBSERVABILITY'' observability_defaults,
        builtin_namespace ''sys_modules'' ''APCORE_SYS'' sys_modules_defaults,
        builtin_namespace ''obs'' ''APCORE_OBS'' obs_defaults] g"

subsection \<open>The environment\<close>

definition eq_ignore_ascii_case :: "string \<Rightarrow> string \<Rightarrow> bool" where
  "eq_ignore_ascii_case s t \<longleftrightarrow> map to_ascii_lower s = map to_ascii_lower t"

definition coerce_env_value :: "string \<Rightarrow> json" where
  "coerce_env_value v =
     (if eq_ignore_ascii_case v ''true'' then JBool True
      else if eq_ignore_ascii_case v ''false'' then JBool False
      else (case parse_i64 v of
              Some i \<Rightarrow> number_of_int i
            | None \<Rightarrow> (case parse_finite_f64 v of Some x \<Rightarrow> number_of_f64 x | None \<Rightarrow> JString v)))"

text \<open>A single underscore separates sections, a double one is a literal underscore. At most
  \<open>limit\<close> separators are made; \<open>None\<close> stands for \<open>usize::MAX\<close>.\<close>

fun dot_loop :: "nat option \<Rightarrow> string \<Rightarrow> string" where
  "dot_loop limit [] = []"
| "dot_loop limit (c # cs) =
     (if c = CHR ''_''
      then (case cs of
              d # ds \<Rightarrow>
                if d = CHR ''_'' then CHR ''_'' # dot_loop limit ds
                else if limit \<noteq> Some 0 then CHR ''.'' # dot_loop (map_option (\<lambda>n. n - 1) limit) cs
                else CHR ''_'' # dot_loop limit cs
            | [] \<Rightarrow> if limit \<noteq> Some 0 then [CHR ''.''] else [CHR ''_''])
      else c # dot_loop limit cs)"

definition env_key_to_dot_path_with_depth :: "string \<Rightarrow> nat option \<Rightarrow> string" where
  "env_key_to_dot_path_with_depth raw max_depth =
     dot_loop (map_option (\<lambda>n. n - 1) max_depth) (map to_ascii_lower raw)"

definition env_key_to_dot_path :: "string \<Rightarrow> string" where
  "env_key_to_dot_path raw = env_key_to_dot_path_with_depth raw None"

fun first_some :: "('a \<Rightarrow> 'b option) \<Rightarrow> 'a list \<Rightarrow> 'b option" where
  "first_some f [] = None"
| "first_some f (x # xs) = (case f x of Some y \<Rightarrow> Some y | None \<Rightarrow> first_some f xs)"

lemma first_some_cong [fundef_cong]:
  "xs = ys \<Longrightarrow> (\<And>x. x \<in> set ys \<Longrightarrow> f x = g x) \<Longrightarrow> first_some f xs = first_some g ys"
  by (induction ys arbitrary: xs) (auto split: option.splits)

text \<open>The inner underscores at which a suffix can be split.\<close>

definition underscore_splits :: "string \<Rightarrow> (string \<times> string) list" where
  "underscore_splits s =
     map (\<lambda>i. (take i s, drop (i + 1) s)) (filter (\<lambda>i. s ! i = CHR ''_'') [1..<length s - 1])"

lemma underscore_splits_shorter: "(p, r) \<in> set (underscore_splits s) \<Longrightarrow> length r < length s"
  by (auto simp: underscore_splits_def)

function match_suffix_to_tree :: "string \<Rightarrow> (string \<times> json) list \<Rightarrow> nat \<Rightarrow> nat \<Rightarrow> string option" where
  "match_suffix_to_tree sfx tree depth max_depth =
     (if bt_get tree sfx \<noteq> None then Some sfx
      else if depth \<ge> max_depth - 1 then None
      else first_some (\<lambda>(p, r).
             case Option.bind (bt_get tree p) as_object of
               None \<Rightarrow> None
             | Some subtree \<Rightarrow>
                 map_option (\<lambda>sub. p @ ''.'' @ sub) (match_suffix_to_tree r subtree (depth + 1) max_depth))
             (underscore_splits sfx))"
  by auto
termination
  by (relation "measure (\<lambda>(s, _, _, _). length s)") (auto dest: underscore_splits_shorter)

declare match_suffix_to_tree.simps [simp del]

definition resolve_env_suffix :: "string \<Rightarrow> namespace_registration \<Rightarrow> string" where
  "resolve_env_suffix sfx reg =
     (case nr_env_style reg of
        Flat \<Rightarrow> map to_ascii_lower sfx
      | Nested \<Rightarrow> env_key_to_dot_path_with_depth sfx (Some (nr_max_depth reg))
      | Auto \<Rightarrow>
          (case Option.bind (Option.bind (nr_defaults reg) as_object)
                  (\<lambda>tree. match_suffix_to_tree (map to_ascii_lower sfx) tree 0 (nr_max_depth reg)) of
             Some resolved \<Rightarrow> resolved
           | None \<Rightarrow> env_key_to_dot_path_with_depth sfx (Some (nr_max_depth reg))))"

definition is_path_typed_key :: "string \<Rightarrow> bool" where
  "is_path_typed_key key \<longleftrightarrow>
     (\<exists>d \<in> set path_typed_config_keys. (case strip_list_marker d of None \<Rightarrow> d | Some l \<Rightarrow> l) = key)"

definition strip_pfx :: "string \<Rightarrow> string \<Rightarrow> string option" where
  "strip_pfx p s = (if prefix p s then Some (drop (length p) s) else None)"

text \<open>An empty value for a path-typed key is discarded.\<close>

definition apply_one_env_override :: "string \<Rightarrow> json \<Rightarrow> app_config \<Rightarrow> app_config" where
  "apply_one_env_override dot_path v c =
     (let key = (case strip_pfx ''apcore.'' dot_path of None \<Rightarrow> dot_path | Some k \<Rightarrow> k)
      in if is_path_typed_key key \<and> v = JString [] then c else set_key dot_path v c)"

definition apply_legacy_override :: "config_globals \<Rightarrow> string \<times> string \<Rightarrow> app_config \<Rightarrow> app_config" where
  "apply_legacy_override g e c =
     (case e of (var, v) \<Rightarrow>
        (case bt_get (cg_env_map g) var of
           Some key \<Rightarrow> apply_one_env_override key (coerce_env_value v) c
         | None \<Rightarrow>
             if var = env_config_file then c
             else (case strip_pfx ''APCORE_'' var of
                     None \<Rightarrow> c
                   | Some sfx \<Rightarrow> apply_one_env_override (env_key_to_dot_path sfx) (coerce_env_value v) c)))"

definition prefixed_registrations :: "config_globals \<Rightarrow> namespace_registration list" where
  "prefixed_registrations g =
     sort_key (\<lambda>r. - int (length (the (nr_env_prefix r))))
       (filter (\<lambda>r. nr_env_prefix r \<noteq> None) (map snd (cg_registry g)))"

definition suffix_for :: "string \<Rightarrow> namespace_registration \<Rightarrow> string option" where
  "suffix_for var reg =
     (case strip_pfx (case nr_env_prefix reg of None \<Rightarrow> [] | Some p \<Rightarrow> p) var of
        None \<Rightarrow> None
      | Some rest \<Rightarrow>
          (let sfx = (case strip_pfx ''_'' rest of None \<Rightarrow> rest | Some r \<Rightarrow> r)
           in if sfx = [] then None else Some sfx))"

text \<open>The key a variable addresses in namespace mode, if any.\<close>

definition namespace_env_key :: "config_globals \<Rightarrow> string \<Rightarrow> string option" where
  "namespace_env_key g var =
     (case bt_get (cg_env_map g) var of
        Some key \<Rightarrow> Some key
      | None \<Rightarrow>
          (case first_some (\<lambda>(name, r). map_option (\<lambda>key. nr_name r @ ''.'' @ key)
                   (Option.bind (nr_env_map r) (\<lambda>em. bt_get em var))) (cg_registry g) of
             Some key \<Rightarrow> Some key
           | None \<Rightarrow>
               (case first_some (\<lambda>r. map_option (\<lambda>sfx. nr_name r @ ''.'' @ resolve_env_suffix sfx r)
                       (suffix_for var r)) (prefixed_registrations g) of
                  Some key \<Rightarrow> Some key
                | None \<Rightarrow>
                    if var = env_config_file then None
                    else map_option (\<lambda>sfx. ''apcore.'' @ env_key_to_dot_path sfx) (strip_pfx ''APCORE_'' var))))"

definition apply_namespace_override :: "config_globals \<Rightarrow> string \<times> string \<Rightarrow> app_config \<Rightarrow> app_config" where
  "apply_namespace_override g e c =
     (case e of (var, v) \<Rightarrow>
        (case namespace_env_key g var of
           None \<Rightarrow> c
         | Some key \<Rightarrow> apply_one_env_override key (coerce_env_value v) c))"

definition apply_env_overrides :: "config_globals \<Rightarrow> (string \<times> string) list \<Rightarrow> app_config \<Rightarrow> app_config" where
  "apply_env_overrides g env c =
     fold (if cf_mode c = Namespace then apply_namespace_override g else apply_legacy_override g) env c"

subsection \<open>Documents\<close>

definition legacy_root_fields :: "(string \<times> string) list" where
  "legacy_root_fields =
     [(''max_call_depth'', ''executor.max_call_depth''), (''max_module_repeat'', ''executor.max_module_repeat''),
      (''default_timeout_ms'', ''executor.default_timeout''), (''global_timeout_ms'', ''executor.global_timeout''),
      (''enable_tracing'', ''observability.tracing.enabled''), (''enable_metrics'', ''observability.metrics.enabled'')]"

text \<open>A derived deserializer takes an object by names or an array by positions; a field that is absent
  keeps the default.\<close>

definition struct_entries :: "string list \<Rightarrow> json \<Rightarrow> (string \<times> json) list option" where
  "struct_entries names v =
     (case v of
        JObject es \<Rightarrow> Some es
      | JArray xs \<Rightarrow> if length xs \<le> length names then Some (zip names xs) else None
      | _ \<Rightarrow> None)"

definition field_of :: "(string \<times> json) list \<Rightarrow> string \<Rightarrow> (json \<Rightarrow> 'a option) \<Rightarrow> 'a \<Rightarrow> 'a option" where
  "field_of es name parse absent = (case bt_get es name of None \<Rightarrow> Some absent | Some v \<Rightarrow> parse v)"

definition json_u32 :: "json \<Rightarrow> nat option" where
  "json_u32 v = Option.bind (as_u64 v) (\<lambda>n. if n < 2 ^ 32 then Some n else None)"

definition json_opt_str :: "json \<Rightarrow> string option option" where
  "json_opt_str v = (case v of JNull \<Rightarrow> Some None | _ \<Rightarrow> map_option Some (as_str v))"

definition executor_of_json :: "json \<Rightarrow> executor_config option" where
  "executor_of_json v =
     Option.bind (struct_entries [''default_timeout'', ''global_timeout'', ''max_call_depth'', ''max_module_repeat''] v)
       (\<lambda>es. Option.bind (field_of es ''default_timeout'' as_u64 (xc_default_timeout executor_config_default))
       (\<lambda>dt. Option.bind (field_of es ''global_timeout'' as_u64 (xc_global_timeout executor_config_default))
       (\<lambda>gt. Option.bind (field_of es ''max_call_depth'' json_u32 (xc_max_call_depth executor_config_default))
       (\<lambda>cd. Option.bind (field_of es ''max_module_repeat'' json_u32 (xc_max_module_repeat executor_config_default))
       (\<lambda>mr. Some \<lparr>xc_default_timeout = dt, xc_global_timeout = gt, xc_max_call_depth = cd,
               xc_max_module_repeat = mr\<rparr>)))))"

definition tracing_of_json :: "json \<Rightarrow> tracing_config option" where
  "tracing_of_json v =
     Option.bind (struct_entries [''enabled'', ''sampling_rate'', ''exporter'', ''strategy'', ''otlp_endpoint''] v)
       (\<lambda>es. Option.bind (field_of es ''enabled'' as_bool False)
       (\<lambda>en. Option.bind (field_of es ''sampling_rate'' as_f64 (1, 0))
       (\<lambda>sr. Option.bind (field_of es ''exporter'' as_str (tc_exporter tracing_config_default))
       (\<lambda>ex. Option.bind (field_of es ''strategy'' as_str (tc_strategy tracing_config_default))
       (\<lambda>st. Option.bind (field_of es ''otlp_endpoint'' json_opt_str None)
       (\<lambda>ep. Some \<lparr>tc_enabled = en, tc_sampling_rate = sr, tc_exporter = ex, tc_strategy = st,
               tc_otlp_endpoint = ep\<rparr>))))))"

definition metrics_of_json :: "json \<Rightarrow> metrics_config option" where
  "metrics_of_json v =
     Option.bind (struct_entries [''enabled''] v)
       (\<lambda>es. map_option (\<lambda>b. \<lparr>mc_enabled = b\<rparr>) (field_of es ''enabled'' as_bool False))"

definition observability_of_json :: "json \<Rightarrow> observability_config option" where
  "observability_of_json v =
     Option.bind (struct_entries [''tracing'', ''metrics''] v)
       (\<lambda>es. Option.bind (field_of es ''tracing'' tracing_of_json tracing_config_default)
       (\<lambda>t. map_option (\<lambda>m. \<lparr>oc_tracing = t, oc_metrics = m\<rparr>)
              (field_of es ''metrics'' metrics_of_json \<lparr>mc_enabled = False\<rparr>)))"

text \<open>The namespaces of the document that nobody registered, and what becomes of them.\<close>

definition unknown_namespaces :: "config_globals \<Rightarrow> (string \<times> json) list \<Rightarrow> string list" where
  "unknown_namespaces g raw =
     filter (\<lambda>k. k \<noteq> ''apcore'' \<and> k \<noteq> ''_config'' \<and> bt_get (cg_registry g) k = None) (map fst raw)"

definition config_meta :: "(string \<times> json) list \<Rightarrow> string \<Rightarrow> bool \<Rightarrow> bool" where
  "config_meta raw field absent =
     (case Option.bind (get_path raw [''_config'', field]) as_bool of None \<Rightarrow> absent | Some b \<Rightarrow> b)"

definition apply_allow_unknown ::
  "config_globals \<Rightarrow> (string \<times> json) list \<Rightarrow> (string \<times> json) list \<Rightarrow> (string \<times> json) list" where
  "apply_allow_unknown g raw namespaces =
     (if config_meta raw ''strict'' False \<or> config_meta raw ''allow_unknown'' True then namespaces
      else fold bt_remove (unknown_namespaces g raw) namespaces)"

definition helper_fields :: "string list" where
  "helper_fields = [''modules_path'', ''executor'', ''observability'']"

definition config_of_document :: "config_globals \<Rightarrow> json \<Rightarrow> app_config option" where
  "config_of_document g doc =
     (case doc of
        JObject raw \<Rightarrow>
          if \<exists>f \<in> set legacy_root_fields. bt_get raw (fst f) \<noteq> None then None
          else
            (let apcore = Option.bind (bt_get raw ''apcore'') as_object;
                 core = (case apcore of None \<Rightarrow> raw | Some es \<Rightarrow> fold (\<lambda>(k, v). bt_insert k v) es raw);
                 others = filter (\<lambda>e. fst e \<notin> set helper_fields) core;
                 sections = fold (\<lambda>name m. case Option.bind (bt_get core name) as_object of
                                    None \<Rightarrow> m | Some es \<Rightarrow> bt_insert name (JObject es) m) typed_sections others;
                 namespaces = (case bt_get core ''modules_path'' of
                                 None \<Rightarrow> sections | Some v \<Rightarrow> bt_insert ''modules_path'' v sections)
             in Option.bind (field_of core ''modules_path'' json_opt_str None)
                  (\<lambda>mp. Option.bind (field_of core ''executor'' executor_of_json executor_config_default)
                  (\<lambda>x. Option.bind (field_of core ''observability'' observability_of_json observability_config_default)
                  (\<lambda>ob. Some
                    \<lparr>cf_modules_path = mp, cf_executor = x, cf_observability = ob,
                     cf_user_namespaces =
                       (if apcore = None then namespaces else apply_allow_unknown g raw namespaces),
                     cf_yaml_path = None, cf_mode = (if apcore = None then Legacy else Namespace),
                     cf_generation = 0, cf_mounts = []\<rparr>))))
      | _ \<Rightarrow> None)"

subsection \<open>Loading and reloading\<close>

datatype file_content = Unreadable | Unparsable | Document json

record config_world =
  cw_files :: "string \<Rightarrow> file_content"
  cw_exists :: "string \<Rightarrow> bool"
  cw_env :: "(string \<times> string) list"
  cw_schema_ok :: "json \<Rightarrow> json \<Rightarrow> bool"
  cw_regex_ok :: "string \<Rightarrow> bool"

text \<open>A load registers the built-in namespaces after it has read the document.\<close>

definition load ::
  "config_world \<Rightarrow> string \<Rightarrow> config_globals \<Rightarrow> (module_error + app_config) \<times> config_globals" where
  "load w path g =
     (case cw_files w path of
        Unreadable \<Rightarrow> (Inl (module_error_new ConfigNotFound), g)
      | Unparsable \<Rightarrow> (Inl (module_error_new ConfigInvalid), g)
      | Document doc \<Rightarrow>
          (case config_of_document g doc of
             None \<Rightarrow> (Inl (module_error_new ConfigInvalid), g)
           | Some c0 \<Rightarrow>
               (let g' = init_builtin_namespaces g;
                    c = apply_env_overrides g' (cw_env w) (detect_mode (c0\<lparr>cf_yaml_path := Some path\<rparr>))
                in case validate (cw_schema_ok w) (cw_regex_ok w) g' c of
                     Inl e \<Rightarrow> (Inl e, g')
                   | Inr _ \<Rightarrow> (Inr c, g'))))"

definition from_defaults :: "config_world \<Rightarrow> config_globals \<Rightarrow> app_config \<times> config_globals" where
  "from_defaults w g =
     (let g' = init_builtin_namespaces g
      in (apply_env_overrides g' (cw_env w) (detect_mode app_config_default), g'))"

definition reload ::
  "config_world \<Rightarrow> app_config \<Rightarrow> config_globals \<Rightarrow> (module_error + unit) \<times> app_config \<times> config_globals" where
  "reload w c g =
     (case cf_yaml_path c of
        None \<Rightarrow> (Inl (module_error_new ReloadFailed), c, g)
      | Some path \<Rightarrow>
          (case load w path g of
             (Inl e, g') \<Rightarrow> (Inl e, c, g')
           | (Inr fresh, g') \<Rightarrow>
               (let c1 = fresh\<lparr>cf_generation := (cf_generation c + 1) mod 2 ^ 64, cf_yaml_path := cf_yaml_path c\<rparr>;
                    c2 = fold (\<lambda>(ns, data) c. case as_object data of None \<Rightarrow> c | Some es \<Rightarrow> apply_mount ns es c)
                           (cf_mounts c) c1;
                    c3 = c2\<lparr>cf_mounts := cf_mounts c\<rparr>
                in (validate (cw_schema_ok w) (cw_regex_ok w) g' c3, c3, g'))))"

subsection \<open>Finding the file\<close>

definition user_level_config_candidates :: "(string \<times> string) list \<Rightarrow> string list" where
  "user_level_config_candidates env =
     (case map_of env ''HOME'' of
        None \<Rightarrow> []
      | Some home \<Rightarrow> [home @ ''/.config/apcore/config.yaml'', home @ ''/.apcore/config.yaml''])"

definition discover_config_file :: "config_world \<Rightarrow> string option" where
  "discover_config_file w =
     (case Option.bind (map_of (cw_env w) env_config_file) (\<lambda>p. if p = [] then None else Some p) of
        Some p \<Rightarrow> Some p
      | None \<Rightarrow>
          find (cw_exists w)
            ([''project.yaml'', ''project.yml'', ''apcore.yaml'', ''apcore.yml''] @
             user_level_config_candidates (cw_env w)))"

definition load_or_discover ::
  "config_world \<Rightarrow> config_globals \<Rightarrow> (module_error + app_config) \<times> config_globals" where
  "load_or_discover w g =
     (case discover_config_file w of
        Some path \<Rightarrow> load w path g
      | None \<Rightarrow> (case from_defaults w g of (c, g') \<Rightarrow> (Inr c, g')))"

text \<open>The directory that relative paths are about; \<open>canonical\<close> is the file system's resolution. Paths
  have no empty and no dot components.\<close>

definition is_user_level_config_path ::
  "(string \<Rightarrow> string option) \<Rightarrow> (string \<times> string) list \<Rightarrow> string \<Rightarrow> bool" where
  "is_user_level_config_path canonical env path =
     (let target = (case canonical path of None \<Rightarrow> path | Some p \<Rightarrow> p)
      in \<exists>k \<in> set (user_level_config_candidates env).
           (case canonical k of None \<Rightarrow> k = path | Some p \<Rightarrow> p = target))"

definition parent_dir :: "string \<Rightarrow> string option" where
  "parent_dir p =
     (case split_on CHR ''/'' p of
        [] \<Rightarrow> None
      | parts \<Rightarrow> if butlast parts = [] then (if p = [] then None else Some [])
               else if butlast parts = [[]] then (if last parts = [] then None else Some ''/'')
               else Some (join_with ''/'' (butlast parts)))"

definition project_root ::
  "(string \<Rightarrow> string option) \<Rightarrow> (string \<times> string) list \<Rightarrow> string \<Rightarrow> app_config \<Rightarrow> string" where
  "project_root canonical env cwd c =
     (case cf_yaml_path c of
        None \<Rightarrow> cwd
      | Some source \<Rightarrow>
          if is_user_level_config_path canonical env source then cwd
          else (let full = (case canonical source of
                              Some p \<Rightarrow> p
                            | None \<Rightarrow> if source \<noteq> [] \<and> hd source = CHR ''/'' then source else cwd @ ''/'' @ source)
                in case parent_dir full of None \<Rightarrow> cwd | Some d \<Rightarrow> d))"

end
