(* ===== verification/ConfigFacts.thy ===== *)
theory ConfigFacts
  imports ConfigLoad
begin

section \<open>What loading a configuration guarantees\<close>

text \<open>
  In legacy mode the environment variable of a plain key reaches it, and no variable can blank a path; the globals
  of registered namespaces stay consistent; the matching of suffixes against a namespace's defaults; what a reload keeps.
\<close>

subsection \<open>Names of environment variables\<close>

text \<open>The variable for a key: a dot becomes one underscore, an underscore becomes two.\<close>

fun env_name :: "string \<Rightarrow> string" where
  "env_name [] = []"
| "env_name (c # cs) =
     (if c = CHR ''.'' then CHR ''_'' # env_name cs
      else if c = CHR ''_'' then CHR ''_'' # CHR ''_'' # env_name cs
      else to_ascii_upper c # env_name cs)"

fun addressable :: "string \<Rightarrow> bool" where
  "addressable [] = True"
| "addressable (c # cs) \<longleftrightarrow>
     \<not> is_ascii_upper c \<and> (c = CHR ''.'' \<longrightarrow> cs \<noteq> [] \<longrightarrow> hd cs \<noteq> CHR ''.'' \<and> hd cs \<noteq> CHR ''_'') \<and> addressable cs"

lemma of_char_upper: "(of_char (to_ascii_upper c) :: nat) = (if is_ascii_lower c then of_char c - 32 else of_char c)"
  by (auto simp: to_ascii_upper_def is_ascii_lower_def intro!: mod_less)

lemma lower_upper: "\<not> is_ascii_upper c \<Longrightarrow> to_ascii_lower (to_ascii_upper c) = c"
  using of_char_to_ascii_lower [of "to_ascii_upper c"] of_char_upper [of c] of_char_eq_iff [where ?'a = nat]
  by (auto simp: is_ascii_upper_def is_ascii_lower_def split: if_splits)

lemma lower_underscore [simp]: "to_ascii_lower (CHR ''_'') = CHR ''_''"
  by (simp add: to_ascii_lower_def is_ascii_upper_def)

lemma hd_env_name:
  assumes "addressable cs" and "cs \<noteq> []" and "hd cs \<noteq> CHR ''.''" and "hd cs \<noteq> CHR ''_''"
  shows "map to_ascii_lower (env_name cs) = hd cs # map to_ascii_lower (env_name (tl cs))"
  using assms by (cases cs) (simp_all add: lower_upper)

lemma dot_loop_env_name: "addressable key \<Longrightarrow> dot_loop None (map to_ascii_lower (env_name key)) = key"
proof (induction key)
  case (Cons c cs)
  then have IH: "dot_loop None (map to_ascii_lower (env_name cs)) = cs" by simp
  consider "c = CHR ''_''" | "c = CHR ''.''" "cs = []" | "c = CHR ''.''" "cs \<noteq> []"
    | "c \<noteq> CHR ''_''" "c \<noteq> CHR ''.''" by blast
  then show ?case
  proof cases
    case 3
    with Cons.prems have h: "hd cs \<noteq> CHR ''.''" "hd cs \<noteq> CHR ''_''" "addressable cs" by auto
    with 3 IH show ?thesis using hd_env_name [OF h(3) 3(2) h(1,2)] by simp
  qed (use IH Cons.prems lower_upper [of c] in simp_all)
qed simp

lemma env_name_decodes: "addressable key \<Longrightarrow> env_key_to_dot_path (env_name key) = key"
  by (simp add: env_key_to_dot_path_def env_key_to_dot_path_with_depth_def dot_loop_env_name)

lemma show_int_chars: "c \<in> set (show_int i) \<Longrightarrow> is_ascii_digit c \<or> c = CHR ''-''"
  using all_digits_show_nat by (auto simp: show_int_def all_digits_def list_all_iff split: if_splits)

lemma show_int_no_word:
  assumes "is_ascii_lower (hd w)" and "w \<noteq> []" shows "\<not> eq_ignore_ascii_case (show_int i) w"
proof
  assume "eq_ignore_ascii_case (show_int i) w"
  then have m: "map to_ascii_lower (show_int i) = map to_ascii_lower w" by (simp add: eq_ignore_ascii_case_def)
  then have ne: "show_int i \<noteq> []" using assms(2) by auto
  then have h: "to_ascii_lower (hd (show_int i)) = to_ascii_lower (hd w)"
    using m assms(2) by (metis hd_map)
  have d: "is_ascii_digit (hd (show_int i)) \<or> hd (show_int i) = CHR ''-''"
    using show_int_chars [of "hd (show_int i)" i] ne by simp
  then have "\<not> is_ascii_upper (hd (show_int i))" by (auto simp: is_ascii_digit_def is_ascii_upper_def)
  moreover have "\<not> is_ascii_upper (hd w)" using assms(1) by (auto simp: is_ascii_lower_def is_ascii_upper_def)
  ultimately have "hd (show_int i) = hd w" using h by (simp add: to_ascii_lower_id)
  with d have "is_ascii_digit (hd w) \<or> hd w = CHR ''-''" by simp
  with assms(1) show False by (auto simp: is_ascii_digit_def is_ascii_lower_def)
qed

lemma coerce_show_int: "i64_fits i \<Longrightarrow> coerce_env_value (show_int i) = number_of_int i"
  using show_int_no_word [of "''true''" i] show_int_no_word [of "''false''" i]
  by (simp add: coerce_env_value_def parse_show_int is_ascii_lower_def)

lemma framework_keys_addressable: "list_all addressable framework_config_keys"
  unfolding framework_config_keys_def by (simp add: is_ascii_upper_def)

text \<open>In legacy mode the variable named after a key, dots as single and underscores as double underscores, sets
  exactly that key, and an integer of 64 bits arrives as that integer, whatever the configuration holds. This
  holds of every addressable key, one without upper-case letters and without an underscore or a dot right after a
  dot, other than \<open>config.file\<close>, that is not path-typed, is not qualified with \<open>apcore.\<close>, and whose variable is not
  mapped to another key; all of the framework's listed keys are addressable.\<close>

theorem environment_reaches_every_key:
  assumes "addressable key" and "i64_fits i" and "key \<noteq> ''config.file''" and "cf_mode c = Legacy"
    and "bt_get (cg_env_map g) (''APCORE_'' @ env_name key) = None" and "\<not> is_path_typed_key key"
    and "\<not> prefix ''apcore.'' key"
  shows "apply_env_overrides g [(''APCORE_'' @ env_name key, show_int i)] c = set_key key (number_of_int i) c
    \<and> list_all addressable framework_config_keys"
proof
  have "env_key_to_dot_path ''CONFIG_FILE'' = ''config.file''"
    by code_simp
  then have "''APCORE_'' @ env_name key \<noteq> env_config_file"
    using env_name_decodes [OF assms(1)] assms(3) by (auto simp: env_config_file_def)
  moreover have "strip_pfx ''APCORE_'' (''APCORE_'' @ env_name key) = Some (env_name key)"
    by (simp add: strip_pfx_def)
  ultimately have "apply_legacy_override g (''APCORE_'' @ env_name key, show_int i) c
      = apply_one_env_override key (number_of_int i) c"
    using assms(5) unfolding apply_legacy_override_def
    by (simp only: prod.case option.case if_False coerce_show_int [OF assms(2)] env_name_decodes [OF assms(1)])
  also have "\<dots> = set_key key (number_of_int i) c"
    using assms(6,7) by (simp add: apply_one_env_override_def strip_pfx_def Let_def)
  finally show "apply_env_overrides g [(''APCORE_'' @ env_name key, show_int i)] c = set_key key (number_of_int i) c"
    using assms(4) by (simp add: apply_env_overrides_def del: append.simps)
  show "list_all addressable framework_config_keys" by (rule framework_keys_addressable)
qed

theorem environment_reaches_every_key_witness:
  "apply_env_overrides globals_new [(''APCORE_EXECUTOR_MAX__CALL__DEPTH'', ''-7'')] app_config_default
     = set_key ''executor.max_call_depth'' (number_of_int (- 7)) app_config_default"
proof -
  have "addressable ''executor.max_call_depth''" by (simp add: is_ascii_upper_def)
  moreover have "env_name ''executor.max_call_depth'' = ''EXECUTOR_MAX__CALL__DEPTH''"
    by code_simp
  moreover have "show_int (- 7) = ''-7''" by code_simp
  moreover have "\<not> is_path_typed_key ''executor.max_call_depth''" by code_simp
  ultimately show ?thesis
    using environment_reaches_every_key [of "''executor.max_call_depth''" "- 7" app_config_default globals_new]
    by (simp add: i64_fits_def app_config_default_def globals_new_def)
qed

subsection \<open>Empty overrides\<close>

definition scalar :: "json \<Rightarrow> bool" where
  "scalar v \<longleftrightarrow> as_object v = None"

lemma coerced_scalar: "scalar (coerce_env_value s)"
  by (simp add: coerce_env_value_def scalar_def number_of_int_def number_of_f64_def split: option.split)

lemma put_path_above: "q \<noteq> [] \<Longrightarrow> r \<noteq> [] \<Longrightarrow> \<exists>es. get_path (put_path (q @ r) v m) q = Some (JObject es)"
proof (induction q arbitrary: m)
  case (Cons p ps)
  show ?case
  proof (cases ps)
    case Nil
    with Cons.prems obtain x xs where "r = x # xs" by (cases r) auto
    with Nil show ?thesis by (simp add: bt_get_insert_any)
  next
    case (Cons p' ps')
    then show ?thesis
      using Cons.IH Cons.prems by (auto simp: get_path_insert walk_parts_get_path simp del: get_path.simps walk_parts.simps)
  qed
qed simp

text \<open>A write of a scalar makes a string appear only at its own path.\<close>

lemma write_shows_string:
  assumes "get_path (put_path p v m) q = Some (JString x)" and "scalar v" and "p \<noteq> []"
  shows "get_path m q = Some (JString x) \<or> (p = q \<and> v = JString x)"
proof -
  consider "q = p" | r where "q = p @ r" "r \<noteq> []" | r where "p = q @ r" "r \<noteq> []" "q \<noteq> []" | "q = []"
    | "\<not> prefix p q" "\<not> prefix q p"
    by (metis append_self_conv2 append_Nil2 prefix_def)
  then show ?thesis
  proof cases
    case 1
    with assms(1,3) show ?thesis by (auto simp: doc.look_same)
  next
    case (2 r)
    with assms show ?thesis by (simp add: doc.look_below scalar_def walk_scalar)
  next
    case (3 r)
    with assms(1) put_path_above [of q r v m] show ?thesis by auto
  next
    case 4
    with assms(1) show ?thesis by simp
  next
    case 5
    with assms(1) show ?thesis by (simp add: doc.look_apart)
  qed
qed

definition holds_empty :: "string \<Rightarrow> app_config \<Rightarrow> bool" where
  "holds_empty q c \<longleftrightarrow> get_path (cf_user_namespaces c) (segs q) = Some (JString [])"

lemma segs_inject: "segs p = segs q \<Longrightarrow> p = q"
  by (metis join_split_on)

lemma path_typed_unqualified: "is_path_typed_key k \<Longrightarrow> \<not> prefix ''apcore.'' k"
proof -
  have "list_all (\<lambda>d. \<not> prefix ''apcore.'' (case strip_list_marker d of None \<Rightarrow> d | Some l \<Rightarrow> l)) path_typed_config_keys"
    by code_simp
  then show "is_path_typed_key k \<Longrightarrow> \<not> prefix ''apcore.'' k" by (auto simp: is_path_typed_key_def list_all_iff)
qed

lemma override_keeps_nonempty:
  assumes "is_path_typed_key k" and "q = k \<or> q = ''apcore.'' @ k" and "scalar v"
    and "holds_empty q (apply_one_env_override p v c)"
  shows "holds_empty q c"
proof (cases "apply_one_env_override p v c = c")
  case False
  then have set: "apply_one_env_override p v c = set_key p v c"
    and n: "\<not> (is_path_typed_key (case strip_pfx ''apcore.'' p of None \<Rightarrow> p | Some k \<Rightarrow> k) \<and> v = JString [])"
    by (auto simp: apply_one_env_override_def Let_def split: if_splits)
  have k: "strip_pfx ''apcore.'' k = None" "strip_pfx ''apcore.'' (''apcore.'' @ k) = Some k"
    using path_typed_unqualified [OF assms(1)] by (simp_all add: strip_pfx_def)
  have "\<not> (p = q \<and> v = JString [])"
  proof
    assume "p = q \<and> v = JString []"
    with assms(2) n k assms(1) show False by (elim disjE) (simp_all only: option.case simp_thms)
  qed
  with assms(3,4) set write_shows_string [of "segs p" v "cf_user_namespaces c" "segs q" "[]"] segs_inject [of p q]
  show ?thesis by (auto simp: holds_empty_def)
qed (use assms in simp)

lemma fold_backwards:
  assumes step: "\<And>e c. P (f e c) \<Longrightarrow> P c"
  shows "P (fold f es c) \<Longrightarrow> P c"
proof (induction es arbitrary: c)
  case (Cons e es)
  have "P (f e c)" by (rule Cons.IH) (use Cons.prems in simp)
  then show ?case by (rule step)
qed simp

lemma legacy_override_cases:
  "(\<exists>p v. apply_legacy_override g (var, x) c = apply_one_env_override p (coerce_env_value v) c) \<or>
     apply_legacy_override g (var, x) c = c"
proof (cases "bt_get (cg_env_map g) var")
  case None
  then show ?thesis
    by (cases "var = env_config_file"; cases "strip_pfx ''APCORE_'' var")
      (simp_all add: apply_legacy_override_def, blast+)
qed (simp add: apply_legacy_override_def, blast)

lemma namespace_override_cases:
  "(\<exists>p v. apply_namespace_override g (var, x) c = apply_one_env_override p (coerce_env_value v) c) \<or>
     apply_namespace_override g (var, x) c = c"
  by (cases "namespace_env_key g var") (simp_all add: apply_namespace_override_def, blast)

lemma overrides_keep_nonempty:
  assumes "is_path_typed_key k" and "q = k \<or> q = ''apcore.'' @ k"
    and "holds_empty q (apply_env_overrides g env c)"
  shows "holds_empty q c"
proof -
  have step: "holds_empty q (apply_one_env_override p (coerce_env_value v) c) \<Longrightarrow> holds_empty q c" for p v c
    by (rule override_keeps_nonempty [OF assms(1,2) coerced_scalar])
  have "holds_empty q (apply_legacy_override g e c) \<Longrightarrow> holds_empty q c"
    "holds_empty q (apply_namespace_override g e c) \<Longrightarrow> holds_empty q c" for e c
    using legacy_override_cases [of g "fst e" "snd e" c] namespace_override_cases [of g "fst e" "snd e" c] step
    by (metis prod.collapse)+
  then show ?thesis
    using assms(3) fold_backwards [of "holds_empty q" "apply_legacy_override g"]
      fold_backwards [of "holds_empty q" "apply_namespace_override g"]
    unfolding apply_env_overrides_def by (metis (full_types))
qed

text \<open>C39: the environment never blanks a directory. If a path-typed key is declared as the empty string
  after all environment overrides, in either mode and in whatever order and through whatever mapping the
  variables came, then the document itself held the empty string at that key, or under the qualified
  one.\<close>

theorem environment_never_blanks_a_path:
  assumes "is_path_typed_key k" and "key_ok k" and "dotless g"
    and "get_declared g (apply_env_overrides g env c) k = Some (JString [])"
  shows "get_as_written g c k = Some (JString []) \<or> get_as_written g c (''apcore.'' @ k) = Some (JString [])"
proof -
  let ?c' = "apply_env_overrides g env c"
  have w: "get_as_written g c'' k = get_path (cf_user_namespaces c'') (segs k)"
    "get_as_written g c'' (''apcore.'' @ k) = get_path (cf_user_namespaces c'') (segs (''apcore.'' @ k))" for c''
    by (rule as_written_path [OF assms(3,2)], rule as_written_path [OF assms(3) key_ok_apcore [OF assms(2)]])
  have "holds_empty k ?c' \<or> holds_empty (''apcore.'' @ k) ?c'"
    using assms(4) unfolding get_declared_def holds_empty_def w by (auto split: option.splits if_splits)
  then have "holds_empty k c \<or> holds_empty (''apcore.'' @ k) c"
    using overrides_keep_nonempty [OF assms(1)] by blast
  then show ?thesis unfolding w holds_empty_def .
qed

definition blank_acl_root :: app_config where
  "blank_acl_root = app_config_default\<lparr>cf_user_namespaces := [(''acl'', JObject [(''root'', JString [])])]\<rparr>"

theorem environment_never_blanks_a_path_witness:
  "get_as_written globals_new blank_acl_root ''acl.root'' = Some (JString []) \<or>
   get_as_written globals_new blank_acl_root ''apcore.acl.root'' = Some (JString [])"
proof -
  have n: "env_key_to_dot_path ''ACL_ROOT'' = ''acl.root''" "is_path_typed_key ''acl.root''" "coerce_env_value [] = JString []"
    by code_simp+
  then have "apply_one_env_override ''acl.root'' (JString []) blank_acl_root = blank_acl_root"
    by (simp add: apply_one_env_override_def strip_pfx_def)
  with n have "apply_env_overrides globals_new [(''APCORE_ACL_ROOT'', [])] blank_acl_root = blank_acl_root"
    by (simp add: apply_env_overrides_def apply_legacy_override_def globals_new_def env_config_file_def strip_pfx_def
        blank_acl_root_def app_config_default_def)
  moreover have "dotless globals_new" "key_ok ''acl.root''" by (simp_all add: dotless_def globals_new_def key_ok_def)
  moreover have "get_declared globals_new blank_acl_root ''acl.root'' = Some (JString [])"
    using as_written_path [OF \<open>dotless globals_new\<close> \<open>key_ok ''acl.root''\<close>, of blank_acl_root]
    by (simp add: get_declared_def blank_acl_root_def bt_get_Cons)
  ultimately show ?thesis
    using environment_never_blanks_a_path [OF n(2), of globals_new "[(''APCORE_ACL_ROOT'', [])]" blank_acl_root] by simp
qed

subsection \<open>Registered namespaces\<close>

text \<open>What the process globals can become.\<close>

inductive globals_reachable :: "config_globals \<Rightarrow> bool" where
  reach_new: "globals_reachable globals_new"
| reach_namespace: "globals_reachable g \<Longrightarrow> globals_reachable (snd (register_namespace reg g))"
| reach_env_map: "globals_reachable g \<Longrightarrow> globals_reachable (snd (env_map mapping g))"

definition ns_vars :: "namespace_registration \<Rightarrow> string set" where
  "ns_vars r = (case nr_env_map r of None \<Rightarrow> {} | Some em \<Rightarrow> fst ` set em)"

definition claimed_vars :: "config_globals \<Rightarrow> string set" where
  "claimed_vars g = fst ` set (cg_claimed g)"

definition global_vars :: "config_globals \<Rightarrow> string set" where
  "global_vars g = fst ` set (cg_env_map g)"

definition reg_ok :: "config_globals \<Rightarrow> string \<times> namespace_registration \<Rightarrow> bool" where
  "reg_ok g e \<longleftrightarrow>
     nr_name (snd e) = fst e \<and> fst e \<notin> set reserved_namespaces \<and>
     nr_env_prefix (snd e) \<noteq> None \<and> nr_env_prefix (snd e) \<noteq> Some ''APCORE'' \<and>
     ns_vars (snd e) \<subseteq> claimed_vars g \<and> ns_vars (snd e) \<inter> global_vars g = {}"

definition regs_apart :: "string \<times> namespace_registration \<Rightarrow> string \<times> namespace_registration \<Rightarrow> bool" where
  "regs_apart e e' \<longleftrightarrow>
     (fst e \<noteq> fst e' \<longrightarrow> nr_env_prefix (snd e) \<noteq> nr_env_prefix (snd e') \<and> ns_vars (snd e) \<inter> ns_vars (snd e') = {})"

definition globals_ok :: "config_globals \<Rightarrow> bool" where
  "globals_ok g \<longleftrightarrow>
     bt_ok (cg_registry g) \<and> (\<forall>e \<in> set (cg_registry g). reg_ok g e) \<and>
     (\<forall>e \<in> set (cg_registry g). \<forall>e' \<in> set (cg_registry g). regs_apart e e') \<and> global_vars g \<subseteq> claimed_vars g"

lemma keys_fold_insert:
  "fst ` set (fold (\<lambda>v. bt_insert v owner) vs m) = set vs \<union> fst ` set m"
  "fst ` set (fold (\<lambda>(v, key). bt_insert v key) kvs m') = fst ` set kvs \<union> fst ` set m'"
proof -
  have k: "fst ` set (bt_insert k v m) = insert k (fst ` set m)" for k v and m :: "('a::linorder \<times> 'b) list"
    using keys_bt_insert [of k v m] by simp
  have k': "fst ` set (bt_insert k v m) = insert k (fst ` set m)" for k v and m :: "('c::linorder \<times> 'd) list"
    using keys_bt_insert [of k v m] by simp
  show "fst ` set (fold (\<lambda>v. bt_insert v owner) vs m) = set vs \<union> fst ` set m"
    by (induction vs arbitrary: m) (simp_all add: k)
  show "fst ` set (fold (\<lambda>(v, key). bt_insert v key) kvs m') = fst ` set kvs \<union> fst ` set m'"
    by (induction kvs arbitrary: m') (simp_all add: k' case_prod_beta)
qed

lemma claimed_variable_None:
  assumes "claimed_variable mapping g = None" shows "fst ` set mapping \<inter> claimed_vars g = {}"
proof (cases "find (\<lambda>v. bt_get (cg_claimed g) v \<noteq> None) (map fst mapping)")
  case None
  then have "\<forall>v \<in> fst ` set mapping. bt_get (cg_claimed g) v = None" by (auto simp: find_None_iff)
  then show ?thesis by (auto simp: bt_get_None_iff claimed_vars_def)
next
  case (Some v)
  with assms find_Some_member [OF Some] show ?thesis by (auto simp: claimed_variable_def)
qed

lemma globals_ok_add:
  assumes g: "globals_ok g" and r: "nr_name r \<notin> set reserved_namespaces" "nr_env_prefix r = Some p" "p \<noteq> ''APCORE''"
    and f: "bt_get (cg_registry g) (nr_name r) = None" "\<forall>e \<in> set (cg_registry g). nr_env_prefix (snd e) \<noteq> Some p"
    and c: "ns_vars r \<inter> claimed_vars g = {}" "fst ` set claimed = ns_vars r \<union> claimed_vars g"
  shows "globals_ok (g\<lparr>cg_claimed := claimed, cg_registry := bt_insert (nr_name r) r (cg_registry g)\<rparr>)"
    (is "globals_ok ?g")
proof -
  have n: "nr_name r \<notin> fst ` set (cg_registry g)" using f(1) by (simp add: bt_get_None_iff)
  then have s: "set (cg_registry ?g) = insert (nr_name r, r) (set (cg_registry g))"
    using g set_bt_insert [of "cg_registry g" "nr_name r" r] by (auto simp: globals_ok_def image_iff)
  have v: "claimed_vars ?g = ns_vars r \<union> claimed_vars g" "global_vars ?g = global_vars g"
    using c(2) by (simp_all add: claimed_vars_def global_vars_def)
  have old: "reg_ok g e" "global_vars g \<subseteq> claimed_vars g" if "e \<in> set (cg_registry g)" for e
    using g that by (auto simp: globals_ok_def)
  have gl: "global_vars g \<subseteq> claimed_vars g" using g by (simp add: globals_ok_def)
  have 1: "reg_ok ?g e" if "e \<in> set (cg_registry ?g)" for e
  proof (cases "e = (nr_name r, r)")
    case True
    with r c(1) gl show ?thesis unfolding reg_ok_def v by auto
  next
    case False
    with that s old [of e] show ?thesis unfolding reg_ok_def v by auto
  qed
  have new: "regs_apart (nr_name r, r) e \<and> regs_apart e (nr_name r, r)" if "e \<in> set (cg_registry g)" for e
    using old(1) [OF that] f(2) r(2) c(1) that unfolding regs_apart_def reg_ok_def by force
  have "regs_apart (nr_name r, r) (nr_name r, r)" by (simp add: regs_apart_def)
  with new g have 2: "\<forall>e \<in> set (cg_registry ?g). \<forall>e' \<in> set (cg_registry ?g). regs_apart e e'"
    unfolding s by (auto simp: globals_ok_def)
  have "bt_ok (cg_registry ?g)" using g by (simp add: globals_ok_def bt_ok_insert)
  with 1 2 gl show ?thesis unfolding globals_ok_def v by auto
qed

lemma globals_ok_register:
  assumes "globals_ok g" shows "globals_ok (snd (register_namespace reg g))"
proof -
  let ?p = "case nr_env_prefix reg of None \<Rightarrow> derived_prefix (nr_name reg) | Some p \<Rightarrow> p"
  let ?r = "reg\<lparr>nr_env_prefix := Some ?p\<rparr>"
  show ?thesis
  proof (cases "snd (register_namespace reg g) = g")
    case True
    with assms show ?thesis by simp
  next
    case False
    then have c: "nr_name reg \<notin> set reserved_namespaces" "\<not> (?p = ''APCORE'' \<and> nr_name reg \<noteq> ''apcore'')"
      "bt_get (cg_registry g) (nr_name reg) = None" "\<forall>e \<in> set (cg_registry g). nr_env_prefix (snd e) \<noteq> Some ?p"
      by (auto simp: register_namespace_def Let_def split: if_splits)
    have a: "?p \<noteq> ''APCORE''" using c(1,2) by (auto simp: reserved_namespaces_def)
    show ?thesis
    proof (cases "nr_env_map reg")
      case None
      have "globals_ok (g\<lparr>cg_claimed := cg_claimed g, cg_registry := bt_insert (nr_name ?r) ?r (cg_registry g)\<rparr>)"
        by (rule globals_ok_add [OF assms]) (use c a None in \<open>simp_all add: ns_vars_def claimed_vars_def\<close>)
      with c a None show ?thesis by (simp add: register_namespace_def Let_def)
    next
      case (Some em)
      with False c a have cv: "claimed_variable em g = None"
        by (auto simp: register_namespace_def Let_def split: option.splits if_splits)
      let ?cl = "fold (\<lambda>v. bt_insert v (nr_name reg)) (map fst em) (cg_claimed g)"
      have "globals_ok (g\<lparr>cg_claimed := ?cl, cg_registry := bt_insert (nr_name ?r) ?r (cg_registry g)\<rparr>)"
        by (rule globals_ok_add [OF assms])
          (use c a Some claimed_variable_None [OF cv] in \<open>simp_all add: ns_vars_def keys_fold_insert claimed_vars_def\<close>)
      with c a Some cv show ?thesis by (simp add: register_namespace_def Let_def claim_all_def)
    qed
  qed
qed

lemma globals_ok_env_map:
  assumes "globals_ok g" shows "globals_ok (snd (env_map mapping g))"
proof (cases "claimed_variable mapping g")
  case None
  then have d: "fst ` set mapping \<inter> claimed_vars g = {}" by (rule claimed_variable_None)
  let ?g = "snd (env_map mapping g)"
  have v: "claimed_vars ?g = fst ` set mapping \<union> claimed_vars g" "global_vars ?g = fst ` set mapping \<union> global_vars g"
    "cg_registry ?g = cg_registry g"
    using None by (simp_all add: env_map_def claim_all_def Let_def claimed_vars_def global_vars_def keys_fold_insert)
  have "reg_ok ?g e" if "e \<in> set (cg_registry g)" for e
  proof -
    have "reg_ok g e" using assms that by (simp add: globals_ok_def)
    with d show ?thesis unfolding reg_ok_def v by auto
  qed
  with assms show ?thesis unfolding globals_ok_def v by auto
qed (use assms in \<open>auto simp: env_map_def\<close>)

lemma globals_reachable_ok: "globals_reachable g \<Longrightarrow> globals_ok g"
  by (induction rule: globals_reachable.induct)
    (simp add: globals_ok_def globals_new_def global_vars_def, simp_all add: globals_ok_register globals_ok_env_map)

text \<open>C40: registered namespaces never collide. However namespaces and environment maps are registered, two
  different entries of the registry have different environment prefixes and share no mapped variable, no
  variable is mapped both by a namespace and globally, every namespace has a prefix, which is not the
  framework's, and no reserved name is registered.\<close>

theorem namespaces_never_collide:
  assumes "globals_reachable g" and "bt_get (cg_registry g) n = Some r" and "bt_get (cg_registry g) n' = Some r'"
    and "n \<noteq> n'"
  shows "nr_name r = n \<and> n \<notin> set reserved_namespaces \<and> nr_env_prefix r \<notin> {None, Some ''APCORE'', nr_env_prefix r'} \<and>
    ns_vars r \<inter> (ns_vars r' \<union> global_vars g) = {}"
proof -
  have g: "globals_ok g" using assms(1) by (rule globals_reachable_ok)
  have m: "(n, r) \<in> set (cg_registry g)" "(n', r') \<in> set (cg_registry g)"
    using assms(2,3) g by (simp_all add: globals_ok_def bt_get_entry)
  then have "reg_ok g (n, r)" "regs_apart (n, r) (n', r')" using g by (auto simp: globals_ok_def)
  with assms(4) show ?thesis by (auto simp: reg_ok_def regs_apart_def)
qed

definition sample_namespace :: "string \<Rightarrow> string \<Rightarrow> namespace_registration" where
  "sample_namespace name var =
     \<lparr>nr_name = name, nr_env_prefix = None, nr_defaults = None, nr_schema = None,
      nr_env_style = Auto, nr_max_depth = default_max_depth, nr_env_map = Some [(var, ''key'')]\<rparr>"

definition two_namespaces :: config_globals where
  "two_namespaces = snd (register_namespace (sample_namespace ''mail-box'' ''MB'')
     (snd (register_namespace (sample_namespace ''cache'' ''CA'') globals_new)))"

theorem namespaces_never_collide_witness:
  "\<exists>r r'. bt_get (cg_registry two_namespaces) ''cache'' = Some r \<and> bt_get (cg_registry two_namespaces) ''mail-box'' = Some r' \<and>
     nr_env_prefix r \<noteq> nr_env_prefix r' \<and> ns_vars r = {''CA''} \<and> ns_vars r' = {''MB''}"
proof -
  have u: "derived_prefix ''cache'' = ''CACHE''" "derived_prefix ''mail-box'' = ''MAIL_BOX''" by code_simp+
  have 1: "bt_get (cg_registry two_namespaces) ''cache'' = Some (sample_namespace ''cache'' ''CA''\<lparr>nr_env_prefix := Some ''CACHE''\<rparr>)"
    "bt_get (cg_registry two_namespaces) ''mail-box'' = Some (sample_namespace ''mail-box'' ''MB''\<lparr>nr_env_prefix := Some ''MAIL_BOX''\<rparr>)"
    by (simp_all add: two_namespaces_def register_namespace_def sample_namespace_def globals_new_def reserved_namespaces_def u
        claimed_variable_def claim_all_def bt_get_insert_any bt_get_Cons Let_def)
  have "globals_reachable two_namespaces"
    unfolding two_namespaces_def by (intro reach_namespace reach_new)
  from namespaces_never_collide [OF this 1] 1 show ?thesis by (simp add: ns_vars_def sample_namespace_def)
qed

subsection \<open>What a reload leaves\<close>

text \<open>The comment in \<open>reload\<close> has the file win over the mounts; the mounts are merged over it.\<close>

lemma mount_overrides_file:
  assumes "bt_get (cf_user_namespaces c) ns = Some (JObject es)" and "distinct (map fst ds)"
    and "bt_get ds k = Some v" and "as_object v = None"
  shows "get_path (cf_user_namespaces (apply_mount ns ds c)) [ns, k] = Some v"
  using assms by (auto simp: apply_mount_def bt_get_insert_any merge_lookup deep_merge_scalar split: option.split)

text \<open>The prefix of a namespace also takes the names that only begin with it: there is no word boundary.\<close>

lemma prefix_swallows_other_names:
  assumes "nr_env_prefix r = Some p" and "sfx \<noteq> []" and "hd sfx \<noteq> CHR ''_''"
  shows "suffix_for (p @ sfx) r = Some sfx"
  using assms by (auto simp: suffix_for_def strip_pfx_def neq_Nil_conv split: option.splits)

text \<open>The first load of a process reads the document before the built-in namespaces are registered, so a
  document that allows no unknown namespace loses its own \<open>sys_modules\<close> section.\<close>

lemma first_load_drops_builtin_namespaces:
  fixes raw :: "(string \<times> json) list"
  defines "raw \<equiv> [(''_config'', JObject [(''allow_unknown'', JBool False)]), (''apcore'', JObject []),
                  (''sys_modules'', flag True)]"
  shows "map_option (\<lambda>c. bt_get (cf_user_namespaces c) ''sys_modules'') (config_of_document globals_new (JObject raw)) = Some None"
  by (simp add: raw_def config_of_document_def legacy_root_fields_def bt_get_Cons field_of_def helper_fields_def
        typed_sections_def flag_def apply_allow_unknown_def config_meta_def unknown_namespaces_def globals_new_def
        observability_ns_def executor_ns_def bt_get_remove)

end
