(* ===== verification/Middlewares.thy ===== *)
theory Middlewares
  imports Contexts
begin

section \<open>Module middlewares\<close>

text \<open>
  \<open>src/src/middleware/manager.rs\<close> and the trait of \<open>base.rs\<close>. A middleware is a trait object:
  its name, its priority and its hooks, which are functions of the world \<open>'w\<close>. The three locked
  vectors of the manager are fields of one record; a warning about a duplicate is an entry of
  \<open>mm_duplicates\<close>, with the identity and the two registration sites.
\<close>

subsection \<open>The trait\<close>

datatype on_error_outcome = Recovery json | Retry json

type_synonym 'w before_hook =
  "string \<Rightarrow> json \<Rightarrow> json call_context \<Rightarrow> 'w \<Rightarrow> (module_error + json option) \<times> 'w"
type_synonym 'w after_hook =
  "string \<Rightarrow> json \<Rightarrow> json \<Rightarrow> json call_context \<Rightarrow> 'w \<Rightarrow> (module_error + json option) \<times> 'w"
type_synonym 'w error_hook =
  "string \<Rightarrow> json \<Rightarrow> module_error \<Rightarrow> json call_context \<Rightarrow> 'w \<Rightarrow> (module_error + json option) \<times> 'w"
type_synonym 'w outcome_hook =
  "string \<Rightarrow> json \<Rightarrow> module_error \<Rightarrow> json call_context \<Rightarrow> 'w \<Rightarrow> (module_error + on_error_outcome option) \<times> 'w"

record 'w middleware =
  mw_name :: string
  mw_priority :: nat
  mw_before :: "'w before_hook"
  mw_after :: "'w after_hook"
  mw_on_error_outcome :: "'w outcome_hook"

text \<open>The provided \<open>on_error_outcome\<close>: whatever \<open>on_error\<close> returns is a recovery.\<close>

definition default_outcome :: "'w error_hook \<Rightarrow> 'w outcome_hook" where
  "default_outcome on_error m inputs e ctx w =
     (case on_error m inputs e ctx w of
        (Inl err, w') \<Rightarrow> (Inl err, w')
      | (Inr v, w') \<Rightarrow> (Inr (map_option Recovery v), w'))"

subsection \<open>The manager\<close>

record mw_registration =
  rn_identity :: string
  rn_allow_duplicate :: bool
  rn_location :: string

record 'w mw_manager =
  mm_middlewares :: "'w middleware list"
  mm_handles :: "nat list"
  mm_identities :: "string option list"
  mm_next_handle :: nat
  mm_registered :: "(string \<times> string) list"
  mm_duplicates :: "(string \<times> string \<times> string) list"

definition manager_new :: "'w mw_manager" where
  "manager_new =
     \<lparr>mm_middlewares = [], mm_handles = [], mm_identities = [], mm_next_handle = 0, mm_registered = [],
      mm_duplicates = []\<rparr>"

definition note_identity :: "mw_registration \<Rightarrow> 'w mw_manager \<Rightarrow> 'w mw_manager" where
  "note_identity r mm =
     (case bt_get (mm_registered mm) (rn_identity r) of
        Some first \<Rightarrow>
          if rn_allow_duplicate r then mm
          else mm\<lparr>mm_duplicates := mm_duplicates mm @ [(rn_identity r, first, rn_location r)]\<rparr>
      | None \<Rightarrow> mm\<lparr>mm_registered := bt_insert (rn_identity r) (rn_location r) (mm_registered mm)\<rparr>)"

text \<open>The position: before the first middleware of a lower priority.\<close>

fun priority_slot :: "nat \<Rightarrow> 'w middleware list \<Rightarrow> nat" where
  "priority_slot p [] = 0"
| "priority_slot p (m # ms) = (if mw_priority m < p then 0 else Suc (priority_slot p ms))"

definition put_at :: "nat \<Rightarrow> 'a \<Rightarrow> 'a list \<Rightarrow> 'a list" where
  "put_at i x xs = take i xs @ x # drop i xs"

definition remove_at :: "nat \<Rightarrow> 'a list \<Rightarrow> 'a list" where
  "remove_at i xs = take i xs @ drop (Suc i) xs"

definition insert_middleware ::
  "'w middleware \<Rightarrow> mw_registration option \<Rightarrow> 'w mw_manager \<Rightarrow> (module_error + nat) \<times> 'w mw_manager" where
  "insert_middleware mw reg mm =
     (if mw_priority mw > 1000 then (Inl (module_error_new GeneralInvalidInput), mm)
      else
        (let mm1 = (case reg of None \<Rightarrow> mm | Some r \<Rightarrow> note_identity r mm);
             pos = priority_slot (mw_priority mw) (mm_middlewares mm1);
             handle = mm_next_handle mm1
         in (Inr handle,
             mm1\<lparr>mm_middlewares := put_at pos mw (mm_middlewares mm1),
                 mm_handles := put_at pos handle (mm_handles mm1),
                 mm_identities := put_at pos (map_option rn_identity reg) (mm_identities mm1),
                 mm_next_handle := handle + 1\<rparr>)))"

definition add_shared :: "'w middleware \<Rightarrow> 'w mw_manager \<Rightarrow> (module_error + nat) \<times> 'w mw_manager" where
  "add_shared mw = insert_middleware mw None"

definition add_detecting_duplicates ::
  "string \<Rightarrow> 'w middleware \<Rightarrow> 'w mw_manager \<Rightarrow> (module_error + nat) \<times> 'w mw_manager" where
  "add_detecting_duplicates location mw =
     insert_middleware mw
       (Some \<lparr>rn_identity = mw_name mw, rn_allow_duplicate = False, rn_location = location\<rparr>)"

text \<open>\<open>type_name\<close> is the name of the middleware's Rust type.\<close>

definition add_with_opts ::
  "string \<Rightarrow> string \<Rightarrow> bool \<Rightarrow> string option \<Rightarrow> 'w middleware \<Rightarrow> 'w mw_manager
     \<Rightarrow> (module_error + nat) \<times> 'w mw_manager" where
  "add_with_opts location type_name allow_duplicate identity_key mw =
     insert_middleware mw
       (Some \<lparr>rn_identity = (case identity_key of None \<Rightarrow> type_name | Some k \<Rightarrow> k),
              rn_allow_duplicate = allow_duplicate, rn_location = location\<rparr>)"

definition identity_registered :: "'w mw_manager \<Rightarrow> string \<Rightarrow> bool" where
  "identity_registered mm i \<longleftrightarrow> bt_get (mm_registered mm) i \<noteq> None"

definition forget_identity_at :: "nat \<Rightarrow> 'w mw_manager \<Rightarrow> 'w mw_manager" where
  "forget_identity_at i mm =
     (if i \<ge> length (mm_identities mm) then mm
      else
        (let ids = remove_at i (mm_identities mm);
             mm1 = mm\<lparr>mm_identities := ids\<rparr>
         in case mm_identities mm ! i of
              None \<Rightarrow> mm1
            | Some identity \<Rightarrow>
                if Some identity \<in> set ids then mm1
                else mm1\<lparr>mm_registered := bt_remove identity (mm_registered mm)\<rparr>))"

fun index_where :: "('a \<Rightarrow> bool) \<Rightarrow> 'a list \<Rightarrow> nat option" where
  "index_where P [] = None"
| "index_where P (x # xs) = (if P x then Some 0 else map_option Suc (index_where P xs))"

definition remove_index :: "nat \<Rightarrow> 'w mw_manager \<Rightarrow> 'w mw_manager" where
  "remove_index i mm =
     forget_identity_at i
       (mm\<lparr>mm_middlewares := remove_at i (mm_middlewares mm), mm_handles := remove_at i (mm_handles mm)\<rparr>)"

definition remove_named :: "string \<Rightarrow> 'w mw_manager \<Rightarrow> bool \<times> 'w mw_manager" where
  "remove_named name mm =
     (case index_where (\<lambda>m. mw_name m = name) (mm_middlewares mm) of
        None \<Rightarrow> (False, mm)
      | Some i \<Rightarrow> (True, remove_index i mm))"

definition remove_mw_handle :: "nat \<Rightarrow> 'w mw_manager \<Rightarrow> bool \<times> 'w mw_manager" where
  "remove_mw_handle h mm =
     (case index_where (\<lambda>x. x = h) (mm_handles mm) of
        None \<Rightarrow> (False, mm)
      | Some i \<Rightarrow> (True, remove_index i mm))"

definition snapshot_names :: "'w mw_manager \<Rightarrow> string list" where
  "snapshot_names mm = map mw_name (mm_middlewares mm)"

definition find_by_name :: "string \<Rightarrow> 'w mw_manager \<Rightarrow> 'w middleware option" where
  "find_by_name name mm = find (\<lambda>m. mw_name m = name) (mm_middlewares mm)"

subsection \<open>Running the chain\<close>

definition executed_json :: "nat list \<Rightarrow> json" where
  "executed_json xs = JArray (map json_nat xs)"

definition before_chain_error :: "nat list \<Rightarrow> module_error \<Rightarrow> module_error" where
  "before_chain_error executed e =
     with_details (details_of [(''inner_error'', error_to_json e), (''executed_middlewares'', executed_json executed)])
       (module_error_new MiddlewareChainError)"

fun before_loop ::
  "string \<Rightarrow> json call_context \<Rightarrow> 'w middleware list \<Rightarrow> nat \<Rightarrow> json \<Rightarrow> 'w \<Rightarrow> (module_error + json \<times> nat list) \<times> 'w"
where
  "before_loop m ctx [] i inputs w = (Inr (inputs, [0..<i]), w)"
| "before_loop m ctx (mw # mws) i inputs w =
     (case mw_before mw m inputs ctx w of
        (Inr (Some v), w') \<Rightarrow> before_loop m ctx mws (Suc i) v w'
      | (Inr None, w') \<Rightarrow> before_loop m ctx mws (Suc i) inputs w'
      | (Inl e, w') \<Rightarrow> (Inl (before_chain_error [0..<Suc i] e), w'))"

definition execute_before ::
  "'w middleware list \<Rightarrow> string \<Rightarrow> json \<Rightarrow> json call_context \<Rightarrow> 'w \<Rightarrow> (module_error + json \<times> nat list) \<times> 'w" where
  "execute_before mws m inputs ctx = before_loop m ctx mws 0 inputs"

fun after_loop ::
  "string \<Rightarrow> json \<Rightarrow> json call_context \<Rightarrow> 'w middleware list \<Rightarrow> json \<Rightarrow> 'w \<Rightarrow> (module_error + json) \<times> 'w" where
  "after_loop m inputs ctx [] output w = (Inr output, w)"
| "after_loop m inputs ctx (mw # mws) output w =
     (case mw_after mw m inputs output ctx w of
        (Inr (Some v), w') \<Rightarrow> after_loop m inputs ctx mws v w'
      | (Inr None, w') \<Rightarrow> after_loop m inputs ctx mws output w'
      | (Inl e, w') \<Rightarrow> (Inl e, w'))"

definition execute_after ::
  "'w middleware list \<Rightarrow> string \<Rightarrow> json \<Rightarrow> json \<Rightarrow> json call_context \<Rightarrow> 'w \<Rightarrow> (module_error + json) \<times> 'w" where
  "execute_after mws m inputs output ctx = after_loop m inputs ctx (rev mws) output"

text \<open>The indices are looked up in the snapshot taken now.\<close>

fun error_loop ::
  "'w middleware list \<Rightarrow> string \<Rightarrow> json \<Rightarrow> module_error \<Rightarrow> json call_context \<Rightarrow> nat list \<Rightarrow> 'w
     \<Rightarrow> on_error_outcome option \<times> 'w" where
  "error_loop mws m inputs e ctx [] w = (None, w)"
| "error_loop mws m inputs e ctx (i # is) w =
     (if i < length mws
      then (case mw_on_error_outcome (mws ! i) m inputs e ctx w of
              (Inr (Some outcome), w') \<Rightarrow> (Some outcome, w')
            | (Inr None, w') \<Rightarrow> error_loop mws m inputs e ctx is w'
            | (Inl _, w') \<Rightarrow> error_loop mws m inputs e ctx is w')
      else error_loop mws m inputs e ctx is w)"

definition execute_on_error_outcome ::
  "'w middleware list \<Rightarrow> string \<Rightarrow> json \<Rightarrow> module_error \<Rightarrow> json call_context \<Rightarrow> nat list \<Rightarrow> 'w
     \<Rightarrow> on_error_outcome option \<times> 'w" where
  "execute_on_error_outcome mws m inputs e ctx executed = error_loop mws m inputs e ctx (rev executed)"

definition execute_on_error ::
  "'w middleware list \<Rightarrow> string \<Rightarrow> json \<Rightarrow> module_error \<Rightarrow> json call_context \<Rightarrow> nat list \<Rightarrow> 'w
     \<Rightarrow> json option \<times> 'w" where
  "execute_on_error mws m inputs e ctx executed w =
     (case execute_on_error_outcome mws m inputs e ctx executed w of
        (Some (Recovery v), w') \<Rightarrow> (Some v, w')
      | (Some (Retry _), w') \<Rightarrow> (None, w')
      | (None, w') \<Rightarrow> (None, w'))"

text \<open>What the pipeline step reads back out of the error of a failed chain.\<close>

definition as_index :: "json \<Rightarrow> nat option" where
  "as_index v = (case v of JNumber (PosInt n) \<Rightarrow> Some n | _ \<Rightarrow> None)"

definition executed_of_error :: "module_error \<Rightarrow> nat list" where
  "executed_of_error e =
     (case Option.bind (bt_get (err_details e) ''executed_middlewares'') as_array of
        None \<Rightarrow> []
      | Some xs \<Rightarrow> (case those (map as_index xs) of None \<Rightarrow> [] | Some is \<Rightarrow> is))"


subsection \<open>The manager's vectors stay in step\<close>

definition in_order :: "'w middleware \<times> nat \<Rightarrow> 'w middleware \<times> nat \<Rightarrow> bool" where
  "in_order a b \<longleftrightarrow>
     mw_priority (fst b) < mw_priority (fst a) \<or> (mw_priority (fst a) = mw_priority (fst b) \<and> snd a < snd b)"

definition noted :: "'w mw_manager \<Rightarrow> string set" where
  "noted mm = {i. Some i \<in> set (mm_identities mm)}"

definition manager_ok :: "'w mw_manager \<Rightarrow> bool" where
  "manager_ok mm \<longleftrightarrow>
     length (mm_handles mm) = length (mm_middlewares mm) \<and> length (mm_identities mm) = length (mm_middlewares mm) \<and>
     sorted_wrt in_order (zip (mm_middlewares mm) (mm_handles mm)) \<and>
     distinct (mm_handles mm) \<and> (\<forall>h \<in> set (mm_handles mm). h < mm_next_handle mm) \<and>
     (\<forall>m \<in> set (mm_middlewares mm). mw_priority m \<le> 1000) \<and>
     bt_ok (mm_registered mm) \<and> fst ` set (mm_registered mm) = noted mm"

text \<open>Everything the manager's interface can do.\<close>

inductive manager_reachable :: "'w mw_manager \<Rightarrow> bool" where
  managed_new: "manager_reachable manager_new"
| managed_insert: "manager_reachable mm \<Longrightarrow> manager_reachable (snd (insert_middleware mw reg mm))"
| managed_remove: "manager_reachable mm \<Longrightarrow> manager_reachable (snd (remove_named name mm))"
| managed_handle: "manager_reachable mm \<Longrightarrow> manager_reachable (snd (remove_mw_handle h mm))"

lemma set_put_at: "set (put_at i x xs) = insert x (set xs)"
  by (simp add: put_at_def) (metis append_take_drop_id set_append)

lemma length_put_at: "length (put_at i x xs) = Suc (length xs)"
  by (simp add: put_at_def)

lemma distinct_put_at: "distinct xs \<Longrightarrow> x \<notin> set xs \<Longrightarrow> distinct (put_at i x xs)"
  by (auto simp: put_at_def set_take_disj_set_drop_if_distinct dest: in_set_takeD in_set_dropD)

lemma distinct_removed: "distinct xs \<Longrightarrow> distinct (remove_at i xs)"
  by (simp add: remove_at_def set_take_disj_set_drop_if_distinct)

lemma zip_put_at: "length xs = length ys \<Longrightarrow> zip (put_at i x xs) (put_at i y ys) = put_at i (x, y) (zip xs ys)"
  by (simp add: put_at_def zip_append take_zip drop_zip)

lemma zip_remove_at: "length xs = length ys \<Longrightarrow> zip (remove_at i xs) (remove_at i ys) = remove_at i (zip xs ys)"
  by (simp add: remove_at_def zip_append take_zip drop_zip)

lemma set_remove_at: "set (remove_at i xs) \<subseteq> set xs"
  by (auto simp: remove_at_def dest: in_set_takeD in_set_dropD)

lemma sorted_split:
  fixes i :: nat
  assumes "sorted_wrt R xs"
  shows "sorted_wrt R (take i xs)" and "sorted_wrt R (drop i xs)"
    and "x \<in> set (take i xs) \<Longrightarrow> y \<in> set (drop i xs) \<Longrightarrow> R x y"
  using assms sorted_wrt_append [of R "take i xs" "drop i xs"] by simp_all

lemma sorted_remove_at:
  assumes "sorted_wrt R xs" shows "sorted_wrt R (remove_at i xs)"
proof -
  have "set (drop (Suc i) xs) \<subseteq> set (drop i xs)" by (rule set_drop_subset_set_drop) simp
  then show ?thesis
    unfolding remove_at_def sorted_wrt_append
    using sorted_split(1,3) [OF assms, where i = i] sorted_split(2) [OF assms, of "Suc i"] by blast
qed

lemma priority_slot_le: "priority_slot p ms \<le> length ms"
  by (induction ms) auto

lemma priority_slot_before: "m \<in> set (take (priority_slot p ms) ms) \<Longrightarrow> p \<le> mw_priority m"
  by (induction ms) (auto split: if_splits)

lemma priority_slot_after:
  assumes "sorted_wrt (\<lambda>a b. mw_priority b \<le> mw_priority a) ms" and "m \<in> set (drop (priority_slot p ms) ms)"
  shows "mw_priority m < p"
  using assms by (induction ms) (auto split: if_splits)

lemma sorted_zip_first:
  "length xs = length ys \<Longrightarrow> sorted_wrt (\<lambda>a b. Q (fst a) (fst b)) (zip xs ys) \<Longrightarrow> sorted_wrt Q xs"
  by (simp add: sorted_wrt_iff_nth_less)

lemma priorities_sorted:
  assumes "manager_ok mm" shows "sorted_wrt (\<lambda>a b. mw_priority b \<le> mw_priority a) (mm_middlewares mm)"
proof (rule sorted_zip_first)
  show "length (mm_middlewares mm) = length (mm_handles mm)" using assms by (simp add: manager_ok_def)
  have "sorted_wrt in_order (zip (mm_middlewares mm) (mm_handles mm))" using assms by (simp add: manager_ok_def)
  then show "sorted_wrt (\<lambda>a b. mw_priority (fst b) \<le> mw_priority (fst a)) (zip (mm_middlewares mm) (mm_handles mm))"
    by (rule sorted_wrt_mono_rel [rotated]) (auto simp: in_order_def)
qed

lemma zip_take_drop_sets:
  "(a, b) \<in> set (take i (zip xs ys)) \<Longrightarrow> a \<in> set (take i xs)"
  "(a, b) \<in> set (drop i (zip xs ys)) \<Longrightarrow> a \<in> set (drop i xs)"
  by (auto simp: take_zip drop_zip dest: set_zip_leftD)

lemma sorted_insert:
  assumes ok: "manager_ok mm" and p: "p = mw_priority mw"
  shows "sorted_wrt in_order (put_at (priority_slot p (mm_middlewares mm)) (mw, mm_next_handle mm)
           (zip (mm_middlewares mm) (mm_handles mm)))"
proof -
  let ?ms = "mm_middlewares mm" and ?zs = "zip (mm_middlewares mm) (mm_handles mm)"
  let ?i = "priority_slot p ?ms"
  have s: "sorted_wrt in_order ?zs" using ok by (simp add: manager_ok_def)
  have 1: "in_order z (mw, mm_next_handle mm)" if "z \<in> set (take ?i ?zs)" for z
  proof -
    from that have "fst z \<in> set (take ?i ?ms)" using zip_take_drop_sets(1) [of "fst z" "snd z"] by simp
    then have "p \<le> mw_priority (fst z)" by (rule priority_slot_before)
    moreover have "snd z < mm_next_handle mm"
      using in_set_takeD [OF that] ok set_zip_rightD [of "fst z" "snd z" ?ms "mm_handles mm"]
      by (simp add: manager_ok_def)
    ultimately show ?thesis using p by (auto simp: in_order_def)
  qed
  have 2: "in_order (mw, mm_next_handle mm) z" if "z \<in> set (drop ?i ?zs)" for z
  proof -
    from that have "fst z \<in> set (drop ?i ?ms)" using zip_take_drop_sets(2) [of "fst z" "snd z"] by simp
    then have "mw_priority (fst z) < p" by (rule priority_slot_after [OF priorities_sorted [OF ok]])
    with p show ?thesis by (simp add: in_order_def)
  qed
  show ?thesis
    unfolding put_at_def sorted_wrt_append using sorted_split [OF s, where i = ?i] 1 2 by auto
qed

lemma keys_bt_remove: "fst ` set (bt_remove k m) = fst ` set m - {k}"
proof (rule set_eqI)
  fix x
  show "x \<in> fst ` set (bt_remove k m) \<longleftrightarrow> x \<in> fst ` set m - {k}"
    using bt_get_None_iff [of "bt_remove k m" x] bt_get_None_iff [of m x] by (simp add: bt_get_remove split: if_splits)
qed

lemma note_identity_fields [simp]:
  "mm_middlewares (note_identity r mm) = mm_middlewares mm"
  "mm_handles (note_identity r mm) = mm_handles mm"
  "mm_identities (note_identity r mm) = mm_identities mm"
  "mm_next_handle (note_identity r mm) = mm_next_handle mm"
  by (simp_all add: note_identity_def split: option.split)

lemma note_identity_registered:
  assumes "bt_ok (mm_registered mm)"
  shows "bt_ok (mm_registered (note_identity r mm)) \<and>
    fst ` set (mm_registered (note_identity r mm)) = insert (rn_identity r) (fst ` set (mm_registered mm))"
proof (cases "bt_get (mm_registered mm) (rn_identity r)")
  case None
  with assms keys_bt_insert [of "rn_identity r" "rn_location r" "mm_registered mm"] show ?thesis
    by (simp add: note_identity_def bt_ok_insert)
next
  case (Some v)
  then have "mm_registered (note_identity r mm) = mm_registered mm" by (simp add: note_identity_def)
  moreover have "rn_identity r \<in> fst ` set (mm_registered mm)"
    using Some bt_get_None_iff [of "mm_registered mm" "rn_identity r"] by (metis option.distinct(1))
  ultimately show ?thesis using assms by (simp only: insert_absorb simp_thms)
qed

lemma manager_ok_insert:
  assumes ok: "manager_ok mm" shows "manager_ok (snd (insert_middleware mw reg mm))"
proof (cases "mw_priority mw > 1000")
  case False
  let ?mm1 = "case reg of None \<Rightarrow> mm | Some r \<Rightarrow> note_identity r mm"
  let ?mm = "snd (insert_middleware mw reg mm)"
  let ?pos = "priority_slot (mw_priority mw) (mm_middlewares mm)"
  have f: "mm_middlewares ?mm = put_at ?pos mw (mm_middlewares mm)"
    "mm_handles ?mm = put_at ?pos (mm_next_handle mm) (mm_handles mm)"
    "mm_identities ?mm = put_at ?pos (map_option rn_identity reg) (mm_identities mm)"
    "mm_next_handle ?mm = mm_next_handle mm + 1" "mm_registered ?mm = mm_registered ?mm1"
    using False by (cases reg; simp add: insert_middleware_def Let_def)+
  have l: "length (mm_handles mm) = length (mm_middlewares mm)" using ok by (simp add: manager_ok_def)
  have n: "noted ?mm = (case reg of None \<Rightarrow> noted mm | Some r \<Rightarrow> insert (rn_identity r) (noted mm))"
    unfolding noted_def f set_put_at by (cases reg) auto
  have r: "bt_ok (mm_registered ?mm) \<and> fst ` set (mm_registered ?mm) = noted ?mm"
    using ok note_identity_registered [of mm] unfolding f(5) n by (cases reg) (auto simp: manager_ok_def)
  have "sorted_wrt in_order (zip (mm_middlewares ?mm) (mm_handles ?mm))"
    using sorted_insert [OF ok refl] l by (simp add: f zip_put_at)
  then show ?thesis
    using ok r False unfolding manager_ok_def by (auto simp: f length_put_at set_put_at less_Suc_eq distinct_put_at)
qed (use ok in \<open>simp add: insert_middleware_def\<close>)

lemma index_where_Some: "index_where P xs = Some i \<Longrightarrow> i < length xs \<and> P (xs ! i)"
  by (induction xs arbitrary: i) (auto split: if_splits)

lemma set_split_at: "i < length xs \<Longrightarrow> set xs = insert (xs ! i) (set (remove_at i xs))"
  by (metis id_take_nth_drop remove_at_def list.simps(15) set_append Un_insert_right)

lemma length_remove_at: "i < length xs \<Longrightarrow> length (remove_at i xs) = length xs - 1"
  by (simp add: remove_at_def)

lemma manager_ok_remove:
  assumes ok: "manager_ok mm" and i: "i < length (mm_middlewares mm)" shows "manager_ok (remove_index i mm)"
proof -
  let ?mm = "remove_index i mm"
  have l: "length (mm_handles mm) = length (mm_middlewares mm)" "length (mm_identities mm) = length (mm_middlewares mm)"
    using ok by (simp_all add: manager_ok_def)
  have f: "mm_middlewares ?mm = remove_at i (mm_middlewares mm)" "mm_handles ?mm = remove_at i (mm_handles mm)"
    "mm_identities ?mm = remove_at i (mm_identities mm)" "mm_next_handle ?mm = mm_next_handle mm"
    using i l by (auto simp: remove_index_def forget_identity_at_def Let_def split: option.split)
  have s: "set (mm_identities mm) = insert (mm_identities mm ! i) (set (mm_identities ?mm))"
    unfolding f by (rule set_split_at) (simp add: l i)
  have r: "bt_ok (mm_registered ?mm) \<and> fst ` set (mm_registered ?mm) = noted ?mm"
  proof (cases "mm_identities mm ! i")
    case None
    then have "mm_registered ?mm = mm_registered mm"
      using i l by (simp add: remove_index_def forget_identity_at_def Let_def)
    with ok s None show ?thesis by (auto simp: manager_ok_def noted_def)
  next
    case (Some x)
    then have "mm_registered ?mm =
        (if Some x \<in> set (mm_identities ?mm) then mm_registered mm else bt_remove x (mm_registered mm))"
      using i l unfolding f by (simp add: remove_index_def forget_identity_at_def Let_def)
    with ok s Some show ?thesis
      by (auto simp: manager_ok_def noted_def bt_ok_remove keys_bt_remove split: if_splits)
  qed
  have "sorted_wrt in_order (zip (mm_middlewares ?mm) (mm_handles ?mm))"
    unfolding f zip_remove_at [OF l(1) [symmetric]] by (rule sorted_remove_at) (use ok in \<open>simp add: manager_ok_def\<close>)
  then show ?thesis
    using ok r i l set_remove_at [of i "mm_handles mm"] set_remove_at [of i "mm_middlewares mm"]
    unfolding manager_ok_def by (auto simp: f length_remove_at distinct_removed)
qed

lemma manager_reachable_ok: "manager_reachable mm \<Longrightarrow> manager_ok mm"
proof (induction rule: manager_reachable.induct)
  case managed_new
  show ?case by (simp add: manager_ok_def manager_new_def noted_def)
next
  case (managed_remove mm name)
  then show ?case by (auto simp: remove_named_def manager_ok_remove dest: index_where_Some split: option.split)
next
  case (managed_handle mm h)
  then have "length (mm_handles mm) = length (mm_middlewares mm)" by (simp add: manager_ok_def)
  with managed_handle show ?case
    by (auto simp: remove_mw_handle_def manager_ok_remove dest: index_where_Some split: option.split)
qed (rule manager_ok_insert)

text \<open>Middlewares run by priority and, among equals, in the order of their registration. However
  middlewares are added and removed, the three vectors of the manager stay in step, their order is by
  falling priority and then by rising handle, handles are unique, no priority exceeds the maximum, and the
  identities that count as registered are those of the middlewares present.\<close>

theorem middlewares_stay_in_order:
  assumes "manager_reachable mm" and "i < j" and "j < length (mm_middlewares mm)"
  shows "length (mm_handles mm) = length (mm_middlewares mm) \<and>
    (mw_priority (mm_middlewares mm ! j) < mw_priority (mm_middlewares mm ! i) \<or>
       mw_priority (mm_middlewares mm ! j) = mw_priority (mm_middlewares mm ! i) \<and> mm_handles mm ! i < mm_handles mm ! j) \<and>
    mm_handles mm ! i \<noteq> mm_handles mm ! j \<and> mw_priority (mm_middlewares mm ! i) \<le> 1000 \<and>
    (identity_registered mm x \<longleftrightarrow> Some x \<in> set (mm_identities mm))"
proof -
  have ok: "manager_ok mm" using assms(1) by (rule manager_reachable_ok)
  then have l: "length (mm_handles mm) = length (mm_middlewares mm)" by (simp add: manager_ok_def)
  have o': "in_order (mm_middlewares mm ! a, mm_handles mm ! a) (mm_middlewares mm ! b, mm_handles mm ! b)"
    if "a < b" "b < length (mm_middlewares mm)" for a b
    using ok that l unfolding manager_ok_def sorted_wrt_iff_nth_less by (auto dest!: spec [of _ a])
  have h: "distinct (mm_handles mm)" using ok by (simp add: manager_ok_def)
  have "identity_registered mm x \<longleftrightarrow> Some x \<in> set (mm_identities mm)"
    using ok bt_get_None_iff [of "mm_registered mm" x] by (auto simp: identity_registered_def manager_ok_def noted_def)
  moreover have "mm_handles mm ! i \<noteq> mm_handles mm ! j"
    using h assms(2,3) l by (simp add: nth_eq_iff_index_eq)
  moreover have "mw_priority (mm_middlewares mm ! i) \<le> 1000" using ok assms(2,3) by (auto simp: manager_ok_def)
  ultimately show ?thesis using l o' [OF assms(2,3)] by (auto simp: in_order_def)
qed

subsection \<open>Unwinding\<close>

text \<open>The declarative form: ask the given middlewares in turn until one has an outcome.\<close>

fun first_outcome ::
  "'w middleware list \<Rightarrow> string \<Rightarrow> json \<Rightarrow> module_error \<Rightarrow> json call_context \<Rightarrow> 'w \<Rightarrow> on_error_outcome option \<times> 'w"
where
  "first_outcome [] m inputs e ctx w = (None, w)"
| "first_outcome (mw # mws) m inputs e ctx w =
     (case mw_on_error_outcome mw m inputs e ctx w of
        (Inr (Some outcome), w') \<Rightarrow> (Some outcome, w')
      | (_, w') \<Rightarrow> first_outcome mws m inputs e ctx w')"

lemma error_loop_unwinds:
  "k \<le> length mws \<Longrightarrow> error_loop mws m inputs e ctx (rev [0..<k]) w = first_outcome (rev (take k mws)) m inputs e ctx w"
proof (induction k arbitrary: w)
  case (Suc k)
  then have "rev (take (Suc k) mws) = mws ! k # rev (take k mws)" by (simp add: take_Suc_conv_app_nth)
  with Suc show ?case by (simp split: prod.split sum.split option.split)
qed simp

lemma before_loop_Inr: "before_loop m ctx mws i inputs w = (Inr (v, ex), w') \<Longrightarrow> ex = [0..<i + length mws]"
proof (induction mws arbitrary: i inputs w)
  case (Cons mw mws)
  then obtain inputs' w1 where "before_loop m ctx mws (Suc i) inputs' w1 = (Inr (v, ex), w')"
    by (auto split: prod.splits sum.splits option.splits)
  from Cons.IH [OF this] show ?case by simp
qed simp

lemma before_loop_Inl:
  "before_loop m ctx mws i inputs w = (Inl err, w') \<Longrightarrow>
     \<exists>k e inputs' w1 w2. k < length mws \<and> err = before_chain_error [0..<Suc (i + k)] e \<and>
       mw_before (mws ! k) m inputs' ctx w1 = (Inl e, w2)"
proof (induction mws arbitrary: i inputs w)
  case (Cons mw mws)
  show ?case
  proof (cases "\<exists>e. fst (mw_before mw m inputs ctx w) = Inl e")
    case True
    then obtain e w2 where "mw_before mw m inputs ctx w = (Inl e, w2)" by (metis prod.collapse)
    with Cons.prems have "err = before_chain_error [0..<Suc (i + 0)] e" by simp
    with \<open>mw_before mw m inputs ctx w = (Inl e, w2)\<close> show ?thesis by (intro exI [of _ 0]) auto
  next
    case False
    then obtain inputs' w1 where "before_loop m ctx mws (Suc i) inputs' w1 = (Inl err, w')"
      using Cons.prems by (auto split: prod.splits sum.splits option.splits)
    from Cons.IH [OF this] obtain k e i' w1 w2 where
      "k < length mws \<and> err = before_chain_error [0..<Suc (Suc i + k)] e \<and> mw_before (mws ! k) m i' ctx w1 = (Inl e, w2)"
      by blast
    then show ?thesis by (intro exI [of _ "Suc k"]) auto
  qed
qed simp

lemma those_indices: "those (map as_index (map json_nat xs)) = Some xs"
  by (induction xs) (simp_all add: as_index_def json_nat_def)

lemma executed_of_before_chain_error [simp]: "executed_of_error (before_chain_error xs e) = xs"
  using those_indices [of xs]
  by (simp add: executed_of_error_def before_chain_error_def with_details_def details_of_def executed_json_def
      bt_get_insert_any bt_get_Cons)

lemma unwrap_before_chain_error [simp]: "unwrap_middleware_chain_error (before_chain_error xs e) = Some e"
  by (simp add: unwrap_middleware_chain_error_def is_middleware_chain_error_def before_chain_error_def
      with_details_def module_error_new_def details_of_def bt_get_insert_any bt_get_Cons error_json_roundtrip)

definition entered :: "module_error + json \<times> nat list \<Rightarrow> nat list" where
  "entered r = (case r of Inr (_, executed) \<Rightarrow> executed | Inl err \<Rightarrow> executed_of_error err)"

text \<open>The error hooks unwind exactly what was entered. Whether the chain of before-hooks ends well or
  one of them fails, the recorded indices are those of the middlewares entered, the failing one included,
  its own error can be read back, and running the error hooks over the record asks exactly these
  middlewares, the innermost first, until one has an outcome; a hook that fails itself is passed over.\<close>

theorem error_hooks_unwind_what_was_entered:
  assumes "execute_before mws m inputs ctx w = (r, w')"
  shows "\<exists>k \<le> length mws. entered r = [0..<k] \<and>
    (\<forall>inputs' e ctx' w1. execute_on_error_outcome mws m inputs' e ctx' (entered r) w1 =
       first_outcome (rev (take k mws)) m inputs' e ctx' w1) \<and>
    (case r of
       Inr _ \<Rightarrow> k = length mws
     | Inl err \<Rightarrow> \<exists>e inputs' w1 w2. 0 < k \<and> mw_before (mws ! (k - 1)) m inputs' ctx w1 = (Inl e, w2) \<and>
         unwrap_middleware_chain_error err = Some e)"
proof (cases r)
  case (Inr ve)
  with assms have "entered r = [0..<length mws]"
    using before_loop_Inr [of m ctx mws 0] by (auto simp: execute_before_def entered_def split: prod.split)
  with Inr show ?thesis
    using error_loop_unwinds [of "length mws" mws] by (auto simp: execute_on_error_outcome_def)
next
  case (Inl err)
  with assms before_loop_Inl [of m ctx mws 0 inputs w err w'] obtain k e i' w1 w2 where
    k: "k < length mws" "err = before_chain_error [0..<Suc k] e" "mw_before (mws ! k) m i' ctx w1 = (Inl e, w2)"
    by (auto simp: execute_before_def)
  with Inl have "entered r = [0..<Suc k]" by (simp add: entered_def)
  with k Inl show ?thesis
    using error_loop_unwinds [of "Suc k" mws] by (intro exI [of _ "Suc k"]) (auto simp: execute_on_error_outcome_def)
qed

definition observer :: "string \<Rightarrow> nat \<Rightarrow> string list middleware" where
  "observer name p =
     \<lparr>mw_name = name, mw_priority = p,
      mw_before = (\<lambda>m inputs ctx w. (Inr None, w)), mw_after = (\<lambda>m inputs output ctx w. (Inr None, w)),
      mw_on_error_outcome = (\<lambda>m inputs e ctx w. (Inr None, w @ [name]))\<rparr>"

definition refusing :: "string \<Rightarrow> nat \<Rightarrow> string list middleware" where
  "refusing name p =
     (observer name p)\<lparr>mw_before := (\<lambda>m inputs ctx w. (Inl (module_error_new GeneralInvalidInput), w))\<rparr>"

theorem error_hooks_unwind_what_was_entered_witness:
  "let mws = [observer ''a'' 9, refusing ''b'' 8, observer ''c'' 7];
       r = fst (execute_before mws ''m'' JNull ctx [])
   in snd (execute_on_error_outcome mws ''m'' JNull e ctx (entered r) []) = [''b'', ''a'']"
proof -
  let ?mws = "[observer ''a'' 9, refusing ''b'' 8, observer ''c'' 7]"
  let ?r = "fst (execute_before ?mws ''m'' JNull ctx [])"
  have r: "?r = Inl (before_chain_error [0, 1] (module_error_new GeneralInvalidInput))"
    by (simp add: execute_before_def observer_def refusing_def)
  obtain k where k: "k \<le> length ?mws" "entered ?r = [0..<k]"
    "\<forall>inputs' e ctx' w1. execute_on_error_outcome ?mws ''m'' inputs' e ctx' (entered ?r) w1 =
       first_outcome (rev (take k ?mws)) ''m'' inputs' e ctx' w1"
    using error_hooks_unwind_what_was_entered [of ?mws "''m''" JNull ctx "[]" ?r "snd (execute_before ?mws ''m'' JNull ctx [])"]
    by auto
  have "entered ?r = [0, 1]" unfolding r by (simp add: entered_def)
  with k(2) have "k = 2" by (metis length_upt length_Cons list.size(3) minus_nat.diff_0 One_nat_def Suc_1)
  with k(3) show ?thesis by (simp add: observer_def refusing_def numeral_2_eq_2)
qed

theorem middlewares_stay_in_order_witness:
  "let mm = snd (add_detecting_duplicates ''s1'' (observer ''b'' 8) (snd (add_shared (observer ''a'' 9) manager_new)))
   in mw_priority (mm_middlewares mm ! 1) < mw_priority (mm_middlewares mm ! 0) \<and> identity_registered mm ''b''"
proof -
  let ?m1 = "snd (add_shared (observer ''a'' 9) manager_new)"
  let ?mm = "snd (add_detecting_duplicates ''s1'' (observer ''b'' 8) ?m1)"
  have r: "manager_reachable ?mm"
    unfolding add_detecting_duplicates_def add_shared_def by (intro managed_insert managed_new)
  have m: "mm_middlewares ?mm = [observer ''a'' 9, observer ''b'' 8]" "mm_identities ?mm = [None, Some ''b'']"
    by (simp_all add: add_detecting_duplicates_def add_shared_def insert_middleware_def manager_new_def observer_def
        put_at_def note_identity_def Let_def)
  from middlewares_stay_in_order [OF r, of 0 1 "''b''"] m show ?thesis by (auto simp: observer_def)
qed

text \<open>The indices refer to the list as it was: when a middleware is added while a call is under way, the
  error hooks of another one run.\<close>

lemma stale_indices_hit_another:
  "let before = [observer ''a'' 8]; later = [observer ''b'' 9, observer ''a'' 8];
       r = fst (execute_before before ''m'' JNull ctx [])
   in snd (execute_on_error_outcome later ''m'' JNull e ctx (entered r) []) = [''b'']"
  by (simp add: execute_before_def execute_on_error_outcome_def entered_def observer_def)

end
