(* ===== verification/CallWorld.thy ===== *)
theory CallWorld
  imports Middlewares Cancel
begin

section \<open>The world of a call\<close>

text \<open>
  What the steps of a call and its middlewares share: the data maps of the contexts, the cancel tokens, the
  warnings given once, and the events emitted; the host's own state is the extension of the record. A
  context names its token by the token's cell, and \<open>cw_parents\<close> gives the parent it was derived from.
  The typed keys of \<open>src/src/context_key.rs\<close> and \<open>context_keys.rs\<close>, and the retry middleware of
  \<open>src/src/middleware/retry.rs\<close>, are functions of this world.
\<close>

record call_world =
  cw_data :: data_store
  cw_cells :: cells
  cw_parents :: "nat \<Rightarrow> cancel_token option"
  cw_warned :: "string set"
  cw_events :: "(string \<times> (string \<times> json) list) list"

subsection \<open>Context keys\<close>

definition key_scoped :: "string \<Rightarrow> string \<Rightarrow> string" where
  "key_scoped name sfx = name @ ''.'' @ sfx"

definition key_get :: "(json \<Rightarrow> 't option) \<Rightarrow> string \<Rightarrow> 's call_context \<Rightarrow> 'h call_world_scheme \<Rightarrow> 't option" where
  "key_get parse name ctx w = Option.bind (bt_get (read_data (cw_data w) ctx) name) parse"

definition key_exists :: "string \<Rightarrow> 's call_context \<Rightarrow> 'h call_world_scheme \<Rightarrow> bool" where
  "key_exists name ctx w \<longleftrightarrow> bt_get (read_data (cw_data w) ctx) name \<noteq> None"

definition key_set :: "string \<Rightarrow> json \<Rightarrow> 's call_context \<Rightarrow> 'h call_world_scheme \<Rightarrow> 'h call_world_scheme" where
  "key_set name v ctx w = w\<lparr>cw_data := write_data ctx name v (cw_data w)\<rparr>"

definition key_delete :: "string \<Rightarrow> 's call_context \<Rightarrow> 'h call_world_scheme \<Rightarrow> 'h call_world_scheme" where
  "key_delete name ctx w =
     w\<lparr>cw_data := (cw_data w)\<lparr>data_maps :=
         (data_maps (cw_data w))(ctx_data ctx := bt_remove name (read_data (cw_data w) ctx))\<rparr>\<rparr>"

definition tracing_spans :: string where
  "tracing_spans = ''_apcore.mw.tracing.spans''"

definition retry_count_base :: string where
  "retry_count_base = ''_apcore.mw.retry.count''"

subsection \<open>Cancel tokens of a context\<close>

definition token_at :: "'h call_world_scheme \<Rightarrow> nat \<Rightarrow> cancel_token" where
  "token_at w c = CancelToken c (cw_parents w c)"

definition derive_token :: "nat option \<Rightarrow> 'h call_world_scheme \<Rightarrow> nat \<times> 'h call_world_scheme" where
  "derive_token t w =
     (let parent = map_option (token_at w) t;
          (tok, h) = (case parent of None \<Rightarrow> token_new (cw_cells w) | Some p \<Rightarrow> token_child p (cw_cells w))
      in (tk_cell tok, w\<lparr>cw_cells := h, cw_parents := (cw_parents w)(tk_cell tok := tk_parent tok)\<rparr>))"

definition cancel_at_cell :: "nat \<Rightarrow> 'h call_world_scheme \<Rightarrow> 'h call_world_scheme" where
  "cancel_at_cell c w = w\<lparr>cw_cells := token_cancel (token_at w c) (cw_cells w)\<rparr>"

text \<open>\<open>check_for\<close> as the steps use it: the error of a cancelled token.\<close>

definition check_context :: "json call_context \<Rightarrow> string \<Rightarrow> 'h call_world_scheme \<Rightarrow> module_error option" where
  "check_context ctx m w =
     Option.bind (ctx_cancel_token ctx)
       (\<lambda>c. map_option to_module_error (check_for (cw_cells w) (token_at w c) m))"

subsection \<open>The retry middleware\<close>

record retry_mw_config =
  rt_max_retries :: nat
  rt_strategy :: string
  rt_base_delay_ms :: nat
  rt_max_delay_ms :: nat
  rt_jitter :: bool

definition retry_mw_config_default :: retry_mw_config where
  "retry_mw_config_default =
     \<lparr>rt_max_retries = 3, rt_strategy = ''exponential'', rt_base_delay_ms = 100, rt_max_delay_ms = 5000,
      rt_jitter = True\<rparr>"

definition as_retry_count :: "json \<Rightarrow> nat option" where
  "as_retry_count v = (case v of JNumber (PosInt n) \<Rightarrow> if n < 2 ^ 63 then Some n else None | _ \<Rightarrow> None)"

definition retry_count :: "json call_context \<Rightarrow> string \<Rightarrow> 'h call_world_scheme \<Rightarrow> nat" where
  "retry_count ctx m w =
     (case key_get as_retry_count (key_scoped retry_count_base m) ctx w of
        None \<Rightarrow> 0 | Some n \<Rightarrow> if n < 2 ^ 32 then n else 0)"

definition set_retry_count :: "json call_context \<Rightarrow> string \<Rightarrow> nat \<Rightarrow> 'h call_world_scheme \<Rightarrow> 'h call_world_scheme" where
  "set_retry_count ctx m n = key_set (key_scoped retry_count_base m) (json_nat n) ctx"

text \<open>The time slept before an attempt is not modelled.\<close>

definition retry_on_error :: "retry_mw_config \<Rightarrow> 'h call_world_scheme error_hook" where
  "retry_on_error cfg m inputs e ctx w =
     (if err_retryable e \<noteq> Some True then (Inr None, w)
      else
        (let n = retry_count ctx m w
         in if n \<ge> rt_max_retries cfg then (Inr None, w)
            else (Inr (Some inputs), set_retry_count ctx m (n + 1) w)))"

definition retry_middleware :: "retry_mw_config \<Rightarrow> 'h call_world_scheme middleware" where
  "retry_middleware cfg =
     \<lparr>mw_name = ''retry'', mw_priority = 100,
      mw_before = (\<lambda>m inputs ctx w. (Inr None, w)),
      mw_after = (\<lambda>m inputs output ctx w. (Inr None, key_delete (key_scoped retry_count_base m) ctx w)),
      mw_on_error_outcome = default_outcome (retry_on_error cfg)\<rparr>"

lemma retry_count_set:
  "n < 2 ^ 32 \<Longrightarrow> retry_count ctx m (set_retry_count ctx m n w) = n"
  by (simp add: retry_count_def set_retry_count_def key_get_def key_set_def write_data_def read_data_def
      bt_get_insert_any as_retry_count_def json_nat_def)

text \<open>The middleware means to retry, but it only has \<open>on_error\<close>, whose value counts as the recovered
  output of the call: on the first retryable error the caller is given its own inputs as the result.\<close>

lemma retry_middleware_returns_the_inputs:
  assumes "err_retryable e = Some True" and "retry_count ctx m w < rt_max_retries cfg"
  shows "fst (execute_on_error_outcome [retry_middleware cfg] m inputs e ctx [0] w) = Some (Recovery inputs)"
  using assms by (simp add: execute_on_error_outcome_def retry_middleware_def default_outcome_def retry_on_error_def Let_def)

end
