(* ===== verification/BuiltinSteps.thy ===== *)
theory BuiltinSteps
  imports CallWorld Onion ConfigStore Registry Acl
begin

section \<open>The built-in steps and the preset strategies\<close>

text \<open>
  \<open>src/src/builtin_steps.rs\<close> and \<open>src/src/approval.rs\<close>: the bodies of the eleven steps, in
  the order of the standard strategy, and the presets derived from it. The resources that the executor
  injects are the record \<open>resources\<close>; what changes while a call runs, the registry, the ACL with its
  sink, the toggled modules, is in the world. The bodies of modules, the approval handler, the compiled
  schemas, the rules of redaction and the readings of the clock are fields of the resources. A failed \<open>expect\<close>, which unwinds the
  call, is the error \<open>GeneralInternalError\<close>.
\<close>

subsection \<open>Approval handlers\<close>

record approval_request =
  aq_module_id :: string
  aq_arguments :: json
  aq_context :: "json call_context option"
  aq_annotations :: module_annotations
  aq_caller_id :: "string option"
  aq_action :: string
  aq_description :: "string option"
  aq_tags :: "string list"

record approval_result =
  apr_status :: string
  apr_approved_by :: "string option"
  apr_reason :: "string option"
  apr_approval_id :: "string option"
  apr_metadata :: "(string \<times> json) list option"

definition approval_result_default :: approval_result where
  "approval_result_default =
     \<lparr>apr_status = [], apr_approved_by = None, apr_reason = None, apr_approval_id = None, apr_metadata = None\<rparr>"

definition approval_approved :: "string \<Rightarrow> approval_result" where
  "approval_approved by_whom = approval_result_default\<lparr>apr_status := ''approved'', apr_approved_by := Some by_whom\<rparr>"

definition approval_rejected :: "string \<Rightarrow> approval_result" where
  "approval_rejected reason = approval_result_default\<lparr>apr_status := ''rejected'', apr_reason := Some reason\<rparr>"

record 'w approval_handler =
  ah_request :: "approval_request \<Rightarrow> 'w \<Rightarrow> (module_error + approval_result) \<times> 'w"
  ah_check :: "string \<Rightarrow> 'w \<Rightarrow> (module_error + approval_result) \<times> 'w"

definition auto_approve_handler :: "'w approval_handler" where
  "auto_approve_handler =
     \<lparr>ah_request = (\<lambda>_ w. (Inr (approval_approved ''auto''), w)), ah_check = (\<lambda>_ w. (Inr (approval_approved ''auto''), w))\<rparr>"

definition callback_approval_handler ::
  "(approval_request \<Rightarrow> 'w \<Rightarrow> (module_error + approval_result) \<times> 'w) \<Rightarrow> 'w approval_handler" where
  "callback_approval_handler callback =
     \<lparr>ah_request = callback,
      ah_check = (\<lambda>_ w. (Inr (approval_rejected ''Phase B not supported by callback handler''), w))\<rparr>"

definition always_deny_handler :: "'w approval_handler" where
  "always_deny_handler =
     \<lparr>ah_request = (\<lambda>_ w. (Inr (approval_rejected ''Always denied''), w)),
      ah_check = (\<lambda>_ w. (Inr (approval_rejected ''Always denied''), w))\<rparr>"

subsection \<open>World and resources\<close>

record run_world = call_world +
  cl_registry :: registry
  cl_acl :: "acl option"
  cl_toggled :: "nat \<Rightarrow> string set"
  cl_decisions :: "audit_event list"

text \<open>What became of a module body that runs under a time limit: it finished, its task failed, or the
  limit passed first.\<close>

datatype 'w invocation = Finished "module_error + json" 'w | TaskFailed 'w | Elapsed 'w

datatype schema_check = Unusable | Conforms | Violations "json list"

record 'w resources =
  rs_config :: app_config
  rs_conditions :: acl_world
  rs_sink_panics :: callback_panics
  rs_policy :: "execution_policy option"
  rs_handler :: "'w approval_handler option"
  rs_emitter :: bool
  rs_dedup :: bool
  rs_manager :: "('w \<Rightarrow> 'w mw_manager) option"
  rs_render :: "json \<Rightarrow> string"
  rs_check_schema :: "json \<Rightarrow> json \<Rightarrow> schema_check"
  rs_redact :: "json \<Rightarrow> json \<Rightarrow> json"
  rs_deadline_in :: "nat \<Rightarrow> 'w \<Rightarrow> jnumber"
  rs_remaining_ms :: "jnumber \<Rightarrow> 'w \<Rightarrow> nat"
  rs_body :: "module_object \<Rightarrow> json \<Rightarrow> json call_context \<Rightarrow> 'w \<Rightarrow> (module_error + json) \<times> 'w"
  rs_timed_body :: "module_object \<Rightarrow> json \<Rightarrow> json call_context \<Rightarrow> nat \<Rightarrow> 'w \<Rightarrow> 'w invocation"

type_synonym 'h world = "'h run_world_scheme"
type_synonym 'h call_pctx = "'h world resources pctx"
type_synonym 'h body = "'h call_pctx \<Rightarrow> 'h world \<Rightarrow> (module_error + step_result) \<times> 'h call_pctx \<times> 'h world"
type_synonym 'h call_step = "('h world resources, 'h world) step"
type_synonym 'h call_pipeline = "('h world resources, 'h world) pipeline"

definition proceed :: "'h body" where
  "proceed c w = (Inr continue_step, c, w)"

definition refuse :: "module_error \<Rightarrow> 'h body" where
  "refuse e c w = (Inl e, c, w)"

definition emit_event ::
  "'h world resources \<Rightarrow> string \<Rightarrow> (string \<times> json) list \<Rightarrow> 'h world \<Rightarrow> 'h world" where
  "emit_event res name entries w =
     (if rs_emitter res then w\<lparr>cw_events := cw_events w @ [(name, details_of entries)]\<rparr> else w)"

definition json_option :: "string option \<Rightarrow> json" where
  "json_option v = (case v of None \<Rightarrow> JNull | Some s \<Rightarrow> JString s)"

subsection \<open>Context creation and the call-chain guard\<close>

definition context_creation_body :: "'h body" where
  "context_creation_body c w =
     (let res = px_resources c;
          ctx0 = px_context c;
          ctx1 = (if ctx_caller_id ctx0 = None then ctx0\<lparr>ctx_caller_id := Some external_caller\<rparr> else ctx0);
          global = xc_global_timeout (cf_executor (rs_config res));
          ctx2 = (if ctx_global_deadline ctx1 = None \<and> global > 0
                  then ctx1\<lparr>ctx_global_deadline := Some (rs_deadline_in res global w)\<rparr> else ctx1);
          ctx3 = context_child ctx2 (px_module_id c);
          (token, w') = derive_token (ctx_cancel_token ctx3) w
      in proceed (c\<lparr>px_context := ctx3\<lparr>ctx_cancel_token := Some token\<rparr>\<rparr>) w')"

definition call_chain_guard_body :: "'h body" where
  "call_chain_guard_body c w =
     (let x = cf_executor (rs_config (px_resources c))
      in case check_context (px_context c) (px_module_id c) w of
           Some e \<Rightarrow> refuse e c w
         | None \<Rightarrow>
             (case guard_call_chain_with_repeat (px_context c) (px_module_id c)
                     (xc_max_call_depth x) (xc_max_module_repeat x) of
                Inl e \<Rightarrow> refuse e c w
              | Inr _ \<Rightarrow> proceed c w))"

subsection \<open>Module lookup\<close>

definition has_schema :: "json \<Rightarrow> bool" where
  "has_schema schema \<longleftrightarrow>
     (case schema of JNull \<Rightarrow> False | JObject es \<Rightarrow> es \<noteq> [] | _ \<Rightarrow> True)"

definition object_entries :: "json \<Rightarrow> (string \<times> json) list" where
  "object_entries v = (case as_object v of None \<Rightarrow> [] | Some es \<Rightarrow> es)"

definition module_disabled :: "string \<Rightarrow> module_error" where
  "module_disabled m = with_details (details_of [(''module_id'', JString m)]) (module_error_new ModuleDisabled)"

definition module_lookup_body :: "nat \<Rightarrow> 'h body" where
  "module_lookup_body toggle c w =
     (let m = px_module_id c
      in case get_module m (cl_registry w) of
           Inl e \<Rightarrow> refuse e c w
         | Inr None \<Rightarrow> refuse (module_not_found m) c w
         | Inr (Some obj) \<Rightarrow>
             if is_enabled m (cl_registry w) = Some False \<or> m \<in> cl_toggled w toggle
             then refuse (module_disabled m) c w
             else
               (let schema = mo_input_schema obj;
                    captured = (if has_schema schema
                                then object_entries (rs_redact (px_resources c) (px_inputs c) schema)
                                else object_entries (px_inputs c))
                in proceed
                     (c\<lparr>px_module := Some obj, px_projection := Some (projection_from_arguments (px_inputs c)),
                        px_context := (px_context c)\<lparr>ctx_redacted_inputs := Some captured\<rparr>\<rparr>) w))"

subsection \<open>Access control\<close>

definition acl_denied :: "string option \<Rightarrow> string \<Rightarrow> module_error" where
  "acl_denied caller m =
     with_details (details_of [(''caller_id'', json_option caller), (''target_id'', JString m)])
       (module_error_new ACLDenied)"

definition acl_check_body :: "'h body" where
  "acl_check_body c w =
     (let res = px_resources c; caller = ctx_caller_id (px_context c); m = px_module_id c
      in case cl_acl w of
           None \<Rightarrow> proceed c w
         | Some a \<Rightarrow>
             (case async_check_access (rs_conditions res) (rs_sink_panics res) a caller m (Some (px_context c))
                     (px_projection c) of
                (d, a', events, _) \<Rightarrow>
                  (let c' = c\<lparr>px_acl_approval_required := ad_approval_required d\<rparr>;
                       w' = w\<lparr>cl_acl := Some a', cl_decisions := cl_decisions w @ events\<rparr>
                   in if is_allowed d then proceed c' w'
                      else refuse (acl_denied caller m) c'
                        (if px_dry_run c then w'
                         else emit_event res ''apcore.acl.denied''
                           [(''module_id'', JString m), (''caller_id'', json_option caller),
                            (''reason'', JString ''ACL denied''), (''trace_id'', JString (ctx_trace_id (px_context c)))] w'))))"

subsection \<open>The approval gate\<close>

text \<open>The event that a span of the tracing middleware gets, when there is one.\<close>

definition add_span_event :: "json \<Rightarrow> json \<Rightarrow> json" where
  "add_span_event event sp =
     (case sp of
        JObject es \<Rightarrow>
          (case bt_get es ''events'' of
             None \<Rightarrow> JObject (bt_insert ''events'' (JArray [event]) es)
           | Some (JArray evs) \<Rightarrow> JObject (bt_insert ''events'' (JArray (evs @ [event])) es)
           | Some _ \<Rightarrow> sp)
      | _ \<Rightarrow> sp)"

definition note_in_span :: "json call_context \<Rightarrow> (string \<times> json) list \<Rightarrow> 'h world \<Rightarrow> 'h world" where
  "note_in_span ctx entries w =
     (case key_get as_array tracing_spans ctx w of
        None \<Rightarrow> w
      | Some spans \<Rightarrow>
          if spans = [] then w
          else (let sp1 = add_span_event (JObject (details_of entries)) (last spans)
                in if sp1 = last spans then w
                   else key_set tracing_spans (JArray (butlast spans @ [sp1])) ctx w))"

definition or_empty :: "string option \<Rightarrow> json" where
  "or_empty v = JString (case v of None \<Rightarrow> [] | Some s \<Rightarrow> s)"

definition emit_approval_decision :: "'h call_pctx \<Rightarrow> approval_result \<Rightarrow> 'h world \<Rightarrow> 'h world" where
  "emit_approval_decision c r w =
     note_in_span (px_context c)
       [(''name'', JString ''approval_decision''), (''module_id'', JString (px_module_id c)),
        (''status'', JString (apr_status r)), (''approved_by'', or_empty (apr_approved_by r)),
        (''reason'', or_empty (apr_reason r)), (''approval_id'', or_empty (apr_approval_id r))] w"

definition emit_approval_decision_event :: "'h call_pctx \<Rightarrow> approval_result \<Rightarrow> 'h world \<Rightarrow> 'h world" where
  "emit_approval_decision_event c r w =
     emit_event (px_resources c) ''apcore.approval.decision''
       [(''module_id'', JString (px_module_id c)), (''status'', JString (apr_status r)),
        (''approved_by'', json_option (apr_approved_by r)), (''reason'', json_option (apr_reason r)),
        (''approval_id'', json_option (apr_approval_id r)), (''trace_id'', JString (ctx_trace_id (px_context c)))] w"

definition override_fields :: "policy_decision \<Rightarrow> (string \<times> json) list" where
  "override_fields d =
     [(''module_id'', JString (pd_module_id d)),
      (''pattern'', JString (case pd_rule d of None \<Rightarrow> [] | Some r \<Rightarrow> pr_pattern r)),
      (''requires_approval'', JBool (pd_requires_approval d)), (''destructive'', JBool (pd_destructive d)),
      (''needs_approval'', JBool (pd_needs_approval d)), (''reason'', or_empty (Option.bind (pd_rule d) pr_reason))]"

definition emit_policy_override :: "'h call_pctx \<Rightarrow> policy_decision \<Rightarrow> 'h world \<Rightarrow> 'h world" where
  "emit_policy_override c d w =
     note_in_span (px_context c) ((''name'', JString ''policy_override'') # override_fields d) w"

definition emit_policy_override_event :: "'h call_pctx \<Rightarrow> policy_decision \<Rightarrow> 'h world \<Rightarrow> 'h world" where
  "emit_policy_override_event c d w =
     emit_event (px_resources c) ''apcore.policy.override''
       (override_fields d @ [(''trace_id'', JString (ctx_trace_id (px_context c)))]) w"

text \<open>The warnings given so far; without the executor's set every warning is given.\<close>

definition warn_once :: "'h call_pctx \<Rightarrow> string \<Rightarrow> 'h world \<Rightarrow> 'h world" where
  "warn_once c key w = (if rs_dedup (px_resources c) then w\<lparr>cw_warned := insert key (cw_warned w)\<rparr> else w)"

definition take_approval_token :: "'h call_pctx \<Rightarrow> (module_error + string option) \<times> 'h call_pctx" where
  "take_approval_token c =
     (case Option.bind (as_object (px_inputs c)) (\<lambda>es. map_option (\<lambda>t. (es, t)) (bt_get es approval_token_key)) of
        None \<Rightarrow> (Inr None, c)
      | Some (es, token) \<Rightarrow>
          (let c' = c\<lparr>px_inputs := JObject (filter (\<lambda>e. fst e \<noteq> approval_token_key) es)\<rparr>
           in case token of
                JString t \<Rightarrow> (Inr (Some t), c')
              | _ \<Rightarrow> (Inl (module_error_new GeneralInvalidInput), c')))"

definition governed_flags :: "module_annotations \<Rightarrow> annotations" where
  "governed_flags a = \<lparr>ann_requires_approval = ma_requires_approval a, ann_destructive = ma_destructive a\<rparr>"

text \<open>What is declared of a module: by the resolved object and by its descriptor.\<close>

definition declared_annotations ::
  "(json \<Rightarrow> string) \<Rightarrow> string \<Rightarrow> module_object option \<Rightarrow> registry \<Rightarrow> module_annotations option \<times> registry" where
  "declared_annotations render m obj reg =
     (case get_definition render m reg of
        (r, reg') \<Rightarrow>
          (governance_union (map_option mo_annotations obj)
             (case r of Inr (Some d) \<Rightarrow> md_annotations d | _ \<Rightarrow> None), reg'))"

text \<open>The gate's verdict before anybody is asked: whether approval is needed, and whether the call counts
  as destructive.\<close>

definition gate_decision :: "'h call_pctx \<Rightarrow> module_annotations option \<Rightarrow> policy_decision option" where
  "gate_decision c ann =
     map_option (\<lambda>p. fst (resolve_with_call_site p (px_module_id c) (map_option governed_flags ann)
       (Some (px_inputs c)))) (rs_policy (px_resources c))"

definition effective_flags :: "policy_decision option \<Rightarrow> module_annotations option \<Rightarrow> bool \<times> bool" where
  "effective_flags d ann =
     (case d of
        Some d \<Rightarrow> (pd_needs_approval d, pd_destructive d)
      | None \<Rightarrow>
          (case ann of None \<Rightarrow> (False, False) | Some a \<Rightarrow> (ma_requires_approval a, ma_destructive a)))"

definition no_handler_reason :: string where
  "no_handler_reason =
     ''Approval required but no ApprovalHandler is configured; ExecutionPolicy(strict=true) fails closed''"

definition approval_request_for ::
  "'h call_pctx \<Rightarrow> module_object \<Rightarrow> module_annotations option \<Rightarrow> bool \<Rightarrow> approval_request" where
  "approval_request_for c obj ann destructive =
     (let base = (case ann of None \<Rightarrow> default_annotations | Some a \<Rightarrow> a)
      in \<lparr>aq_module_id = px_module_id c, aq_arguments = px_inputs c, aq_context = Some (px_context c),
          aq_annotations = base\<lparr>ma_requires_approval := True, ma_destructive := destructive\<rparr>,
          aq_caller_id = ctx_caller_id (px_context c), aq_action = px_module_id c,
          aq_description = (if mo_description obj = [] then None else Some (mo_description obj)),
          aq_tags = mo_tags obj\<rparr>)"

definition approval_error :: "approval_result \<Rightarrow> module_error option" where
  "approval_error r =
     (if apr_status r = ''approved'' then None
      else if apr_status r = ''rejected'' then Some (module_error_new ApprovalDenied)
      else if apr_status r = ''timeout'' then Some (module_error_new ApprovalTimeout)
      else if apr_status r = ''pending''
      then Some (with_details (details_of [(''approval_id'', json_option (apr_approval_id r))])
             (module_error_new ApprovalPending))
      else Some (module_error_new ApprovalDenied))"

text \<open>Asking the handler: with the token when the caller brought one, otherwise with a request.\<close>

definition ask_handler ::
  "'h world approval_handler \<Rightarrow> string option \<Rightarrow> module_object option \<Rightarrow> module_annotations option \<Rightarrow> bool
     \<Rightarrow> 'h call_pctx \<Rightarrow> 'h world \<Rightarrow> (module_error + approval_result) \<times> 'h world" where
  "ask_handler h token obj ann destructive c w =
     (case token of
        Some t \<Rightarrow> ah_check h t w
      | None \<Rightarrow>
          (case obj of
             None \<Rightarrow> (Inl (module_error_new ModuleNotFound), w)
           | Some obj \<Rightarrow> ah_request h (approval_request_for c obj ann destructive) w))"

definition conclude_approval :: "approval_result \<Rightarrow> 'h body" where
  "conclude_approval r c w =
     (let w' = emit_approval_decision_event c r (emit_approval_decision c r w)
      in case approval_error r of Some e \<Rightarrow> refuse e c w' | None \<Rightarrow> proceed c w')"

text \<open>The gate for a call that needs approval; before it, the verdict; before that, the token is taken.\<close>

definition settle_approval ::
  "string option \<Rightarrow> module_object option \<Rightarrow> module_annotations option \<Rightarrow> bool \<Rightarrow> 'h body" where
  "settle_approval token obj ann destructive c w =
     (let res = px_resources c
      in case rs_handler res of
           None \<Rightarrow>
             if (case rs_policy res of None \<Rightarrow> False | Some p \<Rightarrow> ep_strict p)
             then conclude_approval (approval_rejected no_handler_reason) c w
             else proceed c (warn_once c (''no_handler:'' @ px_module_id c) w)
         | Some h \<Rightarrow>
             (case ask_handler h token obj ann destructive c w of
                (Inl e, w') \<Rightarrow> refuse e c w'
              | (Inr r, w') \<Rightarrow> conclude_approval r c w'))"

definition announce_override :: "'h call_pctx \<Rightarrow> policy_decision option \<Rightarrow> 'h world \<Rightarrow> 'h world" where
  "announce_override c decision w =
     (case decision of
        None \<Rightarrow> w
      | Some d \<Rightarrow>
          if pd_overridden d then emit_policy_override_event c d (emit_policy_override c d w) else w)"

definition gate_call :: "string option \<Rightarrow> module_object option \<Rightarrow> module_annotations option \<Rightarrow> 'h body" where
  "gate_call token obj ann c w =
     (let decision = gate_decision c ann;
          (policy_approval, destructive) = effective_flags decision ann;
          w' = announce_override c decision w
      in if policy_approval \<or> px_acl_approval_required c then settle_approval token obj ann destructive c w'
         else proceed c (if destructive then warn_once c (''destructive_ungated:'' @ px_module_id c) w' else w'))"

definition gated_object :: "'h call_pctx \<Rightarrow> 'h world \<Rightarrow> module_object option" where
  "gated_object c w =
     (case px_module c of
        Some obj \<Rightarrow> Some obj
      | None \<Rightarrow> (case get_module (px_module_id c) (cl_registry w) of Inl _ \<Rightarrow> None | Inr obj \<Rightarrow> obj))"

definition approval_gate_body :: "'h body" where
  "approval_gate_body c0 w =
     (case take_approval_token c0 of
        (Inl e, c) \<Rightarrow> refuse e c w
      | (Inr token, c) \<Rightarrow>
          (case declared_annotations (rs_render (px_resources c)) (px_module_id c) (gated_object c w) (cl_registry w) of
             (ann, reg) \<Rightarrow> gate_call token (gated_object c w) ann c (w\<lparr>cl_registry := reg\<rparr>)))"

subsection \<open>Schemas\<close>

text \<open>\<open>validate_against_schema\<close>: the errors are the entries of \<open>errors\<close>, without their texts.\<close>

definition schema_errors :: "error_code \<Rightarrow> json list \<Rightarrow> module_error" where
  "schema_errors code es = with_details (details_of [(''errors'', JArray es)]) (module_error_new code)"

definition validate_against_schema ::
  "'h world resources \<Rightarrow> json \<Rightarrow> json \<Rightarrow> module_error option" where
  "validate_against_schema res v schema =
     (if \<not> has_schema schema then None
      else (case rs_check_schema res schema v of
              Unusable \<Rightarrow> Some (schema_errors SchemaParseError [JObject [(''field'', JString [])]])
            | Conforms \<Rightarrow> None
            | Violations es \<Rightarrow> Some (schema_errors SchemaValidationError es)))"

definition input_validation_body :: "'h body" where
  "input_validation_body c w =
     (case px_module c of
        None \<Rightarrow> refuse (module_error_new GeneralInternalError) c w
      | Some obj \<Rightarrow>
          (let res = px_resources c; schema = mo_input_schema obj
           in case validate_against_schema res (px_inputs c) schema of
                Some e \<Rightarrow> refuse e c w
              | None \<Rightarrow>
                  (let c1 = (if has_schema schema
                             then c\<lparr>px_context := (px_context c)\<lparr>ctx_redacted_inputs :=
                                     Some (object_entries (rs_redact res (px_inputs c) schema))\<rparr>\<rparr>
                             else c)
                   in proceed (c1\<lparr>px_validated_inputs := Some (px_inputs c)\<rparr>) w)))"

definition output_validation_body :: "'h body" where
  "output_validation_body c w =
     (case px_output c of
        None \<Rightarrow> proceed c w
      | Some out \<Rightarrow>
          (case px_module c of
             None \<Rightarrow> refuse (module_error_new GeneralInternalError) c w
           | Some obj \<Rightarrow>
               (let res = px_resources c; schema = mo_output_schema obj
                in case validate_against_schema res out schema of
                     Some e \<Rightarrow> refuse e c w
                   | None \<Rightarrow>
                       (let c1 = (if has_schema schema
                                  then c\<lparr>px_context := (px_context c)\<lparr>ctx_redacted_output :=
                                          Some (object_entries (rs_redact res out schema))\<rparr>\<rparr>
                                  else c)
                        in proceed (c1\<lparr>px_validated_output := Some out\<rparr>) w))))"

subsection \<open>Middlewares\<close>

definition current_middlewares :: "'h call_pctx \<Rightarrow> 'h world \<Rightarrow> 'h world middleware list option" where
  "current_middlewares c w = map_option (\<lambda>f. mm_middlewares (f w)) (rs_manager (px_resources c))"

definition middleware_before_body :: "'h body" where
  "middleware_before_body c w =
     (case current_middlewares c w of
        None \<Rightarrow> proceed c w
      | Some mws \<Rightarrow>
          (case execute_before mws (px_module_id c) (px_inputs c) (px_context c) w of
             (Inl e, w') \<Rightarrow> refuse e (c\<lparr>px_executed_middlewares := executed_of_error e\<rparr>) w'
           | (Inr (inputs, executed), w') \<Rightarrow>
               proceed (c\<lparr>px_inputs := inputs, px_executed_middlewares := executed\<rparr>) w'))"

text \<open>The output is taken out of the context before the after-hooks run.\<close>

definition middleware_after_body :: "'h body" where
  "middleware_after_body c w =
     (case current_middlewares c w of
        None \<Rightarrow> proceed c w
      | Some mws \<Rightarrow>
          (case px_output c of
             None \<Rightarrow> proceed c w
           | Some out \<Rightarrow>
               (let c1 = c\<lparr>px_output := None\<rparr>
                in case execute_after mws (px_module_id c) (px_inputs c) out (px_context c) w of
                     (Inl e, w') \<Rightarrow> refuse e c1 w'
                   | (Inr v, w') \<Rightarrow> proceed (c1\<lparr>px_output := Some v\<rparr>) w')))"

subsection \<open>Execution\<close>

definition is_negative_timeout :: "json \<Rightarrow> bool" where
  "is_negative_timeout v \<longleftrightarrow>
     (case v of JNumber (NegInt i) \<Rightarrow> i < 0 | JNumber (Flt m e) \<Rightarrow> m < 0 | _ \<Rightarrow> False)"

definition declared_timeout :: "module_descriptor option \<Rightarrow> json option" where
  "declared_timeout d =
     Option.bind (Option.bind d md_annotations)
       (\<lambda>a. Option.bind (bt_get (ma_extra a) ''resources'')
       (\<lambda>res. Option.bind (as_object res) (\<lambda>es. bt_get es ''timeout'')))"

text \<open>The limit in milliseconds, zero for none; \<open>remaining\<close> is what the deadline leaves.\<close>

definition resolve_effective_timeout_ms ::
  "json option \<Rightarrow> nat option \<Rightarrow> nat \<Rightarrow> module_error + nat" where
  "resolve_effective_timeout_ms declared remaining default_timeout =
     (if (case declared of None \<Rightarrow> False | Some v \<Rightarrow> is_negative_timeout v)
      then Inl (module_error_new GeneralInvalidInput)
      else
        (let limit = (case Option.bind declared as_u64 of None \<Rightarrow> default_timeout | Some t \<Rightarrow> t)
         in case remaining of
              None \<Rightarrow> Inr limit
            | Some left \<Rightarrow>
                if left = 0 then Inl (module_error_new ModuleTimeout)
                else Inr (if limit = 0 \<or> left < limit then left else limit)))"

definition module_timeout :: "string \<Rightarrow> nat \<Rightarrow> module_error" where
  "module_timeout m ms =
     with_details (details_of [(''module_id'', JString m), (''timeout_ms'', json_nat ms)])
       (module_error_new ModuleTimeout)"

definition cancel_context :: "json call_context \<Rightarrow> 'h world \<Rightarrow> 'h world" where
  "cancel_context ctx w = (case ctx_cancel_token ctx of None \<Rightarrow> w | Some t \<Rightarrow> cancel_at_cell t w)"

definition invoke_module ::
  "'h call_pctx \<Rightarrow> module_object \<Rightarrow> nat \<Rightarrow> 'h world \<Rightarrow> (module_error + json) \<times> 'h world" where
  "invoke_module c obj limit w =
     (let res = px_resources c; ctx = px_context c
      in if limit > 0
         then (case rs_timed_body res obj (px_inputs c) ctx limit w of
                 Finished r w' \<Rightarrow> (r, w')
               | TaskFailed w' \<Rightarrow> (Inl (module_error_new GeneralInternalError), w')
               | Elapsed w' \<Rightarrow> (Inl (module_timeout (px_module_id c) limit), cancel_context ctx w'))
         else rs_body res obj (px_inputs c) ctx w)"

definition execute_body :: "'h body" where
  "execute_body c w =
     (case px_module c of
        None \<Rightarrow> refuse (module_error_new GeneralInternalError) c w
      | Some obj \<Rightarrow>
          (let res = px_resources c; m = px_module_id c; ctx = px_context c
           in case get_definition (rs_render res) m (cl_registry w) of
                (d, reg) \<Rightarrow>
                  (let w1 = w\<lparr>cl_registry := reg\<rparr>
                   in case resolve_effective_timeout_ms
                             (declared_timeout (case d of Inl _ \<Rightarrow> None | Inr d \<Rightarrow> d))
                             (map_option (\<lambda>t. rs_remaining_ms res t w1) (ctx_global_deadline ctx))
                             (xc_default_timeout (cf_executor (rs_config res))) of
                        Inl e \<Rightarrow> refuse e c (if err_code e = ModuleTimeout then cancel_context ctx w1 else w1)
                      | Inr limit \<Rightarrow>
                          (case check_context ctx m w1 of
                             Some e \<Rightarrow> refuse e c w1
                           | None \<Rightarrow>
                               (case invoke_module c obj limit w1 of
                                  (Inl e, w2) \<Rightarrow> refuse e c w2
                                | (Inr out, w2) \<Rightarrow> proceed (c\<lparr>px_output := Some out\<rparr>) w2)))))"

subsection \<open>The steps\<close>

definition builtin_step ::
  "string \<Rightarrow> string \<Rightarrow> bool \<Rightarrow> bool \<Rightarrow> bool \<Rightarrow> string list \<Rightarrow> string list \<Rightarrow> builtin_gate option \<Rightarrow> 'h body
     \<Rightarrow> 'h call_step" where
  "builtin_step name description removable replaceable pure requires provides gate body =
     \<lparr>st_name = name, st_description = description, st_removable = removable, st_replaceable = replaceable,
      st_match_modules = None, st_ignore_errors = False, st_pure = pure, st_timeout_ms = 0,
      st_requires = requires, st_builtin_gate = gate, st_provides = provides, st_execute = body,
      st_elapses = (\<lambda>_ _. None)\<rparr>"

definition context_creation_step :: "'h call_step" where
  "context_creation_step =
     builtin_step ''context_creation'' ''Create or inherit execution context'' False False True
       [] [''context''] None context_creation_body"

definition call_chain_guard_step :: "'h call_step" where
  "call_chain_guard_step =
     builtin_step ''call_chain_guard'' ''Validate call depth and module repeat limits'' True True True
       [''context''] [] None call_chain_guard_body"

definition module_lookup_step :: "nat \<Rightarrow> 'h call_step" where
  "module_lookup_step toggle =
     builtin_step ''module_lookup'' ''Resolve module from registry by ID'' False False True
       [] [''module''] None (module_lookup_body toggle)"

definition acl_check_step :: "'h call_step" where
  "acl_check_step =
     builtin_step ''acl_check'' ''Enforce access control rules'' True True True
       [''context'', ''module''] [] (Some AclGate) acl_check_body"

definition approval_gate_step :: "'h call_step" where
  "approval_gate_step =
     builtin_step ''approval_gate'' ''Handle human or AI approval flow'' True True False
       [''context'', ''module''] [] (Some ApprovalGate) approval_gate_body"

definition middleware_before_step :: "'h call_step" where
  "middleware_before_step =
     builtin_step ''middleware_before'' ''Execute before-middleware chain'' True False False
       [] [] None middleware_before_body"

definition input_validation_step :: "'h call_step" where
  "input_validation_step =
     builtin_step ''input_validation'' ''Validate inputs against schema'' True True True
       [''module''] [''validated_inputs''] None input_validation_body"

definition execute_call_step :: "'h call_step" where
  "execute_call_step =
     builtin_step ''execute'' ''Invoke the module with timeout'' False True False
       [''module''] [''output''] None execute_body"

definition output_validation_step :: "'h call_step" where
  "output_validation_step =
     builtin_step ''output_validation'' ''Validate outputs against schema'' True True True
       [''module'', ''output''] [''validated_output''] None output_validation_body"

definition middleware_after_step :: "'h call_step" where
  "middleware_after_step =
     builtin_step ''middleware_after'' ''Execute after-middleware chain'' True False False
       [] [] None middleware_after_body"

definition return_result_step :: "'h call_step" where
  "return_result_step =
     builtin_step ''return_result'' ''Finalize and return output'' False False True [''output''] [] None proceed"

subsection \<open>The presets\<close>

definition standard_steps :: "nat \<Rightarrow> 'h call_step list" where
  "standard_steps toggle =
     [context_creation_step, call_chain_guard_step, module_lookup_step toggle, acl_check_step, approval_gate_step,
      middleware_before_step, input_validation_step, execute_call_step, output_validation_step,
      middleware_after_step, return_result_step]"

definition build_standard_strategy_with_toggle :: "nat \<Rightarrow> module_error + 'h call_pipeline" where
  "build_standard_strategy_with_toggle toggle = strategy_new ''standard'' (standard_steps toggle)"

text \<open>The toggle state of the process is number 0.\<close>

definition build_standard_strategy :: "module_error + 'h call_pipeline" where
  "build_standard_strategy = build_standard_strategy_with_toggle 0"

definition derive_preset :: "string \<Rightarrow> string list \<Rightarrow> module_error + 'h call_pipeline" where
  "derive_preset name removed =
     map_sum (\<lambda>e. e) (\<lambda>y. fold (\<lambda>n y. snd (remove_step n y)) removed (set_name name y)) build_standard_strategy"

definition build_internal_strategy :: "module_error + 'h call_pipeline" where
  "build_internal_strategy = derive_preset ''internal'' [''acl_check'', ''approval_gate'']"

definition build_testing_strategy :: "module_error + 'h call_pipeline" where
  "build_testing_strategy = derive_preset ''testing'' [''acl_check'', ''approval_gate'', ''call_chain_guard'']"

definition build_performance_strategy :: "module_error + 'h call_pipeline" where
  "build_performance_strategy = derive_preset ''performance'' [''middleware_before'', ''middleware_after'']"

definition build_minimal_strategy :: "module_error + 'h call_pipeline" where
  "build_minimal_strategy =
     derive_preset ''minimal''
       [''call_chain_guard'', ''acl_check'', ''approval_gate'', ''middleware_before'', ''input_validation'',
        ''output_validation'', ''middleware_after'']"

end
