(* ===== verification/GovernedCalls.thy ===== *)
theory GovernedCalls
  imports BuiltinSteps
begin

section \<open>Calls through the standard pipeline\<close>

text \<open>
  The engine runs the built-in steps as the plain sequence of their bodies, so what the bodies check holds of
  whole calls: a call that gets through was allowed by the access list and approved when approval was due.
\<close>

subsection \<open>The sequence of the bodies\<close>

fun run_bodies ::
  "('r, 'w) step list \<Rightarrow> 'r pctx \<Rightarrow> 'w \<Rightarrow> (string \<times> module_error) option \<times> 'r pctx \<times> 'w" where
  "run_bodies [] c w = (None, c, w)"
| "run_bodies (s # ss) c w =
     (case st_execute s c w of
        (Inl e, c', w') \<Rightarrow> (Some (st_name s, e), c', w')
      | (Inr _, c', w') \<Rightarrow> run_bodies ss c' w')"

text \<open>A body that always goes on, and neither reads nor writes the trace or the kind of run.\<close>

definition plain_body :: "('r pctx \<Rightarrow> 'w \<Rightarrow> (module_error + step_result) \<times> 'r pctx \<times> 'w) \<Rightarrow> bool" where
  "plain_body b \<longleftrightarrow>
     (\<forall>c w t. b (c\<lparr>px_trace := t\<rparr>) w = (fst (b c w), (fst (snd (b c w)))\<lparr>px_trace := t\<rparr>, snd (snd (b c w)))) \<and>
     (\<forall>c w. px_dry_run (fst (snd (b c w))) = px_dry_run c) \<and>
     (\<forall>c w x. fst (b c w) = Inr x \<longrightarrow> x = continue_step)"

definition plain_step_ok :: "('r, 'w) step \<Rightarrow> bool" where
  "plain_step_ok s \<longleftrightarrow>
     st_match_modules s = None \<and> \<not> st_ignore_errors s \<and> st_timeout_ms s = 0 \<and> plain_body (st_execute s)"

lemma follow_continue: "follow_action y run_options_default i n continue_step en = (Goto (i + 1), en)"
  by (simp add: follow_action_def continue_step_def step_result_default_def run_options_default_def)

lemma plain_step_runs:
  assumes s: "plain_step_ok (sy_steps y ! i)" and m: "sy_middlewares y = []" and d: "\<not> px_dry_run (en_ctx en)"
    and b: "st_execute (sy_steps y ! i) (en_ctx en) (en_world en) = (r, c, w)"
  shows "run_step y run_options_default i en =
    (case r of
       Inl e \<Rightarrow> after_failed (st_name (sy_steps y ! i)) e (en\<lparr>en_ctx := c, en_world := w\<rparr>)
     | Inr _ \<Rightarrow> (Goto (i + 1), snapshot_output (st_name (sy_steps y ! i))
           (push_traces [ran (st_name (sy_steps y ! i)) continue_step None] (en\<lparr>en_ctx := c, en_world := w\<rparr>))))"
proof -
  have p: "plain_body (st_execute (sy_steps y ! i))" using s by (simp add: plain_step_ok_def)
  then have dry: "\<not> px_dry_run c" using b d unfolding plain_body_def by (metis fst_conv snd_conv)
  have run: "run_step y run_options_default i en = run_body y run_options_default i (sy_steps y ! i) en"
    using s d by (simp add: plain_step_ok_def run_step_def not_selected_def missing_dependency_def filtered_out_def
        run_options_default_def Let_def)
  have x: "execute_step (sy_steps y ! i) en = (r, en\<lparr>en_ctx := c, en_world := w\<rparr>)"
    using s b by (simp add: plain_step_ok_def execute_step_def)
  show ?thesis
  proof (cases r)
    case (Inl e)
    with run x m s dry show ?thesis by (simp add: run_body_def step_failed_def plain_step_ok_def)
  next
    case (Inr q)
    with p b have "r = Inr continue_step" unfolding plain_body_def by (metis fst_conv)
    with run x m show ?thesis
      by (simp add: run_body_def step_succeeded_def run_after_step_hooks_def follow_continue Let_def)
  qed
qed

lemma run_bodies_trace:
  assumes "list_all plain_step_ok ss" and "run_bodies ss c w = (r, c', w')"
  shows "run_bodies ss (c\<lparr>px_trace := t\<rparr>) w = (r, c'\<lparr>px_trace := t\<rparr>, w')"
  using assms
proof (induction ss arbitrary: c w)
  case (Cons s ss)
  obtain r1 c1 w1 where b: "st_execute s c w = (r1, c1, w1)" by (metis prod.collapse)
  have "st_execute s (c\<lparr>px_trace := t\<rparr>) w = (r1, c1\<lparr>px_trace := t\<rparr>, w1)"
    using Cons.prems(1) b by (simp add: plain_step_ok_def plain_body_def)
  with Cons b show ?case by (auto split: sum.splits)
qed simp

lemma run_from_bodies:
  assumes "list_all plain_step_ok (sy_steps y)" and "sy_middlewares y = []" and "\<not> px_dry_run (en_ctx en)"
    and "run_bodies (drop i (sy_steps y)) (en_ctx en) (en_world en) = (r, c, w)"
  shows "\<exists>t en'. run_from y run_options_default i en = (map_option (\<lambda>(n, e). pipeline_step_error n e) r, en') \<and>
    en_ctx en' = c\<lparr>px_trace := t\<rparr> \<and> en_world en' = w \<and> (r = None \<longrightarrow> pt_success t)"
  using assms
proof (induction "length (sy_steps y) - i" arbitrary: i en c)
  case 0
  then have l: "\<not> i < length (sy_steps y)" by simp
  with 0(5) have c: "c = en_ctx en" "w = en_world en" "r = None" by simp_all
  have "run_from y run_options_default i en = (None, set_success True en)"
    using l by (subst run_from.simps) simp
  with c(3) show ?case unfolding c(1,2)
    by (intro exI [of _ "px_trace (en_ctx (set_success True en))"] exI [of _ "set_success True en"])
      (simp add: set_success_def)
next
  case (Suc k)
  let ?s = "sy_steps y ! i"
  have i: "i < length (sy_steps y)" using Suc.hyps(2) by simp
  then have d: "drop i (sy_steps y) = ?s # drop (Suc i) (sy_steps y)" by (simp add: Cons_nth_drop_Suc)
  have s: "plain_step_ok ?s" using Suc.prems(1) i by (simp add: list_all_length)
  obtain r1 c1 w1 where b: "st_execute ?s (en_ctx en) (en_world en) = (r1, c1, w1)" by (metis prod.collapse)
  note step = plain_step_runs [OF s Suc.prems(2,3) b]
  show ?case
  proof (cases r1)
    case (Inl e)
    with Suc.prems(4) d b have "r = Some (st_name ?s, e)" "c = c1" "w = w1" by simp_all
    moreover have "run_from y run_options_default i en =
        (Some (pipeline_step_error (st_name ?s) e), push_traces [aborted (st_name ?s) e] (en\<lparr>en_ctx := c1, en_world := w1\<rparr>))"
      using i step Inl by (subst run_from.simps) (simp add: after_failed_def)
    ultimately show ?thesis by (auto simp: push_traces_def)
  next
    case (Inr x)
    let ?en = "snapshot_output (st_name ?s)
      (push_traces [ran (st_name ?s) continue_step None] (en\<lparr>en_ctx := c1, en_world := w1\<rparr>))"
    have e: "en_ctx ?en = c1\<lparr>px_trace := px_trace (en_ctx ?en)\<rparr>" "en_world ?en = w1"
      by (simp_all add: snapshot_output_def push_traces_def)
    have "px_dry_run c1 = px_dry_run (en_ctx en)"
      using s b unfolding plain_step_ok_def plain_body_def by (metis fst_conv snd_conv)
    then have dry: "\<not> px_dry_run (en_ctx ?en)" using Suc.prems(3) by (simp add: snapshot_output_def push_traces_def)
    have rest: "run_bodies (drop (Suc i) (sy_steps y)) c1 w1 = (r, c, w)" using Suc.prems(4) d b Inr by simp
    have "list_all plain_step_ok (drop (Suc i) (sy_steps y))"
      using Suc.prems(1) by (auto simp: list_all_iff dest: in_set_dropD)
    from run_bodies_trace [OF this rest, of "px_trace (en_ctx ?en)"]
    have r2: "run_bodies (drop (Suc i) (sy_steps y)) (en_ctx ?en) (en_world ?en) =
        (r, c\<lparr>px_trace := px_trace (en_ctx ?en)\<rparr>, w)"
      using e by simp
    have "k = length (sy_steps y) - Suc i" using Suc.hyps(2) by simp
    note IH = Suc.hyps(1) [OF this Suc.prems(1,2) dry r2]
    have "run_from y run_options_default i en = run_from y run_options_default (Suc i) ?en"
      using i step Inr by (subst run_from.simps) simp
    with IH show ?thesis by simp
  qed
qed

subsection \<open>The built-in bodies are plain\<close>

lemma plain_bodyI:
  assumes "\<And>c w t. b (c\<lparr>px_trace := t\<rparr>) w = (fst (b c w), (fst (snd (b c w)))\<lparr>px_trace := t\<rparr>, snd (snd (b c w)))"
    and "\<And>c w. px_dry_run (fst (snd (b c w))) = px_dry_run c"
    and "\<And>c w. fst (b c w) = Inr continue_step \<or> (\<exists>e. fst (b c w) = Inl e)"
  shows "plain_body b"
  unfolding plain_body_def using assms by (metis Inl_Inr_False Inr_inject)

lemmas outcome_defs = proceed_def refuse_def

lemma plain_proceed: "plain_body proceed"
  by (rule plain_bodyI) (simp_all add: outcome_defs)

lemma plain_context_creation: "plain_body context_creation_body"
  by (rule plain_bodyI) (simp_all add: context_creation_body_def outcome_defs Let_def split: prod.split)

lemma plain_call_chain_guard: "plain_body call_chain_guard_body"
  by (rule plain_bodyI) (simp_all add: call_chain_guard_body_def outcome_defs Let_def split: option.split sum.split)

lemma plain_module_lookup: "plain_body (module_lookup_body toggle)"
  by (rule plain_bodyI) (simp_all add: module_lookup_body_def outcome_defs Let_def split: option.split sum.split)

lemma plain_acl_check: "plain_body acl_check_body"
  by (rule plain_bodyI) (simp_all add: acl_check_body_def outcome_defs Let_def split: option.split prod.split)

lemma plain_input_validation: "plain_body input_validation_body"
  by (rule plain_bodyI) (simp_all add: input_validation_body_def outcome_defs Let_def split: option.split)

lemma plain_output_validation: "plain_body output_validation_body"
  by (rule plain_bodyI) (simp_all add: output_validation_body_def outcome_defs Let_def split: option.split)

lemma plain_middleware_before: "plain_body middleware_before_body"
  by (rule plain_bodyI)
    (simp_all add: middleware_before_body_def current_middlewares_def outcome_defs Let_def
      split: option.split prod.split sum.split)

lemma plain_middleware_after: "plain_body middleware_after_body"
  by (rule plain_bodyI)
    (simp_all add: middleware_after_body_def current_middlewares_def outcome_defs Let_def
      split: option.split prod.split sum.split)

lemma invoke_module_trace [simp]: "invoke_module (c\<lparr>px_trace := t\<rparr>) obj limit w = invoke_module c obj limit w"
  by (simp add: invoke_module_def Let_def split: invocation.split)

lemma plain_execute: "plain_body execute_body"
  by (rule plain_bodyI)
    (simp_all add: execute_body_def outcome_defs Let_def
      split: option.split prod.split sum.split)

lemma conclude_approval_cases:
  "fst (conclude_approval r c w) = Inr continue_step \<or> (\<exists>e. fst (conclude_approval r c w) = Inl e)"
  "fst (snd (conclude_approval r c w)) = c"
  "conclude_approval r (c\<lparr>px_trace := t\<rparr>) w =
     (fst (conclude_approval r c w), c\<lparr>px_trace := t\<rparr>, snd (snd (conclude_approval r c w)))"
  by (simp_all add: conclude_approval_def outcome_defs Let_def emit_approval_decision_def
      emit_approval_decision_event_def split: option.split)

lemma approval_parts_trace [simp]:
  "gate_decision (c\<lparr>px_trace := t\<rparr>) ann = gate_decision c ann"
  "emit_policy_override (c\<lparr>px_trace := t\<rparr>) d w = emit_policy_override c d w"
  "emit_policy_override_event (c\<lparr>px_trace := t\<rparr>) d w = emit_policy_override_event c d w"
  "warn_once (c\<lparr>px_trace := t\<rparr>) k w = warn_once c k w"
  "approval_request_for (c\<lparr>px_trace := t\<rparr>) obj ann destructive = approval_request_for c obj ann destructive"
  "gated_object (c\<lparr>px_trace := t\<rparr>) w = gated_object c w"
  by (simp_all add: gate_decision_def emit_policy_override_def emit_policy_override_event_def warn_once_def
      approval_request_for_def gated_object_def Let_def split: option.split)

lemma announce_override_trace [simp]: "announce_override (c\<lparr>px_trace := t\<rparr>) d w = announce_override c d w"
  by (simp add: announce_override_def split: option.split)

lemma ask_handler_trace [simp]:
  "ask_handler h token obj ann destructive (c\<lparr>px_trace := t\<rparr>) w = ask_handler h token obj ann destructive c w"
  by (simp add: ask_handler_def split: option.split)

lemma settle_approval_cases:
  "fst (settle_approval token obj ann ds c w) = Inr continue_step \<or> (\<exists>e. fst (settle_approval token obj ann ds c w) = Inl e)"
  "fst (snd (settle_approval token obj ann ds c w)) = c"
  "settle_approval token obj ann ds (c\<lparr>px_trace := t\<rparr>) w =
     (fst (settle_approval token obj ann ds c w), c\<lparr>px_trace := t\<rparr>, snd (snd (settle_approval token obj ann ds c w)))"
  by (simp_all add: conclude_approval_cases settle_approval_def outcome_defs Let_def split: option.split prod.split sum.split)

lemma gate_call_cases:
  "fst (gate_call token obj ann c w) = Inr continue_step \<or> (\<exists>e. fst (gate_call token obj ann c w) = Inl e)"
  "fst (snd (gate_call token obj ann c w)) = c"
  "gate_call token obj ann (c\<lparr>px_trace := t\<rparr>) w =
     (fst (gate_call token obj ann c w), c\<lparr>px_trace := t\<rparr>, snd (snd (gate_call token obj ann c w)))"
  by (simp_all add: settle_approval_cases gate_call_def outcome_defs Let_def split: prod.split)

lemma take_approval_token_trace:
  "take_approval_token (c\<lparr>px_trace := t\<rparr>) = (fst (take_approval_token c), (snd (take_approval_token c))\<lparr>px_trace := t\<rparr>)"
  by (simp add: take_approval_token_def Let_def split: option.split prod.split json.split)

lemma take_approval_token_dry: "px_dry_run (snd (take_approval_token c)) = px_dry_run c"
  by (simp add: take_approval_token_def Let_def split: option.split prod.split json.split)

lemma plain_approval_gate: "plain_body approval_gate_body"
proof (rule plain_bodyI)
  fix c :: "'h call_pctx" and w :: "'h world" and t
  show "approval_gate_body (c\<lparr>px_trace := t\<rparr>) w =
      (fst (approval_gate_body c w), (fst (snd (approval_gate_body c w)))\<lparr>px_trace := t\<rparr>, snd (snd (approval_gate_body c w)))"
    by (cases "take_approval_token c"; cases "fst (take_approval_token c)")
      (simp_all add: approval_gate_body_def take_approval_token_trace gate_call_cases(2,3) outcome_defs split: prod.split)
  show "px_dry_run (fst (snd (approval_gate_body c w))) = px_dry_run c"
    using take_approval_token_dry [of c]
    by (cases "take_approval_token c"; cases "fst (take_approval_token c)")
      (simp_all add: approval_gate_body_def gate_call_cases(2) outcome_defs split: prod.split)
  show "fst (approval_gate_body c w) = Inr continue_step \<or> (\<exists>e. fst (approval_gate_body c w) = Inl e)"
    by (cases "take_approval_token c"; cases "fst (take_approval_token c)")
      (simp_all add: approval_gate_body_def gate_call_cases(1) outcome_defs split: prod.split)
qed

lemmas step_defs =
  context_creation_step_def call_chain_guard_step_def module_lookup_step_def acl_check_step_def approval_gate_step_def
  middleware_before_step_def input_validation_step_def execute_call_step_def output_validation_step_def
  middleware_after_step_def return_result_step_def

lemma standard_steps_plain: "list_all plain_step_ok (standard_steps toggle)"
  by (simp add: standard_steps_def step_defs builtin_step_def plain_step_ok_def plain_context_creation
      plain_call_chain_guard plain_module_lookup plain_acl_check plain_approval_gate plain_middleware_before
      plain_input_validation plain_execute plain_output_validation plain_middleware_after plain_proceed)

subsection \<open>The presets\<close>

lemma standard_strategy_exists:
  "build_standard_strategy_with_toggle toggle =
     Inr (rebuild_index \<lparr>sy_name = ''standard'', sy_steps = standard_steps toggle, sy_index = [], sy_middlewares = []\<rparr>)"
  by (simp add: build_standard_strategy_with_toggle_def strategy_new_def standard_steps_def step_defs builtin_step_def
      reject_weakened_gate_def offending_fields_def validate_dependencies_def rebuild_index_def Let_def)

lemma standard_strategy_steps:
  assumes "build_standard_strategy_with_toggle toggle = Inr y"
  shows "sy_steps y = standard_steps toggle" and "sy_middlewares y = []" and "sy_name y = ''standard''"
  using assms by (auto simp: standard_strategy_exists rebuild_index_def)

text \<open>The engine runs the standard pipeline as the plain sequence of its steps. The standard strategy can
  be built, and running it gives what running the bodies of its eleven steps one after the other gives, up
  to the trace: the same context and world, the output when all of them go on, and otherwise the first
  error with the name of its step.\<close>

theorem standard_runs_are_sequential:
  fixes c :: "'h call_pctx"
  assumes "\<not> px_dry_run c" and "run_bodies (standard_steps toggle) c w = (r, c', w')"
  shows "\<exists>y t. build_standard_strategy_with_toggle toggle = Inr y \<and>
    engine_run y c w =
      (case r of None \<Rightarrow> Inr (px_output c', t) | Some (n, e) \<Rightarrow> Inl (pipeline_step_error n e), c'\<lparr>px_trace := t\<rparr>, w') \<and>
    (r = None \<longrightarrow> pt_success t)"
proof -
  let ?y = "rebuild_index \<lparr>sy_name = ''standard'', sy_steps = standard_steps toggle, sy_index = [], sy_middlewares = []\<rparr>
    :: 'h call_pipeline"
  have y: "build_standard_strategy_with_toggle toggle = Inr ?y" by (rule standard_strategy_exists)
  note st = standard_strategy_steps [OF y]
  have "list_all plain_step_ok (sy_steps ?y)" unfolding st(1) by (rule standard_steps_plain)
  from run_from_bodies [OF this st(2), of "engine_start c w" 0] assms obtain t en' where
    "run_from ?y run_options_default 0 (engine_start c w) = (map_option (\<lambda>(n, e). pipeline_step_error n e) r, en')"
    "en_ctx en' = c'\<lparr>px_trace := t\<rparr>" "en_world en' = w'" "r = None \<longrightarrow> pt_success t"
    unfolding st(1) by (auto simp: engine_start_def)
  then show ?thesis
    by (intro exI [of _ ?y] exI [of _ t] conjI y)
      (auto simp: engine_run_def run_with_options_def split: option.split)
qed

subsection \<open>Governance\<close>

lemma run_bodies_append:
  "run_bodies (xs @ ys) c w =
     (case run_bodies xs c w of (None, c', w') \<Rightarrow> run_bodies ys c' w' | (Some e, c', w') \<Rightarrow> (Some e, c', w'))"
  by (induction xs arbitrary: c w) (auto split: prod.split sum.split option.split)

text \<open>What the access list says of a call that has been looked up.\<close>

definition access_of :: "'h call_pctx \<Rightarrow> 'h world \<Rightarrow> access_decision option" where
  "access_of c w =
     map_option (\<lambda>a. fst (async_check_access (rs_conditions (px_resources c)) (rs_sink_panics (px_resources c)) a
       (ctx_caller_id (px_context c)) (px_module_id c) (Some (px_context c)) (px_projection c))) (cl_acl w)"

definition access_granted :: "'h call_pctx \<Rightarrow> 'h world \<Rightarrow> bool" where
  "access_granted c w \<longleftrightarrow> (case access_of c w of None \<Rightarrow> True | Some d \<Rightarrow> is_allowed d)"

definition access_needs_approval :: "'h call_pctx \<Rightarrow> 'h world \<Rightarrow> bool" where
  "access_needs_approval c w \<longleftrightarrow>
     (case access_of c w of None \<Rightarrow> px_acl_approval_required c | Some d \<Rightarrow> ad_approval_required d)"

text \<open>What must hold when a call passes the approval gate: nobody requires approval, or no handler is
  configured and the policy is not strict, or the handler answered that the call is approved.\<close>

definition approval_due :: "bool \<Rightarrow> 'h call_pctx \<Rightarrow> module_annotations option \<Rightarrow> bool" where
  "approval_due by_acl c ann \<longleftrightarrow> fst (effective_flags (gate_decision c ann) ann) \<or> by_acl"

definition strict_policy :: "'w resources \<Rightarrow> bool" where
  "strict_policy res \<longleftrightarrow> (case rs_policy res of None \<Rightarrow> False | Some p \<Rightarrow> ep_strict p)"

text \<open>What the handler answers the gate, asked in the state in which the gate asks it; \<open>None\<close> when the token is
  refused first.\<close>

definition gate_annotations :: "'h call_pctx \<Rightarrow> 'h world \<Rightarrow> module_annotations option \<times> registry" where
  "gate_annotations c w =
     declared_annotations (rs_render (px_resources c)) (px_module_id c) (gated_object c w) (cl_registry w)"

definition gate_answer ::
  "'h world approval_handler \<Rightarrow> 'h call_pctx \<Rightarrow> 'h world \<Rightarrow> (module_error + approval_result) option" where
  "gate_answer h c0 w =
     (case take_approval_token c0 of
        (Inl e, c) \<Rightarrow> None
      | (Inr token, c) \<Rightarrow>
          (case gate_annotations c w of
             (ann, reg) \<Rightarrow>
               (let decision = gate_decision c ann
                in Some (fst (ask_handler h token (gated_object c w) ann (snd (effective_flags decision ann)) c
                     (announce_override c decision (w\<lparr>cl_registry := reg\<rparr>)))))))"

definition handler_approved :: "'h world approval_handler \<Rightarrow> 'h call_pctx \<Rightarrow> 'h world \<Rightarrow> bool" where
  "handler_approved h c w \<longleftrightarrow> (\<exists>r. gate_answer h c w = Some (Inr r) \<and> apr_status r = ''approved'')"

definition passes_gate :: "bool \<Rightarrow> 'h call_pctx \<Rightarrow> 'h world \<Rightarrow> bool" where
  "passes_gate by_acl c0 w \<longleftrightarrow>
     (let c = snd (take_approval_token c0)
      in approval_due by_acl c (fst (gate_annotations c w)) \<longrightarrow>
          (case rs_handler (px_resources c) of
             None \<Rightarrow> \<not> strict_policy (px_resources c)
           | Some h \<Rightarrow> handler_approved h c0 w))"

lemma acl_check_allows:
  "fst (acl_check_body c w) = Inr x \<Longrightarrow> access_granted c w"
  "px_acl_approval_required (fst (snd (acl_check_body c w))) = access_needs_approval c w"
  by (auto simp: acl_check_body_def access_granted_def access_needs_approval_def access_of_def outcome_defs Let_def
      split: option.splits prod.splits if_splits)

lemma acl_check_denies:
  assumes "\<not> access_granted c w"
  shows "fst (acl_check_body c w) = Inl (acl_denied (ctx_caller_id (px_context c)) (px_module_id c))"
    and "run_world.more (snd (snd (acl_check_body c w))) = run_world.more w"
  using assms
  by (auto simp: acl_check_body_def access_granted_def access_of_def outcome_defs emit_event_def Let_def
      split: option.splits prod.splits if_splits)

lemma settle_approval_passes:
  assumes "fst (settle_approval token obj ann ds c w) = Inr x"
  shows "case rs_handler (px_resources c) of
      None \<Rightarrow> \<not> strict_policy (px_resources c)
    | Some h \<Rightarrow> \<exists>w2 r. ask_handler h token obj ann ds c w = (Inr r, w2) \<and> apr_status r = ''approved''"
proof (cases "rs_handler (px_resources c)")
  case None
  with assms show ?thesis
    by (auto simp: settle_approval_def strict_policy_def conclude_approval_def approval_rejected_def approval_error_def
        approval_result_default_def outcome_defs Let_def split: option.splits if_splits)
next
  case (Some h)
  with assms show ?thesis
    by (auto simp: settle_approval_def conclude_approval_def approval_error_def outcome_defs Let_def
        split: option.splits if_splits prod.splits sum.splits)
qed

lemma gate_call_passes:
  assumes "fst (gate_call token obj ann c w) = Inr x" and "approval_due (px_acl_approval_required c) c ann"
  shows "fst (settle_approval token obj ann (snd (effective_flags (gate_decision c ann) ann)) c
    (announce_override c (gate_decision c ann) w)) = Inr x"
  using assms by (auto simp: gate_call_def approval_due_def Let_def split: prod.splits)

lemma take_approval_token_acl: "px_acl_approval_required (snd (take_approval_token c)) = px_acl_approval_required c"
  by (simp add: take_approval_token_def Let_def split: option.split prod.split json.split)

lemma approval_gate_passes:
  assumes "fst (approval_gate_body c0 w) = Inr x" shows "passes_gate (px_acl_approval_required c0) c0 w"
proof -
  obtain token c where t: "take_approval_token c0 = (Inr token, c)"
    using assms by (cases "take_approval_token c0"; cases "fst (take_approval_token c0)")
      (auto simp: approval_gate_body_def outcome_defs)
  obtain ann reg where a: "gate_annotations c w = (ann, reg)" by (metis prod.collapse)
  have g: "fst (gate_call token (gated_object c w) ann c (w\<lparr>cl_registry := reg\<rparr>)) = Inr x"
    using assms t a by (simp add: approval_gate_body_def gate_annotations_def)
  have q: "px_acl_approval_required c = px_acl_approval_required c0" using take_approval_token_acl [of c0] t by simp
  have "case rs_handler (px_resources c) of None \<Rightarrow> \<not> strict_policy (px_resources c) | Some h \<Rightarrow> handler_approved h c0 w"
    if due: "approval_due (px_acl_approval_required c0) c ann"
    using settle_approval_passes [OF gate_call_passes [OF g due [folded q]]]
    by (auto simp: handler_approved_def gate_answer_def t a Let_def split: option.splits)
  with t a show ?thesis by (simp add: passes_gate_def Let_def)
qed

lemma standard_split:
  "take 3 (standard_steps toggle) = [context_creation_step, call_chain_guard_step, module_lookup_step toggle]"
  "take 4 (standard_steps toggle) = take 3 (standard_steps toggle) @ [acl_check_step]"
  "standard_steps toggle = take 4 (standard_steps toggle) @ approval_gate_step # drop 5 (standard_steps toggle)"
  by (simp_all add: standard_steps_def)

lemma run_bodies_None:
  assumes "run_bodies (xs @ ys) c w = (None, c', w')"
  obtains c1 w1 where "run_bodies xs c w = (None, c1, w1)" and "run_bodies ys c1 w1 = (None, c', w')"
  using assms unfolding run_bodies_append by (auto split: prod.splits option.splits)

lemma engine_run_bodies:
  fixes c :: "'h call_pctx"
  assumes "build_standard_strategy_with_toggle toggle = Inr y" and "\<not> px_dry_run c"
    and "run_bodies (standard_steps toggle) c w = (r, c', w')"
  shows "\<exists>t. engine_run y c w =
    (case r of None \<Rightarrow> Inr (px_output c', t) | Some (n, e) \<Rightarrow> Inl (pipeline_step_error n e), c'\<lparr>px_trace := t\<rparr>, w') \<and>
    (r = None \<longrightarrow> pt_success t)"
proof -
  have "list_all plain_step_ok (sy_steps y)"
    unfolding standard_strategy_steps(1) [OF assms(1)] by (rule standard_steps_plain)
  from run_from_bodies [OF this standard_strategy_steps(2) [OF assms(1)], of "engine_start c w" 0] assms(2,3)
  obtain t en' where
    "run_from y run_options_default 0 (engine_start c w) = (map_option (\<lambda>(n, e). pipeline_step_error n e) r, en')"
    "en_ctx en' = c'\<lparr>px_trace := t\<rparr>" "en_world en' = w'" "r = None \<longrightarrow> pt_success t"
    unfolding standard_strategy_steps(1) [OF assms(1)] by (auto simp: engine_start_def)
  then show ?thesis
    by (intro exI [of _ t]) (auto simp: engine_run_def run_with_options_def split: option.split)
qed

text \<open>A run of the standard pipeline gets past its gates: the access list, if there is one, allowed the caller in
  the state after the lookup, and the call passed the approval gate. A governed run is one that did, and whose
  remaining steps, which only then ran, left the output.\<close>

definition admitted :: "nat \<Rightarrow> 'h call_pctx \<Rightarrow> 'h world \<Rightarrow> 'h call_pctx \<Rightarrow> 'h world \<Rightarrow> bool" where
  "admitted toggle c w c' w' \<longleftrightarrow>
     (\<exists>c1 w1 c2 w2.
        run_bodies (take 3 (standard_steps toggle)) c w = (None, c1, w1) \<and> access_granted c1 w1 \<and>
        run_bodies (take 4 (standard_steps toggle)) c w = (None, c2, w2) \<and>
        passes_gate (access_needs_approval c1 w1) c2 w2 \<and>
        run_bodies (take 5 (standard_steps toggle)) c w = (None, c', w'))"

definition governed_run :: "nat \<Rightarrow> 'h call_pctx \<Rightarrow> 'h world \<Rightarrow> json option \<Rightarrow> 'h world \<Rightarrow> bool" where
  "governed_run toggle c w out w' \<longleftrightarrow>
     (\<exists>c3 w3 c4. admitted toggle c w c3 w3 \<and>
        run_bodies (drop 5 (standard_steps toggle)) c3 w3 = (None, c4, w') \<and> px_output c4 = out)"

lemma admitted_run:
  fixes c :: "'h call_pctx"
  assumes "run_bodies (take 5 (standard_steps toggle)) c w = (None, c3, w3)"
  shows "admitted toggle c w c3 w3"
proof -
  have "run_bodies (take 4 (standard_steps toggle) @ [approval_gate_step]) c w = (None, c3, w3)"
    using assms by (simp add: standard_steps_def)
  then obtain c2 w2 where 4: "run_bodies (take 4 (standard_steps toggle)) c w = (None, c2, w2)"
    "run_bodies [approval_gate_step] c2 w2 = (None, c3, w3)" by (rule run_bodies_None)
  from 4(1) obtain c1 w1 where 3: "run_bodies (take 3 (standard_steps toggle)) c w = (None, c1, w1)"
    "run_bodies [acl_check_step] c1 w1 = (None, c2, w2)" unfolding standard_split(2) by (rule run_bodies_None)
  obtain x where a: "acl_check_body c1 w1 = (Inr x, c2, w2)"
    using 3(2) by (auto simp: step_defs builtin_step_def split: sum.splits prod.splits)
  obtain z where g: "approval_gate_body c2 w2 = (Inr z, c3, w3)"
    using 4(2) by (auto simp: approval_gate_step_def builtin_step_def split: sum.splits prod.splits)
  have "access_granted c1 w1" using acl_check_allows(1) [of c1 w1 x] a by simp
  moreover have "px_acl_approval_required c2 = access_needs_approval c1 w1" using acl_check_allows(2) [of c1 w1] a by simp
  then have "passes_gate (access_needs_approval c1 w1) c2 w2" using approval_gate_passes [of c2 w2 z] g by simp
  ultimately show ?thesis using 3(1) 4(1) assms unfolding admitted_def by blast
qed

lemma completed_runs_were_governed:
  fixes c :: "'h call_pctx"
  assumes "build_standard_strategy_with_toggle toggle = Inr y" and "\<not> px_dry_run c"
    and "engine_run y c w = (Inr (out, t), c', w')"
  shows "governed_run toggle c w out w' \<and> pt_success t"
proof -
  obtain r cr wr where r: "run_bodies (standard_steps toggle) c w = (r, cr, wr)" by (metis prod.collapse)
  from engine_run_bodies [OF assms(1,2) r] obtain t1 where
    e: "engine_run y c w = (case r of None \<Rightarrow> Inr (px_output cr, t1) | Some (n, e) \<Rightarrow> Inl (pipeline_step_error n e),
      cr\<lparr>px_trace := t1\<rparr>, wr)" and t1: "r = None \<longrightarrow> pt_success t1" by blast
  have rn: "r = None"
  proof (rule ccontr)
    assume "r \<noteq> None"
    then obtain n x where "r = Some (n, x)" by (cases r) auto
    with e assms(3) show False by simp
  qed
  with e assms(3) t1 have none: "r = None" "wr = w'" "px_output cr = out" "pt_success t" by simp_all
  have "run_bodies (take 5 (standard_steps toggle) @ drop 5 (standard_steps toggle)) c w = (None, cr, w')"
    using r none by simp
  then obtain c3 w3 where 5: "run_bodies (take 5 (standard_steps toggle)) c w = (None, c3, w3)"
    "run_bodies (drop 5 (standard_steps toggle)) c3 w3 = (None, cr, w')" by (rule run_bodies_None)
  with none(3,4) admitted_run [OF 5(1)] show ?thesis unfolding governed_run_def by blast
qed

lemma run_bodies_keeps:
  "\<forall>s \<in> set ss. \<forall>c w. f (snd (snd (st_execute s c w))) = f w \<Longrightarrow> f (snd (snd (run_bodies ss c w))) = f w"
proof (induction ss arbitrary: c w)
  case (Cons s ss)
  obtain r1 c1 w1 where b: "st_execute s c w = (r1, c1, w1)" by (metis prod.collapse)
  then have "f w1 = f w" using Cons.prems by (metis list.set_intros(1) snd_conv)
  moreover have "f (snd (snd (run_bodies ss c1 w1))) = f w1" by (rule Cons.IH) (use Cons.prems in simp)
  ultimately show ?case using b by (cases r1) simp_all
qed simp

lemma lookup_leaves_host:
  fixes c :: "'a call_pctx"
  assumes "run_bodies (take 3 (standard_steps toggle)) c w = (r, c1, w1)"
  shows "run_world.more w1 = run_world.more w"
proof -
  have "run_world.more (snd (snd (context_creation_body c w))) = run_world.more w"
    "run_world.more (snd (snd (call_chain_guard_body c w))) = run_world.more w"
    "run_world.more (snd (snd (module_lookup_body toggle c w))) = run_world.more w" for c :: "'a call_pctx" and w
    by (simp_all add: context_creation_body_def call_chain_guard_body_def module_lookup_body_def derive_token_def
        outcome_defs Let_def split: prod.split option.split sum.split)
  then have "\<forall>s \<in> set (take 3 (standard_steps toggle)). \<forall>(c :: 'a call_pctx) w.
      run_world.more (snd (snd (st_execute s c w))) = run_world.more w"
    unfolding standard_split(1) by (simp add: step_defs builtin_step_def)
  from run_bodies_keeps [of _ run_world.more c w, OF this] assms show ?thesis by simp
qed

text \<open>A denied call reaches nobody. When the access list denies the caller, a real run of the standard
  pipeline ends with the denial, named after the step and unchanged inside, and the host's state, which the
  bodies of modules, middlewares and the approval handler could change, is as it was before the call.\<close>

theorem denied_calls_reach_nobody:
  fixes c :: "'h call_pctx"
  assumes "build_standard_strategy_with_toggle toggle = Inr y" and "\<not> px_dry_run c"
    and "run_bodies (take 3 (standard_steps toggle)) c w = (None, c1, w1)" and "\<not> access_granted c1 w1"
  shows "\<exists>e c' w'. engine_run y c w = (Inl e, c', w') \<and> run_world.more w' = run_world.more w \<and>
    unwrap_pipeline_step_error e = Some (acl_denied (ctx_caller_id (px_context c1)) (px_module_id c1))"
proof -
  let ?e = "acl_denied (ctx_caller_id (px_context c1)) (px_module_id c1)"
  obtain c2 w2 where a: "acl_check_body c1 w1 = (Inl ?e, c2, w2)" and m: "run_world.more w2 = run_world.more w1"
    using acl_check_denies [OF assms(4)] by (metis prod.collapse)
  have "run_bodies (take 4 (standard_steps toggle)) c w = (Some (''acl_check'', ?e), c2, w2)"
    unfolding standard_split(2) run_bodies_append using assms(3) a by (simp add: acl_check_step_def builtin_step_def)
  then have "run_bodies (standard_steps toggle) c w = (Some (''acl_check'', ?e), c2, w2)"
    by (subst standard_split(3)) (simp add: run_bodies_append)
  from engine_run_bodies [OF assms(1,2) this] obtain t where
    "engine_run y c w = (Inl (pipeline_step_error ''acl_check'' ?e), c2\<lparr>px_trace := t\<rparr>, w2)" by auto
  moreover have "run_world.more w2 = run_world.more w" using m lookup_leaves_host [OF assms(3)] by simp
  moreover have "unwrap_pipeline_step_error (pipeline_step_error ''acl_check'' ?e) = Some ?e"
    by (simp add: unwrap_pipeline_step_error_def is_pipeline_step_error_def err_details_pipeline_step_error
        error_json_roundtrip bt_get_def) (simp add: pipeline_step_error_def with_details_def module_error_new_def)
  ultimately show ?thesis by blast
qed

text \<open>C6: the approval token never gets past the gate. Whatever the gate decides, the inputs that the later
  steps, the module's schema, its middlewares and its body see have no entry of that name, and a token that
  is not a string is refused.\<close>

theorem approval_token_never_passes:
  "bt_get (object_entries (px_inputs (fst (snd (approval_gate_body c w))))) approval_token_key = None \<and>
     (\<forall>v. bt_get (object_entries (px_inputs c)) approval_token_key = Some v \<longrightarrow> as_str v = None \<longrightarrow>
        fst (approval_gate_body c w) = Inl (module_error_new GeneralInvalidInput))"
proof -
  have f: "bt_get (filter (\<lambda>e. fst e \<noteq> k) es) k = None" for k and es :: "(string \<times> json) list"
    by (auto simp: bt_get_None_iff)
  have t: "bt_get (object_entries (px_inputs (snd (take_approval_token c)))) approval_token_key = None"
    using f by (auto simp: take_approval_token_def object_entries_def Let_def split: option.splits json.splits prod.splits
        bind_splits)
  have "fst (snd (approval_gate_body c w)) = snd (take_approval_token c)"
    by (cases "take_approval_token c"; cases "fst (take_approval_token c)")
      (simp_all add: approval_gate_body_def gate_call_cases(2) outcome_defs split: prod.split)
  moreover have "fst (approval_gate_body c w) = Inl (module_error_new GeneralInvalidInput)"
    if "bt_get (object_entries (px_inputs c)) approval_token_key = Some v" "as_str v = None" for v
    using that by (auto simp: approval_gate_body_def take_approval_token_def object_entries_def outcome_defs Let_def
        split: option.splits json.splits)
  ultimately show ?thesis using t by simp
qed

subsection \<open>Concrete calls\<close>

definition echo_module :: module_object where
  "echo_module = (plain_module 1 (JObject []) (JObject []) ''echo'')
     \<lparr>mo_annotations := default_annotations\<lparr>ma_requires_approval := True\<rparr>\<rparr>"

definition echo_config :: app_config where
  "echo_config = app_config_default\<lparr>cf_executor :=
     executor_config_default\<lparr>xc_default_timeout := 0, xc_global_timeout := 0\<rparr>\<rparr>"

definition echo_resources :: "unit world resources" where
  "echo_resources =
     \<lparr>rs_config = echo_config, rs_conditions = sample_world,
      rs_sink_panics = (\<lambda>_ _. False), rs_policy = None, rs_handler = Some auto_approve_handler, rs_emitter = False,
      rs_dedup = True, rs_manager = None, rs_render = (\<lambda>_. []), rs_check_schema = (\<lambda>_ _. Conforms),
      rs_redact = (\<lambda>v _. v), rs_deadline_in = (\<lambda>_ _. PosInt 0), rs_remaining_ms = (\<lambda>_ _. 0),
      rs_body = (\<lambda>_ inputs _ w. (Inr inputs, w)), rs_timed_body = (\<lambda>_ inputs _ _ w. Finished (Inr inputs) w)\<rparr>"

definition echo_world :: "acl option \<Rightarrow> unit world" where
  "echo_world a =
     \<lparr>cw_data = \<lparr>next_ref = 1, data_maps = (\<lambda>_. [])\<rparr>, cw_cells = [], cw_parents = (\<lambda>_. None), cw_warned = {},
      cw_events = [], cl_registry = registry_new\<lparr>rg_modules := [(''echo'', echo_module)]\<rparr>, cl_acl = a,
      cl_toggled = (\<lambda>_. {}), cl_decisions = []\<rparr>"

definition echo_call :: "unit call_pctx" where
  "echo_call = pctx_new ''echo'' (JString ''hi'')
     \<lparr>ctx_trace_id = [], ctx_identity = None, ctx_services = JNull, ctx_caller_id = None, ctx_data = 0, ctx_call_chain = [],
      ctx_redacted_inputs = None, ctx_redacted_output = None, ctx_cancel_token = None, ctx_global_deadline = None,
      ctx_executor = None\<rparr> ''standard'' echo_resources"

lemmas echo_defs = echo_module_def echo_config_def echo_resources_def echo_world_def echo_call_def pctx_new_def

lemmas lookup_body_defs =
  context_creation_body_def call_chain_guard_body_def module_lookup_body_def derive_token_def token_new_def context_child_def
  check_context_def check_for_def token_at_def guard_call_chain_with_repeat_def guard_call_chain_def new_cell_def rposition_def
  get_module_def is_enabled_def registry_new_def bt_get_Cons has_schema_def plain_module_def object_entries_def
  app_config_default_def executor_config_default_def outcome_defs Let_def

lemmas gate_body_defs =
  approval_gate_body_def take_approval_token_def declared_annotations_def get_definition_def gated_object_def
  governance_union_def gate_call_def gate_decision_def effective_flags_def announce_override_def settle_approval_def
  ask_handler_def auto_approve_handler_def default_annotations_def

lemmas conclude_body_defs =
  conclude_approval_def emit_approval_decision_event_def emit_approval_decision_def emit_event_def note_in_span_def
  approval_error_def approval_approved_def key_get_def read_data_def outcome_defs Let_def

lemmas execution_body_defs =
  middleware_before_body_def current_middlewares_def input_validation_body_def validate_against_schema_def
  execute_body_def get_definition_def declared_timeout_def resolve_effective_timeout_ms_def invoke_module_def
  output_validation_body_def middleware_after_body_def

definition looked_up :: "unit call_pctx" where
  "looked_up = fst (snd (run_bodies (take 3 (standard_steps 0)) echo_call (echo_world None)))"

lemma echo_call_looked_up:
  "\<exists>w. run_bodies (take 3 (standard_steps 0)) echo_call (echo_world a) = (None, looked_up, w) \<and> cl_acl w = a \<and>
     px_resources looked_up = echo_resources \<and> ctx_caller_id (px_context looked_up) = None \<and>
     px_module_id looked_up = ''echo''"
  apply (simp add: looked_up_def standard_split(1) step_defs builtin_step_def)
  apply (simp add: echo_defs lookup_body_defs)
  done

lemma echo_call_runs:
  "\<exists>c w. run_bodies (standard_steps 0) echo_call (echo_world None) = (None, c, w) \<and> px_output c = Some (JString ''hi'')"
  apply (simp add: standard_steps_def step_defs builtin_step_def)
  apply (simp add: echo_defs lookup_body_defs)
  apply (simp add: acl_check_body_def outcome_defs)
  apply (simp add: gate_body_defs lookup_body_defs)
  apply (simp add: conclude_body_defs)
  apply (simp add: execution_body_defs lookup_body_defs)
  done

lemma echo_call_is_real: "\<not> px_dry_run echo_call"
  by (simp add: echo_call_def pctx_new_def)

lemma echo_engine_run:
  "\<exists>y t c w. build_standard_strategy_with_toggle 0 = Inr y \<and>
     engine_run y echo_call (echo_world None) = (Inr (Some (JString ''hi''), t), c, w)"
proof -
  obtain c w where r: "run_bodies (standard_steps 0) echo_call (echo_world None) = (None, c, w)"
    and out: "px_output c = Some (JString ''hi'')" using echo_call_runs by blast
  obtain y :: "unit call_pipeline" where y: "build_standard_strategy_with_toggle 0 = Inr y"
    using standard_strategy_exists by blast
  from engine_run_bodies [OF y echo_call_is_real r] out y show ?thesis by auto
qed

theorem standard_runs_are_sequential_witness:
  "\<exists>y t c' w'. build_standard_strategy_with_toggle 0 = Inr y \<and>
     engine_run y echo_call (echo_world None) = (Inr (Some (JString ''hi''), t), c', w')"
proof -
  obtain c w where "run_bodies (standard_steps 0) echo_call (echo_world None) = (None, c, w)"
    "px_output c = Some (JString ''hi'')" using echo_call_runs by blast
  with standard_runs_are_sequential [OF echo_call_is_real this(1)] show ?thesis by auto
qed

definition deny_all :: acl where
  "deny_all = acl_new_unchecked [] ''deny'' None"

theorem denied_calls_reach_nobody_witness:
  "\<exists>y e c' w'. build_standard_strategy_with_toggle 0 = Inr y \<and>
     engine_run y echo_call (echo_world (Some deny_all)) = (Inl e, c', w') \<and>
     unwrap_pipeline_step_error e = Some (acl_denied None ''echo'')"
proof -
  obtain y :: "unit call_pipeline" where y: "build_standard_strategy_with_toggle 0 = Inr y"
    using standard_strategy_exists by blast
  obtain w where r: "run_bodies (take 3 (standard_steps 0)) echo_call (echo_world (Some deny_all)) = (None, looked_up, w)"
    and w: "cl_acl w = Some deny_all" "px_resources looked_up = echo_resources"
      "ctx_caller_id (px_context looked_up) = None" "px_module_id looked_up = ''echo''"
    using echo_call_looked_up by blast
  have "\<not> access_granted looked_up w"
    using w by (simp add: access_granted_def access_of_def async_check_access_def deny_all_def acl_new_unchecked_def
        finish_no_rules_def finalize_no_rules_def is_allowed_def
        access_decision_new_def split: prod.split)
  from denied_calls_reach_nobody [OF y echo_call_is_real r this] w y show ?thesis by auto
qed

theorem approval_token_never_passes_witness:
  "fst (approval_gate_body (echo_call\<lparr>px_inputs := JObject [(approval_token_key, JNull)]\<rparr>) (echo_world None)) =
     Inl (module_error_new GeneralInvalidInput)"
  using approval_token_never_passes [of "echo_call\<lparr>px_inputs := JObject [(approval_token_key, JNull)]\<rparr>" "echo_world None"]
  by (simp add: object_entries_def bt_get_Cons)

subsection \<open>Deadlines\<close>

text \<open>C7: a deadline bounds the execution. When the context carries a deadline, the module's body is never run
  without a limit, and never with a limit beyond what the deadline leaves: replacing the unlimited
  invocation, and the limited one for every longer limit, changes nothing of what the step does.\<close>

theorem deadlines_bound_execution:
  fixes c :: "'h call_pctx"
  assumes "ctx_global_deadline (px_context c) = Some d" and "res = px_resources c"
    and "\<forall>obj v ctx n w. 0 < n \<and> n \<le> rs_remaining_ms res d w \<longrightarrow> timed obj v ctx n w = rs_timed_body res obj v ctx n w"
  shows "execute_body (c\<lparr>px_resources := res\<lparr>rs_body := untimed, rs_timed_body := timed\<rparr>\<rparr>) w =
    (let r = execute_body c w
     in (fst r, (fst (snd r))\<lparr>px_resources := res\<lparr>rs_body := untimed, rs_timed_body := timed\<rparr>\<rparr>, snd (snd r)))"
proof (cases "px_module c")
  case None
  then show ?thesis by (simp add: execute_body_def outcome_defs)
next
  case (Some obj)
  let ?c = "c\<lparr>px_resources := res\<lparr>rs_body := untimed, rs_timed_body := timed\<rparr>\<rparr>"
  have i: "invoke_module ?c obj n w1 = invoke_module c obj n w1"
    if n: "resolve_effective_timeout_ms dt (Some (rs_remaining_ms res d w1)) def = Inr n" for n dt def and w1 :: "'h world"
  proof -
    have "0 < n" "n \<le> rs_remaining_ms res d w1"
      using n by (auto simp: resolve_effective_timeout_ms_def Let_def split: if_splits option.splits)
    with assms(2,3) show ?thesis by (simp add: invoke_module_def Let_def split: invocation.split)
  qed
  obtain r reg where g: "get_definition (rs_render res) (px_module_id c) (cl_registry w) = (r, reg)" by (metis prod.collapse)
  let ?w = "w\<lparr>cl_registry := reg\<rparr>"
  let ?t = "resolve_effective_timeout_ms (declared_timeout (case r of Inl _ \<Rightarrow> None | Inr d \<Rightarrow> d))
    (Some (rs_remaining_ms res d ?w)) (xc_default_timeout (cf_executor (rs_config res)))"
  show ?thesis
  proof (cases ?t)
    case (Inl e)
    with Some assms(1,2) g show ?thesis by (simp add: execute_body_def outcome_defs Let_def)
  next
    case (Inr n)
    from i [OF this] Inr Some assms(1,2) g show ?thesis
      by (cases "check_context (px_context c) (px_module_id c) ?w"; cases "fst (invoke_module c obj n ?w)";
          cases "invoke_module c obj n ?w")
        (simp_all add: execute_body_def outcome_defs Let_def)
  qed
qed

definition hasty_resources :: "unit world resources" where
  "hasty_resources = echo_resources\<lparr>rs_remaining_ms := (\<lambda>_ _. 5)\<rparr>"

definition hasty_call :: "unit call_pctx" where
  "hasty_call = echo_call\<lparr>px_module := Some echo_module, px_resources := hasty_resources,
     px_context := (px_context echo_call)\<lparr>ctx_global_deadline := Some (PosInt 9)\<rparr>\<rparr>"

theorem deadlines_bound_execution_witness:
  "fst (execute_body (hasty_call\<lparr>px_resources := hasty_resources\<lparr>
       rs_body := (\<lambda>_ _ _ w. (Inl (module_error_new ModuleExecuteError), w)),
       rs_timed_body := (\<lambda>_ inputs _ n w. if n \<le> 5 then Finished (Inr inputs) w else TaskFailed w)\<rparr>\<rparr>) (echo_world None)) =
   fst (execute_body hasty_call (echo_world None))"
  by (subst deadlines_bound_execution [of hasty_call "PosInt 9" hasty_resources])
    (simp_all add: hasty_call_def hasty_resources_def echo_resources_def Let_def)

subsection \<open>Some details\<close>

lemma derived_context:
  "ctx_call_chain (px_context (fst (snd (context_creation_body c w)))) = ctx_call_chain (px_context c) @ [px_module_id c]"
  "ctx_caller_id (px_context (fst (snd (context_creation_body c w)))) =
     (if ctx_call_chain (px_context c) = [] then None else Some (last (ctx_call_chain (px_context c))))"
  by (simp_all add: context_creation_body_def outcome_defs context_child_def Let_def split: prod.split)

text \<open>A retry starts from the context that the failed run derived, so the access list is asked about the module
  itself as the caller, and the module is twice in the chain.\<close>

lemma retry_calls_itself:
  assumes "px_context c' = px_context (fst (snd (context_creation_body c w)))" and "px_module_id c' = px_module_id c"
  shows "ctx_caller_id (px_context (fst (snd (context_creation_body c' w')))) = Some (px_module_id c)"
    and "ctx_call_chain (px_context (fst (snd (context_creation_body c' w')))) =
      ctx_call_chain (px_context c) @ [px_module_id c, px_module_id c]"
  using assms(2) by (simp_all only: derived_context assms(1)) simp_all

text \<open>The caller that \<open>context_creation\<close> defaults to is lost again when it derives the child context.\<close>

lemma default_caller_is_dropped:
  "ctx_call_chain (px_context c) = [] \<Longrightarrow>
     ctx_caller_id (px_context (fst (snd (context_creation_body c w)))) = None"
  by (simp add: derived_context)

text \<open>The inputs are captured for logging before the gate takes the approval token out of them, and a module
  without an input schema has them captured as they are.\<close>

lemma captured_inputs_keep_the_token:
  assumes "get_module (px_module_id c) (cl_registry w) = Inr (Some obj)" and "\<not> has_schema (mo_input_schema obj)"
    and "is_enabled (px_module_id c) (cl_registry w) \<noteq> Some False" and "px_module_id c \<notin> cl_toggled w toggle"
    and "px_inputs c = JObject es"
  shows "ctx_redacted_inputs (px_context (fst (snd (module_lookup_body toggle c w)))) = Some es"
  using assms by (simp add: module_lookup_body_def object_entries_def outcome_defs Let_def)

end
