(* ===== verification/Executor.thy ===== *)
theory Executor
  imports GovernedCalls ConfigLoad
begin

section \<open>The executor\<close>

text \<open>
  \<open>src/src/executor.rs\<close> and \<open>src/src/utils/error_propagation.rs\<close>: the entry points over the
  engine, which are \<open>call\<close> with its loop of retries, \<open>call_with_trace\<close> and \<open>validate\<close>, the
  registry of strategies, and the account that the executor gives of its own governance. The executor is a
  record; its ACL and its registry, which other threads may change, are in the world. The error hooks may ask
  for retries for ever, so the loop is a partial function: \<open>None\<close> is a call that does not return. Streaming is
  not modelled.
\<close>

record 'h executor =
  ex_handle :: nat
  ex_strategy :: "'h call_pipeline"
  ex_resources :: "'h world resources"
  ex_manager :: "'h world \<Rightarrow> 'h world mw_manager"
  ex_toggle :: nat

subsection \<open>Strategies by name\<close>

definition resolve_strategy_by_name :: "string \<Rightarrow> module_error + 'h call_pipeline" where
  "resolve_strategy_by_name name =
     (if name = ''standard'' then build_standard_strategy
      else if name = ''internal'' then build_internal_strategy
      else if name = ''testing'' then build_testing_strategy
      else if name = ''performance'' then build_performance_strategy
      else if name = ''minimal'' then build_minimal_strategy
      else Inl (module_error_new StrategyNotFound))"

text \<open>The global registry is the list of the summaries in the order of their first registration.\<close>

fun register_strategy :: "strategy_info \<Rightarrow> strategy_info list \<Rightarrow> strategy_info list" where
  "register_strategy info [] = [info]"
| "register_strategy info (s # ss) =
     (if si_name s = si_name info then info # ss else s # register_strategy info ss)"

definition register_strategy_by_name ::
  "string \<Rightarrow> ('r, 'w, 'm) strategy \<Rightarrow> strategy_info list \<Rightarrow> strategy_info list" where
  "register_strategy_by_name name y = register_strategy ((strategy_info_of y)\<lparr>si_name := name\<rparr>)"

fun first_of_name :: "string set \<Rightarrow> strategy_info list \<Rightarrow> strategy_info list" where
  "first_of_name seen [] = []"
| "first_of_name seen (s # ss) =
     (if si_name s \<in> seen then first_of_name seen ss else s # first_of_name (insert (si_name s) seen) ss)"

definition describe_pipeline :: "'h executor \<Rightarrow> strategy_info" where
  "describe_pipeline x = strategy_info_of (ex_strategy x)"

definition list_strategies :: "'h executor \<Rightarrow> strategy_info list \<Rightarrow> strategy_info list" where
  "list_strategies x registered =
     (let current = strategy_info_of (ex_strategy x)
      in current # first_of_name {si_name current} registered)"

definition builtin_presets :: "string list" where
  "builtin_presets = [''standard'', ''internal'', ''testing'', ''performance'', ''minimal'']"

definition set_toggle_state :: "nat \<Rightarrow> 'h executor \<Rightarrow> 'h executor" where
  "set_toggle_state toggle x =
     (let y = (if sy_name (ex_strategy x) \<in> set builtin_presets
               then snd (replace_with ''module_lookup'' (\<lambda>_. module_lookup_step toggle) (ex_strategy x))
               else ex_strategy x)
      in x\<lparr>ex_strategy := y, ex_toggle := toggle\<rparr>)"

subsection \<open>Into the pipeline\<close>

definition validate_call_id :: "string \<Rightarrow> module_error option" where
  "validate_call_id m =
     (if m = [] \<or> \<not> canonical_id_grammar m then Some (module_error_new InvalidModuleId)
      else if length m > max_module_id_length then Some (module_error_new InvalidModuleId)
      else None)"

text \<open>\<open>fresh\<close> is the generated trace id.\<close>

definition anonymous_context :: "string \<Rightarrow> 'h world \<Rightarrow> json call_context \<times> 'h world" where
  "anonymous_context fresh w =
     (case alloc_data [] (cw_data w) of
        (r, st) \<Rightarrow>
          (\<lparr>ctx_trace_id = fresh, ctx_identity = None, ctx_services = JNull, ctx_caller_id = None, ctx_data = r,
            ctx_call_chain = [], ctx_redacted_inputs = None, ctx_redacted_output = None, ctx_cancel_token = None,
            ctx_global_deadline = None, ctx_executor = None\<rparr>, w\<lparr>cw_data := st\<rparr>))"

definition call_context_or_anonymous ::
  "string \<Rightarrow> json call_context option \<Rightarrow> 'h world \<Rightarrow> json call_context \<times> 'h world" where
  "call_context_or_anonymous fresh ctx w = (case ctx of Some c \<Rightarrow> (c, w) | None \<Rightarrow> anonymous_context fresh w)"

definition injected_resources :: "'h executor \<Rightarrow> 'h world resources" where
  "injected_resources x = (ex_resources x)\<lparr>rs_manager := Some (ex_manager x), rs_dedup := True\<rparr>"

definition prepare_call ::
  "'h executor \<Rightarrow> 'h call_pipeline \<Rightarrow> string \<Rightarrow> json \<Rightarrow> json call_context \<Rightarrow> string option
     \<Rightarrow> module_error + 'h call_pctx" where
  "prepare_call x y m inputs ctx hint =
     (case bind_executor ctx (ex_handle x) of
        Inl e \<Rightarrow> Inl e
      | Inr ctx' \<Rightarrow> Inr ((pctx_new m inputs ctx' (sy_name y) (injected_resources x))\<lparr>px_version_hint := hint\<rparr>))"

subsection \<open>Errors on their way out\<close>

definition insert_if_absent :: "string \<Rightarrow> json \<Rightarrow> module_error \<Rightarrow> module_error" where
  "insert_if_absent k v e =
     (case bt_get (err_details e) k of
        None \<Rightarrow> e\<lparr>err_details := bt_insert k v (err_details e)\<rparr>
      | Some _ \<Rightarrow> e)"

definition propagate_module_error :: "module_error \<Rightarrow> string \<Rightarrow> 's call_context \<Rightarrow> module_error" where
  "propagate_module_error e m ctx =
     (let e1 = (if err_trace_id e = None then e\<lparr>err_trace_id := Some (ctx_trace_id ctx)\<rparr> else e)
      in insert_if_absent ''call_chain'' (json_strings (ctx_call_chain ctx))
           (insert_if_absent ''module_id'' (JString m) e1))"

text \<open>\<open>unwrap_pipeline_step_error().unwrap_or(e)\<close>, and the same for the chain error inside.\<close>

definition underlying_error :: "module_error \<Rightarrow> module_error" where
  "underlying_error e =
     (let e1 = (case unwrap_pipeline_step_error e of None \<Rightarrow> e | Some u \<Rightarrow> u)
      in case unwrap_middleware_chain_error e1 of None \<Rightarrow> e1 | Some u \<Rightarrow> u)"

definition pipeline_abort :: "string \<Rightarrow> module_error" where
  "pipeline_abort step = with_details (details_of [(''step'', JString step)]) (module_error_new PipelineAbort)"

definition reject_aborted_trace :: "pipeline_trace \<Rightarrow> module_error option" where
  "reject_aborted_trace t =
     (if pt_success t then None
      else Some (pipeline_abort
        (case find (\<lambda>s. sr_action (tr_result s) = ''abort'') (pt_steps t) of
           None \<Rightarrow> ''unknown'' | Some s \<Rightarrow> tr_name s)))"

definition or_null :: "json option \<Rightarrow> json" where
  "or_null v = (case v of None \<Rightarrow> JNull | Some j \<Rightarrow> j)"

text \<open>The error hooks of the middlewares that ran.\<close>

definition ask_error_hooks ::
  "'h executor \<Rightarrow> string \<Rightarrow> 'h call_pctx \<Rightarrow> module_error \<Rightarrow> 'h world \<Rightarrow> on_error_outcome option \<times> 'h world" where
  "ask_error_hooks x m c e w =
     (if px_executed_middlewares c = [] then (None, w)
      else execute_on_error_outcome (mm_middlewares (ex_manager x w)) m (px_inputs c) e (px_context c)
             (px_executed_middlewares c) w)"

definition reset_for_retry :: "json \<Rightarrow> 'h call_pctx \<Rightarrow> 'h call_pctx" where
  "reset_for_retry inputs c =
     c\<lparr>px_inputs := inputs, px_validated_inputs := None, px_module := None, px_output := None,
       px_validated_output := None, px_executed_middlewares := []\<rparr>"

subsection \<open>Calls\<close>

partial_function (option) call_loop ::
  "'h executor \<Rightarrow> string \<Rightarrow> 'h call_pctx \<Rightarrow> 'h world \<Rightarrow> ((module_error + json) \<times> 'h world) option" where
  "call_loop x m c w =
     (case engine_run (ex_strategy x) c w of
        (r, c', w') \<Rightarrow>
          (case r of
             Inr (out, t) \<Rightarrow>
               Some (case reject_aborted_trace t of Some e \<Rightarrow> Inl e | None \<Rightarrow> Inr (or_null out), w')
           | Inl e \<Rightarrow>
               (let u = propagate_module_error (underlying_error e) m (px_context c')
                in if err_code u = ExecutionCancelled then Some (Inl u, w')
                   else case ask_error_hooks x m c' u w' of
                     (outcome, w'') \<Rightarrow>
                       (case outcome of
                          None \<Rightarrow> Some (Inl u, w'')
                        | Some oc \<Rightarrow>
                            (case oc of
                               Recovery v \<Rightarrow> Some (Inr v, w'')
                             | Retry inputs \<Rightarrow> call_loop x m (reset_for_retry inputs c') w'')))))"

definition executor_call ::
  "'h executor \<Rightarrow> string \<Rightarrow> string \<Rightarrow> json \<Rightarrow> json call_context option \<Rightarrow> string option \<Rightarrow> 'h world
     \<Rightarrow> ((module_error + json) \<times> 'h world) option" where
  "executor_call x fresh m inputs ctx hint w =
     (case validate_call_id m of
        Some e \<Rightarrow> Some (Inl e, w)
      | None \<Rightarrow>
          (case call_context_or_anonymous fresh ctx w of
             (cx, w') \<Rightarrow>
               (case prepare_call x (ex_strategy x) m inputs cx hint of
                  Inl e \<Rightarrow> Some (Inl e, w')
                | Inr c \<Rightarrow> call_loop x m c w')))"

definition call_with_trace ::
  "'h executor \<Rightarrow> string \<Rightarrow> string \<Rightarrow> json \<Rightarrow> json call_context option \<Rightarrow> string option \<Rightarrow> 'h call_pipeline option
     \<Rightarrow> 'h world \<Rightarrow> (module_error + json \<times> pipeline_trace) \<times> 'h world" where
  "call_with_trace x fresh m inputs ctx hint strategy w =
     (let y = (case strategy of None \<Rightarrow> ex_strategy x | Some y \<Rightarrow> y)
      in case call_context_or_anonymous fresh ctx w of
           (cx, w0) \<Rightarrow>
             (case prepare_call x y m inputs cx hint of
                Inl e \<Rightarrow> (Inl e, w0)
              | Inr c \<Rightarrow>
                  (case engine_run y c w0 of
                     (Inr (out, t), c', w') \<Rightarrow>
                       (case reject_aborted_trace t of Some e \<Rightarrow> Inl e | None \<Rightarrow> Inr (or_null out, t), w')
                   | (Inl e, c', w') \<Rightarrow>
                       (let u = propagate_module_error (underlying_error e) m (px_context c')
                        in if err_code u = ExecutionCancelled then (Inl u, w')
                           else case ask_error_hooks x m c' u w' of
                             (Some (Recovery v), w'') \<Rightarrow> (Inr (v, px_trace c'), w'')
                           | (_, w'') \<Rightarrow> (Inl u, w'')))))"

subsection \<open>Preflight\<close>

definition step_to_check_name :: "string \<Rightarrow> string" where
  "step_to_check_name n =
     (if n = ''context_creation'' then ''context''
      else if n = ''call_chain_guard'' then ''call_chain''
      else if n = ''module_lookup'' then ''module_lookup''
      else if n = ''acl_check'' then ''acl''
      else if n = ''approval_gate'' then ''approval''
      else if n = ''middleware_before'' then ''middleware''
      else if n = ''input_validation'' then ''schema''
      else n)"

definition check_entry :: "string \<Rightarrow> bool \<Rightarrow> json option \<Rightarrow> string list \<Rightarrow> preflight_check" where
  "check_entry n passed e ws = \<lparr>pc_check = n, pc_passed = passed, pc_error = e, pc_warnings = ws\<rparr>"

definition code_only :: "string \<Rightarrow> json" where
  "code_only code = JObject (details_of [(''code'', JString code)])"

definition trace_to_checks :: "pipeline_trace \<Rightarrow> preflight_check list" where
  "trace_to_checks t =
     map (\<lambda>s.
       (let passed = (sr_action (tr_result s) \<noteq> ''abort'')
        in check_entry (step_to_check_name (tr_name s)) passed
             (if passed then None
              else map_option (\<lambda>_. code_only (''STEP_'' @ map to_ascii_upper (tr_name s) @ ''_FAILED''))
                     (sr_explanation (tr_result s))) []))
       (filter (\<lambda>s. \<not> tr_skipped s) (pt_steps t))"

definition check_of_code :: "error_code \<Rightarrow> string" where
  "check_of_code code =
     (if code = ModuleNotFound then ''module_lookup''
      else if code = ACLDenied then ''acl''
      else if code = SchemaValidationError \<or> code = GeneralInvalidInput then ''schema''
      else if code = CallDepthExceeded \<or> code = CircularCall then ''call_chain''
      else ''unknown'')"

definition preflight_check_name :: "string \<Rightarrow> string" where
  "preflight_check_name n =
     (if n = ''acl_check'' then ''acl'' else if n = ''input_validation'' then ''schema''
      else if n = ''call_chain_guard'' then ''call_chain'' else n)"

definition preflight_checks ::
  "(module_error + json option \<times> pipeline_trace) \<Rightarrow> 'h call_pctx \<Rightarrow> preflight_check list" where
  "preflight_checks r c =
     (let checks =
        (case r of
           Inr (_, t) \<Rightarrow> trace_to_checks t
         | Inl e \<Rightarrow>
             (let u = (case unwrap_pipeline_step_error e of None \<Rightarrow> e | Some u \<Rightarrow> u)
              in filter pc_passed (trace_to_checks (px_trace c)) @
                   [check_entry (check_of_code (err_code u)) False (Some (code_only (wire_str (err_code u)))) []]))
      in if px_preflight_errors c = [] then checks
         else filter pc_passed checks @
           map (\<lambda>(n, e). check_entry (preflight_check_name n) False (Some (error_to_json e)) []) (px_preflight_errors c))"

text \<open>What a module says of a call: the warnings of \<open>preflight\<close> and the changes of \<open>preview\<close>, which may be
  absent or panic with a message.\<close>

datatype preview_outcome = PreviewPanicked string | NoPreview | Predicted "change list"

record 'w introspection =
  in_preflight :: "module_object \<Rightarrow> json \<Rightarrow> json call_context option \<Rightarrow> 'w \<Rightarrow> string list \<times> 'w"
  in_preview :: "module_object \<Rightarrow> json \<Rightarrow> json call_context option \<Rightarrow> 'w \<Rightarrow> preview_outcome \<times> 'w"

definition failed_preflight :: "string \<Rightarrow> module_error \<Rightarrow> preflight_result" where
  "failed_preflight n e =
     \<lparr>pf_valid = False, pf_checks = [check_entry n False (Some (error_to_json e)) []], pf_requires_approval = False,
      pf_predicted_changes = []\<rparr>"

definition acl_check_failed :: "preflight_check list \<Rightarrow> bool" where
  "acl_check_failed checks \<longleftrightarrow> list_ex (\<lambda>c. pc_check c = ''acl'' \<and> \<not> pc_passed c) checks"

definition introspect ::
  "'w introspection \<Rightarrow> module_object \<Rightarrow> json \<Rightarrow> json call_context option \<Rightarrow> 'w
     \<Rightarrow> preflight_check list \<times> change list \<times> 'w" where
  "introspect host obj inputs ctx w =
     (case in_preflight host obj inputs ctx w of
        (warnings, w1) \<Rightarrow>
          (let pre = check_entry ''module_preflight'' True None warnings
           in case in_preview host obj inputs ctx w1 of
                (NoPreview, w2) \<Rightarrow> ([pre], [], w2)
              | (Predicted changes, w2) \<Rightarrow> ([pre, check_entry ''module_preview'' True None []], changes, w2)
              | (PreviewPanicked msg, w2) \<Rightarrow>
                  ([pre, check_entry ''module_preview'' True None [''preview() panicked: '' @ msg]], [], w2)))"

definition requires_approval_verdict ::
  "'h executor \<Rightarrow> string \<Rightarrow> json \<Rightarrow> 'h call_pctx \<Rightarrow> 'h world \<Rightarrow> bool \<times> 'h world" where
  "requires_approval_verdict x m inputs c w =
     (case declared_annotations (rs_render (ex_resources x)) m (px_module c) (cl_registry w) of
        (ann, reg) \<Rightarrow>
          ((case rs_policy (ex_resources x) of
              Some p \<Rightarrow> pd_needs_approval (fst (resolve_with_call_site p m (map_option governed_flags ann) (Some inputs)))
            | None \<Rightarrow> (case ann of None \<Rightarrow> False | Some a \<Rightarrow> ma_requires_approval a)) \<or>
           px_acl_approval_required c,
           w\<lparr>cl_registry := reg\<rparr>))"

definition validate_call ::
  "'h world introspection \<Rightarrow> 'h executor \<Rightarrow> string \<Rightarrow> string \<Rightarrow> json \<Rightarrow> json call_context option \<Rightarrow> 'h world
     \<Rightarrow> preflight_result \<times> 'h world" where
  "validate_call host x fresh m inputs ctx w =
     (case validate_call_id m of
        Some e \<Rightarrow> (failed_preflight ''module_id'' e, w)
      | None \<Rightarrow>
          (case call_context_or_anonymous fresh ctx w of
             (cx, w0) \<Rightarrow>
               (case prepare_call x (ex_strategy x) m inputs cx None of
                  Inl e \<Rightarrow> (failed_preflight ''executor_binding'' e, w0)
                | Inr c0 \<Rightarrow>
                    (case engine_run (ex_strategy x) (c0\<lparr>px_dry_run := True\<rparr>) w0 of
                       (r, c, w1) \<Rightarrow>
                         (let checks = preflight_checks r c
                          in case requires_approval_verdict x m inputs c w1 of
                               (approval, w2) \<Rightarrow>
                                 (case (if acl_check_failed checks then None else px_module c) of
                                    None \<Rightarrow>
                                      (\<lparr>pf_valid = list_all pc_passed checks, pf_checks = checks,
                                        pf_requires_approval = approval, pf_predicted_changes = []\<rparr>, w2)
                                  | Some obj \<Rightarrow>
                                      (case introspect host obj inputs ctx w2 of
                                         (added, changes, w3) \<Rightarrow>
                                           (\<lparr>pf_valid = list_all pc_passed (checks @ added), pf_checks = checks @ added,
                                             pf_requires_approval = approval, pf_predicted_changes = changes\<rparr>, w3))))))))"

subsection \<open>Governance\<close>

record governance_state =
  gs_control_modules_registered :: bool
  gs_read_modules_registered :: bool
  gs_acl_configured :: bool
  gs_builtin_acl_gate_wired :: bool
  gs_approval_handler_configured :: bool
  gs_builtin_approval_gate_wired :: bool
  gs_policy_strict :: bool
  gs_all_control_modules_require_approval :: bool
  gs_unprotected_control_surface :: bool

definition gate_wired :: "builtin_gate \<Rightarrow> ('r, 'w, 'm) strategy \<Rightarrow> bool" where
  "gate_wired g y \<longleftrightarrow> list_ex (\<lambda>s. st_builtin_gate s = Some g) (sy_steps y)"

text \<open>Whether every one of the modules declares that it needs approval, by the object or by its descriptor. Reading
  a descriptor may log a deprecation warning, so the registry is threaded through; the search ends at the
  first module that does not.\<close>

definition module_declares_approval :: "(json \<Rightarrow> string) \<Rightarrow> string \<Rightarrow> registry \<Rightarrow> bool \<times> registry" where
  "module_declares_approval render m reg =
     (case declared_annotations render m (case get_module m reg of Inl _ \<Rightarrow> None | Inr obj \<Rightarrow> obj) reg of
        (ann, reg') \<Rightarrow> ((case ann of None \<Rightarrow> False | Some a \<Rightarrow> ma_requires_approval a), reg'))"

fun all_declare_approval :: "(json \<Rightarrow> string) \<Rightarrow> string list \<Rightarrow> registry \<Rightarrow> bool \<times> registry" where
  "all_declare_approval render [] reg = (True, reg)"
| "all_declare_approval render (m # ms) reg =
     (case module_declares_approval render m reg of
        (False, reg') \<Rightarrow> (False, reg')
      | (True, reg') \<Rightarrow> all_declare_approval render ms reg')"

definition governance_state_of :: "'h executor \<Rightarrow> 'h world \<Rightarrow> governance_state \<times> 'h world" where
  "governance_state_of x w =
     (let reg = cl_registry w;
          ids = list_full None None (Some [''public'', ''hidden'']) reg;
          control = filter (prefix ''system.control.'') ids;
          acl_gate = gate_wired AclGate (ex_strategy x);
          approval_gate = gate_wired ApprovalGate (ex_strategy x);
          (all_require, reg') =
            (if control = [] then (False, reg) else all_declare_approval (rs_render (ex_resources x)) control reg);
          acl_set = (cl_acl w \<noteq> None);
          handler_set = (rs_handler (ex_resources x) \<noteq> None);
          is_strict = strict_policy (ex_resources x)
      in (\<lparr>gs_control_modules_registered = (control \<noteq> []),
           gs_read_modules_registered =
             list_ex (\<lambda>i. prefix ''system.health.'' i \<or> prefix ''system.usage.'' i \<or> prefix ''system.manifest.'' i) ids,
           gs_acl_configured = acl_set, gs_builtin_acl_gate_wired = acl_gate,
           gs_approval_handler_configured = handler_set, gs_builtin_approval_gate_wired = approval_gate,
           gs_policy_strict = is_strict, gs_all_control_modules_require_approval = all_require,
           gs_unprotected_control_surface =
             (control \<noteq> [] \<and> \<not> (acl_set \<and> acl_gate) \<and>
              \<not> (approval_gate \<and> all_require \<and> (handler_set \<or> is_strict)))\<rparr>, w\<lparr>cl_registry := reg'\<rparr>))"

end
