(* ===== verification/ExecutorFacts.thy ===== *)
theory ExecutorFacts
  imports Executor
begin

section \<open>What calls through the executor guarantee\<close>

text \<open>
  With the standard strategy: a call that returns a value got past the access list and the approval gate, in the
  run that starts from the context it was made with; the two entry points agree; a preflight of a denied call
  runs nothing of the module; and the executor's account of its own governance is kept by the pipeline.
\<close>

subsection \<open>What the steps leave alone\<close>

definition same_call :: "'h call_pctx \<Rightarrow> 'h call_pctx \<Rightarrow> bool" where
  "same_call c c' \<longleftrightarrow> px_module_id c' = px_module_id c \<and> px_resources c' = px_resources c \<and> px_dry_run c' = px_dry_run c"

lemma same_call_refl [simp]: "same_call c c"
  by (simp add: same_call_def)

lemma same_call_trans: "same_call a b \<Longrightarrow> same_call b c \<Longrightarrow> same_call a c"
  by (simp add: same_call_def)

lemma same_call_bodies:
  "same_call c (fst (snd (context_creation_body c w)))"
  "same_call c (fst (snd (call_chain_guard_body c w)))"
  "same_call c (fst (snd (module_lookup_body toggle c w)))"
  "same_call c (fst (snd (acl_check_body c w)))"
  "same_call c (fst (snd (middleware_before_body c w)))"
  "same_call c (fst (snd (input_validation_body c w)))"
  "same_call c (fst (snd (execute_body c w)))"
  "same_call c (fst (snd (output_validation_body c w)))"
  "same_call c (fst (snd (middleware_after_body c w)))"
  "same_call c (fst (snd (proceed c w)))"
  by (simp_all add: same_call_def context_creation_body_def call_chain_guard_body_def module_lookup_body_def
      acl_check_body_def middleware_before_body_def input_validation_body_def execute_body_def
      output_validation_body_def middleware_after_body_def outcome_defs Let_def
      split: option.split sum.split prod.split)

lemma same_call_gate: "same_call c (fst (snd (approval_gate_body c w)))"
proof -
  have "same_call c (snd (take_approval_token c))"
    by (simp add: same_call_def take_approval_token_def Let_def split: option.split json.split)
  then show ?thesis
    by (cases "take_approval_token c"; cases "fst (take_approval_token c)")
      (simp_all add: approval_gate_body_def gate_call_cases(2) outcome_defs split: prod.split)
qed

lemma same_call_steps: "s \<in> set (standard_steps toggle) \<Longrightarrow> same_call c (fst (snd (st_execute s c w)))"
  by (auto simp: standard_steps_def step_defs builtin_step_def same_call_bodies same_call_gate)

lemma run_bodies_keeps_call:
  "\<forall>s \<in> set ss. \<forall>c w. f (fst (snd (st_execute s c w))) = f c \<Longrightarrow> f (fst (snd (run_bodies ss c w))) = f c"
proof (induction ss arbitrary: c w)
  case (Cons s ss)
  obtain r1 c1 w1 where b: "st_execute s c w = (r1, c1, w1)" by (metis prod.collapse)
  then have "f c1 = f c" using Cons.prems by (metis list.set_intros(1) fst_conv snd_conv)
  moreover have "f (fst (snd (run_bodies ss c1 w1))) = f c1" by (rule Cons.IH) (use Cons.prems in simp)
  ultimately show ?case using b by (cases r1) simp_all
qed simp

lemma same_call_run:
  "\<forall>s \<in> set ss. \<forall>c w. same_call c (fst (snd (st_execute s c w))) \<Longrightarrow> run_bodies ss c w = (r, c', w') \<Longrightarrow> same_call c c'"
proof (induction ss arbitrary: c w)
  case (Cons s ss)
  obtain r1 c1 w1 where b: "st_execute s c w = (r1, c1, w1)" by (metis prod.collapse)
  then have 1: "same_call c c1" using Cons.prems(1) by (metis list.set_intros(1) fst_conv snd_conv)
  show ?case
  proof (cases r1)
    case (Inl e)
    with Cons.prems(2) b 1 show ?thesis by simp
  next
    case (Inr x)
    then have "run_bodies ss c1 w1 = (r, c', w')" using Cons.prems(2) b by simp
    with Cons.IH [of c1 w1] Cons.prems(1) have "same_call c1 c'" by simp
    with 1 show ?thesis by (rule same_call_trans)
  qed
qed simp

lemma engine_same_call:
  fixes c :: "'h call_pctx"
  assumes "build_standard_strategy_with_toggle toggle = Inr y" and "\<not> px_dry_run c"
    and "engine_run y c w = (r, c', w')"
  shows "same_call c c'"
proof -
  obtain r1 c1 w1 where b: "run_bodies (standard_steps toggle) c w = (r1, c1, w1)" by (metis prod.collapse)
  then have "same_call c c1" by (rule same_call_run [rotated]) (simp add: same_call_steps)
  moreover obtain t where "c' = c1\<lparr>px_trace := t\<rparr>"
    using engine_run_bodies [OF assms(1,2) b] assms(3) by auto
  ultimately show ?thesis by (simp add: same_call_def)
qed

lemma executed_kept:
  "px_executed_middlewares (fst (snd (context_creation_body c w))) = px_executed_middlewares c"
  "px_executed_middlewares (fst (snd (call_chain_guard_body c w))) = px_executed_middlewares c"
  "px_executed_middlewares (fst (snd (module_lookup_body toggle c w))) = px_executed_middlewares c"
  "px_executed_middlewares (fst (snd (acl_check_body c w))) = px_executed_middlewares c"
  "px_executed_middlewares (fst (snd (approval_gate_body c w))) = px_executed_middlewares c"
proof -
  have t: "px_executed_middlewares (snd (take_approval_token c)) = px_executed_middlewares c"
    by (simp add: take_approval_token_def Let_def split: option.split json.split)
  then show "px_executed_middlewares (fst (snd (approval_gate_body c w))) = px_executed_middlewares c"
    by (cases "take_approval_token c"; cases "fst (take_approval_token c)")
      (simp_all add: approval_gate_body_def gate_call_cases(2) outcome_defs split: prod.split)
qed (simp_all add: context_creation_body_def call_chain_guard_body_def module_lookup_body_def acl_check_body_def
  outcome_defs Let_def split: option.split sum.split prod.split)

subsection \<open>The loop\<close>

definition run_of_call :: "'h executor \<Rightarrow> string \<Rightarrow> 'h call_pctx \<Rightarrow> bool" where
  "run_of_call x m c \<longleftrightarrow> px_module_id c = m \<and> px_resources c = injected_resources x \<and> \<not> px_dry_run c"

lemma run_of_call_retry: "run_of_call x m c \<Longrightarrow> same_call c c' \<Longrightarrow> run_of_call x m (reset_for_retry inputs c')"
  by (simp add: run_of_call_def same_call_def reset_for_retry_def)

text \<open>A run of the pipeline fails with the error that the hooks are told; the runs that the retries add to the
  first one; and a value that the hooks gave after a run had failed.\<close>

definition run_failed ::
  "'h executor \<Rightarrow> string \<Rightarrow> 'h call_pctx \<Rightarrow> 'h world \<Rightarrow> module_error \<Rightarrow> 'h call_pctx \<Rightarrow> 'h world \<Rightarrow> bool" where
  "run_failed x m c w u c1 w1 \<longleftrightarrow>
     (\<exists>e. engine_run (ex_strategy x) c w = (Inl e, c1, w1) \<and>
        u = propagate_module_error (underlying_error e) m (px_context c1)) \<and> err_code u \<noteq> ExecutionCancelled"

inductive attempts ::
  "'h executor \<Rightarrow> string \<Rightarrow> 'h call_pctx \<Rightarrow> 'h world \<Rightarrow> 'h call_pctx \<Rightarrow> 'h world \<Rightarrow> bool" for x m where
  first_attempt: "attempts x m c w c w"
| next_attempt: "run_failed x m c w u c1 w1 \<Longrightarrow> ask_error_hooks x m c1 u w1 = (Some (Retry inputs), w2) \<Longrightarrow>
    attempts x m (reset_for_retry inputs c1) w2 c' w' \<Longrightarrow> attempts x m c w c' w'"

definition recovered_run :: "'h executor \<Rightarrow> string \<Rightarrow> 'h call_pctx \<Rightarrow> 'h world \<Rightarrow> json \<Rightarrow> 'h world \<Rightarrow> bool" where
  "recovered_run x m c w v w' \<longleftrightarrow>
     (\<exists>u c1 w1. run_failed x m c w u c1 w1 \<and> ask_error_hooks x m c1 u w1 = (Some (Recovery v), w'))"

text \<open>Hooks are only asked when the run got as far as the middlewares, which is behind the gates.\<close>

lemma hooked_run_admitted:
  fixes c :: "'h call_pctx"
  assumes "build_standard_strategy_with_toggle toggle = Inr (ex_strategy x)" and "\<not> px_dry_run c"
    and "px_executed_middlewares c = []" and "engine_run (ex_strategy x) c w = (Inl e, c1, w1)"
    and "fst (ask_error_hooks x m c1 u w1) \<noteq> None"
  shows "\<exists>c2 w2. admitted toggle c w c2 w2"
proof -
  obtain r5 c5 w5 where 5: "run_bodies (take 5 (standard_steps toggle)) c w = (r5, c5, w5)" by (metis prod.collapse)
  have k: "px_executed_middlewares (fst (snd (st_execute s c w))) = px_executed_middlewares c"
    if "s \<in> set (take 5 (standard_steps toggle))" for s :: "'h call_step" and c w
    using that by (auto simp: standard_steps_def step_defs builtin_step_def executed_kept)
  then have "px_executed_middlewares c5 = []"
    using run_bodies_keeps_call [of "take 5 (standard_steps toggle)" px_executed_middlewares c w] 5 assms(3) by simp
  moreover have "px_executed_middlewares c1 \<noteq> []" using assms(5) by (auto simp: ask_error_hooks_def)
  moreover have "\<exists>t. c1 = c5\<lparr>px_trace := t\<rparr>" if "r5 = Some x" for x
  proof -
    have "run_bodies (standard_steps toggle) c w = (Some x, c5, w5)"
      using run_bodies_append [of "take 5 (standard_steps toggle)" "drop 5 (standard_steps toggle)" c w] 5 that by simp
    from engine_run_bodies [OF assms(1,2) this] assms(4) show ?thesis by auto
  qed
  ultimately have "r5 = None" by (cases r5) auto
  with admitted_run 5 show ?thesis by blast
qed

lemmas call_loop_induct =
  call_loop.raw_induct [of _ "(((x, m), c), w)" r for x m c w r, unfolded prod.case, rotated, consumes 1, case_names step]

lemma call_loop_values:
  assumes "call_loop x m c w = Some r" and "build_standard_strategy_with_toggle toggle = Inr (ex_strategy x)"
    and "run_of_call x m c" and "px_executed_middlewares c = []" and "r = (Inr v, w')"
  shows "(\<exists>c1 w1. admitted toggle c w c1 w1) \<and>
    (\<exists>c2 w2. attempts x m c w c2 w2 \<and>
      ((\<exists>out. governed_run toggle c2 w2 out w' \<and> v = or_null out) \<or>
       (\<exists>c3 w3. admitted toggle c2 w2 c3 w3 \<and> recovered_run x m c2 w2 v w')))"
  using assms
proof (induction rule: call_loop_induct)
  case (step loop x m c w r)
  obtain er c1 w1 where run: "engine_run (ex_strategy x) c w = (er, c1, w1)" by (metis prod.collapse)
  have real: "\<not> px_dry_run c" using step(4) by (simp add: run_of_call_def)
  note same = engine_same_call [OF step(3) real run]
  show ?case
  proof (cases er)
    case (Inr p)
    then obtain out t where p: "er = Inr (out, t)" by (cases p) auto
    from completed_runs_were_governed [OF step(3) real run [unfolded p]]
    have g: "governed_run toggle c w out w1" "pt_success t" by simp_all
    have "r = (Inr (or_null out), w1)" using step(2) run p g(2) by (simp add: reject_aborted_trace_def)
    with step(6) g(1) have "governed_run toggle c w out w'" "v = or_null out" by simp_all
    then show ?thesis using first_attempt [of x m c w] unfolding governed_run_def by blast
  next
    case (Inl e)
    define u where "u = propagate_module_error (underlying_error e) m (px_context c1)"
    obtain oc w2 where o: "ask_error_hooks x m c1 u w1 = (oc, w2)" by (metis prod.collapse)
    have nc: "err_code u \<noteq> ExecutionCancelled"
    proof
      assume "err_code u = ExecutionCancelled"
      then have "r = (Inl u, w1)" using step(2) run Inl unfolding u_def by (simp add: Let_def)
      with step(6) show False by simp
    qed
    have failed: "run_failed x m c w u c1 w1" using run Inl nc unfolding run_failed_def u_def by simp
    have cont: "(case oc of None \<Rightarrow> Some (Inl u, w2)
        | Some oc \<Rightarrow> (case oc of Recovery v \<Rightarrow> Some (Inr v, w2)
            | Retry inputs \<Rightarrow> loop x m (reset_for_retry inputs c1) w2)) = Some r"
      using step(2) run Inl o nc unfolding u_def by (simp add: Let_def)
    show ?thesis
    proof (cases oc)
      case None
      with cont step(6) show ?thesis by simp
    next
      case (Some oc')
      with o have "fst (ask_error_hooks x m c1 u w1) \<noteq> None" by simp
      from hooked_run_admitted [OF step(3) real step(5) run [unfolded Inl] this]
      obtain ca wa where adm: "admitted toggle c w ca wa" by blast
      show ?thesis
      proof (cases oc')
        case (Recovery v')
        with cont Some step(6) have "v' = v" "w2 = w'" by simp_all
        with o Some Recovery failed have "recovered_run x m c w v w'" unfolding recovered_run_def by blast
        with adm first_attempt [of x m c w] show ?thesis by blast
      next
        case (Retry inputs)
        with cont Some have l: "loop x m (reset_for_retry inputs c1) w2 = Some r" by simp
        have "run_of_call x m (reset_for_retry inputs c1)" by (rule run_of_call_retry [OF step(4) same])
        moreover have "px_executed_middlewares (reset_for_retry inputs c1) = []" by (simp add: reset_for_retry_def)
        ultimately have "\<exists>c2 w3. attempts x m (reset_for_retry inputs c1) w2 c2 w3 \<and>
            ((\<exists>out. governed_run toggle c2 w3 out w' \<and> v = or_null out) \<or>
             (\<exists>c3 w4. admitted toggle c2 w3 c3 w4 \<and> recovered_run x m c2 w3 v w'))"
          using step(1) [OF l step(3) _ _ step(6)] by blast
        then obtain c2 w3 where n: "attempts x m (reset_for_retry inputs c1) w2 c2 w3"
          and f: "(\<exists>out. governed_run toggle c2 w3 out w' \<and> v = or_null out) \<or>
             (\<exists>c3 w4. admitted toggle c2 w3 c3 w4 \<and> recovered_run x m c2 w3 v w')" by blast
        from next_attempt [OF failed o [unfolded Some Retry] n] f adm show ?thesis by blast
      qed
    qed
  qed
qed

text \<open>C1: a call that returns a value was governed. With the standard strategy, whatever the number of retries, the
  run that starts from the context of the call got past the access list, if there is one, with the caller that
  this context gives, and past the approval gate; and the value is either the output of the first run or of a
  later one that the hooks asked for, governed in the same way, after which nothing else happened, or the
  recovery that an error hook gave after such a run had failed behind the gates for an error other than a
  cancellation. So neither a refused nor a cancelled call is turned into a success.\<close>

theorem returned_values_were_governed:
  fixes x :: "'h executor"
  assumes "build_standard_strategy_with_toggle toggle = Inr (ex_strategy x)"
    and "executor_call x fresh m inputs ctx hint w = Some (Inr v, w')"
  shows "\<exists>cx w0 c c1 w1 c2 w2. call_context_or_anonymous fresh ctx w = (cx, w0) \<and>
    prepare_call x (ex_strategy x) m inputs cx hint = Inr c \<and> admitted toggle c w0 c1 w1 \<and> attempts x m c w0 c2 w2 \<and>
    ((\<exists>out. governed_run toggle c2 w2 out w' \<and> v = or_null out) \<or>
     (\<exists>c3 w3. admitted toggle c2 w2 c3 w3 \<and> recovered_run x m c2 w2 v w'))"
proof -
  obtain cx w0 where cx: "call_context_or_anonymous fresh ctx w = (cx, w0)" by (metis prod.collapse)
  obtain c where p: "prepare_call x (ex_strategy x) m inputs cx hint = Inr c" and l: "call_loop x m c w0 = Some (Inr v, w')"
    using assms(2) cx by (auto simp: executor_call_def split: option.splits sum.splits)
  have "run_of_call x m c" "px_executed_middlewares c = []"
    using p by (auto simp: prepare_call_def run_of_call_def pctx_new_def split: sum.splits)
  from call_loop_values [OF l assms(1) this refl] cx p show ?thesis by blast
qed

subsection \<open>The two entry points\<close>

definition never_retries :: "'w middleware \<Rightarrow> bool" where
  "never_retries mw \<longleftrightarrow>
     (\<forall>m v e ctx w. case fst (mw_on_error_outcome mw m v e ctx w) of Inr (Some (Retry _)) \<Rightarrow> False | _ \<Rightarrow> True)"

lemma error_loop_no_retry:
  "\<forall>mw \<in> set mws. never_retries mw \<Longrightarrow> fst (error_loop mws m v e ctx js w) \<noteq> Some (Retry inputs)"
proof (induction mws m v e ctx js w rule: error_loop.induct)
  case (2 mws m v e ctx j js w)
  show ?case
  proof (cases "j < length mws")
    case True
    then have "never_retries (mws ! j)" using 2 by simp
    then have n: "case fst (mw_on_error_outcome (mws ! j) m v e ctx w) of Inr (Some (Retry _)) \<Rightarrow> False | _ \<Rightarrow> True"
      unfolding never_retries_def by blast
    obtain r w1 where o: "mw_on_error_outcome (mws ! j) m v e ctx w = (r, w1)" by (metis prod.collapse)
    show ?thesis
    proof (cases r)
      case (Inl e1)
      with 2 True o show ?thesis by simp
    next
      case (Inr oc)
      with 2 True o n show ?thesis by (cases oc) (auto split: on_error_outcome.splits)
    qed
  qed (use 2 in simp)
qed simp

lemma hooks_no_retry:
  assumes "\<And>w mw. mw \<in> set (mm_middlewares (ex_manager x w)) \<Longrightarrow> never_retries mw"
  shows "fst (ask_error_hooks x m c e w) \<noteq> Some (Retry inputs)"
proof -
  have "\<forall>mw \<in> set (mm_middlewares (ex_manager x w)). never_retries mw" using assms by blast
  from error_loop_no_retry [OF this] show ?thesis by (simp add: ask_error_hooks_def execute_on_error_outcome_def)
qed

text \<open>C5: \<open>call\<close> and \<open>call_with_trace\<close> agree. For a well-formed module id, and when no middleware of the manager ever
  asks for a retry, \<open>call\<close> returns, and it returns the same value or error as \<open>call_with_trace\<close> without a
  strategy of its own, and leaves the same state behind.\<close>

theorem entry_points_agree:
  assumes "validate_call_id m = None"
    and "\<And>w mw. mw \<in> set (mm_middlewares (ex_manager x w)) \<Longrightarrow> never_retries mw"
  shows "executor_call x fresh m inputs ctx hint w =
    (case call_with_trace x fresh m inputs ctx hint None w of (r, w') \<Rightarrow> Some (map_sum (\<lambda>e. e) fst r, w'))"
proof -
  obtain cx w0 where cx: "call_context_or_anonymous fresh ctx w = (cx, w0)" by (metis prod.collapse)
  show ?thesis
  proof (cases "prepare_call x (ex_strategy x) m inputs cx hint")
    case (Inl e)
    with assms(1) cx show ?thesis by (simp add: executor_call_def call_with_trace_def)
  next
    case (Inr c)
    obtain er c1 w1 where run: "engine_run (ex_strategy x) c w0 = (er, c1, w1)" by (metis prod.collapse)
    show ?thesis
    proof (cases er)
      case (Inr q)
      obtain out t where q: "q = (out, t)" by (cases q)
      from assms(1) cx \<open>prepare_call _ _ _ _ _ _ = Inr c\<close> run Inr q show ?thesis
        by (simp add: executor_call_def call_with_trace_def call_loop.simps split: option.split)
    next
      case (Inl e)
      define u where "u = propagate_module_error (underlying_error e) m (px_context c1)"
      obtain oc w2 where o: "ask_error_hooks x m c1 u w1 = (oc, w2)" by (metis prod.collapse)
      have "oc \<noteq> Some (Retry i)" for i using hooks_no_retry [of x m c1 u w1 i] assms(2) o by auto
      then show ?thesis using assms(1) cx \<open>prepare_call _ _ _ _ _ _ = Inr c\<close> run Inl o
        by (simp add: executor_call_def call_with_trace_def call_loop.simps u_def [symmetric] Let_def
            split: option.split on_error_outcome.split)
    qed
  qed
qed

subsection \<open>Preflight of a denied call\<close>

text \<open>Where a dry run stands: as after the plain bodies, up to the trace.\<close>

definition stands_at :: "('h world resources, 'h world) engine \<Rightarrow> 'h call_pctx \<Rightarrow> 'h world \<Rightarrow> bool" where
  "stands_at en c w \<longleftrightarrow> (\<exists>t. en_ctx en = c\<lparr>px_trace := t\<rparr>) \<and> en_world en = w \<and> en_failed en = {}"

lemma stands_at_start: "stands_at (engine_start c w) c w"
  unfolding stands_at_def engine_start_def by (simp, rule exI [of _ "px_trace c"], simp)

lemma stands_at_body:
  assumes "stands_at en c w" and "plain_step_ok s" and "st_execute s c w = (r, c', w')"
  shows "\<exists>t. st_execute s (en_ctx en) (en_world en) = (r, c'\<lparr>px_trace := t\<rparr>, w')"
proof -
  obtain t where t: "en_ctx en = c\<lparr>px_trace := t\<rparr>" "en_world en = w" using assms(1) by (auto simp: stands_at_def)
  have "st_execute s (c\<lparr>px_trace := t\<rparr>) w = (r, c'\<lparr>px_trace := t\<rparr>, w')"
    using assms(2,3) by (simp add: plain_step_ok_def plain_body_def)
  with t show ?thesis by auto
qed

lemma dry_run_step:
  assumes "sy_steps y ! i = s" and "sy_middlewares y = []" and "plain_step_ok s" and "st_pure s"
    and "px_dry_run (en_ctx en)" and "\<not> missing_dependency s en"
  shows "run_step y run_options_default i en =
    (case st_execute s (en_ctx en) (en_world en) of
       (Inl e, c, w) \<Rightarrow>
         (Goto (i + 1), push_traces [aborted (st_name s) e] (add_preflight_error (st_name s) e
            (mark_failed s (en\<lparr>en_ctx := c, en_world := w\<rparr>))))
     | (Inr _, c, w) \<Rightarrow>
         (Goto (i + 1), snapshot_output (st_name s)
            (push_traces [ran (st_name s) continue_step None] (en\<lparr>en_ctx := c, en_world := w\<rparr>))))"
proof -
  obtain r c w where b: "st_execute s (en_ctx en) (en_world en) = (r, c, w)" by (metis prod.collapse)
  have p: "plain_body (st_execute s)" using assms(3) by (simp add: plain_step_ok_def)
  then have dry: "px_dry_run c" using b assms(5) unfolding plain_body_def by (metis fst_conv snd_conv)
  have run: "run_step y run_options_default i en = run_body y run_options_default i s en"
    using assms by (simp add: plain_step_ok_def run_step_def not_selected_def filtered_out_def
        run_options_default_def Let_def)
  have x: "execute_step s en = (r, en\<lparr>en_ctx := c, en_world := w\<rparr>)"
    using assms(3) b by (simp add: plain_step_ok_def execute_step_def)
  show ?thesis
  proof (cases r)
    case (Inl e)
    with run x assms(2) b dry show ?thesis by (simp add: run_body_def step_failed_def mark_failed_def Let_def)
  next
    case (Inr q)
    with p b have "r = Inr continue_step" unfolding plain_body_def by (metis fst_conv)
    with run x b assms(2) show ?thesis
      by (simp add: run_body_def step_succeeded_def run_after_step_hooks_def follow_continue Let_def)
  qed
qed

lemma dry_run_goes_on:
  fixes c :: "'h call_pctx"
  assumes "sy_steps y ! i = s" and "sy_middlewares y = []" and "plain_step_ok s" and "st_pure s"
    and "px_dry_run c" and "stands_at en c w" and "st_execute s c w = (Inr z, c', w')"
    and "''module'' \<in> set (st_requires s) \<longrightarrow> px_module c \<noteq> None"
  shows "\<exists>en'. run_step y run_options_default i en = (Goto (i + 1), en') \<and> stands_at en' c' w'"
proof -
  obtain t where t: "en_ctx en = c\<lparr>px_trace := t\<rparr>" "en_failed en = {}" using assms(6) by (auto simp: stands_at_def)
  have m: "\<not> missing_dependency s en" using assms(8) t by (auto simp: missing_dependency_def list_ex_iff)
  obtain t' where b: "st_execute s (en_ctx en) (en_world en) = (Inr z, c'\<lparr>px_trace := t'\<rparr>, w')"
    using stands_at_body [OF assms(6,3,7)] by blast
  have d: "px_dry_run (en_ctx en)" using assms(5) t by simp
  show ?thesis unfolding dry_run_step [OF assms(1-4) d m] b
    using t(2) by (simp add: stands_at_def snapshot_output_def push_traces_def) (rule exI, rule refl)
qed


text \<open>What the later steps of a dry run keep: the reported failures, the host's state and the kind of run.\<close>

definition reported_in :: "string \<times> module_error \<Rightarrow> 'h \<Rightarrow> ('h world resources, 'h world) engine \<Rightarrow> bool" where
  "reported_in f h en \<longleftrightarrow>
     f \<in> set (px_preflight_errors (en_ctx en)) \<and> run_world.more (en_world en) = h \<and> px_dry_run (en_ctx en)"

definition quiet_body :: "'h body \<Rightarrow> bool" where
  "quiet_body b \<longleftrightarrow>
     (\<forall>c w. px_preflight_errors (fst (snd (b c w))) = px_preflight_errors c \<and>
        run_world.more (snd (snd (b c w))) = run_world.more w \<and> px_dry_run (fst (snd (b c w))) = px_dry_run c)"

lemma quiet_bodies:
  "quiet_body context_creation_body" "quiet_body call_chain_guard_body" "quiet_body (module_lookup_body toggle)"
  "quiet_body acl_check_body" "quiet_body input_validation_body" "quiet_body output_validation_body" "quiet_body proceed"
  by (simp_all add: quiet_body_def context_creation_body_def call_chain_guard_body_def module_lookup_body_def
      acl_check_body_def input_validation_body_def output_validation_body_def derive_token_def emit_event_def
      outcome_defs Let_def split: option.split sum.split prod.split)

lemma standard_steps_quiet: "s \<in> set (standard_steps toggle) \<Longrightarrow> st_pure s \<Longrightarrow> quiet_body (st_execute s)"
  by (auto simp: standard_steps_def step_defs builtin_step_def quiet_bodies)

lemma reported_dry_step:
  fixes y :: "'h call_pipeline"
  assumes y: "sy_steps y = standard_steps toggle" "sy_middlewares y = []" and i: "i < length (sy_steps y)"
    and r: "reported_in f h en"
  shows "\<exists>en'. run_step y run_options_default i en = (Goto (i + 1), en') \<and> reported_in f h en'"
proof -
  let ?s = "sy_steps y ! i"
  have s: "?s \<in> set (standard_steps toggle)" "sy_steps y ! i = ?s" using nth_mem [OF i] unfolding y(1) by simp_all
  then have plain: "plain_step_ok ?s"
    using standard_steps_plain [where 'a = 'h, of toggle] unfolding list_all_iff by blast
  have dry: "px_dry_run (en_ctx en)" using r by (simp add: reported_in_def)
  show ?thesis
  proof (cases "missing_dependency ?s en")
    case True
    with s(2) r show ?thesis
      by (auto simp: run_step_def run_options_default_def not_selected_def reported_in_def push_traces_def mark_failed_def
          Let_def)
  next
    case False
    show ?thesis
    proof (cases "st_pure ?s")
      case False
      with \<open>\<not> missing_dependency ?s en\<close> s(2) r dry plain show ?thesis
        by (auto simp: run_step_def run_options_default_def not_selected_def filtered_out_def plain_step_ok_def
            reported_in_def push_traces_def Let_def)
    next
      case True
      obtain q c w where b: "st_execute ?s (en_ctx en) (en_world en) = (q, c, w)" by (metis prod.collapse)
      have "quiet_body (st_execute ?s)" using standard_steps_quiet [OF s(1) True] .
      then have "px_preflight_errors c = px_preflight_errors (en_ctx en)" "run_world.more w = run_world.more (en_world en)"
        "px_dry_run c = px_dry_run (en_ctx en)"
        using b unfolding quiet_body_def by (metis fst_conv snd_conv)+
      with dry_run_step [OF s(2) y(2) plain True dry False] b r show ?thesis
        by (cases q) (auto simp: reported_in_def push_traces_def snapshot_output_def add_preflight_error_def mark_failed_def)
    qed
  qed
qed

lemma reported_run:
  fixes y :: "'h call_pipeline"
  assumes "sy_steps y = standard_steps toggle" "sy_middlewares y = []" and "reported_in f h en"
  shows "\<exists>en'. run_from y run_options_default i en = (None, en') \<and> reported_in f h en'"
  using assms(3)
proof (induction "length (sy_steps y) - i" arbitrary: i en)
  case 0
  then have "\<not> i < length (sy_steps y)" by simp
  then have "run_from y run_options_default i en = (None, set_success True en)" by (subst run_from.simps) simp
  with 0 show ?case by (auto simp: reported_in_def set_success_def)
next
  case (Suc k)
  then have i: "i < length (sy_steps y)" by simp
  obtain en1 where s: "run_step y run_options_default i en = (Goto (i + 1), en1)" and r: "reported_in f h en1"
    using reported_dry_step [OF assms(1,2) i Suc.prems] by blast
  have "run_from y run_options_default i en = run_from y run_options_default (i + 1) en1"
    using i s by (subst run_from.simps) simp
  moreover have "k = length (sy_steps y) - (i + 1)" using Suc.hyps(2) by simp
  ultimately show ?case using Suc.hyps(1) [OF _ r] by simp
qed

lemma lookup_sets_module:
  "fst (module_lookup_body toggle c w) = Inr x \<Longrightarrow> px_module (fst (snd (module_lookup_body toggle c w))) \<noteq> None"
  by (auto simp: module_lookup_body_def outcome_defs Let_def split: option.splits sum.splits if_splits)


lemma run_bodies_ConsD:
  assumes "run_bodies (s # ss) c w = (None, c', w')"
  obtains z c1 w1 where "st_execute s c w = (Inr z, c1, w1)" "run_bodies ss c1 w1 = (None, c', w')"
  using assms by (auto split: sum.splits prod.splits)

lemma run_from_goes:
  "i < length (sy_steps y) \<Longrightarrow> run_step y opts i en = (Goto j, en') \<Longrightarrow> run_from y opts i en = run_from y opts j en'"
  by (subst run_from.simps) simp

lemma standard_nth:
  "standard_steps toggle ! 0 = context_creation_step" "standard_steps toggle ! 1 = call_chain_guard_step"
  "standard_steps toggle ! 2 = module_lookup_step toggle" "standard_steps toggle ! 3 = acl_check_step"
  "length (standard_steps toggle) = 11"
  by (simp_all add: standard_steps_def)

lemma plain_first_steps:
  "plain_step_ok (context_creation_step :: 'h call_step)" "plain_step_ok (call_chain_guard_step :: 'h call_step)"
  "plain_step_ok (module_lookup_step toggle :: 'h call_step)" "plain_step_ok (acl_check_step :: 'h call_step)"
  using standard_steps_plain [where 'a = 'h, of toggle] by (simp_all add: standard_steps_def)

lemma acl_step_name: "st_name acl_check_step = ''acl_check''"
  by (simp add: acl_check_step_def builtin_step_def)

lemma first_steps_pure:
  "st_pure context_creation_step" "st_pure call_chain_guard_step" "st_pure (module_lookup_step toggle)" "st_pure acl_check_step"
  "''module'' \<notin> set (st_requires context_creation_step)" "''module'' \<notin> set (st_requires call_chain_guard_step)"
  "''module'' \<notin> set (st_requires (module_lookup_step toggle))"
  by (simp_all add: step_defs builtin_step_def)

text \<open>A dry run whose caller the access list denies reports the denial and leaves the host's state alone.\<close>

lemma denied_dry_run:
  fixes c :: "'h call_pctx"
  assumes "build_standard_strategy_with_toggle toggle = Inr y" and "px_dry_run c"
    and "run_bodies (take 3 (standard_steps toggle)) c w = (None, c1, w1)" and "\<not> access_granted c1 w1"
  shows "\<exists>c' w' t. engine_run y c w = (Inr (px_output c', t), c', w') \<and> run_world.more w' = run_world.more w \<and>
    (''acl_check'', acl_denied (ctx_caller_id (px_context c1)) (px_module_id c1)) \<in> set (px_preflight_errors c')"
proof -
  let ?e = "acl_denied (ctx_caller_id (px_context c1)) (px_module_id c1)"
  note y = standard_strategy_steps(1,2) [OF assms(1)]
  obtain z1 ca wa where a: "st_execute context_creation_step c w = (Inr z1, ca, wa)"
    and a2: "run_bodies [call_chain_guard_step, module_lookup_step toggle] ca wa = (None, c1, w1)"
    using assms(3) unfolding standard_split(1) by (rule run_bodies_ConsD)
  obtain z2 cb wb where b: "st_execute call_chain_guard_step ca wa = (Inr z2, cb, wb)"
    and b2: "run_bodies [module_lookup_step toggle] cb wb = (None, c1, w1)"
    using a2 by (rule run_bodies_ConsD)
  obtain z3 where l: "st_execute (module_lookup_step toggle) cb wb = (Inr z3, c1, w1)"
    using b2 by (rule run_bodies_ConsD) simp
  have dry: "px_dry_run ca" "px_dry_run cb" "px_dry_run c1"
    using assms(2) same_call_steps [of context_creation_step toggle c w] same_call_steps [of call_chain_guard_step toggle ca wa]
      same_call_steps [of "module_lookup_step toggle" toggle cb wb] a b l
    by (simp_all add: same_call_def standard_steps_def)
  have mod: "px_module c1 \<noteq> None"
    using lookup_sets_module [of toggle cb wb] l by (simp add: module_lookup_step_def builtin_step_def)
  have n: "sy_steps y ! 0 = context_creation_step" "sy_steps y ! 1 = call_chain_guard_step"
    "sy_steps y ! 2 = module_lookup_step toggle" "sy_steps y ! 3 = acl_check_step"
    unfolding y(1) by (rule standard_nth)+
  obtain en1 where s1: "run_step y run_options_default 0 (engine_start c w) = (Goto (0 + 1), en1)" "stands_at en1 ca wa"
    using dry_run_goes_on [OF n(1) y(2) plain_first_steps(1) first_steps_pure(1) assms(2) stands_at_start a] first_steps_pure(5)
    by blast
  obtain en2 where s2: "run_step y run_options_default 1 en1 = (Goto (1 + 1), en2)" "stands_at en2 cb wb"
    using dry_run_goes_on [OF n(2) y(2) plain_first_steps(2) first_steps_pure(2) dry(1) s1(2) b] first_steps_pure(6) by blast
  obtain en3 where s3: "run_step y run_options_default 2 en2 = (Goto (2 + 1), en3)" "stands_at en3 c1 w1"
    using dry_run_goes_on [OF n(3) y(2) plain_first_steps(3) first_steps_pure(3) dry(2) s2(2) l] first_steps_pure(7) by blast
  obtain c2 w2 where d: "st_execute acl_check_step c1 w1 = (Inl ?e, c2, w2)" and h: "run_world.more w2 = run_world.more w1"
    using acl_check_denies [OF assms(4)] unfolding acl_check_step_def builtin_step_def by (metis prod.collapse step.select_convs(12))
  obtain t where t: "st_execute acl_check_step (en_ctx en3) (en_world en3) = (Inl ?e, c2\<lparr>px_trace := t\<rparr>, w2)"
    using stands_at_body [OF s3(2) plain_first_steps(4) d] by blast
  have d3: "px_dry_run (en_ctx en3)" "\<not> missing_dependency acl_check_step en3"
    using s3(2) dry(3) mod by (auto simp: stands_at_def missing_dependency_def list_ex_iff)
  define en4 where "en4 = push_traces [aborted ''acl_check'' ?e] (add_preflight_error ''acl_check'' ?e
    (mark_failed acl_check_step (en3\<lparr>en_ctx := c2\<lparr>px_trace := t\<rparr>, en_world := w2\<rparr>)))"
  have s4: "run_step y run_options_default 3 en3 = (Goto (3 + 1), en4)"
    unfolding dry_run_step [OF n(4) y(2) plain_first_steps(4) first_steps_pure(4) d3] t en4_def by (simp add: acl_step_name)
  have "px_dry_run c2" using same_call_steps [of acl_check_step toggle c1 w1] d dry(3)
    by (simp add: same_call_def standard_steps_def)
  then have r4: "reported_in (''acl_check'', ?e) (run_world.more w2) en4"
    by (simp add: reported_in_def en4_def push_traces_def add_preflight_error_def mark_failed_def acl_check_step_def
        builtin_step_def)
  obtain en5 where r5: "run_from y run_options_default 4 en4 = (None, en5)" "reported_in (''acl_check'', ?e) (run_world.more w2) en5"
    using reported_run [OF y r4] by blast
  have len: "length (sy_steps y) = 11" unfolding y(1) by (rule standard_nth)
  have "run_from y run_options_default 0 (engine_start c w) = (None, en5)"
    using run_from_goes [OF _ s1(1)] run_from_goes [OF _ s2(1)] run_from_goes [OF _ s3(1)] run_from_goes [OF _ s4] r5(1) len
    by (simp add: numeral_2_eq_2 numeral_3_eq_3 eval_nat_numeral)
  moreover have "run_world.more w2 = run_world.more w" using h lookup_leaves_host [OF assms(3)] by simp
  ultimately show ?thesis using r5(2)
    by (auto simp: engine_run_def run_with_options_def reported_in_def)
qed


lemma preflight_checks_report_denial:
  assumes "(''acl_check'', e) \<in> set (px_preflight_errors c)"
  shows "acl_check_failed (preflight_checks (Inr p) c)"
proof -
  let ?entry = "\<lambda>(n, e). check_entry (preflight_check_name n) False (Some (error_to_json e)) []"
  have "px_preflight_errors c \<noteq> []" using assms by auto
  then have "?entry ` set (px_preflight_errors c) \<subseteq> set (preflight_checks (Inr p) c)"
    by (cases p) (auto simp: preflight_checks_def Let_def)
  moreover have "check_entry ''acl'' False (Some (error_to_json e)) [] \<in> ?entry ` set (px_preflight_errors c)"
    using assms by (rule rev_image_eqI) (simp add: preflight_check_name_def)
  ultimately have "check_entry ''acl'' False (Some (error_to_json e)) [] \<in> set (preflight_checks (Inr p) c)" by blast
  then show ?thesis unfolding acl_check_failed_def list_ex_iff by (rule bexI [rotated]) (simp add: check_entry_def)
qed

lemma acl_check_failed_invalid: "acl_check_failed checks \<Longrightarrow> \<not> list_all pc_passed checks"
  by (auto simp: acl_check_failed_def list_ex_iff list_all_iff)

text \<open>C3: a preflight of a denied call runs nothing of the module. With the standard strategy, when the first three
  steps of the dry run resolve the module and the access list then denies the caller, \<open>validate\<close> reports that the
  call is not valid, with a failed \<open>acl\<close> check, predicts no changes, gives the same result whatever the module's
  \<open>preflight\<close> and \<open>preview\<close> would do, and leaves the host's state as it was.\<close>

theorem denied_preflight_runs_nothing:
  fixes x :: "'h executor"
  assumes "build_standard_strategy_with_toggle toggle = Inr (ex_strategy x)"
    and "validate_call_id m = None" and "call_context_or_anonymous fresh ctx w = (cx, w0)"
    and "prepare_call x (ex_strategy x) m inputs cx None = Inr c0"
    and "run_bodies (take 3 (standard_steps toggle)) (c0\<lparr>px_dry_run := True\<rparr>) w0 = (None, c1, w1)"
    and "\<not> access_granted c1 w1"
  shows "\<exists>res w'. (\<forall>host. validate_call host x fresh m inputs ctx w = (res, w')) \<and>
    \<not> pf_valid res \<and> acl_check_failed (pf_checks res) \<and> pf_predicted_changes res = [] \<and>
    run_world.more w' = run_world.more w"
proof -
  have "px_dry_run (c0\<lparr>px_dry_run := True\<rparr>)" by simp
  from denied_dry_run [OF assms(1) this assms(5,6)] obtain c' w2 t where
    run: "engine_run (ex_strategy x) (c0\<lparr>px_dry_run := True\<rparr>) w0 = (Inr (px_output c', t), c', w2)"
    and h: "run_world.more w2 = run_world.more w0"
    and e: "(''acl_check'', acl_denied (ctx_caller_id (px_context c1)) (px_module_id c1)) \<in> set (px_preflight_errors c')"
    by blast
  let ?checks = "preflight_checks (Inr (px_output c', t)) c'"
  have f: "acl_check_failed ?checks" using e by (rule preflight_checks_report_denial)
  obtain approval w3 where v: "requires_approval_verdict x m inputs c' w2 = (approval, w3)" by (metis prod.collapse)
  then have "run_world.more w3 = run_world.more w2" by (auto simp: requires_approval_verdict_def split: prod.splits)
  moreover have "run_world.more w0 = run_world.more w"
    using assms(3) by (auto simp: call_context_or_anonymous_def anonymous_context_def split: option.splits prod.splits)
  moreover have "validate_call host x fresh m inputs ctx w =
      (\<lparr>pf_valid = False, pf_checks = ?checks, pf_requires_approval = approval, pf_predicted_changes = []\<rparr>, w3)" for host
    using assms(2-4) run v f acl_check_failed_invalid [OF f] by (simp add: validate_call_def Let_def)
  ultimately show ?thesis using f h
    by (intro exI [of _ "\<lparr>pf_valid = False, pf_checks = ?checks, pf_requires_approval = approval, pf_predicted_changes = []\<rparr>"]
        exI [of _ w3]) simp
qed

subsection \<open>The executor's account of its governance\<close>

lemma warn_if_deprecated_maps [simp]:
  "rg_modules (warn_if_deprecated render n d r) = rg_modules r"
  "rg_descriptors (warn_if_deprecated render n d r) = rg_descriptors r"
  by (simp_all add: warn_if_deprecated_def log_events_def Let_def split: option.split)

lemma declared_annotations_maps:
  assumes "rg_modules r' = rg_modules r" and "rg_descriptors r' = rg_descriptors r"
  shows "fst (declared_annotations render m obj r') = fst (declared_annotations render m obj r)"
    and "rg_modules (snd (declared_annotations render m obj r)) = rg_modules r"
    and "rg_descriptors (snd (declared_annotations render m obj r)) = rg_descriptors r"
  using assms
  by (simp_all add: declared_annotations_def get_definition_def get_module_def split: option.split sum.split prod.split)

lemma all_declare_approval_member:
  assumes "fst (all_declare_approval render ms r0)" and "m \<in> set ms"
    and "rg_modules r0 = rg_modules r" and "rg_descriptors r0 = rg_descriptors r"
  shows "fst (module_declares_approval render m r)"
  using assms
proof (induction render ms r0 rule: all_declare_approval.induct)
  case (2 render n ms r0)
  obtain b r1 where d: "module_declares_approval render n r0 = (b, r1)" by (metis prod.collapse)
  have maps: "rg_modules r1 = rg_modules r" "rg_descriptors r1 = rg_descriptors r"
    using d declared_annotations_maps(2,3) [OF refl refl] 2(4,5)
    by (auto simp: module_declares_approval_def split: prod.splits sum.splits dest!: arg_cong [where f = snd])
  have b: "b" using 2(2) d by (cases b) simp_all
  show ?case
  proof (cases "m = n")
    case True
    have "get_module n r0 = get_module n r" using 2(4) by (simp add: get_module_def)
    then have "fst (module_declares_approval render n r0) = fst (module_declares_approval render n r)"
      using declared_annotations_maps(1) [OF 2(4,5)] by (simp add: module_declares_approval_def split: prod.split)
        (metis fst_conv)
    with True b d show ?thesis by simp
  next
    case False
    with 2 d b maps show ?thesis by simp
  qed
qed simp


text \<open>What the lookup found and what the steps up to the gate left alone.\<close>

lemma lookup_keeps:
  "fst (context_creation_body c w) = Inr x \<Longrightarrow>
     cl_registry (snd (snd (context_creation_body c w))) = cl_registry w \<and> cl_acl (snd (snd (context_creation_body c w))) = cl_acl w"
  "fst (call_chain_guard_body c w) = Inr x \<Longrightarrow> snd (snd (call_chain_guard_body c w)) = w"
  "fst (module_lookup_body toggle c w) = Inr x \<Longrightarrow> snd (snd (module_lookup_body toggle c w)) = w \<and>
     (\<exists>obj. get_module (px_module_id c) (cl_registry w) = Inr (Some obj) \<and>
        px_module (fst (snd (module_lookup_body toggle c w))) = Some obj)"
  by (auto simp: context_creation_body_def call_chain_guard_body_def module_lookup_body_def derive_token_def outcome_defs
      Let_def split: option.splits sum.splits prod.splits if_splits)

lemma looked_up_state:
  fixes c :: "'h call_pctx"
  assumes "run_bodies (take 3 (standard_steps toggle)) c w = (None, c1, w1)"
  shows "cl_registry w1 = cl_registry w" "cl_acl w1 = cl_acl w" "same_call c c1"
    "\<exists>obj. get_module (px_module_id c) (cl_registry w) = Inr (Some obj) \<and> px_module c1 = Some obj"
proof -
  obtain z1 ca wa where a: "st_execute context_creation_step c w = (Inr z1, ca, wa)"
    and a2: "run_bodies [call_chain_guard_step, module_lookup_step toggle] ca wa = (None, c1, w1)"
    using assms unfolding standard_split(1) by (rule run_bodies_ConsD)
  obtain z2 cb wb where b: "st_execute call_chain_guard_step ca wa = (Inr z2, cb, wb)"
    and b2: "run_bodies [module_lookup_step toggle] cb wb = (None, c1, w1)"
    using a2 by (rule run_bodies_ConsD)
  obtain z3 where l: "st_execute (module_lookup_step toggle) cb wb = (Inr z3, c1, w1)"
    using b2 by (rule run_bodies_ConsD) simp
  have s: "same_call c ca" "same_call ca cb" "same_call cb c1"
    using same_call_bodies(1) [of c w] same_call_bodies(2) [of ca wa] same_call_bodies(3) [of cb toggle wb] a b l
    by (simp_all add: step_defs builtin_step_def)
  then show "same_call c c1" by (blast intro: same_call_trans)
  have 1: "cl_registry wa = cl_registry w \<and> cl_acl wa = cl_acl w"
    using lookup_keeps(1) [of c w] a by (simp add: step_defs builtin_step_def)
  have 2: "wb = wa" using lookup_keeps(2) [of ca wa] b by (simp add: step_defs builtin_step_def)
  have 3: "w1 = wb \<and> (\<exists>obj. get_module (px_module_id cb) (cl_registry wb) = Inr (Some obj) \<and> px_module c1 = Some obj)"
    using lookup_keeps(3) [of toggle cb wb] l by (simp add: step_defs builtin_step_def)
  show "cl_registry w1 = cl_registry w" "cl_acl w1 = cl_acl w" using 1 2 3 by simp_all
  have "px_module_id cb = px_module_id c" using s(1,2) by (simp add: same_call_def)
  with 1 2 3 show "\<exists>obj. get_module (px_module_id c) (cl_registry w) = Inr (Some obj) \<and> px_module c1 = Some obj"
    by simp
qed

lemma acl_check_keeps:
  "cl_registry (snd (snd (acl_check_body c w))) = cl_registry w" "px_module (fst (snd (acl_check_body c w))) = px_module c"
  by (simp_all add: acl_check_body_def emit_event_def outcome_defs Let_def split: option.split prod.split)

lemma take_token_keeps:
  "px_module (snd (take_approval_token c)) = px_module c" "px_module_id (snd (take_approval_token c)) = px_module_id c"
  "px_resources (snd (take_approval_token c)) = px_resources c"
  by (simp_all add: take_approval_token_def Let_def split: option.split json.split)

lemma checked_state:
  fixes c :: "'h call_pctx"
  assumes "run_bodies (take 4 (standard_steps toggle)) c w = (None, c2, w2)"
  shows "cl_registry w2 = cl_registry w" "same_call c c2"
    "\<exists>obj. get_module (px_module_id c) (cl_registry w) = Inr (Some obj) \<and> px_module c2 = Some obj"
proof -
  obtain c1 w1 where t: "run_bodies (take 3 (standard_steps toggle)) c w = (None, c1, w1)"
    and a: "run_bodies [acl_check_step] c1 w1 = (None, c2, w2)"
    using assms unfolding standard_split(2) by (rule run_bodies_None)
  obtain z where z: "acl_check_body c1 w1 = (Inr z, c2, w2)"
    using a by (rule run_bodies_ConsD) (simp add: acl_check_step_def builtin_step_def)
  note l = looked_up_state [OF t]
  show "cl_registry w2 = cl_registry w" using acl_check_keeps(1) [of c1 w1] z l(1) by simp
  have "same_call c1 c2" using same_call_bodies(4) [of c1 w1] z by simp
  with l(3) show "same_call c c2" by (rule same_call_trans)
  show "\<exists>obj. get_module (px_module_id c) (cl_registry w) = Inr (Some obj) \<and> px_module c2 = Some obj"
    using acl_check_keeps(2) [of c1 w1] z l(4) by simp
qed

lemma listed_module:
  assumes "bt_get (rg_modules r) m = Some obj"
  shows "m \<in> set (list_full None None (Some [''public'', ''hidden'']) r)"
proof -
  have "(m, obj) \<in> set (rg_modules r)" using assms by (simp add: bt_get_def map_of_SomeD)
  then show ?thesis by (force simp: list_full_def Let_def)
qed

text \<open>C4: a control module that the executor does not report as unprotected is gated. With the standard strategy and
  no execution policy, when \<open>governance_state\<close>, in the state in which the run starts, does not raise \<open>unprotected_control_surface\<close> and a module whose id
  starts with \<open>system.control.\<close> is registered, every run of the pipeline for it that returns an output passed a
  gate: an access list is attached and allowed the caller, or an approval handler is attached and, asked by the
  gate of this run, answered that the call is approved.\<close>

theorem unflagged_control_calls_are_gated:
  fixes x :: "'h executor"
  assumes "build_standard_strategy_with_toggle toggle = Inr (ex_strategy x)" and "rs_policy (ex_resources x) = None"
    and "\<not> gs_unprotected_control_surface (fst (governance_state_of x w))"
    and "prefix ''system.control.'' m" and "bt_get (rg_modules (cl_registry w)) m \<noteq> None"
    and "run_of_call x m c" and "engine_run (ex_strategy x) c w = (Inr (out, t), c', w')"
  shows "(\<exists>c1 w1 d. run_bodies (take 3 (standard_steps toggle)) c w = (None, c1, w1) \<and>
      access_of c1 w1 = Some d \<and> is_allowed d)
    \<or> (\<exists>h c2 w2. rs_handler (ex_resources x) = Some h \<and>
      run_bodies (take 4 (standard_steps toggle)) c w = (None, c2, w2) \<and> handler_approved h c2 w2)"
proof -
  have "\<not> px_dry_run c" using assms(6) by (simp add: run_of_call_def)
  from completed_runs_were_governed [OF assms(1) this assms(7)] have "governed_run toggle c w out w'" by simp
  then obtain c1 w1 c2 w2 where 3: "run_bodies (take 3 (standard_steps toggle)) c w = (None, c1, w1)"
    and g: "access_granted c1 w1" and 4: "run_bodies (take 4 (standard_steps toggle)) c w = (None, c2, w2)"
    and p: "passes_gate (access_needs_approval c1 w1) c2 w2" unfolding governed_run_def admitted_def by blast
  show ?thesis
  proof (cases "cl_acl w")
    case (Some a)
    then have "access_of c1 w1 \<noteq> None" using looked_up_state(2) [OF 3] by (simp add: access_of_def)
    with g 3 show ?thesis by (auto simp: access_granted_def)
  next
    case None
    obtain obj0 where "bt_get (rg_modules (cl_registry w)) m = Some obj0" using assms(5) by auto
    from listed_module [OF this] have m: "m \<in> set (filter (prefix ''system.control.'')
        (list_full None None (Some [''public'', ''hidden'']) (cl_registry w)))" using assms(4) by simp
    define control where "control = filter (prefix ''system.control.'')
        (list_full None None (Some [''public'', ''hidden'']) (cl_registry w))"
    have ne: "control \<noteq> []" using m unfolding control_def by force
    have "fst (all_declare_approval (rs_render (ex_resources x)) control (cl_registry w)) \<and>
        (rs_handler (ex_resources x) \<noteq> None \<or> strict_policy (ex_resources x))"
      using assms(3) None ne unfolding governance_state_of_def control_def [symmetric] Let_def
      by (simp split: prod.splits)
    moreover have "\<not> strict_policy (ex_resources x)" using assms(2) by (simp add: strict_policy_def)
    ultimately have all: "fst (all_declare_approval (rs_render (ex_resources x)) control (cl_registry w))"
      and h: "rs_handler (ex_resources x) \<noteq> None" by simp_all
    have dec: "fst (module_declares_approval (rs_render (ex_resources x)) m (cl_registry w))"
      by (rule all_declare_approval_member [OF all]) (use m in \<open>simp_all add: control_def\<close>)
    note st = checked_state [OF 4]
    have c2: "px_module_id c2 = m" "px_resources c2 = injected_resources x"
      using st(2) assms(6) by (simp_all add: same_call_def run_of_call_def)
    obtain obj where obj: "get_module m (cl_registry w) = Inr (Some obj)" "px_module c2 = Some obj"
      using st(3) assms(6) by (auto simp: run_of_call_def)
    define ct where "ct = snd (take_approval_token c2)"
    have ct: "px_module ct = Some obj" "px_module_id ct = m" "px_resources ct = injected_resources x"
      using take_token_keeps [of c2] c2 obj(2) by (simp_all add: ct_def)
    have res: "rs_render (injected_resources x) = rs_render (ex_resources x)"
      "rs_policy (injected_resources x) = None" "rs_handler (injected_resources x) = rs_handler (ex_resources x)"
      using assms(2) by (simp_all add: injected_resources_def)
    have "gate_annotations ct w2 = declared_annotations (rs_render (ex_resources x)) m (Some obj) (cl_registry w)"
      using ct res st(1) by (simp add: gated_object_def gate_annotations_def)
    with dec obj(1) have "case fst (gate_annotations ct w2) of None \<Rightarrow> False | Some a \<Rightarrow> ma_requires_approval a"
      by (simp add: module_declares_approval_def split: prod.splits)
    then have "approval_due (access_needs_approval c1 w1) ct (fst (gate_annotations ct w2))"
      using ct(3) res(2) by (auto simp: approval_due_def gate_decision_def effective_flags_def split: option.splits)
    with p h ct(3) res(3) 4 show ?thesis by (auto simp: passes_gate_def ct_def [symmetric] Let_def split: option.splits)
  qed
qed


text \<open>Of the policy the account only knows whether it is strict, so a rule that waives the approval of a control
  module leaves the flag down.\<close>

lemma account_ignores_policy_rules:
  assumes "strict_policy res' = strict_policy res" and "rs_render res' = rs_render res" and "rs_handler res' = rs_handler res"
  shows "governance_state_of (x\<lparr>ex_resources := res'\<rparr>) w = governance_state_of (x\<lparr>ex_resources := res\<rparr>) w"
  using assms by (simp add: governance_state_of_def Let_def)

subsection \<open>A concrete executor\<close>

definition standard_pipeline :: "unit call_pipeline" where
  "standard_pipeline = rebuild_index \<lparr>sy_name = ''standard'', sy_steps = standard_steps 0, sy_index = [], sy_middlewares = []\<rparr>"

definition echo_executor :: "unit executor" where
  "echo_executor = \<lparr>ex_handle = 0, ex_strategy = standard_pipeline, ex_resources = echo_resources,
     ex_manager = (\<lambda>_. manager_new), ex_toggle = 0\<rparr>"

definition control_world :: "acl option \<Rightarrow> unit world" where
  "control_world a = (echo_world a)\<lparr>cl_registry := registry_new\<lparr>rg_modules := [(''system.control.echo'', echo_module)]\<rparr>\<rparr>"

definition control_context :: "json call_context" where
  "control_context = px_context echo_call"

definition control_call :: "unit call_pctx" where
  "control_call = pctx_new ''system.control.echo'' (JString ''hi'') (control_context\<lparr>ctx_executor := Some 0\<rparr>) ''standard''
     (injected_resources echo_executor)"

lemma standard_pipeline_built: "build_standard_strategy_with_toggle 0 = Inr (ex_strategy echo_executor)"
  unfolding echo_executor_def standard_pipeline_def by (simp add: standard_strategy_exists)

lemmas control_defs = control_world_def control_context_def control_call_def injected_resources_def echo_executor_def

lemma control_prepared:
  "validate_call_id ''system.control.echo'' = None"
  "call_context_or_anonymous [] (Some control_context) w = (control_context, w)"
  "prepare_call echo_executor standard_pipeline ''system.control.echo'' (JString ''hi'') control_context None = Inr control_call"
proof -
  show "validate_call_id ''system.control.echo'' = None" by code_simp
  show "call_context_or_anonymous [] (Some control_context) w = (control_context, w)"
    by (simp add: call_context_or_anonymous_def)
  show "prepare_call echo_executor standard_pipeline ''system.control.echo'' (JString ''hi'') control_context None = Inr control_call"
    by (simp add: prepare_call_def bind_executor_def control_defs echo_call_def pctx_new_def standard_pipeline_def
        rebuild_index_def)
qed

lemma control_looked_up:
  "\<exists>c w. run_bodies (take 3 (standard_steps 0)) (control_call\<lparr>px_dry_run := dry\<rparr>) (control_world a) = (None, c, w) \<and>
     cl_acl w = a \<and> px_resources c = injected_resources echo_executor"
  apply (simp add: standard_split(1) step_defs builtin_step_def)
  apply (simp add: control_defs echo_defs lookup_body_defs)
  done

lemma control_runs:
  "\<exists>c w. run_bodies (standard_steps 0) control_call (control_world None) = (None, c, w) \<and> px_output c = Some (JString ''hi'')"
  apply (simp add: standard_steps_def step_defs builtin_step_def)
  apply (simp add: control_defs echo_defs lookup_body_defs)
  apply (simp add: acl_check_body_def outcome_defs)
  apply (simp add: gate_body_defs lookup_body_defs)
  apply (simp add: conclude_body_defs)
  apply (simp add: execution_body_defs lookup_body_defs manager_new_def execute_before_def execute_after_def)
  done

lemma control_engine:
  "\<exists>t c w. engine_run standard_pipeline control_call (control_world None) = (Inr (Some (JString ''hi''), t), c, w) \<and> pt_success t"
proof -
  obtain c w where "run_bodies (standard_steps 0) control_call (control_world None) = (None, c, w)"
    and o: "px_output c = Some (JString ''hi'')" using control_runs by blast
  moreover have "\<not> px_dry_run control_call" by (simp add: control_call_def pctx_new_def)
  ultimately show ?thesis
    using engine_run_bodies [OF standard_pipeline_built, of control_call "control_world None" None c w] unfolding echo_executor_def
    by auto
qed

lemma control_returns:
  "\<exists>w. executor_call echo_executor [] ''system.control.echo'' (JString ''hi'') (Some control_context) None (control_world None)
     = Some (Inr (JString ''hi''), w)"
proof -
  obtain t c w where "engine_run standard_pipeline control_call (control_world None) = (Inr (Some (JString ''hi''), t), c, w)"
    "pt_success t" using control_engine by blast
  moreover have "ex_strategy echo_executor = standard_pipeline" by (simp add: echo_executor_def)
  ultimately show ?thesis
    by (simp add: executor_call_def control_prepared call_loop.simps reject_aborted_trace_def or_null_def)
qed

theorem returned_values_were_governed_witness:
  "\<exists>c1 w1. admitted 0 control_call (control_world None) c1 w1"
proof -
  have y: "ex_strategy echo_executor = standard_pipeline" by (simp add: echo_executor_def)
  obtain w where "executor_call echo_executor [] ''system.control.echo'' (JString ''hi'') (Some control_context) None
      (control_world None) = Some (Inr (JString ''hi''), w)" using control_returns by blast
  from returned_values_were_governed [OF standard_pipeline_built this] obtain cx w0 c c1 w1
    where "call_context_or_anonymous [] (Some control_context) (control_world None) = (cx, w0)"
      and "prepare_call echo_executor (ex_strategy echo_executor) ''system.control.echo'' (JString ''hi'') cx None = Inr c"
      and "admitted 0 c w0 c1 w1" by blast
  then have "admitted 0 control_call (control_world None) c1 w1" by (auto simp: y control_prepared(2,3))
  then show ?thesis by blast
qed

theorem entry_points_agree_witness:
  "executor_call echo_executor [] ''system.control.echo'' (JString ''hi'') (Some control_context) None (control_world None) =
     (case call_with_trace echo_executor [] ''system.control.echo'' (JString ''hi'') (Some control_context) None None
        (control_world None) of (r, w') \<Rightarrow> Some (map_sum (\<lambda>e. e) fst r, w'))"
  by (rule entry_points_agree [OF control_prepared(1)]) (simp add: echo_executor_def manager_new_def)

theorem denied_preflight_runs_nothing_witness:
  "\<exists>res w'. (\<forall>host. validate_call host echo_executor [] ''system.control.echo'' (JString ''hi'') (Some control_context)
        (control_world (Some deny_all)) = (res, w')) \<and> \<not> pf_valid res \<and> acl_check_failed (pf_checks res)"
proof -
  have y: "ex_strategy echo_executor = standard_pipeline" by (simp add: echo_executor_def)
  obtain c w where r: "run_bodies (take 3 (standard_steps 0)) (control_call\<lparr>px_dry_run := True\<rparr>) (control_world (Some deny_all))
      = (None, c, w)" and w: "cl_acl w = Some deny_all" "px_resources c = injected_resources echo_executor"
    using control_looked_up by blast
  have "\<not> access_granted c w"
    using w by (simp add: access_granted_def access_of_def async_check_access_def deny_all_def acl_new_unchecked_def
        finish_no_rules_def finalize_no_rules_def is_allowed_def access_decision_new_def split: prod.split)
  from denied_preflight_runs_nothing [OF standard_pipeline_built control_prepared(1,2) control_prepared(3) [folded y] r this]
  show ?thesis by blast
qed

theorem unflagged_control_calls_are_gated_witness:
  "\<exists>h c2 w2. rs_handler echo_resources = Some h \<and>
     run_bodies (take 4 (standard_steps 0)) control_call (control_world None) = (None, c2, w2) \<and> handler_approved h c2 w2"
proof -
  obtain t c w where e: "engine_run (ex_strategy echo_executor) control_call (control_world None) =
      (Inr (Some (JString ''hi''), t), c, w)" using control_engine by (auto simp: echo_executor_def)
  have rc: "run_of_call echo_executor ''system.control.echo'' control_call"
    by (simp add: run_of_call_def control_call_def pctx_new_def)
  have m: "prefix ''system.control.'' ''system.control.echo''" by code_simp
  have reg: "bt_get (rg_modules (cl_registry (control_world None))) ''system.control.echo'' \<noteq> None"
    by (simp add: control_world_def bt_get_Cons)
  have u: "\<not> gs_unprotected_control_surface (fst (governance_state_of echo_executor (control_world None)))"
    by (simp add: governance_state_of_def control_world_def echo_world_def registry_new_def list_full_def
        descriptor_is_discoverable_def gate_wired_def standard_pipeline_def rebuild_index_def standard_steps_def step_defs
        builtin_step_def module_declares_approval_def declared_annotations_def get_definition_def get_module_def bt_get_Cons
        governance_union_def echo_module_def echo_executor_def echo_resources_def Let_def)
  have p: "rs_policy (ex_resources echo_executor) = None" by (simp add: echo_executor_def echo_resources_def)
  have n: "access_of c1 w1 = None" if "run_bodies (take 3 (standard_steps 0)) control_call (control_world None) = (None, c1, w1)" for c1 w1
    using looked_up_state(2) [OF that] by (simp add: access_of_def control_world_def echo_world_def)
  show ?thesis
    using unflagged_control_calls_are_gated [OF standard_pipeline_built p u m reg rc e] n by (auto simp: echo_executor_def)
qed

end
