(* ===== verification/Spec2Isabelle.thy ===== *)
theory Spec2Isabelle
  imports Names Contexts Policy Conditions AclLoad Stalls CallBreakers Onion Cancel TaskRuns RegistryOps ConfigFacts ExecutorFacts
begin

text \<open>
  A verification library for apcore-rust, the Rust runtime of the apcore protocol: modules are registered under an
  id, and a call of a module goes through a pipeline of steps that controls access, asks for approval, validates,
  runs middlewares and executes the module's body. Paths are those under \<open>src/\<close>.

  \<^bold>\<open>How the parts work together.\<close> \<open>Executor::call\<close> (\<open>src/src/executor.rs\<close>) binds a context to itself, puts its
  resources into a pipeline context and hands it to \<open>PipelineEngine::run\<close> (\<open>src/src/pipeline.rs\<close>), which runs the
  steps of an \<open>ExecutionStrategy\<close> one after the other. The eleven built-in steps (\<open>src/src/builtin_steps.rs\<close>) derive
  the child context and its cancel token (\<open>src/src/context.rs\<close>, \<open>cancel.rs\<close>), guard the call chain
  (\<open>utils/helpers.rs\<close>), look the module up (\<open>registry/registry.rs\<close>), ask the access list (\<open>acl.rs\<close>,
  \<open>acl_handlers.rs\<close>), pass the approval gate (\<open>approval.rs\<close>, \<open>policy.rs\<close>), run the middlewares (\<open>middleware/\<close>)
  around validation and execution, and return. An error leaves through the error hooks of the middlewares,
  which may recover the call or have it retried. The configuration (\<open>config.rs\<close>) gives the limits and
  timeouts; the task manager (\<open>async_task.rs\<close>) runs calls in the background.

  \<^bold>\<open>The theories.\<close>
  \<^item> \<open>Prelude\<close>: strings, ordered maps as sorted lists (\<open>bt_get\<close>, \<open>bt_insert\<close>, \<open>bt_remove\<close>) and JSON values, with the
    lemmas all theories share. \<open>Floats\<close>: the readers of numbers in texts and in JSON.
  \<^item> \<open>Errors\<close> (\<open>errors.rs\<close>): the error codes and their wire strings, \<open>ModuleError\<close> with its wrappers, and the
    registry of error codes, whose invariant is that codes never collide.
  \<^item> \<open>Patterns\<close>, \<open>Names\<close> (\<open>utils/helpers.rs\<close>, \<open>utils/name.rs\<close>): the two wildcard matchers, proved equal to a
    backtracking reference, and the canonical form of names.
  \<^item> \<open>Contexts\<close> (\<open>context.rs\<close>): contexts with shared data maps, their serialization, and the call-chain guard, whose
    accepted chains are characterised exactly.
  \<^item> \<open>Policy\<close> (\<open>policy.rs\<close>), \<open>Conditions\<close> (\<open>acl_handlers.rs\<close>), \<open>Acl\<close> and \<open>AclLoad\<close> (\<open>acl.rs\<close>): the resolution of an
    execution policy; the two evaluators of rule conditions against a three-valued meaning; the two rule scans
    against the first effective rule; what a loaded rule file satisfies, and what the lint guarantees.
  \<^item> \<open>Versions\<close>, \<open>Dependencies\<close>, \<open>Stalls\<close> (\<open>registry/version.rs\<close>, \<open>registry/dependencies.rs\<close>): version hints and the
    versioned store; Kahn's algorithm, which returns and gives a correct load order; the classification of a
    stall by a depth-first search.
  \<^item> \<open>Registry\<close>, \<open>RegistryRuns\<close>, \<open>RegistryOps\<close> (\<open>registry/registry.rs\<close>, \<open>registry/conflicts.rs\<close>): the registry as
    critical sections; every interleaving of registrations, removals, drains and acquisitions; and the same
    operations run alone from start to end.
  \<^item> \<open>ModuleTypes\<close>, \<open>StrictSchemas\<close> (\<open>module.rs\<close>, \<open>schema/strict.rs\<close>, \<open>schema/hardening.rs\<close>): annotations, changes and
    preflight results with their JSON forms; the conversion of schemas to strict mode.
  \<^item> \<open>Breakers\<close>, \<open>CallBreakers\<close> (\<open>events/circuit_breaker.rs\<close>, \<open>middleware/circuit_breaker.rs\<close>): the two circuit
    breakers; when the second opens and which calls it lets probe.
  \<^item> \<open>Cancel\<close> (\<open>cancel.rs\<close>): token trees and execution scopes as interleaved critical sections; an abort reaches
    exactly the executions below it.
  \<^item> \<open>Tasks\<close>, \<open>TaskRuns\<close> (\<open>async_task.rs\<close>): task stores, retry delays and the manager's operations; the workers,
    cancellations, sweeps and shutdown as threads.
  \<^item> \<open>ConfigStore\<close>, \<open>ConfigLoad\<close>, \<open>ConfigChecks\<close>, \<open>ConfigFacts\<close> (\<open>config.rs\<close>): the configuration as a document beside
    typed sections, with its tiers of defaults; loading, namespaces and the environment; the constraint
    tables; and what these guarantee together.
  \<^item> \<open>Strategy\<close>, \<open>Engine\<close>, \<open>Onion\<close> (\<open>pipeline.rs\<close>): strategies and their mutations, which never weaken a governance
    gate; the engine, one function per stage of its loop; the order of the step hooks.
  \<^item> \<open>Middlewares\<close>, \<open>CallWorld\<close> (\<open>middleware/manager.rs\<close>, \<open>base.rs\<close>, \<open>retry.rs\<close>, \<open>context_key.rs\<close>): the middleware
    manager and its chains; what the steps of a call share.
  \<^item> \<open>BuiltinSteps\<close>, \<open>GovernedCalls\<close> (\<open>builtin_steps.rs\<close>, \<open>approval.rs\<close>): the bodies of the eleven steps and the preset
    strategies; the engine runs them as a plain sequence, so what they check holds of whole runs.
  \<^item> \<open>Executor\<close>, \<open>ExecutorFacts\<close> (\<open>executor.rs\<close>, \<open>utils/error_propagation.rs\<close>): \<open>call\<close>, \<open>call_with_trace\<close>, \<open>validate\<close>
    and \<open>governance_state\<close>, and what they guarantee across all the parts.

  \<^bold>\<open>How code becomes definitions.\<close> A struct is a record, an enumeration a datatype, a trait object the record of its
  methods. A fallible operation returns a sum with the error on the left. Mutation is a returned state; data that
  the code shares through an \<open>Arc\<close> has an address in an explicit store. A critical section is one function, and
  concurrent operations are interleavings of critical sections (\<open>token_act\<close>, the threads of \<open>TaskRuns\<close> and
  \<open>RegistryRuns\<close>). An \<open>expect\<close> that fails in a step is an error of that call.

  \<^bold>\<open>Interfaces.\<close> Locales state what several implementations share, and are interpreted on the definitions of the
  code: \<open>segment_search\<close> on the two matchers, \<open>rule_scan\<close> on the synchronous and the asynchronous rule scan,
  \<open>gate\<close> and \<open>breaker\<close> on the two circuit breakers, \<open>key_value_map\<close> on the ordered maps, \<open>path_store\<close> on the documents
  of the configuration, and \<open>faithful_store\<close> on the in-memory task store.

  \<^bold>\<open>Termination and fuel.\<close> Loops are structural or have a measure; the engine's loop goes forward only, by its
  index. Kahn's loop gets one unit of fuel per module, which is enough because each turn takes a module off
  (\<open>kahn_loop_finishes\<close>). The strict conversion recurses on the weight of the schema, the suffix matching on the
  length of the suffix. The retries of a call may go on for ever, so \<open>call_loop\<close> is a partial function:
  \<open>None\<close> is a call that does not return, and \<open>entry_points_agree\<close> shows that a call returns when no middleware asks
  for a retry.

  \<^bold>\<open>Parameters.\<close> What is not in the repository is an argument: module bodies, their \<open>preflight\<close> and \<open>preview\<close>, the
  answers of \<open>on_load\<close>, middlewares, custom steps, approval handlers, a host's condition handlers, the readings of
  clocks, the rounding of floating-point operations, random ids, the compiled form of JSON schemas and of regular
  expressions, the rendering of scalars, parsed files, the environment and the file system.

  \<^bold>\<open>Not modelled.\<close> Texts of messages, time stamps and durations; streaming; the rules of redaction by schema (a
  parameter of the steps); the reading of pipelines, bindings, modules and schemas from files; the client facade,
  extensions, delivery of events, observability, trace headers, the system modules and the negotiation of
  versions. These are input and output, forward to the parts above, or wrap other crates.
\<close>

end
